(* ===== verification/Prelude.thy ===== *)
theory Prelude
  imports Main "HOL-Library.AList" "HOL-Library.Sublist" "HOL-Library.Word"
    "HOL-Library.Char_ord" "HOL-Library.List_Lexorder"
begin

unbundle bit_operations_syntax

text \<open>
  The prelude of the development: the collections of facts that the component theories
  feed and use, the names of the types that occur everywhere, and the generic lemmas on
  lists, association lists and sum types that carry the component proofs.

  \<^item> \<open>go_simps\<close> collects the definitions of small Go library functions;
  \<^item> \<open>path_simps\<close> collects the rewrite rules that turn string operations on clean
    paths into operations on lists of components;
  \<^item> \<open>fs_inv_intros\<close> collects the rules that establish the tree invariant.
\<close>

named_theorems go_simps "definitions of small library functions of the source language"
named_theorems path_simps "string operations on clean paths as operations on component lists"
named_theorems fs_inv_intros "preservation of the in-memory tree invariant"

text \<open>Byte strings: a Go string or byte slice is a list of bytes, written as characters.\<close>

type_synonym bytes = string

text \<open>A file mode is a 32-bit word, open flags a machine word, as in the source.\<close>

type_synonym FileMode = "32 word"
type_synonym goflags = "64 word"

text \<open>
  An instant of \<open>time.Time\<close>: nanoseconds since the zero time, so that the zero value
  of the source's type (tested by \<open>IsZero\<close>) is 0 and \<open>UTC()\<close> is the identity.
\<close>

type_synonym gotime = int

abbreviation IsZero :: "gotime \<Rightarrow> bool" where
  "IsZero t \<equiv> t = 0"

section \<open>Splitting at a separator and joining\<close>

text \<open>\<open>strings.Split\<close> and \<open>strings.Join\<close> for a separator of one byte.\<close>

fun split_on :: "char \<Rightarrow> string \<Rightarrow> string list" where
  "split_on c [] = [[]]"
| "split_on c (x # xs) =
     (if x = c then [] # split_on c xs
      else (x # hd (split_on c xs)) # tl (split_on c xs))"

fun join_with :: "char \<Rightarrow> string list \<Rightarrow> string" where
  "join_with c [] = []"
| "join_with c [x] = x"
| "join_with c (x # y # ys) = x @ c # join_with c (y # ys)"

lemma split_on_nonempty [simp]: "split_on c xs \<noteq> []"
  by (cases xs) auto

lemma join_split_on [simp]: "join_with c (split_on c s) = s"
proof (induction s)
  case (Cons x xs)
  obtain h t where ht: "split_on c xs = h # t"
    by (cases "split_on c xs") auto
  with Cons show ?case by (cases t) auto
qed simp

lemma split_on_no_sep: "c \<notin> set s \<Longrightarrow> split_on c s = [s]"
  by (induction s) auto

lemma split_on_append:
  "c \<notin> set s \<Longrightarrow> split_on c (s @ c # t) = s # split_on c t"
  by (induction s) auto

lemma split_on_elems: "x \<in> set (split_on c s) \<Longrightarrow> c \<notin> set x"
proof (induction s arbitrary: x)
  case (Cons a s)
  obtain h t where ht: "split_on c s = h # t"
    by (cases "split_on c s") auto
  from Cons.IH ht have h: "c \<notin> set h" and t: "\<And>y. y \<in> set t \<Longrightarrow> c \<notin> set y"
    by auto
  from Cons.prems ht h t show ?case by (auto split: if_splits)
qed simp

lemma split_on_join:
  "xs \<noteq> [] \<Longrightarrow> (\<And>x. x \<in> set xs \<Longrightarrow> c \<notin> set x) \<Longrightarrow> split_on c (join_with c xs) = xs"
proof (induction c xs rule: join_with.induct)
  case (3 c x y ys)
  then have "split_on c (x @ c # join_with c (y # ys)) = x # split_on c (join_with c (y # ys))"
    by (intro split_on_append) auto
  with 3 show ?case by simp
qed (auto simp: split_on_no_sep)

lemma join_with_snoc:
  "join_with c (xs @ [x]) = (if xs = [] then x else join_with c xs @ c # x)"
proof (induction c xs rule: join_with.induct)
  case (3 c y z zs)
  then show ?case by (cases zs) auto
qed auto

lemma join_with_append:
  "xs \<noteq> [] \<Longrightarrow> ys \<noteq> [] \<Longrightarrow> join_with c (xs @ ys) = join_with c xs @ c # join_with c ys"
proof (induction c xs rule: join_with.induct)
  case (2 c x)
  then show ?case by (cases ys) auto
qed auto

lemma join_with_Cons:
  "join_with c (x # xs) = (if xs = [] then x else x @ c # join_with c xs)"
  by (cases xs) auto

lemma split_on_sep_left: "split_on c (c # s) = [] # split_on c s"
  by simp

lemma split_on_append_sep:
  "split_on c (s @ c # t) = split_on c s @ split_on c t"
proof (induction s)
  case (Cons a s)
  obtain h r where "split_on c s = h # r"
    by (cases "split_on c s") auto
  with Cons show ?case by auto
qed simp

section \<open>Association lists as Go maps\<close>

text \<open>
  A Go map is an association list with distinct keys; iteration order never matters to
  the facts proved. \<open>AList.update\<close> is assignment, \<open>filter\<close> on the key is deletion.
\<close>

lemma map_of_filter_key:
  "map_of (filter (\<lambda>kv. P (fst kv)) xs) k = (if P k then map_of xs k else None)"
  by (induction xs) auto

lemma distinct_filter_keys:
  "distinct (map fst xs) \<Longrightarrow> distinct (map fst (filter P xs))"
  by (induction xs) auto

lemma map_of_map_key:
  assumes "inj_on f (fst ` set xs)" and "k \<in> fst ` set xs"
  shows "map_of (map (\<lambda>(a, b). (f a, b)) xs) (f k) = map_of xs k"
  using assms by (induction xs) (auto simp: inj_on_def)

lemma map_of_dom_iff: "map_of xs k \<noteq> None \<longleftrightarrow> k \<in> fst ` set xs"
  by (induction xs) auto

lemma map_of_update [simp]:
  "map_of (AList.update k v al) k' = (if k' = k then Some v else map_of al k')"
  by (simp add: update_conv')

section \<open>Results\<close>

text \<open>Fallible operations return \<open>Inl\<close> of the error or \<open>Inr\<close> of the value.\<close>

definition is_ok :: "'e + 'a \<Rightarrow> bool" where
  "is_ok r = (case r of Inl _ \<Rightarrow> False | Inr _ \<Rightarrow> True)"

lemma is_ok_simps [simp]: "is_ok (Inr x)" "\<not> is_ok (Inl e)"
  by (simp_all add: is_ok_def)

lemma is_ok_iff: "is_ok r \<longleftrightarrow> (\<exists>x. r = Inr x)"
  by (cases r) auto

definition bind_r :: "'e + 'a \<Rightarrow> ('a \<Rightarrow> 'e + 'b) \<Rightarrow> 'e + 'b" where
  "bind_r r f = (case r of Inl e \<Rightarrow> Inl e | Inr x \<Rightarrow> f x)"

lemma bind_r_simps [simp]:
  "bind_r (Inl e) f = Inl e" "bind_r (Inr x) f = f x"
  by (simp_all add: bind_r_def)

lemma bind_r_InrE:
  assumes "bind_r r f = Inr y"
  obtains x where "r = Inr x" and "f x = Inr y"
  using assms by (cases r) auto

end
