(* ===== verification/GoLib.thy ===== *)
theory GoLib
  imports Prelude
begin

text \<open>
  What the source uses of the Go standard library: the error values and
  \<open>errors.Is\<close>, the bits of \<open>io/fs.FileMode\<close> and of the open flags, the
  lexical functions of package \<open>path\<close> and the trimming of package \<open>strings\<close>.
  These are the language's own library, so they have definitions and no source lines.
\<close>

section \<open>Errors\<close>

datatype errno =
    ErrInvalid | ErrPermission | ErrExist | ErrNotExist | ErrClosed
  | ENOENT | ENOTDIR | EBUSY | EXDEV | EFBIG
  | ErrClosedPipe | ErrEOF | ErrShortWrite | ErrTooManySymlinks | ErrContext

datatype go_error =
    Errno errno
  | PathError string string go_error
  | LinkError string string string go_error
  | Errorf string
  | Wrapf string go_error
  | DeniedError string string string
  | ForeignError nat

text \<open>
  \<open>errors.Is\<close> follows \<open>Unwrap\<close>; a system error number matches the portable
  value it stands for.
\<close>

fun errno_is :: "errno \<Rightarrow> errno \<Rightarrow> bool" where
  "errno_is ENOENT t = (t = ENOENT \<or> t = ErrNotExist)"
| "errno_is e t = (e = t)"

fun errors_Is :: "go_error \<Rightarrow> errno \<Rightarrow> bool" where
  "errors_Is (Errno e) t = errno_is e t"
| "errors_Is (PathError _ _ e) t = errors_Is e t"
| "errors_Is (LinkError _ _ _ e) t = errors_Is e t"
| "errors_Is (Wrapf _ e) t = errors_Is e t"
| "errors_Is _ t = False"

section \<open>File modes\<close>

definition ModeDir :: FileMode where "ModeDir = 0x80000000"
definition ModeSymlink :: FileMode where "ModeSymlink = 0x08000000"
definition ModeDevice :: FileMode where "ModeDevice = 0x04000000"
definition ModeNamedPipe :: FileMode where "ModeNamedPipe = 0x02000000"
definition ModeSocket :: FileMode where "ModeSocket = 0x01000000"
definition ModeSetuid :: FileMode where "ModeSetuid = 0x00800000"
definition ModeSetgid :: FileMode where "ModeSetgid = 0x00400000"
definition ModeCharDevice :: FileMode where "ModeCharDevice = 0x00200000"
definition ModeSticky :: FileMode where "ModeSticky = 0x00100000"
definition ModeIrregular :: FileMode where "ModeIrregular = 0x00080000"
definition ModePerm :: FileMode where "ModePerm = 0x1FF"

definition ModeType :: FileMode where
  "ModeType = ModeDir OR ModeSymlink OR ModeNamedPipe OR ModeSocket OR ModeDevice
     OR ModeCharDevice OR ModeIrregular"

lemmas mode_bits = ModeDir_def ModeSymlink_def ModeDevice_def ModeNamedPipe_def ModeSocket_def
  ModeSetuid_def ModeSetgid_def ModeCharDevice_def ModeSticky_def ModeIrregular_def
  ModePerm_def ModeType_def

definition mode_IsDir :: "FileMode \<Rightarrow> bool" where "mode_IsDir m = (m AND ModeDir \<noteq> 0)"
definition mode_IsRegular :: "FileMode \<Rightarrow> bool" where "mode_IsRegular m = (m AND ModeType = 0)"
definition mode_Perm :: "FileMode \<Rightarrow> FileMode" where "mode_Perm m = m AND ModePerm"
definition mode_Type :: "FileMode \<Rightarrow> FileMode" where "mode_Type m = m AND ModeType"

section \<open>Open flags\<close>

definition O_RDONLY :: goflags where "O_RDONLY = 0"
definition O_WRONLY :: goflags where "O_WRONLY = 1"
definition O_RDWR :: goflags where "O_RDWR = 2"
definition O_CREATE :: goflags where "O_CREATE = 0x40"
definition O_EXCL :: goflags where "O_EXCL = 0x80"
definition O_TRUNC :: goflags where "O_TRUNC = 0x200"
definition O_APPEND :: goflags where "O_APPEND = 0x400"

lemmas flag_bits = O_RDONLY_def O_WRONLY_def O_RDWR_def O_CREATE_def O_EXCL_def O_TRUNC_def
  O_APPEND_def

section \<open>Package path\<close>

abbreviation slash :: char where "slash \<equiv> CHR ''/''"

text \<open>
  \<open>path.Clean\<close>: empty and \<open>.\<close> components are dropped, \<open>..\<close> removes the component
  before it, is dropped at the root and kept at the start of a relative path. The
  accumulator is the output so far, last component first.
\<close>

fun clean_stack :: "bool \<Rightarrow> string list \<Rightarrow> string list \<Rightarrow> string list" where
  "clean_stack rooted acc [] = rev acc"
| "clean_stack rooted acc (c # cs) =
     (if c = '''' \<or> c = ''.'' then clean_stack rooted acc cs
      else if c = ''..'' then
        (case acc of
           [] \<Rightarrow> clean_stack rooted (if rooted then [] else [''..'']) cs
         | t # ts \<Rightarrow> clean_stack rooted (if t = ''..'' then ''..'' # acc else ts) cs)
      else clean_stack rooted (c # acc) cs)"

definition path_Clean :: "string \<Rightarrow> string" where
  "path_Clean p =
     (if p = '''' then ''.''
      else
        let rooted = (hd p = slash); out = clean_stack rooted [] (split_on slash p)
        in if rooted then slash # join_with slash out
           else if out = [] then ''.'' else join_with slash out)"

text \<open>\<open>path.Join\<close> of two elements: empty elements are dropped.\<close>

definition path_Join :: "string \<Rightarrow> string \<Rightarrow> string" where
  "path_Join a b =
     (if a = '''' \<and> b = '''' then ''''
      else if a = '''' then path_Clean b
      else path_Clean (a @ slash # b))"

text \<open>\<open>path.Join\<close> of any number of elements.\<close>

definition path_JoinAll :: "string list \<Rightarrow> string" where
  "path_JoinAll elems =
     (let es = filter (\<lambda>e. e \<noteq> '''') elems
      in if es = [] then '''' else path_Clean (join_with slash es))"

text \<open>\<open>path.Dir\<close> and \<open>path.Base\<close>.\<close>

definition path_Dir :: "string \<Rightarrow> string" where
  "path_Dir p = path_Clean (rev (dropWhile (\<lambda>c. c \<noteq> slash) (rev p)))"

definition path_Base :: "string \<Rightarrow> string" where
  "path_Base p =
     (if p = '''' then ''.''
      else
        let q = dropWhile (\<lambda>c. c = slash) (rev p);
            b = rev (takeWhile (\<lambda>c. c \<noteq> slash) q)
        in if b = '''' then ''/'' else b)"

definition path_IsAbs :: "string \<Rightarrow> bool" where
  "path_IsAbs p = (p \<noteq> '''' \<and> hd p = slash)"

section \<open>Package strings\<close>

definition HasPrefix :: "string \<Rightarrow> string \<Rightarrow> bool" where
  "HasPrefix s p = prefix p s"

definition TrimPrefix :: "string \<Rightarrow> string \<Rightarrow> string" where
  "TrimPrefix s p = (if prefix p s then drop (length p) s else s)"

text \<open>
  \<open>strings.TrimSpace\<close> removes the Unicode white space at both ends; the table lists
  the UTF-8 encodings of those code points.
\<close>

definition white_space :: "string list" where
  "white_space =
     [[CHR 0x09], [CHR 0x0A], [CHR 0x0B], [CHR 0x0C], [CHR 0x0D], [CHR 0x20],
      [CHR 0xC2, CHR 0x85], [CHR 0xC2, CHR 0xA0], [CHR 0xE1, CHR 0x9A, CHR 0x80],
      [CHR 0xE2, CHR 0x80, CHR 0x80], [CHR 0xE2, CHR 0x80, CHR 0x81],
      [CHR 0xE2, CHR 0x80, CHR 0x82], [CHR 0xE2, CHR 0x80, CHR 0x83],
      [CHR 0xE2, CHR 0x80, CHR 0x84], [CHR 0xE2, CHR 0x80, CHR 0x85],
      [CHR 0xE2, CHR 0x80, CHR 0x86], [CHR 0xE2, CHR 0x80, CHR 0x87],
      [CHR 0xE2, CHR 0x80, CHR 0x88], [CHR 0xE2, CHR 0x80, CHR 0x89],
      [CHR 0xE2, CHR 0x80, CHR 0x8A], [CHR 0xE2, CHR 0x80, CHR 0xA8],
      [CHR 0xE2, CHR 0x80, CHR 0xA9], [CHR 0xE2, CHR 0x80, CHR 0xAF],
      [CHR 0xE2, CHR 0x81, CHR 0x9F], [CHR 0xE3, CHR 0x80, CHR 0x80]]"

lemma white_space_nonempty: "w \<in> set white_space \<Longrightarrow> w \<noteq> []"
  by (auto simp: white_space_def)

function trim_prefixes :: "string list \<Rightarrow> string \<Rightarrow> string" where
  "trim_prefixes ws s =
     (case find (\<lambda>w. w \<noteq> [] \<and> prefix w s) ws of
        None \<Rightarrow> s
      | Some w \<Rightarrow> trim_prefixes ws (drop (length w) s))"
  by pat_completeness auto
termination
  by (relation "measure (\<lambda>(ws, s). length s)")
    (auto simp: find_Some_iff prefix_def)

declare trim_prefixes.simps [simp del]

definition TrimSpace :: "string \<Rightarrow> string" where
  "TrimSpace s = rev (trim_prefixes (map rev white_space) (rev (trim_prefixes white_space s)))"

lemma trim_prefixes_suffix: "suffix (trim_prefixes ws s) s"
proof (induction ws s rule: trim_prefixes.induct)
  case (1 ws s)
  show ?case
  proof (cases "find (\<lambda>w. w \<noteq> [] \<and> prefix w s) ws")
    case None
    then show ?thesis by (simp add: trim_prefixes.simps [of ws s])
  next
    case (Some w)
    with 1 have "suffix (trim_prefixes ws (drop (length w) s)) (drop (length w) s)"
      by simp
    then have "suffix (trim_prefixes ws (drop (length w) s)) s"
      using suffix_drop suffix_order.trans by blast
    with Some show ?thesis by (simp add: trim_prefixes.simps [of ws s])
  qed
qed

lemma TrimSpace_example: "TrimSpace '' a b '' = ''a b''"
  by code_simp

end
