(* ===== verification/Paths.thy ===== *)
theory Paths
  imports GoLib
begin

text \<open>
  The lexical path functions of \<open>fs/fs.go\<close>, with \<open>parentDir\<close> of
  \<open>fs/memory.go\<close> and \<open>isDescendantPath\<close> of \<open>fs/overlay.go\<close>, and the theory of
  clean absolute paths they rest on: a clean path is \<open>render cs\<close> for a unique list
  \<open>cs\<close> of valid components, and every function of this file is a simple operation on
  that list. The component proofs of the file systems use only the rules collected in
  \<open>path_simps\<close>.
\<close>

section \<open>Definitions\<close>

definition Clean :: "string \<Rightarrow> string" where
  "Clean name =
     (if name = '''' then ''/''
      else
        let name' = (if HasPrefix name ''/'' then name else ''/'' @ name);
            name'' = path_Clean name'
        in if name'' = ''.'' then ''/'' else name'')"

definition Resolve :: "string \<Rightarrow> string \<Rightarrow> string" where
  "Resolve dir name =
     (if name = '''' then Clean dir
      else if HasPrefix name ''/'' then Clean name
      else Clean (path_Join (if dir = '''' then ''/'' else dir) name))"

definition hasDotDotComponent :: "string \<Rightarrow> bool" where
  "hasDotDotComponent name = list_ex (\<lambda>part. part = ''..'') (split_on slash name)"

definition joinClean :: "string \<Rightarrow> string \<Rightarrow> string" where
  "joinClean dir name = (if dir = ''/'' then ''/'' @ name else dir @ ''/'' @ name)"

definition parentDir :: "string \<Rightarrow> string" where
  "parentDir name = (if name = ''/'' then ''/'' else Clean (path_Dir name))"

definition isDescendantPath :: "string \<Rightarrow> string \<Rightarrow> bool" where
  "isDescendantPath name parent =
     (Clean name \<noteq> Clean parent \<and> HasPrefix (Clean name) (Clean parent @ ''/''))"

text \<open>
  \<open>ResolvePhysical\<close>: the file system enters through its \<open>Realpath\<close> only, which is
  the argument \<open>realpath\<close> (\<open>None\<close> for an error).
\<close>

fun resolve_physical_parts ::
  "(string \<Rightarrow> string option) \<Rightarrow> string \<Rightarrow> string list \<Rightarrow> string" where
  "resolve_physical_parts realpath current [] = current"
| "resolve_physical_parts realpath current (part # parts) =
     (if part = '''' \<or> part = ''.'' then resolve_physical_parts realpath current parts
      else if part = ''..'' then
        let current' = (case realpath current of Some r \<Rightarrow> Clean r | None \<Rightarrow> current)
        in resolve_physical_parts realpath (parentDir current') parts
      else resolve_physical_parts realpath (joinClean current part) parts)"

definition ResolvePhysical ::
  "(string \<Rightarrow> string option) option \<Rightarrow> string \<Rightarrow> string \<Rightarrow> string" where
  "ResolvePhysical fsys dir name =
     (case fsys of
        None \<Rightarrow> Resolve dir name
      | Some realpath \<Rightarrow>
          if \<not> hasDotDotComponent name then Resolve dir name
          else resolve_physical_parts realpath
                 (if HasPrefix name ''/'' then ''/'' else Clean dir)
                 (split_on slash name))"

section \<open>Clean paths and their components\<close>

definition valid_comp :: "string \<Rightarrow> bool" where
  "valid_comp c \<longleftrightarrow> c \<noteq> '''' \<and> c \<noteq> ''.'' \<and> c \<noteq> ''..'' \<and> slash \<notin> set c"

abbreviation valid_comps :: "string list \<Rightarrow> bool" where
  "valid_comps cs \<equiv> list_all valid_comp cs"

definition render :: "string list \<Rightarrow> string" where
  "render cs = slash # join_with slash cs"

text \<open>The components of a name read as an absolute path.\<close>

definition abs_comps :: "string \<Rightarrow> string list" where
  "abs_comps p = clean_stack True [] (split_on slash p)"

definition clean_path :: "string \<Rightarrow> bool" where
  "clean_path p \<longleftrightarrow> (\<exists>cs. valid_comps cs \<and> p = render cs)"

lemma clean_stack_valid:
  "valid_comps acc \<Longrightarrow> list_all (\<lambda>c. slash \<notin> set c) cs \<Longrightarrow>
   valid_comps (clean_stack True acc cs)"
proof (induction cs arbitrary: acc)
  case (Cons c cs)
  show ?case
  proof (cases "c = '''' \<or> c = ''.''")
    case True
    with Cons show ?thesis by auto
  next
    case False
    with Cons show ?thesis
      by (cases acc) (auto simp: valid_comp_def)
  qed
qed (simp add: list_all_iff)

lemma clean_stack_ident:
  "valid_comps cs \<Longrightarrow> clean_stack r acc cs = rev acc @ cs"
  by (induction cs arbitrary: acc) (auto simp: valid_comp_def)

lemma clean_stack_append:
  "valid_comps xs \<Longrightarrow> clean_stack r acc (xs @ ys) = clean_stack r (rev xs @ acc) ys"
  by (induction xs arbitrary: acc) (auto simp: valid_comp_def)

lemma clean_stack_app_gen:
  "clean_stack r acc (xs @ ys) = clean_stack r (rev (clean_stack r acc xs)) ys"
proof (induction xs arbitrary: acc)
  case (Cons x xs)
  then show ?case by (auto split: list.splits)
qed simp

lemma abs_comps_valid [simp]: "valid_comps (abs_comps p)"
  unfolding abs_comps_def
  by (rule clean_stack_valid) (auto simp: list_all_iff dest: split_on_elems)

lemma abs_comps_slash: "abs_comps (slash # p) = abs_comps p"
  by (simp add: abs_comps_def)

lemma abs_comps_Nil [simp]: "abs_comps '''' = []"
  by (simp add: abs_comps_def)

lemma abs_comps_render [simp]: "valid_comps cs \<Longrightarrow> abs_comps (render cs) = cs"
proof -
  assume v: "valid_comps cs"
  show ?thesis
  proof (cases "cs = []")
    case True
    then show ?thesis by (simp add: render_def abs_comps_def)
  next
    case False
    then have "split_on slash (join_with slash cs) = cs"
      using v by (intro split_on_join) (auto simp: list_all_iff valid_comp_def)
    with v show ?thesis by (simp add: render_def abs_comps_def clean_stack_ident)
  qed
qed

lemma render_inj: "valid_comps cs \<Longrightarrow> valid_comps ds \<Longrightarrow> render cs = render ds \<longleftrightarrow> cs = ds"
  by (metis abs_comps_render)

lemma render_Nil [simp]: "render [] = ''/''"
  by (simp add: render_def)

lemma render_eq_root [simp]: "valid_comps cs \<Longrightarrow> render cs = ''/'' \<longleftrightarrow> cs = []"
  using render_inj [of cs "[]"] by simp

lemma Clean_eq: "Clean name = render (abs_comps name)"
proof (cases name)
  case Nil
  then show ?thesis by (simp add: Clean_def)
next
  case (Cons c s)
  show ?thesis
  proof (cases "c = slash")
    case True
    with Cons show ?thesis
      by (simp add: Clean_def HasPrefix_def path_Clean_def abs_comps_def render_def Let_def)
  next
    case False
    with Cons show ?thesis
      by (simp add: Clean_def HasPrefix_def path_Clean_def abs_comps_def render_def Let_def)
  qed
qed

lemma clean_path_Clean [simp]: "clean_path (Clean p)"
  unfolding clean_path_def Clean_eq using abs_comps_valid by blast

lemma Clean_render [path_simps, simp]: "valid_comps cs \<Longrightarrow> Clean (render cs) = render cs"
  by (simp add: Clean_eq)

lemma Clean_id: "clean_path p \<Longrightarrow> Clean p = p"
  by (auto simp: clean_path_def)

lemma clean_path_render [simp]: "valid_comps cs \<Longrightarrow> clean_path (render cs)"
  by (auto simp: clean_path_def)

lemma Clean_root [simp]: "Clean ''/'' = ''/''"
  using Clean_render [of "[]"] by simp

lemma clean_pathE:
  assumes "clean_path p"
  obtains cs where "valid_comps cs" and "p = render cs"
  using assms by (auto simp: clean_path_def)

lemma clean_path_root [simp]: "clean_path ''/''"
  using clean_path_render [of "[]"] by simp

lemma render_abs_comps: "clean_path p \<Longrightarrow> render (abs_comps p) = p"
  by (metis Clean_eq Clean_id)

section \<open>The path functions on components\<close>

lemma render_snoc [path_simps]:
  "valid_comps cs \<Longrightarrow> joinClean (render cs) c = render (cs @ [c])"
  by (cases "cs = []") (simp_all add: joinClean_def, simp_all add: render_def join_with_snoc)

lemma valid_comps_no_slash: "valid_comps cs \<Longrightarrow> c \<in> set cs \<Longrightarrow> slash \<notin> set c"
  by (auto simp: list_all_iff valid_comp_def)

lemma valid_comps_prefix: "valid_comps qs \<Longrightarrow> prefix ps qs \<Longrightarrow> valid_comps ps"
  by (auto simp: prefix_def)

lemma render_snoc_split:
  "valid_comps cs \<Longrightarrow>
   render (cs @ [c]) = (if cs = [] then [] else render cs) @ slash # c"
  by (simp add: render_def join_with_snoc)

lemma path_Clean_rooted: "path_Clean (slash # s) = render (abs_comps s)"
  by (simp add: path_Clean_def abs_comps_def render_def Let_def)

lemma Clean_path_Clean_rooted: "Clean (path_Clean (slash # s)) = Clean s"
  by (simp add: path_Clean_rooted Clean_eq)

lemma abs_comps_append:
  "abs_comps (s @ slash # t) = clean_stack True (rev (abs_comps s)) (split_on slash t)"
  by (simp add: abs_comps_def split_on_append_sep clean_stack_app_gen)

lemma takeWhile_rev_snoc:
  "slash \<notin> set c \<Longrightarrow> takeWhile (\<lambda>x. x \<noteq> slash) (rev c @ slash # ys) = rev c"
  by (subst takeWhile_append2) auto

lemma dropWhile_rev_snoc:
  "slash \<notin> set c \<Longrightarrow> dropWhile (\<lambda>x. x \<noteq> slash) (rev c @ slash # ys) = slash # ys"
  by (subst dropWhile_append2) auto

lemma path_Base_render [path_simps, simp]:
  assumes "valid_comps (cs @ [c])"
  shows "path_Base (render (cs @ [c])) = c"
proof -
  from assms have c: "slash \<notin> set c" "c \<noteq> []" and cs: "valid_comps cs"
    by (auto simp: valid_comp_def)
  define pre where "pre = (if cs = [] then [] else render cs)"
  have eq: "render (cs @ [c]) = pre @ slash # c"
    using cs by (simp add: render_snoc_split pre_def)
  from c have "dropWhile (\<lambda>c. c = slash) (rev c @ slash # rev pre) = rev c @ slash # rev pre"
    by (cases "rev c") auto
  with c show ?thesis
    by (simp add: path_Base_def eq takeWhile_rev_snoc Let_def)
qed

lemma path_Dir_render:
  assumes "valid_comps (cs @ [c])"
  shows "path_Dir (render (cs @ [c])) = render cs"
proof -
  from assms have c: "slash \<notin> set c" and cs: "valid_comps cs"
    by (auto simp: valid_comp_def)
  define pre where "pre = (if cs = [] then [] else render cs)"
  have eq: "render (cs @ [c]) = pre @ slash # c"
    using cs by (simp add: render_snoc_split pre_def)
  have "path_Dir (render (cs @ [c])) = path_Clean (pre @ ''/'')"
    using c by (simp add: path_Dir_def eq dropWhile_rev_snoc)
  also have "\<dots> = render cs"
  proof (cases "cs = []")
    case True
    then show ?thesis using path_Clean_rooted [of "[]"] by (simp add: pre_def)
  next
    case False
    have "path_Clean (render cs @ ''/'') = path_Clean (slash # (join_with slash cs @ slash # []))"
      by (simp add: render_def)
    also have "\<dots> = render (abs_comps (join_with slash cs @ slash # []))"
      by (rule path_Clean_rooted)
    also have "abs_comps (join_with slash cs) = cs"
      using abs_comps_render [OF cs] by (simp add: render_def abs_comps_slash)
    then have "abs_comps (join_with slash cs @ slash # []) = cs"
      by (simp add: abs_comps_append)
    finally show ?thesis using False by (simp add: pre_def)
  qed
  finally show ?thesis .
qed

lemma parentDir_root [path_simps, simp]: "parentDir ''/'' = ''/''"
  by (simp add: parentDir_def)

lemma parentDir_render [path_simps, simp]:
  assumes "valid_comps (cs @ [c])"
  shows "parentDir (render (cs @ [c])) = render cs"
proof -
  have "render (cs @ [c]) \<noteq> ''/''"
    using assms by (subst render_eq_root) auto
  moreover have "valid_comps cs" using assms by simp
  ultimately show ?thesis
    using path_Dir_render [OF assms] by (simp add: parentDir_def)
qed

lemma parentDir_clean [simp]: "clean_path (parentDir p)"
  by (auto simp: parentDir_def)

lemma Resolve_clean [simp]: "clean_path (Resolve dir name)"
  by (simp add: Resolve_def)

lemma Resolve_abs: "HasPrefix name ''/'' \<Longrightarrow> Resolve dir name = Clean name"
  by (auto simp: Resolve_def HasPrefix_def)

lemma Resolve_rel:
  assumes "valid_comps ds" and "\<not> HasPrefix name ''/''"
  shows "Resolve (render ds) name = render (clean_stack True (rev ds) (split_on slash name))"
proof (cases "name = []")
  case True
  with assms show ?thesis by (simp add: Resolve_def)
next
  case False
  have "path_Join (render ds) name = path_Clean (slash # (join_with slash ds @ slash # name))"
    by (simp add: path_Join_def render_def)
  also have "\<dots> = render (abs_comps (join_with slash ds @ slash # name))"
    by (rule path_Clean_rooted)
  also have "abs_comps (join_with slash ds) = ds"
    using abs_comps_render [OF assms(1)] by (simp add: render_def abs_comps_slash)
  then have "abs_comps (join_with slash ds @ slash # name) =
      clean_stack True (rev ds) (split_on slash name)"
    by (simp add: abs_comps_append)
  finally have j: "path_Join (render ds) name =
      render (clean_stack True (rev ds) (split_on slash name))" .
  have "valid_comps (clean_stack True (rev ds) (split_on slash name))"
    using assms(1) by (intro clean_stack_valid) (auto simp: list_all_iff dest: split_on_elems)
  with j False assms show ?thesis
    by (simp add: Resolve_def render_def [of ds])
qed

lemma join_not_abs: "valid_comps cs \<Longrightarrow> \<not> HasPrefix (join_with slash cs) ''/''"
proof (cases cs)
  case (Cons c cs')
  assume "valid_comps cs"
  with Cons have "c \<noteq> []" "slash \<notin> set c" by (auto simp: valid_comp_def)
  with Cons show ?thesis
    by (cases c) (auto simp: HasPrefix_def join_with_Cons)
qed (simp add: HasPrefix_def)

lemma Resolve_join [path_simps]:
  assumes "valid_comps ds" "valid_comps cs"
  shows "Resolve (render ds) (join_with slash cs) = render (ds @ cs)"
proof (cases "cs = []")
  case True
  with assms show ?thesis by (simp add: Resolve_def)
next
  case False
  then have "split_on slash (join_with slash cs) = cs"
    using assms valid_comps_no_slash by (intro split_on_join) auto
  with assms show ?thesis
    by (simp add: Resolve_rel join_not_abs clean_stack_ident)
qed

lemma Resolve_comp [path_simps]:
  assumes "valid_comps (ds @ [c])"
  shows "Resolve (render ds) c = render (ds @ [c])"
  using Resolve_join [of ds "[c]"] assms by simp

section \<open>The subtree test\<close>

text \<open>
  The source tests membership in the subtree of a path by comparing strings: equal, or
  starting with the path and a slash. On clean paths this is the prefix order of the
  component lists.
\<close>

lemma split_join_valid: "valid_comps cs \<Longrightarrow> cs \<noteq> [] \<Longrightarrow> split_on slash (join_with slash cs) = cs"
  using valid_comps_no_slash by (intro split_on_join) auto

lemma prefix_slash_iff:
  assumes "valid_comps ps" "valid_comps qs" "ps \<noteq> []"
  shows "prefix (render ps @ ''/'') (render qs) \<longleftrightarrow> strict_prefix ps qs"
proof
  assume "prefix (render ps @ ''/'') (render qs)"
  then obtain z where j: "join_with slash qs = join_with slash ps @ slash # z"
    by (auto simp: render_def prefix_def)
  then have "qs \<noteq> []" by auto
  from j have "split_on slash (join_with slash qs) =
      split_on slash (join_with slash ps) @ split_on slash z"
    by (simp add: split_on_append_sep)
  with \<open>qs \<noteq> []\<close> assms have "qs = ps @ split_on slash z"
    by (simp add: split_join_valid)
  then show "strict_prefix ps qs" by (auto simp: strict_prefix_def)
next
  assume "strict_prefix ps qs"
  then obtain ys where qs: "qs = ps @ ys" and ys: "ys \<noteq> []"
    by (auto simp: strict_prefix_def prefix_def)
  with assms(3) have "join_with slash qs = join_with slash ps @ slash # join_with slash ys"
    by (simp add: join_with_append)
  then show "prefix (render ps @ ''/'') (render qs)"
    by (simp add: render_def prefix_def)
qed

lemma subtree_iff:
  assumes "valid_comps ps" "valid_comps qs" "ps \<noteq> []"
  shows "render qs = render ps \<or> HasPrefix (render qs) (render ps @ ''/'') \<longleftrightarrow> prefix ps qs"
  using assms by (auto simp: HasPrefix_def prefix_slash_iff render_inj strict_prefix_def)

lemma HasPrefix_root: "valid_comps qs \<Longrightarrow> \<not> HasPrefix (render qs) ''//''"
  using join_not_abs [of qs] by (simp add: HasPrefix_def render_def)

lemma isDescendantPath_iff:
  assumes "valid_comps ps" "valid_comps qs"
  shows "isDescendantPath (render qs) (render ps) \<longleftrightarrow> ps \<noteq> [] \<and> strict_prefix ps qs"
proof (cases "ps = []")
  case True
  with HasPrefix_root [of qs] assms show ?thesis
    by (simp add: isDescendantPath_def)
next
  case False
  with assms show ?thesis
    by (auto simp: isDescendantPath_def HasPrefix_def prefix_slash_iff render_inj)
qed

end
