(* ===== verification/Fifo.thy ===== *)
theory Fifo
  imports GoLib
begin

text \<open>
  The in-memory named pipe of \<open>fs/fifo.go\<close>. A blocking call is cut at its
  \<open>cond.Wait()\<close>: one pass through the loop, made under the pipe's lock, either
  finishes the call or waits, and a waiting call is resumed by any later broadcast. The
  open contexts' error (\<open>ctxErr\<close>) is the argument \<open>ctx\<close> of a pass.
\<close>

section \<open>State\<close>

text \<open>\<open>canWrite\<close> and \<open>canRead\<close> of \<open>fs/memory.go\<close>: the access mode of an open.\<close>

definition canWrite :: "goflags \<Rightarrow> bool" where
  "canWrite flag =
     (let acc = flag AND (O_RDONLY OR O_WRONLY OR O_RDWR) in acc = O_WRONLY \<or> acc = O_RDWR)"

definition canRead :: "goflags \<Rightarrow> bool" where
  "canRead flag = (flag AND (O_RDONLY OR O_WRONLY OR O_RDWR) \<noteq> O_WRONLY)"

record memoryFIFO =
  q_buf :: bytes
  q_readers :: nat
  q_writers :: nat
  q_readerEpoch :: nat
  q_writerEpoch :: nat

record memoryFIFOFile =
  ff_path :: string
  ff_readable :: bool
  ff_writable :: bool
  ff_closed :: bool
  ff_readerEpoch :: nat
  ff_sawReader :: bool
  ff_writerEpoch :: nat
  ff_sawWriter :: bool

definition memoryFIFOCapacity :: nat where
  "memoryFIFOCapacity = 64 * 2 ^ 10"

definition newMemoryFIFO :: memoryFIFO where
  "newMemoryFIFO =
     \<lparr>q_buf = [], q_readers = 0, q_writers = 0, q_readerEpoch = 0, q_writerEpoch = 0\<rparr>"

definition fifo_clone :: "memoryFIFO option \<Rightarrow> memoryFIFO option" where
  "fifo_clone f = map_option (\<lambda>q. newMemoryFIFO\<lparr>q_buf := q_buf q\<rparr>) f"

section \<open>Operations\<close>

definition newMemoryFIFOFile ::
  "string \<Rightarrow> goflags \<Rightarrow> memoryFIFO \<Rightarrow> memoryFIFOFile \<times> memoryFIFO" where
  "newMemoryFIFOFile path flag q =
     (let r = canRead flag; w = canWrite flag;
          q1 = (if r then q\<lparr>q_readerEpoch := (if q_readers q = 0 then Suc (q_readerEpoch q)
                                              else q_readerEpoch q),
                            q_readers := Suc (q_readers q)\<rparr> else q);
          file = \<lparr>ff_path = path, ff_readable = r, ff_writable = w, ff_closed = False,
                  ff_readerEpoch = (if w then q_readerEpoch q1 else 0),
                  ff_sawReader = (w \<and> 0 < q_readers q1),
                  ff_writerEpoch = (if r then q_writerEpoch q1 else 0),
                  ff_sawWriter = (r \<and> 0 < q_writerEpoch q1)\<rparr>;
          q2 = (if w then q1\<lparr>q_writerEpoch := Suc (q_writerEpoch q1),
                             q_writers := Suc (q_writers q1)\<rparr> else q1)
      in (file, q2))"

text \<open>The outcome of one pass: the call returns, or it waits for a broadcast.\<close>

datatype 'a io = Done 'a | Wait

text \<open>\<open>Read\<close>: the checks made on entry, then one pass of the waiting loop.\<close>

definition fifo_read_loop ::
  "go_error option \<Rightarrow> nat \<Rightarrow> memoryFIFOFile \<Rightarrow> memoryFIFO \<Rightarrow>
   (go_error + bytes) io \<times> memoryFIFOFile \<times> memoryFIFO" where
  "fifo_read_loop ctx n f q =
     (if q_buf q = [] then
        if ff_closed f then (Done (Inl (Errno ErrClosed)), f, q)
        else if q_writers q = 0 \<and> (ff_sawWriter f \<or> q_writerEpoch q \<noteq> ff_writerEpoch f)
        then (Done (Inl (Errno ErrEOF)), f, q)
        else
          let f' = f\<lparr>ff_sawWriter := ff_sawWriter f \<or> 0 < q_writers q\<rparr>
          in (case ctx of
                Some e \<Rightarrow> (Done (Inl (PathError ''read'' (ff_path f) e)), f', q)
              | None \<Rightarrow> (Wait, f', q))
      else
        (Done (Inr (take n (q_buf q))), f\<lparr>ff_sawWriter := True\<rparr>,
         q\<lparr>q_buf := drop n (q_buf q)\<rparr>))"

definition fifo_read ::
  "go_error option \<Rightarrow> nat \<Rightarrow> memoryFIFOFile \<Rightarrow> memoryFIFO \<Rightarrow>
   (go_error + bytes) io \<times> memoryFIFOFile \<times> memoryFIFO" where
  "fifo_read ctx n f q =
     (if ff_closed f then (Done (Inl (Errno ErrClosed)), f, q)
      else if \<not> ff_readable f
      then (Done (Inl (PathError ''read'' (ff_path f) (Errno ErrPermission))), f, q)
      else if n = 0 then (Done (Inr []), f, q)
      else fifo_read_loop ctx n f q)"

text \<open>
  \<open>Write\<close>: one pass from \<open>rest\<close>, the bytes not yet written. The pass stores chunks
  until nothing is left or it has to wait; the second component of the result is the
  number of bytes this pass stored.
\<close>

function fifo_write_loop ::
  "go_error option \<Rightarrow> bytes \<Rightarrow> memoryFIFOFile \<Rightarrow> memoryFIFO \<Rightarrow>
   (go_error option) io \<times> nat \<times> memoryFIFOFile \<times> memoryFIFO" where
  "fifo_write_loop ctx rest f q =
     (if rest = [] then (Done None, 0, f, q)
      else if q_readers q = 0 \<or> memoryFIFOCapacity \<le> length (q_buf q) then
        if ff_closed f then (Done (Some (Errno ErrClosed)), 0, f, q)
        else if q_readers q = 0 \<and> (ff_sawReader f \<or> q_readerEpoch q \<noteq> ff_readerEpoch f)
        then (Done (Some (PathError ''write'' (ff_path f) (Errno ErrClosedPipe))), 0, f, q)
        else (case ctx of
                Some e \<Rightarrow> (Done (Some (PathError ''write'' (ff_path f) e)), 0, f, q)
              | None \<Rightarrow> (Wait, 0, f, q))
      else
        let chunk = min (length rest) (memoryFIFOCapacity - length (q_buf q));
            f' = f\<lparr>ff_sawReader := True, ff_readerEpoch := q_readerEpoch q\<rparr>;
            q' = q\<lparr>q_buf := q_buf q @ take chunk rest\<rparr>;
            (r, n, f'', q'') = fifo_write_loop ctx (drop chunk rest) f' q'
        in (r, chunk + n, f'', q''))"
  by pat_completeness auto
termination
  by (relation "measure (\<lambda>(ctx, rest, f, q). length rest)") auto

declare fifo_write_loop.simps [simp del]

definition fifo_write ::
  "go_error option \<Rightarrow> bytes \<Rightarrow> memoryFIFOFile \<Rightarrow> memoryFIFO \<Rightarrow>
   (go_error option) io \<times> nat \<times> memoryFIFOFile \<times> memoryFIFO" where
  "fifo_write ctx p f q =
     (if ff_closed f then (Done (Some (Errno ErrClosed)), 0, f, q)
      else if \<not> ff_writable f
      then (Done (Some (PathError ''write'' (ff_path f) (Errno ErrPermission))), 0, f, q)
      else if p = [] then (Done None, 0, f, q)
      else fifo_write_loop ctx p f q)"

definition fifo_close :: "memoryFIFOFile \<Rightarrow> memoryFIFO \<Rightarrow> memoryFIFOFile \<times> memoryFIFO" where
  "fifo_close f q =
     (if ff_closed f then (f, q)
      else
        let q1 = (if ff_readable f \<and> 0 < q_readers q then q\<lparr>q_readers := q_readers q - 1\<rparr> else q);
            q2 = (if ff_writable f \<and> 0 < q_writers q1 then q1\<lparr>q_writers := q_writers q1 - 1\<rparr>
                  else q1)
        in (f\<lparr>ff_closed := True\<rparr>, q2))"

end
