(* ===== verification/MemoryFS.thy ===== *)
theory MemoryFS
  imports Paths Fifo
begin

text \<open>
  The in-memory file system of \<open>fs/memory.go\<close>: its state and one definition per
  operation.

  The source keeps a map from clean absolute paths to node pointers. Two paths may hold
  the same pointer (hard links) and open handles hold pointers too, so nodes live in a
  store addressed by references: \<open>fs_nodes\<close> maps paths to references, \<open>fs_heap\<close>
  references to nodes, and \<open>fs_nextRef\<close> is the next unused reference. Every operation
  runs under the file system's lock, so it is one atomic step; the clock reading
  (\<open>time.Now\<close>) is the argument \<open>now\<close>. A lazy provider is represented by the result
  its call gives.
\<close>

section \<open>State\<close>

record memoryNode =
  n_id :: nat
  n_mode :: FileMode
  n_data :: bytes
  n_fifo :: "memoryFIFO option"
  n_lazy :: "(go_error + bytes) option"
  n_lazySize :: int
  n_lazySized :: bool
  n_target :: string
  n_children :: "string set"
  n_atime :: gotime
  n_modTime :: gotime
  n_uid :: "32 word"
  n_gid :: "32 word"

record MemoryFS =
  fs_cwd :: string
  fs_nodes :: "(string \<times> nat) list"
  fs_heap :: "nat \<Rightarrow> memoryNode"
  fs_nextRef :: nat
  fs_nextNodeID :: nat
  fs_implicitParents :: bool

definition maxSymlinkDepth :: nat where "maxSymlinkDepth = 40"

definition seedableTypeBits :: FileMode where
  "seedableTypeBits = ModeNamedPipe OR ModeDevice OR ModeCharDevice"

definition storedPermBits :: FileMode where
  "storedPermBits = ModePerm OR ModeSetuid OR ModeSetgid OR ModeSticky"

definition DefaultOwnerUID :: "32 word" where "DefaultOwnerUID = 1000"
definition DefaultOwnerGID :: "32 word" where "DefaultOwnerGID = 1000"

text \<open>The zero value of the node struct, with the owner every constructor sets.\<close>

definition blank_node :: "FileMode \<Rightarrow> gotime \<Rightarrow> memoryNode" where
  "blank_node mode now =
     \<lparr>n_id = 0, n_mode = mode, n_data = [], n_fifo = None, n_lazy = None, n_lazySize = 0,
      n_lazySized = False, n_target = [], n_children = {}, n_atime = now, n_modTime = now,
      n_uid = DefaultOwnerUID, n_gid = DefaultOwnerGID\<rparr>"

definition NewMemory :: "gotime \<Rightarrow> MemoryFS" where
  "NewMemory now =
     \<lparr>fs_cwd = ''/'', fs_nodes = [(''/'', 0)],
      fs_heap = (\<lambda>_. (blank_node (ModeDir OR 0x1ED) now)\<lparr>n_id := 1\<rparr>),
      fs_nextRef = 1, fs_nextNodeID = 1, fs_implicitParents = False\<rparr>"

definition newMemoryWithImplicitParents :: "gotime \<Rightarrow> MemoryFS" where
  "newMemoryWithImplicitParents now = (NewMemory now)\<lparr>fs_implicitParents := True\<rparr>"

section \<open>Elementary state changes\<close>

text \<open>
  \<open>m.nodes[p]\<close>, allocation of a node with the next identifier, assignment of a map
  entry, and the changes of a directory's set of children. The source dereferences
  \<open>m.nodes[parentDir(p)]\<close> without a test; the invariant of theory \<open>MemoryFS_Inv\<close>
  shows that the entry exists wherever it does.
\<close>

definition ref_at :: "MemoryFS \<Rightarrow> string \<Rightarrow> nat option" where
  "ref_at m p = map_of (fs_nodes m) p"

definition node_at :: "MemoryFS \<Rightarrow> string \<Rightarrow> memoryNode option" where
  "node_at m p = map_option (fs_heap m) (ref_at m p)"

definition newNodeIDLocked :: "MemoryFS \<Rightarrow> nat \<times> MemoryFS" where
  "newNodeIDLocked m =
     (Suc (fs_nextNodeID m), m\<lparr>fs_nextNodeID := Suc (fs_nextNodeID m)\<rparr>)"

definition alloc_node :: "memoryNode \<Rightarrow> MemoryFS \<Rightarrow> nat \<times> MemoryFS" where
  "alloc_node node m =
     (let (i, m1) = newNodeIDLocked m; r = fs_nextRef m1
      in (r, m1\<lparr>fs_nextRef := Suc r, fs_heap := (fs_heap m1)(r := node\<lparr>n_id := i\<rparr>)\<rparr>))"

definition set_ref :: "string \<Rightarrow> nat \<Rightarrow> MemoryFS \<Rightarrow> MemoryFS" where
  "set_ref p r m = m\<lparr>fs_nodes := AList.update p r (fs_nodes m)\<rparr>"

definition update_node :: "nat \<Rightarrow> (memoryNode \<Rightarrow> memoryNode) \<Rightarrow> MemoryFS \<Rightarrow> MemoryFS" where
  "update_node r f m = m\<lparr>fs_heap := (fs_heap m)(r := f (fs_heap m r))\<rparr>"

definition add_child :: "string \<Rightarrow> string \<Rightarrow> MemoryFS \<Rightarrow> MemoryFS" where
  "add_child p c m =
     (case ref_at m p of
        None \<Rightarrow> m
      | Some r \<Rightarrow> update_node r (\<lambda>n. n\<lparr>n_children := insert c (n_children n)\<rparr>) m)"

definition del_child :: "string \<Rightarrow> string \<Rightarrow> MemoryFS \<Rightarrow> MemoryFS" where
  "del_child p c m =
     (case ref_at m p of
        None \<Rightarrow> m
      | Some r \<Rightarrow> update_node r (\<lambda>n. n\<lparr>n_children := n_children n - {c}\<rparr>) m)"

text \<open>A new node stored at \<open>p\<close> and entered in its parent, as every creation does.\<close>

definition install :: "string \<Rightarrow> memoryNode \<Rightarrow> MemoryFS \<Rightarrow> nat \<times> MemoryFS" where
  "install p node m =
     (let (r, m1) = alloc_node node m
      in (r, add_child (parentDir p) (path_Base p) (set_ref p r m1)))"

section \<open>Path resolution\<close>

text \<open>
  A walk along the components of a path either returns or restarts resolution at the
  target of a symbolic link; \<open>next_part\<close> is the scan for the next slash.
\<close>

datatype 'a walk = Return "go_error + 'a" | Restart string

definition next_part :: "string \<Rightarrow> string \<times> string" where
  "next_part remaining =
     (takeWhile (\<lambda>c. c \<noteq> slash) remaining, tl (dropWhile (\<lambda>c. c \<noteq> slash) remaining))"

lemma next_part_less: "remaining \<noteq> [] \<Longrightarrow> next_part remaining = (a, b) \<Longrightarrow> length b < length remaining"
proof -
  assume "remaining \<noteq> []" and "next_part remaining = (a, b)"
  moreover have "length (dropWhile (\<lambda>c. c \<noteq> slash) remaining) \<le> length remaining"
    by (rule length_dropWhile_le)
  ultimately show ?thesis
    by (cases "dropWhile (\<lambda>c. c \<noteq> slash) remaining") (auto simp: next_part_def)
qed

function resolveAbs_loop ::
  "MemoryFS \<Rightarrow> bool \<Rightarrow> bool \<Rightarrow> string \<Rightarrow> string \<Rightarrow> (string \<times> nat option) walk" where
  "resolveAbs_loop m followFinal allowMissingFinal current remaining =
     (if remaining = '''' then
        (case ref_at m ''/'' of
           None \<Rightarrow> Return (Inl (Errno ErrNotExist))
         | Some r \<Rightarrow> Return (Inr (''/'', Some r)))
      else
        let (part, rest) = next_part remaining; nxt = joinClean current part;
            isLast = (rest = '''')
        in (case ref_at m nxt of
              None \<Rightarrow>
                if isLast \<and> allowMissingFinal then Return (Inr (nxt, None))
                else Return (Inl (Errno ErrNotExist))
            | Some r \<Rightarrow>
                let node = fs_heap m r
                in if n_mode node AND ModeSymlink \<noteq> 0 \<and> (\<not> isLast \<or> followFinal) then
                     let target = Resolve (parentDir nxt) (n_target node)
                     in Restart (if isLast then target else Resolve target rest)
                   else if isLast then Return (Inr (nxt, Some r))
                   else if \<not> mode_IsDir (n_mode node) then Return (Inl (Errno ErrInvalid))
                   else resolveAbs_loop m followFinal allowMissingFinal nxt rest))"
  by pat_completeness auto
termination
  by (relation "measure (\<lambda>(m, f, a, c, remaining). length remaining)")
    (auto intro: next_part_less [OF _ sym])

declare resolveAbs_loop.simps [simp del]

text \<open>
  \<open>resolveAbsLocked\<close>: after a link has been followed the final component is always
  followed, whatever the caller asked for.
\<close>

function resolveAbsLocked ::
  "MemoryFS \<Rightarrow> string \<Rightarrow> bool \<Rightarrow> bool \<Rightarrow> nat \<Rightarrow> go_error + string \<times> nat option" where
  "resolveAbsLocked m name followFinal allowMissingFinal depth =
     (let absn = Clean name
      in if maxSymlinkDepth < depth then Inl (Errno ErrTooManySymlinks)
         else if absn = ''/'' then
           (case ref_at m ''/'' of
              None \<Rightarrow> Inl (Errno ErrNotExist)
            | Some r \<Rightarrow> Inr (''/'', Some r))
         else (case resolveAbs_loop m followFinal allowMissingFinal ''/'' (tl absn) of
                 Return r \<Rightarrow> r
               | Restart target \<Rightarrow>
                   resolveAbsLocked m target True allowMissingFinal (Suc depth)))"
  by pat_completeness auto
termination
  by (relation "measure (\<lambda>(m, p, f, a, depth). Suc maxSymlinkDepth - depth)")
    (auto simp: maxSymlinkDepth_def)

declare resolveAbsLocked.simps [simp del]

definition resolvePathLocked ::
  "MemoryFS \<Rightarrow> string \<Rightarrow> bool \<Rightarrow> bool \<Rightarrow> go_error + string \<times> nat option" where
  "resolvePathLocked m name followFinal allowMissingFinal =
     resolveAbsLocked m (Resolve (fs_cwd m) name) followFinal allowMissingFinal 0"

function resolveCreate_loop :: "MemoryFS \<Rightarrow> string \<Rightarrow> string \<Rightarrow> string \<Rightarrow> string walk" where
  "resolveCreate_loop m absn current remaining =
     (if remaining = '''' then Return (Inr absn)
      else
        let (part, rest) = next_part remaining; nxt = joinClean current part;
            isLast = (rest = '''')
        in (case ref_at m nxt of
              None \<Rightarrow> Return (Inr (if isLast then nxt else Resolve nxt rest))
            | Some r \<Rightarrow>
                let node = fs_heap m r
                in if n_mode node AND ModeSymlink \<noteq> 0 then
                     let target = Resolve (parentDir nxt) (n_target node)
                     in Restart (if isLast then target else Resolve target rest)
                   else if isLast then Return (Inr nxt)
                   else if \<not> mode_IsDir (n_mode node) then Return (Inl (Errno ErrInvalid))
                   else resolveCreate_loop m absn nxt rest))"
  by pat_completeness auto
termination
  by (relation "measure (\<lambda>(m, a, c, remaining). length remaining)")
    (auto intro: next_part_less [OF _ sym])

declare resolveCreate_loop.simps [simp del]

function resolveCreatePathLocked :: "MemoryFS \<Rightarrow> string \<Rightarrow> nat \<Rightarrow> go_error + string" where
  "resolveCreatePathLocked m name depth =
     (let absn = Clean name
      in if maxSymlinkDepth < depth then Inl (Errno ErrTooManySymlinks)
         else if absn = ''/'' then Inr absn
         else (case resolveCreate_loop m absn ''/'' (tl absn) of
                 Return r \<Rightarrow> r
               | Restart target \<Rightarrow> resolveCreatePathLocked m target (Suc depth)))"
  by pat_completeness auto
termination
  by (relation "measure (\<lambda>(m, p, depth). Suc maxSymlinkDepth - depth)")
    (auto simp: maxSymlinkDepth_def)

declare resolveCreatePathLocked.simps [simp del]

definition createParentError :: "go_error \<Rightarrow> go_error" where
  "createParentError err = (if errors_Is err ErrInvalid then Errno ENOTDIR else err)"

section \<open>Creating directories\<close>

function mkdirAll_loop ::
  "gotime \<Rightarrow> FileMode \<Rightarrow> string \<Rightarrow> string \<Rightarrow> MemoryFS \<Rightarrow> (go_error + unit) \<times> MemoryFS" where
  "mkdirAll_loop now perm current remaining m =
     (if remaining = '''' then (Inr (), m)
      else
        let (part, rest) = next_part remaining; nxt = joinClean current part
        in (case ref_at m nxt of
              Some r \<Rightarrow>
                let node = fs_heap m r
                in if n_mode node AND ModeSymlink \<noteq> 0 then
                     (case resolveAbsLocked m nxt True False 0 of
                        Inl e \<Rightarrow> (Inl (PathError ''mkdir'' nxt e), m)
                      | Inr (resolved, None) \<Rightarrow>
                          (Inl (PathError ''mkdir'' nxt (Errno ErrNotExist)), m)
                      | Inr (resolved, Some r') \<Rightarrow>
                          if \<not> mode_IsDir (n_mode (fs_heap m r')) then
                            (Inl (PathError ''mkdir'' nxt (Errno ErrInvalid)), m)
                          else mkdirAll_loop now perm resolved rest m)
                   else if \<not> mode_IsDir (n_mode node) then
                     (Inl (PathError ''mkdir'' nxt (Errno ErrInvalid)), m)
                   else mkdirAll_loop now perm nxt rest m
            | None \<Rightarrow>
                let perm' = (if perm AND storedPermBits = 0 then 0x1ED else perm AND storedPermBits);
                    (r, m1) = alloc_node (blank_node (ModeDir OR perm') now) m
                in mkdirAll_loop now perm' nxt rest (add_child current part (set_ref nxt r m1))))"
  by pat_completeness auto
termination
  by (relation "measure (\<lambda>(now, perm, c, remaining, m). length remaining)")
    (auto intro: next_part_less [OF _ sym])

declare mkdirAll_loop.simps [simp del]

definition mkdirAllLocked ::
  "gotime \<Rightarrow> string \<Rightarrow> FileMode \<Rightarrow> MemoryFS \<Rightarrow> (go_error + unit) \<times> MemoryFS" where
  "mkdirAllLocked now name perm m =
     (let name = Clean name
      in if name = ''/'' then (Inr (), m) else mkdirAll_loop now perm ''/'' (tl name) m)"

definition ensureParentLocked ::
  "gotime \<Rightarrow> string \<Rightarrow> string \<Rightarrow> MemoryFS \<Rightarrow> (go_error + unit) \<times> MemoryFS" where
  "ensureParentLocked now op p m =
     (if fs_implicitParents m then mkdirAllLocked now (parentDir p) 0x1ED m
      else (case node_at m (parentDir p) of
              None \<Rightarrow> (Inl (PathError op p (Errno ENOENT)), m)
            | Some node \<Rightarrow>
                if \<not> mode_IsDir (n_mode node) then (Inl (PathError op p (Errno ENOTDIR)), m)
                else (Inr (), m)))"

definition mem_MkdirAll ::
  "gotime \<Rightarrow> string \<Rightarrow> FileMode \<Rightarrow> MemoryFS \<Rightarrow> (go_error + unit) \<times> MemoryFS" where
  "mem_MkdirAll now name perm m = mkdirAllLocked now (Resolve (fs_cwd m) name) perm m"

section \<open>Links\<close>

definition mem_Symlink ::
  "gotime \<Rightarrow> string \<Rightarrow> string \<Rightarrow> MemoryFS \<Rightarrow> (go_error + unit) \<times> MemoryFS" where
  "mem_Symlink now target linkName m =
     (let requested = Resolve (fs_cwd m) linkName;
          found = (case resolvePathLocked m linkName False True of
                     Inr (p, Some _) \<Rightarrow> Inl (PathError ''symlink'' p (Errno ErrExist))
                   | Inr (p, None) \<Rightarrow> Inr p
                   | Inl err \<Rightarrow>
                       if errors_Is err ErrNotExist then
                         (case resolveCreatePathLocked m (parentDir requested) 0 of
                            Inl parentErr \<Rightarrow> Inl (PathError ''symlink'' requested parentErr)
                          | Inr parentAbs \<Rightarrow> Inr (Resolve parentAbs (path_Base requested)))
                       else Inl (PathError ''symlink'' requested err))
      in (case found of
            Inl e \<Rightarrow> (Inl e, m)
          | Inr p \<Rightarrow>
              if ref_at m p \<noteq> None then (Inl (PathError ''symlink'' p (Errno ErrExist)), m)
              else (case ensureParentLocked now ''symlink'' p m of
                      (Inl e, m1) \<Rightarrow> (Inl e, m1)
                    | (Inr _, m1) \<Rightarrow>
                        (Inr (), snd (install p
                           ((blank_node (ModeSymlink OR 0x1FF) now)\<lparr>n_target := target\<rparr>) m1)))))"

definition mem_Link ::
  "gotime \<Rightarrow> string \<Rightarrow> string \<Rightarrow> MemoryFS \<Rightarrow> (go_error + unit) \<times> MemoryFS" where
  "mem_Link now oldName newName m =
     (case resolvePathLocked m oldName False False of
        Inl e \<Rightarrow> (Inl (PathError ''link'' (Resolve (fs_cwd m) oldName) e), m)
      | Inr (oldAbs, None) \<Rightarrow> (Inl (PathError ''link'' oldAbs (Errno ErrNotExist)), m)
      | Inr (oldAbs, Some r) \<Rightarrow>
          if mode_IsDir (n_mode (fs_heap m r)) then
            (Inl (PathError ''link'' oldAbs (Errno ErrInvalid)), m)
          else
            let requested = Resolve (fs_cwd m) newName;
                found = (case resolvePathLocked m newName False True of
                     Inr (p, Some _) \<Rightarrow> Inl (PathError ''link'' p (Errno ErrExist))
                   | Inr (p, None) \<Rightarrow> Inr p
                   | Inl err \<Rightarrow>
                       if errors_Is err ErrNotExist then
                         (case resolveCreatePathLocked m (parentDir requested) 0 of
                            Inl parentErr \<Rightarrow> Inl (PathError ''link'' requested parentErr)
                          | Inr parentAbs \<Rightarrow>
                              let p = Resolve parentAbs (path_Base requested)
                              in if ref_at m p \<noteq> None
                                 then Inl (PathError ''link'' p (Errno ErrExist))
                                 else Inr p)
                       else Inl (PathError ''link'' requested err))
            in (case found of
                  Inl e \<Rightarrow> (Inl e, m)
                | Inr p \<Rightarrow>
                    (case ensureParentLocked now ''link'' p m of
                       (Inl e, m1) \<Rightarrow> (Inl e, m1)
                     | (Inr _, m1) \<Rightarrow>
                         (Inr (), update_node r (\<lambda>n. n\<lparr>n_modTime := now\<rparr>)
                            (add_child (parentDir p) (path_Base p) (set_ref p r m1))))))"

section \<open>Lazy contents\<close>

definition isLazyFileNode :: "memoryNode \<Rightarrow> bool" where
  "isLazyFileNode node =
     (n_lazy node \<noteq> None \<and> \<not> mode_IsDir (n_mode node) \<and> n_mode node AND ModeSymlink = 0)"

text \<open>
  \<open>materializeNode\<close> loads a lazy node in place; \<open>materializePath\<close> does so for the
  node a name resolves to, unless only metadata is wanted and the size is known.
\<close>

definition materializeNode :: "nat \<Rightarrow> MemoryFS \<Rightarrow> (go_error + unit) \<times> MemoryFS" where
  "materializeNode r m =
     (let node = fs_heap m r
      in if \<not> isLazyFileNode node then (Inr (), m)
         else (case n_lazy node of
                 Some (Inl e) \<Rightarrow> (Inl e, m)
               | Some (Inr d) \<Rightarrow>
                   (Inr (), update_node r (\<lambda>n. n\<lparr>n_data := d, n_lazy := None\<rparr>) m)
               | None \<Rightarrow> (Inr (), m)))"

definition materializePath ::
  "string \<Rightarrow> bool \<Rightarrow> bool \<Rightarrow> MemoryFS \<Rightarrow> (go_error + string) \<times> MemoryFS" where
  "materializePath name followFinal metadataOnly m =
     (case resolvePathLocked m name followFinal False of
        Inl e \<Rightarrow> (Inl e, m)
      | Inr (p, None) \<Rightarrow> (Inr p, m)
      | Inr (p, Some r) \<Rightarrow>
          if \<not> isLazyFileNode (fs_heap m r) \<or> metadataOnly \<and> n_lazySized (fs_heap m r)
          then (Inr p, m)
          else (case materializeNode r m of
                  (Inl e, m1) \<Rightarrow> (Inl e, m1)
                | (Inr _, m1) \<Rightarrow> (Inr p, m1)))"

section \<open>Opening files\<close>

record memoryFile =
  mf_path :: string
  mf_node :: nat
  mf_flag :: goflags
  mf_offset :: nat
  mf_closed :: bool

datatype handle = PlainFile memoryFile | FifoHandle memoryFIFOFile nat

text \<open>
  \<open>OpenFile\<close> in its four stages. \<open>open_preload\<close>: unless the content is about to be
  truncated or an exclusive creation is asked for, a lazy file is loaded first, and a
  failure other than a missing file that may be created ends the call.
\<close>

definition open_preload ::
  "string \<Rightarrow> goflags \<Rightarrow> MemoryFS \<Rightarrow> (go_error + unit) \<times> MemoryFS" where
  "open_preload name flag m =
     (if (flag AND O_TRUNC = 0 \<or> \<not> canWrite flag) \<and>
         flag AND (O_CREATE OR O_EXCL) \<noteq> (O_CREATE OR O_EXCL)
      then (case materializePath name True False m of
              (Inr _, m1) \<Rightarrow> (Inr (), m1)
            | (Inl err, m1) \<Rightarrow>
                if flag AND O_CREATE = 0 \<or> \<not> errors_Is err ErrNotExist
                then (Inl (PathError ''open'' (Resolve (fs_cwd m) name)
                        (if flag AND O_CREATE \<noteq> 0 then createParentError err else err)), m1)
                else (Inr (), m1))
      else (Inr (), m))"

text \<open>
  \<open>open_locate\<close>: a creating open follows even a dangling final link to the path it will
  create, except that an exclusive one fails on any existing final entry.
\<close>

definition open_locate :: "string \<Rightarrow> goflags \<Rightarrow> MemoryFS \<Rightarrow> go_error + string \<times> nat option" where
  "open_locate name flag m =
     (let requested = Resolve (fs_cwd m) name
      in if flag AND O_CREATE \<noteq> 0 then
           (case (if flag AND O_EXCL \<noteq> 0 then resolvePathLocked m name False True
                  else Inl (Errno ErrNotExist)) of
              Inr (linkAbs, Some _) \<Rightarrow> Inl (PathError ''open'' linkAbs (Errno ErrExist))
            | _ \<Rightarrow>
                (case resolveCreatePathLocked m requested 0 of
                   Inl err \<Rightarrow> Inl (PathError ''open'' requested (createParentError err))
                 | Inr p \<Rightarrow> Inr (p, ref_at m p)))
         else (case resolvePathLocked m name True False of
                 Inl err \<Rightarrow> Inl (PathError ''open'' requested err)
               | Inr pr \<Rightarrow> Inr pr))"

text \<open>\<open>open_make\<close>: the existing node, or a new regular file.\<close>

definition open_make ::
  "gotime \<Rightarrow> goflags \<Rightarrow> FileMode \<Rightarrow> string \<Rightarrow> nat option \<Rightarrow> MemoryFS \<Rightarrow> (go_error + nat) \<times> MemoryFS" where
  "open_make now flag perm p ref m =
     (case ref of
        None \<Rightarrow>
          if flag AND O_CREATE = 0 then (Inl (PathError ''open'' p (Errno ErrNotExist)), m)
          else (case ensureParentLocked now ''open'' p m of
                  (Inl e, m1) \<Rightarrow> (Inl e, m1)
                | (Inr _, m1) \<Rightarrow>
                    let perm' = (if perm AND storedPermBits = 0 then 0x1A4
                                 else perm AND storedPermBits);
                        (r, m2) = install p (blank_node perm' now) m1
                    in (Inr r, m2))
      | Some r \<Rightarrow>
          if flag AND O_CREATE \<noteq> 0 \<and> flag AND O_EXCL \<noteq> 0
          then (Inl (PathError ''open'' p (Errno ErrExist)), m)
          else (Inr r, m))"

text \<open>\<open>open_finish\<close>: the handle, after truncation; a named pipe gets a pipe handle.\<close>

definition open_finish ::
  "gotime \<Rightarrow> goflags \<Rightarrow> string \<Rightarrow> nat \<Rightarrow> MemoryFS \<Rightarrow> (go_error + handle) \<times> MemoryFS" where
  "open_finish now flag p r m =
     (let mode = n_mode (fs_heap m r)
      in if mode_IsDir mode then (Inl (PathError ''open'' p (Errno ErrInvalid)), m)
         else if mode AND ModeNamedPipe \<noteq> 0 then
           let q = (case n_fifo (fs_heap m r) of None \<Rightarrow> newMemoryFIFO | Some q \<Rightarrow> q);
               (file, q') = newMemoryFIFOFile p flag q
           in (Inr (FifoHandle file r), update_node r (\<lambda>n. n\<lparr>n_fifo := Some q'\<rparr>) m)
         else
           let m' = (if flag AND O_TRUNC \<noteq> 0 \<and> canWrite flag
                     then update_node r (\<lambda>n. n\<lparr>n_lazy := None, n_data := [], n_modTime := now\<rparr>) m
                     else m);
               offset = (if flag AND O_APPEND \<noteq> 0 then length (n_data (fs_heap m' r)) else 0)
           in (Inr (PlainFile \<lparr>mf_path = p, mf_node = r, mf_flag = flag, mf_offset = offset,
                      mf_closed = False\<rparr>), m'))"

definition mem_OpenFile ::
  "gotime \<Rightarrow> string \<Rightarrow> goflags \<Rightarrow> FileMode \<Rightarrow> MemoryFS \<Rightarrow> (go_error + handle) \<times> MemoryFS" where
  "mem_OpenFile now name flag perm m0 =
     (case open_preload name flag m0 of
        (Inl e, m) \<Rightarrow> (Inl e, m)
      | (Inr _, m) \<Rightarrow>
          (case open_locate name flag m of
             Inl e \<Rightarrow> (Inl e, m)
           | Inr (p, ref) \<Rightarrow>
               (case open_make now flag perm p ref m of
                  (Inl e, m1) \<Rightarrow> (Inl e, m1)
                | (Inr r, m1) \<Rightarrow> open_finish now flag p r m1)))"

definition mem_Open :: "gotime \<Rightarrow> string \<Rightarrow> MemoryFS \<Rightarrow> (go_error + handle) \<times> MemoryFS" where
  "mem_Open now name m = mem_OpenFile now name O_RDONLY 0 m"

section \<open>Metadata\<close>

record fileInfo =
  fi_name :: string
  fi_size :: int
  fi_mode :: FileMode
  fi_atime :: gotime
  fi_modTime :: gotime
  fi_uid :: "32 word"
  fi_gid :: "32 word"
  fi_nodeID :: nat
  fi_owned :: bool

fun firstNonZeroTime :: "gotime list \<Rightarrow> gotime" where
  "firstNonZeroTime [] = 0"
| "firstNonZeroTime (v # vs) = (if \<not> IsZero v then v else firstNonZeroTime vs)"

definition newFileInfo :: "string \<Rightarrow> memoryNode \<Rightarrow> fileInfo" where
  "newFileInfo name node =
     \<lparr>fi_name = name,
      fi_size = (if isLazyFileNode node \<and> n_lazySized node then n_lazySize node
                 else if mode_IsDir (n_mode node) then 0
                 else if n_mode node AND ModeNamedPipe \<noteq> 0 then 0
                 else if n_mode node AND ModeSymlink \<noteq> 0 then int (length (n_target node))
                 else int (length (n_data node))),
      fi_mode = n_mode node,
      fi_atime = firstNonZeroTime [n_atime node, n_modTime node],
      fi_modTime = n_modTime node,
      fi_uid = n_uid node, fi_gid = n_gid node, fi_nodeID = n_id node, fi_owned = True\<rparr>"

text \<open>\<open>Stat\<close> and \<open>Lstat\<close> share their body; they differ in following a final link.\<close>

definition mem_stat_op ::
  "string \<Rightarrow> bool \<Rightarrow> string \<Rightarrow> MemoryFS \<Rightarrow> (go_error + fileInfo) \<times> MemoryFS" where
  "mem_stat_op op follow name m =
     (case materializePath name follow True m of
        (Inl e, m1) \<Rightarrow> (Inl (PathError op (Resolve (fs_cwd m) name) e), m1)
      | (Inr p, m1) \<Rightarrow>
          (case node_at m1 p of
             None \<Rightarrow> (Inl (PathError op p (Errno ErrNotExist)), m1)
           | Some node \<Rightarrow> (Inr (newFileInfo (path_Base p) node), m1)))"

definition mem_Stat :: "string \<Rightarrow> MemoryFS \<Rightarrow> (go_error + fileInfo) \<times> MemoryFS" where
  "mem_Stat name m = mem_stat_op ''stat'' True name m"

definition mem_Lstat :: "string \<Rightarrow> MemoryFS \<Rightarrow> (go_error + fileInfo) \<times> MemoryFS" where
  "mem_Lstat name m = mem_stat_op ''lstat'' False name m"

text \<open>A directory entry: the child's name and mode; its \<open>Info\<close> is \<open>Lstat\<close> of its path.\<close>

record memoryDirEntry =
  de_name :: string
  de_path :: string
  de_mode :: FileMode

definition mem_ReadDir :: "string \<Rightarrow> MemoryFS \<Rightarrow> go_error + memoryDirEntry list" where
  "mem_ReadDir name m =
     (case resolvePathLocked m name True False of
        Inl e \<Rightarrow> Inl (PathError ''readdir'' (Resolve (fs_cwd m) name) e)
      | Inr (p, None) \<Rightarrow> Inl (PathError ''readdir'' p (Errno ErrNotExist))
      | Inr (p, Some r) \<Rightarrow>
          if \<not> mode_IsDir (n_mode (fs_heap m r)) then
            Inl (PathError ''readdir'' p (Errno ErrInvalid))
          else Inr (map (\<lambda>child.
                 \<lparr>de_name = child, de_path = joinClean p child,
                  de_mode = (case node_at m (joinClean p child) of
                               None \<Rightarrow> 0 | Some n \<Rightarrow> n_mode n)\<rparr>)
               (sorted_list_of_set (n_children (fs_heap m r)))))"

definition mem_Readlink :: "string \<Rightarrow> MemoryFS \<Rightarrow> go_error + string" where
  "mem_Readlink name m =
     (case resolvePathLocked m name False False of
        Inl e \<Rightarrow> Inl (PathError ''readlink'' (Resolve (fs_cwd m) name) e)
      | Inr (p, None) \<Rightarrow> Inl (PathError ''readlink'' p (Errno ErrNotExist))
      | Inr (p, Some r) \<Rightarrow>
          if n_mode (fs_heap m r) AND ModeSymlink = 0 then
            Inl (PathError ''readlink'' p (Errno ErrInvalid))
          else Inr (n_target (fs_heap m r)))"

definition mem_Realpath :: "string \<Rightarrow> MemoryFS \<Rightarrow> go_error + string" where
  "mem_Realpath name m =
     (case resolvePathLocked m name True False of
        Inl e \<Rightarrow> Inl (PathError ''realpath'' (Resolve (fs_cwd m) name) e)
      | Inr (p, _) \<Rightarrow> Inr p)"

text \<open>
  The operations that change a resolved node's metadata: resolve, then apply the change
  to the node.
\<close>

definition on_node ::
  "string \<Rightarrow> bool \<Rightarrow> (memoryNode \<Rightarrow> memoryNode) \<Rightarrow> string \<Rightarrow> MemoryFS \<Rightarrow>
   (go_error + unit) \<times> MemoryFS" where
  "on_node op follow f name m =
     (case resolvePathLocked m name follow False of
        Inl e \<Rightarrow> (Inl (PathError op (Resolve (fs_cwd m) name) e), m)
      | Inr (p, None) \<Rightarrow> (Inl (PathError op p (Errno ErrNotExist)), m)
      | Inr (p, Some r) \<Rightarrow> (Inr (), update_node r f m))"

definition mem_Chmod ::
  "gotime \<Rightarrow> string \<Rightarrow> FileMode \<Rightarrow> MemoryFS \<Rightarrow> (go_error + unit) \<times> MemoryFS" where
  "mem_Chmod now name mode m =
     on_node ''chmod'' True
       (\<lambda>n. n\<lparr>n_mode := n_mode n AND NOT storedPermBits OR mode AND storedPermBits,
              n_modTime := now\<rparr>) name m"

definition mem_Chown ::
  "string \<Rightarrow> 32 word \<Rightarrow> 32 word \<Rightarrow> bool \<Rightarrow> MemoryFS \<Rightarrow> (go_error + unit) \<times> MemoryFS" where
  "mem_Chown name uid gid follow m =
     on_node ''chown'' follow (\<lambda>n. n\<lparr>n_uid := uid, n_gid := gid\<rparr>) name m"

definition mem_Chtimes ::
  "gotime \<Rightarrow> string \<Rightarrow> gotime \<Rightarrow> gotime \<Rightarrow> MemoryFS \<Rightarrow> (go_error + unit) \<times> MemoryFS" where
  "mem_Chtimes now name atime mtime m =
     on_node ''chtimes'' True
       (\<lambda>n. n\<lparr>n_atime := (if IsZero atime then now else atime),
              n_modTime := (if IsZero mtime then now else mtime)\<rparr>) name m"

definition mem_Lchtimes ::
  "gotime \<Rightarrow> string \<Rightarrow> gotime \<Rightarrow> gotime \<Rightarrow> MemoryFS \<Rightarrow> (go_error + unit) \<times> MemoryFS" where
  "mem_Lchtimes now name atime mtime m =
     on_node ''lchtimes'' False
       (\<lambda>n. n\<lparr>n_atime := (if IsZero atime then now else atime),
              n_modTime := (if IsZero mtime then now else mtime)\<rparr>) name m"

definition mem_Mkfifo ::
  "gotime \<Rightarrow> string \<Rightarrow> FileMode \<Rightarrow> MemoryFS \<Rightarrow> (go_error + unit) \<times> MemoryFS" where
  "mem_Mkfifo now name perm m =
     (let requested = Resolve (fs_cwd m) name
      in (case resolvePathLocked m name False True of
            Inl e \<Rightarrow> (Inl (PathError ''mkfifo'' requested e), m)
          | Inr (p, Some _) \<Rightarrow> (Inl (PathError ''mkfifo'' p (Errno ErrExist)), m)
          | Inr (p, None) \<Rightarrow>
              (case resolveAbsLocked m (parentDir p) True False 0 of
                 Inl e \<Rightarrow> (Inl (PathError ''mkfifo'' requested e), m)
               | Inr (parentAbs, None) \<Rightarrow> (Inl (PathError ''mkfifo'' parentAbs (Errno ErrInvalid)), m)
               | Inr (parentAbs, Some pr) \<Rightarrow>
                   if \<not> mode_IsDir (n_mode (fs_heap m pr)) then
                     (Inl (PathError ''mkfifo'' parentAbs (Errno ErrInvalid)), m)
                   else
                     let perm' = (if perm = 0 then 0x1B6 else perm);
                         (r, m1) = alloc_node
                           ((blank_node (ModeNamedPipe OR perm' AND storedPermBits) now)
                              \<lparr>n_fifo := Some newMemoryFIFO\<rparr>) m
                     in (Inr (), update_node pr
                           (\<lambda>n. n\<lparr>n_children := insert (path_Base p) (n_children n)\<rparr>)
                           (set_ref p r m1)))))"

section \<open>Removing and renaming\<close>

text \<open>The test the source makes on every key: the path itself or something below it.\<close>

definition in_subtree :: "string \<Rightarrow> string \<Rightarrow> bool" where
  "in_subtree p candidate = (candidate = p \<or> HasPrefix candidate (p @ ''/''))"

definition mem_Remove ::
  "string \<Rightarrow> bool \<Rightarrow> MemoryFS \<Rightarrow> (go_error + unit) \<times> MemoryFS" where
  "mem_Remove name recursive m =
     (case resolvePathLocked m name False False of
        Inl e \<Rightarrow> (Inl (PathError ''remove'' (Resolve (fs_cwd m) name) e), m)
      | Inr (p, None) \<Rightarrow> (Inl (PathError ''remove'' p (Errno ErrNotExist)), m)
      | Inr (p, Some r) \<Rightarrow>
          if p = ''/'' then (Inl (PathError ''remove'' p (Errno ErrPermission)), m)
          else if mode_IsDir (n_mode (fs_heap m r)) \<and> n_children (fs_heap m r) \<noteq> {} \<and> \<not> recursive
          then (Inl (PathError ''remove'' p (Errno ErrInvalid)), m)
          else (Inr (), del_child (parentDir p) (path_Base p)
                  (m\<lparr>fs_nodes := filter (\<lambda>kv. \<not> in_subtree p (fst kv)) (fs_nodes m)\<rparr>)))"

text \<open>
  \<open>rebuildDirectoryChildrenLocked\<close>: every directory's children are emptied, then each
  key is entered in the directory that is its parent.
\<close>

definition rebuildDirectoryChildrenLocked :: "MemoryFS \<Rightarrow> MemoryFS" where
  "rebuildDirectoryChildrenLocked m =
     (let m1 = fold (\<lambda>(p, r) s.
                  if mode_IsDir (n_mode (fs_heap s r))
                  then update_node r (\<lambda>n. n\<lparr>n_children := {}\<rparr>) s else s) (fs_nodes m) m
      in fold (\<lambda>(p, r) s.
           if p = ''/'' then s
           else (case node_at s (parentDir p) of
                   None \<Rightarrow> s
                 | Some node \<Rightarrow>
                     if mode_IsDir (n_mode node) then add_child (parentDir p) (path_Base p) s
                     else s)) (fs_nodes m1) m1)"

text \<open>\<open>strings.Replace(oldPath, oldAbs, newAbs, 1)\<close>: the first occurrence.\<close>

fun replace_first :: "string \<Rightarrow> string \<Rightarrow> string \<Rightarrow> string" where
  "replace_first old new [] = (if old = [] then new else [])"
| "replace_first old new (c # s) =
     (if prefix old (c # s) then new @ drop (length old) (c # s)
      else c # replace_first old new s)"

text \<open>\<open>Rename\<close> first finds the path of the new name, then moves the keys of the subtree.\<close>

definition rename_locate :: "string \<Rightarrow> MemoryFS \<Rightarrow> go_error + string \<times> nat option" where
  "rename_locate newName m =
     (case resolvePathLocked m newName False True of
        Inr pr \<Rightarrow> Inr pr
      | Inl err \<Rightarrow>
          (case (if fs_implicitParents m \<and> errors_Is err ErrNotExist
                 then resolveCreatePathLocked m (Resolve (fs_cwd m) newName) 0
                 else Inl err) of
             Inl e \<Rightarrow> Inl (PathError ''rename'' (Resolve (fs_cwd m) newName) (createParentError e))
           | Inr p \<Rightarrow> Inr (p, None)))"

definition mem_Rename ::
  "gotime \<Rightarrow> string \<Rightarrow> string \<Rightarrow> MemoryFS \<Rightarrow> (go_error + unit) \<times> MemoryFS" where
  "mem_Rename now oldName newName m =
     (case resolvePathLocked m oldName False False of
        Inl e \<Rightarrow> (Inl (PathError ''rename'' (Resolve (fs_cwd m) oldName) e), m)
      | Inr (oldAbs, _) \<Rightarrow>
          if oldAbs = ''/'' then (Inl (PathError ''rename'' oldAbs (Errno ErrPermission)), m)
          else
            (case rename_locate newName m of
                  Inl e \<Rightarrow> (Inl e, m)
                | Inr (newAbs, Some _) \<Rightarrow> (Inl (PathError ''rename'' newAbs (Errno ErrExist)), m)
                | Inr (newAbs, None) \<Rightarrow>
                    if isDescendantPath newAbs oldAbs then
                      (Inl (PathError ''rename'' newAbs (Errno ErrInvalid)), m)
                    else (case ensureParentLocked now ''rename'' newAbs m of
                            (Inl e, m1) \<Rightarrow> (Inl e, m1)
                          | (Inr _, m1) \<Rightarrow>
                              let toMove = filter (\<lambda>kv. in_subtree oldAbs (fst kv)) (fs_nodes m1);
                                  m2 = del_child (parentDir oldAbs) (path_Base oldAbs) m1;
                                  m3 = m2\<lparr>fs_nodes :=
                                         filter (\<lambda>kv. \<not> in_subtree oldAbs (fst kv)) (fs_nodes m2)\<rparr>;
                                  m4 = fold (\<lambda>(p, r) s. set_ref (replace_first oldAbs newAbs p) r s)
                                         toMove m3;
                                  m5 = add_child (parentDir newAbs) (path_Base newAbs) m4
                              in (Inr (), rebuildDirectoryChildrenLocked m5))))"

definition mem_Getwd :: "MemoryFS \<Rightarrow> string" where
  "mem_Getwd m = fs_cwd m"

definition mem_Chdir :: "string \<Rightarrow> MemoryFS \<Rightarrow> (go_error + unit) \<times> MemoryFS" where
  "mem_Chdir name m =
     (case resolvePathLocked m name True False of
        Inl e \<Rightarrow> (Inl (PathError ''chdir'' (Resolve (fs_cwd m) name) e), m)
      | Inr (p, None) \<Rightarrow> (Inl (PathError ''chdir'' p (Errno ErrNotExist)), m)
      | Inr (p, Some r) \<Rightarrow>
          if \<not> mode_IsDir (n_mode (fs_heap m r)) then
            (Inl (PathError ''chdir'' p (Errno ErrInvalid)), m)
          else (Inr (), m\<lparr>fs_cwd := p\<rparr>))"

section \<open>Open handles\<close>

definition growBytes :: "bytes \<Rightarrow> nat \<Rightarrow> bytes" where
  "growBytes d sz = d @ replicate (sz - length d) (CHR 0x00)"

definition copy_at :: "bytes \<Rightarrow> nat \<Rightarrow> bytes \<Rightarrow> bytes" where
  "copy_at d off p = take off d @ take (length d - off) p @ drop (off + length p) d"

text \<open>\<open>memoryFile.Read\<close> with a buffer of \<open>n\<close> bytes.\<close>

definition mem_Read ::
  "nat \<Rightarrow> memoryFile \<Rightarrow> MemoryFS \<Rightarrow> (go_error + bytes) \<times> memoryFile \<times> MemoryFS" where
  "mem_Read n f m =
     (if mf_closed f then (Inl (Errno ErrClosed), f, m)
      else if \<not> canRead (mf_flag f) then
        (Inl (PathError ''read'' (mf_path f) (Errno ErrPermission)), f, m)
      else (case materializeNode (mf_node f) m of
              (Inl e, m1) \<Rightarrow> (Inl (PathError ''read'' (mf_path f) e), f, m1)
            | (Inr _, m1) \<Rightarrow>
                let node = fs_heap m1 (mf_node f)
                in if mode_IsDir (n_mode node) then
                     (Inl (PathError ''read'' (mf_path f) (Errno ErrInvalid)), f, m1)
                   else if length (n_data node) \<le> mf_offset f then (Inl (Errno ErrEOF), f, m1)
                   else
                     let got = take n (drop (mf_offset f) (n_data node))
                     in (Inr got, f\<lparr>mf_offset := mf_offset f + length got\<rparr>, m1)))"

definition mem_Write ::
  "gotime \<Rightarrow> bytes \<Rightarrow> memoryFile \<Rightarrow> MemoryFS \<Rightarrow> (go_error + nat) \<times> memoryFile \<times> MemoryFS" where
  "mem_Write now p f m =
     (if mf_closed f then (Inl (Errno ErrClosed), f, m)
      else if \<not> canWrite (mf_flag f) then
        (Inl (PathError ''write'' (mf_path f) (Errno ErrPermission)), f, m)
      else (case materializeNode (mf_node f) m of
              (Inl e, m1) \<Rightarrow> (Inl (PathError ''write'' (mf_path f) e), f, m1)
            | (Inr _, m1) \<Rightarrow>
                let node = fs_heap m1 (mf_node f)
                in if mode_IsDir (n_mode node) then
                     (Inl (PathError ''write'' (mf_path f) (Errno ErrInvalid)), f, m1)
                   else
                     let off = (if mf_flag f AND O_APPEND \<noteq> 0 then length (n_data node)
                                else mf_offset f);
                         fin = off + length p;
                         d = (if length (n_data node) < fin then growBytes (n_data node) fin
                              else n_data node)
                     in (Inr (length p), f\<lparr>mf_offset := off + length p\<rparr>,
                         update_node (mf_node f)
                           (\<lambda>n. n\<lparr>n_data := copy_at d off p, n_modTime := now\<rparr>) m1)))"

definition mem_Close :: "memoryFile \<Rightarrow> memoryFile" where
  "mem_Close f = f\<lparr>mf_closed := True\<rparr>"

definition mem_FileStat ::
  "memoryFile \<Rightarrow> MemoryFS \<Rightarrow> (go_error + fileInfo) \<times> MemoryFS" where
  "mem_FileStat f m =
     (if mf_closed f then (Inl (Errno ErrClosed), m)
      else
        let node = fs_heap m (mf_node f);
            needsContent = (isLazyFileNode node \<and> \<not> n_lazySized node)
        in (case (if needsContent then materializeNode (mf_node f) m else (Inr (), m)) of
              (Inl e, m1) \<Rightarrow> (Inl (PathError ''stat'' (mf_path f) e), m1)
            | (Inr _, m1) \<Rightarrow>
                (Inr (newFileInfo (path_Base (mf_path f)) (fs_heap m1 (mf_node f))), m1)))"

section \<open>Seeding and cloning\<close>

record InitialFile =
  if_content :: "bytes option"
  if_lazy :: "(go_error + bytes) option"
  if_mode :: FileMode
  if_modTime :: gotime

definition seed_node :: "gotime \<Rightarrow> InitialFile \<Rightarrow> memoryNode" where
  "seed_node now file =
     (let mode = (if mode_Perm (if_mode file) = 0 then 0x1A4 else mode_Perm (if_mode file));
          node = (blank_node (mode_Type (if_mode file) OR mode)
                    (if IsZero (if_modTime file) then now else if_modTime file))
                   \<lparr>n_lazy := if_lazy file,
                    n_data := (case if_content file of None \<Rightarrow> [] | Some c \<Rightarrow> c)\<rparr>
      in if if_mode file AND ModeNamedPipe \<noteq> 0
         then node\<lparr>n_fifo := Some newMemoryFIFO, n_data := [], n_lazy := None\<rparr> else node)"

definition seedInitialFileLocked ::
  "gotime \<Rightarrow> string \<Rightarrow> InitialFile \<Rightarrow> MemoryFS \<Rightarrow> (go_error + unit) \<times> MemoryFS" where
  "seedInitialFileLocked now name file m =
     (let p = Clean name; bad = (Inl (PathError ''seed'' p (Errno ErrInvalid)), m)
      in if p = ''/'' then bad
         else if if_lazy file \<noteq> None \<and> if_content file \<noteq> None then bad
         else if mode_Type (if_mode file) AND NOT seedableTypeBits \<noteq> 0 then bad
         else (case mkdirAllLocked now (parentDir p) 0x1ED m of
                 (Inl e, m1) \<Rightarrow> (Inl e, m1)
               | (Inr _, m1) \<Rightarrow>
                   (Inr (), snd (install p (seed_node now file) m1))))"

fun seedInitialFiles ::
  "gotime \<Rightarrow> (string \<times> InitialFile) list \<Rightarrow> MemoryFS \<Rightarrow> (go_error + unit) \<times> MemoryFS" where
  "seedInitialFiles now [] m = (Inr (), m)"
| "seedInitialFiles now ((name, file) # files) m =
     (case seedInitialFileLocked now name file m of
        (Inl e, m1) \<Rightarrow> (Inl e, m1)
      | (Inr _, m1) \<Rightarrow> seedInitialFiles now files m1)"

definition clone_node :: "memoryNode \<Rightarrow> memoryNode" where
  "clone_node node = node\<lparr>n_fifo := fifo_clone (n_fifo node)\<rparr>"

text \<open>
  \<open>Clone\<close> allocates one new node per path; paths that shared a node do not share the
  copy.
\<close>

definition mem_Clone :: "MemoryFS \<Rightarrow> MemoryFS" where
  "mem_Clone m =
     (let n = length (fs_nodes m)
      in m\<lparr>fs_nodes := zip (map fst (fs_nodes m)) [0..<n],
           fs_heap := (\<lambda>r. if r < n then clone_node (fs_heap m (snd (fs_nodes m ! r)))
                           else blank_node 0 0),
           fs_nextRef := n\<rparr>)"

end
