(* ===== verification/MemoryFS_Inv.thy ===== *)
theory MemoryFS_Inv
  imports MemoryFS
begin

text \<open>
  The tree invariant of the in-memory file system and its preservation by the
  elementary state changes: every key is a clean path, the root is a directory, the
  parent of every entry is a directory, a directory's set of children is exactly the set
  of last components of the entries below it, directories have one name only, and no
  node is a directory and a symbolic link at once.

  Paths are handled by their component lists: \<open>at m cs\<close> is the reference stored at
  the path \<open>render cs\<close>.
\<close>

section \<open>The invariant\<close>

definition at :: "MemoryFS \<Rightarrow> string list \<Rightarrow> nat option" where
  "at m cs = ref_at m (render cs)"

definition node_dir :: "MemoryFS \<Rightarrow> nat \<Rightarrow> bool" where
  "node_dir m r \<longleftrightarrow> mode_IsDir (n_mode (fs_heap m r))"

definition node_link :: "MemoryFS \<Rightarrow> nat \<Rightarrow> bool" where
  "node_link m r \<longleftrightarrow> n_mode (fs_heap m r) AND ModeSymlink \<noteq> 0"

definition is_dir :: "MemoryFS \<Rightarrow> string list \<Rightarrow> bool" where
  "is_dir m cs \<longleftrightarrow> (\<exists>r. at m cs = Some r \<and> node_dir m r)"

definition node_ok :: "memoryNode \<Rightarrow> bool" where
  "node_ok n \<longleftrightarrow> \<not> (mode_IsDir (n_mode n) \<and> n_mode n AND ModeSymlink \<noteq> 0)"

definition fs_wf :: "MemoryFS \<Rightarrow> bool" where
  "fs_wf m \<longleftrightarrow>
     distinct (map fst (fs_nodes m)) \<and>
     (\<forall>p. ref_at m p \<noteq> None \<longrightarrow> clean_path p) \<and>
     clean_path (fs_cwd m) \<and>
     is_dir m [] \<and>
     (\<forall>cs c. valid_comps (cs @ [c]) \<longrightarrow> at m (cs @ [c]) \<noteq> None \<longrightarrow> is_dir m cs) \<and>
     (\<forall>cs r. valid_comps cs \<longrightarrow> at m cs = Some r \<longrightarrow> r < fs_nextRef m \<and> node_ok (fs_heap m r)) \<and>
     (\<forall>cs ds r. valid_comps cs \<longrightarrow> valid_comps ds \<longrightarrow> at m cs = Some r \<longrightarrow> at m ds = Some r \<longrightarrow>
        node_dir m r \<longrightarrow> cs = ds) \<and>
     (\<forall>cs r. valid_comps cs \<longrightarrow> at m cs = Some r \<longrightarrow> node_dir m r \<longrightarrow>
        n_children (fs_heap m r) = {c. valid_comp c \<and> at m (cs @ [c]) \<noteq> None})"

lemma fs_wfI:
  assumes "distinct (map fst (fs_nodes m))"
    and "\<And>p r. ref_at m p = Some r \<Longrightarrow> clean_path p"
    and "clean_path (fs_cwd m)" and "is_dir m []"
    and "\<And>cs c r. valid_comps (cs @ [c]) \<Longrightarrow> at m (cs @ [c]) = Some r \<Longrightarrow> is_dir m cs"
    and "\<And>cs r. valid_comps cs \<Longrightarrow> at m cs = Some r \<Longrightarrow> r < fs_nextRef m \<and> node_ok (fs_heap m r)"
    and "\<And>cs ds r. valid_comps cs \<Longrightarrow> valid_comps ds \<Longrightarrow> at m cs = Some r \<Longrightarrow> at m ds = Some r \<Longrightarrow>
        node_dir m r \<Longrightarrow> cs = ds"
    and "\<And>cs r. valid_comps cs \<Longrightarrow> at m cs = Some r \<Longrightarrow> node_dir m r \<Longrightarrow>
        n_children (fs_heap m r) = {c. valid_comp c \<and> at m (cs @ [c]) \<noteq> None}"
  shows "fs_wf m"
  unfolding fs_wf_def using assms by blast

lemma fs_wfD:
  assumes "fs_wf m"
  shows "distinct (map fst (fs_nodes m))"
    and "\<And>p r. ref_at m p = Some r \<Longrightarrow> clean_path p"
    and "clean_path (fs_cwd m)" and "is_dir m []"
    and "\<And>cs c r. valid_comps (cs @ [c]) \<Longrightarrow> at m (cs @ [c]) = Some r \<Longrightarrow> is_dir m cs"
    and "\<And>cs r. valid_comps cs \<Longrightarrow> at m cs = Some r \<Longrightarrow> r < fs_nextRef m"
    and "\<And>cs r. valid_comps cs \<Longrightarrow> at m cs = Some r \<Longrightarrow> node_ok (fs_heap m r)"
    and "\<And>cs ds r. valid_comps cs \<Longrightarrow> valid_comps ds \<Longrightarrow> at m cs = Some r \<Longrightarrow> at m ds = Some r \<Longrightarrow>
        node_dir m r \<Longrightarrow> cs = ds"
    and "\<And>cs r. valid_comps cs \<Longrightarrow> at m cs = Some r \<Longrightarrow> node_dir m r \<Longrightarrow>
        n_children (fs_heap m r) = {c. valid_comp c \<and> at m (cs @ [c]) \<noteq> None}"
  using assms unfolding fs_wf_def by blast+

lemmas wf_distinct = fs_wfD(1)
  and wf_clean = fs_wfD(2)
  and wf_cwd = fs_wfD(3)
  and wf_root = fs_wfD(4)
  and wf_parent = fs_wfD(5)
  and wf_ref = fs_wfD(6)
  and wf_node = fs_wfD(7)
  and wf_unique = fs_wfD(8)
  and wf_children = fs_wfD(9)

lemma is_dirE:
  assumes "is_dir m cs" obtains r where "at m cs = Some r" "node_dir m r"
  using assms by (auto simp: is_dir_def)

lemma wf_dir_not_link:
  "fs_wf m \<Longrightarrow> valid_comps cs \<Longrightarrow> at m cs = Some r \<Longrightarrow> node_dir m r \<Longrightarrow> \<not> node_link m r"
  using wf_node [of m cs r] by (auto simp: node_ok_def node_dir_def node_link_def)

text \<open>An entry's proper prefixes are directories; nothing exists below a missing entry.\<close>

lemma wf_prefix_dir:
  assumes wf: "fs_wf m" and v: "valid_comps (cs @ ds)" and ex: "at m (cs @ ds) = Some r"
    and ne: "ds \<noteq> []"
  shows "is_dir m cs"
  using v ex ne
proof (induction ds arbitrary: r rule: rev_induct)
  case (snoc d ds)
  then have "is_dir m (cs @ ds)"
    using wf_parent [OF wf, of "cs @ ds" d r] by simp
  then obtain r' where r': "at m (cs @ ds) = Some r'"
    by (auto simp: is_dir_def)
  show ?case
  proof (cases "ds = []")
    case True
    with \<open>is_dir m (cs @ ds)\<close> show ?thesis by simp
  next
    case False
    with snoc r' show ?thesis by simp
  qed
qed simp

lemma wf_missing_below:
  assumes "fs_wf m" "valid_comps (cs @ ds)" "at m cs = None"
  shows "at m (cs @ ds) = None"
proof (cases "ds = []")
  case False
  show ?thesis
  proof (rule ccontr)
    assume "at m (cs @ ds) \<noteq> None"
    then obtain r where "at m (cs @ ds) = Some r" by auto
    with assms False have "is_dir m cs" using wf_prefix_dir by blast
    with assms(3) show False by (auto simp: is_dir_def)
  qed
qed (use assms in simp)

lemma ref_at_clean: "fs_wf m \<Longrightarrow> ref_at m p = Some r \<Longrightarrow> \<exists>cs. valid_comps cs \<and> p = render cs \<and> at m cs = Some r"
  using wf_clean [of m p r] by (auto simp: clean_path_def at_def)

section \<open>Elementary changes\<close>

lemma at_set_ref [simp]:
  "valid_comps cs \<Longrightarrow> valid_comps ds \<Longrightarrow>
   at (set_ref (render cs) r m) ds = (if ds = cs then Some r else at m ds)"
  by (simp add: at_def ref_at_def set_ref_def render_inj)

lemma ref_at_set_ref: "ref_at (set_ref p r m) q = (if q = p then Some r else ref_at m q)"
  by (simp add: ref_at_def set_ref_def)

lemma set_ref_fields [simp]:
  "fs_heap (set_ref p r m) = fs_heap m" "fs_nextRef (set_ref p r m) = fs_nextRef m"
  "fs_cwd (set_ref p r m) = fs_cwd m"
  "fs_implicitParents (set_ref p r m) = fs_implicitParents m"
  by (simp_all add: set_ref_def)

lemma update_node_fields [simp]:
  "fs_nodes (update_node r f m) = fs_nodes m" "fs_nextRef (update_node r f m) = fs_nextRef m"
  "fs_cwd (update_node r f m) = fs_cwd m"
  "fs_implicitParents (update_node r f m) = fs_implicitParents m"
  "fs_heap (update_node r f m) = (fs_heap m)(r := f (fs_heap m r))"
  "ref_at (update_node r f m) p = ref_at m p" "at (update_node r f m) cs = at m cs"
  by (simp_all add: update_node_def ref_at_def at_def)

lemma alloc_node_fields:
  assumes "alloc_node n m = (r, m')"
  shows "r = fs_nextRef m" "fs_nodes m' = fs_nodes m" "fs_nextRef m' = Suc r"
    "fs_cwd m' = fs_cwd m" "fs_implicitParents m' = fs_implicitParents m"
    "\<exists>i. fs_heap m' = (fs_heap m)(r := n\<lparr>n_id := i\<rparr>)"
    "ref_at m' p = ref_at m p" "at m' cs = at m cs"
  using assms by (auto simp: alloc_node_def newNodeIDLocked_def Let_def ref_at_def at_def)

lemma fs_wf_update_node [fs_inv_intros]:
  assumes wf: "fs_wf m"
    and dir: "mode_IsDir (n_mode (f (fs_heap m r))) = mode_IsDir (n_mode (fs_heap m r))"
    and link: "(n_mode (f (fs_heap m r)) AND ModeSymlink = 0) = (n_mode (fs_heap m r) AND ModeSymlink = 0)"
    and ch: "n_children (f (fs_heap m r)) = n_children (fs_heap m r)"
  shows "fs_wf (update_node r f m)"
proof -
  have nd: "node_dir (update_node r f m) x = node_dir m x" for x
    using dir by (auto simp: node_dir_def)
  have ok: "node_ok (fs_heap (update_node r f m) x) = node_ok (fs_heap m x)" for x
    using dir link by (auto simp: node_ok_def)
  have id: "is_dir (update_node r f m) cs = is_dir m cs" for cs
    by (simp add: is_dir_def nd)
  show ?thesis
    using wf ch unfolding fs_wf_def nd id ok by auto
qed

lemma fs_wf_alloc:
  assumes wf: "fs_wf m" and al: "alloc_node n m = (r, m')"
  shows "fs_wf m'" and "valid_comps cs \<Longrightarrow> at m' cs \<noteq> Some r"
    and "valid_comps cs \<Longrightarrow> at m cs = Some x \<Longrightarrow> fs_heap m' x = fs_heap m x"
    and "valid_comps cs \<Longrightarrow> is_dir m' cs = is_dir m cs"
proof -
  note f = alloc_node_fields [OF al]
  from f(6) obtain i where h: "fs_heap m' = (fs_heap m)(r := n\<lparr>n_id := i\<rparr>)" by blast
  have old: "x \<noteq> r" if "valid_comps cs" "at m cs = Some x" for cs x
    using wf_ref [OF wf that] f(1) by auto
  show "fs_heap m' x = fs_heap m x" if "valid_comps cs" "at m cs = Some x" for cs x
    using old [OF that] h by simp
  then have hx: "\<And>cs x. valid_comps cs \<Longrightarrow> at m cs = Some x \<Longrightarrow> fs_heap m' x = fs_heap m x" .
  show "at m' cs \<noteq> Some r" if "valid_comps cs" for cs
    using old [OF that, of r] by (auto simp: f(8))
  show id: "is_dir m' cs = is_dir m cs" if "valid_comps cs" for cs
    using hx [OF that] by (auto simp: is_dir_def node_dir_def f(8))
  show "fs_wf m'"
  proof (rule fs_wfI)
    show "is_dir m' []" using id [of "[]"] wf_root [OF wf] by simp
    show "r' < fs_nextRef m' \<and> node_ok (fs_heap m' r')"
      if "valid_comps cs" "at m' cs = Some r'" for cs r'
      using that wf_ref [OF wf, of cs r'] wf_node [OF wf, of cs r'] hx [of cs r']
      by (simp add: f(1,3,8))
    show "is_dir m' cs" if "valid_comps (cs @ [c])" "at m' (cs @ [c]) = Some r'" for cs c r'
      using that wf_parent [OF wf, of cs c r'] id [of cs] by (simp add: f(8))
    show "cs = ds" if "valid_comps cs" "valid_comps ds" "at m' cs = Some x" "at m' ds = Some x"
      "node_dir m' x" for cs ds x
      using that wf_unique [OF wf, of cs ds x] hx [of cs x] by (simp add: f(8) node_dir_def)
    show "n_children (fs_heap m' x) = {c. valid_comp c \<and> at m' (cs @ [c]) \<noteq> None}"
      if "valid_comps cs" "at m' cs = Some x" "node_dir m' x" for cs x
      using that wf_children [OF wf, of cs x] hx [of cs x] by (simp add: f(8) node_dir_def)
  qed (use wf f wf_clean [OF wf] in \<open>auto dest: wf_distinct wf_cwd\<close>)
qed

lemma add_child_at:
  assumes "at m cs = Some pr"
  shows "add_child (render cs) c m =
     update_node pr (\<lambda>n. n\<lparr>n_children := insert c (n_children n)\<rparr>) m"
  using assms by (simp add: add_child_def at_def)

text \<open>
  The entry set by every creating operation: the name \<open>c\<close> in the directory
  \<open>cs\<close>, not yet a directory itself, for a node that is not a directory or is a fresh
  empty one.
\<close>

lemma missing_not_dir: "at m cs = None \<Longrightarrow> \<not> is_dir m cs"
  by (simp add: is_dir_def)

lemma wf_below_not_dir:
  assumes "fs_wf m" "valid_comps (cs @ [c])" "\<not> is_dir m cs"
  shows "at m (cs @ [c]) = None"
  using wf_parent [OF assms(1,2)] assms(3) by (cases "at m (cs @ [c])") auto

lemma fs_wf_add_entry:
  assumes wf: "fs_wf m" and v: "valid_comps (cs @ [c])"
    and new: "\<not> is_dir m (cs @ [c])" and d: "at m cs = Some pr" "node_dir m pr"
    and r: "r < fs_nextRef m" "node_ok (fs_heap m r)"
    and kind: "node_dir m r \<Longrightarrow> n_children (fs_heap m r) = {} \<and> (\<forall>ds. valid_comps ds \<longrightarrow> at m ds \<noteq> Some r)"
  shows "fs_wf (update_node pr (\<lambda>n. n\<lparr>n_children := insert c (n_children n)\<rparr>)
           (set_ref (render (cs @ [c])) r m))" (is "fs_wf ?m")
proof -
  have vcs: "valid_comps cs" and vc: "valid_comp c" using v by auto
  have at': "at ?m ds = (if ds = cs @ [c] then Some r else at m ds)" if "valid_comps ds" for ds
    using v that by simp
  have old: "at m ds = Some x" if "valid_comps ds" "at ?m ds = Some x" "x \<noteq> r" for ds x
    using at' [OF that(1)] that(2,3) by (metis option.inject)
  have nd: "node_dir ?m x = node_dir m x" for x
    by (simp add: node_dir_def)
  have ok: "node_ok (fs_heap ?m x) = node_ok (fs_heap m x)" for x
    by (simp add: node_ok_def)
  have id: "is_dir m ds \<Longrightarrow> is_dir ?m ds" if "valid_comps ds" for ds
    using that new at' [OF that] by (cases "ds = cs @ [c]") (auto simp: is_dir_def nd simp del: at_set_ref)
  have prr: "pr \<noteq> r" if "node_dir m r"
    using kind [OF that] d(1) vcs by auto
  show ?thesis
  proof (rule fs_wfI)
    show "distinct (map fst (fs_nodes ?m))"
      using wf_distinct [OF wf] by (simp add: set_ref_def distinct_update)
    show "clean_path p" if "ref_at ?m p = Some r'" for p r'
      using that v wf_clean [OF wf, of p r'] clean_path_render [OF v]
      by (auto simp: ref_at_set_ref split: if_splits)
    show "clean_path (fs_cwd ?m)" using wf_cwd [OF wf] by simp
    show "is_dir ?m []" using id [of "[]"] wf_root [OF wf] by simp
    show "is_dir ?m ds" if "valid_comps (ds @ [e])" "at ?m (ds @ [e]) = Some x" for ds e x
    proof (cases "ds @ [e] = cs @ [c]")
      case True
      with d vcs id [of cs] show ?thesis by (auto simp: is_dir_def)
    next
      case False
      with that at' [OF that(1)] have "at m (ds @ [e]) = Some x" by (simp only: if_False)
      with wf_parent [OF wf that(1)] id [of ds] that(1) show ?thesis by simp
    qed
    show "x < fs_nextRef ?m \<and> node_ok (fs_heap ?m x)"
      if "valid_comps ds" "at ?m ds = Some x" for ds x
      using that r wf_ref [OF wf that(1), of x] wf_node [OF wf that(1), of x] at' [OF that(1)]
      unfolding ok by (auto split: if_splits)
    show "ds = es" if "valid_comps ds" "valid_comps es" "at ?m ds = Some x" "at ?m es = Some x"
      "node_dir ?m x" for ds es x
    proof (cases "x = r")
      case True
      with that(5) nd have "node_dir m r" by simp
      from kind [OF this] that True at' [OF that(1)] at' [OF that(2)] show ?thesis
        by (auto split: if_splits)
    next
      case False
      with that have "at m ds = Some x" "at m es = Some x" using old by blast+
      with wf_unique [OF wf that(1,2), of x] that(5) nd show ?thesis by simp
    qed
    show "n_children (fs_heap ?m x) = {e. valid_comp e \<and> at ?m (ds @ [e]) \<noteq> None}"
      if "valid_comps ds" "at ?m ds = Some x" "node_dir ?m x" for ds x
    proof (cases "ds = cs @ [c]")
      case True
      then have xr: "x = r" using that at' by simp
      with that(3) nd have dr: "node_dir m r" by simp
      have "at m (cs @ [c] @ [e]) = None" if "valid_comp e" for e
        using wf_below_not_dir [OF wf _ new, of e] v that by simp
      with True v at' have "{e. valid_comp e \<and> at ?m (ds @ [e]) \<noteq> None} = {}"
        by simp
      with kind [OF dr] prr [OF dr] xr show ?thesis by simp
    next
      case False
      then have atm: "at m ds = Some x" using that at' by simp
      have at1: "at ?m (ds @ [e]) = (if ds = cs \<and> e = c then Some r else at m (ds @ [e]))"
        if "valid_comp e" for e
        using at' [of "ds @ [e]"] \<open>valid_comps ds\<close> that by simp
      have chm: "n_children (fs_heap m x) = {e. valid_comp e \<and> at m (ds @ [e]) \<noteq> None}"
        using wf_children [OF wf that(1) atm] that(3) nd by simp
      show ?thesis
      proof (cases "ds = cs")
        case True
        with atm d have "x = pr" by simp
        with chm True show ?thesis using at1 vc by auto
      next
        case False
        then have "x \<noteq> pr"
          using wf_unique [OF wf that(1) vcs atm] d that(3) nd by auto
        with chm False show ?thesis using at1 by auto
      qed
    qed
  qed
qed

lemma install_wf [fs_inv_intros]:
  assumes wf: "fs_wf m" and v: "valid_comps (cs @ [c])"
    and new: "\<not> is_dir m (cs @ [c])" and d: "is_dir m cs"
    and n: "node_ok n" "n_children n = {}"
    and eq: "install (render (cs @ [c])) n m = (r, m')"
  shows "fs_wf m'"
    and "\<And>ds. valid_comps ds \<Longrightarrow> at m' ds = (if ds = cs @ [c] then Some r else at m ds)"
    and "\<exists>i. fs_heap m' r = n\<lparr>n_id := i\<rparr>"
    and "\<And>ds x. valid_comps ds \<Longrightarrow> at m ds = Some x \<Longrightarrow>
           fs_heap m' x = (if ds = cs then (fs_heap m x)\<lparr>n_children := insert c (n_children (fs_heap m x))\<rparr>
                           else fs_heap m x)"
    and "fs_cwd m' = fs_cwd m" and "fs_implicitParents m' = fs_implicitParents m"
proof -
  obtain m1 where al: "alloc_node n m = (r, m1)"
    and m': "m' = add_child (render cs) c (set_ref (render (cs @ [c])) r m1)"
    using eq v by (auto simp: install_def Let_def split: prod.splits)
  note f = alloc_node_fields [OF al] and a = fs_wf_alloc [OF wf al]
  have vcs: "valid_comps cs" using v by simp
  obtain pr where pr: "at m cs = Some pr" "node_dir m pr" using d by (rule is_dirE)
  have pr1: "at m1 cs = Some pr" "node_dir m1 pr"
    using pr a(3) [OF vcs pr(1)] by (simp_all add: f(8) node_dir_def)
  have new1: "\<not> is_dir m1 (cs @ [c])" using new a(4) [OF v] by simp
  from f(6) obtain i where h: "fs_heap m1 = (fs_heap m)(r := n\<lparr>n_id := i\<rparr>)" by blast
  have prr: "pr \<noteq> r" using a(2) [OF vcs] pr1 by auto
  have m'_eq: "m' = update_node pr (\<lambda>n. n\<lparr>n_children := insert c (n_children n)\<rparr>)
      (set_ref (render (cs @ [c])) r m1)"
    unfolding m' using pr1(1) vcs v by (intro add_child_at) simp
  show "fs_wf m'"
    unfolding m'_eq
    by (rule fs_wf_add_entry [OF a(1) v new1 pr1])
      (use n f a(2) h in \<open>auto simp: node_ok_def\<close>)
  show "at m' ds = (if ds = cs @ [c] then Some r else at m ds)" if "valid_comps ds" for ds
    unfolding m'_eq using that v by (simp add: f(8))
  show "\<exists>i. fs_heap m' r = n\<lparr>n_id := i\<rparr>"
    unfolding m'_eq using h prr by auto
  show "fs_heap m' x = (if ds = cs then (fs_heap m x)\<lparr>n_children := insert c (n_children (fs_heap m x))\<rparr>
      else fs_heap m x)" if "valid_comps ds" "at m ds = Some x" for ds x
  proof -
    have xr: "x \<noteq> r" using a(2) [OF that(1)] that(2) f(8) by auto
    have "x = pr \<longleftrightarrow> ds = cs"
      using wf_unique [OF wf that(1) vcs that(2)] pr that(2) by auto
    with xr h show ?thesis unfolding m'_eq by auto
  qed
  show "fs_cwd m' = fs_cwd m" "fs_implicitParents m' = fs_implicitParents m"
    unfolding m'_eq by (simp_all add: f)
qed

end
