(* ===== verification/MemoryFS_Resolve.thy ===== *)
theory MemoryFS_Resolve
  imports MemoryFS_Inv
begin

text \<open>
  What path resolution returns: the string walks of \<open>resolveAbsLocked\<close> and
  \<open>resolveCreatePathLocked\<close> seen as walks along component lists, and their
  characterisation under the tree invariant. A walk that returns has gone through
  directories only; a path whose proper prefixes are directories resolves to itself.
\<close>

section \<open>Walks on component lists\<close>

lemma join_eq_Nil: "valid_comps cs \<Longrightarrow> join_with slash cs = [] \<longleftrightarrow> cs = []"
  by (cases cs) (auto simp: join_with_Cons valid_comp_def)

lemma next_part_join:
  assumes "valid_comps (c # cs)"
  shows "next_part (join_with slash (c # cs)) = (c, join_with slash cs)"
proof -
  have c: "slash \<notin> set c" using assms by (simp add: valid_comp_def)
  then have "takeWhile (\<lambda>x. x \<noteq> slash) (c @ slash # s) = c"
    and "dropWhile (\<lambda>x. x \<noteq> slash) (c @ slash # s) = slash # s" for s
    by (subst takeWhile_append2 dropWhile_append2; auto)+
  moreover from c have "takeWhile (\<lambda>x. x \<noteq> slash) c = c" "dropWhile (\<lambda>x. x \<noteq> slash) c = []"
    by (auto simp: takeWhile_eq_all_conv dropWhile_eq_Nil_conv)
  ultimately show ?thesis
    by (simp only: next_part_def join_with_Cons split: if_split) simp
qed

lemma tl_render: "tl (render cs) = join_with slash cs"
  by (simp add: render_def)

lemma render_root_join: "''/'' = render []"
  by simp

lemma resolveAbs_loop_Nil:
  "resolveAbs_loop m ff am cur [] =
     (case at m [] of None \<Rightarrow> Return (Inl (Errno ErrNotExist)) | Some r \<Rightarrow> Return (Inr (''/'', Some r)))"
  by (simp add: resolveAbs_loop.simps at_def)

lemma resolveAbs_loop_Cons:
  assumes v: "valid_comps (ds @ c # cs)"
  shows "resolveAbs_loop m ff am (render ds) (join_with slash (c # cs)) =
     (case at m (ds @ [c]) of
        None \<Rightarrow> if cs = [] \<and> am then Return (Inr (render (ds @ [c]), None))
                else Return (Inl (Errno ErrNotExist))
      | Some r \<Rightarrow>
          if node_link m r \<and> (cs \<noteq> [] \<or> ff) then
            Restart (if cs = [] then Resolve (render ds) (n_target (fs_heap m r))
                     else Resolve (Resolve (render ds) (n_target (fs_heap m r))) (join_with slash cs))
          else if cs = [] then Return (Inr (render (ds @ [c]), Some r))
          else if \<not> node_dir m r then Return (Inl (Errno ErrInvalid))
          else resolveAbs_loop m ff am (render (ds @ [c])) (join_with slash cs))"
proof -
  from v have vd: "valid_comps ds" and vdc: "valid_comps (ds @ [c])" and vc: "valid_comps (c # cs)"
    and vcs: "valid_comps cs"
    by auto
  have ne: "join_with slash (c # cs) \<noteq> []"
    using join_eq_Nil [OF vc] by simp
  have jc: "joinClean (render ds) c = render (ds @ [c])"
    using vd by (rule render_snoc)
  have pd: "parentDir (render (ds @ [c])) = render ds"
    using vdc by (rule parentDir_render)
  show ?thesis
    by (subst resolveAbs_loop.simps)
      (simp add: ne next_part_join [OF vc] jc pd join_eq_Nil [OF vcs] Let_def at_def
        node_link_def node_dir_def split: option.split)
qed

lemma resolveCreate_loop_Cons:
  assumes v: "valid_comps (ds @ c # cs)"
  shows "resolveCreate_loop m p (render ds) (join_with slash (c # cs)) =
     (case at m (ds @ [c]) of
        None \<Rightarrow> Return (Inr (render (ds @ c # cs)))
      | Some r \<Rightarrow>
          if node_link m r then
            Restart (if cs = [] then Resolve (render ds) (n_target (fs_heap m r))
                     else Resolve (Resolve (render ds) (n_target (fs_heap m r))) (join_with slash cs))
          else if cs = [] then Return (Inr (render (ds @ [c])))
          else if \<not> node_dir m r then Return (Inl (Errno ErrInvalid))
          else resolveCreate_loop m p (render (ds @ [c])) (join_with slash cs))"
proof -
  from v have vd: "valid_comps ds" and vdc: "valid_comps (ds @ [c])" and vc: "valid_comps (c # cs)"
    and vcs: "valid_comps cs"
    by auto
  have ne: "join_with slash (c # cs) \<noteq> []"
    using join_eq_Nil [OF vc] by simp
  have jc: "joinClean (render ds) c = render (ds @ [c])"
    using vd by (rule render_snoc)
  have pd: "parentDir (render (ds @ [c])) = render ds"
    using vdc by (rule parentDir_render)
  have rs: "Resolve (render (ds @ [c])) (join_with slash cs) = render (ds @ c # cs)"
    using Resolve_join [OF vdc vcs] by simp
  show ?thesis
    by (subst resolveCreate_loop.simps)
      (simp add: ne next_part_join [OF vc] jc pd rs join_eq_Nil [OF vcs] Let_def at_def
        node_link_def node_dir_def split: option.split)
qed

section \<open>What resolution returns\<close>

text \<open>All proper prefixes of \<open>cs\<close> are directories.\<close>

definition phys :: "MemoryFS \<Rightarrow> string list \<Rightarrow> bool" where
  "phys m cs \<longleftrightarrow> (\<forall>es. strict_prefix es cs \<longrightarrow> is_dir m es)"

lemma phys_Nil [simp]: "phys m []"
  by (simp add: phys_def)

lemma phys_snoc: "phys m (cs @ [c]) \<longleftrightarrow> phys m cs \<and> is_dir m cs"
proof -
  have "strict_prefix es (cs @ [c]) \<longleftrightarrow> strict_prefix es cs \<or> es = cs" for es
    by (auto simp: strict_prefix_def)
  then show ?thesis by (auto simp: phys_def)
qed

lemma phys_append: "phys m (cs @ ds) \<Longrightarrow> phys m cs"
  using prefix_order.less_le_trans [of _ cs "cs @ ds"] by (auto simp: phys_def)

lemma wf_phys: "fs_wf m \<Longrightarrow> valid_comps cs \<Longrightarrow> at m cs = Some r \<Longrightarrow> phys m cs"
proof (unfold phys_def, intro allI impI)
  fix es
  assume a: "fs_wf m" "valid_comps cs" "at m cs = Some r" and "strict_prefix es cs"
  then obtain zs where "cs = es @ zs" "zs \<noteq> []"
    by (auto simp: strict_prefix_def prefix_def)
  with a show "is_dir m es" using wf_prefix_dir by blast
qed

lemma resolveAbs_loop_result:
  assumes "valid_comps (ds @ cs)" and "phys m ds" and "is_dir m ds" and "cs \<noteq> []"
    and "resolveAbs_loop m ff am (render ds) (join_with slash cs) = Return (Inr (p, ref))"
  shows "p = render (ds @ cs) \<and> ref = at m (ds @ cs) \<and> phys m (ds @ cs) \<and> (ref = None \<longrightarrow> am) \<and>
     (\<forall>r. ref = Some r \<longrightarrow> ff \<longrightarrow> \<not> node_link m r)"
  using assms
proof (induction cs arbitrary: ds)
  case (Cons c cs)
  note eq = Cons.prems(5) [unfolded resolveAbs_loop_Cons [OF Cons.prems(1)]]
  show ?case
  proof (cases "at m (ds @ [c])")
    case None
    with eq Cons.prems show ?thesis by (auto simp: phys_snoc split: if_splits)
  next
    case (Some r)
    show ?thesis
    proof (cases "cs = []")
      case True
      with eq Some Cons.prems show ?thesis by (auto simp: phys_snoc split: if_splits)
    next
      case False
      with eq Some have d: "node_dir m r"
        and eq': "resolveAbs_loop m ff am (render (ds @ [c])) (join_with slash cs) = Return (Inr (p, ref))"
        by (auto split: if_splits)
      from Cons.IH [of "ds @ [c]"] Cons.prems False d Some eq' show ?thesis
        by (auto simp: phys_snoc is_dir_def)
    qed
  qed
qed simp

lemma resolveAbs_loop_ident:
  assumes "valid_comps (ds @ cs)" and "fs_wf m" and "phys m (ds @ cs)" and "cs \<noteq> []"
    and "at m (ds @ cs) = None \<Longrightarrow> am"
    and "\<And>r. at m (ds @ cs) = Some r \<Longrightarrow> ff \<Longrightarrow> \<not> node_link m r"
  shows "resolveAbs_loop m ff am (render ds) (join_with slash cs) =
     Return (Inr (render (ds @ cs), at m (ds @ cs)))"
  using assms
proof (induction cs arbitrary: ds)
  case (Cons c cs)
  show ?case
  proof (cases "cs = []")
    case True
    with Cons.prems show ?thesis
      unfolding resolveAbs_loop_Cons [OF Cons.prems(1)] by (auto split: option.split)
  next
    case False
    have "is_dir m (ds @ [c])"
      using Cons.prems(3) False unfolding phys_def by (auto simp: strict_prefix_def)
    then obtain r where r: "at m (ds @ [c]) = Some r" "node_dir m r" by (rule is_dirE)
    have "\<not> node_link m r"
      using Cons.prems r by (intro wf_dir_not_link [of m "ds @ [c]"]) auto
    with r False Cons.IH [of "ds @ [c]"] Cons.prems show ?thesis
      unfolding resolveAbs_loop_Cons [OF Cons.prems(1)] by simp
  qed
qed simp

text \<open>
  The specification of \<open>resolveAbsLocked\<close>: the path returned is physical, the node is
  the one stored there, a missing final entry is reported only when allowed, and with
  \<open>followFinal\<close> the result is never a symbolic link.
\<close>

lemma resolveAbsLocked_result:
  assumes "fs_wf m" and "resolveAbsLocked m name ff am d = Inr (p, ref)"
  shows "\<exists>cs. valid_comps cs \<and> p = render cs \<and> ref = at m cs \<and> phys m cs \<and>
     (ref = None \<longrightarrow> am \<and> cs \<noteq> []) \<and> (\<forall>r. ref = Some r \<longrightarrow> ff \<longrightarrow> \<not> node_link m r)"
  using assms
proof (induction m name ff am d rule: resolveAbsLocked.induct)
  case (1 m name ff am d)
  define cs where "cs = abs_comps name"
  have v: "valid_comps cs" and cl: "Clean name = render cs"
    by (simp_all add: cs_def Clean_eq)
  from "1.prems"(2) have d: "\<not> maxSymlinkDepth < d"
    by (auto simp: resolveAbsLocked.simps [of m name])
  from wf_root [OF "1.prems"(1)] obtain r0 where r0: "at m [] = Some r0" "node_dir m r0"
    by (rule is_dirE)
  show ?case
  proof (cases "cs = []")
    case True
    with "1.prems"(2) cl d r0 have "p = ''/''" "ref = Some r0"
      by (auto simp: resolveAbsLocked.simps [of m name] at_def)
    with r0 wf_dir_not_link [OF "1.prems"(1) _ r0] show ?thesis
      by (intro exI [of _ "[]"]) simp
  next
    case False
    have eq: "(case resolveAbs_loop m ff am (render []) (join_with slash cs) of
        Return r \<Rightarrow> r | Restart t \<Rightarrow> resolveAbsLocked m t True am (Suc d)) = Inr (p, ref)"
      using "1.prems"(2) cl d False v by (simp add: resolveAbsLocked.simps [of m name] tl_render)
    show ?thesis
    proof (cases "resolveAbs_loop m ff am (render []) (join_with slash cs)")
      case (Return x)
      with eq resolveAbs_loop_result [of "[]" cs m ff am p ref] v False wf_root [OF "1.prems"(1)]
      show ?thesis by auto
    next
      case (Restart t)
      then have t: "resolveAbs_loop m ff am ''/'' (tl (render cs)) = Restart t"
        by (simp add: tl_render)
      with eq Restart have rec: "resolveAbsLocked m t True am (Suc d) = Inr (p, ref)"
        by simp
      have "Clean name \<noteq> ''/''" using False v by (simp add: cl)
      from "1.IH" [OF refl d, of t] this t cl rec "1.prems"(1) show ?thesis by auto
    qed
  qed
qed

lemma resolveAbsLocked_ident:
  assumes wf: "fs_wf m" and v: "valid_comps cs" and ph: "phys m cs" and d: "d \<le> maxSymlinkDepth"
    and am: "at m cs = None \<Longrightarrow> am"
    and lk: "\<And>r. at m cs = Some r \<Longrightarrow> ff \<Longrightarrow> \<not> node_link m r"
  shows "resolveAbsLocked m (render cs) ff am d = Inr (render cs, at m cs)"
proof (cases "cs = []")
  case True
  from wf_root [OF wf] obtain r0 where "at m [] = Some r0" by (rule is_dirE)
  with True d show ?thesis by (simp add: resolveAbsLocked.simps at_def)
next
  case False
  then have "resolveAbs_loop m ff am (render []) (join_with slash cs) = Return (Inr (render cs, at m cs))"
    using resolveAbs_loop_ident [of "[]" cs m am ff] assms by simp
  with False v d show ?thesis
    by (subst resolveAbsLocked.simps) (simp add: tl_render)
qed

lemma resolvePathLocked_result:
  assumes "fs_wf m" and "resolvePathLocked m name ff am = Inr (p, ref)"
  obtains cs where "valid_comps cs" "p = render cs" "ref = at m cs" "phys m cs"
    "ref = None \<Longrightarrow> am \<and> cs \<noteq> []" "\<And>r. ref = Some r \<Longrightarrow> ff \<Longrightarrow> \<not> node_link m r"
proof -
  obtain cs where cs: "valid_comps cs" "p = render cs" "ref = at m cs" "phys m cs"
    "ref = None \<longrightarrow> am \<and> cs \<noteq> []" "\<forall>r. ref = Some r \<longrightarrow> ff \<longrightarrow> \<not> node_link m r"
    using resolveAbsLocked_result [OF assms(1) assms(2) [unfolded resolvePathLocked_def]] by metis
  show thesis by (rule that [OF cs(1-4)]) (use cs(5,6) in simp_all)
qed

lemma resolvePathLocked_ident:
  assumes "fs_wf m" "valid_comps cs" "phys m cs" "at m cs = None \<Longrightarrow> am"
    "\<And>r. at m cs = Some r \<Longrightarrow> ff \<Longrightarrow> \<not> node_link m r"
  shows "resolvePathLocked m (render cs) ff am = Inr (render cs, at m cs)"
proof -
  have "HasPrefix (render cs) ''/''" by (simp add: HasPrefix_def render_def)
  then have "Resolve (fs_cwd m) (render cs) = render cs"
    using assms(2) by (simp add: Resolve_abs)
  with assms show ?thesis
    by (simp add: resolvePathLocked_def resolveAbsLocked_ident)
qed

section \<open>Resolution for creation\<close>

text \<open>
  A path to be created: what exists of its proper prefixes are directories, and the path
  itself is not a symbolic link.
\<close>

definition creatable :: "MemoryFS \<Rightarrow> string list \<Rightarrow> bool" where
  "creatable m cs \<longleftrightarrow>
     (\<forall>es. strict_prefix es cs \<longrightarrow> at m es = None \<or> is_dir m es) \<and>
     (\<forall>r. at m cs = Some r \<longrightarrow> \<not> node_link m r)"

lemma phys_creatable:
  "phys m cs \<Longrightarrow> (\<And>r. at m cs = Some r \<Longrightarrow> \<not> node_link m r) \<Longrightarrow> creatable m cs"
  by (auto simp: phys_def creatable_def)

lemma creatable_prefix:
  assumes "fs_wf m" "valid_comps (cs @ ds)" "creatable m (cs @ ds)"
  shows "creatable m cs"
proof (cases "ds = []")
  case False
  then have sp: "strict_prefix cs (cs @ ds)" by (simp add: strict_prefix_def)
  then have "strict_prefix es (cs @ ds)" if "strict_prefix es cs" for es
    using that prefix_order.less_trans by blast
  with assms(3) have "\<forall>es. strict_prefix es cs \<longrightarrow> at m es = None \<or> is_dir m es"
    by (auto simp: creatable_def)
  moreover have "\<not> node_link m r" if "at m cs = Some r" for r
    using assms that sp wf_dir_not_link [OF assms(1), of cs r]
    by (auto simp: creatable_def is_dir_def)
  ultimately show ?thesis by (simp add: creatable_def)
qed (use assms in simp)

lemma creatable_missing:
  assumes "fs_wf m" "valid_comps (cs @ ds)" "phys m cs" "at m cs = None"
  shows "creatable m (cs @ ds)"
proof -
  have "at m es = None \<or> is_dir m es" if "strict_prefix es (cs @ ds)" for es
  proof (cases "prefix cs es")
    case True
    then obtain zs where es: "es = cs @ zs" by (auto simp: prefix_def)
    with that assms(2) have "valid_comps es"
      by (auto simp: strict_prefix_def prefix_def)
    with es wf_missing_below [OF assms(1) _ assms(4), of zs] show ?thesis by simp
  next
    case False
    with that have "strict_prefix es cs"
      by (metis prefix_order.dual_order.strict_iff_order prefix_same_cases prefixI)
    with assms(3) show ?thesis by (simp add: phys_def)
  qed
  moreover have "at m (cs @ ds) = None"
    using assms wf_missing_below by blast
  ultimately show ?thesis by (simp add: creatable_def)
qed

lemma resolveCreate_loop_result:
  assumes "valid_comps (ds @ cs)" and "fs_wf m" and "phys m ds" and "is_dir m ds" and "cs \<noteq> []"
    and "resolveCreate_loop m q (render ds) (join_with slash cs) = Return (Inr p)"
  shows "p = render (ds @ cs) \<and> creatable m (ds @ cs)"
  using assms
proof (induction cs arbitrary: ds)
  case (Cons c cs)
  note eq = Cons.prems(6) [unfolded resolveCreate_loop_Cons [OF Cons.prems(1)]]
  have ph: "phys m (ds @ [c])" using Cons.prems by (simp add: phys_snoc)
  show ?case
  proof (cases "at m (ds @ [c])")
    case None
    with eq creatable_missing [of m "ds @ [c]" cs] Cons.prems ph show ?thesis by simp
  next
    case (Some r)
    show ?thesis
    proof (cases "cs = []")
      case True
      with eq Some have "p = render (ds @ [c])" "\<not> node_link m r" by (auto split: if_splits)
      with True Some phys_creatable [OF ph] show ?thesis by simp
    next
      case False
      with eq Some have d: "node_dir m r"
        and eq': "resolveCreate_loop m q (render (ds @ [c])) (join_with slash cs) = Return (Inr p)"
        by (auto split: if_splits)
      from Cons.IH [of "ds @ [c]"] Cons.prems False d Some eq' ph show ?thesis
        by (auto simp: is_dir_def)
    qed
  qed
qed simp

lemma resolveCreatePathLocked_result:
  assumes "fs_wf m" and "resolveCreatePathLocked m name d = Inr p"
  shows "\<exists>cs. valid_comps cs \<and> p = render cs \<and> creatable m cs"
  using assms
proof (induction m name d rule: resolveCreatePathLocked.induct)
  case (1 m name d)
  define cs where "cs = abs_comps name"
  have v: "valid_comps cs" and cl: "Clean name = render cs"
    by (simp_all add: cs_def Clean_eq)
  from "1.prems"(2) have d: "\<not> maxSymlinkDepth < d"
    by (auto simp: resolveCreatePathLocked.simps [of m name])
  from wf_root [OF "1.prems"(1)] obtain r0 where r0: "at m [] = Some r0" "node_dir m r0"
    by (rule is_dirE)
  show ?case
  proof (cases "cs = []")
    case True
    with "1.prems"(2) cl d have "p = ''/''"
      by (auto simp: resolveCreatePathLocked.simps [of m name])
    with r0 wf_dir_not_link [OF "1.prems"(1) _ r0] show ?thesis
      by (intro exI [of _ "[]"]) (simp add: creatable_def)
  next
    case False
    have eq: "(case resolveCreate_loop m (render cs) (render []) (join_with slash cs) of
        Return r \<Rightarrow> r | Restart t \<Rightarrow> resolveCreatePathLocked m t (Suc d)) = Inr p"
      using "1.prems"(2) cl d False v by (simp add: resolveCreatePathLocked.simps [of m name] tl_render)
    show ?thesis
    proof (cases "resolveCreate_loop m (render cs) (render []) (join_with slash cs)")
      case (Return x)
      with eq resolveCreate_loop_result [of "[]" cs m "render cs" p] v False "1.prems"(1)
        wf_root [OF "1.prems"(1)]
      show ?thesis by auto
    next
      case (Restart t)
      then have t: "resolveCreate_loop m (render cs) ''/'' (tl (render cs)) = Restart t"
        by (simp add: tl_render)
      with eq Restart have rec: "resolveCreatePathLocked m t (Suc d) = Inr p"
        by simp
      have "Clean name \<noteq> ''/''" using False v by (simp add: cl)
      from "1.IH" [OF refl d, of t] this t cl rec "1.prems"(1) show ?thesis by auto
    qed
  qed
qed

text \<open>
  The two resolutions agree: they follow the same links, and where the strict one
  reports a missing component, the path of the creating one does not exist.
\<close>

lemma resolve_loops_agree:
  assumes "fs_wf m" "valid_comps (ds @ cs)" "cs \<noteq> []"
  shows "(\<forall>t. resolveAbs_loop m ff True (render ds) (join_with slash cs) = Restart t \<longrightarrow>
            resolveCreate_loop m q (render ds) (join_with slash cs) = Restart t) \<and>
     (\<forall>e p. resolveAbs_loop m ff True (render ds) (join_with slash cs) = Return (Inl e) \<longrightarrow>
            errors_Is e ErrNotExist \<longrightarrow>
            resolveCreate_loop m q (render ds) (join_with slash cs) = Return (Inr p) \<longrightarrow>
            ref_at m p = None)"
  using assms
proof (induction cs arbitrary: ds)
  case (Cons c cs)
  note e1 = resolveAbs_loop_Cons [OF Cons.prems(2), of m ff True]
    and e2 = resolveCreate_loop_Cons [OF Cons.prems(2), of m q]
  show ?case
  proof (cases "at m (ds @ [c])")
    case None
    with wf_missing_below [OF Cons.prems(1) _ None, of cs] Cons.prems(2) show ?thesis
      unfolding e1 e2 by (auto simp: at_def split: if_splits)
  next
    case (Some r)
    with Cons.IH [of "ds @ [c]"] Cons.prems show ?thesis
      unfolding e1 e2 by (cases "cs = []") auto
  qed
qed simp

lemma resolve_loops_restart:
  assumes "fs_wf m" "valid_comps (ds @ cs)" "cs \<noteq> []" "errors_Is e ErrNotExist"
    "resolveAbs_loop m ff True (render ds) (join_with slash cs) = Return (Inl e)"
  shows "resolveCreate_loop m q (render ds) (join_with slash cs) \<noteq> Restart t"
  using assms
proof (induction cs arbitrary: ds)
  case (Cons c cs)
  note e1 = resolveAbs_loop_Cons [OF Cons.prems(2), of m ff True]
    and e2 = resolveCreate_loop_Cons [OF Cons.prems(2), of m q]
  show ?case
    using Cons.prems Cons.IH [of "ds @ [c]"] unfolding e1 e2
    by (auto split: option.splits if_splits)
qed simp

lemma resolve_agree_missing:
  assumes "fs_wf m" "resolveAbsLocked m name ff True d = Inl e" "errors_Is e ErrNotExist"
    "resolveCreatePathLocked m name d = Inr p"
  shows "ref_at m p = None"
  using assms
proof (induction "Suc maxSymlinkDepth - d" arbitrary: name ff d rule: less_induct)
  case less
  define cs where "cs = abs_comps name"
  have v: "valid_comps cs" and cl: "Clean name = render cs"
    by (simp_all add: cs_def Clean_eq)
  from less.prems(2,3) have d: "\<not> maxSymlinkDepth < d"
    by (auto simp: resolveAbsLocked.simps [of m name])
  from wf_root [OF less.prems(1)] obtain r0 where r0: "at m [] = Some r0" by (auto elim: is_dirE)
  have ne: "cs \<noteq> []"
    using less.prems(2) cl d r0 by (auto simp: resolveAbsLocked.simps [of m name] at_def)
  note agree = resolve_loops_agree [OF less.prems(1), of "[]" cs ff "render cs"]
  have a: "(case resolveAbs_loop m ff True (render []) (join_with slash cs) of
      Return r \<Rightarrow> r | Restart t \<Rightarrow> resolveAbsLocked m t True True (Suc d)) = Inl e"
    using less.prems(2) cl d ne v by (simp add: resolveAbsLocked.simps [of m name] tl_render)
  have c: "(case resolveCreate_loop m (render cs) (render []) (join_with slash cs) of
      Return r \<Rightarrow> r | Restart t \<Rightarrow> resolveCreatePathLocked m t (Suc d)) = Inr p"
    using less.prems(4) cl d ne v by (simp add: resolveCreatePathLocked.simps [of m name] tl_render)
  show ?case
  proof (cases "resolveAbs_loop m ff True (render []) (join_with slash cs)")
    case (Restart t)
    with agree v ne have "resolveCreate_loop m (render cs) (render []) (join_with slash cs) = Restart t"
      by simp
    with a c Restart d less.hyps [of "Suc d" t True] less.prems show ?thesis by simp
  next
    case (Return x)
    with a have ra: "resolveAbs_loop m ff True (render []) (join_with slash cs) = Return (Inl e)" by simp
    have nr: "resolveCreate_loop m (render cs) (render []) (join_with slash cs) \<noteq> Restart t" for t
      using resolve_loops_restart [OF less.prems(1) _ ne less.prems(3), of "[]"] ra v by simp
    with c obtain y where "resolveCreate_loop m (render cs) (render []) (join_with slash cs) = Return (Inr p)"
      by (cases "resolveCreate_loop m (render cs) (render []) (join_with slash cs)") auto
    with agree ra v ne less.prems(3) show ?thesis by simp
  qed
qed

section \<open>Creating directories\<close>

text \<open>
  Extension: every entry of \<open>m\<close> is kept with its node (up to the set of children), and
  every new entry is a directory.
\<close>

definition extends :: "MemoryFS \<Rightarrow> MemoryFS \<Rightarrow> bool" where
  "extends m m' \<longleftrightarrow>
     (\<forall>es r. valid_comps es \<longrightarrow> at m es = Some r \<longrightarrow>
        at m' es = Some r \<and> (\<exists>X. fs_heap m' r = (fs_heap m r)\<lparr>n_children := X\<rparr>)) \<and>
     (\<forall>es. valid_comps es \<longrightarrow> at m es = None \<longrightarrow> at m' es \<noteq> None \<longrightarrow> is_dir m' es) \<and>
     fs_cwd m' = fs_cwd m \<and> fs_implicitParents m' = fs_implicitParents m"

lemma extends_refl [simp]: "extends m m"
  unfolding extends_def by (metis memoryNode.unfold_congs(9) memoryNode.surjective memoryNode.update_convs(9))

lemma extendsD:
  assumes "extends m m'" "valid_comps es" "at m es = Some r"
  shows "at m' es = Some r" "node_dir m' r = node_dir m r" "node_link m' r = node_link m r"
    "n_data (fs_heap m' r) = n_data (fs_heap m r)"
  using assms unfolding extends_def node_dir_def node_link_def by fastforce+

lemma extends_is_dir: "extends m m' \<Longrightarrow> valid_comps es \<Longrightarrow> is_dir m es \<Longrightarrow> is_dir m' es"
  using extendsD unfolding is_dir_def by blast

lemma extends_trans:
  assumes a: "extends m1 m2" and b: "extends m2 m3"
  shows "extends m1 m3"
  unfolding extends_def
proof (intro conjI allI impI)
  fix es r
  assume es: "valid_comps es" "at m1 es = Some r"
  with a obtain X where 2: "at m2 es = Some r" "fs_heap m2 r = (fs_heap m1 r)\<lparr>n_children := X\<rparr>"
    unfolding extends_def by blast
  with b es obtain Y where 3: "at m3 es = Some r" "fs_heap m3 r = (fs_heap m2 r)\<lparr>n_children := Y\<rparr>"
    unfolding extends_def by blast
  show "at m3 es = Some r" by (rule 3)
  show "\<exists>X. fs_heap m3 r = (fs_heap m1 r)\<lparr>n_children := X\<rparr>"
    using 2 3 by auto
next
  fix es
  assume es: "valid_comps es" "at m1 es = None" "at m3 es \<noteq> None"
  show "is_dir m3 es"
  proof (cases "at m2 es = None")
    case True
    with b es show ?thesis unfolding extends_def by blast
  next
    case False
    with a es have "is_dir m2 es" unfolding extends_def by blast
    with b es show ?thesis by (blast intro: extends_is_dir)
  qed
qed (use a b in \<open>auto simp: extends_def\<close>)

text \<open>The type bits of the modes the constructors build.\<close>

lemma stored_mask_bits [simp]:
  "(x AND storedPermBits) AND ModeSymlink = 0" "(x AND storedPermBits) AND ModeDir = 0"
  "(x AND storedPermBits) AND ModeNamedPipe = 0"
  by (simp_all add: and.assoc storedPermBits_def mode_bits)

lemma const_bits [simp]:
  "(0x1ED :: FileMode) AND ModeSymlink = 0" "(0x1ED :: FileMode) AND ModeDir = 0"
  "(0x1A4 :: FileMode) AND ModeSymlink = 0" "(0x1A4 :: FileMode) AND ModeDir = 0"
  "(0x1FF :: FileMode) AND ModeDir = 0"
  "ModeDir AND ModeSymlink = 0" "ModeDir \<noteq> 0" "ModeSymlink AND ModeDir = 0" "ModeSymlink \<noteq> 0"
  "ModeNamedPipe AND ModeDir = 0" "ModeNamedPipe AND ModeSymlink = 0"
  by (simp_all add: mode_bits)

lemma or_and_distrib: "(a OR b) AND c = (a AND c) OR (b AND c :: FileMode)"
  by (rule bit.conj_disj_distrib2)

definition mkdir_perm :: "FileMode \<Rightarrow> FileMode" where
  "mkdir_perm perm = (if perm AND storedPermBits = 0 then 0x1ED else perm AND storedPermBits)"

lemma mkdir_mode:
  "mode_IsDir (ModeDir OR mkdir_perm p)" "(ModeDir OR mkdir_perm p) AND ModeSymlink = 0"
  by (simp_all add: mkdir_perm_def mode_IsDir_def or_and_distrib)

lemma mkdirAll_loop_Nil [simp]: "mkdirAll_loop now perm cur [] m = (Inr (), m)"
  by (simp add: mkdirAll_loop.simps)

lemma mkdirAll_loop_Cons:
  assumes v: "valid_comps (ds @ c # cs)"
  shows "mkdirAll_loop now perm (render ds) (join_with slash (c # cs)) m =
     (case at m (ds @ [c]) of
        Some r \<Rightarrow>
          if node_link m r then
            (case resolveAbsLocked m (render (ds @ [c])) True False 0 of
               Inl e \<Rightarrow> (Inl (PathError ''mkdir'' (render (ds @ [c])) e), m)
             | Inr (q, None) \<Rightarrow> (Inl (PathError ''mkdir'' (render (ds @ [c])) (Errno ErrNotExist)), m)
             | Inr (q, Some r') \<Rightarrow>
                 if \<not> node_dir m r' then
                   (Inl (PathError ''mkdir'' (render (ds @ [c])) (Errno ErrInvalid)), m)
                 else mkdirAll_loop now perm q (join_with slash cs) m)
          else if \<not> node_dir m r then
            (Inl (PathError ''mkdir'' (render (ds @ [c])) (Errno ErrInvalid)), m)
          else mkdirAll_loop now perm (render (ds @ [c])) (join_with slash cs) m
      | None \<Rightarrow>
          mkdirAll_loop now (mkdir_perm perm) (render (ds @ [c])) (join_with slash cs)
            (snd (install (render (ds @ [c])) (blank_node (ModeDir OR mkdir_perm perm) now) m)))"
proof -
  from v have vd: "valid_comps ds" and vdc: "valid_comps (ds @ [c])" and vc: "valid_comps (c # cs)"
    by auto
  have ne: "join_with slash (c # cs) \<noteq> []"
    using join_eq_Nil [OF vc] by simp
  have jc: "joinClean (render ds) c = render (ds @ [c])"
    using vd by (rule render_snoc)
  have pd: "parentDir (render (ds @ [c])) = render ds" "path_Base (render (ds @ [c])) = c"
    using vdc by (simp_all only: parentDir_render path_Base_render)
  show ?thesis
    by (subst mkdirAll_loop.simps)
      (simp add: ne next_part_join [OF vc] jc pd Let_def at_def install_def mkdir_perm_def
        node_link_def node_dir_def split: option.split sum.split prod.split)
qed

lemma install_extends:
  assumes wf: "fs_wf m" and v: "valid_comps (cs @ [c])" and new: "at m (cs @ [c]) = None"
    and d: "is_dir m cs" and n: "node_ok n" "n_children n = {}" "mode_IsDir (n_mode n)"
    and eq: "install (render (cs @ [c])) n m = (r, m')"
  shows "fs_wf m'" "extends m m'" "is_dir m' (cs @ [c])"
    "\<And>es. valid_comps es \<Longrightarrow> at m' es \<noteq> None \<Longrightarrow> at m es \<noteq> None \<or> es = cs @ [c]"
proof -
  note i = install_wf [OF wf v missing_not_dir [OF new] d n(1,2) eq]
  show "fs_wf m'" by (rule i)
  from i(3) n(3) have nd: "node_dir m' r" by (auto simp: node_dir_def)
  with i(2) [OF v] show id: "is_dir m' (cs @ [c])" by (simp add: is_dir_def)
  show "at m es \<noteq> None \<or> es = cs @ [c]" if "valid_comps es" "at m' es \<noteq> None" for es
    using that i(2) [OF that(1)] by (auto split: if_splits)
  show "extends m m'"
    unfolding extends_def
  proof (intro conjI allI impI)
    fix es x
    assume es: "valid_comps es" "at m es = Some x"
    with new have "es \<noteq> cs @ [c]" by auto
    with i(2) [OF es(1)] es show "at m' es = Some x" by simp
    show "\<exists>X. fs_heap m' x = (fs_heap m x)\<lparr>n_children := X\<rparr>"
    proof (cases "es = cs")
      case True
      with i(4) [OF es] show ?thesis by auto
    next
      case False
      with i(4) [OF es] have "fs_heap m' x = (fs_heap m x)\<lparr>n_children := n_children (fs_heap m x)\<rparr>"
        by simp
      then show ?thesis by blast
    qed
  next
    fix es
    assume "valid_comps es" "at m es = None" "at m' es \<noteq> None"
    with i(2) [of es] id show "is_dir m' es" by (auto split: if_splits)
  qed (use i(5,6) in simp_all)
qed

lemma mkdir_node_ok:
  "node_ok (blank_node (ModeDir OR mkdir_perm p) now)"
  "n_children (blank_node (ModeDir OR mkdir_perm p) now) = {}"
  "mode_IsDir (n_mode (blank_node (ModeDir OR mkdir_perm p) now))"
  by (simp_all add: node_ok_def blank_node_def mkdir_mode)

lemma mkdirAll_loop_wf:
  assumes "fs_wf m" "valid_comps (ds @ cs)" "is_dir m ds"
    and "mkdirAll_loop now perm (render ds) (join_with slash cs) m = (res, m')"
  shows "fs_wf m' \<and> extends m m'"
  using assms
proof (induction cs arbitrary: ds m perm)
  case (Cons c cs)
  note eq = Cons.prems(4) [unfolded mkdirAll_loop_Cons [OF Cons.prems(2)]]
  show ?case
  proof (cases "at m (ds @ [c])")
    case None
    define ins where "ins = install (render (ds @ [c])) (blank_node (ModeDir OR mkdir_perm perm) now) m"
    then have ins: "install (render (ds @ [c])) (blank_node (ModeDir OR mkdir_perm perm) now) m =
        (fst ins, snd ins)" by simp
    have v: "valid_comps (ds @ [c])" using Cons.prems(2) by simp
    note i = install_extends [OF Cons.prems(1) v None Cons.prems(3) mkdir_node_ok ins]
    from eq None have "mkdirAll_loop now (mkdir_perm perm) (render (ds @ [c])) (join_with slash cs)
        (snd ins) = (res, m')" by (simp add: ins_def)
    from Cons.IH [OF i(1) _ i(3) this] Cons.prems(2) have "fs_wf m' \<and> extends (snd ins) m'" by simp
    with i(2) extends_trans show ?thesis by blast
  next
    case (Some r)
    show ?thesis
    proof (cases "node_link m r")
      case False
      with eq Some Cons.IH [of m "ds @ [c]" perm] Cons.prems(1,2) show ?thesis
        by (auto simp: is_dir_def split: if_splits)
    next
      case True
      show ?thesis
      proof (cases "\<exists>q r'. resolveAbsLocked m (render (ds @ [c])) True False 0 = Inr (q, Some r') \<and> node_dir m r'")
        case True
        then obtain q r' where q: "resolveAbsLocked m (render (ds @ [c])) True False 0 = Inr (q, Some r')"
          and nd: "node_dir m r'" by blast
        from resolveAbsLocked_result [OF Cons.prems(1) q] obtain qs where
          qs: "valid_comps qs" "q = render qs" "at m qs = Some r'" by auto
        from eq Some \<open>node_link m r\<close> q nd
        have "mkdirAll_loop now perm (render qs) (join_with slash cs) m = (res, m')"
          by (simp add: qs(2))
        with Cons.IH [of m qs perm] Cons.prems(1,2) qs nd show ?thesis
          by (auto simp: is_dir_def)
      next
        case False
        with eq Some \<open>node_link m r\<close> Cons.prems(1) show ?thesis
          by (auto split: sum.splits option.splits if_splits)
      qed
    qed
  qed
qed simp

text \<open>On a creatable path the new entries are prefixes of the path, and success is a directory.\<close>

lemma mkdirAll_loop_creatable:
  assumes "fs_wf m" "valid_comps (ds @ cs)" "is_dir m ds"
    and "\<And>es r. prefix es (ds @ cs) \<Longrightarrow> at m es = Some r \<Longrightarrow> \<not> node_link m r"
    and "mkdirAll_loop now perm (render ds) (join_with slash cs) m = (res, m')"
  shows "(\<forall>es. valid_comps es \<longrightarrow> at m' es \<noteq> None \<longrightarrow> at m es \<noteq> None \<or> prefix es (ds @ cs)) \<and>
     (res = Inr () \<longrightarrow> is_dir m' (ds @ cs))"
  using assms
proof (induction cs arbitrary: ds m perm)
  case (Cons c cs)
  note eq = Cons.prems(5) [unfolded mkdirAll_loop_Cons [OF Cons.prems(2)]]
  show ?case
  proof (cases "at m (ds @ [c])")
    case None
    define ins where "ins = install (render (ds @ [c])) (blank_node (ModeDir OR mkdir_perm perm) now) m"
    then have ins: "install (render (ds @ [c])) (blank_node (ModeDir OR mkdir_perm perm) now) m =
        (fst ins, snd ins)" by simp
    have v: "valid_comps (ds @ [c])" using Cons.prems(2) by simp
    note i = install_extends [OF Cons.prems(1) v None Cons.prems(3) mkdir_node_ok ins]
    from eq None have loop: "mkdirAll_loop now (mkdir_perm perm) (render (ds @ [c]))
        (join_with slash cs) (snd ins) = (res, m')" by (simp add: ins_def)
    have nl: "\<not> node_link (snd ins) r" if "prefix es ((ds @ [c]) @ cs)" "at (snd ins) es = Some r" for es r
    proof -
      have ves: "valid_comps es" using that(1) valid_comps_prefix [OF Cons.prems(2), of es] by simp
      show ?thesis
      proof (cases "at m es")
        case None
        with i(2) ves that(2) have "is_dir (snd ins) es" unfolding extends_def by blast
        with that(2) wf_dir_not_link [OF i(1) ves that(2)] show ?thesis by (auto simp: is_dir_def)
      next
        case (Some x)
        with extendsD [OF i(2) ves Some] that Cons.prems(4) [of es x] show ?thesis by simp
      qed
    qed
    have v': "valid_comps ((ds @ [c]) @ cs)" using Cons.prems(2) by simp
    have pre: "prefix (ds @ [c]) (ds @ c # cs)" by (simp add: prefix_def)
    from Cons.IH [OF i(1) v' i(3) _ loop] nl
    have "(\<forall>es. valid_comps es \<longrightarrow> at m' es \<noteq> None \<longrightarrow> at (snd ins) es \<noteq> None \<or> prefix es (ds @ c # cs)) \<and>
        (res = Inr () \<longrightarrow> is_dir m' (ds @ c # cs))" by simp
    with i(4) pre show ?thesis by blast
  next
    case (Some r)
    have "\<not> node_link m r" using Cons.prems(4) [of "ds @ [c]" r] Some by simp
    with eq Some Cons.IH [of m "ds @ [c]" perm] Cons.prems show ?thesis
      by (auto simp: is_dir_def split: if_splits)
  qed
qed simp

text \<open>Creation succeeds wherever nothing but directories is in the way.\<close>

lemma mkdirAll_loop_ok:
  assumes "fs_wf m" "valid_comps (ds @ cs)" "is_dir m ds"
    and "\<And>es r. prefix es (ds @ cs) \<Longrightarrow> at m es = Some r \<Longrightarrow> node_dir m r"
  shows "\<exists>m'. mkdirAll_loop now perm (render ds) (join_with slash cs) m = (Inr (), m')"
  using assms
proof (induction cs arbitrary: ds m perm)
  case (Cons c cs)
  note eq = mkdirAll_loop_Cons [OF Cons.prems(2), of now perm m]
  have v: "valid_comps (ds @ [c])" and v': "valid_comps ((ds @ [c]) @ cs)" using Cons.prems(2) by auto
  show ?case
  proof (cases "at m (ds @ [c])")
    case None
    define ins where "ins = install (render (ds @ [c])) (blank_node (ModeDir OR mkdir_perm perm) now) m"
    then have ins: "install (render (ds @ [c])) (blank_node (ModeDir OR mkdir_perm perm) now) m =
        (fst ins, snd ins)" by simp
    note i = install_extends [OF Cons.prems(1) v None Cons.prems(3) mkdir_node_ok ins]
    have nd: "node_dir (snd ins) r" if "prefix es ((ds @ [c]) @ cs)" "at (snd ins) es = Some r" for es r
    proof -
      have ves: "valid_comps es" using that(1) valid_comps_prefix [OF Cons.prems(2), of es] by simp
      show ?thesis
      proof (cases "at m es")
        case None
        with i(2) ves that(2) show ?thesis unfolding extends_def is_dir_def by fastforce
      next
        case (Some x)
        with extendsD [OF i(2) ves Some] that Cons.prems(4) [of es x] show ?thesis by simp
      qed
    qed
    from Cons.IH [OF i(1) v' i(3), of "mkdir_perm perm"] nd None show ?thesis
      unfolding eq by (simp add: ins_def)
  next
    case (Some r)
    then have "node_dir m r" using Cons.prems(4) [of "ds @ [c]" r] by simp
    with wf_dir_not_link [OF Cons.prems(1) v Some] Some Cons.IH [OF Cons.prems(1) v', of perm] Cons.prems(4)
    show ?thesis unfolding eq by (auto simp: is_dir_def)
  qed
qed simp

end
