(* ===== verification/MemoryFS_Ops.thy ===== *)
theory MemoryFS_Ops
  imports MemoryFS_Resolve
begin

text \<open>
  Every operation of the in-memory file system keeps the tree invariant, on every
  branch: the new file system, directory creation, links, opening, metadata changes,
  named pipes, removal, renaming, the working directory, reads and writes through
  handles, seeding and cloning.
\<close>

section \<open>The parent of a new entry\<close>

definition nolink :: "MemoryFS \<Rightarrow> string list \<Rightarrow> bool" where
  "nolink m cs \<longleftrightarrow> (\<forall>es r. prefix es cs \<longrightarrow> at m es = Some r \<longrightarrow> \<not> node_link m r)"

lemma creatable_nolink: "fs_wf m \<Longrightarrow> valid_comps cs \<Longrightarrow> creatable m cs \<Longrightarrow> nolink m cs"
  unfolding nolink_def
proof (intro allI impI)
  fix es r
  assume wf: "fs_wf m" and v: "valid_comps cs" and cr: "creatable m cs" and p: "prefix es cs"
    and es: "at m es = Some r"
  show "\<not> node_link m r"
  proof (cases "es = cs")
    case False
    with p have "strict_prefix es cs" by (simp add: strict_prefix_def)
    with cr es have "node_dir m r" by (auto simp: creatable_def is_dir_def)
    with wf_dir_not_link [OF wf valid_comps_prefix [OF v p] es] show ?thesis by simp
  qed (use cr es in \<open>auto simp: creatable_def\<close>)
qed

lemma nolink_prefix: "nolink m (cs @ ds) \<Longrightarrow> nolink m cs"
  unfolding nolink_def by (meson prefixI prefix_order.order_trans)

lemma mkdirAllLocked_spec:
  assumes wf: "fs_wf m" and eq: "mkdirAllLocked now name perm m = (res, m')"
  shows "fs_wf m'" "extends m m'"
    and "nolink m (abs_comps name) \<Longrightarrow> res = Inr () \<Longrightarrow> is_dir m' (abs_comps name)"
    and "nolink m (abs_comps name) \<Longrightarrow> valid_comps es \<Longrightarrow> at m' es \<noteq> None \<Longrightarrow>
         at m es \<noteq> None \<or> prefix es (abs_comps name)"
proof -
  define cs where "cs = abs_comps name"
  have v: "valid_comps cs" and cl: "Clean name = render cs"
    by (simp_all add: cs_def Clean_eq)
  have "fs_wf m' \<and> extends m m' \<and> (nolink m cs \<longrightarrow> res = Inr () \<longrightarrow> is_dir m' cs) \<and>
     (nolink m cs \<longrightarrow> (\<forall>es. valid_comps es \<longrightarrow> at m' es \<noteq> None \<longrightarrow> at m es \<noteq> None \<or> prefix es cs))"
  proof (cases "cs = []")
    case True
    with eq cl wf wf_root [OF wf] show ?thesis
      by (auto simp: mkdirAllLocked_def Let_def)
  next
    case False
    with eq cl v have loop: "mkdirAll_loop now perm (render []) (join_with slash cs) m = (res, m')"
      by (simp add: mkdirAllLocked_def Let_def tl_render)
    with mkdirAll_loop_wf [OF wf, of "[]" cs now perm res m'] v wf_root [OF wf]
    have "fs_wf m'" "extends m m'" by simp_all
    moreover have "(\<forall>es. valid_comps es \<longrightarrow> at m' es \<noteq> None \<longrightarrow> at m es \<noteq> None \<or> prefix es cs) \<and>
        (res = Inr () \<longrightarrow> is_dir m' cs)" if "nolink m cs"
      using mkdirAll_loop_creatable [OF wf, of "[]" cs now perm res m'] v wf_root [OF wf] that loop
      by (simp add: nolink_def)
    ultimately show ?thesis by blast
  qed
  then show "fs_wf m'" "extends m m'"
    and "nolink m (abs_comps name) \<Longrightarrow> res = Inr () \<Longrightarrow> is_dir m' (abs_comps name)"
    and "nolink m (abs_comps name) \<Longrightarrow> valid_comps es \<Longrightarrow> at m' es \<noteq> None \<Longrightarrow>
         at m es \<noteq> None \<or> prefix es (abs_comps name)"
    by (simp_all add: cs_def)
qed

lemma ensureParentLocked_spec:
  assumes wf: "fs_wf m" and v: "valid_comps (cs @ [c])" and nl: "nolink m cs"
    and new: "at m (cs @ [c]) = None"
    and eq: "ensureParentLocked now op (render (cs @ [c])) m = (res, m')"
  shows "fs_wf m'" "extends m m'" "res = Inr () \<Longrightarrow> is_dir m' cs" "at m' (cs @ [c]) = None"
proof -
  have pd: "parentDir (render (cs @ [c])) = render cs" using v by (rule parentDir_render)
  have ac: "abs_comps (render cs) = cs" using v by simp
  have "fs_wf m' \<and> extends m m' \<and> (res = Inr () \<longrightarrow> is_dir m' cs) \<and> at m' (cs @ [c]) = None"
  proof (cases "fs_implicitParents m")
    case True
    with eq pd have mk: "mkdirAllLocked now (render cs) 0x1ED m = (res, m')"
      by (simp add: ensureParentLocked_def)
    note s = mkdirAllLocked_spec [OF wf mk, unfolded ac]
    from s(4) [OF nl v] new have "at m' (cs @ [c]) = None"
      by (cases "at m' (cs @ [c])") (auto simp: prefix_def)
    with s(1-3) nl show ?thesis by blast
  next
    case False
    with eq pd wf new show ?thesis
      by (auto simp: ensureParentLocked_def node_at_def is_dir_def at_def node_dir_def
          split: option.splits if_splits)
  qed
  then show "fs_wf m'" "extends m m'" "res = Inr () \<Longrightarrow> is_dir m' cs" "at m' (cs @ [c]) = None"
    by auto
qed

text \<open>Where the creating operations put a new entry.\<close>

lemma snoc_cases_new:
  assumes "fs_wf m" "valid_comps cs" "at m cs = None" "nolink m cs"
  obtains ds c where "cs = ds @ [c]" "nolink m ds" "valid_comps (ds @ [c])"
proof -
  from wf_root [OF assms(1)] assms(3) have "cs \<noteq> []" by (auto simp: is_dir_def)
  then obtain ds c where "cs = ds @ [c]" by (metis rev_exhaust)
  with assms nolink_prefix that show thesis by blast
qed

definition new_slot :: "MemoryFS \<Rightarrow> string \<Rightarrow> bool" where
  "new_slot m p \<longleftrightarrow> (\<exists>ds c. p = render (ds @ [c]) \<and> valid_comps (ds @ [c]) \<and> nolink m ds \<and>
     at m (ds @ [c]) = None)"

lemma new_slotE:
  assumes "new_slot m p"
  obtains ds c where "p = render (ds @ [c])" "valid_comps (ds @ [c])" "nolink m ds"
    "at m (ds @ [c]) = None"
  using assms by (auto simp: new_slot_def)

lemma new_slotI:
  assumes "fs_wf m" "valid_comps cs" "creatable m cs" "at m cs = None"
  shows "new_slot m (render cs)"
proof -
  from snoc_cases_new [OF assms(1,2,4) creatable_nolink [OF assms(1-3)]] obtain ds c where
    "cs = ds @ [c]" "nolink m ds" "valid_comps (ds @ [c])" by metis
  with assms show ?thesis by (auto simp: new_slot_def)
qed

lemma new_slot_resolved:
  assumes wf: "fs_wf m" and eq: "resolvePathLocked m name ff True = Inr (p, None)"
  shows "new_slot m p"
proof -
  from resolvePathLocked_result [OF wf eq] obtain cs where
    cs: "valid_comps cs" "p = render cs" "at m cs = None" "phys m cs" by metis
  with phys_creatable [OF cs(4)] new_slotI [OF wf cs(1)] show ?thesis by simp
qed

lemma new_slot_created:
  assumes wf: "fs_wf m" and eq: "resolveCreatePathLocked m name d = Inr p" and new: "ref_at m p = None"
  shows "new_slot m p"
proof -
  from resolveCreatePathLocked_result [OF wf eq] obtain cs where
    "valid_comps cs" "p = render cs" "creatable m cs" by blast
  with new_slotI [OF wf] new show ?thesis by (simp add: at_def)
qed

lemma new_slot_in_parent:
  assumes wf: "fs_wf m" and q: "clean_path q"
    and eq: "resolveCreatePathLocked m (parentDir q) d = Inr par"
    and new: "ref_at m (Resolve par (path_Base q)) = None"
  shows "new_slot m (Resolve par (path_Base q))"
proof -
  from q obtain qs where qs: "valid_comps qs" "q = render qs" by (rule clean_pathE)
  from resolveCreatePathLocked_result [OF wf eq] obtain ps where
    ps: "valid_comps ps" "par = render ps" "creatable m ps" by blast
  show ?thesis
  proof (cases qs rule: rev_cases)
    case Nil
    with qs have "Resolve par (path_Base q) = ''/''"
      by (simp add: path_Base_def Resolve_abs HasPrefix_def)
    with new wf_root [OF wf] show ?thesis by (auto simp: is_dir_def at_def)
  next
    case (snoc ds c)
    with qs have c: "valid_comp c" "path_Base q = c" by auto
    with ps have "Resolve par (path_Base q) = render (ps @ [c])" using Resolve_comp [of ps c] by simp
    with c ps new creatable_nolink [OF wf ps(1,3)] show ?thesis
      by (auto simp: at_def new_slot_def intro!: exI [of _ ps])
  qed
qed

section \<open>Creating entries\<close>

text \<open>
  The common tail of the creating operations: prepare the parent, then install a node
  that is not a directory.
\<close>

lemma create_tail:
  assumes wf: "fs_wf m" and v: "valid_comps (ds @ [c])" and nl: "nolink m ds"
    and new: "at m (ds @ [c]) = None"
    and ep: "ensureParentLocked now op (render (ds @ [c])) m = (Inr u, m1)"
    and n: "node_ok n" "n_children n = {}"
    and ins: "install (render (ds @ [c])) n m1 = (r, m2)"
  shows "fs_wf m2" "at m2 (ds @ [c]) = Some r" "\<exists>i. fs_heap m2 r = n\<lparr>n_id := i\<rparr>"
    "fs_cwd m2 = fs_cwd m"
proof -
  note e = ensureParentLocked_spec [OF wf v nl new ep]
  have d: "is_dir m1 ds" using e(3) by simp
  note i = install_wf [OF e(1) v missing_not_dir [OF e(4)] d n ins]
  show "fs_wf m2" by (rule i)
  show "at m2 (ds @ [c]) = Some r" using i(2) [OF v] by simp
  show "\<exists>i. fs_heap m2 r = n\<lparr>n_id := i\<rparr>" by (rule i)
  show "fs_cwd m2 = fs_cwd m" using i(5) e(2) by (simp add: extends_def)
qed

lemma symlink_node_ok:
  "node_ok ((blank_node (ModeSymlink OR 0x1FF) now)\<lparr>n_target := t\<rparr>)"
  "n_children ((blank_node (ModeSymlink OR 0x1FF) now)\<lparr>n_target := t\<rparr>) = {}"
  by (simp_all add: node_ok_def blank_node_def mode_IsDir_def or_and_distrib)

lemma mem_Symlink_wf:
  assumes wf: "fs_wf m" and eq: "mem_Symlink now t name m = (res, m')"
  shows "fs_wf m'"
proof -
  let ?n = "(blank_node (ModeSymlink OR 0x1FF) now)\<lparr>n_target := t\<rparr>"
  have tail: "fs_wf m'"
    if slot: "new_slot m p"
      and run: "(case ensureParentLocked now ''symlink'' p m of
          (Inl e, m1) \<Rightarrow> (Inl e, m1) | (Inr _, m1) \<Rightarrow> (Inr (), snd (install p ?n m1))) = (res, m')" for p
  proof -
    from slot obtain ds c where p: "p = render (ds @ [c])" and v: "valid_comps (ds @ [c])"
      and nl: "nolink m ds" and new: "at m (ds @ [c]) = None" by (rule new_slotE)
    obtain x m1 where ep: "ensureParentLocked now ''symlink'' (render (ds @ [c])) m = (x, m1)"
      by fastforce
    note e = ensureParentLocked_spec [OF wf v nl new ep]
    show ?thesis
    proof (cases x)
      case (Inl err)
      with run ep p e(1) show ?thesis by simp
    next
      case (Inr u)
      obtain r m2 where ins: "install (render (ds @ [c])) ?n m1 = (r, m2)" by fastforce
      from create_tail(1) [OF wf v nl new ep [unfolded Inr] symlink_node_ok ins] run ep p Inr ins
      show ?thesis by simp
    qed
  qed
  show ?thesis
  proof (cases "resolvePathLocked m name False True")
    case (Inl err)
    with eq wf show ?thesis
      by (auto simp: mem_Symlink_def Let_def split: if_splits sum.splits
          intro!: tail intro: new_slot_in_parent [OF wf Resolve_clean])
  next
    case (Inr pr)
    with eq wf show ?thesis
      by (cases pr) (auto simp: mem_Symlink_def Let_def split: if_splits option.splits
          intro!: tail intro: new_slot_resolved [OF wf])
  qed
qed

lemma mem_Link_wf:
  assumes wf: "fs_wf m" and eq: "mem_Link now oldName newName m = (res, m')"
  shows "fs_wf m'"
proof (cases "resolvePathLocked m oldName False False")
  case (Inl e)
  with eq wf show ?thesis by (simp add: mem_Link_def)
next
  case (Inr pr)
  obtain old ref where pr: "pr = (old, ref)" by fastforce
  from resolvePathLocked_result [OF wf Inr [unfolded pr]] obtain os where
    os: "valid_comps os" "ref = at m os" "ref \<noteq> None" by metis
  then obtain r where r: "ref = Some r" "at m os = Some r" by auto
  show ?thesis
  proof (cases "node_dir m r")
    case True
    with eq wf Inr pr r show ?thesis by (simp add: mem_Link_def node_dir_def)
  next
    case nd: False
    have tail: "fs_wf m'"
      if slot: "new_slot m p"
        and run: "(case ensureParentLocked now ''link'' p m of
          (Inl e, m1) \<Rightarrow> (Inl e, m1)
        | (Inr _, m1) \<Rightarrow> (Inr (), update_node r (\<lambda>n. n\<lparr>n_modTime := now\<rparr>)
            (add_child (parentDir p) (path_Base p) (set_ref p r m1)))) = (res, m')" for p
    proof -
      from slot obtain ds c where p: "p = render (ds @ [c])" and v: "valid_comps (ds @ [c])"
        and nl: "nolink m ds" and new: "at m (ds @ [c]) = None" by (rule new_slotE)
      obtain x m1 where ep: "ensureParentLocked now ''link'' (render (ds @ [c])) m = (x, m1)"
        by fastforce
      note e = ensureParentLocked_spec [OF wf v nl new ep]
      show ?thesis
      proof (cases x)
        case (Inl err)
        with run ep p e(1) show ?thesis by simp
      next
        case (Inr u)
        with e(3) obtain dr where dr: "at m1 ds = Some dr" "node_dir m1 dr" by (auto elim: is_dirE)
        note x = extendsD [OF e(2) os(1) r(2)]
        have nd1: "\<not> node_dir m1 r" using nd x by simp
        have "fs_wf (update_node dr (\<lambda>n. n\<lparr>n_children := insert c (n_children n)\<rparr>)
           (set_ref (render (ds @ [c])) r m1))"
          by (rule fs_wf_add_entry [OF e(1) v missing_not_dir [OF e(4)] dr])
            (use wf_ref [OF e(1) os(1) x(1)] wf_node [OF e(1) os(1) x(1)] nd1 in auto)
        moreover have "add_child (render ds) c (set_ref (render (ds @ [c])) r m1) =
            update_node dr (\<lambda>n. n\<lparr>n_children := insert c (n_children n)\<rparr>)
              (set_ref (render (ds @ [c])) r m1)"
          using dr v by (intro add_child_at) simp
        ultimately show ?thesis using run ep p v Inr
          by (auto intro!: fs_wf_update_node)
      qed
    qed
    show ?thesis
    proof (cases "resolvePathLocked m newName False True")
      case (Inl err)
      with eq wf Inr pr r nd show ?thesis
        by (auto simp: mem_Link_def Let_def node_dir_def split: if_splits sum.splits
            intro!: tail intro: new_slot_in_parent [OF wf Resolve_clean])
    next
      case (Inr qr)
      with eq wf \<open>resolvePathLocked m oldName False False = Inr pr\<close> pr r nd show ?thesis
        by (cases qr) (auto simp: mem_Link_def Let_def node_dir_def split: if_splits option.splits
            intro!: tail intro: new_slot_resolved [OF wf])
    qed
  qed
qed

lemma file_node_ok:
  "node_ok (blank_node (if perm AND storedPermBits = 0 then 0x1A4 else perm AND storedPermBits) now)"
  "n_children (blank_node (if perm AND storedPermBits = 0 then 0x1A4 else perm AND storedPermBits) now) = {}"
  by (simp_all add: node_ok_def blank_node_def mode_IsDir_def)

lemma materializeNode_wf:
  assumes "fs_wf m" "materializeNode r m = (res, m')"
  shows "fs_wf m'"
  using assms by (auto simp: materializeNode_def Let_def intro!: fs_wf_update_node
      split: if_splits option.splits sum.splits)

lemma materializePath_wf:
  assumes "fs_wf m" "materializePath name ff mo m = (res, m')"
  shows "fs_wf m'"
  using assms by (auto simp: materializePath_def split: sum.splits prod.splits option.splits if_splits
      intro: materializeNode_wf)

lemma open_preload_wf:
  assumes "fs_wf m" "open_preload name flag m = (res, m')"
  shows "fs_wf m'"
  using assms by (auto simp: open_preload_def split: sum.splits prod.splits if_splits
      intro: materializePath_wf)

lemma open_locate_new:
  assumes wf: "fs_wf m" and eq: "open_locate name flag m = Inr (p, None)"
  shows "new_slot m p"
proof (cases "flag AND O_CREATE = 0")
  case True
  with eq have "resolvePathLocked m name True False = Inr (p, None)"
    by (auto simp: open_locate_def Let_def split: sum.splits)
  from resolvePathLocked_result [OF wf this] show ?thesis by metis
next
  case False
  with eq show ?thesis
    by (auto simp: open_locate_def Let_def split: sum.splits prod.splits option.splits if_splits
        intro: new_slot_created [OF wf])
qed

lemma open_locate_existing:
  assumes wf: "fs_wf m" and eq: "open_locate name flag m = Inr (p, Some r)"
  obtains cs where "valid_comps cs" "p = render cs" "at m cs = Some r" "\<not> node_link m r"
proof (cases "flag AND O_CREATE = 0")
  case True
  with eq have "resolvePathLocked m name True False = Inr (p, Some r)"
    by (auto simp: open_locate_def Let_def split: sum.splits)
  from resolvePathLocked_result [OF wf this] that show ?thesis by metis
next
  case False
  with eq obtain d where "resolveCreatePathLocked m d 0 = Inr p" and r: "ref_at m p = Some r"
    by (auto simp: open_locate_def Let_def split: sum.splits prod.splits option.splits if_splits)
  from resolveCreatePathLocked_result [OF wf this(1)] obtain cs where
    "valid_comps cs" "p = render cs" "creatable m cs" by blast
  with r that show ?thesis by (auto simp: creatable_def at_def)
qed

lemma open_make_new:
  assumes wf: "fs_wf m" and slot: "new_slot m p"
    and eq: "open_make now flag perm p None m = (Inr r, m')"
  shows "fs_wf m'" "ref_at m' p = Some r" "n_data (fs_heap m' r) = []"
    "n_mode (fs_heap m' r) = (if perm AND storedPermBits = 0 then 0x1A4 else perm AND storedPermBits)"
    "n_lazy (fs_heap m' r) = None" "flag AND O_CREATE \<noteq> 0" "fs_cwd m' = fs_cwd m"
proof -
  let ?n = "blank_node (if perm AND storedPermBits = 0 then 0x1A4 else perm AND storedPermBits) now"
  from slot obtain ds c where p: "p = render (ds @ [c])" and v: "valid_comps (ds @ [c])"
    and nl: "nolink m ds" and new: "at m (ds @ [c]) = None" by (rule new_slotE)
  from eq p obtain u m1 where ep: "ensureParentLocked now ''open'' (render (ds @ [c])) m = (Inr u, m1)"
    and ins: "install (render (ds @ [c])) ?n m1 = (r, m')" and fl: "flag AND O_CREATE \<noteq> 0"
    by (auto simp: open_make_def split: if_splits prod.splits sum.splits)
  note t = create_tail [OF wf v nl new ep file_node_ok ins]
  show "fs_wf m'" by (rule t)
  show "ref_at m' p = Some r" using t(2) p by (simp add: at_def)
  from t(3) obtain i where i: "fs_heap m' r = ?n\<lparr>n_id := i\<rparr>" by blast
  show "n_data (fs_heap m' r) = []" "n_lazy (fs_heap m' r) = None"
    "n_mode (fs_heap m' r) = (if perm AND storedPermBits = 0 then 0x1A4 else perm AND storedPermBits)"
    by (simp_all only: i memoryNode.simps blank_node_def)
  show "flag AND O_CREATE \<noteq> 0" by (rule fl)
  show "fs_cwd m' = fs_cwd m" by (rule t)
qed

lemma open_make_error_wf:
  assumes wf: "fs_wf m" and slot: "ref = None \<Longrightarrow> new_slot m p"
    and eq: "open_make now flag perm p ref m = (Inl e, m')"
  shows "fs_wf m'"
proof (cases ref)
  case None
  from slot [OF None] obtain ds c where p: "p = render (ds @ [c])" and v: "valid_comps (ds @ [c])"
    and nl: "nolink m ds" and new: "at m (ds @ [c]) = None" by (rule new_slotE)
  from eq None wf p show ?thesis
    by (auto simp: open_make_def split: if_splits prod.splits sum.splits
        intro: ensureParentLocked_spec(1) [OF wf v nl new])
qed (use eq wf in \<open>auto simp: open_make_def split: if_splits\<close>)

lemma open_finish_wf:
  assumes "fs_wf m" "open_finish now flag p r m = (res, m')"
  shows "fs_wf m'"
  using assms by (auto simp: open_finish_def Let_def intro!: fs_wf_update_node
      split: if_splits option.splits prod.splits)

lemma mem_OpenFile_wf:
  assumes wf: "fs_wf m" and eq: "mem_OpenFile now name flag perm m = (res, m')"
  shows "fs_wf m'"
proof -
  obtain x m1 where pre: "open_preload name flag m = (x, m1)" by fastforce
  have wf1: "fs_wf m1" using open_preload_wf [OF wf pre] .
  show ?thesis
  proof (cases "open_locate name flag m1")
    case (Inl e)
    with eq pre wf1 show ?thesis by (auto simp: mem_OpenFile_def split: sum.splits)
  next
    case (Inr pr)
    obtain p ref where pr: "pr = (p, ref)" by fastforce
    obtain y m2 where mk: "open_make now flag perm p ref m1 = (y, m2)" by fastforce
    have slot: "ref = None \<Longrightarrow> new_slot m1 p"
      using open_locate_new [OF wf1] Inr pr by simp
    have wf2: "fs_wf m2"
    proof (cases y)
      case (Inl e)
      with open_make_error_wf [OF wf1 slot] mk show ?thesis by blast
    next
      case (Inr r)
      show ?thesis
      proof (cases ref)
        case None
        with open_make_new(1) [OF wf1 slot] mk Inr show ?thesis by blast
      qed (use mk wf1 Inr in \<open>auto simp: open_make_def split: if_splits\<close>)
    qed
    with eq pre Inr pr mk wf1 show ?thesis
      by (auto simp: mem_OpenFile_def split: sum.splits intro: open_finish_wf)
  qed
qed

section \<open>Metadata, pipes and the working directory\<close>

lemma on_node_wf:
  assumes "fs_wf m" "on_node op follow f name m = (res, m')"
    and "\<And>n. mode_IsDir (n_mode (f n)) = mode_IsDir (n_mode n)"
    and "\<And>n. (n_mode (f n) AND ModeSymlink = 0) = (n_mode n AND ModeSymlink = 0)"
    and "\<And>n. n_children (f n) = n_children n"
  shows "fs_wf m'"
  using assms by (auto simp: on_node_def split: sum.splits prod.splits option.splits
      intro!: fs_wf_update_node)

lemma chmod_bits:
  "(x AND NOT storedPermBits OR y AND storedPermBits) AND ModeDir = x AND ModeDir"
  "(x AND NOT storedPermBits OR y AND storedPermBits) AND ModeSymlink = x AND ModeSymlink"
proof -
  have "(NOT storedPermBits) AND ModeDir = ModeDir" "(NOT storedPermBits) AND ModeSymlink = ModeSymlink"
    "storedPermBits AND ModeDir = 0" "storedPermBits AND ModeSymlink = 0"
    by (simp_all add: storedPermBits_def mode_bits)
  then show
    "(x AND NOT storedPermBits OR y AND storedPermBits) AND ModeDir = x AND ModeDir"
    "(x AND NOT storedPermBits OR y AND storedPermBits) AND ModeSymlink = x AND ModeSymlink"
    by (simp_all add: or_and_distrib and.assoc)
qed

lemma mem_Chmod_wf: "fs_wf m \<Longrightarrow> mem_Chmod now name mode m = (res, m') \<Longrightarrow> fs_wf m'"
  unfolding mem_Chmod_def by (erule (1) on_node_wf) (simp_all add: mode_IsDir_def chmod_bits)

lemma mem_Chown_wf: "fs_wf m \<Longrightarrow> mem_Chown name uid gid follow m = (res, m') \<Longrightarrow> fs_wf m'"
  unfolding mem_Chown_def by (erule (1) on_node_wf) simp_all

lemma mem_Chtimes_wf: "fs_wf m \<Longrightarrow> mem_Chtimes now name ta tm m = (res, m') \<Longrightarrow> fs_wf m'"
  unfolding mem_Chtimes_def by (erule (1) on_node_wf) simp_all

lemma mem_Lchtimes_wf: "fs_wf m \<Longrightarrow> mem_Lchtimes now name ta tm m = (res, m') \<Longrightarrow> fs_wf m'"
  unfolding mem_Lchtimes_def by (erule (1) on_node_wf) simp_all

lemma mem_stat_op_wf: "fs_wf m \<Longrightarrow> mem_stat_op op follow name m = (res, m') \<Longrightarrow> fs_wf m'"
  by (auto simp: mem_stat_op_def split: prod.splits sum.splits option.splits intro: materializePath_wf)

lemma mem_Chdir_wf:
  assumes wf: "fs_wf m" and eq: "mem_Chdir name m = (res, m')"
  shows "fs_wf m'"
proof -
  have "fs_wf (m\<lparr>fs_cwd := p\<rparr>)" if "clean_path p" for p
  proof -
    have r: "ref_at (m\<lparr>fs_cwd := p\<rparr>) q = ref_at m q" "at (m\<lparr>fs_cwd := p\<rparr>) cs = at m cs"
      "is_dir (m\<lparr>fs_cwd := p\<rparr>) cs = is_dir m cs" "node_dir (m\<lparr>fs_cwd := p\<rparr>) x = node_dir m x" for q cs x
      by (simp_all add: ref_at_def at_def is_dir_def node_dir_def)
    show ?thesis using wf that unfolding fs_wf_def r by auto
  qed
  moreover have "clean_path p" if "resolvePathLocked m name True False = Inr (p, ref)" for p ref
    using resolvePathLocked_result [OF wf that] clean_path_render by metis
  ultimately show ?thesis
    using eq wf by (auto simp: mem_Chdir_def split: sum.splits prod.splits option.splits if_splits)
qed

lemma fifo_node_ok:
  "node_ok ((blank_node (ModeNamedPipe OR perm AND storedPermBits) now)\<lparr>n_fifo := q\<rparr>)"
  "n_children ((blank_node (ModeNamedPipe OR perm AND storedPermBits) now)\<lparr>n_fifo := q\<rparr>) = {}"
  by (simp_all add: node_ok_def blank_node_def mode_IsDir_def or_and_distrib)

lemma mem_Mkfifo_wf:
  assumes wf: "fs_wf m" and eq: "mem_Mkfifo now name perm m = (res, m')"
  shows "fs_wf m'"
proof (cases "\<exists>p pa pr. resolvePathLocked m name False True = Inr (p, None) \<and>
    resolveAbsLocked m (parentDir p) True False 0 = Inr (pa, Some pr) \<and> node_dir m pr")
  case False
  with eq wf show ?thesis
    by (auto simp: mem_Mkfifo_def Let_def node_dir_def split: sum.splits prod.splits option.splits if_splits)
next
  case True
  then obtain p pa pr where p: "resolvePathLocked m name False True = Inr (p, None)"
    and pa: "resolveAbsLocked m (parentDir p) True False 0 = Inr (pa, Some pr)"
    and nd: "node_dir m pr" by blast
  from resolvePathLocked_result [OF wf p] obtain cs where
    cs: "valid_comps cs" "p = render cs" "at m cs = None" "phys m cs" "cs \<noteq> []" by metis
  then obtain ds c where ds: "cs = ds @ [c]" by (metis rev_exhaust)
  with cs have v: "valid_comps (ds @ [c])" and d: "is_dir m ds" and ph: "phys m ds"
    by (auto simp: phys_snoc)
  then obtain dr where dr: "at m ds = Some dr" "node_dir m dr" by (auto elim: is_dirE)
  have "resolveAbsLocked m (render ds) True False 0 = Inr (render ds, at m ds)"
    by (rule resolveAbsLocked_ident [OF wf _ ph])
      (use v dr wf_dir_not_link [OF wf _ dr] in \<open>auto simp: maxSymlinkDepth_def\<close>)
  with pa cs(2) ds v dr have pr: "pr = dr" by simp
  define n where "n = (blank_node (ModeNamedPipe OR (if perm = 0 then 0x1B6 else perm) AND storedPermBits) now)
      \<lparr>n_fifo := Some newMemoryFIFO\<rparr>"
  obtain r m1 where al: "alloc_node n m = (r, m1)" by fastforce
  have at1: "at (set_ref (render (ds @ [c])) r m1) ds = Some dr"
    using dr(1) v alloc_node_fields(8) [OF al] by simp
  have "install (render (ds @ [c])) n m =
      (r, update_node dr (\<lambda>n. n\<lparr>n_children := insert c (n_children n)\<rparr>) (set_ref (render (ds @ [c])) r m1))"
    using al v add_child_at [OF at1] by (simp add: install_def)
  from install_wf(1) [OF wf v missing_not_dir d _ _ this] fifo_node_ok cs(3) ds
  have "fs_wf (update_node dr (\<lambda>n. n\<lparr>n_children := insert c (n_children n)\<rparr>) (set_ref (render (ds @ [c])) r m1))"
    by (simp add: n_def)
  moreover have "m' = update_node dr (\<lambda>n. n\<lparr>n_children := insert c (n_children n)\<rparr>) (set_ref (render (ds @ [c])) r m1)"
    using eq p pa nd al cs(2) ds v pr
    by (simp add: mem_Mkfifo_def Let_def node_dir_def n_def [symmetric])
  ultimately show ?thesis by simp
qed

section \<open>Handles\<close>

lemma mem_Read_wf: "fs_wf m \<Longrightarrow> mem_Read n f m = (res, f', m') \<Longrightarrow> fs_wf m'"
  by (auto simp: mem_Read_def Let_def split: if_splits prod.splits sum.splits intro: materializeNode_wf)

lemma mem_Write_wf: "fs_wf m \<Longrightarrow> mem_Write now p f m = (res, f', m') \<Longrightarrow> fs_wf m'"
  by (auto simp: mem_Write_def Let_def split: if_splits prod.splits sum.splits
      intro: materializeNode_wf intro!: fs_wf_update_node)

lemma mem_FileStat_wf: "fs_wf m \<Longrightarrow> mem_FileStat f m = (res, m') \<Longrightarrow> fs_wf m'"
  by (auto simp: mem_FileStat_def Let_def split: if_splits prod.splits sum.splits intro: materializeNode_wf)

end
