(* ===== verification/MemoryFS_Move.thy ===== *)
theory MemoryFS_Move
  imports MemoryFS_Ops
begin

text \<open>
  Removal and renaming of subtrees: what they do to every path, and that they keep the
  tree invariant; then seeding and cloning.
\<close>

section \<open>Removal\<close>

lemma in_subtree_iff:
  "valid_comps ps \<Longrightarrow> valid_comps qs \<Longrightarrow> ps \<noteq> [] \<Longrightarrow> in_subtree (render ps) (render qs) \<longleftrightarrow> prefix ps qs"
  using subtree_iff [of ps qs] by (simp add: in_subtree_def)

definition drop_subtree :: "string \<Rightarrow> MemoryFS \<Rightarrow> MemoryFS" where
  "drop_subtree p m = m\<lparr>fs_nodes := filter (\<lambda>kv. \<not> in_subtree p (fst kv)) (fs_nodes m)\<rparr>"

lemma drop_subtree_fields [simp]:
  "fs_heap (drop_subtree p m) = fs_heap m" "fs_nextRef (drop_subtree p m) = fs_nextRef m"
  "fs_cwd (drop_subtree p m) = fs_cwd m"
  "fs_implicitParents (drop_subtree p m) = fs_implicitParents m"
  "node_dir (drop_subtree p m) = node_dir m"
  by (simp_all add: drop_subtree_def node_dir_def fun_eq_iff)

lemma ref_at_drop_subtree:
  "ref_at (drop_subtree p m) q = (if in_subtree p q then None else ref_at m q)"
  using map_of_filter_key [of "\<lambda>k. \<not> in_subtree p k" "fs_nodes m" q]
  by (simp add: ref_at_def drop_subtree_def)

lemma at_drop_subtree [simp]:
  "valid_comps ps \<Longrightarrow> valid_comps qs \<Longrightarrow> ps \<noteq> [] \<Longrightarrow>
   at (drop_subtree (render ps) m) qs = (if prefix ps qs then None else at m qs)"
  by (simp add: at_def ref_at_drop_subtree in_subtree_iff)

lemma distinct_drop_subtree:
  "distinct (map fst (fs_nodes m)) \<Longrightarrow> distinct (map fst (fs_nodes (drop_subtree p m)))"
  by (simp add: drop_subtree_def distinct_filter_keys)

lemma del_child_at:
  assumes "at m cs = Some pr"
  shows "del_child (render cs) c m = update_node pr (\<lambda>n. n\<lparr>n_children := n_children n - {c}\<rparr>) m"
  using assms by (simp add: del_child_def at_def)

lemma remove_wf:
  assumes wf: "fs_wf m" and v: "valid_comps (ps @ [c])" and ex: "at m (ps @ [c]) = Some r"
    and m': "m' = del_child (render ps) c (drop_subtree (render (ps @ [c])) m)"
  shows "fs_wf m'"
    and "\<And>ds. valid_comps ds \<Longrightarrow> at m' ds = (if prefix (ps @ [c]) ds then None else at m ds)"
    and "\<And>ds x. valid_comps ds \<Longrightarrow> at m' ds = Some x \<Longrightarrow>
      fs_heap m' x = (if ds = ps then (fs_heap m x)\<lparr>n_children := n_children (fs_heap m x) - {c}\<rparr>
                      else fs_heap m x)"
    and "fs_cwd m' = fs_cwd m"
proof -
  let ?d = "drop_subtree (render (ps @ [c])) m"
  have vp: "valid_comps ps" and vc: "valid_comp c" using v by auto
  from wf_parent [OF wf v ex] obtain pr where pr: "at m ps = Some pr" "node_dir m pr" by (rule is_dirE)
  have np: "\<not> prefix (ps @ [c]) ps" by (simp add: prefix_def)
  have prd: "at ?d ps = Some pr" using pr v vp np by simp
  have m'_eq: "m' = update_node pr (\<lambda>n. n\<lparr>n_children := n_children n - {c}\<rparr>) ?d"
    unfolding m' by (rule del_child_at [OF prd])
  show at': "at m' ds = (if prefix (ps @ [c]) ds then None else at m ds)" if "valid_comps ds" for ds
    unfolding m'_eq using that v by simp
  have upr: "x = pr \<longleftrightarrow> ds = ps" if "valid_comps ds" "at m ds = Some x" for ds x
    using wf_unique [OF wf that(1) vp that(2)] pr that by auto
  have old: "at m ds = Some x \<and> \<not> prefix (ps @ [c]) ds" if "valid_comps ds" "at m' ds = Some x" for ds x
    using at' [OF that(1)] that(2) by (simp split: if_splits)
  show hp: "fs_heap m' x = (if ds = ps then (fs_heap m x)\<lparr>n_children := n_children (fs_heap m x) - {c}\<rparr>
      else fs_heap m x)" if "valid_comps ds" "at m' ds = Some x" for ds x
    using old [OF that] upr [OF that(1)] unfolding m'_eq by auto
  have nd: "node_dir m' x = node_dir m x" for x
    unfolding m'_eq by (simp add: node_dir_def)
  have ok: "node_ok (fs_heap m' x) = node_ok (fs_heap m x)" for x
    unfolding m'_eq by (simp add: node_ok_def)
  show cwd: "fs_cwd m' = fs_cwd m" unfolding m'_eq by simp
  show "fs_wf m'"
  proof (rule fs_wfI)
    show "distinct (map fst (fs_nodes m'))"
      unfolding m'_eq using distinct_drop_subtree [OF wf_distinct [OF wf]] by simp
    show "clean_path p" if "ref_at m' p = Some x" for p x
      using that wf_clean [OF wf] unfolding m'_eq by (auto simp: ref_at_drop_subtree split: if_splits)
    show "clean_path (fs_cwd m')" using wf_cwd [OF wf] cwd by simp
    show "is_dir m' []" using wf_root [OF wf] at' [of "[]"] by (auto simp: is_dir_def nd)
    show "is_dir m' cs" if "valid_comps (cs @ [e])" "at m' (cs @ [e]) = Some x" for cs e x
    proof -
      from old [OF that] have "at m (cs @ [e]) = Some x" "\<not> prefix (ps @ [c]) cs"
        by (auto simp: prefix_def)
      with wf_parent [OF wf that(1)] at' [of cs] that(1) show ?thesis by (auto simp: is_dir_def nd)
    qed
    show "x < fs_nextRef m' \<and> node_ok (fs_heap m' x)" if "valid_comps cs" "at m' cs = Some x" for cs x
      using old [OF that] wf_ref [OF wf that(1)] wf_node [OF wf that(1)] ok by (simp add: m'_eq)
    show "cs = ds" if "valid_comps cs" "valid_comps ds" "at m' cs = Some x" "at m' ds = Some x"
      "node_dir m' x" for cs ds x
      using old [OF that(1,3)] old [OF that(2,4)] wf_unique [OF wf that(1,2)] that(5) nd by simp
    show "n_children (fs_heap m' x) = {e. valid_comp e \<and> at m' (cs @ [e]) \<noteq> None}"
      if "valid_comps cs" "at m' cs = Some x" "node_dir m' x" for cs x
    proof -
      from old [OF that(1,2)] have o: "at m cs = Some x" "\<not> prefix (ps @ [c]) cs" by auto
      with that nd wf_children [OF wf that(1) o(1)] have
        ch: "n_children (fs_heap m x) = {e. valid_comp e \<and> at m (cs @ [e]) \<noteq> None}" by simp
      have "prefix (ps @ [c]) (cs @ [e]) \<longleftrightarrow> cs = ps \<and> e = c" for e
        using o(2) by auto
      with at' that(1) have "at m' (cs @ [e]) = (if cs = ps \<and> e = c then None else at m (cs @ [e]))"
        if "valid_comp e" for e using that by simp
      with hp [OF that(1,2)] ch show ?thesis by (auto split: if_splits)
    qed
  qed
qed

lemma mem_Remove_result:
  assumes wf: "fs_wf m" and eq: "mem_Remove name recursive m = (Inr (), m')"
  obtains p c r where "resolvePathLocked m name False False = Inr (render (p @ [c]), Some r)"
    "valid_comps (p @ [c])" "at m (p @ [c]) = Some r"
    "m' = del_child (render p) c (drop_subtree (render (p @ [c])) m)"
    "recursive \<or> \<not> node_dir m r \<or> n_children (fs_heap m r) = {}"
proof -
  from eq obtain q r where res: "resolvePathLocked m name False False = Inr (q, Some r)"
    and q: "q \<noteq> ''/''" and m': "m' = del_child (parentDir q) (path_Base q) (drop_subtree q m)"
    and rc: "recursive \<or> \<not> node_dir m r \<or> n_children (fs_heap m r) = {}"
    by (auto simp: mem_Remove_def drop_subtree_def node_dir_def
        split: sum.splits prod.splits option.splits if_splits)
  from resolvePathLocked_result [OF wf res] obtain cs where
    cs: "valid_comps cs" "q = render cs" "at m cs = Some r" by metis
  with q have "cs \<noteq> []" by auto
  then obtain p c where "cs = p @ [c]" by (metis rev_exhaust)
  with cs res m' rc that show thesis by simp
qed

lemma mem_Remove_error: "mem_Remove name recursive m = (Inl e, m') \<Longrightarrow> m' = m"
  by (auto simp: mem_Remove_def split: sum.splits prod.splits option.splits if_splits)

lemma mem_Remove_wf:
  assumes wf: "fs_wf m" and eq: "mem_Remove name recursive m = (res, m')"
  shows "fs_wf m'"
proof (cases res)
  case (Inl e)
  with eq wf mem_Remove_error show ?thesis by blast
next
  case (Inr u)
  with eq have "mem_Remove name recursive m = (Inr (), m')" by simp
  from mem_Remove_result [OF wf this] remove_wf(1) [OF wf] show ?thesis by metis
qed

section \<open>Rebuilding the children sets\<close>

lemma fold_clear:
  "let s' = fold (\<lambda>(p, r) s. if mode_IsDir (n_mode (fs_heap s r))
                 then update_node r (\<lambda>n. n\<lparr>n_children := {}\<rparr>) s else s) xs s
   in fs_nodes s' = fs_nodes s \<and> fs_cwd s' = fs_cwd s \<and> fs_nextRef s' = fs_nextRef s \<and>
      fs_implicitParents s' = fs_implicitParents s \<and>
      (\<forall>r. fs_heap s' r = (if r \<in> snd ` set xs \<and> node_dir s r
              then (fs_heap s r)\<lparr>n_children := {}\<rparr> else fs_heap s r))"
proof (induction xs arbitrary: s)
  case (Cons x xs)
  obtain p r where x: "x = (p, r)" by fastforce
  show ?case
    using Cons [of "update_node r (\<lambda>n. n\<lparr>n_children := {}\<rparr>) s"] Cons [of s] x
    by (auto simp: Let_def node_dir_def)
qed simp

definition enter_child :: "string \<times> nat \<Rightarrow> MemoryFS \<Rightarrow> MemoryFS" where
  "enter_child pr s = (if fst pr = ''/'' then s
     else (case node_at s (parentDir (fst pr)) of
             None \<Rightarrow> s
           | Some node \<Rightarrow>
               if mode_IsDir (n_mode node) then add_child (parentDir (fst pr)) (path_Base (fst pr)) s
               else s))"

definition entered :: "MemoryFS \<Rightarrow> (string \<times> nat) list \<Rightarrow> nat \<Rightarrow> string set" where
  "entered s xs r = {path_Base p |p x. (p, x) \<in> set xs \<and> p \<noteq> ''/'' \<and> ref_at s (parentDir p) = Some r \<and> node_dir s r}"

lemma enter_child_fields [simp]:
  "fs_nodes (enter_child x s) = fs_nodes s" "fs_cwd (enter_child x s) = fs_cwd s"
  "fs_nextRef (enter_child x s) = fs_nextRef s"
  "fs_implicitParents (enter_child x s) = fs_implicitParents s"
  "node_dir (enter_child x s) r = node_dir s r" "ref_at (enter_child x s) q = ref_at s q"
  by (auto simp: enter_child_def add_child_def node_dir_def split: option.split)

lemma enter_child_heap:
  "fs_heap (enter_child x s) r =
   (fs_heap s r)\<lparr>n_children := n_children (fs_heap s r) \<union> entered s [x] r\<rparr>"
  by (cases x) (auto simp: enter_child_def entered_def add_child_def node_at_def node_dir_def
      split: option.split)

lemma fold_enter:
  "let s' = fold enter_child xs s
   in fs_nodes s' = fs_nodes s \<and> fs_cwd s' = fs_cwd s \<and> fs_nextRef s' = fs_nextRef s \<and>
      fs_implicitParents s' = fs_implicitParents s \<and>
      (\<forall>r. fs_heap s' r = (fs_heap s r)\<lparr>n_children := n_children (fs_heap s r) \<union> entered s xs r\<rparr>)"
proof (induction xs arbitrary: s)
  case (Cons x xs)
  have "entered (enter_child x s) xs r = entered s xs r" for r
    by (simp add: entered_def)
  moreover have "entered s (x # xs) r = entered s [x] r \<union> entered s xs r" for r
    by (auto simp: entered_def)
  ultimately show ?case using Cons [of "enter_child x s"]
    by (simp add: Let_def enter_child_heap Un_assoc)
qed (simp add: entered_def)

lemma rebuild_eq:
  shows "fs_nodes (rebuildDirectoryChildrenLocked m) = fs_nodes m"
    and "fs_cwd (rebuildDirectoryChildrenLocked m) = fs_cwd m"
    and "fs_nextRef (rebuildDirectoryChildrenLocked m) = fs_nextRef m"
    and "fs_implicitParents (rebuildDirectoryChildrenLocked m) = fs_implicitParents m"
    and "fs_heap (rebuildDirectoryChildrenLocked m) r =
      (fs_heap m r)\<lparr>n_children := (if r \<in> snd ` set (fs_nodes m) \<and> node_dir m r then {}
                                else n_children (fs_heap m r)) \<union> entered m (fs_nodes m) r\<rparr>"
proof -
  define m1 where "m1 = fold (\<lambda>(p, r) s. if mode_IsDir (n_mode (fs_heap s r))
     then update_node r (\<lambda>n. n\<lparr>n_children := {}\<rparr>) s else s) (fs_nodes m) m"
  have c: "fs_nodes m1 = fs_nodes m" "fs_cwd m1 = fs_cwd m" "fs_nextRef m1 = fs_nextRef m"
    "fs_implicitParents m1 = fs_implicitParents m"
    "\<And>r. fs_heap m1 r = (if r \<in> snd ` set (fs_nodes m) \<and> node_dir m r
        then (fs_heap m r)\<lparr>n_children := {}\<rparr> else fs_heap m r)"
    using fold_clear [of "fs_nodes m" m] by (auto simp: Let_def m1_def)
  have nd: "node_dir m1 r = node_dir m r" for r by (simp add: node_dir_def c(5))
  have e: "entered m1 xs r = entered m xs r" for xs r
    by (simp add: entered_def nd ref_at_def c(1))
  have f: "(\<lambda>(p, r) s. if p = ''/'' then s
           else (case node_at s (parentDir p) of
                   None \<Rightarrow> s
                 | Some node \<Rightarrow>
                     if mode_IsDir (n_mode node) then add_child (parentDir p) (path_Base p) s
                     else s)) = enter_child"
    by (auto simp: fun_eq_iff enter_child_def split: option.split)
  have "rebuildDirectoryChildrenLocked m = fold enter_child (fs_nodes m1) m1"
    by (simp only: rebuildDirectoryChildrenLocked_def Let_def f m1_def)
  with fold_enter [of "fs_nodes m1" m1] c e
  show "fs_nodes (rebuildDirectoryChildrenLocked m) = fs_nodes m"
    "fs_cwd (rebuildDirectoryChildrenLocked m) = fs_cwd m"
    "fs_nextRef (rebuildDirectoryChildrenLocked m) = fs_nextRef m"
    "fs_implicitParents (rebuildDirectoryChildrenLocked m) = fs_implicitParents m"
    "fs_heap (rebuildDirectoryChildrenLocked m) r =
      (fs_heap m r)\<lparr>n_children := (if r \<in> snd ` set (fs_nodes m) \<and> node_dir m r then {}
                                else n_children (fs_heap m r)) \<union> entered m (fs_nodes m) r\<rparr>"
    by (auto simp: Let_def)
qed

text \<open>
  Rebuilding establishes the condition on children sets, so that the other conditions
  of the invariant are enough.
\<close>

lemma rebuild_wf:
  assumes dist: "distinct (map fst (fs_nodes m))"
    and clean: "\<And>p r. ref_at m p = Some r \<Longrightarrow> clean_path p"
    and cwd: "clean_path (fs_cwd m)" and root: "is_dir m []"
    and parent: "\<And>cs c r. valid_comps (cs @ [c]) \<Longrightarrow> at m (cs @ [c]) = Some r \<Longrightarrow> is_dir m cs"
    and refs: "\<And>cs r. valid_comps cs \<Longrightarrow> at m cs = Some r \<Longrightarrow> r < fs_nextRef m \<and> node_ok (fs_heap m r)"
    and unique: "\<And>cs ds r. valid_comps cs \<Longrightarrow> valid_comps ds \<Longrightarrow> at m cs = Some r \<Longrightarrow>
      at m ds = Some r \<Longrightarrow> node_dir m r \<Longrightarrow> cs = ds"
  shows "fs_wf (rebuildDirectoryChildrenLocked m)" (is "fs_wf ?m")
proof -
  have at': "ref_at ?m p = ref_at m p" "at ?m cs = at m cs" for p cs
    by (simp_all add: ref_at_def at_def rebuild_eq(1))
  have nd: "node_dir ?m r = node_dir m r" for r by (simp add: node_dir_def rebuild_eq(5))
  have id: "is_dir ?m cs = is_dir m cs" for cs by (simp add: is_dir_def at' nd)
  have ok: "node_ok (fs_heap ?m r) = node_ok (fs_heap m r)" for r by (simp add: node_ok_def rebuild_eq(5))
  show ?thesis
  proof (rule fs_wfI)
    show "n_children (fs_heap ?m x) = {c. valid_comp c \<and> at ?m (cs @ [c]) \<noteq> None}"
      if v: "valid_comps cs" and a: "at ?m cs = Some x" and d: "node_dir ?m x" for cs x
    proof -
      have a: "at m cs = Some x" and d: "node_dir m x" using a d at' nd by simp_all
      have "x \<in> snd ` set (fs_nodes m)"
        using a map_of_SomeD [of "fs_nodes m" "render cs" x] by (force simp: at_def ref_at_def)
      with d have ch: "n_children (fs_heap ?m x) = entered m (fs_nodes m) x"
        by (simp add: rebuild_eq(5))
      have key: "(\<exists>y. (p, y) \<in> set (fs_nodes m)) \<longleftrightarrow> ref_at m p \<noteq> None" for p
        using dist by (auto simp: ref_at_def dest: map_of_SomeD)
      have "e \<in> entered m (fs_nodes m) x \<longleftrightarrow> valid_comp e \<and> at m (cs @ [e]) \<noteq> None" for e
      proof
        assume "e \<in> entered m (fs_nodes m) x"
        then obtain p where p: "e = path_Base p" "ref_at m p \<noteq> None" "p \<noteq> ''/''"
          "ref_at m (parentDir p) = Some x" using key by (auto simp: entered_def)
        then obtain ps where ps: "valid_comps ps" "p = render ps"
          using clean by (auto elim!: clean_pathE)
        with p(3) obtain qs f where qs: "ps = qs @ [f]" by (metis rev_exhaust render_Nil)
        with ps p have "e = f" "at m qs = Some x" by (auto simp: at_def)
        with unique [OF _ v _ a d, of qs] ps qs p show "valid_comp e \<and> at m (cs @ [e]) \<noteq> None"
          by (auto simp: at_def)
      next
        assume e: "valid_comp e \<and> at m (cs @ [e]) \<noteq> None"
        with v have v': "valid_comps (cs @ [e])" by simp
        from e key [of "render (cs @ [e])"] obtain y where "(render (cs @ [e]), y) \<in> set (fs_nodes m)"
          by (auto simp: at_def)
        then have "path_Base (render (cs @ [e])) \<in> entered m (fs_nodes m) x"
          unfolding entered_def using v' a d parentDir_render [OF v']
          by (auto simp: at_def intro!: exI [of _ "render (cs @ [e])"])
        with v' show "e \<in> entered m (fs_nodes m) x" by simp
      qed
      with ch show ?thesis by (auto simp: at')
    qed
  qed (use assms in \<open>auto simp: rebuild_eq(1-4) at' nd id ok\<close>)
qed

section \<open>Renaming\<close>

lemma replace_first_render:
  assumes "valid_comps os" "os \<noteq> []" "ns \<noteq> []"
  shows "replace_first (render os) (render ns) (render (os @ es)) = render (ns @ es)"
proof -
  have "render (cs @ es) = render cs @ (if es = [] then [] else slash # join_with slash es)"
    if "cs \<noteq> []" for cs using that by (cases "es = []") (simp_all add: render_def join_with_append)
  with assms show ?thesis by (auto simp: render_def)
qed

lemma fold_set_ref:
  "let s' = fold (\<lambda>(p, r) s. set_ref (f p) r s) xs s
   in fs_heap s' = fs_heap s \<and> fs_cwd s' = fs_cwd s \<and> fs_nextRef s' = fs_nextRef s \<and>
      fs_implicitParents s' = fs_implicitParents s \<and>
      (distinct (map fst (fs_nodes s)) \<longrightarrow> distinct (map fst (fs_nodes s'))) \<and>
      (\<forall>q. ref_at s' q = (case map_of (rev (map (\<lambda>(p, r). (f p, r)) xs)) q of
              Some r \<Rightarrow> Some r | None \<Rightarrow> ref_at s q))"
proof (induction xs rule: rev_induct)
  case (snoc x xs)
  obtain p r where x: "x = (p, r)" by fastforce
  from snoc show ?case
    by (simp add: x Let_def ref_at_set_ref)
      (simp add: set_ref_def distinct_update)
qed (simp add: Let_def)

lemma child_ops_content:
  "\<exists>X. fs_heap (del_child p c m) r = (fs_heap m r)\<lparr>n_children := X\<rparr>"
  "\<exists>X. fs_heap (add_child p c m) r = (fs_heap m r)\<lparr>n_children := X\<rparr>"
proof -
  have "\<exists>X. n = n\<lparr>n_children := X\<rparr>" for n :: memoryNode
    by (rule exI [of _ "n_children n"]) simp
  then show "\<exists>X. fs_heap (del_child p c m) r = (fs_heap m r)\<lparr>n_children := X\<rparr>"
    "\<exists>X. fs_heap (add_child p c m) r = (fs_heap m r)\<lparr>n_children := X\<rparr>"
    by (auto simp: del_child_def add_child_def split: option.split)
qed

lemma child_ops_fields [simp]:
  "fs_nodes (del_child p c m) = fs_nodes m" "fs_nodes (add_child p c m) = fs_nodes m"
  "fs_cwd (del_child p c m) = fs_cwd m" "fs_cwd (add_child p c m) = fs_cwd m"
  "fs_nextRef (del_child p c m) = fs_nextRef m" "fs_nextRef (add_child p c m) = fs_nextRef m"
  by (auto simp: del_child_def add_child_def split: option.split)

text \<open>The renaming of the keys, once the parent of the new name exists.\<close>

definition move_subtree :: "string \<Rightarrow> string \<Rightarrow> MemoryFS \<Rightarrow> MemoryFS" where
  "move_subtree old new m =
     add_child (parentDir new) (path_Base new)
       (fold (\<lambda>(p, r) s. set_ref (replace_first old new p) r s)
          (filter (\<lambda>kv. in_subtree old (fst kv)) (fs_nodes m))
          (drop_subtree old (del_child (parentDir old) (path_Base old) m)))"

lemma moved_keys:
  assumes wf: "fs_wf m" and vo: "valid_comps os" "os \<noteq> []" and vn: "valid_comps ns" "ns \<noteq> []"
  shows "map_of (rev (map (\<lambda>(p, r). (replace_first (render os) (render ns) p, r))
     (filter (\<lambda>kv. in_subtree (render os) (fst kv)) (fs_nodes m)))) q =
     (if \<exists>es r. valid_comps es \<and> q = render (ns @ es) \<and> at m (os @ es) = Some r
      then at m (os @ drop (length ns) (abs_comps q)) else None)"
proof -
  let ?g = "\<lambda>(p, r). (replace_first (render os) (render ns) p, r :: nat)"
  let ?mv = "filter (\<lambda>kv. in_subtree (render os) (fst kv)) (fs_nodes m)"
  have mem: "(p, r) \<in> set ?mv \<longleftrightarrow> (\<exists>es. valid_comps es \<and> p = render (os @ es) \<and> at m (os @ es) = Some r)"
    for p r
  proof
    assume "(p, r) \<in> set ?mv"
    then have r: "ref_at m p = Some r" and s: "in_subtree (render os) p"
      using wf_distinct [OF wf] by (auto simp: ref_at_def)
    from wf_clean [OF wf r] obtain cs where cs: "valid_comps cs" "p = render cs" by (rule clean_pathE)
    with s in_subtree_iff vo obtain es where "cs = os @ es" by (auto simp: prefix_def)
    with cs r show "\<exists>es. valid_comps es \<and> p = render (os @ es) \<and> at m (os @ es) = Some r"
      by (auto simp: at_def)
  next
    assume "\<exists>es. valid_comps es \<and> p = render (os @ es) \<and> at m (os @ es) = Some r"
    then obtain es where "valid_comps es" "p = render (os @ es)" "at m (os @ es) = Some r" by blast
    with in_subtree_iff [of os "os @ es"] vo show "(p, r) \<in> set ?mv"
      by (auto simp: at_def ref_at_def dest: map_of_SomeD)
  qed
  have rf: "replace_first (render os) (render ns) (render (os @ es)) = render (ns @ es)" for es
    using vo vn by (intro replace_first_render)
  have gmem: "(q, r) \<in> set (map ?g ?mv) \<longleftrightarrow>
      (\<exists>es. valid_comps es \<and> q = render (ns @ es) \<and> at m (os @ es) = Some r)" for q r
  proof
    assume "(q, r) \<in> set (map ?g ?mv)"
    then obtain p where "(p, r) \<in> set ?mv" "q = replace_first (render os) (render ns) p"
      by (auto simp del: set_filter)
    with mem rf show "\<exists>es. valid_comps es \<and> q = render (ns @ es) \<and> at m (os @ es) = Some r" by metis
  next
    assume "\<exists>es. valid_comps es \<and> q = render (ns @ es) \<and> at m (os @ es) = Some r"
    then obtain es where es: "valid_comps es" "q = render (ns @ es)" "at m (os @ es) = Some r" by blast
    with mem have "(render (os @ es), r) \<in> set ?mv" by blast
    then have "?g (render (os @ es), r) \<in> set (map ?g ?mv)" unfolding set_map by (rule imageI)
    with rf es show "(q, r) \<in> set (map ?g ?mv)" by simp
  qed
  have func: "r = s" if "(q, r) \<in> set (map ?g ?mv)" "(q, s) \<in> set (map ?g ?mv)" for q r s
    using that vn unfolding gmem by (auto simp: render_inj)
  show ?thesis
  proof (cases "map_of (rev (map ?g ?mv)) q")
    case None
    then have "(q, r) \<notin> set (map ?g ?mv)" for r
      by (metis map_of_eq_None_iff set_rev fst_conv image_eqI)
    with gmem None show ?thesis by (auto simp del: set_map)
  next
    case (Some r)
    then have "(q, r) \<in> set (map ?g ?mv)" using map_of_SomeD set_rev by metis
    with gmem obtain es where es: "valid_comps es" "q = render (ns @ es)" "at m (os @ es) = Some r"
      by blast
    with Some vn show ?thesis by auto
  qed
qed

lemma move_subtree_at:
  assumes wf: "fs_wf m" and vo: "valid_comps os" "os \<noteq> []" and vn: "valid_comps ns" "ns \<noteq> []"
    and new: "at m ns = None"
  defines "m' \<equiv> move_subtree (render os) (render ns) m"
  shows "\<And>qs. valid_comps qs \<Longrightarrow> at m' qs =
      (if prefix ns qs then at m (os @ drop (length ns) qs)
       else if prefix os qs then None else at m qs)"
    and "\<And>q r. ref_at m' q = Some r \<Longrightarrow> clean_path q"
    and "distinct (map fst (fs_nodes m'))" "fs_cwd m' = fs_cwd m" "fs_nextRef m' = fs_nextRef m"
    and "\<And>r. \<exists>X. fs_heap m' r = (fs_heap m r)\<lparr>n_children := X\<rparr>"
proof -
  define d where "d = drop_subtree (render os) (del_child (parentDir (render os)) (path_Base (render os)) m)"
  define mv where "mv = filter (\<lambda>kv. in_subtree (render os) (fst kv)) (fs_nodes m)"
  define f where "f = fold (\<lambda>(p, r) s. set_ref (replace_first (render os) (render ns) p) r s) mv d"
  have m': "m' = add_child (parentDir (render ns)) (path_Base (render ns)) f"
    by (simp add: m'_def move_subtree_def f_def d_def mv_def)
  note F = fold_set_ref [of "replace_first (render os) (render ns)" mv d, folded f_def, unfolded Let_def]
  have rd: "ref_at d q = (if in_subtree (render os) q then None else ref_at m q)" for q
    by (simp add: d_def ref_at_drop_subtree) (simp add: ref_at_def)
  have rm': "ref_at m' q = (case map_of (rev (map (\<lambda>(p, r). (replace_first (render os) (render ns) p, r)) mv)) q of
      Some r \<Rightarrow> Some r | None \<Rightarrow> if in_subtree (render os) q then None else ref_at m q)" for q
  proof -
    have "ref_at m' q = ref_at f q" by (simp add: m' ref_at_def)
    with F rd show ?thesis by (auto split: option.split)
  qed
  note keys = moved_keys [OF wf vo vn, folded mv_def]
  show "at m' qs = (if prefix ns qs then at m (os @ drop (length ns) qs)
       else if prefix os qs then None else at m qs)" if q: "valid_comps qs" for qs
  proof (cases "prefix ns qs")
    case True
    then obtain es where es: "qs = ns @ es" by (auto simp: prefix_def)
    with q have ve: "valid_comps es" by simp
    have none: "at m qs = None" using wf_missing_below [OF wf _ new] q es by simp
    have ex: "(\<exists>es' r. valid_comps es' \<and> render qs = render (ns @ es') \<and> at m (os @ es') = Some r) \<longleftrightarrow>
        at m (os @ es) \<noteq> None"
      using es ve vn by (auto simp: render_inj)
    show ?thesis
      unfolding at_def rm' keys ex
      using True es q none by (auto simp: at_def [symmetric] split: option.split)
  next
    case False
    then have "\<not> (\<exists>es' r. valid_comps es' \<and> render qs = render (ns @ es') \<and> at m (os @ es') = Some r)"
      using q vn by (auto simp: render_inj)
    then have "ref_at m' (render qs) = (if in_subtree (render os) (render qs) then None else ref_at m (render qs))"
      unfolding rm' keys by (simp only: if_False option.case)
    with False in_subtree_iff [OF vo(1) q vo(2)] show ?thesis by (simp add: at_def)
  qed
  show "clean_path q" if "ref_at m' q = Some r" for q r
    using that wf_clean [OF wf] vn unfolding rm' keys
    by (fastforce split: if_splits option.splits)
  show "distinct (map fst (fs_nodes m'))" using F distinct_drop_subtree wf_distinct [OF wf]
    by (simp add: m' d_def)
  show "fs_cwd m' = fs_cwd m" "fs_nextRef m' = fs_nextRef m" using F by (simp_all add: m' d_def)
  show "\<exists>X. fs_heap m' r = (fs_heap m r)\<lparr>n_children := X\<rparr>" for r
  proof -
    obtain Y where "fs_heap m' r = (fs_heap f r)\<lparr>n_children := Y\<rparr>" using child_ops_content(2) m' by blast
    moreover obtain Z where "fs_heap d r = (fs_heap m r)\<lparr>n_children := Z\<rparr>"
      unfolding d_def drop_subtree_fields using child_ops_content(1) by blast
    ultimately show ?thesis using F by auto
  qed
qed

lemma move_rebuild_wf:
  assumes wf: "fs_wf m" and vo: "valid_comps os" "os \<noteq> []"
    and vn: "valid_comps (ds @ [c])" and new: "at m (ds @ [c]) = None" and d: "is_dir m ds"
    and np: "\<not> prefix os (ds @ [c])" and old: "at m os = Some ro"
  shows "fs_wf (rebuildDirectoryChildrenLocked (move_subtree (render os) (render (ds @ [c])) m))"
proof -
  let ?ns = "ds @ [c]"
  let ?m = "move_subtree (render os) (render ?ns) m"
  note M = move_subtree_at [OF wf vo vn _ new]
  have at': "at ?m qs = (if prefix ?ns qs then at m (os @ drop (length ?ns) qs)
      else if prefix os qs then None else at m qs)" if "valid_comps qs" for qs
    using M(1) that by simp
  have nd: "node_dir ?m r = node_dir m r" for r
    using M(6) [of r] by (auto simp: node_dir_def)
  have ok: "node_ok (fs_heap ?m r) = node_ok (fs_heap m r)" for r
    using M(6) [of r] by (auto simp: node_ok_def)
  have src: "\<exists>es. valid_comps es \<and> at m es = Some r \<and>
      (prefix ?ns qs \<and> es = os @ drop (length ?ns) qs \<or> \<not> prefix ?ns qs \<and> \<not> prefix os qs \<and> es = qs)"
    if "valid_comps qs" "at ?m qs = Some r" for qs r
    using at' [OF that(1)] that vo
    by (cases "prefix ?ns qs")
      (auto simp: list_all_iff dest: in_set_dropD split: if_splits)
  have dir_os: "is_dir ?m cs" if "valid_comps cs" "\<not> prefix ?ns cs" "\<not> prefix os cs" "is_dir m cs" for cs
    using that at' [OF that(1)] by (auto simp: is_dir_def nd)
  show ?thesis
  proof (rule rebuild_wf)
    show "distinct (map fst (fs_nodes ?m))" using M(3) by simp
    show "clean_path p" if "ref_at ?m p = Some r" for p r using M(2) that by simp
    show "clean_path (fs_cwd ?m)" using M(4) wf_cwd [OF wf] by simp
    show "is_dir ?m []" using dir_os [of "[]"] wf_root [OF wf] vo by simp
    show "r < fs_nextRef ?m \<and> node_ok (fs_heap ?m r)" if "valid_comps cs" "at ?m cs = Some r" for cs r
      using src [OF that] wf_ref [OF wf] wf_node [OF wf] M(5) ok by auto
    show "cs = es" if "valid_comps cs" "valid_comps es" "at ?m cs = Some r" "at ?m es = Some r"
      "node_dir ?m r" for cs es r
    proof -
      from src [OF that(1,3)] obtain cs' where cs': "valid_comps cs'" "at m cs' = Some r"
        "prefix ?ns cs \<and> cs' = os @ drop (length ?ns) cs \<or> \<not> prefix ?ns cs \<and> \<not> prefix os cs \<and> cs' = cs"
        by blast
      from src [OF that(2,4)] obtain es' where es': "valid_comps es'" "at m es' = Some r"
        "prefix ?ns es \<and> es' = os @ drop (length ?ns) es \<or> \<not> prefix ?ns es \<and> \<not> prefix os es \<and> es' = es"
        by blast
      have "cs' = es'" using wf_unique [OF wf cs'(1) es'(1) cs'(2) es'(2)] that(5) nd by simp
      with cs'(3) es'(3) show ?thesis by (auto simp: prefix_def)
    qed
    show "is_dir ?m cs" if "valid_comps (cs @ [e])" "at ?m (cs @ [e]) = Some r" for cs e r
    proof -
      have vcs: "valid_comps cs" using that(1) by simp
      note a = at' [OF that(1), unfolded that(2)]
      have pre: "prefix ?ns (cs @ [e]) \<longleftrightarrow> cs @ [e] = ?ns \<or> (\<exists>zs. cs = ?ns @ zs)"
        by (simp only: prefix_snoc) (auto simp: prefix_def)
      consider (new) "cs @ [e] = ?ns" | (inside) zs where "cs = ?ns @ zs"
        "at m (os @ zs @ [e]) = Some r" | (other) "\<not> prefix ?ns (cs @ [e])" "\<not> prefix os (cs @ [e])"
          "at m (cs @ [e]) = Some r"
        using a pre by (auto split: if_splits)
      then show ?thesis
      proof cases
        case new
        then have "\<not> prefix ?ns cs" "\<not> prefix os cs" using np by (auto simp: prefix_def)
        with dir_os [OF vcs] d new show ?thesis by simp
      next
        case inside
        have "is_dir m (os @ zs)"
          using wf_parent [OF wf, of "os @ zs" e r] inside vo that(1) by simp
        with at' [OF vcs] inside(1) show ?thesis by (auto simp: is_dir_def nd)
      next
        case other
        then have "\<not> prefix ?ns cs" "\<not> prefix os cs" by (auto simp: prefix_def)
        with dir_os [OF vcs] wf_parent [OF wf that(1) other(3)] show ?thesis by simp
      qed
    qed
  qed
qed

lemma rename_locate_new:
  assumes wf: "fs_wf m" and eq: "rename_locate name m = Inr (p, None)"
  shows "new_slot m p"
proof (cases "resolvePathLocked m name False True")
  case (Inl e)
  with eq have c: "resolveCreatePathLocked m (Resolve (fs_cwd m) name) 0 = Inr p"
    and e: "errors_Is e ErrNotExist"
    by (auto simp: rename_locate_def split: sum.splits if_splits)
  from resolve_agree_missing [OF wf Inl [unfolded resolvePathLocked_def] e c]
  show ?thesis by (rule new_slot_created [OF wf c])
next
  case (Inr pr)
  with eq show ?thesis by (auto simp: rename_locate_def intro: new_slot_resolved [OF wf])
qed

lemma mem_Rename_result:
  assumes wf: "fs_wf m" and eq: "mem_Rename now oldName newName m = (Inr (), m')"
  obtains os ro ds c m1 where
    "resolvePathLocked m oldName False False = Inr (render os, Some ro)"
    "valid_comps os" "os \<noteq> []" "at m os = Some ro"
    "valid_comps (ds @ [c])" "at m (ds @ [c]) = None" "nolink m ds"
    "ensureParentLocked now ''rename'' (render (ds @ [c])) m = (Inr (), m1)"
    "\<not> prefix os (ds @ [c])"
    "m' = rebuildDirectoryChildrenLocked (move_subtree (render os) (render (ds @ [c])) m1)"
proof -
  from eq obtain old ref where res: "resolvePathLocked m oldName False False = Inr (old, ref)"
    by (auto simp: mem_Rename_def split: sum.splits)
  from resolvePathLocked_result [OF wf res] obtain os where
    os: "valid_comps os" "old = render os" "ref = at m os" "ref \<noteq> None" by metis
  then obtain ro where ro: "ref = Some ro" by auto
  from eq res os obtain new u m1 where loc: "rename_locate newName m = Inr (new, None)"
    and desc: "\<not> isDescendantPath new old"
    and ep: "ensureParentLocked now ''rename'' new m = (Inr u, m1)"
    and m': "m' = rebuildDirectoryChildrenLocked (move_subtree old new m1)" and ne: "os \<noteq> []"
    by (auto simp: mem_Rename_def Let_def move_subtree_def drop_subtree_def
        split: sum.splits prod.splits option.splits if_splits)
  have slot: "new_slot m new" by (rule rename_locate_new [OF wf loc])
  from slot obtain ds c where n: "new = render (ds @ [c])" "valid_comps (ds @ [c])" "nolink m ds"
    "at m (ds @ [c]) = None" by (rule new_slotE)
  have "\<not> prefix os (ds @ [c])"
    using desc isDescendantPath_iff [OF os(1) n(2)] n os ro ne
    by (auto simp: strict_prefix_def)
  with that [of os ro ds c m1] res os ro ne n ep m' show thesis by simp
qed

end
