(* ===== verification/MemoryFS_Seed.thy ===== *)
theory MemoryFS_Seed
  imports MemoryFS_Move
begin

text \<open>
  The remaining constructors of an in-memory file system: the empty one, directory
  creation, seeding with initial files and cloning, each establishing or keeping the
  tree invariant.
\<close>

section \<open>The empty file system\<close>

lemma NewMemory_at: "valid_comps cs \<Longrightarrow> at (NewMemory now) cs = (if cs = [] then Some 0 else None)"
  by (simp add: at_def ref_at_def NewMemory_def)

lemma NewMemory_wf: "fs_wf (NewMemory now)"
proof (rule fs_wfI)
  have r: "ref_at (NewMemory now) p = (if p = ''/'' then Some 0 else None)" for p
    by (simp add: ref_at_def NewMemory_def)
  have d: "node_dir (NewMemory now) 0"
    by (simp add: NewMemory_def blank_node_def node_dir_def mode_IsDir_def mode_bits)
  show "clean_path p" if "ref_at (NewMemory now) p = Some x" for p x
    using that by (simp add: r split: if_splits)
  show "is_dir (NewMemory now) []" using d by (simp add: is_dir_def NewMemory_at)
  show "r < fs_nextRef (NewMemory now) \<and> node_ok (fs_heap (NewMemory now) r)"
    if "valid_comps cs" "at (NewMemory now) cs = Some r" for cs r
    using that(2) NewMemory_at [OF that(1), of now]
    by (auto simp: NewMemory_def blank_node_def node_ok_def mode_bits split: if_splits)
  show "n_children (fs_heap (NewMemory now) r) = {c. valid_comp c \<and> at (NewMemory now) (cs @ [c]) \<noteq> None}"
    if "valid_comps cs" for cs r
    using NewMemory_at [of "cs @ [_]" now] that by (auto simp: NewMemory_def blank_node_def)
qed (auto simp: NewMemory_at split: if_splits, simp_all add: NewMemory_def)

lemma newMemoryWithImplicitParents_wf: "fs_wf (newMemoryWithImplicitParents now)"
proof -
  have "at (m\<lparr>fs_implicitParents := b\<rparr>) cs = at m cs" "ref_at (m\<lparr>fs_implicitParents := b\<rparr>) p = ref_at m p"
    "node_dir (m\<lparr>fs_implicitParents := b\<rparr>) r = node_dir m r"
    "is_dir (m\<lparr>fs_implicitParents := b\<rparr>) cs = is_dir m cs" for m b cs p r
    by (simp_all add: at_def ref_at_def node_dir_def is_dir_def)
  with NewMemory_wf [of now] show ?thesis
    unfolding newMemoryWithImplicitParents_def fs_wf_def by auto
qed

section \<open>Directory creation\<close>

lemma mem_MkdirAll_wf: "fs_wf m \<Longrightarrow> mem_MkdirAll now name perm m = (res, m') \<Longrightarrow> fs_wf m'"
  unfolding mem_MkdirAll_def by (rule mkdirAllLocked_spec(1))

lemma mkdirAllLocked_ok:
  assumes wf: "fs_wf m"
    and dirs: "\<And>es r. prefix es (abs_comps name) \<Longrightarrow> at m es = Some r \<Longrightarrow> node_dir m r"
  obtains m' where "mkdirAllLocked now name perm m = (Inr (), m')"
proof (cases "abs_comps name = []")
  case True
  with that show thesis by (simp add: mkdirAllLocked_def Let_def Clean_eq)
next
  case False
  from mkdirAll_loop_ok [OF wf, of "[]" "abs_comps name" now perm] dirs wf_root [OF wf]
  obtain m' where "mkdirAll_loop now perm (render []) (join_with slash (abs_comps name)) m = (Inr (), m')"
    by auto
  with False that show thesis by (simp add: mkdirAllLocked_def Let_def Clean_eq tl_render)
qed

section \<open>Renaming\<close>

lemma mem_Rename_wf:
  assumes wf: "fs_wf m" and eq: "mem_Rename now oldName newName m = (res, m')"
  shows "fs_wf m'"
proof (cases res)
  case (Inr u)
  with eq have ok: "mem_Rename now oldName newName m = (Inr (), m')" by simp
  from mem_Rename_result [OF wf ok] obtain os ro ds c m1 where
    os: "valid_comps os" "os \<noteq> []" "at m os = Some ro" and
    n: "valid_comps (ds @ [c])" "at m (ds @ [c]) = None" "nolink m ds" and
    ep: "ensureParentLocked now ''rename'' (render (ds @ [c])) m = (Inr (), m1)" and
    np: "\<not> prefix os (ds @ [c])" and
    m': "m' = rebuildDirectoryChildrenLocked (move_subtree (render os) (render (ds @ [c])) m1)" by metis
  note e = ensureParentLocked_spec [OF wf n(1,3,2) ep]
  have "at m1 os = Some ro" using extendsD(1) [OF e(2) os(1,3)] .
  with move_rebuild_wf [OF e(1) os(1,2) n(1) e(4) e(3) np] m' show ?thesis by simp
next
  case (Inl err)
  have "fs_wf m1" if loc: "rename_locate newName m = Inr (p, None)"
    and ep: "ensureParentLocked now ''rename'' p m = (x, m1)" for p x m1
  proof -
    from rename_locate_new [OF wf loc] obtain ds c where "p = render (ds @ [c])"
      "valid_comps (ds @ [c])" "nolink m ds" "at m (ds @ [c]) = None" by (rule new_slotE)
    with ensureParentLocked_spec(1) [OF wf] ep show ?thesis by metis
  qed
  with eq wf Inl show ?thesis
    by (auto simp: mem_Rename_def Let_def split: sum.splits prod.splits option.splits if_splits)
qed

section \<open>Cloning\<close>

lemma map_of_zip_upt:
  assumes "distinct (map fst xs)"
  shows "map_of (zip (map fst xs) [0..<length xs]) k = Some i \<longleftrightarrow> i < length xs \<and> fst (xs ! i) = k"
proof -
  have d: "distinct (map fst (zip (map fst xs) [0..<length xs]))" using assms by simp
  have "(k, i) \<in> set (zip (map fst xs) [0..<length xs]) \<longleftrightarrow> i < length xs \<and> fst (xs ! i) = k"
    by (auto simp: in_set_zip intro!: exI [of _ i])
  with d show ?thesis by simp
qed

lemma mem_Clone_ref_at:
  assumes "distinct (map fst (fs_nodes m))"
  shows "ref_at (mem_Clone m) p = Some i \<longleftrightarrow>
     i < length (fs_nodes m) \<and> fst (fs_nodes m ! i) = p"
  using map_of_zip_upt [OF assms] by (simp add: mem_Clone_def Let_def ref_at_def)

lemma mem_Clone_node_at:
  assumes "distinct (map fst (fs_nodes m))"
  shows "node_at (mem_Clone m) p = map_option clone_node (node_at m p)"
proof (cases "ref_at (mem_Clone m) p")
  case None
  have "p \<notin> fst ` set (fs_nodes m)"
  proof
    assume "p \<in> fst ` set (fs_nodes m)"
    then obtain i where "i < length (fs_nodes m)" "fst (fs_nodes m ! i) = p"
      by (auto simp: in_set_conv_nth)
    with mem_Clone_ref_at [OF assms, of p i] None show False by simp
  qed
  then have "ref_at m p = None" by (simp add: ref_at_def map_of_eq_None_iff)
  with None show ?thesis by (simp add: node_at_def)
next
  case (Some i)
  with mem_Clone_ref_at [OF assms] have i: "i < length (fs_nodes m)" "fst (fs_nodes m ! i) = p" by auto
  then have "(p, snd (fs_nodes m ! i)) \<in> set (fs_nodes m)" by (metis nth_mem prod.collapse)
  with assms have "ref_at m p = Some (snd (fs_nodes m ! i))" by (simp add: ref_at_def)
  with Some i show ?thesis by (simp add: node_at_def mem_Clone_def Let_def)
qed

lemma clone_node_fields [simp]:
  "n_mode (clone_node n) = n_mode n" "n_children (clone_node n) = n_children n"
  "n_data (clone_node n) = n_data n" "n_target (clone_node n) = n_target n"
  by (simp_all add: clone_node_def)

lemma mem_Clone_wf:
  assumes wf: "fs_wf m"
  shows "fs_wf (mem_Clone m)"
proof -
  let ?c = "mem_Clone m"
  note d = wf_distinct [OF wf]
  note ra = mem_Clone_ref_at [OF d] and na = mem_Clone_node_at [OF d]
  have src: "\<exists>x. at m cs = Some x \<and> fs_heap ?c i = clone_node (fs_heap m x)" if "at ?c cs = Some i" for cs i
    using na [of "render cs"] that by (cases "ref_at m (render cs)") (auto simp: node_at_def at_def)
  have ex: "at ?c cs = None \<longleftrightarrow> at m cs = None" for cs
    using na [of "render cs"] by (cases "ref_at m (render cs)") (auto simp: node_at_def at_def)
  have id: "is_dir m cs \<Longrightarrow> is_dir ?c cs" for cs
    using src [of cs] ex [of cs] by (force simp: is_dir_def node_dir_def)
  show ?thesis
  proof (rule fs_wfI)
    show "distinct (map fst (fs_nodes ?c))" using d by (simp add: mem_Clone_def Let_def)
    show "clean_path p" if "ref_at ?c p = Some r" for p r
      using that na [of p] wf_clean [OF wf] by (cases "ref_at m p") (auto simp: node_at_def)
    show "clean_path (fs_cwd ?c)" using wf_cwd [OF wf] by (simp add: mem_Clone_def Let_def)
    show "is_dir ?c []" using id wf_root [OF wf] .
    show "is_dir ?c cs" if "valid_comps (cs @ [c])" "at ?c (cs @ [c]) = Some r" for cs c r
      using src [OF that(2)] wf_parent [OF wf that(1)] id by blast
    show "r < fs_nextRef ?c \<and> node_ok (fs_heap ?c r)" if "valid_comps cs" "at ?c cs = Some r" for cs r
    proof
      have "fs_nextRef ?c = length (fs_nodes m)" by (simp add: mem_Clone_def Let_def)
      with that ra [of "render cs" r] show "r < fs_nextRef ?c" by (simp add: at_def)
      show "node_ok (fs_heap ?c r)"
        using src [OF that(2)] wf_node [OF wf that(1)] by (auto simp: node_ok_def)
    qed
    show "cs = ds" if "valid_comps cs" "valid_comps ds" "at ?c cs = Some r" "at ?c ds = Some r"
      "node_dir ?c r" for cs ds r
      using that ra [of "render cs" r] ra [of "render ds" r] by (auto simp: at_def render_inj)
    show "n_children (fs_heap ?c r) = {c. valid_comp c \<and> at ?c (cs @ [c]) \<noteq> None}"
      if "valid_comps cs" "at ?c cs = Some r" "node_dir ?c r" for cs r
      using src [OF that(2)] wf_children [OF wf that(1)] that(3) ex by (auto simp: node_dir_def)
  qed
qed

section \<open>Seeding\<close>

text \<open>
  Seeding meets no symbolic link in a fresh file system. It keeps the invariant as long
  as no seeded name is already a directory; without that condition it does not.
\<close>

definition no_links :: "MemoryFS \<Rightarrow> bool" where
  "no_links m \<longleftrightarrow> (\<forall>cs r. valid_comps cs \<longrightarrow> at m cs = Some r \<longrightarrow> \<not> node_link m r)"

definition seedable :: "string \<Rightarrow> InitialFile \<Rightarrow> bool" where
  "seedable name file \<longleftrightarrow>
     abs_comps name \<noteq> [] \<and> \<not> (if_lazy file \<noteq> None \<and> if_content file \<noteq> None) \<and>
     mode_Type (if_mode file) AND NOT seedableTypeBits = 0"

lemma no_links_nolink: "no_links m \<Longrightarrow> valid_comps cs \<Longrightarrow> nolink m cs"
  unfolding no_links_def nolink_def using valid_comps_prefix by blast

lemma no_links_NewMemory: "no_links (NewMemory now)"
proof -
  have "\<not> node_link (NewMemory now) r" for r
    by (simp add: node_link_def NewMemory_def blank_node_def mode_bits)
  then show ?thesis by (simp add: no_links_def)
qed

lemma seed_type_bits:
  assumes "mode_Type x AND NOT seedableTypeBits = 0"
  shows "mode_Type x AND ModeDir = 0" "mode_Type x AND ModeSymlink = 0"
proof -
  have m: "(NOT seedableTypeBits) AND ModeDir = ModeDir" "(NOT seedableTypeBits) AND ModeSymlink = ModeSymlink"
    by (simp_all add: seedableTypeBits_def mode_bits)
  have e: "mode_Type x AND y = 0" if "(NOT seedableTypeBits) AND y = y" for y
  proof -
    have "mode_Type x AND y = (mode_Type x AND NOT seedableTypeBits) AND y"
      by (simp only: and.assoc that)
    with assms show ?thesis by simp
  qed
  from e [OF m(1)] e [OF m(2)] show "mode_Type x AND ModeDir = 0" "mode_Type x AND ModeSymlink = 0" .
qed

lemma seed_perm_bits:
  "mode_Perm x AND ModeDir = 0" "mode_Perm x AND ModeSymlink = 0"
proof -
  have "ModePerm AND ModeDir = 0" "ModePerm AND ModeSymlink = 0" by (simp_all add: mode_bits)
  then show "mode_Perm x AND ModeDir = 0" "mode_Perm x AND ModeSymlink = 0"
    by (simp_all only: mode_Perm_def and.assoc and_zero_eq)
qed

lemma seed_node_ok:
  assumes "seedable name file"
  shows "node_ok (seed_node now file)" "n_children (seed_node now file) = {}"
    "\<not> mode_IsDir (n_mode (seed_node now file))" "n_mode (seed_node now file) AND ModeSymlink = 0"
  using assms seed_type_bits [of "if_mode file"] seed_perm_bits
  by (simp_all add: seed_node_def seedable_def Let_def node_ok_def mode_IsDir_def blank_node_def or_and_distrib)

lemma seed_file_eq:
  assumes "seedable name file"
  shows "seedInitialFileLocked now name file m =
     (case mkdirAllLocked now (parentDir (Clean name)) 0x1ED m of
        (Inl e, m1) \<Rightarrow> (Inl e, m1)
      | (Inr _, m1) \<Rightarrow> (Inr (), snd (install (Clean name) (seed_node now file) m1)))"
proof -
  have "Clean name \<noteq> ''/''" using assms by (simp add: Clean_eq seedable_def)
  with assms show ?thesis
    by (auto simp: seedInitialFileLocked_def seedable_def Let_def)
qed

lemma seed_file_rejected: "\<not> seedable name file \<Longrightarrow> seedInitialFileLocked now name file m =
    (Inl (PathError ''seed'' (Clean name) (Errno ErrInvalid)), m)"
  by (auto simp: seedInitialFileLocked_def seedable_def Let_def Clean_eq)

lemma extends_no_links:
  assumes "fs_wf m'" "extends m m'" "no_links m"
  shows "no_links m'"
  unfolding no_links_def
proof (intro allI impI)
  fix cs r
  assume a: "valid_comps cs" "at m' cs = Some r"
  show "\<not> node_link m' r"
  proof (cases "at m cs")
    case None
    with a assms(2) have "is_dir m' cs" by (simp add: extends_def)
    with a wf_dir_not_link [OF assms(1) a] show ?thesis by (auto simp: is_dir_def)
  next
    case (Some x)
    with a assms extendsD [OF assms(2) a(1) Some] show ?thesis by (simp add: no_links_def)
  qed
qed

lemma seed_file_step:
  assumes wf: "fs_wf m" and nl: "no_links m" and nd: "\<not> is_dir m (abs_comps name)"
    and eq: "seedInitialFileLocked now name file m = (res, m')"
  shows "fs_wf m' \<and> no_links m' \<and>
     (\<forall>es. valid_comps es \<longrightarrow> is_dir m' es \<longrightarrow> is_dir m es \<or> strict_prefix es (abs_comps name)) \<and>
     (\<forall>es x. valid_comps es \<longrightarrow> es \<noteq> abs_comps name \<longrightarrow> at m es = Some x \<longrightarrow>
        at m' es = Some x \<and> n_data (fs_heap m' x) = n_data (fs_heap m x)) \<and>
     (res = Inr () \<longrightarrow> (\<exists>r i. at m' (abs_comps name) = Some r \<and>
        fs_heap m' r = (seed_node now file)\<lparr>n_id := i\<rparr>))"
proof (cases "seedable name file")
  case False
  with eq wf nl seed_file_rejected show ?thesis by fastforce
next
  case sd: True
  then obtain ds c where dc: "abs_comps name = ds @ [c]"
    by (metis seedable_def rev_exhaust)
  then have v: "valid_comps (ds @ [c])" and cl: "Clean name = render (ds @ [c])"
    using abs_comps_valid [of name] by (simp_all only: Clean_eq)
  then have pd: "parentDir (Clean name) = render ds" and ac: "abs_comps (render ds) = ds" by simp_all
  obtain x m1 where mk: "mkdirAllLocked now (render ds) 0x1ED m = (x, m1)" by fastforce
  note s = mkdirAllLocked_spec [OF wf mk, unfolded ac]
  have nld: "nolink m ds" using no_links_nolink [OF nl] v by simp
  have nl1: "no_links m1" by (rule extends_no_links [OF s(1,2) nl])
  have dirs1: "is_dir m es \<or> strict_prefix es (ds @ [c])" if "valid_comps es" "is_dir m1 es" for es
  proof (cases "at m es")
    case None
    with s(4) [OF nld that(1)] that(2) have "prefix es ds" by (auto simp: is_dir_def)
    then show ?thesis by (auto simp: strict_prefix_def prefix_def)
  next
    case (Some y)
    with extendsD [OF s(2) that(1) Some] that(2) show ?thesis by (auto simp: is_dir_def)
  qed
  show ?thesis
  proof (cases x)
    case (Inl e)
    with eq seed_file_eq [OF sd, of now m] mk pd dc have m': "m' = m1" "res = Inl e" by simp_all
    with s(1) nl1 dirs1 extendsD [OF s(2)] dc show ?thesis by auto
  next
    case (Inr u)
    obtain r m2 where ins: "install (render (ds @ [c])) (seed_node now file) m1 = (r, m2)" by fastforce
    with eq seed_file_eq [OF sd, of now m] mk pd cl Inr have m': "m' = m2" "res = Inr ()" by simp_all
    have nd1: "\<not> is_dir m1 (ds @ [c])" using dirs1 [OF v] nd dc by auto
    have d1: "is_dir m1 ds" using s(3) [OF nld] Inr by simp
    note k = seed_node_ok [OF sd, of now]
    note i = install_wf [OF s(1) v nd1 d1 k(1,2) ins]
    from i(3) obtain j where j: "fs_heap m2 r = (seed_node now file)\<lparr>n_id := j\<rparr>" by blast
    have kindr: "\<not> node_dir m2 r" "\<not> node_link m2 r" using k(3,4) j by (simp_all add: node_dir_def node_link_def)
    have oth: "node_dir m2 y = node_dir m1 y" "node_link m2 y = node_link m1 y"
        "n_data (fs_heap m2 y) = n_data (fs_heap m1 y)"
      if "valid_comps es" "at m1 es = Some y" for es y
      using i(4) [OF that] by (simp_all add: node_dir_def node_link_def)
    have "no_links m2"
      using nl1 i(2) kindr oth unfolding no_links_def by (metis option.inject)
    moreover have "is_dir m2 es \<Longrightarrow> is_dir m1 es" if "valid_comps es" for es
      using i(2) [OF that] kindr oth [OF that] by (auto simp: is_dir_def split: if_splits)
    moreover have "at m2 es = Some y \<and> n_data (fs_heap m2 y) = n_data (fs_heap m y)"
      if "valid_comps es" "es \<noteq> ds @ [c]" "at m es = Some y" for es y
      using extendsD [OF s(2) that(1,3)] i(2) [OF that(1)] that oth(3) [OF that(1)] by simp
    moreover have "at m2 (ds @ [c]) = Some r" using i(2) [OF v] by simp
    ultimately show ?thesis using i(1) dirs1 j unfolding m' dc by blast
  qed
qed

text \<open>
  A set of seeds whose names do not contain each other as directories: every seed is
  stored with its contents, in any order.
\<close>

definition seed_antichain :: "string list \<Rightarrow> bool" where
  "seed_antichain names \<longleftrightarrow>
     (\<forall>a \<in> set names. \<forall>b \<in> set names. \<not> strict_prefix (abs_comps a) (abs_comps b))"

definition only_seeded :: "string list \<Rightarrow> MemoryFS \<Rightarrow> bool" where
  "only_seeded names m \<longleftrightarrow>
     (\<forall>es r. valid_comps es \<longrightarrow> at m es = Some r \<longrightarrow>
        (is_dir m es \<longrightarrow> es = [] \<or> (\<exists>a \<in> set names. strict_prefix es (abs_comps a))) \<and>
        (\<not> is_dir m es \<longrightarrow> (\<exists>a \<in> set names. es = abs_comps a)))"

lemma only_seeded_dir:
  assumes "only_seeded names m" "valid_comps es" "is_dir m es" "es \<noteq> []"
  obtains a where "a \<in> set names" "strict_prefix es (abs_comps a)"
proof -
  from assms(3) obtain r where "at m es = Some r" by (rule is_dirE)
  with assms that show thesis unfolding only_seeded_def by blast
qed

lemma seed_file_ok:
  assumes wf: "fs_wf m" and nl: "no_links m" and os: "only_seeded names m"
    and sub: "name \<in> set names" "seed_antichain names" and sd: "seedable name file"
  obtains m' where "seedInitialFileLocked now name file m = (Inr (), m')"
proof -
  let ?cs = "abs_comps name"
  obtain ds c where dc: "?cs = ds @ [c]" using sd by (metis seedable_def rev_exhaust)
  have v: "valid_comps (ds @ [c])" and pd: "parentDir (Clean name) = render ds"
    using abs_comps_valid [of name] dc by (simp_all add: Clean_eq)
  have dirs: "node_dir m r" if "prefix es ds" "at m es = Some r" for es r
  proof (rule ccontr)
    assume "\<not> node_dir m r"
    with that have "\<not> is_dir m es" by (simp add: is_dir_def)
    moreover have "valid_comps es" using v that(1) valid_comps_prefix [of ds es] by simp
    moreover note \<open>at m es = Some r\<close>
    ultimately obtain a where "a \<in> set names" "es = abs_comps a"
      using os unfolding only_seeded_def by blast
    moreover have "strict_prefix es ?cs" using that(1) dc by (auto simp: strict_prefix_def prefix_def)
    ultimately show False using sub by (auto simp: seed_antichain_def)
  qed
  from mkdirAllLocked_ok [OF wf, of "render ds" now "0x1ED"] dirs v obtain m1 where
    "mkdirAllLocked now (render ds) 0x1ED m = (Inr (), m1)" by auto
  with seed_file_eq [OF sd, of now m] pd that show thesis by simp
qed

lemma seed_file_only:
  assumes wf: "fs_wf m" and nl: "no_links m" and os: "only_seeded names m"
    and sub: "name \<in> set names" and nd: "\<not> is_dir m (abs_comps name)" and sd: "seedable name file"
    and eq: "seedInitialFileLocked now name file m = (Inr (), m')"
  shows "only_seeded names m'"
proof -
  obtain ds c where dc: "abs_comps name = ds @ [c]" using sd by (metis seedable_def rev_exhaust)
  have v: "valid_comps (ds @ [c])" and pd: "parentDir (Clean name) = render ds"
    and cl: "Clean name = render (ds @ [c])"
    using abs_comps_valid [of name] dc by (simp_all add: Clean_eq)
  have ac: "abs_comps (render ds) = ds" using v by simp
  from eq seed_file_eq [OF sd, of now m] pd cl obtain m1 where
    mk: "mkdirAllLocked now (render ds) 0x1ED m = (Inr (), m1)"
    and m': "m' = snd (install (render (ds @ [c])) (seed_node now file) m1)"
    by (auto split: prod.splits sum.splits)
  note s = mkdirAllLocked_spec [OF wf mk, unfolded ac]
  note st = seed_file_step [OF wf nl nd eq]
  have nld: "nolink m ds" using no_links_nolink [OF nl] v by simp
  obtain r where ins: "install (render (ds @ [c])) (seed_node now file) m1 = (r, m')"
    using m' by (metis prod.collapse)
  have dirs1: "\<not> is_dir m1 (ds @ [c])"
  proof
    assume "is_dir m1 (ds @ [c])"
    moreover from this s(4) [OF nld v] have "at m (ds @ [c]) \<noteq> None" by (auto simp: is_dir_def prefix_def)
    ultimately show False using nd dc extendsD [OF s(2) v] by (auto simp: is_dir_def)
  qed
  note k = seed_node_ok [OF sd, of now]
  note i = install_wf [OF s(1) v dirs1 s(3) [OF nld refl] k(1,2) ins]
  show ?thesis
    unfolding only_seeded_def
  proof (intro allI impI)
    fix es x
    assume a: "valid_comps es" "at m' es = Some x"
    show "(is_dir m' es \<longrightarrow> es = [] \<or> (\<exists>a \<in> set names. strict_prefix es (abs_comps a))) \<and>
        (\<not> is_dir m' es \<longrightarrow> (\<exists>a \<in> set names. es = abs_comps a))"
    proof (rule conjI; rule impI)
      assume "is_dir m' es"
      with st a(1) have "is_dir m es \<or> strict_prefix es (abs_comps name)" by blast
      with only_seeded_dir [OF os a(1)] sub
      show "es = [] \<or> (\<exists>a \<in> set names. strict_prefix es (abs_comps a))" by metis
    next
      assume nd': "\<not> is_dir m' es"
      show "\<exists>a \<in> set names. es = abs_comps a"
      proof (cases "es = ds @ [c]")
        case True
        with sub dc show ?thesis by (intro bexI [of _ name]) simp_all
      next
        case False
        then have a1: "at m1 es = Some x" using i(2) [OF a(1)] a(2) by simp
        have "node_dir m' x = node_dir m1 x" using i(4) [OF a(1) a1] by (simp add: node_dir_def)
        with nd' a have n1: "\<not> is_dir m1 es" using a1 by (simp add: is_dir_def)
        then obtain y where y: "at m es = Some y" using s(2) a(1) a1 by (fastforce simp: extends_def)
        with n1 extendsD [OF s(2) a(1) y] have "\<not> is_dir m es" by (auto simp: is_dir_def)
        with os a(1) y show ?thesis unfolding only_seeded_def by blast
      qed
    qed
  qed
qed

lemma seedInitialFiles_ok:
  assumes "fs_wf m" "no_links m" "only_seeded names m" "seed_antichain names"
    and "fst ` set files \<subseteq> set names"
    and "\<And>name file. (name, file) \<in> set files \<Longrightarrow> seedable name file"
  shows "\<exists>m'. seedInitialFiles now files m = (Inr (), m') \<and> fs_wf m' \<and>
     (\<forall>es x. valid_comps es \<longrightarrow> es \<notin> (\<lambda>f. abs_comps (fst f)) ` set files \<longrightarrow> at m es = Some x \<longrightarrow>
        at m' es = Some x \<and> n_data (fs_heap m' x) = n_data (fs_heap m x)) \<and>
     (distinct (map (\<lambda>f. abs_comps (fst f)) files) \<longrightarrow>
        (\<forall>name file. (name, file) \<in> set files \<longrightarrow>
           (\<exists>r. at m' (abs_comps name) = Some r \<and> n_data (fs_heap m' r) = n_data (seed_node now file))))"
  using assms
proof (induction files arbitrary: m)
  case (Cons f files)
  obtain name "file" where f: "f = (name, file)" by fastforce
  have sd: "seedable name file" and nm: "name \<in> set names" using Cons.prems f by auto
  from seed_file_ok [OF Cons.prems(1-3) nm Cons.prems(4) sd] obtain m1 where
    m1: "seedInitialFileLocked now name file m = (Inr (), m1)" by metis
  have nd: "\<not> is_dir m (abs_comps name)"
  proof
    assume d: "is_dir m (abs_comps name)"
    from only_seeded_dir [OF Cons.prems(3) abs_comps_valid d] sd obtain a where
      "a \<in> set names" "strict_prefix (abs_comps name) (abs_comps a)"
      unfolding seedable_def by blast
    with Cons.prems(4) nm show False by (auto simp: seed_antichain_def)
  qed
  note st = seed_file_step [OF Cons.prems(1,2) nd m1]
  note os1 = seed_file_only [OF Cons.prems(1-3) nm nd sd m1]
  from Cons.IH [OF _ _ os1 Cons.prems(4)] st Cons.prems(5,6) obtain m' where
    m': "seedInitialFiles now files m1 = (Inr (), m')" "fs_wf m'"
    and keep: "\<And>es x. valid_comps es \<Longrightarrow> es \<notin> (\<lambda>f. abs_comps (fst f)) ` set files \<Longrightarrow>
        at m1 es = Some x \<Longrightarrow> at m' es = Some x \<and> n_data (fs_heap m' x) = n_data (fs_heap m1 x)"
    and stored: "distinct (map (\<lambda>f. abs_comps (fst f)) files) \<Longrightarrow> \<forall>name file. (name, file) \<in> set files \<longrightarrow>
        (\<exists>r. at m' (abs_comps name) = Some r \<and> n_data (fs_heap m' r) = n_data (seed_node now file))"
    by auto
  from st obtain r j where r: "at m1 (abs_comps name) = Some r"
    "fs_heap m1 r = (seed_node now file)\<lparr>n_id := j\<rparr>" by blast
  have here: "\<exists>r. at m' (abs_comps name) = Some r \<and> n_data (fs_heap m' r) = n_data (seed_node now file)"
    if "distinct (map (\<lambda>f. abs_comps (fst f)) (f # files))"
    using keep [OF abs_comps_valid _ r(1)] r(2) that f by auto
  have "at m' es = Some x \<and> n_data (fs_heap m' x) = n_data (fs_heap m x)"
    if "valid_comps es" "es \<notin> (\<lambda>f. abs_comps (fst f)) ` set (f # files)" "at m es = Some x" for es x
    using st keep [OF that(1), of x] that f by simp
  with m1 m' f stored here show ?case by auto
qed simp

end
