(* ===== verification/MemoryFS_Steps.thy ===== *)
theory MemoryFS_Steps
  imports MemoryFS_Seed
begin

text \<open>
  The in-memory file system as a state machine: one rule per operation, also the ones
  that go through open handles and pipes, in any order. Every state reachable from a
  new file system satisfies the tree invariant.
\<close>

section \<open>Steps\<close>

inductive mem_step :: "MemoryFS \<Rightarrow> MemoryFS \<Rightarrow> bool" where
  s_mkdir: "mem_MkdirAll now name perm m = (res, m') \<Longrightarrow> mem_step m m'"
| s_symlink: "mem_Symlink now target name m = (res, m') \<Longrightarrow> mem_step m m'"
| s_link: "mem_Link now old new m = (res, m') \<Longrightarrow> mem_step m m'"
| s_openfile: "mem_OpenFile now name flag perm m = (hres, m') \<Longrightarrow> mem_step m m'"
| s_stat: "mem_stat_op op follow name m = (sres, m') \<Longrightarrow> mem_step m m'"
| s_chmod: "mem_Chmod now name mode m = (res, m') \<Longrightarrow> mem_step m m'"
| s_chown: "mem_Chown name uid gid follow m = (res, m') \<Longrightarrow> mem_step m m'"
| s_chtimes: "mem_Chtimes now name ta tm m = (res, m') \<Longrightarrow> mem_step m m'"
| s_lchtimes: "mem_Lchtimes now name ta tm m = (res, m') \<Longrightarrow> mem_step m m'"
| s_mkfifo: "mem_Mkfifo now name perm m = (res, m') \<Longrightarrow> mem_step m m'"
| s_remove: "mem_Remove name recursive m = (res, m') \<Longrightarrow> mem_step m m'"
| s_rename: "mem_Rename now old new m = (res, m') \<Longrightarrow> mem_step m m'"
| s_chdir: "mem_Chdir name m = (res, m') \<Longrightarrow> mem_step m m'"
| s_read: "mem_Read n f m = (rres, f', m') \<Longrightarrow> mem_step m m'"
| s_write: "mem_Write now p f m = (wres, f', m') \<Longrightarrow> mem_step m m'"
| s_fstat: "mem_FileStat f m = (sres, m') \<Longrightarrow> mem_step m m'"
| s_fifo_read: "n_fifo (fs_heap m r) = Some q \<Longrightarrow> fifo_read ctx n pf q = (pres, pf', q') \<Longrightarrow>
    mem_step m (update_node r (\<lambda>n. n\<lparr>n_fifo := Some q'\<rparr>) m)"
| s_fifo_write: "n_fifo (fs_heap m r) = Some q \<Longrightarrow> fifo_write ctx p pf q = (qres, k, pf', q') \<Longrightarrow>
    mem_step m (update_node r (\<lambda>n. n\<lparr>n_fifo := Some q'\<rparr>) m)"
| s_fifo_close: "n_fifo (fs_heap m r) = Some q \<Longrightarrow> fifo_close pf q = (pf', q') \<Longrightarrow>
    mem_step m (update_node r (\<lambda>n. n\<lparr>n_fifo := Some q'\<rparr>) m)"
| s_clone: "mem_step m (mem_Clone m)"

lemma mem_step_wf: "mem_step m m' \<Longrightarrow> fs_wf m \<Longrightarrow> fs_wf m'"
  by (induction rule: mem_step.induct)
    (auto intro: mem_MkdirAll_wf mem_Symlink_wf mem_Link_wf mem_OpenFile_wf mem_stat_op_wf
      mem_Chmod_wf mem_Chown_wf mem_Chtimes_wf mem_Lchtimes_wf mem_Mkfifo_wf mem_Remove_wf
      mem_Rename_wf mem_Chdir_wf mem_Read_wf mem_Write_wf mem_FileStat_wf mem_Clone_wf
      intro!: fs_wf_update_node)

inductive mem_reachable :: "MemoryFS \<Rightarrow> bool" where
  new: "mem_reachable (NewMemory now)"
| upper: "mem_reachable (newMemoryWithImplicitParents now)"
| seeded: "seed_antichain (map fst files) \<Longrightarrow> (\<forall>name file. (name, file) \<in> set files \<longrightarrow> seedable name file) \<Longrightarrow>
    seedInitialFiles now files (NewMemory now') = (res, m) \<Longrightarrow> mem_reachable m"
| step: "mem_reachable m \<Longrightarrow> mem_step m m' \<Longrightarrow> mem_reachable m'"

lemma only_seeded_NewMemory: "only_seeded names (NewMemory now)"
proof -
  have "at (NewMemory now) es = Some r \<Longrightarrow> valid_comps es \<Longrightarrow> es = []" for es r
    using NewMemory_at [of es now] by (auto split: if_splits)
  with wf_root [OF NewMemory_wf] show ?thesis unfolding only_seeded_def by auto
qed

lemma seeded_wf:
  assumes "seed_antichain (map fst files)" "\<And>name file. (name, file) \<in> set files \<Longrightarrow> seedable name file"
  obtains m where "seedInitialFiles now files (NewMemory now') = (Inr (), m)" "fs_wf m"
proof -
  have "fst ` set files \<subseteq> set (map fst files)" by simp
  from seedInitialFiles_ok [OF NewMemory_wf no_links_NewMemory only_seeded_NewMemory assms(1) this, of now now'] assms(2)
  obtain m where "seedInitialFiles now files (NewMemory now') = (Inr (), m)" "fs_wf m" by blast
  with that show thesis .
qed

lemma mem_reachable_wf: "mem_reachable m \<Longrightarrow> fs_wf m"
proof (induction rule: mem_reachable.induct)
  case (seeded files now now' res m)
  then show ?case using seeded_wf [of files now now'] by (metis Pair_inject)
qed (auto intro: NewMemory_wf newMemoryWithImplicitParents_wf mem_step_wf)

text \<open>
  (C1) Tree invariant: after any sequence of operations on a new, an upper-layer or a
  conflict-free seeded file system, every entry has a clean path, its parent is a
  directory, a directory has one name and its children set is exactly the set of names
  stored below it.
\<close>

theorem mem_reachable_tree:
  assumes "mem_reachable m"
  shows "fs_wf m"
  using assms by (rule mem_reachable_wf)

theorem mem_reachable_tree_witness:
  "fs_wf (snd (mem_Symlink 5 ''/x'' ''/l'' (snd (mem_MkdirAll 5 ''/d/e'' 0 (NewMemory 1)))))"
proof (rule mem_reachable_tree)
  have "mem_reachable (snd (mem_MkdirAll 5 ''/d/e'' 0 (NewMemory 1)))"
    by (rule mem_reachable.step [OF mem_reachable.new mem_step.s_mkdir [OF surjective_pairing]])
  then show "mem_reachable (snd (mem_Symlink 5 ''/x'' ''/l'' (snd (mem_MkdirAll 5 ''/d/e'' 0 (NewMemory 1)))))"
    by (rule mem_reachable.step [OF _ mem_step.s_symlink [OF surjective_pairing]])
qed

end
