(* ===== verification/MemoryFS_Props.thy ===== *)
theory MemoryFS_Props
  imports MemoryFS_Steps
begin

text \<open>
  What the operations of the in-memory file system mean to a caller: resolution, the
  round trip from a creating write to a read, removal, renaming, hard links, directory
  listings, exclusive creation, permissions, seeding and cloning. Each property is
  stated for every file system that satisfies the tree invariant.
\<close>

section \<open>Resolution\<close>

lemma mem_Realpath_result:
  assumes wf: "fs_wf m" and eq: "mem_Realpath name m = Inr p"
  obtains cs r where "valid_comps cs" "p = render cs" "at m cs = Some r" "phys m cs" "\<not> node_link m r"
proof -
  from eq obtain ref where "resolvePathLocked m name True False = Inr (p, ref)"
    by (auto simp: mem_Realpath_def split: sum.splits)
  from resolvePathLocked_result [OF wf this] obtain cs where
    "valid_comps cs" "p = render cs" "ref = at m cs" "phys m cs" "ref \<noteq> None"
    "\<And>r. ref = Some r \<Longrightarrow> \<not> node_link m r" by metis
  with that show thesis by blast
qed

text \<open>
  (C26) \<open>Realpath\<close> returns a physical path: every proper prefix is a directory, the
  entry exists and is not a symbolic link, and resolving the result again returns it.
\<close>

theorem Realpath_physical:
  assumes "fs_wf m" "mem_Realpath name m = Inr p"
  shows "\<exists>cs r. valid_comps cs \<and> p = render cs \<and> phys m cs \<and> at m cs = Some r \<and> \<not> node_link m r \<and>
     mem_Realpath p m = Inr p"
proof -
  from assms obtain cs r where c: "valid_comps cs" "p = render cs" "at m cs = Some r" "phys m cs"
    "\<not> node_link m r" by (rule mem_Realpath_result)
  then have "resolvePathLocked m p True False = Inr (p, Some r)"
    using resolvePathLocked_ident [OF assms(1) c(1,4), of False True] by auto
  then have "mem_Realpath p m = Inr p" by (simp add: mem_Realpath_def)
  with c show ?thesis by blast
qed

lemma linked_fs:
  defines "m \<equiv> snd (mem_Symlink 5 ''d'' ''/l'' (snd (mem_MkdirAll 5 ''/d/e'' 0 (NewMemory 1))))"
  shows "fs_wf m" "mem_Realpath ''/l/e'' m = Inr ''/d/e''"
proof -
  show "fs_wf m" unfolding m_def
    by (rule mem_Symlink_wf [OF mem_MkdirAll_wf [OF NewMemory_wf surjective_pairing] surjective_pairing])
  show "mem_Realpath ''/l/e'' m = Inr ''/d/e''" unfolding m_def by code_simp
qed

theorem Realpath_physical_witness:
  "\<exists>m cs r. valid_comps cs \<and> ''/d/e'' = render cs \<and> phys m cs \<and> at m cs = Some r \<and> \<not> node_link m r \<and>
     mem_Realpath ''/d/e'' m = Inr ''/d/e''"
  using Realpath_physical [OF linked_fs] by blast

section \<open>Creating and reading back\<close>

definition keeps :: "MemoryFS \<Rightarrow> MemoryFS \<Rightarrow> bool" where
  "keeps m m' \<longleftrightarrow>
     (\<forall>es r. valid_comps es \<longrightarrow> at m es = Some r \<longrightarrow>
        at m' es = Some r \<and> n_mode (fs_heap m' r) = n_mode (fs_heap m r) \<and>
        n_target (fs_heap m' r) = n_target (fs_heap m r)) \<and>
     fs_cwd m' = fs_cwd m"

lemma keeps_refl [simp]: "keeps m m" by (simp add: keeps_def)

lemma keeps_trans: "keeps a b \<Longrightarrow> keeps b c \<Longrightarrow> keeps a c"
  unfolding keeps_def by (metis (no_types, lifting))

lemma keeps_pathD:
  assumes "keeps m m'" "valid_comps es" "at m es = Some r"
  shows "at m' es = Some r" "node_link m' r = node_link m r" "node_dir m' r = node_dir m r"
    "n_target (fs_heap m' r) = n_target (fs_heap m r)"
  using assms by (auto simp: keeps_def node_link_def node_dir_def)

lemma extends_keeps: "extends m m' \<Longrightarrow> keeps m m'"
  unfolding extends_def keeps_def by fastforce

lemma update_node_keeps:
  "(\<And>n. n_mode (f n) = n_mode n) \<Longrightarrow> (\<And>n. n_target (f n) = n_target n) \<Longrightarrow> keeps m (update_node r f m)"
  by (auto simp: keeps_def)

lemma install_keeps:
  assumes "fs_wf m" "valid_comps (cs @ [c])" "at m (cs @ [c]) = None" "is_dir m cs"
    "node_ok n" "n_children n = {}" "install (render (cs @ [c])) n m = (r, m')"
  shows "keeps m m'"
proof -
  note i = install_wf [OF assms(1,2) missing_not_dir [OF assms(3)] assms(4-7)]
  show ?thesis unfolding keeps_def using i(2,4,5) assms(3) by auto
qed

lemma open_make_keeps:
  assumes wf: "fs_wf m" and slot: "new_slot m p" and eq: "open_make now flag perm p None m = (Inr r, m')"
  shows "keeps m m'"
proof -
  let ?n = "blank_node (if perm AND storedPermBits = 0 then 0x1A4 else perm AND storedPermBits) now"
  from slot obtain ds c where p: "p = render (ds @ [c])" and v: "valid_comps (ds @ [c])"
    and nl: "nolink m ds" and new: "at m (ds @ [c]) = None" by (rule new_slotE)
  from eq p obtain u m1 where ep: "ensureParentLocked now ''open'' (render (ds @ [c])) m = (Inr u, m1)"
    and ins: "install (render (ds @ [c])) ?n m1 = (r, m')"
    by (auto simp: open_make_def split: if_splits prod.splits sum.splits)
  note e = ensureParentLocked_spec [OF wf v nl new ep]
  from install_keeps [OF e(1) v e(4) e(3) file_node_ok ins] extends_keeps [OF e(2)] show ?thesis
    by (auto intro: keeps_trans)
qed

lemma created_loop_restart:
  assumes "keeps m m'" "valid_comps (ds @ cs)" "cs \<noteq> []"
    "resolveCreate_loop m q (render ds) (join_with slash cs) = Restart t"
  shows "resolveAbs_loop m' True False (render ds) (join_with slash cs) = Restart t"
  using assms
proof (induction cs arbitrary: ds)
  case (Cons c cs)
  note e1 = resolveAbs_loop_Cons [OF Cons.prems(2), of m' True False]
    and e2 = resolveCreate_loop_Cons [OF Cons.prems(2), of m q]
  have v: "valid_comps (ds @ [c])" using Cons.prems(2) by simp
  from Cons.prems(4) obtain r where r: "at m (ds @ [c]) = Some r"
    unfolding e2 by (cases "at m (ds @ [c])") auto
  note k = keeps_pathD [OF Cons.prems(1) v r]
  from Cons.prems Cons.IH [of "ds @ [c]"] r k show ?case
    unfolding e1 e2 by (auto split: if_splits)
qed simp

lemma resolve_created:
  assumes "fs_wf m" "fs_wf m'" "keeps m m'" "resolveCreatePathLocked m name d = Inr p"
    "ref_at m' p = Some r" "\<not> node_link m' r"
  shows "resolveAbsLocked m' name True False d = Inr (p, Some r)"
  using assms
proof (induction "Suc maxSymlinkDepth - d" arbitrary: name d rule: less_induct)
  case less
  define cs where "cs = abs_comps name"
  have v: "valid_comps cs" and cl: "Clean name = render cs" by (simp_all add: cs_def Clean_eq)
  have d: "\<not> maxSymlinkDepth < d"
    using less.prems(4) by (auto simp: resolveCreatePathLocked.simps [of m name])
  show ?case
  proof (cases "cs = []")
    case True
    with less.prems(4,5) cl d show ?thesis
      by (simp add: resolveAbsLocked.simps resolveCreatePathLocked.simps [of m name] split: option.split)
  next
    case False
    have c: "(case resolveCreate_loop m (render cs) (render []) (join_with slash cs) of
        Return r \<Rightarrow> r | Restart t \<Rightarrow> resolveCreatePathLocked m t (Suc d)) = Inr p"
      using less.prems(4) cl d False v by (simp add: resolveCreatePathLocked.simps [of m name] tl_render)
    show ?thesis
    proof (cases "resolveCreate_loop m (render cs) (render []) (join_with slash cs)")
      case (Restart t)
      have "resolveAbs_loop m' True False (render []) (join_with slash cs) = Restart t"
        by (rule created_loop_restart [OF less.prems(3) _ False Restart]) (simp add: v)
      moreover have "resolveAbsLocked m' t True False (Suc d) = Inr (p, Some r)"
        using less.hyps [of "Suc d" t] less.prems c Restart d by simp
      ultimately show ?thesis using cl d False v
        by (simp add: resolveAbsLocked.simps [of m' name] tl_render)
    next
      case (Return x)
      with c have "p = render cs"
        using resolveCreate_loop_result [of "[]" cs m "render cs" p] v False less.prems(1) wf_root by auto
      with less.prems(5) have at': "at m' cs = Some r" by (simp add: at_def)
      have "resolveAbsLocked m' (render cs) True False d = Inr (render cs, at m' cs)"
        by (rule resolveAbsLocked_ident [OF less.prems(2) v wf_phys [OF less.prems(2) v at']])
          (use d at' less.prems(6) in auto)
      with \<open>p = render cs\<close> at' cl show ?thesis
        by (simp add: resolveAbsLocked.simps [of m' name] resolveAbsLocked.simps [of m' "render cs"] v)
    qed
  qed
qed

definition create_flags :: goflags where
  "create_flags = O_CREATE OR O_WRONLY OR O_TRUNC"

lemma create_flags_bits:
  "create_flags AND O_CREATE \<noteq> 0" "create_flags AND O_EXCL = 0" "create_flags AND O_TRUNC \<noteq> 0"
  "create_flags AND O_APPEND = 0" "canWrite create_flags" "\<not> canRead create_flags"
  by (simp_all add: create_flags_def canWrite_def canRead_def flag_bits)

lemma rdonly_bits:
  "O_RDONLY AND x = 0" "\<not> canWrite O_RDONLY" "canRead O_RDONLY"
  by (simp_all add: canWrite_def canRead_def flag_bits)

lemma excl_create_bits: "O_CREATE OR O_EXCL \<noteq> 0"
  by (simp add: flag_bits)

lemma open_create_spec:
  assumes wf: "fs_wf m" and eq: "mem_OpenFile now name create_flags perm m = (Inr (PlainFile f), m1)"
  obtains p r where "resolveCreatePathLocked m (Resolve (fs_cwd m) name) 0 = Inr p"
    "fs_wf m1" "keeps m m1" "ref_at m1 p = Some r" "\<not> node_link m1 r"
    "f = \<lparr>mf_path = p, mf_node = r, mf_flag = create_flags, mf_offset = 0, mf_closed = False\<rparr>"
    "n_data (fs_heap m1 r) = []" "n_lazy (fs_heap m1 r) = None"
    "\<not> node_dir m1 r" "n_mode (fs_heap m1 r) AND ModeNamedPipe = 0"
proof -
  have pre: "open_preload name create_flags m = (Inr (), m)"
    by (simp add: open_preload_def create_flags_bits)
  from eq pre obtain p ref where loc: "open_locate name create_flags m = Inr (p, ref)"
    by (auto simp: mem_OpenFile_def split: sum.splits)
  then have c: "resolveCreatePathLocked m (Resolve (fs_cwd m) name) 0 = Inr p" and ref: "ref = ref_at m p"
    by (auto simp: open_locate_def Let_def create_flags_bits split: sum.splits)
  from eq pre loc obtain r m0 where mk: "open_make now create_flags perm p ref m = (Inr r, m0)"
    and fin: "open_finish now create_flags p r m0 = (Inr (PlainFile f), m1)"
    by (auto simp: mem_OpenFile_def split: sum.splits prod.splits)
  have m0: "fs_wf m0 \<and> keeps m m0 \<and> ref_at m0 p = Some r \<and> \<not> node_link m0 r"
  proof (cases ref)
    case None
    with new_slot_created [OF wf c] ref have slot: "new_slot m p" by simp
    note n = open_make_new [OF wf slot mk [unfolded None]]
    from n open_make_keeps [OF wf slot mk [unfolded None]] show ?thesis by (simp add: node_link_def)
  next
    case (Some r')
    with mk have "m0 = m" "r = r'" by (simp_all add: open_make_def create_flags_bits)
    moreover obtain cs where "\<not> node_link m r'"
      using open_locate_existing [OF wf loc [unfolded Some]] by metis
    ultimately show ?thesis using wf ref Some by simp
  qed
  from fin have nd: "\<not> node_dir m0 r" and np: "n_mode (fs_heap m0 r) AND ModeNamedPipe = 0"
    by (auto simp: open_finish_def Let_def node_dir_def split: if_splits prod.splits)
  let ?u = "\<lambda>n. n\<lparr>n_lazy := None, n_data := [], n_modTime := now\<rparr>"
  from fin nd np have m1: "m1 = update_node r ?u m0"
    and f: "f = \<lparr>mf_path = p, mf_node = r, mf_flag = create_flags, mf_offset = 0, mf_closed = False\<rparr>"
    by (simp_all add: open_finish_def Let_def node_dir_def create_flags_bits)
  have "fs_wf m1" unfolding m1 using m0 by (intro fs_wf_update_node) simp_all
  moreover have "keeps m m1" unfolding m1 using m0 keeps_trans [OF _ update_node_keeps [of ?u m0 r]] by simp
  ultimately show thesis using that [OF c _ _ _ _ f] m0 nd np
    by (simp add: m1 node_link_def node_dir_def)
qed

lemma write_fresh:
  assumes "canWrite (mf_flag f)" "mf_flag f AND O_APPEND = 0" "mf_offset f = 0" "\<not> mf_closed f"
    "\<not> node_dir m (mf_node f)" "n_data (fs_heap m (mf_node f)) = []" "n_lazy (fs_heap m (mf_node f)) = None"
  shows "mem_Write now d f m = (Inr (length d), f\<lparr>mf_offset := length d\<rparr>,
     update_node (mf_node f) (\<lambda>n. n\<lparr>n_data := d, n_modTime := now\<rparr>) m)"
  using assms
  by (simp add: mem_Write_def materializeNode_def isLazyFileNode_def node_dir_def Let_def growBytes_def copy_at_def)

lemma open_read:
  assumes wf: "fs_wf m" and res: "resolvePathLocked m name True False = Inr (p, Some r)"
    and r: "\<not> node_dir m r" "n_mode (fs_heap m r) AND ModeNamedPipe = 0" "n_lazy (fs_heap m r) = None"
  shows "mem_OpenFile now name O_RDONLY perm m =
     (Inr (PlainFile \<lparr>mf_path = p, mf_node = r, mf_flag = O_RDONLY, mf_offset = 0, mf_closed = False\<rparr>), m)"
proof -
  have "materializePath name True False m = (Inr p, m)"
    using res r by (simp add: materializePath_def isLazyFileNode_def)
  then have "open_preload name O_RDONLY m = (Inr (), m)"
    using excl_create_bits by (auto simp: open_preload_def rdonly_bits)
  moreover have "open_locate name O_RDONLY m = Inr (p, Some r)"
    using res by (simp add: open_locate_def Let_def rdonly_bits)
  moreover have "open_make now O_RDONLY perm p (Some r) m = (Inr r, m)"
    by (simp add: open_make_def rdonly_bits)
  ultimately show ?thesis
    using r by (simp add: mem_OpenFile_def open_finish_def Let_def node_dir_def rdonly_bits)
qed

text \<open>
  (C5) Write then read: bytes written through a handle opened with
  \<open>O_CREATE|O_WRONLY|O_TRUNC\<close> are what a later open of the same name reads, whether
  the name was new or existing, plain or leading through links (also dangling ones).
\<close>

theorem write_then_read:
  assumes wf: "fs_wf m" and op: "mem_OpenFile now name create_flags perm m = (Inr (PlainFile f), m1)"
    and ne: "d \<noteq> []" and len: "length d \<le> n"
  shows "\<exists>f' m2 g. mem_Write now' d f m1 = (Inr (length d), f', m2) \<and>
     mem_OpenFile now'' name O_RDONLY 0 m2 = (Inr (PlainFile g), m2) \<and>
     mem_Read n g m2 = (Inr d, g\<lparr>mf_offset := length d\<rparr>, m2)"
proof -
  from wf op obtain p r where c: "resolveCreatePathLocked m (Resolve (fs_cwd m) name) 0 = Inr p"
    and wf1: "fs_wf m1" and k1: "keeps m m1" and r1: "ref_at m1 p = Some r" "\<not> node_link m1 r"
    and f: "f = \<lparr>mf_path = p, mf_node = r, mf_flag = create_flags, mf_offset = 0, mf_closed = False\<rparr>"
    and d1: "n_data (fs_heap m1 r) = []" "n_lazy (fs_heap m1 r) = None" "\<not> node_dir m1 r"
      "n_mode (fs_heap m1 r) AND ModeNamedPipe = 0"
    by (rule open_create_spec)
  define m2 where "m2 = update_node r (\<lambda>n. n\<lparr>n_data := d, n_modTime := now'\<rparr>) m1"
  have w: "mem_Write now' d f m1 = (Inr (length d), f\<lparr>mf_offset := length d\<rparr>, m2)"
    unfolding m2_def using write_fresh [of f m1 now' d] f d1 by (simp add: create_flags_bits)
  have wf2: "fs_wf m2" unfolding m2_def using wf1 by (intro fs_wf_update_node) simp_all
  have "keeps m1 m2" unfolding m2_def by (rule update_node_keeps) simp_all
  with k1 have k2: "keeps m m2" by (rule keeps_trans)
  have n2: "n_data (fs_heap m2 r) = d" "n_lazy (fs_heap m2 r) = None" "\<not> node_dir m2 r" "\<not> node_link m2 r"
    "n_mode (fs_heap m2 r) AND ModeNamedPipe = 0" "ref_at m2 p = Some r"
    using d1 r1 by (simp_all add: m2_def node_dir_def node_link_def)
  from resolve_created [OF wf wf2 k2 c n2(6,4)] k2
  have res: "resolvePathLocked m2 name True False = Inr (p, Some r)"
    by (simp add: resolvePathLocked_def keeps_def)
  define g where "g = \<lparr>mf_path = p, mf_node = r, mf_flag = O_RDONLY, mf_offset = 0, mf_closed = False\<rparr>"
  have o: "mem_OpenFile now'' name O_RDONLY 0 m2 = (Inr (PlainFile g), m2)"
    unfolding g_def by (rule open_read [OF wf2 res n2(3,5,2)])
  have "mem_Read n g m2 = (Inr d, g\<lparr>mf_offset := length d\<rparr>, m2)"
    using n2 ne len
    by (simp add: mem_Read_def g_def rdonly_bits materializeNode_def isLazyFileNode_def node_dir_def Let_def)
  with w o show ?thesis by blast
qed

definition opened_x :: "(go_error + handle) \<times> MemoryFS" where
  "opened_x = mem_OpenFile 5 ''/x'' create_flags 0 (NewMemory 1)"

theorem write_then_read_witness:
  "\<exists>f f' m2 g. fst opened_x = Inr (PlainFile f) \<and>
     mem_Write 6 ''ab'' f (snd opened_x) = (Inr 2, f', m2) \<and>
     mem_OpenFile 7 ''/x'' O_RDONLY 0 m2 = (Inr (PlainFile g), m2) \<and>
     mem_Read 9 g m2 = (Inr ''ab'', g\<lparr>mf_offset := 2\<rparr>, m2)"
proof -
  have "case fst opened_x of Inr (PlainFile f) \<Rightarrow> True | _ \<Rightarrow> False"
    by code_simp
  then obtain f where f: "fst opened_x = Inr (PlainFile f)"
    by (auto split: sum.splits handle.splits)
  then have "mem_OpenFile 5 ''/x'' create_flags 0 (NewMemory 1) = (Inr (PlainFile f), snd opened_x)"
    by (simp add: opened_x_def prod_eq_iff)
  from write_then_read [OF NewMemory_wf this, of "''ab''" 9 6 7] f show ?thesis
    by (auto simp: numeral_2_eq_2)
qed

end
