(* ===== verification/MemoryFS_Tree.thy ===== *)
theory MemoryFS_Tree
  imports MemoryFS_Props
begin

text \<open>
  What the operations that change the tree of the in-memory file system do to every
  path: removal, renaming, hard links, directory creation and listing.
\<close>

section \<open>Removal and renaming\<close>

text \<open>
  (C20) \<open>Remove\<close> deletes exactly the subtree of the resolved entry: everything below it
  is gone, every other path keeps its node, mode and contents, and without the recursive
  flag only an entry with nothing below it is deleted.
\<close>

theorem Remove_exact:
  assumes wf: "fs_wf m" and eq: "mem_Remove name recursive m = (Inr (), m')"
  shows "\<exists>cs r. valid_comps cs \<and> cs \<noteq> [] \<and> at m cs = Some r \<and>
     resolvePathLocked m name False False = Inr (render cs, Some r) \<and>
     (\<not> recursive \<longrightarrow> (\<forall>c. valid_comp c \<longrightarrow> at m (cs @ [c]) = None)) \<and>
     (\<forall>ds. valid_comps ds \<longrightarrow> at m' ds = (if prefix cs ds then None else at m ds)) \<and>
     (\<forall>ds x. valid_comps ds \<longrightarrow> at m' ds = Some x \<longrightarrow>
        n_mode (fs_heap m' x) = n_mode (fs_heap m x) \<and> n_data (fs_heap m' x) = n_data (fs_heap m x))"
proof -
  from mem_Remove_result [OF wf eq] obtain p c r where
    res: "resolvePathLocked m name False False = Inr (render (p @ [c]), Some r)"
    and v: "valid_comps (p @ [c])" and ex: "at m (p @ [c]) = Some r"
    and m': "m' = del_child (render p) c (drop_subtree (render (p @ [c])) m)"
    and rc: "recursive \<or> \<not> node_dir m r \<or> n_children (fs_heap m r) = {}" by metis
  note R = remove_wf [OF wf v ex m']
  have "at m ((p @ [c]) @ [e]) = None" if "\<not> recursive" "valid_comp e" for e
  proof (cases "node_dir m r")
    case True
    with rc that wf_children [OF wf v ex] show ?thesis by auto
  next
    case False
    then have "\<not> is_dir m (p @ [c])" using ex by (simp add: is_dir_def)
    then show ?thesis using wf_below_not_dir [OF wf, of "p @ [c]" e] v that by simp
  qed
  moreover have "n_mode (fs_heap m' x) = n_mode (fs_heap m x) \<and> n_data (fs_heap m' x) = n_data (fs_heap m x)"
    if "valid_comps ds" "at m' ds = Some x" for ds x
    using R(3) [OF that] by simp
  ultimately show ?thesis using res v ex R(2) by (intro exI [of _ "p @ [c]"]) auto
qed

definition removed_de :: "(go_error + unit) \<times> MemoryFS" where
  "removed_de = mem_Remove ''/d'' True (snd (mem_MkdirAll 5 ''/d/e'' 0 (NewMemory 1)))"

theorem Remove_exact_witness:
  "fs_wf (snd (mem_MkdirAll 5 ''/d/e'' 0 (NewMemory 1))) \<and> fst removed_de = Inr () \<and>
   (\<exists>cs r. valid_comps cs \<and> cs \<noteq> [] \<and> at (snd (mem_MkdirAll 5 ''/d/e'' 0 (NewMemory 1))) cs = Some r \<and>
     at (snd removed_de) cs = None)"
proof -
  have wf: "fs_wf (snd (mem_MkdirAll 5 ''/d/e'' 0 (NewMemory 1)))"
    by (rule mem_MkdirAll_wf [OF NewMemory_wf surjective_pairing])
  have ok: "fst removed_de = Inr ()" by code_simp
  then have "mem_Remove ''/d'' True (snd (mem_MkdirAll 5 ''/d/e'' 0 (NewMemory 1))) = (Inr (), snd removed_de)"
    by (simp add: removed_de_def prod_eq_iff)
  from Remove_exact [OF wf this] wf ok show ?thesis by auto
qed




text \<open>
  An open file outlives its name: after its entry, or a directory above it, has
  been removed, a read through the handle returns what it would have returned before.
\<close>

theorem Remove_keeps_open_file:
  assumes "fs_wf m" "mem_Remove name recursive m = (Inr (), m')"
  shows "fst (mem_Read n f m') = fst (mem_Read n f m) \<and> fst (snd (mem_Read n f m')) = fst (snd (mem_Read n f m))"
proof -
  from mem_Remove_result [OF assms] obtain p c where
    "m' = del_child (render p) c (drop_subtree (render (p @ [c])) m)" by metis
  then obtain X where h: "fs_heap m' (mf_node f) = (fs_heap m (mf_node f))\<lparr>n_children := X\<rparr>"
    using child_ops_content(1) [of "render p" c "drop_subtree (render (p @ [c])) m" "mf_node f"] by auto
  then show ?thesis
    by (auto simp: mem_Read_def materializeNode_def isLazyFileNode_def Let_def
        split: option.split sum.split)
qed

theorem Remove_keeps_open_file_witness:
  "\<exists>f m2. fst opened_x = Inr (PlainFile f) \<and> mem_Remove ''/x'' False (snd opened_x) = (Inr (), m2) \<and>
     fst (mem_Read 3 f m2) = fst (mem_Read 3 f (snd opened_x))"
proof -
  have "case fst opened_x of Inr (PlainFile f) \<Rightarrow> True | _ \<Rightarrow> False" by code_simp
  then obtain f where f: "fst opened_x = Inr (PlainFile f)" by (auto split: sum.splits handle.splits)
  have wf: "fs_wf (snd opened_x)"
    unfolding opened_x_def by (rule mem_OpenFile_wf [OF NewMemory_wf surjective_pairing])
  have "fst (mem_Remove ''/x'' False (snd opened_x)) = Inr ()" by code_simp
  then obtain m2 where "mem_Remove ''/x'' False (snd opened_x) = (Inr (), m2)" by (metis prod.collapse)
  with Remove_keeps_open_file [OF wf this] f show ?thesis by blast
qed

section \<open>Links\<close>

lemma mem_Link_result:
  assumes wf: "fs_wf m" and eq: "mem_Link now oldName newName m = (Inr (), m')"
  obtains os r ds c m1 where "resolvePathLocked m oldName False False = Inr (render os, Some r)"
    "valid_comps os" "at m os = Some r" "\<not> node_dir m r"
    "valid_comps (ds @ [c])" "nolink m ds" "at m (ds @ [c]) = None"
    "ensureParentLocked now ''link'' (render (ds @ [c])) m = (Inr (), m1)"
    "m' = update_node r (\<lambda>n. n\<lparr>n_modTime := now\<rparr>) (add_child (render ds) c (set_ref (render (ds @ [c])) r m1))"
proof -
  from eq obtain old r p m1 where res: "resolvePathLocked m oldName False False = Inr (old, Some r)"
    and nd: "\<not> node_dir m r"
    and found: "resolvePathLocked m newName False True = Inr (p, None) \<or>
        (\<exists>par. resolveCreatePathLocked m (parentDir (Resolve (fs_cwd m) newName)) 0 = Inr par \<and>
          p = Resolve par (path_Base (Resolve (fs_cwd m) newName)) \<and> ref_at m p = None)"
    and ep: "ensureParentLocked now ''link'' p m = (Inr (), m1)"
    and m': "m' = update_node r (\<lambda>n. n\<lparr>n_modTime := now\<rparr>)
          (add_child (parentDir p) (path_Base p) (set_ref p r m1))"
    by (auto simp: mem_Link_def Let_def node_dir_def
        split: sum.splits prod.splits option.splits if_splits)
  have "new_slot m p"
    using found new_slot_resolved [OF wf] new_slot_in_parent [OF wf Resolve_clean] by blast
  then obtain ds c where n: "p = render (ds @ [c])" "valid_comps (ds @ [c])" "nolink m ds"
    "at m (ds @ [c]) = None" by (rule new_slotE)
  from resolvePathLocked_result [OF wf res] obtain os where
    "valid_comps os" "old = render os" "at m os = Some r" by metis
  with that res nd n ep m' show thesis by simp
qed

text \<open>
  A hard link is another name of the same node: after \<open>Link\<close> both names hold the
  node of the old one, so that whatever changes the node is seen under both, and no other
  existing path is redirected.
\<close>

theorem Link_shares_node:
  assumes wf: "fs_wf m" and eq: "mem_Link now oldName newName m = (Inr (), m')"
  shows "\<exists>os ns r. valid_comps os \<and> valid_comps ns \<and> at m ns = None \<and>
     resolvePathLocked m oldName False False = Inr (render os, Some r) \<and> \<not> node_dir m r \<and>
     at m' os = Some r \<and> at m' ns = Some r \<and>
     (\<forall>qs x. valid_comps qs \<longrightarrow> at m qs = Some x \<longrightarrow> at m' qs = Some x) \<and>
     (\<forall>f. node_at (update_node r f m') (render ns) = Some (f (fs_heap m' r)) \<and>
          node_at (update_node r f m') (render os) = Some (f (fs_heap m' r)))"
proof -
  from mem_Link_result [OF assms] obtain os r ds c m1 where
    res: "resolvePathLocked m oldName False False = Inr (render os, Some r)"
    and os: "valid_comps os" "at m os = Some r" "\<not> node_dir m r"
    and n: "valid_comps (ds @ [c])" "nolink m ds" "at m (ds @ [c]) = None"
    and ep: "ensureParentLocked now ''link'' (render (ds @ [c])) m = (Inr (), m1)"
    and m': "m' = update_node r (\<lambda>n. n\<lparr>n_modTime := now\<rparr>)
        (add_child (render ds) c (set_ref (render (ds @ [c])) r m1))" by metis
  note e = ensureParentLocked_spec [OF wf n(1-3) ep]
  have at': "at m' qs = (if qs = ds @ [c] then Some r else at m1 qs)" if "valid_comps qs" for qs
  proof -
    have "at m' qs = at (set_ref (render (ds @ [c])) r m1) qs"
      unfolding m' by (simp add: at_def ref_at_def)
    with that n(1) show ?thesis by simp
  qed
  have keep: "at m' qs = Some x" if "valid_comps qs" "at m qs = Some x" for qs x
    using at' [OF that(1)] extendsD(1) [OF e(2) that] n(3) that(2) by auto
  have "at m' (ds @ [c]) = Some r" using at' [OF n(1)] by simp
  with keep [OF os(1,2)] keep res os n show ?thesis
    by (intro exI [of _ os] exI [of _ "ds @ [c]"] exI [of _ r]) (simp add: node_at_def at_def)
qed

theorem Link_shares_node_witness:
  "\<exists>m' os ns r. mem_Link 9 ''/x'' ''/y'' (snd opened_x) = (Inr (), m') \<and>
     valid_comps os \<and> valid_comps ns \<and> at m' os = Some r \<and> at m' ns = Some r"
proof -
  have wf: "fs_wf (snd opened_x)"
    unfolding opened_x_def by (rule mem_OpenFile_wf [OF NewMemory_wf surjective_pairing])
  have "fst (mem_Link 9 ''/x'' ''/y'' (snd opened_x)) = Inr ()" by code_simp
  then obtain m2 where "mem_Link 9 ''/x'' ''/y'' (snd opened_x) = (Inr (), m2)" by (metis prod.collapse)
  with Link_shares_node [OF wf this] show ?thesis by blast
qed

section \<open>Directories\<close>

text \<open>
  \<open>MkdirAll\<close> succeeds whenever every existing entry on the way is a directory; then
  the whole path exists as directories and no other path is touched.
\<close>

theorem MkdirAll_creates:
  assumes wf: "fs_wf m"
    and dirs: "\<And>es r. prefix es (abs_comps (Resolve (fs_cwd m) name)) \<Longrightarrow> at m es = Some r \<Longrightarrow> node_dir m r"
  shows "\<exists>m'. mem_MkdirAll now name perm m = (Inr (), m') \<and>
     (\<forall>es. prefix es (abs_comps (Resolve (fs_cwd m) name)) \<longrightarrow> is_dir m' es) \<and>
     (\<forall>es. valid_comps es \<longrightarrow> \<not> prefix es (abs_comps (Resolve (fs_cwd m) name)) \<longrightarrow> at m' es = at m es)"
proof -
  let ?cs = "abs_comps (Resolve (fs_cwd m) name)"
  obtain m' where mk: "mkdirAllLocked now (Resolve (fs_cwd m) name) perm m = (Inr (), m')"
    by (rule mkdirAllLocked_ok [OF wf, of "Resolve (fs_cwd m) name" now perm]) (auto intro: dirs)
  note s = mkdirAllLocked_spec [OF wf mk]
  have nl: "nolink m ?cs"
    unfolding nolink_def using dirs wf_dir_not_link [OF wf valid_comps_prefix [OF abs_comps_valid]] by blast
  from s(3) [OF nl refl] obtain r where r: "at m' ?cs = Some r" "node_dir m' r" by (rule is_dirE)
  have "is_dir m' es" if "prefix es ?cs" for es
  proof (cases "es = ?cs")
    case True
    with r show ?thesis by (simp add: is_dir_def)
  next
    case False
    with that obtain zs where "?cs = es @ zs" "zs \<noteq> []" by (auto simp: prefix_def)
    with wf_prefix_dir [OF s(1), of es zs r] r(1) abs_comps_valid show ?thesis by metis
  qed
  moreover have "at m' es = at m es" if "valid_comps es" "\<not> prefix es ?cs" for es
    using s(4) [OF nl that(1)] extendsD(1) [OF s(2) that(1)] that(2)
    by (cases "at m es"; cases "at m' es") auto
  ultimately show ?thesis using mk by (auto simp: mem_MkdirAll_def)
qed

theorem MkdirAll_creates_witness:
  "\<exists>m'. mem_MkdirAll 4 ''/a/b'' 0 (NewMemory 1) = (Inr (), m') \<and> is_dir m' [''a'', ''b''] \<and> is_dir m' [''a'']"
proof -
  have a: "abs_comps (Resolve (fs_cwd (NewMemory 1)) ''/a/b'') = [''a'', ''b'']" by code_simp
  have "node_dir (NewMemory 1) r" for r
    by (simp add: NewMemory_def blank_node_def node_dir_def mode_IsDir_def mode_bits)
  then have "\<exists>m'. mem_MkdirAll 4 ''/a/b'' 0 (NewMemory 1) = (Inr (), m') \<and>
     (\<forall>es. prefix es (abs_comps (Resolve (fs_cwd (NewMemory 1)) ''/a/b'')) \<longrightarrow> is_dir m' es) \<and>
     (\<forall>es. valid_comps es \<longrightarrow> \<not> prefix es (abs_comps (Resolve (fs_cwd (NewMemory 1)) ''/a/b'')) \<longrightarrow>
        at m' es = at (NewMemory 1) es)"
    by (intro MkdirAll_creates NewMemory_wf)
  then show ?thesis unfolding a by (auto simp: prefix_def)
qed

lemma finite_children: "finite {c. at m (cs @ [c]) \<noteq> None}"
proof -
  have "(\<lambda>c. render (cs @ [c])) ` {c. at m (cs @ [c]) \<noteq> None} \<subseteq> fst ` set (fs_nodes m)"
    by (auto simp: at_def ref_at_def dest: map_of_SomeD intro: rev_image_eqI)
  moreover have "inj_on (\<lambda>c. render (cs @ [c])) A" for A
    by (auto simp: inj_on_def render_def join_with_snoc split: if_splits)
  ultimately show ?thesis by (meson List.finite_set finite_imageI finite_subset finite_imageD)
qed

text \<open>
  \<open>ReadDir\<close> lists exactly the entries of the resolved directory, sorted by name
  and without repetition, each with the mode of its node.
\<close>

theorem ReadDir_lists_children:
  assumes wf: "fs_wf m" and eq: "mem_ReadDir name m = Inr es"
  shows "\<exists>cs. valid_comps cs \<and> is_dir m cs \<and> mem_Realpath name m = Inr (render cs) \<and>
     sorted (map de_name es) \<and> distinct (map de_name es) \<and>
     set (map de_name es) = {c. valid_comp c \<and> at m (cs @ [c]) \<noteq> None} \<and>
     (\<forall>e \<in> set es. \<exists>r. at m (cs @ [de_name e]) = Some r \<and> de_mode e = n_mode (fs_heap m r) \<and>
        de_path e = render (cs @ [de_name e]))"
proof -
  from eq obtain p r where res: "resolvePathLocked m name True False = Inr (p, Some r)"
    and nd: "node_dir m r"
    and es: "es = map (\<lambda>child. \<lparr>de_name = child, de_path = joinClean p child,
        de_mode = (case node_at m (joinClean p child) of None \<Rightarrow> 0 | Some n \<Rightarrow> n_mode n)\<rparr>)
        (sorted_list_of_set (n_children (fs_heap m r)))"
    by (auto simp: mem_ReadDir_def node_dir_def split: sum.splits prod.splits option.splits if_splits)
  from resolvePathLocked_result [OF wf res] obtain cs where
    cs: "valid_comps cs" "p = render cs" "at m cs = Some r" by metis
  have ch: "n_children (fs_heap m r) = {c. valid_comp c \<and> at m (cs @ [c]) \<noteq> None}"
    by (rule wf_children [OF wf cs(1,3) nd])
  have fin: "finite (n_children (fs_heap m r))"
    unfolding ch by (rule finite_subset [OF _ finite_children [of m cs]]) auto
  have names: "map de_name es = sorted_list_of_set (n_children (fs_heap m r))"
    by (simp add: es comp_def)
  have "\<exists>r. at m (cs @ [de_name e]) = Some r \<and> de_mode e = n_mode (fs_heap m r) \<and>
      de_path e = render (cs @ [de_name e])" if "e \<in> set es" for e
  proof -
    from that fin obtain c where c: "c \<in> n_children (fs_heap m r)"
      and e: "e = \<lparr>de_name = c, de_path = joinClean p c,
        de_mode = (case node_at m (joinClean p c) of None \<Rightarrow> 0 | Some n \<Rightarrow> n_mode n)\<rparr>"
      by (auto simp: es)
    from c ch obtain x where "at m (cs @ [c]) = Some x" by auto
    moreover have "joinClean p c = render (cs @ [c])" using cs by (simp add: render_snoc)
    ultimately show ?thesis by (simp add: e node_at_def at_def)
  qed
  moreover have "mem_Realpath name m = Inr (render cs)" using res cs by (simp add: mem_Realpath_def)
  ultimately show ?thesis using cs nd fin names ch
    by (intro exI [of _ cs]) (simp add: is_dir_def)
qed

theorem ReadDir_lists_children_witness:
  "\<exists>es cs. mem_ReadDir ''/d'' (snd (mem_MkdirAll 5 ''/d/e'' 0 (NewMemory 1))) = Inr es \<and>
     sorted (map de_name es) \<and> valid_comps cs \<and>
     set (map de_name es) = {c. valid_comp c \<and> at (snd (mem_MkdirAll 5 ''/d/e'' 0 (NewMemory 1))) (cs @ [c]) \<noteq> None}"
proof -
  have wf: "fs_wf (snd (mem_MkdirAll 5 ''/d/e'' 0 (NewMemory 1)))"
    by (rule mem_MkdirAll_wf [OF NewMemory_wf surjective_pairing])
  have "is_ok (mem_ReadDir ''/d'' (snd (mem_MkdirAll 5 ''/d/e'' 0 (NewMemory 1))))" by code_simp
  then obtain es where es: "mem_ReadDir ''/d'' (snd (mem_MkdirAll 5 ''/d/e'' 0 (NewMemory 1))) = Inr es"
    by (auto simp: is_ok_iff)
  with ReadDir_lists_children [OF wf es] show ?thesis by blast
qed

end
