(* ===== verification/MemoryFS_Edge.thy ===== *)
theory MemoryFS_Edge
  imports MemoryFS_Tree
begin

text \<open>
  The behaviours of the in-memory file system that are easy to get wrong: exclusive
  creation, link cycles, permission bits, writes at an offset, seeding in an arbitrary
  order, cloning of hard links, and links followed on the way to a final link.
\<close>

section \<open>Exclusive creation\<close>

lemma exclusive_bits:
  assumes "flag AND (O_CREATE OR O_EXCL) = O_CREATE OR O_EXCL"
  shows "flag AND O_CREATE \<noteq> 0" "flag AND O_EXCL \<noteq> 0"
proof -
  have "flag AND O_CREATE = (flag AND (O_CREATE OR O_EXCL)) AND O_CREATE"
    "flag AND O_EXCL = (flag AND (O_CREATE OR O_EXCL)) AND O_EXCL"
    by (simp_all add: flag_bits and.assoc)
  with assms show "flag AND O_CREATE \<noteq> 0" "flag AND O_EXCL \<noteq> 0" by (simp_all add: flag_bits)
qed

text \<open>
  \<open>O_CREATE|O_EXCL\<close> never opens an existing entry: an existing final entry, also a
  dangling symbolic link, makes the call fail with \<open>ErrExist\<close> and changes nothing; a
  successful call has created the entry its handle refers to.
\<close>

theorem open_exclusive:
  assumes wf: "fs_wf m" and ex: "flag AND (O_CREATE OR O_EXCL) = O_CREATE OR O_EXCL"
  shows "(\<forall>p r. resolvePathLocked m name False True = Inr (p, Some r) \<longrightarrow>
        mem_OpenFile now name flag perm m = (Inl (PathError ''open'' p (Errno ErrExist)), m)) \<and>
     (\<forall>f m'. mem_OpenFile now name flag perm m = (Inr (PlainFile f), m') \<longrightarrow>
        ref_at m (mf_path f) = None \<and> ref_at m' (mf_path f) = Some (mf_node f))"
proof -
  note b = exclusive_bits [OF ex]
  have pre: "open_preload name flag m = (Inr (), m)" by (simp add: open_preload_def ex)
  have "mem_OpenFile now name flag perm m = (Inl (PathError ''open'' p (Errno ErrExist)), m)"
    if "resolvePathLocked m name False True = Inr (p, Some r)" for p r
    using that pre b by (simp add: mem_OpenFile_def open_locate_def Let_def)
  moreover have "ref_at m (mf_path f) = None \<and> ref_at m' (mf_path f) = Some (mf_node f)"
    if op: "mem_OpenFile now name flag perm m = (Inr (PlainFile f), m')" for f m'
  proof -
    from op pre obtain p ref r m1 where loc: "open_locate name flag m = Inr (p, ref)"
      and mk: "open_make now flag perm p ref m = (Inr r, m1)"
      and fin: "open_finish now flag p r m1 = (Inr (PlainFile f), m')"
      by (auto simp: mem_OpenFile_def split: sum.splits prod.splits)
    have none: "ref = None" using mk b by (auto simp: open_make_def split: option.splits)
    have slot: "new_slot m p" using open_locate_new [OF wf loc [unfolded none]] .
    then have "ref_at m p = None" by (auto simp: new_slot_def at_def)
    moreover have "ref_at m' p = ref_at m1 p" "mf_path f = p" "mf_node f = r"
      using fin by (auto simp: open_finish_def Let_def split: if_splits prod.splits)
    ultimately show ?thesis using open_make_new(2) [OF wf slot mk [unfolded none]] by simp
  qed
  ultimately show ?thesis by blast
qed

theorem open_exclusive_witness:
  "\<exists>m p. fs_wf m \<and> mem_OpenFile 9 ''/l'' (O_CREATE OR O_EXCL) 0 m =
     (Inl (PathError ''open'' p (Errno ErrExist)), m)"
proof -
  let ?m = "snd (mem_Symlink 5 ''/gone'' ''/l'' (NewMemory 1))"
  have wf: "fs_wf ?m" by (rule mem_Symlink_wf [OF NewMemory_wf surjective_pairing])
  have "case resolvePathLocked ?m ''/l'' False True of Inr (p, Some r) \<Rightarrow> True | _ \<Rightarrow> False" by code_simp
  then obtain p r where "resolvePathLocked ?m ''/l'' False True = Inr (p, Some r)"
    by (auto split: sum.splits prod.splits option.splits)
  with open_exclusive [OF wf, of "O_CREATE OR O_EXCL" "''/l''" 9 0] wf show ?thesis by fastforce
qed

section \<open>Cycles of links\<close>

lemma resolveAbs_loop_final_link:
  assumes "valid_comps (ds @ cs @ [c])" "fs_wf m" "at m (ds @ cs @ [c]) = Some r" "node_link m r"
  shows "resolveAbs_loop m True am (render ds) (join_with slash (cs @ [c])) =
     Restart (Resolve (render (ds @ cs)) (n_target (fs_heap m r)))"
  using assms
proof (induction cs arbitrary: ds)
  case Nil
  then show ?case using resolveAbs_loop_Cons [of ds c "[]" m True am] by simp
next
  case (Cons e cs)
  have d: "is_dir m (ds @ [e])"
    using wf_prefix_dir [OF Cons.prems(2), of "ds @ [e]" "cs @ [c]" r] Cons.prems by simp
  then obtain x where x: "at m (ds @ [e]) = Some x" "node_dir m x" by (rule is_dirE)
  have "\<not> node_link m x" using wf_dir_not_link [OF Cons.prems(2) _ x] Cons.prems(1) by simp
  with Cons x resolveAbs_loop_Cons [of ds e "cs @ [c]" m True am] show ?case by simp
qed

lemma resolve_self_link:
  assumes wf: "fs_wf m" and v: "valid_comps (cs @ [c])" and r: "at m (cs @ [c]) = Some r" "node_link m r"
    and self: "Resolve (render cs) (n_target (fs_heap m r)) = render (cs @ [c])"
  shows "resolveAbsLocked m (render (cs @ [c])) True am d = Inl (Errno ErrTooManySymlinks)"
proof (induction "Suc maxSymlinkDepth - d" arbitrary: d)
  case 0
  then show ?case by (simp add: resolveAbsLocked.simps)
next
  case (Suc k)
  then have "\<not> maxSymlinkDepth < d" by simp
  moreover have "resolveAbsLocked m (render (cs @ [c])) True am (Suc d) = Inl (Errno ErrTooManySymlinks)"
    using Suc by (intro Suc.hyps(1)) simp
  moreover have "resolveAbs_loop m True am ''/'' (tl (render (cs @ [c]))) = Restart (render (cs @ [c]))"
    using resolveAbs_loop_final_link [of "[]" cs c m r am] v wf r self by (simp add: tl_render)
  moreover have "Clean (render (cs @ [c])) = render (cs @ [c])" "render (cs @ [c]) \<noteq> ''/''"
    using v by simp_all
  ultimately show ?case by (subst resolveAbsLocked.simps) simp
qed

text \<open>
  Resolution of a symbolic link that leads to itself ends, with the error for too
  many links, for reading and for every operation that follows the final component.
\<close>

theorem self_link_error:
  assumes "fs_wf m" "valid_comps (cs @ [c])" "at m (cs @ [c]) = Some r" "node_link m r"
    "Resolve (render cs) (n_target (fs_heap m r)) = render (cs @ [c])"
  shows "resolvePathLocked m (render (cs @ [c])) True am = Inl (Errno ErrTooManySymlinks)"
proof -
  have "Resolve (fs_cwd m) (render (cs @ [c])) = render (cs @ [c])"
    using assms(2) Resolve_abs [of "render (cs @ [c])" "fs_cwd m"]
    by (simp add: HasPrefix_def) (simp add: render_def)
  with resolve_self_link [OF assms] show ?thesis by (simp add: resolvePathLocked_def)
qed

theorem self_link_error_witness:
  "\<exists>m. resolvePathLocked m ''/l'' True False = Inl (Errno ErrTooManySymlinks)"
proof -
  let ?m = "snd (mem_Symlink 5 ''l'' ''/l'' (NewMemory 1))"
  have wf: "fs_wf ?m" by (rule mem_Symlink_wf [OF NewMemory_wf surjective_pairing])
  have c: "at ?m [''l''] = Some 1" "node_link ?m 1"
    "Resolve ''/'' (n_target (fs_heap ?m 1)) = render [''l'']" "valid_comps [''l'']" "render [''l''] = ''/l''"
    by code_simp+
  from self_link_error [of ?m "[]" "''l''" 1 False] wf c show ?thesis by auto
qed

section \<open>Permission bits\<close>

text \<open>
  \<open>Chmod\<close> replaces exactly the permission, setuid, setgid and sticky bits of the
  node the name resolves to: a caller cannot change the type of a node, and no other
  node, no name and no content changes.
\<close>

theorem Chmod_keeps_type:
  assumes "mem_Chmod now name mode m = (Inr (), m')"
  shows "\<exists>p r. resolvePathLocked m name True False = Inr (p, Some r) \<and>
     n_mode (fs_heap m' r) AND storedPermBits = mode AND storedPermBits \<and>
     n_mode (fs_heap m' r) AND NOT storedPermBits = n_mode (fs_heap m r) AND NOT storedPermBits \<and>
     n_data (fs_heap m' r) = n_data (fs_heap m r) \<and>
     (\<forall>x. x \<noteq> r \<longrightarrow> fs_heap m' x = fs_heap m x) \<and> fs_nodes m' = fs_nodes m"
proof -
  have "(a AND NOT s OR b AND s) AND s = b AND s" "(a AND NOT s OR b AND s) AND NOT s = a AND NOT s"
    for a b s :: FileMode
    by (auto intro: bit_eqI simp: bit_simps)
  with assms show ?thesis
    by (auto simp: mem_Chmod_def on_node_def split: sum.splits prod.splits option.splits)
qed

theorem Chmod_keeps_type_witness:
  "\<exists>m'. mem_Chmod 7 ''/'' 0xFFFFFFFF (NewMemory 1) = (Inr (), m') \<and>
     n_mode (fs_heap m' 0) AND NOT storedPermBits = n_mode (fs_heap (NewMemory 1) 0) AND NOT storedPermBits"
proof -
  have "fst (mem_Chmod 7 ''/'' 0xFFFFFFFF (NewMemory 1)) = Inr ()" by code_simp
  then obtain m' where m': "mem_Chmod 7 ''/'' 0xFFFFFFFF (NewMemory 1) = (Inr (), m')" by (metis prod.collapse)
  have "resolvePathLocked (NewMemory 1) ''/'' True False = Inr (''/'', Some 0)" by code_simp
  with Chmod_keeps_type [OF m'] m' show ?thesis by auto
qed

section \<open>Writing at an offset\<close>

lemma copy_at_nth:
  assumes "off + length p \<le> length d" "i < length d"
  shows "copy_at d off p ! i = (if off \<le> i \<and> i < off + length p then p ! (i - off) else d ! i)"
  using assms by (auto simp: copy_at_def nth_append min_def)

lemma copy_at_length: "off + length p \<le> length d \<Longrightarrow> length (copy_at d off p) = length d"
  by (simp add: copy_at_def)

text \<open>
  \<open>Write\<close> stores the bytes at the handle's offset (at the end of the file in
  append mode), keeps every byte outside that range, fills a gap before the offset with
  zero bytes, and moves the offset past what was written.
\<close>

theorem Write_stores:
  assumes "canWrite (mf_flag f)" "\<not> mf_closed f" "\<not> node_dir m (mf_node f)" "n_lazy (fs_heap m (mf_node f)) = None"
  defines "old \<equiv> n_data (fs_heap m (mf_node f))"
    and "off \<equiv> (if mf_flag f AND O_APPEND \<noteq> 0 then length (n_data (fs_heap m (mf_node f))) else mf_offset f)"
  shows "\<exists>new m'. mem_Write now p f m = (Inr (length p), f\<lparr>mf_offset := off + length p\<rparr>, m') \<and>
     n_data (fs_heap m' (mf_node f)) = new \<and> length new = max (length old) (off + length p) \<and>
     (\<forall>i < length p. new ! (off + i) = p ! i) \<and>
     (\<forall>i < length new. i < off \<or> off + length p \<le> i \<longrightarrow>
        new ! i = (if i < length old then old ! i else CHR 0x00)) \<and>
     (\<forall>x. x \<noteq> mf_node f \<longrightarrow> fs_heap m' x = fs_heap m x) \<and> fs_nodes m' = fs_nodes m"
proof -
  define d where "d = (if length old < off + length p then growBytes old (off + length p) else old)"
  have len: "length d = max (length old) (off + length p)" by (simp add: d_def growBytes_def)
  have dn: "d ! i = (if i < length old then old ! i else CHR 0x00)" if "i < length d" for i
    using that by (auto simp: d_def growBytes_def nth_append split: if_splits)
  have le: "off + length p \<le> length d" by (simp add: len)
  have "mem_Write now p f m = (Inr (length p), f\<lparr>mf_offset := off + length p\<rparr>,
      update_node (mf_node f) (\<lambda>n. n\<lparr>n_data := copy_at d off p, n_modTime := now\<rparr>) m)"
    using assms(1-4) unfolding d_def old_def off_def
    by (simp add: mem_Write_def materializeNode_def isLazyFileNode_def node_dir_def Let_def)
  moreover have "length (copy_at d off p) = max (length old) (off + length p)"
    using copy_at_length [OF le] len by simp
  moreover have "\<forall>i < length p. copy_at d off p ! (off + i) = p ! i"
    using copy_at_nth [OF le] le by auto
  moreover have "\<forall>i < length (copy_at d off p). i < off \<or> off + length p \<le> i \<longrightarrow>
      copy_at d off p ! i = (if i < length old then old ! i else CHR 0x00)"
    using copy_at_nth [OF le] copy_at_length [OF le] dn by auto
  ultimately show ?thesis by (intro exI conjI) (assumption | simp)+
qed

definition sparse_file :: memoryFile where
  "sparse_file = \<lparr>mf_path = ''/x'', mf_node = 1, mf_flag = O_RDWR, mf_offset = 2, mf_closed = False\<rparr>"

theorem Write_stores_witness:
  "\<exists>new m'. mem_Write 9 ''ab'' sparse_file (snd opened_x) = (Inr 2, sparse_file\<lparr>mf_offset := 4\<rparr>, m') \<and>
     n_data (fs_heap m' 1) = new \<and> length new = 4 \<and> new ! 0 = CHR 0x00"
proof -
  have c: "canWrite (mf_flag sparse_file)" "\<not> mf_closed sparse_file"
    "\<not> node_dir (snd opened_x) (mf_node sparse_file)"
    "length (n_data (fs_heap (snd opened_x) (mf_node sparse_file))) = 0"
    "mf_flag sparse_file AND O_APPEND = 0" "mf_offset sparse_file = 2" "mf_node sparse_file = 1"
    by code_simp+
  have "case n_lazy (fs_heap (snd opened_x) (mf_node sparse_file)) of None \<Rightarrow> True | Some _ \<Rightarrow> False"
    by code_simp
  then have l: "n_lazy (fs_heap (snd opened_x) (mf_node sparse_file)) = None" by (simp split: option.splits)
  from Write_stores [OF c(1-3) l, of 9 "''ab''"] c(4-) show ?thesis
    by (auto simp: numeral_2_eq_2)
qed

section \<open>Seeding\<close>

text \<open>
  Seeding a new file system with valid files, none of whose names lies below
  another, succeeds in every order of the files and stores each file's contents under its
  name.
\<close>

theorem seed_stores_files:
  assumes "seed_antichain (map fst files)" "\<forall>name file. (name, file) \<in> set files \<longrightarrow> seedable name file"
    "distinct (map (\<lambda>f. abs_comps (fst f)) files)"
  shows "\<exists>m. seedInitialFiles now files (NewMemory now') = (Inr (), m) \<and> fs_wf m \<and>
     (\<forall>name file. (name, file) \<in> set files \<longrightarrow>
        (\<exists>r. at m (abs_comps name) = Some r \<and> n_data (fs_heap m r) = n_data (seed_node now file)))"
proof -
  have "fst ` set files \<subseteq> set (map fst files)" by simp
  from seedInitialFiles_ok [OF NewMemory_wf no_links_NewMemory only_seeded_NewMemory assms(1) this, of now now'] assms(2,3)
  show ?thesis by blast
qed

definition seed_text :: "bytes \<Rightarrow> InitialFile" where
  "seed_text c = \<lparr>if_content = Some c, if_lazy = None, if_mode = 0, if_modTime = 0\<rparr>"

lemma seed_text_seedable: "abs_comps name \<noteq> [] \<Longrightarrow> seedable name (seed_text c)"
  by (simp add: seedable_def seed_text_def mode_Type_def)

theorem seed_stores_files_witness:
  "\<exists>m r. seedInitialFiles 5 [(''/d/a'', seed_text ''x''), (''/b'', seed_text ''y'')] (NewMemory 1) = (Inr (), m) \<and>
     fs_wf m \<and> at m (abs_comps ''/d/a'') = Some r \<and> n_data (fs_heap m r) = ''x''"
proof -
  let ?f = "[(''/d/a'', seed_text ''x''), (''/b'', seed_text ''y'')]"
  have ac: "abs_comps ''/d/a'' = [''d'', ''a'']" "abs_comps ''/b'' = [''b'']" by code_simp+
  have "seed_antichain (map fst ?f)" "distinct (map (\<lambda>f. abs_comps (fst f)) ?f)"
    by (simp_all add: seed_antichain_def ac)
  moreover have "\<forall>name file. (name, file) \<in> set ?f \<longrightarrow> seedable name file"
    using seed_text_seedable ac by auto
  moreover have "n_data (seed_node 5 (seed_text ''x'')) = ''x''" by code_simp
  ultimately show ?thesis using seed_stores_files [of ?f 5 1] by auto
qed

text \<open>
  Seeding is not independent of the order in which the map of files is traversed:
  with the names \<open>/a\<close> and \<open>/a/b\<close> one order fails, the other succeeds and leaves
  \<open>/a/b\<close> below a plain file, a state that violates the tree invariant.
\<close>

theorem seed_order_conflict:
  "fst (seedInitialFiles 5 [(''/a'', seed_text ''x''), (''/a/b'', seed_text ''y'')] (NewMemory 1)) =
     Inl (PathError ''mkdir'' ''/a'' (Errno ErrInvalid)) \<and>
   fst (seedInitialFiles 5 [(''/a/b'', seed_text ''y''), (''/a'', seed_text ''x'')] (NewMemory 1)) = Inr () \<and>
   \<not> fs_wf (snd (seedInitialFiles 5 [(''/a/b'', seed_text ''y''), (''/a'', seed_text ''x'')] (NewMemory 1)))"
proof -
  let ?m = "snd (seedInitialFiles 5 [(''/a/b'', seed_text ''y''), (''/a'', seed_text ''x'')] (NewMemory 1))"
  have e: "fst (seedInitialFiles 5 [(''/a'', seed_text ''x''), (''/a/b'', seed_text ''y'')] (NewMemory 1)) =
     Inl (PathError ''mkdir'' ''/a'' (Errno ErrInvalid))"
    and o: "fst (seedInitialFiles 5 [(''/a/b'', seed_text ''y''), (''/a'', seed_text ''x'')] (NewMemory 1)) = Inr ()"
    by code_simp+
  have "at ?m [''a'', ''b''] = Some 2" "at ?m [''a''] = Some 3" "\<not> node_dir ?m 3"
    "valid_comps [''a'', ''b'']" by code_simp+
  then have "\<not> fs_wf ?m" using wf_parent [of ?m "[''a'']" "''b''" 2] by (auto simp: is_dir_def)
  with e o show ?thesis by blast
qed

section \<open>Cloning\<close>

text \<open>
  \<open>Clone\<close> copies what every path holds: the clone satisfies the invariant and has
  at each path a copy of the node, differing only in the pipe, whose copy has the same
  bytes and no open ends.
\<close>

theorem Clone_copies:
  assumes "fs_wf m"
  shows "fs_wf (mem_Clone m) \<and> fs_cwd (mem_Clone m) = fs_cwd m \<and>
     (\<forall>p. node_at (mem_Clone m) p = map_option (\<lambda>n. n\<lparr>n_fifo := fifo_clone (n_fifo n)\<rparr>) (node_at m p))"
  using mem_Clone_wf [OF assms] mem_Clone_node_at [OF wf_distinct [OF assms]]
  by (simp add: clone_node_def [abs_def] mem_Clone_def [of m] Let_def)

theorem Clone_copies_witness: "fs_wf (mem_Clone (NewMemory 3))"
  using Clone_copies [OF NewMemory_wf] by blast

text \<open>
  \<open>Clone\<close> separates hard links: two different names of one node name two different
  nodes in the clone, so a write through one name is no longer seen under the other.
\<close>

theorem Clone_splits_hard_links:
  assumes "fs_wf m" "p \<noteq> q" "ref_at m p = Some r" "ref_at m q = Some r"
  shows "\<exists>a b. ref_at (mem_Clone m) p = Some a \<and> ref_at (mem_Clone m) q = Some b \<and> a \<noteq> b"
proof -
  note d = wf_distinct [OF assms(1)]
  have "\<exists>a. ref_at (mem_Clone m) x = Some a" if "ref_at m x = Some r" for x
    using mem_Clone_node_at [OF d, of x] that by (auto simp: node_at_def)
  then obtain a b where ab: "ref_at (mem_Clone m) p = Some a" "ref_at (mem_Clone m) q = Some b"
    using assms(3,4) by blast
  with mem_Clone_ref_at [OF d] assms(2) show ?thesis by auto
qed

theorem Clone_splits_hard_links_witness:
  "\<exists>m a b. ref_at m ''/x'' = ref_at m ''/y'' \<and>
     ref_at (mem_Clone m) ''/x'' = Some a \<and> ref_at (mem_Clone m) ''/y'' = Some b \<and> a \<noteq> b"
proof -
  let ?m = "snd (mem_Link 9 ''/x'' ''/y'' (snd opened_x))"
  have wf: "fs_wf ?m"
    by (rule mem_Link_wf [OF _ surjective_pairing])
      (simp add: opened_x_def mem_OpenFile_wf [OF NewMemory_wf surjective_pairing])
  have "ref_at ?m ''/x'' = Some 1" "ref_at ?m ''/y'' = Some 1" by code_simp+
  with Clone_splits_hard_links [OF wf _ this] show ?thesis by force
qed

section \<open>A final link behind a followed link\<close>

text \<open>
  A directory \<open>/d\<close> with a file \<open>f\<close> and a link \<open>s\<close> to it, and a link \<open>/l\<close> to the
  directory.
\<close>

definition two_links :: MemoryFS where
  "two_links =
     (let m1 = snd (mem_MkdirAll 5 ''/d'' 0 (NewMemory 1));
          m2 = snd (mem_OpenFile 5 ''/d/f'' create_flags 0 m1);
          m3 = snd (mem_Symlink 5 ''/d/f'' ''/d/s'' m2)
      in snd (mem_Symlink 5 ''/d'' ''/l'' m3))"

text \<open>
  Once a link has been followed on the way, the final component is followed too,
  also by the operations that act on the entry itself: \<open>Remove("/l/s")\<close> deletes the
  target \<open>/d/f\<close> and keeps the link \<open>/d/s\<close>, while \<open>Remove("/d/s")\<close> deletes the link; and
  \<open>Readlink("/l/s")\<close> fails although \<open>Readlink("/d/s")\<close> returns the target.
\<close>

theorem intermediate_link_follows_final:
  "mem_Remove ''/l/s'' False two_links = (Inr (), snd (mem_Remove ''/l/s'' False two_links)) \<and>
   ref_at (snd (mem_Remove ''/l/s'' False two_links)) ''/d/f'' = None \<and>
   ref_at (snd (mem_Remove ''/l/s'' False two_links)) ''/d/s'' = ref_at two_links ''/d/s'' \<and>
   ref_at (snd (mem_Remove ''/d/s'' False two_links)) ''/d/s'' = None \<and>
   ref_at (snd (mem_Remove ''/d/s'' False two_links)) ''/d/f'' = ref_at two_links ''/d/f'' \<and>
   ref_at two_links ''/d/f'' \<noteq> None \<and> ref_at two_links ''/d/s'' \<noteq> None \<and>
   mem_Readlink ''/d/s'' two_links = Inr ''/d/f'' \<and>
   mem_Readlink ''/l/s'' two_links = Inl (PathError ''readlink'' ''/d/f'' (Errno ErrInvalid))"
proof -
  have "fst (mem_Remove ''/l/s'' False two_links) = Inr ()" by code_simp
  moreover have "ref_at (snd (mem_Remove ''/l/s'' False two_links)) ''/d/f'' = None"
    "ref_at (snd (mem_Remove ''/l/s'' False two_links)) ''/d/s'' = ref_at two_links ''/d/s''"
    "ref_at (snd (mem_Remove ''/d/s'' False two_links)) ''/d/s'' = None"
    "ref_at (snd (mem_Remove ''/d/s'' False two_links)) ''/d/f'' = ref_at two_links ''/d/f''"
    "ref_at two_links ''/d/f'' \<noteq> None" "ref_at two_links ''/d/s'' \<noteq> None"
    "mem_Readlink ''/d/s'' two_links = Inr ''/d/f''"
    "mem_Readlink ''/l/s'' two_links = Inl (PathError ''readlink'' ''/d/f'' (Errno ErrInvalid))"
    by code_simp+
  ultimately show ?thesis by (metis prod.collapse)
qed

end
