(* ===== verification/Fifo_Props.thy ===== *)
theory Fifo_Props
  imports Fifo
begin

text \<open>
  A named pipe with its open handles as a transition system: any interleaving of opens,
  reads, writes, resumed waits and closes. The contract of a byte queue (what has been
  accepted is what has been delivered followed by what is stored) is stated as a locale
  and interpreted on the pipe.
\<close>

section \<open>Passes over the buffer\<close>

lemma fifo_write_loop_buffer:
  assumes "fifo_write_loop ctx rest f q = (res, k, f', q')"
  shows "q_buf q' = q_buf q @ take k rest" "k \<le> length rest"
    "length (q_buf q) \<le> memoryFIFOCapacity \<Longrightarrow> length (q_buf q') \<le> memoryFIFOCapacity"
    "q_readers q' = q_readers q" "q_writers q' = q_writers q"
    "q_writerEpoch q' = q_writerEpoch q" "q_readerEpoch q' = q_readerEpoch q"
    "ff_readable f' = ff_readable f" "ff_writable f' = ff_writable f" "ff_closed f' = ff_closed f"
    "ff_writerEpoch f' = ff_writerEpoch f" "ff_sawWriter f' = ff_sawWriter f"
proof -
  have "q_buf q' = q_buf q @ take k rest \<and> k \<le> length rest \<and>
    (length (q_buf q) \<le> memoryFIFOCapacity \<longrightarrow> length (q_buf q') \<le> memoryFIFOCapacity) \<and>
    q_readers q' = q_readers q \<and> q_writers q' = q_writers q \<and>
    q_writerEpoch q' = q_writerEpoch q \<and> q_readerEpoch q' = q_readerEpoch q \<and>
    ff_readable f' = ff_readable f \<and> ff_writable f' = ff_writable f \<and> ff_closed f' = ff_closed f \<and>
    ff_writerEpoch f' = ff_writerEpoch f \<and> ff_sawWriter f' = ff_sawWriter f"
    using assms
  proof (induction ctx rest f q arbitrary: res k f' q' rule: fifo_write_loop.induct)
    case (1 ctx rest f q)
    show ?case
    proof (cases "rest = [] \<or> q_readers q = 0 \<or> memoryFIFOCapacity \<le> length (q_buf q)")
      case True
      with "1.prems" show ?thesis
        by (auto simp: fifo_write_loop.simps [of ctx rest f q] split: if_splits option.splits)
    next
      case False
      let ?c = "min (length rest) (memoryFIFOCapacity - length (q_buf q))"
      let ?f = "f\<lparr>ff_sawReader := True, ff_readerEpoch := q_readerEpoch q\<rparr>"
      let ?q = "q\<lparr>q_buf := q_buf q @ take ?c rest\<rparr>"
      obtain r n f2 q2 where rec: "fifo_write_loop ctx (drop ?c rest) ?f ?q = (r, n, f2, q2)"
        by (metis prod.collapse)
      with False "1.prems" have eq: "res = r" "k = ?c + n" "f' = f2" "q' = q2"
        by (auto simp: fifo_write_loop.simps [of ctx rest f q] Let_def split: if_splits)
      have ne: "rest \<noteq> []" "\<not> (q_readers q = 0 \<or> memoryFIFOCapacity \<le> length (q_buf q))"
        using False by auto
      note ih = "1.IH" [of ?c ?f ?q, OF ne refl refl refl rec]
      have "length (q_buf ?q) \<le> memoryFIFOCapacity" using ne by (auto simp: min_def)
      with ih have cap: "length (q_buf q2) \<le> memoryFIFOCapacity" by blast
      have "q_buf q2 = (q_buf q @ take ?c rest) @ take n (drop ?c rest)" "n \<le> length (drop ?c rest)"
        using ih by simp_all
      then have "q_buf q2 = q_buf q @ take (?c + n) rest" "?c + n \<le> length rest"
        by (auto simp: take_add)
      with ih cap eq show ?thesis by simp
    qed
  qed
  then show "q_buf q' = q_buf q @ take k rest" "k \<le> length rest"
    "length (q_buf q) \<le> memoryFIFOCapacity \<Longrightarrow> length (q_buf q') \<le> memoryFIFOCapacity"
    "q_readers q' = q_readers q" "q_writers q' = q_writers q"
    "q_writerEpoch q' = q_writerEpoch q" "q_readerEpoch q' = q_readerEpoch q"
    "ff_readable f' = ff_readable f" "ff_writable f' = ff_writable f" "ff_closed f' = ff_closed f"
    "ff_writerEpoch f' = ff_writerEpoch f" "ff_sawWriter f' = ff_sawWriter f"
    by blast+
qed

definition delivered :: "(go_error + bytes) io \<Rightarrow> bytes" where
  "delivered r = (case r of Done (Inr b) \<Rightarrow> b | _ \<Rightarrow> [])"

lemma fifo_read_loop_buffer:
  assumes "fifo_read_loop ctx n f q = (res, f', q')"
  shows "q_buf q = delivered res @ q_buf q'" "q_readers q' = q_readers q" "q_writers q' = q_writers q"
    "q_writerEpoch q' = q_writerEpoch q" "q_readerEpoch q' = q_readerEpoch q"
    "ff_readable f' = ff_readable f" "ff_writable f' = ff_writable f" "ff_closed f' = ff_closed f"
    "ff_writerEpoch f' = ff_writerEpoch f"
    "ff_sawWriter f' \<Longrightarrow> ff_sawWriter f \<or> 0 < q_writers q \<or> q_buf q \<noteq> []"
    "ff_sawWriter f \<Longrightarrow> ff_sawWriter f'"
  using assms by (auto simp: fifo_read_loop_def delivered_def Let_def split: if_splits option.splits)

section \<open>The transition system\<close>

record fifo_sys =
  fy_q :: memoryFIFO
  fy_files :: "memoryFIFOFile list"

datatype fifo_op =
    FOpen string goflags
  | FRead nat nat "go_error option"
  | FWrite nat bytes "go_error option"
  | FResumeRead nat nat "go_error option"
  | FResumeWrite nat bytes "go_error option"
  | FClose nat

text \<open>
  One operation on the handle with the given index; the result is what the operation
  accepted, what it delivered, and the new state. A resumed wait repeats a pass of the
  loop without the checks made on entry.
\<close>

fun fifo_step :: "fifo_op \<Rightarrow> fifo_sys \<Rightarrow> bytes \<times> bytes \<times> fifo_sys" where
  "fifo_step (FOpen path flag) s =
     (let (f, q) = newMemoryFIFOFile path flag (fy_q s)
      in ([], [], s\<lparr>fy_q := q, fy_files := fy_files s @ [f]\<rparr>))"
| "fifo_step (FRead i n ctx) s =
     (if i < length (fy_files s) then
        let (res, f, q) = fifo_read ctx n (fy_files s ! i) (fy_q s)
        in ([], delivered res, s\<lparr>fy_q := q, fy_files := (fy_files s)[i := f]\<rparr>)
      else ([], [], s))"
| "fifo_step (FWrite i p ctx) s =
     (if i < length (fy_files s) then
        let (res, k, f, q) = fifo_write ctx p (fy_files s ! i) (fy_q s)
        in (take k p, [], s\<lparr>fy_q := q, fy_files := (fy_files s)[i := f]\<rparr>)
      else ([], [], s))"
| "fifo_step (FResumeRead i n ctx) s =
     (if i < length (fy_files s) \<and> ff_readable (fy_files s ! i) then
        let (res, f, q) = fifo_read_loop ctx n (fy_files s ! i) (fy_q s)
        in ([], delivered res, s\<lparr>fy_q := q, fy_files := (fy_files s)[i := f]\<rparr>)
      else ([], [], s))"
| "fifo_step (FResumeWrite i rest ctx) s =
     (if i < length (fy_files s) \<and> ff_writable (fy_files s ! i) then
        let (res, k, f, q) = fifo_write_loop ctx rest (fy_files s ! i) (fy_q s)
        in (take k rest, [], s\<lparr>fy_q := q, fy_files := (fy_files s)[i := f]\<rparr>)
      else ([], [], s))"
| "fifo_step (FClose i) s =
     (if i < length (fy_files s) then
        let (f, q) = fifo_close (fy_files s ! i) (fy_q s)
        in ([], [], s\<lparr>fy_q := q, fy_files := (fy_files s)[i := f]\<rparr>)
      else ([], [], s))"

definition fifo_init :: fifo_sys where
  "fifo_init = \<lparr>fy_q = newMemoryFIFO, fy_files = []\<rparr>"

section \<open>The contract of a byte queue\<close>

locale byte_queue =
  fixes content :: "'s \<Rightarrow> bytes" and run1 :: "'op \<Rightarrow> 's \<Rightarrow> bytes \<times> bytes \<times> 's"
    and good :: "'s \<Rightarrow> bool" and cap :: nat
  assumes conserve: "run1 x s = (a, d, s') \<Longrightarrow> content s @ a = d @ content s'"
    and keep_good: "run1 x s = (a, d, s') \<Longrightarrow> good s \<Longrightarrow> good s'"
    and bounded: "good s \<Longrightarrow> length (content s) \<le> cap"
begin

text \<open>A run of operations: everything accepted and everything delivered, in order.\<close>

primrec run :: "'op list \<Rightarrow> 's \<Rightarrow> bytes \<times> bytes \<times> 's" where
  "run [] s = ([], [], s)"
| "run (x # xs) s =
     (let (a, d, s1) = run1 x s; (as, ds, s2) = run xs s1 in (a @ as, d @ ds, s2))"

lemma run_conserve: "run xs s = (as, ds, s') \<Longrightarrow> content s @ as = ds @ content s'"
proof (induction xs arbitrary: s as ds)
  case (Cons x xs)
  obtain a d s1 where 1: "run1 x s = (a, d, s1)" by (metis prod.collapse)
  obtain as' ds' where 2: "run xs s1 = (as', ds', s')" and e: "as = a @ as'" "ds = d @ ds'"
    using Cons.prems 1 by (auto split: prod.splits)
  have "content s @ as = (content s @ a) @ as'" using e by simp
  also have "\<dots> = d @ content s1 @ as'" using conserve [OF 1] by simp
  also have "\<dots> = ds @ content s'" using Cons.IH [OF 2] e by simp
  finally show ?case .
qed simp

lemma run_good: "run xs s = (as, ds, s') \<Longrightarrow> good s \<Longrightarrow> good s'"
proof (induction xs arbitrary: s as ds)
  case (Cons x xs)
  then show ?case by (auto split: prod.splits dest: keep_good)
qed simp

lemma run_bounded: "run xs s = (as, ds, s') \<Longrightarrow> good s \<Longrightarrow> length (content s') \<le> cap"
  using run_good bounded by blast

lemma run_in_order:
  assumes "run xs s = (as, ds, s')" "content s = []"
  shows "prefix ds as" "as = ds @ content s'"
  using run_conserve [OF assms(1)] assms(2) by simp_all

end

section \<open>The pipe is a byte queue\<close>

text \<open>The counters of open ends are those of the handles, and the epochs record past opens.\<close>

definition open_readers :: "memoryFIFOFile list \<Rightarrow> nat" where
  "open_readers fs = length (filter (\<lambda>f. ff_readable f \<and> \<not> ff_closed f) fs)"

definition open_writers :: "memoryFIFOFile list \<Rightarrow> nat" where
  "open_writers fs = length (filter (\<lambda>f. ff_writable f \<and> \<not> ff_closed f) fs)"

definition writer_opens :: "memoryFIFOFile list \<Rightarrow> nat" where
  "writer_opens fs = length (filter ff_writable fs)"

definition fifo_good :: "fifo_sys \<Rightarrow> bool" where
  "fifo_good s \<longleftrightarrow>
     length (q_buf (fy_q s)) \<le> memoryFIFOCapacity \<and>
     q_readers (fy_q s) = open_readers (fy_files s) \<and>
     q_writers (fy_q s) = open_writers (fy_files s) \<and>
     q_writerEpoch (fy_q s) = writer_opens (fy_files s) \<and>
     (q_buf (fy_q s) \<noteq> [] \<longrightarrow> 0 < q_writerEpoch (fy_q s)) \<and>
     (\<forall>f \<in> set (fy_files s). ff_readable f \<longrightarrow>
        (ff_sawWriter f \<longrightarrow> 0 < q_writerEpoch (fy_q s)) \<and> (\<not> ff_sawWriter f \<longrightarrow> ff_writerEpoch f = 0))"

lemma filter_length_update:
  assumes "i < length xs"
  shows "length (filter P (xs[i := y])) + (if P (xs ! i) then 1 else 0) =
     length (filter P xs) + (if P y then 1 else 0)"
  using assms
proof (induction xs arbitrary: i)
  case (Cons x xs)
  then show ?case by (cases i) auto
qed simp

lemma open_counts_update:
  assumes "i < length fs" "ff_readable f = ff_readable (fs ! i)" "ff_writable f = ff_writable (fs ! i)"
    "ff_closed f = ff_closed (fs ! i)"
  shows "open_readers (fs[i := f]) = open_readers fs" "open_writers (fs[i := f]) = open_writers fs"
    "writer_opens (fs[i := f]) = writer_opens fs"
  using filter_length_update [OF assms(1), of "\<lambda>f. ff_readable f \<and> \<not> ff_closed f" f]
    filter_length_update [OF assms(1), of "\<lambda>f. ff_writable f \<and> \<not> ff_closed f" f]
    filter_length_update [OF assms(1), of ff_writable f] assms(2-)
  by (auto simp: open_readers_def open_writers_def writer_opens_def split: if_splits)

lemma open_writers_le: "open_writers fs \<le> writer_opens fs"
  by (induction fs) (auto simp: open_writers_def writer_opens_def)

lemma fifo_step_conserve:
  assumes "fifo_step x s = (a, d, s')"
  shows "q_buf (fy_q s) @ a = d @ q_buf (fy_q s')"
proof (cases x)
  case (FOpen path flag)
  with assms show ?thesis by (auto simp: newMemoryFIFOFile_def Let_def)
next
  case (FRead i n ctx)
  with assms show ?thesis
    by (auto simp: fifo_read_def delivered_def [of "Done _"] Let_def split: if_splits prod.splits
        dest!: fifo_read_loop_buffer(1))
next
  case (FWrite i p ctx)
  with assms show ?thesis
    by (auto simp: fifo_write_def Let_def split: if_splits prod.splits dest!: fifo_write_loop_buffer(1))
next
  case (FResumeRead i n ctx)
  with assms show ?thesis
    by (auto simp: Let_def split: if_splits prod.splits dest!: fifo_read_loop_buffer(1))
next
  case (FResumeWrite i rest ctx)
  with assms show ?thesis
    by (auto simp: Let_def split: if_splits prod.splits dest!: fifo_write_loop_buffer(1))
next
  case (FClose i)
  with assms show ?thesis by (auto simp: fifo_close_def Let_def split: if_splits)
qed

text \<open>A pass that keeps the ends of the pipe and of the handle keeps the invariant.\<close>

lemma fifo_good_pass:
  assumes g: "fifo_good s" and i: "i < length (fy_files s)"
    and f: "ff_readable f = ff_readable (fy_files s ! i)" "ff_writable f = ff_writable (fy_files s ! i)"
      "ff_closed f = ff_closed (fy_files s ! i)" "ff_writerEpoch f = ff_writerEpoch (fy_files s ! i)"
      "ff_sawWriter (fy_files s ! i) \<Longrightarrow> ff_sawWriter f"
      "ff_sawWriter f \<Longrightarrow> ff_sawWriter (fy_files s ! i) \<or> 0 < q_writerEpoch (fy_q s)"
    and q: "q_readers q = q_readers (fy_q s)" "q_writers q = q_writers (fy_q s)"
      "q_writerEpoch q = q_writerEpoch (fy_q s)"
      "length (q_buf q) \<le> memoryFIFOCapacity" "q_buf q \<noteq> [] \<Longrightarrow> 0 < q_writerEpoch (fy_q s)"
  shows "fifo_good (s\<lparr>fy_q := q, fy_files := (fy_files s)[i := f]\<rparr>)"
proof -
  note c = open_counts_update [OF i f(1-3)]
  have mem: "fy_files s ! i \<in> set (fy_files s)" using i by simp
  have "(ff_sawWriter h \<longrightarrow> 0 < q_writerEpoch q) \<and> (\<not> ff_sawWriter h \<longrightarrow> ff_writerEpoch h = 0)"
    if h: "h \<in> set ((fy_files s)[i := f])" "ff_readable h" for h
  proof -
    from h(1) set_update_subset_insert [of "fy_files s" i f] have "h = f \<or> h \<in> set (fy_files s)" by auto
    with g mem f h(2) q(3) show ?thesis unfolding fifo_good_def by metis
  qed
  with g c q show ?thesis by (auto simp: fifo_good_def)
qed

lemma fifo_good_read_pass:
  assumes g: "fifo_good s" and i: "i < length (fy_files s)"
    and l: "fifo_read_loop ctx n (fy_files s ! i) (fy_q s) = (res, f, q)"
  shows "fifo_good (s\<lparr>fy_q := q, fy_files := (fy_files s)[i := f]\<rparr>)"
proof -
  note b = fifo_read_loop_buffer [OF l]
  have w: "0 < q_writers (fy_q s) \<Longrightarrow> 0 < q_writerEpoch (fy_q s)"
    using g open_writers_le [of "fy_files s"] by (auto simp: fifo_good_def)
  have len: "length (q_buf q) \<le> length (q_buf (fy_q s))" using b(1) by simp
  show ?thesis
    by (rule fifo_good_pass [OF g i])
      (use b w g len in \<open>auto simp: fifo_good_def\<close>)
qed

lemma fifo_good_write_pass:
  assumes g: "fifo_good s" and i: "i < length (fy_files s)" and w: "ff_writable (fy_files s ! i)"
    and l: "fifo_write_loop ctx p (fy_files s ! i) (fy_q s) = (res, k, f, q)"
  shows "fifo_good (s\<lparr>fy_q := q, fy_files := (fy_files s)[i := f]\<rparr>)"
proof -
  note b = fifo_write_loop_buffer [OF l]
  have "fy_files s ! i \<in> set (filter ff_writable (fy_files s))" using i w by simp
  then have "0 < writer_opens (fy_files s)" unfolding writer_opens_def by (metis length_pos_if_in_set)
  with g have "0 < q_writerEpoch (fy_q s)" by (simp add: fifo_good_def)
  then show ?thesis
    by (intro fifo_good_pass [OF g i]) (use b g in \<open>auto simp: fifo_good_def\<close>)
qed

lemma fifo_good_same: "fifo_good s \<Longrightarrow> i < length (fy_files s) \<Longrightarrow>
    fifo_good (s\<lparr>fy_q := fy_q s, fy_files := (fy_files s)[i := fy_files s ! i]\<rparr>)"
  by simp

lemma fifo_good_open:
  assumes g: "fifo_good s" and eq: "newMemoryFIFOFile path flag (fy_q s) = (f, q)"
  shows "fifo_good (s\<lparr>fy_q := q, fy_files := fy_files s @ [f]\<rparr>)"
proof -
  have f: "ff_readable f = canRead flag" "ff_writable f = canWrite flag" "\<not> ff_closed f"
    "ff_readable f \<Longrightarrow> ff_writerEpoch f = q_writerEpoch (fy_q s)"
    "ff_readable f \<Longrightarrow> ff_sawWriter f = (0 < q_writerEpoch (fy_q s))"
    using eq by (auto simp: newMemoryFIFOFile_def Let_def split: if_splits)
  have q: "q_readers q = q_readers (fy_q s) + (if canRead flag then 1 else 0)"
    "q_writers q = q_writers (fy_q s) + (if canWrite flag then 1 else 0)"
    "q_writerEpoch q = q_writerEpoch (fy_q s) + (if canWrite flag then 1 else 0)" "q_buf q = q_buf (fy_q s)"
    using eq by (auto simp: newMemoryFIFOFile_def Let_def split: if_splits)
  from g f q show ?thesis
    by (auto simp: fifo_good_def open_readers_def open_writers_def writer_opens_def)
qed

lemma fifo_good_close:
  assumes g: "fifo_good s" and i: "i < length (fy_files s)"
    and eq: "fifo_close (fy_files s ! i) (fy_q s) = (f, q)"
  shows "fifo_good (s\<lparr>fy_q := q, fy_files := (fy_files s)[i := f]\<rparr>)"
proof (cases "ff_closed (fy_files s ! i)")
  case True
  with eq g i show ?thesis by (auto simp: fifo_close_def)
next
  case False
  let ?h = "fy_files s ! i"
  have f: "f = ?h\<lparr>ff_closed := True\<rparr>" using eq False by (auto simp: fifo_close_def Let_def)
  have mem: "?h \<in> set (fy_files s)" using i by simp
  have pos: "ff_readable ?h \<Longrightarrow> 0 < q_readers (fy_q s)" "ff_writable ?h \<Longrightarrow> 0 < q_writers (fy_q s)"
    using g False mem by (auto simp: fifo_good_def open_readers_def open_writers_def filter_empty_conv)
  have q: "q_readers q = q_readers (fy_q s) - (if ff_readable ?h then 1 else 0)"
    "q_writers q = q_writers (fy_q s) - (if ff_writable ?h then 1 else 0)"
    "q_writerEpoch q = q_writerEpoch (fy_q s)" "q_buf q = q_buf (fy_q s)"
    using eq False pos by (auto simp: fifo_close_def Let_def split: if_splits)
  have c: "open_readers ((fy_files s)[i := f]) + (if ff_readable ?h then 1 else 0) = open_readers (fy_files s)"
    "open_writers ((fy_files s)[i := f]) + (if ff_writable ?h then 1 else 0) = open_writers (fy_files s)"
    "writer_opens ((fy_files s)[i := f]) = writer_opens (fy_files s)"
    using filter_length_update [OF i, of "\<lambda>f. ff_readable f \<and> \<not> ff_closed f" f]
      filter_length_update [OF i, of "\<lambda>f. ff_writable f \<and> \<not> ff_closed f" f]
      filter_length_update [OF i, of ff_writable f] False f
    by (auto simp: open_readers_def open_writers_def writer_opens_def split: if_splits)
  have "(ff_sawWriter h \<longrightarrow> 0 < q_writerEpoch q) \<and> (\<not> ff_sawWriter h \<longrightarrow> ff_writerEpoch h = 0)"
    if h: "h \<in> set ((fy_files s)[i := f])" "ff_readable h" for h
  proof -
    from h(1) set_update_subset_insert [of "fy_files s" i f] have "h = f \<or> h \<in> set (fy_files s)" by auto
    with g mem f h(2) q(3) show ?thesis unfolding fifo_good_def by auto
  qed
  with g c q show ?thesis by (auto simp: fifo_good_def)
qed

lemma fifo_step_good:
  assumes "fifo_step x s = (a, d, s')" "fifo_good s"
  shows "fifo_good s'"
proof (cases x)
  case (FOpen path flag)
  with assms show ?thesis by (auto simp: Let_def split: prod.splits intro: fifo_good_open)
next
  case (FRead i n ctx)
  with assms show ?thesis
    by (auto simp: fifo_read_def Let_def split: if_splits prod.splits intro: fifo_good_read_pass)
next
  case (FWrite i p ctx)
  with assms show ?thesis
    by (auto simp: fifo_write_def Let_def split: if_splits prod.splits intro: fifo_good_write_pass)
next
  case (FResumeRead i n ctx)
  with assms show ?thesis by (auto simp: Let_def split: if_splits prod.splits intro: fifo_good_read_pass)
next
  case (FResumeWrite i rest ctx)
  with assms show ?thesis by (auto simp: Let_def split: if_splits prod.splits intro: fifo_good_write_pass)
next
  case (FClose i)
  with assms show ?thesis by (auto simp: Let_def split: if_splits prod.splits intro: fifo_good_close)
qed

lemma fifo_good_capacity: "fifo_good s \<Longrightarrow> length (q_buf (fy_q s)) \<le> memoryFIFOCapacity"
  by (simp add: fifo_good_def)

interpretation pipe: byte_queue "\<lambda>s. q_buf (fy_q s)" fifo_step fifo_good memoryFIFOCapacity
  by unfold_locales (fact fifo_step_conserve fifo_step_good fifo_good_capacity)+

section \<open>Properties of the pipe\<close>

text \<open>A run of operations on a new pipe, written out over the pipe's own step function.\<close>

primrec fifo_run :: "fifo_op list \<Rightarrow> fifo_sys \<Rightarrow> bytes \<times> bytes \<times> fifo_sys" where
  "fifo_run [] s = ([], [], s)"
| "fifo_run (x # xs) s =
     (let (a, d, s1) = fifo_step x s; (as, ds, s2) = fifo_run xs s1 in (a @ as, d @ ds, s2))"

lemma fifo_run_eq: "fifo_run xs s = pipe.run xs s"
  by (induction xs arbitrary: s) (simp_all add: Let_def)

lemma fifo_init_good: "fifo_good fifo_init"
  by (simp add: fifo_good_def fifo_init_def newMemoryFIFO_def open_readers_def open_writers_def writer_opens_def)

lemma fifo_run_good: "fifo_run xs fifo_init = (as, ds, s) \<Longrightarrow> fifo_good s"
  using pipe.run_good fifo_init_good by (simp add: fifo_run_eq)

text \<open>
  (C27) Pipe order: after any interleaving of opens, reads, writes, resumed waits and
  closes on a new pipe, the bytes accepted from the writers are the bytes delivered to
  the readers followed by the bytes stored: nothing is lost, duplicated or reordered.
\<close>

theorem fifo_order:
  "fifo_run xs fifo_init = (accepted, got, s) \<Longrightarrow> accepted = got @ q_buf (fy_q s)"
  using pipe.run_in_order(2) [of xs fifo_init accepted got s]
  by (simp add: fifo_run_eq) (simp add: fifo_init_def newMemoryFIFO_def)

definition demo_ops :: "fifo_op list" where
  "demo_ops = [FOpen ''/p'' O_RDONLY, FOpen ''/p'' O_WRONLY, FWrite 1 ''abc'' None, FRead 0 2 None]"

lemma demo_run:
  "fst (fifo_run demo_ops fifo_init) = ''abc''" "fst (snd (fifo_run demo_ops fifo_init)) = ''ab''"
  "q_readers (fy_q (snd (snd (fifo_run demo_ops fifo_init)))) = 1"
  by (simp_all add: demo_ops_def fifo_init_def newMemoryFIFO_def newMemoryFIFOFile_def canRead_def
      canWrite_def flag_bits fifo_write_def fifo_write_loop.simps memoryFIFOCapacity_def fifo_read_def
      fifo_read_loop_def delivered_def)

theorem fifo_order_witness:
  "fst (fifo_run demo_ops fifo_init) =
     fst (snd (fifo_run demo_ops fifo_init)) @ q_buf (fy_q (snd (snd (fifo_run demo_ops fifo_init)))) \<and>
   fst (fifo_run demo_ops fifo_init) = ''abc'' \<and> fst (snd (fifo_run demo_ops fifo_init)) = ''ab''"
proof -
  have "fifo_run demo_ops fifo_init = (fst (fifo_run demo_ops fifo_init),
      fst (snd (fifo_run demo_ops fifo_init)), snd (snd (fifo_run demo_ops fifo_init)))"
    by (simp only: prod.collapse)
  from fifo_order [OF this] demo_run(1,2) show ?thesis by simp
qed

text \<open>
  Pipe capacity and ends: in every reachable state at most the capacity is stored,
  and the counters of readers and writers are the numbers of open handles of each kind.
\<close>

theorem fifo_bounded:
  assumes "fifo_run xs fifo_init = (accepted, got, s)"
  shows "length (q_buf (fy_q s)) \<le> 65536 \<and>
     q_readers (fy_q s) = length (filter (\<lambda>f. ff_readable f \<and> \<not> ff_closed f) (fy_files s)) \<and>
     q_writers (fy_q s) = length (filter (\<lambda>f. ff_writable f \<and> \<not> ff_closed f) (fy_files s))"
  using fifo_run_good [OF assms]
  by (simp add: fifo_good_def open_readers_def open_writers_def memoryFIFOCapacity_def)

theorem fifo_bounded_witness:
  "q_readers (fy_q (snd (snd (fifo_run demo_ops fifo_init)))) = 1 \<and>
   length (q_buf (fy_q (snd (snd (fifo_run demo_ops fifo_init))))) \<le> 65536"
proof -
  from demo_run(3) fifo_bounded [of demo_ops "fst (fifo_run demo_ops fifo_init)" "fst (snd (fifo_run demo_ops fifo_init))"
      "snd (snd (fifo_run demo_ops fifo_init))"] show ?thesis by simp
qed




text \<open>
  A write to a pipe that has a reader and room makes progress: it stores at least
  one byte, and all of them when they fit.
\<close>

theorem fifo_write_progress:
  assumes "\<not> ff_closed f" "ff_writable f" "p \<noteq> []" "0 < q_readers q" "length (q_buf q) < memoryFIFOCapacity"
  shows "\<exists>res k f' q'. fifo_write ctx p f q = (res, k, f', q') \<and> 0 < k \<and> q_buf q' = q_buf q @ take k p \<and>
     (length (q_buf q) + length p \<le> memoryFIFOCapacity \<longrightarrow> res = Done None \<and> k = length p)"
proof -
  obtain res k f' q' where l: "fifo_write_loop ctx p f q = (res, k, f', q')" by (metis prod.collapse)
  let ?c = "min (length p) (memoryFIFOCapacity - length (q_buf q))"
  obtain r n f2 q2 where rec: "fifo_write_loop ctx (drop ?c p)
      (f\<lparr>ff_sawReader := True, ff_readerEpoch := q_readerEpoch q\<rparr>) (q\<lparr>q_buf := q_buf q @ take ?c p\<rparr>) = (r, n, f2, q2)"
    by (metis prod.collapse)
  with l assms have k: "k = ?c + n" "res = r"
    by (auto simp: fifo_write_loop.simps [of ctx p f q] Let_def)
  have "0 < ?c" using assms by simp
  moreover have "res = Done None \<and> k = length p" if "length (q_buf q) + length p \<le> memoryFIFOCapacity"
  proof -
    from that have "?c = length p" by simp
    with rec k show ?thesis by (simp add: fifo_write_loop.simps)
  qed
  ultimately show ?thesis
    using l k fifo_write_loop_buffer(1) [OF l] assms by (auto simp: fifo_write_def)
qed

theorem fifo_write_progress_witness:
  "\<exists>res k f' q'. fifo_write None ''hi'' (fst (newMemoryFIFOFile ''/p'' O_RDWR newMemoryFIFO))
      (snd (newMemoryFIFOFile ''/p'' O_RDWR newMemoryFIFO)) = (res, k, f', q') \<and> 0 < k"
proof -
  let ?f = "fst (newMemoryFIFOFile ''/p'' O_RDWR newMemoryFIFO)"
  let ?q = "snd (newMemoryFIFOFile ''/p'' O_RDWR newMemoryFIFO)"
  have "\<not> ff_closed ?f" "ff_writable ?f" "0 < q_readers ?q" "length (q_buf ?q) < memoryFIFOCapacity"
    by (simp_all add: newMemoryFIFOFile_def newMemoryFIFO_def memoryFIFOCapacity_def canRead_def canWrite_def
        flag_bits)
  from fifo_write_progress [OF this(1,2) _ this(3,4), of "''hi''" None] show ?thesis by auto
qed

end
