(* ===== verification/Policy.thy ===== *)
theory Policy
  imports Paths
begin

text \<open>
  The execution policy of \<open>policy/policy.go\<close>: allowlists of commands and builtins,
  read and write roots, limits. A denial carries the arguments its message is built from
  (the kind or action, the name or target, the reason).
\<close>

section \<open>Data\<close>

type_synonym FileAction = string

definition FileActionRead :: FileAction where "FileActionRead = ''read''"
definition FileActionWrite :: FileAction where "FileActionWrite = ''write''"
definition FileActionStat :: FileAction where "FileActionStat = ''stat''"
definition FileActionLstat :: FileAction where "FileActionLstat = ''lstat''"
definition FileActionReadlink :: FileAction where "FileActionReadlink = ''readlink''"
definition FileActionReadDir :: FileAction where "FileActionReadDir = ''readdir''"
definition FileActionMkdir :: FileAction where "FileActionMkdir = ''mkdir''"
definition FileActionRemove :: FileAction where "FileActionRemove = ''remove''"
definition FileActionRename :: FileAction where "FileActionRename = ''rename''"

lemmas action_defs = FileActionRead_def FileActionWrite_def FileActionStat_def FileActionLstat_def
  FileActionReadlink_def FileActionReadDir_def FileActionMkdir_def FileActionRemove_def
  FileActionRename_def

type_synonym SymlinkMode = string

definition SymlinkDeny :: SymlinkMode where "SymlinkDeny = ''deny''"
definition SymlinkFollow :: SymlinkMode where "SymlinkFollow = ''follow''"

text \<open>The limits are signed 64-bit integers; a negative one disables the limit.\<close>

definition Unlimited :: "64 word" where "Unlimited = - 1"

record Limits =
  MaxCommandCount :: "64 word"
  MaxGlobOperations :: "64 word"
  MaxBraceExpansionWords :: "64 word"
  MaxLoopIterations :: "64 word"
  MaxSubstitutionDepth :: "64 word"
  MaxFunctionDepth :: "64 word"
  MaxStdoutBytes :: "64 word"
  MaxStderrBytes :: "64 word"
  MaxFileBytes :: "64 word"
  MaxVariableBytes :: "64 word"
  MaxTotalVariableBytes :: "64 word"

record Config =
  AllowedCommands :: "string list"
  AllowedBuiltins :: "string list"
  ReadRoots :: "string list"
  WriteRoots :: "string list"
  cfg_Limits :: Limits
  cfg_SymlinkMode :: SymlinkMode

record Static =
  allowedCommands :: "string list"
  allowedBuiltins :: "string list"
  readRoots :: "string list"
  writeRoots :: "string list"
  st_limits :: Limits
  symlinkMode :: SymlinkMode

section \<open>Operations\<close>

definition cleanAbs :: "string \<Rightarrow> string" where
  "cleanAbs name =
     (if name = '''' then ''/''
      else
        let name' = (if \<not> HasPrefix name ''/'' then ''/'' @ name else name);
            name'' = path_Clean name'
        in if name'' = ''.'' then ''/'' else name'')"

definition underRoot :: "string \<Rightarrow> string \<Rightarrow> bool" where
  "underRoot root target =
     (if root = ''/'' then True else target = root \<or> HasPrefix target (root @ ''/''))"

text \<open>
  The loop of \<open>normalizeNames\<close> and \<open>normalizeRoots\<close>: each element is normalised,
  skipped if it was seen before, and appended.
\<close>

fun normalize_loop :: "(string \<Rightarrow> string option) \<Rightarrow> string list \<Rightarrow> string list \<Rightarrow> string list" where
  "normalize_loop norm [] out = out"
| "normalize_loop norm (name # names) out =
     (case norm name of
        None \<Rightarrow> normalize_loop norm names out
      | Some n \<Rightarrow> normalize_loop norm names (if n \<in> set out then out else out @ [n]))"

definition normalizeNames :: "string list \<Rightarrow> string list" where
  "normalizeNames names =
     (if names = [] then []
      else sort (normalize_loop
             (\<lambda>n. let t = TrimSpace n in if t = '''' then None else Some t) names []))"

definition normalizeRoots :: "string list \<Rightarrow> string list" where
  "normalizeRoots roots =
     (if roots = [] then [] else sort (normalize_loop (\<lambda>r. Some (cleanAbs r)) roots []))"

definition empty_Config :: Config where
  "empty_Config =
     \<lparr>AllowedCommands = [], AllowedBuiltins = [], ReadRoots = [], WriteRoots = [],
      cfg_Limits = \<lparr>MaxCommandCount = 0, MaxGlobOperations = 0, MaxBraceExpansionWords = 0,
        MaxLoopIterations = 0, MaxSubstitutionDepth = 0, MaxFunctionDepth = 0, MaxStdoutBytes = 0,
        MaxStderrBytes = 0, MaxFileBytes = 0, MaxVariableBytes = 0, MaxTotalVariableBytes = 0\<rparr>,
      cfg_SymlinkMode = ''''\<rparr>"

definition NewStatic :: "Config option \<Rightarrow> Static" where
  "NewStatic cfg0 =
     (let cfg = (case cfg0 of None \<Rightarrow> empty_Config | Some c \<Rightarrow> c);
          rr = normalizeRoots (ReadRoots cfg); rr' = (if rr = [] then [''/''] else rr);
          wr = normalizeRoots (WriteRoots cfg); wr' = (if wr = [] then [''/''] else wr);
          sm = (if cfg_SymlinkMode cfg = '''' then SymlinkDeny else cfg_SymlinkMode cfg)
      in \<lparr>allowedCommands = normalizeNames (AllowedCommands cfg),
          allowedBuiltins = normalizeNames (AllowedBuiltins cfg),
          readRoots = rr', writeRoots = wr', st_limits = cfg_Limits cfg, symlinkMode = sm\<rparr>)"

definition AllowCommand :: "Static \<Rightarrow> string \<Rightarrow> go_error option" where
  "AllowCommand p name =
     (if allowedCommands p = [] then None
      else if name \<in> set (allowedCommands p) then None
      else Some (DeniedError ''command'' name ''not in allowlist''))"

definition AllowBuiltin :: "Static \<Rightarrow> string \<Rightarrow> go_error option" where
  "AllowBuiltin p name =
     (if allowedBuiltins p = [] then None
      else if name \<in> set (allowedBuiltins p) then None
      else Some (DeniedError ''builtin'' name ''not in allowlist''))"

definition action_roots :: "Static \<Rightarrow> FileAction \<Rightarrow> string list" where
  "action_roots p action =
     (if action = FileActionWrite \<or> action = FileActionMkdir \<or> action = FileActionRemove \<or>
         action = FileActionRename then writeRoots p else readRoots p)"

definition AllowPath :: "Static \<Rightarrow> FileAction \<Rightarrow> string \<Rightarrow> go_error option" where
  "AllowPath p action target0 =
     (let target = cleanAbs target0
      in if list_ex (\<lambda>root. underRoot root target) (action_roots p action) then None
         else Some (DeniedError action target ''outside allowed roots''))"

text \<open>\<open>errors.As\<close> with the type of denials follows the wrappers.\<close>

fun IsDenied :: "go_error \<Rightarrow> bool" where
  "IsDenied (DeniedError _ _ _) = True"
| "IsDenied (PathError _ _ e) = IsDenied e"
| "IsDenied (LinkError _ _ _ e) = IsDenied e"
| "IsDenied (Wrapf _ e) = IsDenied e"
| "IsDenied _ = False"

section \<open>Normalisation\<close>

lemma cleanAbs_eq_Clean: "cleanAbs = Clean"
  by (auto simp: fun_eq_iff cleanAbs_def Clean_def Let_def)

lemma normalize_loop_spec:
  "distinct out \<Longrightarrow> distinct (normalize_loop norm names out) \<and>
   set (normalize_loop norm names out) = set out \<union> {n. \<exists>x \<in> set names. norm x = Some n}"
proof (induction names arbitrary: out)
  case (Cons name names)
  then show ?case by (cases "norm name") auto
qed simp

lemma normalizeRoots_set: "set (normalizeRoots roots) = Clean ` set roots"
  using normalize_loop_spec [of "[]" "\<lambda>r. Some (cleanAbs r)" roots]
  by (auto simp: normalizeRoots_def cleanAbs_eq_Clean)

lemma normalizeRoots_empty: "normalizeRoots roots = [] \<longleftrightarrow> roots = []"
  using normalizeRoots_set [of roots] by (metis image_is_empty set_empty)

lemma underRoot_iff: "underRoot (Clean root) (Clean target) \<longleftrightarrow> prefix (abs_comps root) (abs_comps target)"
  using subtree_iff [of "abs_comps root" "abs_comps target"]
  by (auto simp: underRoot_def Clean_eq)

definition under_roots :: "string list \<Rightarrow> string \<Rightarrow> bool" where
  "under_roots roots target \<longleftrightarrow>
     roots = [] \<or> (\<exists>root \<in> set roots. prefix (abs_comps root) (abs_comps target))"

lemma list_ex_underRoot:
  "list_ex (\<lambda>root. underRoot root (cleanAbs target))
     (if normalizeRoots roots = [] then [''/''] else normalizeRoots roots) \<longleftrightarrow> under_roots roots target"
proof (cases "roots = []")
  case True
  then show ?thesis by (simp add: normalizeRoots_empty underRoot_def under_roots_def)
next
  case False
  then show ?thesis
    by (simp add: normalizeRoots_empty list_ex_iff normalizeRoots_set cleanAbs_eq_Clean
        underRoot_iff under_roots_def)
qed

definition cfg_roots :: "Config \<Rightarrow> FileAction \<Rightarrow> string list" where
  "cfg_roots cfg action =
     (if action = FileActionWrite \<or> action = FileActionMkdir \<or> action = FileActionRemove \<or>
         action = FileActionRename then WriteRoots cfg else ReadRoots cfg)"

lemma AllowPath_iff:
  "AllowPath (NewStatic (Some cfg)) action target = None \<longleftrightarrow> under_roots (cfg_roots cfg action) target"
proof -
  have "action_roots (NewStatic (Some cfg)) action =
      (if normalizeRoots (cfg_roots cfg action) = [] then [''/''] else normalizeRoots (cfg_roots cfg action))"
    by (simp add: action_roots_def NewStatic_def Let_def cfg_roots_def)
  with list_ex_underRoot [of target "cfg_roots cfg action"] show ?thesis
    by (simp add: AllowPath_def Let_def)
qed

section \<open>Properties\<close>

text \<open>
  (C29) A path is allowed exactly when its clean form lies, component by component, at or
  below one of the configured roots of the action (or none is configured): a root
  \<open>/data\<close> admits \<open>/data/x\<close> and neither \<open>/database\<close> nor \<open>/data/../etc\<close>.
\<close>

theorem AllowPath_under_root:
  "AllowPath (NewStatic (Some cfg)) action target = None \<longleftrightarrow>
   (let roots = (if action \<in> {FileActionWrite, FileActionMkdir, FileActionRemove, FileActionRename}
                 then WriteRoots cfg else ReadRoots cfg)
    in roots = [] \<or> (\<exists>root \<in> set roots. \<exists>rest. abs_comps target = abs_comps root @ rest))"
proof -
  have "(if action \<in> {FileActionWrite, FileActionMkdir, FileActionRemove, FileActionRename}
         then WriteRoots cfg else ReadRoots cfg) = cfg_roots cfg action"
    by (simp add: cfg_roots_def)
  then show ?thesis
    by (simp only: AllowPath_iff under_roots_def prefix_def Let_def)
qed

text \<open>
  The command allowlist: with no non-blank entry every command is allowed,
  otherwise exactly the trimmed entries; the same for builtins.
\<close>

theorem AllowCommand_iff:
  "(AllowCommand (NewStatic (Some cfg)) name = None \<longleftrightarrow>
      (\<forall>n \<in> set (AllowedCommands cfg). TrimSpace n = '''') \<or>
      name \<noteq> '''' \<and> name \<in> TrimSpace ` set (AllowedCommands cfg)) \<and>
   (AllowBuiltin (NewStatic (Some cfg)) name = None \<longleftrightarrow>
      (\<forall>n \<in> set (AllowedBuiltins cfg). TrimSpace n = '''') \<or>
      name \<noteq> '''' \<and> name \<in> TrimSpace ` set (AllowedBuiltins cfg))"
proof -
  have s: "set (normalizeNames names) = TrimSpace ` set names - {''''}" for names
    using normalize_loop_spec [of "[]" "\<lambda>n. let t = TrimSpace n in if t = '''' then None else Some t" names]
    by (auto simp: normalizeNames_def Let_def split: if_splits)
  have e: "normalizeNames names = [] \<longleftrightarrow> (\<forall>n \<in> set names. TrimSpace n = '''')" for names
    using s [of names] by (metis (no_types, lifting) Diff_eq_empty_iff image_subset_iff set_empty singleton_iff)
  show ?thesis
    by (auto simp: AllowCommand_def AllowBuiltin_def NewStatic_def Let_def e s)
qed

theorem AllowCommand_iff_witness:
  "AllowCommand (NewStatic (Some (empty_Config\<lparr>AllowedCommands := ['' ls '']\<rparr>))) ''rm'' =
     Some (DeniedError ''command'' ''rm'' ''not in allowlist'')"
proof -
  have "TrimSpace '' ls '' = ''ls''" by code_simp
  with AllowCommand_iff [of "empty_Config\<lparr>AllowedCommands := ['' ls '']\<rparr>" "''rm''"] show ?thesis
    by (auto simp: AllowCommand_def split: if_splits)
qed

end
