(* ===== verification/Walk.thy ===== *)
theory Walk
  imports MemoryFS_Tree
begin

text \<open>
  Following a path for creation as a relation: from the directory \<open>ds\<close> the remaining
  components \<open>cs\<close> lead to the path \<open>res\<close>, through links, up to the first missing
  component. The relation is deterministic and has no bound on the number of links, so
  it relates resolutions that count links differently.
\<close>

inductive cwalk :: "MemoryFS \<Rightarrow> string list \<Rightarrow> string list \<Rightarrow> string list \<Rightarrow> bool" for m where
  arrived: "cwalk m ds [] ds"
| missing: "at m (ds @ [c]) = None \<Longrightarrow> cwalk m ds (c # cs) (ds @ c # cs)"
| follow: "at m (ds @ [c]) = Some r \<Longrightarrow> node_link m r \<Longrightarrow>
    cwalk m [] (abs_comps (Resolve (render ds) (n_target (fs_heap m r))) @ cs) res \<Longrightarrow> cwalk m ds (c # cs) res"
| enter: "at m (ds @ [c]) = Some r \<Longrightarrow> \<not> node_link m r \<Longrightarrow> cs = [] \<or> node_dir m r \<Longrightarrow>
    cwalk m (ds @ [c]) cs res \<Longrightarrow> cwalk m ds (c # cs) res"

inductive_cases cwalk_NilE: "cwalk m ds [] res"
inductive_cases cwalk_ConsE: "cwalk m ds (c # cs) res"

lemma cwalk_deterministic: "cwalk m ds cs p \<Longrightarrow> cwalk m ds cs q \<Longrightarrow> p = q"
proof (induction arbitrary: q rule: cwalk.induct)
  case (arrived ds)
  then show ?case by (auto elim: cwalk_NilE)
next
  case (missing ds c cs)
  from missing.prems missing.hyps show ?case by (auto elim: cwalk_ConsE)
next
  case (follow ds c r cs res)
  from follow.prems follow.hyps(1,2)
  have "cwalk m [] (abs_comps (Resolve (render ds) (n_target (fs_heap m r))) @ cs) q"
    by (auto elim: cwalk_ConsE)
  then show ?case by (rule follow.IH)
next
  case (enter ds c r cs res)
  from enter.prems enter.hyps(1,2) have "cwalk m (ds @ [c]) cs q" by (auto elim: cwalk_ConsE)
  then show ?case by (rule enter.IH)
qed

lemma cwalk_result:
  assumes "cwalk m ds cs ps" "fs_wf m" "valid_comps (ds @ cs)" "phys m ds"
    "\<And>r. at m ds = Some r \<Longrightarrow> \<not> node_link m r" "cs \<noteq> [] \<Longrightarrow> is_dir m ds"
  shows "valid_comps ps \<and> creatable m ps"
  using assms
proof (induction rule: cwalk.induct)
  case (arrived ds)
  then show ?case by (auto intro: phys_creatable)
next
  case (missing ds c cs)
  then show ?case using creatable_missing [of m "ds @ [c]" cs] by (simp add: phys_snoc)
next
  case (follow ds c r cs res)
  have "\<not> node_link m r0" if "at m [] = Some r0" for r0
    using wf_root [OF follow.prems(1)] that wf_dir_not_link [OF follow.prems(1), of "[]"]
    by (auto simp: is_dir_def)
  with follow wf_root show ?case by simp
next
  case (enter ds c r cs res)
  then show ?case by (auto simp: phys_snoc is_dir_def)
qed

lemma cwalk_result_root:
  assumes "cwalk m [] cs ps" "fs_wf m" "valid_comps cs"
  shows "valid_comps ps" "creatable m ps"
proof -
  have "\<not> node_link m r" if "at m [] = Some r" for r
    using wf_root [OF assms(2)] that wf_dir_not_link [OF assms(2), of "[]"] by (auto simp: is_dir_def)
  with cwalk_result [OF assms(1,2)] assms(3) wf_root [OF assms(2)]
  show "valid_comps ps" "creatable m ps" by simp_all
qed

text \<open>A walk can be cut after any number of components, and put together again.\<close>

lemma cwalk_compose:
  assumes "cwalk m ds cs ps" "fs_wf m" "valid_comps (ds @ cs @ zs)" "cwalk m ps zs q"
    "zs \<noteq> [] \<Longrightarrow> at m ps = None \<or> is_dir m ps"
  shows "cwalk m ds (cs @ zs) q"
  using assms
proof (induction rule: cwalk.induct)
  case (missing ds c cs)
  have none: "at m (ds @ c # cs) = None"
    using wf_missing_below [OF missing.prems(1) _ missing.hyps, of cs] missing.prems(2) by simp
  have "q = ds @ c # cs @ zs"
  proof (cases zs)
    case Nil
    with missing.prems(3) show ?thesis by (auto elim: cwalk_NilE)
  next
    case (Cons z zs')
    have "at m ((ds @ c # cs) @ [z]) = None"
      using wf_missing_below [OF missing.prems(1) _ none, of "[z]"] missing.prems(2) Cons by simp
    with missing.prems(3) Cons show ?thesis by (auto elim: cwalk_ConsE)
  qed
  with cwalk.missing [OF missing.hyps, of "cs @ zs"] show ?case by simp
next
  case (follow ds c r cs res)
  then have "cwalk m [] ((abs_comps (Resolve (render ds) (n_target (fs_heap m r))) @ cs) @ zs) q" by simp
  with follow show ?case by (auto intro: cwalk.follow)
next
  case (enter ds c r cs res)
  have "cs @ zs = [] \<or> node_dir m r"
  proof (cases "cs = [] \<and> zs \<noteq> []")
    case True
    with enter.hyps(4) have "res = ds @ [c]" by (auto elim: cwalk_NilE)
    with True enter show ?thesis by (auto simp: is_dir_def)
  qed (use enter.hyps(3) in auto)
  with enter show ?case by (auto intro: cwalk.enter)
qed simp

lemma cwalk_cut:
  assumes "cwalk m ds xs q" "xs = cs @ [c]" "fs_wf m" "valid_comps (ds @ xs)" "is_dir m ds"
  shows "\<exists>ps. cwalk m ds cs ps \<and> cwalk m ps [c] q \<and> (at m ps = None \<or> is_dir m ps)"
  using assms
proof (induction arbitrary: cs rule: cwalk.induct)
  case (missing ds e es)
  show ?case
  proof (cases cs)
    case Nil
    with missing cwalk.missing [OF missing.hyps, of "[]"] show ?thesis by (auto intro: cwalk.arrived)
  next
    case (Cons e' cs')
    with missing.prems(1) have e: "e' = e" "es = cs' @ [c]" by auto
    have none: "at m (ds @ e # cs') = None" "at m ((ds @ e # cs') @ [c]) = None"
      using wf_missing_below [OF missing.prems(2) _ missing.hyps, of cs']
        wf_missing_below [OF missing.prems(2) _ missing.hyps, of "cs' @ [c]"] missing.prems(3) e by simp_all
    with cwalk.missing [OF missing.hyps, of cs'] cwalk.missing [OF none(2), of "[]"] Cons e
    show ?thesis by (intro exI [of _ "ds @ e # cs'"]) simp
  qed
next
  case (follow ds e r es res)
  show ?case
  proof (cases cs)
    case Nil
    with follow.prems(1) have "cwalk m ds [c] res"
      using cwalk.follow [OF follow.hyps(1-3)] by simp
    with Nil follow.prems show ?thesis by (intro exI [of _ ds]) (simp add: cwalk.arrived)
  next
    case (Cons e' cs')
    with follow.prems(1) have e: "e' = e" "es = cs' @ [c]" by auto
    let ?ts = "abs_comps (Resolve (render ds) (n_target (fs_heap m r)))"
    have "\<exists>ps. cwalk m [] (?ts @ cs') ps \<and> cwalk m ps [c] res \<and> (at m ps = None \<or> is_dir m ps)"
      by (rule follow.IH) (use e follow.prems wf_root in auto)
    with follow.hyps Cons e show ?thesis by (auto intro: cwalk.follow)
  qed
next
  case (enter ds e r es res)
  show ?case
  proof (cases cs)
    case Nil
    with enter.prems(1) have "cwalk m ds [c] res"
      using cwalk.enter [OF enter.hyps] by simp
    with Nil enter.prems show ?thesis by (intro exI [of _ ds]) (simp add: cwalk.arrived)
  next
    case (Cons e' cs')
    with enter.prems(1) have e: "e' = e" "es = cs' @ [c]" by auto
    with enter.hyps have nd: "node_dir m r" by auto
    have "\<exists>ps. cwalk m (ds @ [e]) cs' ps \<and> cwalk m ps [c] res \<and> (at m ps = None \<or> is_dir m ps)"
      by (rule enter.IH) (use e enter nd in \<open>auto simp: is_dir_def\<close>)
    with enter.hyps Cons e nd show ?thesis by (auto intro: cwalk.enter)
  qed
qed simp

section \<open>The resolutions of the file system as walks\<close>

lemma restart_comps:
  assumes "valid_comps ds" "valid_comps cs"
  shows "abs_comps (if cs = [] then Resolve (render ds) t else Resolve (Resolve (render ds) t) (join_with slash cs)) =
     abs_comps (Resolve (render ds) t) @ cs"
proof -
  obtain ts where ts: "valid_comps ts" "Resolve (render ds) t = render ts"
    by (rule clean_pathE [OF Resolve_clean])
  with assms show ?thesis by (auto simp: Resolve_join)
qed

lemma resolveAbs_loop_walk:
  assumes "valid_comps (ds @ cs)" "cs \<noteq> []"
  shows "(\<forall>p ref. resolveAbs_loop m True am (render ds) (join_with slash cs) = Return (Inr (p, ref)) \<longrightarrow>
            cwalk m ds cs (abs_comps p)) \<and>
     (\<forall>t q. resolveAbs_loop m True am (render ds) (join_with slash cs) = Restart t \<longrightarrow>
            (cwalk m ds cs q \<longleftrightarrow> cwalk m [] (abs_comps t) q))"
  using assms
proof (induction cs arbitrary: ds)
  case (Cons c cs)
  note e1 = resolveAbs_loop_Cons [OF Cons.prems(1), of m True am]
  have v: "valid_comps ds" "valid_comps (ds @ [c])" "valid_comps cs" using Cons.prems(1) by auto
  show ?case
  proof (cases "at m (ds @ [c])")
    case None
    with v show ?thesis unfolding e1 by (auto intro: cwalk.missing)
  next
    case (Some r)
    have L: "cwalk m ds (c # cs) q \<longleftrightarrow>
        cwalk m [] (abs_comps (Resolve (render ds) (n_target (fs_heap m r))) @ cs) q" if "node_link m r" for q
      using that Some by (auto intro: cwalk.follow elim: cwalk_ConsE)
    have E: "cwalk m ds (c # cs) q \<longleftrightarrow> cwalk m (ds @ [c]) cs q" if "\<not> node_link m r" "node_dir m r" for q
      using that Some by (auto intro: cwalk.enter elim: cwalk_ConsE)
    have D: "cwalk m ds [c] (ds @ [c])" if "\<not> node_link m r"
      using that Some by (auto intro: cwalk.enter cwalk.arrived)
    show ?thesis
      using Some v L E D Cons.IH [of "ds @ [c]"] Cons.prems restart_comps [OF v(1,3)]
      unfolding e1 by (cases "cs = []") auto
  qed
qed simp

lemma resolveCreate_loop_walk:
  assumes "valid_comps (ds @ cs)" "cs \<noteq> []"
  shows "(\<forall>p. resolveCreate_loop m u (render ds) (join_with slash cs) = Return (Inr p) \<longrightarrow>
            cwalk m ds cs (abs_comps p)) \<and>
     (\<forall>t q. resolveCreate_loop m u (render ds) (join_with slash cs) = Restart t \<longrightarrow>
            (cwalk m ds cs q \<longleftrightarrow> cwalk m [] (abs_comps t) q))"
  using assms
proof (induction cs arbitrary: ds)
  case (Cons c cs)
  note e1 = resolveCreate_loop_Cons [OF Cons.prems(1), of m u]
  have v: "valid_comps ds" "valid_comps (ds @ [c])" "valid_comps cs" "valid_comps (ds @ c # cs)"
    using Cons.prems(1) by auto
  show ?case
  proof (cases "at m (ds @ [c])")
    case None
    with v show ?thesis unfolding e1 by (auto intro: cwalk.missing)
  next
    case (Some r)
    have L: "cwalk m ds (c # cs) q \<longleftrightarrow>
        cwalk m [] (abs_comps (Resolve (render ds) (n_target (fs_heap m r))) @ cs) q" if "node_link m r" for q
      using that Some by (auto intro: cwalk.follow elim: cwalk_ConsE)
    have E: "cwalk m ds (c # cs) q \<longleftrightarrow> cwalk m (ds @ [c]) cs q" if "\<not> node_link m r" "node_dir m r" for q
      using that Some by (auto intro: cwalk.enter elim: cwalk_ConsE)
    have D: "cwalk m ds [c] (ds @ [c])" if "\<not> node_link m r"
      using that Some by (auto intro: cwalk.enter cwalk.arrived)
    show ?thesis
      using Some v L E D Cons.IH [of "ds @ [c]"] Cons.prems restart_comps [OF v(1,3)]
      unfolding e1 by (cases "cs = []") auto
  qed
qed simp

lemma resolveAbs_walk:
  "resolveAbsLocked m name True am d = Inr (p, ref) \<Longrightarrow> cwalk m [] (abs_comps name) (abs_comps p)"
proof (induction "Suc maxSymlinkDepth - d" arbitrary: name d rule: less_induct)
  case less
  define cs where "cs = abs_comps name"
  have v: "valid_comps cs" and cl: "Clean name = render cs" by (simp_all add: cs_def Clean_eq)
  have d: "\<not> maxSymlinkDepth < d" using less.prems by (auto simp: resolveAbsLocked.simps [of m name])
  show ?case
  proof (cases "cs = []")
    case True
    with less.prems cl d have "p = render []"
      by (auto simp: resolveAbsLocked.simps [of m name] Let_def split: option.splits)
    moreover have "abs_comps (render []) = []" by (rule abs_comps_render) simp
    ultimately show ?thesis using True by (simp add: cs_def cwalk.arrived)
  next
    case False
    have c: "(case resolveAbs_loop m True am (render []) (join_with slash cs) of
        Return r \<Rightarrow> r | Restart t \<Rightarrow> resolveAbsLocked m t True am (Suc d)) = Inr (p, ref)"
      using less.prems cl d False v by (simp add: resolveAbsLocked.simps [of m name] tl_render)
    with resolveAbs_loop_walk [of "[]" cs m am] v False less.hyps [of "Suc d"] d
    show ?thesis by (cases "resolveAbs_loop m True am (render []) (join_with slash cs)") (auto simp: cs_def)
  qed
qed

lemma resolveCreate_walk:
  "resolveCreatePathLocked m name d = Inr p \<Longrightarrow> cwalk m [] (abs_comps name) (abs_comps p)"
proof (induction "Suc maxSymlinkDepth - d" arbitrary: name d rule: less_induct)
  case less
  define cs where "cs = abs_comps name"
  have v: "valid_comps cs" and cl: "Clean name = render cs" by (simp_all add: cs_def Clean_eq)
  have d: "\<not> maxSymlinkDepth < d" using less.prems by (auto simp: resolveCreatePathLocked.simps [of m name])
  show ?case
  proof (cases "cs = []")
    case True
    with less.prems cl d show ?thesis
      by (auto simp: resolveCreatePathLocked.simps [of m name] cs_def cwalk.arrived abs_comps_slash [of "''''"])
  next
    case False
    have c: "(case resolveCreate_loop m (render cs) (render []) (join_with slash cs) of
        Return r \<Rightarrow> r | Restart t \<Rightarrow> resolveCreatePathLocked m t (Suc d)) = Inr p"
      using less.prems cl d False v by (simp add: resolveCreatePathLocked.simps [of m name] tl_render)
    with resolveCreate_loop_walk [of "[]" cs m "render cs"] v False less.hyps [of "Suc d"] d
    show ?thesis by (cases "resolveCreate_loop m (render cs) (render []) (join_with slash cs)") (auto simp: cs_def)
  qed
qed

text \<open>Where a walk exists, the strict resolution fails only for a missing end or too many links.\<close>

lemma walk_loop_error:
  assumes "fs_wf m" "valid_comps (ds @ cs)" "cs \<noteq> []" "cwalk m ds cs q"
    "resolveAbs_loop m True False (render ds) (join_with slash cs) = Return (Inl e)"
  shows "e = Errno ErrNotExist \<and> at m q = None"
  using assms
proof (induction cs arbitrary: ds)
  case (Cons c cs)
  note e1 = Cons.prems(5) [unfolded resolveAbs_loop_Cons [OF Cons.prems(2), of m True False]]
  show ?case
  proof (cases "at m (ds @ [c])")
    case None
    with Cons.prems(4) have "q = ds @ c # cs" by (auto elim: cwalk_ConsE)
    with wf_missing_below [OF Cons.prems(1) _ None, of cs] Cons.prems(2) e1 None show ?thesis by simp
  next
    case (Some r)
    with e1 have nl: "\<not> node_link m r" "cs \<noteq> []" by (auto split: if_splits)
    with Cons.prems(4) Some have d: "node_dir m r" "cwalk m (ds @ [c]) cs q" by (auto elim: cwalk_ConsE)
    from Cons.IH [of "ds @ [c]"] Cons.prems e1 Some nl d show ?thesis by simp
  qed
qed simp

lemma walk_error:
  assumes "fs_wf m" "cwalk m [] (abs_comps name) q" "resolveAbsLocked m name True False d = Inl e"
  shows "e = Errno ErrTooManySymlinks \<or> e = Errno ErrNotExist \<and> at m q = None"
  using assms
proof (induction "Suc maxSymlinkDepth - d" arbitrary: name d rule: less_induct)
  case less
  define cs where "cs = abs_comps name"
  have v: "valid_comps cs" and cl: "Clean name = render cs" by (simp_all add: cs_def Clean_eq)
  show ?case
  proof (cases "maxSymlinkDepth < d")
    case True
    with less.prems show ?thesis by (simp add: resolveAbsLocked.simps [of m name])
  next
    case d: False
    from wf_root [OF less.prems(1)] obtain r0 where r0: "at m [] = Some r0" by (auto elim: is_dirE)
    have ne: "cs \<noteq> []" using less.prems(3) cl d r0 by (auto simp: resolveAbsLocked.simps [of m name] at_def)
    have c: "(case resolveAbs_loop m True False (render []) (join_with slash cs) of
        Return r \<Rightarrow> r | Restart t \<Rightarrow> resolveAbsLocked m t True False (Suc d)) = Inl e"
      using less.prems(3) cl d ne v by (simp add: resolveAbsLocked.simps [of m name] tl_render)
    have w: "cwalk m [] cs q" using less.prems(2) by (simp add: cs_def)
    show ?thesis
    proof (cases "resolveAbs_loop m True False (render []) (join_with slash cs)")
      case (Return x)
      with walk_loop_error [OF less.prems(1), of "[]" cs q e] v ne w c show ?thesis by simp
    next
      case (Restart t)
      with resolveAbs_loop_walk [of "[]" cs m False] v ne w have "cwalk m [] (abs_comps t) q" by simp
      with less.hyps [of "Suc d" t] d less.prems(1) c Restart show ?thesis by simp
    qed
  qed
qed

lemma cwalk_cong:
  assumes "cwalk m ds cs q" "\<And>cs. at m' cs = at m cs"
    "\<And>r. n_mode (fs_heap m' r) = n_mode (fs_heap m r)" "\<And>r. n_target (fs_heap m' r) = n_target (fs_heap m r)"
  shows "cwalk m' ds cs q"
  using assms
proof (induction rule: cwalk.induct)
  case (follow ds c r cs res)
  then show ?case using cwalk.follow [of m' ds c r cs res] by (simp add: node_link_def)
next
  case (enter ds c r cs res)
  then show ?case using cwalk.enter [of m' ds c r cs res] by (simp add: node_link_def node_dir_def)
qed (auto intro: cwalk.arrived cwalk.missing)

lemma open_preload_same:
  assumes "open_preload name flag m = (res, m')"
  shows "at m' cs = at m cs" "n_mode (fs_heap m' r) = n_mode (fs_heap m r)"
    "n_target (fs_heap m' r) = n_target (fs_heap m r)" "fs_cwd m' = fs_cwd m"
  using assms
  by (auto simp: open_preload_def materializePath_def materializeNode_def Let_def
      split: if_splits sum.splits prod.splits option.splits)

text \<open>The path of a handle is where the walk of the opened name ends.\<close>

definition handle_path :: "handle \<Rightarrow> string" where
  "handle_path h = (case h of PlainFile f \<Rightarrow> mf_path f | FifoHandle f r \<Rightarrow> ff_path f)"

lemma open_walk:
  assumes "mem_OpenFile now name flag perm m = (Inr h, m')"
  shows "cwalk m [] (abs_comps (Resolve (fs_cwd m) name)) (abs_comps (handle_path h))"
proof -
  from assms obtain u m1 p ref r m2 where pre: "open_preload name flag m = (Inr u, m1)"
    and loc: "open_locate name flag m1 = Inr (p, ref)"
    and fin: "open_finish now flag p r m2 = (Inr h, m')"
    by (auto simp: mem_OpenFile_def split: sum.splits prod.splits)
  note s = open_preload_same [OF pre]
  have hp: "handle_path h = p"
    using fin by (auto simp: open_finish_def handle_path_def newMemoryFIFOFile_def Let_def
        split: if_splits prod.splits)
  have "cwalk m1 [] (abs_comps (Resolve (fs_cwd m1) name)) (abs_comps p)"
    using loc by (auto simp: open_locate_def Let_def resolvePathLocked_def
        split: if_splits sum.splits prod.splits option.splits
        intro: resolveCreate_walk resolveAbs_walk)
  from cwalk_cong [OF this] s hp show ?thesis by simp
qed

end
