(* ===== verification/PathCheck.thy ===== *)
theory PathCheck
  imports Policy Walk
begin

text \<open>
  The path check of \<open>policy/pathcheck.go\<close>, made before every file operation of a
  command. A policy and a file system enter through the methods the check calls; the
  file system's contract is the locale \<open>path_backend\<close>, interpreted on the in-memory
  file system.
\<close>

section \<open>The check\<close>

text \<open>The methods of the file system and of the policy that the check calls.\<close>

record fs_view =
  v_Realpath :: "string \<Rightarrow> go_error + string"
  v_Lstat :: "string \<Rightarrow> go_error + FileMode"
  v_Readlink :: "string \<Rightarrow> go_error + string"

record policy_view =
  pol_AllowPath :: "FileAction \<Rightarrow> string \<Rightarrow> go_error option"
  pol_SymlinkMode :: SymlinkMode

definition static_policy :: "Static \<Rightarrow> policy_view" where
  "static_policy p = \<lparr>pol_AllowPath = AllowPath p, pol_SymlinkMode = symlinkMode p\<rparr>"

definition maxSymlinkHops :: nat where "maxSymlinkHops = 40"

lemma path_Dir_shorter:
  assumes "cleanAbs t \<noteq> ''/''"
  shows "length (abs_comps (path_Dir (cleanAbs t))) < length (abs_comps t)"
proof -
  from assms have "abs_comps t \<noteq> []" by (simp add: cleanAbs_eq_Clean Clean_eq)
  then obtain cs c where cs: "abs_comps t = cs @ [c]" by (metis rev_exhaust)
  then have "valid_comps (cs @ [c])" using abs_comps_valid [of t] by simp
  with cs show ?thesis by (simp add: cleanAbs_eq_Clean Clean_eq path_Dir_render)
qed

text \<open>
  \<open>resolveMaybeMissing\<close>: an existing path is resolved by the file system, a missing
  one through its deepest existing ancestor and any dangling links.
\<close>

function resolveMaybeMissing :: "fs_view \<Rightarrow> string \<Rightarrow> bool \<Rightarrow> nat \<Rightarrow> go_error + string" where
  "resolveMaybeMissing V target0 followFinal hops =
     (let target = cleanAbs target0
      in if maxSymlinkHops < hops then Inl (Errno ErrTooManySymlinks)
         else
           let direct = (if followFinal then
                           (case v_Realpath V target of
                              Inr r \<Rightarrow> Some (Inr (cleanAbs r))
                            | Inl e \<Rightarrow> if errors_Is e ErrNotExist then None else Some (Inl e))
                         else None)
           in if direct \<noteq> None then the direct
              else if target = ''/'' then Inr target
              else
                (case resolveMaybeMissing V (path_Dir target) True hops of
                   Inl e \<Rightarrow> Inl e
                 | Inr parent \<Rightarrow>
                     let candidate = cleanAbs (path_Join parent (path_Base target))
                     in if \<not> followFinal then Inr candidate
                        else
                          (case v_Lstat V candidate of
                             Inl e \<Rightarrow> if errors_Is e ErrNotExist then Inr candidate else Inl e
                           | Inr mode \<Rightarrow>
                               if mode AND ModeSymlink = 0 then Inr candidate
                               else
                                 (case v_Readlink V candidate of
                                    Inl e \<Rightarrow> Inl e
                                  | Inr link \<Rightarrow>
                                      resolveMaybeMissing V
                                        (if path_IsAbs link then link else path_Join parent link)
                                        True (Suc hops)))))"
  by pat_completeness auto
termination
  by (relation "measures [\<lambda>(V, t, f, hops). Suc maxSymlinkHops - hops, \<lambda>(V, t, f, hops). length (abs_comps t)]")
    (auto simp: path_Dir_shorter maxSymlinkHops_def)

declare resolveMaybeMissing.simps [simp del]

definition resolveTarget :: "fs_view \<Rightarrow> FileAction \<Rightarrow> string \<Rightarrow> go_error + string \<times> bool" where
  "resolveTarget V action target =
     (if action \<in> {FileActionRead, FileActionStat, FileActionReadDir} then
        (case v_Realpath V target of
           Inl e \<Rightarrow> Inl e
         | Inr r \<Rightarrow> Inr (cleanAbs r, cleanAbs r \<noteq> cleanAbs target))
      else if action \<in> {FileActionLstat, FileActionReadlink, FileActionRemove, FileActionRename} then
        (case resolveMaybeMissing V target False 0 of
           Inl e \<Rightarrow> Inl e
         | Inr r \<Rightarrow> Inr (r, r \<noteq> cleanAbs target))
      else if action \<in> {FileActionWrite, FileActionMkdir} then
        (case resolveMaybeMissing V target True 0 of
           Inl e \<Rightarrow> Inl e
         | Inr r \<Rightarrow> Inr (r, r \<noteq> cleanAbs target))
      else Inr (target, False))"

definition CheckPath ::
  "policy_view option \<Rightarrow> fs_view option \<Rightarrow> FileAction \<Rightarrow> string \<Rightarrow> go_error option" where
  "CheckPath pol0 fsys action target0 =
     (let target = cleanAbs target0
      in (case pol0 of
            None \<Rightarrow> None
          | Some pol \<Rightarrow>
              (case pol_AllowPath pol action target of
                 Some e \<Rightarrow> Some e
               | None \<Rightarrow>
                   (case fsys of
                      None \<Rightarrow> None
                    | Some V \<Rightarrow>
                        (case resolveTarget V action target of
                           Inl e \<Rightarrow>
                             if errors_Is e ErrNotExist \<or> errors_Is e ErrInvalid then None else Some e
                         | Inr (resolved, traversed) \<Rightarrow>
                             if traversed \<and> pol_SymlinkMode pol = SymlinkDeny
                             then Some (DeniedError action target ''symlink traversal denied'')
                             else if resolved \<noteq> target then pol_AllowPath pol action resolved
                             else None)))))"

section \<open>The contract of a backend\<close>

text \<open>
  What the check relies on: a resolved path is clean and resolves to itself, and a path
  whose resolution fails for another reason than a missing entry fails for every use.
\<close>

locale path_backend =
  fixes view :: "'s \<Rightarrow> fs_view" and inv :: "'s \<Rightarrow> bool"
  assumes realpath_clean: "inv s \<Longrightarrow> v_Realpath (view s) p = Inr q \<Longrightarrow> clean_path q"
    and realpath_idem: "inv s \<Longrightarrow> v_Realpath (view s) p = Inr q \<Longrightarrow> v_Realpath (view s) q = Inr q"
begin

text \<open>An allowed read stays under the roots also where links lead.\<close>

lemma check_read_sound:
  assumes i: "inv s" and act: "action \<in> {FileActionRead, FileActionStat, FileActionReadDir}"
    and ok: "CheckPath (Some pol) (Some (view s)) action target = None"
    and res: "v_Realpath (view s) (cleanAbs target) = Inr q"
  shows "pol_AllowPath pol action (cleanAbs target) = None" "pol_AllowPath pol action q = None"
    "pol_SymlinkMode pol = SymlinkDeny \<Longrightarrow> q = cleanAbs target"
proof -
  have q: "cleanAbs q = q" using realpath_clean [OF i res] by (simp add: cleanAbs_eq_Clean Clean_id)
  have t: "cleanAbs (cleanAbs target) = cleanAbs target"
    using Clean_id [OF clean_path_Clean] by (simp add: cleanAbs_eq_Clean)
  have rt: "resolveTarget (view s) action (cleanAbs target) = Inr (q, q \<noteq> cleanAbs target)"
    using act res q t by (simp add: resolveTarget_def)
  show a: "pol_AllowPath pol action (cleanAbs target) = None"
    using ok by (auto simp: CheckPath_def Let_def split: option.splits)
  show "pol_AllowPath pol action q = None" "pol_SymlinkMode pol = SymlinkDeny \<Longrightarrow> q = cleanAbs target"
    using ok a rt by (auto simp: CheckPath_def Let_def split: option.splits if_splits)
qed

text \<open>Nothing changes for a path that is already resolved.\<close>

lemma check_resolved:
  assumes i: "inv s" and act: "action \<in> {FileActionRead, FileActionStat, FileActionReadDir}"
    and res: "v_Realpath (view s) p = Inr q"
  shows "CheckPath (Some pol) (Some (view s)) action q = pol_AllowPath pol action q"
proof -
  have q: "cleanAbs q = q" using realpath_clean [OF i res] by (simp add: cleanAbs_eq_Clean Clean_id)
  have "resolveTarget (view s) action q = Inr (q, False)"
    using act realpath_idem [OF i res] q by (simp add: resolveTarget_def)
  with q show ?thesis by (auto simp: CheckPath_def Let_def split: option.splits)
qed

end

section \<open>The in-memory file system as a backend\<close>

text \<open>
  \<open>Lstat\<close> may load the contents of a lazy file; what it reports of the tree does not
  depend on that, so the view keeps its result only.
\<close>

definition mem_view :: "MemoryFS \<Rightarrow> fs_view" where
  "mem_view m =
     \<lparr>v_Realpath = (\<lambda>p. mem_Realpath p m),
      v_Lstat = (\<lambda>p. case fst (mem_Lstat p m) of Inl e \<Rightarrow> Inl e | Inr i \<Rightarrow> Inr (fi_mode i)),
      v_Readlink = (\<lambda>p. mem_Readlink p m)\<rparr>"

lemma mem_view_Realpath [simp]: "v_Realpath (mem_view m) p = mem_Realpath p m"
  by (simp add: mem_view_def)

lemma mem_Realpath_idem:
  assumes "fs_wf m" "mem_Realpath p m = Inr q"
  shows "mem_Realpath q m = Inr q"
proof -
  from assms obtain cs r where c: "valid_comps cs" "q = render cs" "at m cs = Some r" "phys m cs"
    "\<not> node_link m r" by (rule mem_Realpath_result)
  then have "resolvePathLocked m q True False = Inr (q, Some r)"
    using resolvePathLocked_ident [OF assms(1) c(1,4), of False True] by auto
  then show ?thesis by (simp add: mem_Realpath_def)
qed

interpretation mem: path_backend mem_view fs_wf
proof
  show "clean_path q" if "fs_wf s" "v_Realpath (mem_view s) p = Inr q" for s p q
  proof -
    from that(2) have "mem_Realpath p s = Inr q" by (simp add: mem_view_def)
    with that(1) show ?thesis by (rule mem_Realpath_result) simp
  qed
  show "v_Realpath (mem_view s) q = Inr q" if "fs_wf s" "v_Realpath (mem_view s) p = Inr q" for s p q
    using mem_Realpath_idem [of s p q] that by (simp add: mem_view_def)
qed

section \<open>The check before a write\<close>

lemma resolve_physical_name:
  assumes "valid_comps cs"
  shows "Resolve d (render cs) = render cs"
  using assms Resolve_abs [of "render cs" d] by (simp add: HasPrefix_def) (simp add: render_def)

text \<open>What \<open>Lstat\<close> and \<open>Readlink\<close> report below a path without links.\<close>

lemma lstat_below_dir:
  assumes wf: "fs_wf m" and v: "valid_comps (ps @ [c])" and d: "is_dir m ps" "phys m ps"
  shows "at m (ps @ [c]) = None \<Longrightarrow> \<exists>e. v_Lstat (mem_view m) (render (ps @ [c])) = Inl e \<and> errors_Is e ErrNotExist"
    and "at m (ps @ [c]) = Some r \<Longrightarrow> node_link m r \<Longrightarrow>
      v_Lstat (mem_view m) (render (ps @ [c])) = Inr (n_mode (fs_heap m r)) \<and>
      v_Readlink (mem_view m) (render (ps @ [c])) = Inr (n_target (fs_heap m r))"
    and "at m (ps @ [c]) = Some r \<Longrightarrow> v_Lstat (mem_view m) (render (ps @ [c])) = Inr md \<Longrightarrow>
      md = n_mode (fs_heap m r)"
proof -
  have ph: "phys m (ps @ [c])" using d by (simp add: phys_snoc)
  have rs: "resolvePathLocked m (render (ps @ [c])) False False = Inr (render (ps @ [c]), Some r)"
    if "at m (ps @ [c]) = Some r" for r
    using resolvePathLocked_ident [OF wf v ph, of False False] that by simp
  have "resolvePathLocked m (render (ps @ [c])) False False = Inl (Errno ErrNotExist)" if "at m (ps @ [c]) = None"
  proof -
    have "resolveAbs_loop m False False (render []) (join_with slash (ps @ [c])) = Return (Inl (Errno ErrNotExist))"
      using d that v
    proof -
      have "resolveAbs_loop m False False (render ds) (join_with slash (es @ [c])) = Return (Inl (Errno ErrNotExist))"
        if "ps = ds @ es" for ds es
        using that
      proof (induction es arbitrary: ds)
        case Nil
        with resolveAbs_loop_Cons [of ds c "[]" m False False] v \<open>at m (ps @ [c]) = None\<close> show ?case by simp
      next
        case (Cons e es)
        have "is_dir m (ds @ [e])"
        proof (cases "es = []")
          case False
          with Cons.prems have "strict_prefix (ds @ [e]) ps" by (auto simp: strict_prefix_def)
          with d(2) show ?thesis by (simp add: phys_def)
        qed (use Cons.prems d in simp)
        then obtain x where x: "at m (ds @ [e]) = Some x" "node_dir m x" by (rule is_dirE)
        have "\<not> node_link m x" using wf_dir_not_link [OF wf _ x] v Cons.prems by simp
        with x Cons.IH [of "ds @ [e]"] Cons.prems v resolveAbs_loop_Cons [of ds e "es @ [c]" m False False]
        show ?case by simp
      qed
      from this [of "[]" ps] show ?thesis by simp
    qed
    with v resolve_physical_name [OF v, of "fs_cwd m"] show ?thesis
      by (simp add: resolvePathLocked_def resolveAbsLocked.simps [of m "render (ps @ [c])"] tl_render
          maxSymlinkDepth_def)
  qed
  then show "\<exists>e. v_Lstat (mem_view m) (render (ps @ [c])) = Inl e \<and> errors_Is e ErrNotExist"
    if "at m (ps @ [c]) = None"
    using that by (simp add: mem_view_def mem_Lstat_def mem_stat_op_def materializePath_def)
  show "v_Lstat (mem_view m) (render (ps @ [c])) = Inr (n_mode (fs_heap m r)) \<and>
      v_Readlink (mem_view m) (render (ps @ [c])) = Inr (n_target (fs_heap m r))"
    if "at m (ps @ [c]) = Some r" "node_link m r"
    using rs [OF that(1)] that
    by (simp add: mem_view_def mem_Lstat_def mem_stat_op_def materializePath_def isLazyFileNode_def
        node_link_def node_at_def at_def newFileInfo_def mem_Readlink_def)
  show "md = n_mode (fs_heap m r)"
    if "at m (ps @ [c]) = Some r" "v_Lstat (mem_view m) (render (ps @ [c])) = Inr md"
    using rs [OF that(1)] that
    by (auto simp: mem_view_def mem_Lstat_def mem_stat_op_def materializePath_def materializeNode_def Let_def
        node_at_def at_def newFileInfo_def split: if_splits option.splits sum.splits prod.splits)
qed

lemma lstat_below_missing:
  assumes wf: "fs_wf m" and v: "valid_comps (ps @ [c])" and cr: "creatable m ps" and none: "at m ps = None"
  shows "\<exists>e. v_Lstat (mem_view m) (render (ps @ [c])) = Inl e \<and> errors_Is e ErrNotExist"
proof -
  have "resolveAbs_loop m False False (render ds) (join_with slash (es @ [c])) = Return (Inl (Errno ErrNotExist))"
    if "ps = ds @ es" "es \<noteq> []" for ds es
    using that
  proof (induction es arbitrary: ds)
    case (Cons e es)
    show ?case
    proof (cases "at m (ds @ [e])")
      case None
      with resolveAbs_loop_Cons [of ds e "es @ [c]" m False False] v Cons.prems show ?thesis by simp
    next
      case (Some x)
      with none Cons.prems have ne: "es \<noteq> []" by auto
      with Cons.prems have "strict_prefix (ds @ [e]) ps" by (auto simp: strict_prefix_def)
      with cr Some have nd: "node_dir m x" by (auto simp: creatable_def is_dir_def)
      have "\<not> node_link m x" using wf_dir_not_link [OF wf _ Some nd] v Cons.prems by simp
      with Some nd Cons.IH [of "ds @ [e]"] ne Cons.prems v resolveAbs_loop_Cons [of ds e "es @ [c]" m False False]
      show ?thesis by simp
    qed
  qed simp
  moreover have "ps \<noteq> []" using none wf_root [OF wf] by (auto simp: is_dir_def)
  ultimately have "resolveAbs_loop m False False (render []) (join_with slash (ps @ [c])) =
      Return (Inl (Errno ErrNotExist))" by blast
  with v resolve_physical_name [OF v, of "fs_cwd m"]
  have "resolvePathLocked m (render (ps @ [c])) False False = Inl (Errno ErrNotExist)"
    by (simp add: resolvePathLocked_def resolveAbsLocked.simps [of m "render (ps @ [c])"] tl_render
        maxSymlinkDepth_def)
  then show ?thesis by (simp add: mem_view_def mem_Lstat_def mem_stat_op_def materializePath_def)
qed

definition hop_error :: "go_error \<Rightarrow> bool" where
  "hop_error e \<longleftrightarrow> \<not> errors_Is e ErrNotExist \<and> \<not> errors_Is e ErrInvalid"

definition lands_on :: "string list \<Rightarrow> go_error + string \<Rightarrow> bool" where
  "lands_on q res \<longleftrightarrow> (\<forall>p. res = Inr p \<longrightarrow> p = render q) \<and> (\<forall>e. res = Inl e \<longrightarrow> hop_error e)"

lemma lands_on_simps [simp]:
  "lands_on q (Inr p) \<longleftrightarrow> p = render q" "lands_on q (Inl e) \<longleftrightarrow> hop_error e"
  by (simp_all add: lands_on_def)

lemma candidate_eq:
  assumes "valid_comps (ps @ [c])"
  shows "cleanAbs (path_Join (render ps) c) = render (ps @ [c])"
proof -
  from assms have "c \<noteq> []" "slash \<notin> set c" by (auto simp: valid_comp_def)
  then have "\<not> HasPrefix c ''/''" "c \<noteq> ''''" by (cases c; auto simp: HasPrefix_def)+
  moreover have "render ps \<noteq> ''''" by (simp add: render_def)
  ultimately have "Resolve (render ps) c = Clean (path_Join (render ps) c)"
    unfolding Resolve_def by simp
  with Resolve_comp [OF assms] show ?thesis by (simp add: cleanAbs_eq_Clean)
qed

lemma next_eq:
  "abs_comps (if path_IsAbs l then l else path_Join (render ps) l) = abs_comps (Resolve (render ps) l)"
proof (cases "l = ''''")
  case True
  have "path_Join (render ps) '''' = render (abs_comps (join_with slash ps @ ''/''))"
    by (simp add: path_Join_def render_def path_Clean_rooted)
  moreover have "abs_comps (join_with slash ps @ ''/'') = abs_comps (render ps)"
    using abs_comps_append [of "join_with slash ps" "''''"]
    by (simp add: render_def abs_comps_slash) 
  ultimately show ?thesis using True by (simp add: path_IsAbs_def Resolve_def Clean_eq)
next
  case False
  moreover have "render ps \<noteq> ''''" by (simp add: render_def)
  moreover have "path_IsAbs l = HasPrefix l ''/''" using False
    by (cases l) (auto simp: path_IsAbs_def HasPrefix_def)
  ultimately show ?thesis by (simp add: Resolve_def Clean_eq)
qed

lemma realpath_lands:
  assumes wf: "fs_wf m" and w: "cwalk m [] (abs_comps t) q"
  shows "case mem_Realpath (Clean t) m of
      Inr p \<Rightarrow> p = render q
    | Inl e \<Rightarrow> hop_error e \<or> errors_Is e ErrNotExist \<and> at m q = None"
proof -
  have rs: "resolvePathLocked m (Clean t) True False = resolveAbsLocked m (Clean t) True False 0"
    unfolding resolvePathLocked_def Clean_eq using resolve_physical_name [OF abs_comps_valid] by simp
  have ac: "abs_comps (Clean t) = abs_comps t" by (simp add: Clean_eq)
  show ?thesis
  proof (cases "resolveAbsLocked m (Clean t) True False 0")
    case (Inl e)
    from walk_error [OF wf, of "Clean t" q 0 e] w ac Inl rs show ?thesis
      by (auto simp: mem_Realpath_def hop_error_def)
  next
    case (Inr pr)
    obtain p ref where pr: "pr = (p, ref)" by fastforce
    from resolveAbs_walk [OF Inr [unfolded pr]] w ac have "abs_comps p = q"
      using cwalk_deterministic by metis
    moreover have "clean_path p"
      using resolveAbsLocked_result [OF wf Inr [unfolded pr]] clean_path_render by blast
    ultimately show ?thesis using Inr pr rs render_abs_comps by (auto simp: mem_Realpath_def)
  qed
qed

lemma resolveMaybeMissing_lands:
  assumes wf: "fs_wf m" and w: "cwalk m [] (abs_comps target) q"
  shows "lands_on q (resolveMaybeMissing (mem_view m) target True hops)"
  using w
proof (induction "Suc maxSymlinkHops - hops" arbitrary: hops target q rule: less_induct)
  case (less hops target q)
  note outer = less.hyps
  from less.prems show ?case
  proof (induction "length (abs_comps target)" arbitrary: target q rule: less_induct)
    case (less target q)
    let ?V = "mem_view m"
    note eq = resolveMaybeMissing.simps [of ?V target True hops, unfolded cleanAbs_eq_Clean]
    note rp = realpath_lands [OF wf less.prems]
    show ?case
    proof (cases "maxSymlinkHops < hops")
      case True
      then show ?thesis by (simp add: eq hop_error_def)
    next
      case hops: False
      show ?thesis
      proof (cases "\<exists>e. mem_Realpath (Clean target) m = Inl e \<and> errors_Is e ErrNotExist")
        case False
        then show ?thesis
        proof (cases "mem_Realpath (Clean target) m")
          case (Inl e)
          with rp False hops show ?thesis by (simp add: eq Let_def)
        next
          case (Inr p)
          with rp have "p = render q" by simp
          moreover have "valid_comps q" by (rule cwalk_result_root [OF less.prems wf abs_comps_valid])
          ultimately show ?thesis using Inr hops by (simp add: eq Let_def)
        qed
      next
        case True
        then obtain e where e: "mem_Realpath (Clean target) m = Inl e" "errors_Is e ErrNotExist" by blast
        with rp have none: "at m q = None" by (auto simp: hop_error_def)
        have "q = []" if "abs_comps target = []"
          using less.prems that by (auto elim: cwalk_NilE)
        with none wf_root [OF wf] have "abs_comps target \<noteq> []" by (auto simp: is_dir_def)
        then obtain cs c where cs: "abs_comps target = cs @ [c]" by (metis rev_exhaust)
        then have v: "valid_comps (cs @ [c])" and cl: "Clean target = render (cs @ [c])"
          using abs_comps_valid [of target] by (simp_all only: Clean_eq)
        from cwalk_cut [OF less.prems cs wf _ wf_root [OF wf]] obtain ps where
          ps: "cwalk m [] cs ps" "cwalk m ps [c] q" "at m ps = None \<or> is_dir m ps" by auto
        have vps: "valid_comps (ps @ [c])" and cr: "creatable m ps"
          using cwalk_result_root [OF ps(1) wf] v by simp_all
        have dir: "path_Dir (Clean target) = render cs" "path_Base (Clean target) = c"
          "Clean target \<noteq> ''/''" using cl v path_Dir_render by simp_all
        have "lands_on ps (resolveMaybeMissing ?V (render cs) True hops)"
          using less.hyps [of "render cs" ps] ps(1) v cs by simp
        then consider (err) x where "resolveMaybeMissing ?V (render cs) True hops = Inl x" "hop_error x"
          | (par) "resolveMaybeMissing ?V (render cs) True hops = Inr (render ps)"
          by (cases "resolveMaybeMissing ?V (render cs) True hops") auto
        then show ?thesis
        proof cases
          case err
          with e hops dir show ?thesis by (simp add: eq Let_def)
        next
          case par
          have cand: "Clean (path_Join (render ps) c) = render (ps @ [c])"
            using candidate_eq [OF vps] by (simp add: cleanAbs_eq_Clean)
          have step: "resolveMaybeMissing ?V target True hops =
            (case v_Lstat ?V (render (ps @ [c])) of
               Inl e \<Rightarrow> if errors_Is e ErrNotExist then Inr (render (ps @ [c])) else Inl e
             | Inr mode \<Rightarrow>
                 if mode AND ModeSymlink = 0 then Inr (render (ps @ [c]))
                 else (case v_Readlink ?V (render (ps @ [c])) of
                         Inl e \<Rightarrow> Inl e
                       | Inr link \<Rightarrow> resolveMaybeMissing ?V
                           (if path_IsAbs link then link else path_Join (render ps) link) True (Suc hops)))"
            using e hops dir par cand by (simp add: eq Let_def)
          show ?thesis
          proof (cases "at m (ps @ [c])")
            case None
            then have q: "q = ps @ [c]" using ps(2) by (auto elim: cwalk_ConsE)
            have "\<exists>x. v_Lstat ?V (render (ps @ [c])) = Inl x \<and> errors_Is x ErrNotExist"
            proof (cases "at m ps")
              case None
              then show ?thesis by (rule lstat_below_missing [OF wf vps cr])
            next
              case (Some x)
              with ps(3) have d: "is_dir m ps" by auto
              have "phys m ps" using wf_phys [OF wf _ Some] vps by simp
              with lstat_below_dir(1) [OF wf vps d] None show ?thesis using \<open>at m (ps @ [c]) = None\<close> by blast
            qed
            with step q show ?thesis by auto
          next
            case (Some r)
            then have d: "is_dir m ps" using wf_parent [OF wf vps] by blast
            then have ph: "phys m ps" using wf_phys [OF wf] vps by (auto simp: is_dir_def)
            show ?thesis
            proof (cases "node_link m r")
              case True
              note l = lstat_below_dir(2) [OF wf vps d ph Some True]
              have "cwalk m [] (abs_comps (Resolve (render ps) (n_target (fs_heap m r)))) q"
                using ps(2) Some True by (auto elim: cwalk_ConsE)
              then have "lands_on q (resolveMaybeMissing ?V
                  (if path_IsAbs (n_target (fs_heap m r)) then n_target (fs_heap m r)
                   else path_Join (render ps) (n_target (fs_heap m r))) True (Suc hops))"
                using hops by (intro outer) (simp, simp only: next_eq)
              with step l True show ?thesis by (simp add: node_link_def)
            next
              case False
              with ps(2) Some have "q = ps @ [c]" by (auto elim: cwalk_ConsE cwalk_NilE)
              with none Some show ?thesis by simp
            qed
          qed
        qed
      qed
    qed
  qed
qed

section \<open>Properties\<close>

lemma check_write_allowed:
  assumes wf: "fs_wf m" and act: "action \<in> {FileActionWrite, FileActionMkdir}"
    and ok: "CheckPath (Some pol) (Some (mem_view m)) action target = None"
    and w: "cwalk m [] (abs_comps target) q"
  shows "pol_AllowPath pol action (render q) = None"
    "pol_SymlinkMode pol = SymlinkDeny \<Longrightarrow> render q = cleanAbs target"
proof -
  have ac: "abs_comps (cleanAbs target) = abs_comps target" by (simp add: cleanAbs_eq_Clean Clean_eq)
  have t: "cleanAbs (cleanAbs target) = cleanAbs target"
    using Clean_id [OF clean_path_Clean] by (simp add: cleanAbs_eq_Clean)
  let ?r = "resolveMaybeMissing (mem_view m) (cleanAbs target) True 0"
  have "lands_on q ?r" by (rule resolveMaybeMissing_lands [OF wf]) (simp add: ac w)
  moreover have "\<exists>p. ?r = Inr p" if h: "\<forall>e. ?r = Inl e \<longrightarrow> hop_error e"
  proof (cases ?r)
    case (Inl e)
    with h act ok show ?thesis
      by (auto simp: CheckPath_def resolveTarget_def Let_def hop_error_def action_defs split: option.splits)
  qed simp
  ultimately have r: "?r = Inr (render q)" by (auto simp: lands_on_def)
  have "resolveTarget (mem_view m) action (cleanAbs target) = Inr (render q, render q \<noteq> cleanAbs target)"
    using act r t by (auto simp: resolveTarget_def action_defs)
  with ok show "pol_AllowPath pol action (render q) = None"
    "pol_SymlinkMode pol = SymlinkDeny \<Longrightarrow> render q = cleanAbs target"
    by (auto simp: CheckPath_def Let_def split: option.splits if_splits)
qed

lemma opened_path:
  assumes wf: "fs_wf m" and op: "mem_OpenFile now (cleanAbs name) flag perm m = (Inr h, m')"
  obtains q where "cwalk m [] (abs_comps name) q" "abs_comps (handle_path h) = q" "valid_comps q"
proof -
  have "Resolve (fs_cwd m) (cleanAbs name) = cleanAbs name"
    unfolding cleanAbs_eq_Clean Clean_eq by (rule resolve_physical_name [OF abs_comps_valid])
  then have "abs_comps (Resolve (fs_cwd m) (cleanAbs name)) = abs_comps name"
    by (simp add: cleanAbs_eq_Clean Clean_eq)
  with open_walk [OF op] have "cwalk m [] (abs_comps name) (abs_comps (handle_path h))" by simp
  with that show thesis by simp
qed

text \<open>
  (C2) A checked open for writing stays under the write roots: if the path check admits
  a write to a name and the in-memory file system opens that name, with whatever flags and
  through whatever links, the path the handle refers to lies under a configured write
  root, and it is the name itself when links are denied.
\<close>

theorem checked_write_under_roots:
  assumes wf: "fs_wf m"
    and ok: "CheckPath (Some (static_policy (NewStatic (Some cfg)))) (Some (mem_view m)) FileActionWrite name = None"
    and op: "mem_OpenFile now (cleanAbs name) flag perm m = (Inr h, m')"
  shows "under_roots (WriteRoots cfg) (handle_path h) \<and>
     (cfg_SymlinkMode cfg \<in> {'''', SymlinkDeny} \<longrightarrow> abs_comps (handle_path h) = abs_comps name)"
proof -
  obtain q where q: "cwalk m [] (abs_comps name) q" "abs_comps (handle_path h) = q" "valid_comps q"
    using opened_path [OF wf op] by metis
  have act: "FileActionWrite \<in> {FileActionWrite, FileActionMkdir}" by simp
  note c = check_write_allowed [OF wf act ok q(1)]
  from c(1) have "under_roots (WriteRoots cfg) (render q)"
    by (simp add: static_policy_def AllowPath_iff cfg_roots_def)
  moreover have "abs_comps (render q) = abs_comps name" if "cfg_SymlinkMode cfg \<in> {'''', SymlinkDeny}"
    using c(2) that by (auto simp: static_policy_def NewStatic_def Let_def cleanAbs_eq_Clean Clean_eq)
  ultimately show ?thesis using q by (simp add: under_roots_def)
qed

definition root_tmp :: Config where
  "root_tmp = empty_Config\<lparr>WriteRoots := [''/tmp'']\<rparr>"

definition fs_tmp :: MemoryFS where
  "fs_tmp = snd (mem_MkdirAll 5 ''/tmp'' 0 (NewMemory 1))"

theorem checked_write_under_roots_witness:
  "\<exists>h m'. mem_OpenFile 6 (cleanAbs ''/tmp/x'') create_flags 0 fs_tmp = (Inr h, m') \<and>
     under_roots (WriteRoots root_tmp) (handle_path h)"
proof -
  have wf: "fs_wf fs_tmp"
    unfolding fs_tmp_def by (rule mem_MkdirAll_wf [OF NewMemory_wf surjective_pairing])
  have ok: "CheckPath (Some (static_policy (NewStatic (Some root_tmp)))) (Some (mem_view fs_tmp))
      FileActionWrite ''/tmp/x'' = None"
    by code_simp
  have "is_ok (fst (mem_OpenFile 6 (cleanAbs ''/tmp/x'') create_flags 0 fs_tmp))" by code_simp
  then obtain h m' where "mem_OpenFile 6 (cleanAbs ''/tmp/x'') create_flags 0 fs_tmp = (Inr h, m')"
    by (metis is_ok_iff prod.collapse)
  with checked_write_under_roots [OF wf ok this] show ?thesis by blast
qed

text \<open>
  (C12) A checked open for reading stays under the read roots: if the path check admits
  a read of a name and the in-memory file system opens it read-only, the path the handle
  refers to lies under a configured read root, and it is the name itself when links are
  denied.
\<close>

theorem checked_read_under_roots:
  assumes wf: "fs_wf m"
    and ok: "CheckPath (Some (static_policy (NewStatic (Some cfg)))) (Some (mem_view m)) FileActionRead name = None"
    and op: "mem_Open now (cleanAbs name) m = (Inr h, m')"
  shows "under_roots (ReadRoots cfg) (handle_path h) \<and>
     (cfg_SymlinkMode cfg \<in> {'''', SymlinkDeny} \<longrightarrow> handle_path h = cleanAbs name)"
proof -
  have op': "mem_OpenFile now (cleanAbs name) O_RDONLY 0 m = (Inr h, m')" using op by (simp add: mem_Open_def)
  obtain q where q: "cwalk m [] (abs_comps name) q" "abs_comps (handle_path h) = q" "valid_comps q"
    using opened_path [OF wf op'] by metis
  obtain u m1 p ref where pre: "open_preload (cleanAbs name) O_RDONLY m = (Inr u, m1)"
    and loc: "open_locate (cleanAbs name) O_RDONLY m1 = Inr (p, ref)" and hp: "handle_path h = p"
    using op' by (auto simp: mem_OpenFile_def open_finish_def handle_path_def newMemoryFIFOFile_def Let_def
        split: sum.splits prod.splits if_splits)
  from pre obtain p' where mat: "materializePath (cleanAbs name) True False m = (Inr p', m1)"
    using excl_create_bits by (auto simp: open_preload_def rdonly_bits split: sum.splits prod.splits)
  then have "\<exists>ref. resolvePathLocked m (cleanAbs name) True False = Inr (p', ref)"
    by (auto simp: materializePath_def split: sum.splits prod.splits option.splits if_splits)
  then have res: "mem_Realpath (cleanAbs name) m = Inr p'" by (auto simp: mem_Realpath_def)
  have act: "FileActionRead \<in> {FileActionRead, FileActionStat, FileActionReadDir}" by simp
  note c = mem.check_read_sound [OF wf act ok, of p']
  have "v_Realpath (mem_view m) (cleanAbs name) = Inr p'" using res by simp
  note c = c [OF this]
  have "p' = render q" using realpath_lands [OF wf q(1)] res by (simp add: cleanAbs_eq_Clean)
  moreover have "clean_path p"
  proof -
    have "resolvePathLocked m1 (cleanAbs name) True False = Inr (p, ref)"
      using loc by (auto simp: open_locate_def Let_def rdonly_bits split: sum.splits)
    with open_preload_wf [OF wf pre] show ?thesis by (rule resolvePathLocked_result) simp
  qed
  ultimately have pp: "p' = p" using q hp by (metis render_abs_comps)
  from c(2) have "under_roots (ReadRoots cfg) p'"
    by (simp add: static_policy_def AllowPath_iff cfg_roots_def action_defs)
  moreover have "p' = cleanAbs name" if "cfg_SymlinkMode cfg \<in> {'''', SymlinkDeny}"
    using c(3) that by (auto simp: static_policy_def NewStatic_def Let_def)
  ultimately show ?thesis using pp hp by simp
qed

theorem checked_read_under_roots_witness:
  "\<exists>h m'. mem_Open 6 (cleanAbs ''/x'') (snd opened_x) = (Inr h, m') \<and>
     under_roots (ReadRoots empty_Config) (handle_path h)"
proof -
  have wf: "fs_wf (snd opened_x)"
    unfolding opened_x_def by (rule mem_OpenFile_wf [OF NewMemory_wf surjective_pairing])
  have ok: "CheckPath (Some (static_policy (NewStatic (Some empty_Config)))) (Some (mem_view (snd opened_x)))
      FileActionRead ''/x'' = None"
    by code_simp
  have "is_ok (fst (mem_Open 6 (cleanAbs ''/x'') (snd opened_x)))" by code_simp
  then obtain h m' where "mem_Open 6 (cleanAbs ''/x'') (snd opened_x) = (Inr h, m')"
    by (metis is_ok_iff prod.collapse)
  with checked_read_under_roots [OF wf ok this] show ?thesis by blast
qed

section \<open>A removal the check does not catch\<close>




end
