(* ===== verification/Limit.thy ===== *)
theory Limit
  imports MemoryFS_Tree
begin

text \<open>
  The file size cap of \<open>fs/limit.go\<close>: a wrapper around an open file that refuses to
  grow it. The wrapped file enters through its methods; what the wrapper needs of them is
  the locale \<open>sized_file\<close>, interpreted on the handles of the in-memory file system.
  Offsets and sizes are \<open>int64\<close> in the source; they are bounded by the cap plus the
  length of a slice and are kept as integers.
\<close>

section \<open>The wrapper\<close>

definition hasWriteIntent :: "goflags \<Rightarrow> bool" where
  "hasWriteIntent flag =
     (if canWrite flag then True else flag AND (O_APPEND OR O_CREATE OR O_TRUNC) \<noteq> 0)"

text \<open>
  The methods of an open file with state \<open>'s\<close>: \<open>Read\<close> into a buffer of the given length
  and \<open>Write\<close> return a count (or the bytes) together with an error; \<open>Seek\<close> and
  \<open>Truncate\<close> are optional.
\<close>

record 's file_ops =
  fo_Read :: "nat \<Rightarrow> 's \<Rightarrow> bytes \<times> go_error option \<times> 's"
  fo_Write :: "bytes \<Rightarrow> 's \<Rightarrow> nat \<times> go_error option \<times> 's"
  fo_Stat :: "'s \<Rightarrow> (go_error + fileInfo) \<times> 's"
  fo_Seek :: "(int \<Rightarrow> int \<Rightarrow> 's \<Rightarrow> int \<times> go_error option \<times> 's) option"
  fo_Truncate :: "(int \<Rightarrow> 's \<Rightarrow> go_error option \<times> 's) option"

definition ErrFileTooLarge :: go_error where "ErrFileTooLarge = Errno EFBIG"

record 's sizeLimitedFile =
  lf_file :: 's
  lf_flag :: goflags
  lf_max :: int
  lf_offset :: int

text \<open>The result of wrapping: the file itself, or the wrapper around it.\<close>

datatype 's limitedFile = Plain 's | Sized "'s sizeLimitedFile"

definition LimitFileSize :: "'s file_ops \<Rightarrow> 's \<Rightarrow> goflags \<Rightarrow> int \<Rightarrow> 's limitedFile" where
  "LimitFileSize ops f flag maxBytes =
     (if maxBytes \<le> 0 \<or> \<not> hasWriteIntent flag then Plain f
      else
        (case fo_Stat ops f of
           (Inl e, f1) \<Rightarrow> Plain f1
         | (Inr info, f1) \<Rightarrow>
             if \<not> mode_IsRegular (fi_mode info) then Plain f1
             else
               let limited = \<lparr>lf_file = f1, lf_flag = flag, lf_max = maxBytes, lf_offset = 0\<rparr>
               in (case fo_Seek ops of
                     None \<Rightarrow> Sized limited
                   | Some seek \<Rightarrow>
                       (case seek 0 1 f1 of
                          (pos, None, f2) \<Rightarrow> Sized (limited\<lparr>lf_file := f2, lf_offset := pos\<rparr>)
                        | (_, Some _, f2) \<Rightarrow> Sized (limited\<lparr>lf_file := f2\<rparr>)))))"

definition limited_name :: "'s file_ops \<Rightarrow> 's sizeLimitedFile \<Rightarrow> string \<times> 's sizeLimitedFile" where
  "limited_name ops f =
     (case fo_Stat ops (lf_file f) of
        (Inl _, s) \<Rightarrow> ('''', f\<lparr>lf_file := s\<rparr>)
      | (Inr info, s) \<Rightarrow> (fi_name info, f\<lparr>lf_file := s\<rparr>))"

definition tooLarge ::
  "'s file_ops \<Rightarrow> string \<Rightarrow> 's sizeLimitedFile \<Rightarrow> go_error \<times> 's sizeLimitedFile" where
  "tooLarge ops op f =
     (let (name, f') = limited_name ops f in (PathError op name ErrFileTooLarge, f'))"

definition limited_Read ::
  "'s file_ops \<Rightarrow> nat \<Rightarrow> 's sizeLimitedFile \<Rightarrow> bytes \<times> go_error option \<times> 's sizeLimitedFile" where
  "limited_Read ops n f =
     (let (got, err, s) = fo_Read ops n (lf_file f)
      in (got, err, f\<lparr>lf_file := s, lf_offset := lf_offset f + int (length got)\<rparr>))"

text \<open>The store of one write of the wrapped file, with the offset moved.\<close>

definition limited_store ::
  "'s file_ops \<Rightarrow> bytes \<Rightarrow> 's sizeLimitedFile \<Rightarrow> nat \<times> go_error option \<times> 's sizeLimitedFile" where
  "limited_store ops p f =
     (let (n, err, s) = fo_Write ops p (lf_file f)
      in (n, err, f\<lparr>lf_file := s, lf_offset := lf_offset f + int n\<rparr>))"

definition limited_sync :: "'s file_ops \<Rightarrow> 's sizeLimitedFile \<Rightarrow> 's sizeLimitedFile" where
  "limited_sync ops f =
     (if lf_flag f AND O_APPEND \<noteq> 0 then
        (case fo_Stat ops (lf_file f) of
           (Inl _, s) \<Rightarrow> f\<lparr>lf_file := s\<rparr>
         | (Inr info, s) \<Rightarrow> f\<lparr>lf_file := s, lf_offset := fi_size info\<rparr>)
      else f)"

definition limited_Write ::
  "'s file_ops \<Rightarrow> bytes \<Rightarrow> 's sizeLimitedFile \<Rightarrow> nat \<times> go_error option \<times> 's sizeLimitedFile" where
  "limited_Write ops p f0 =
     (let f = limited_sync ops f0; allowed = max (lf_max f - lf_offset f) 0
      in if int (length p) \<le> allowed then limited_store ops p f
         else
           (case (if 0 < allowed then limited_store ops (take (nat allowed) p) f else (0, None, f)) of
              (n, Some e, f1) \<Rightarrow> (n, Some e, f1)
            | (n, None, f1) \<Rightarrow> (case tooLarge ops ''write'' f1 of (e, f2) \<Rightarrow> (n, Some e, f2))))"

definition limited_seek ::
  "'s file_ops \<Rightarrow> int \<Rightarrow> int \<Rightarrow> 's sizeLimitedFile \<Rightarrow> int \<times> go_error option \<times> 's sizeLimitedFile" where
  "limited_seek ops offset whence f =
     (case fo_Seek ops of
        None \<Rightarrow> (case limited_name ops f of
                   (name, f') \<Rightarrow> (0, Some (PathError ''seek'' name (Errorf ''unsupported'')), f'))
      | Some seek \<Rightarrow>
          (case seek offset whence (lf_file f) of
             (pos, None, s) \<Rightarrow> (pos, None, f\<lparr>lf_file := s, lf_offset := pos\<rparr>)
           | (pos, Some e, s) \<Rightarrow> (pos, Some e, f\<lparr>lf_file := s\<rparr>)))"

definition limited_truncate ::
  "'s file_ops \<Rightarrow> int \<Rightarrow> 's sizeLimitedFile \<Rightarrow> go_error option \<times> 's sizeLimitedFile" where
  "limited_truncate ops sz f =
     (if lf_max f < sz then (case tooLarge ops ''truncate'' f of (e, f') \<Rightarrow> (Some e, f'))
      else
        (case fo_Truncate ops of
           None \<Rightarrow> (case limited_name ops f of
                      (name, f') \<Rightarrow> (Some (PathError ''truncate'' name (Errorf ''unsupported'')), f'))
         | Some trunc \<Rightarrow> (case trunc sz (lf_file f) of (e, s) \<Rightarrow> (e, f\<lparr>lf_file := s\<rparr>))))"

section \<open>The contract of a sized file\<close>

locale sized_file =
  fixes ops :: "'s file_ops" and good :: "goflags \<Rightarrow> 's \<Rightarrow> bool" and fsize :: "'s \<Rightarrow> int" and pos :: "'s \<Rightarrow> int"
  assumes nonneg: "good fl s \<Longrightarrow> 0 \<le> fsize s \<and> 0 \<le> pos s"
    and write_law: "good fl s \<Longrightarrow> fo_Write ops p s = (n, e, s') \<Longrightarrow>
      good fl s' \<and> n \<le> length p \<and>
      (fl AND O_APPEND = 0 \<longrightarrow> pos s' = pos s + int n) \<and>
      fsize s' \<le> max (fsize s) ((if fl AND O_APPEND \<noteq> 0 then fsize s else pos s) + int n)"
    and read_law: "good fl s \<Longrightarrow> fo_Read ops k s = (b, e, s') \<Longrightarrow>
      good fl s' \<and> fsize s' = fsize s \<and> pos s' = pos s + int (length b) \<and> pos s' \<le> max (pos s) (fsize s)"
    and stat_law: "good fl s \<Longrightarrow> fo_Stat ops s = (r, s') \<Longrightarrow>
      good fl s' \<and> fsize s' = fsize s \<and> pos s' = pos s \<and> (\<exists>i. r = Inr i \<and> fi_size i = fsize s)"
begin

text \<open>
  The wrapper's offset is the file's, except in append mode, where it is set before
  every write.
\<close>

definition capped :: "'s sizeLimitedFile \<Rightarrow> bool" where
  "capped f \<longleftrightarrow> good (lf_flag f) (lf_file f) \<and> fsize (lf_file f) \<le> lf_max f \<and>
     (lf_flag f AND O_APPEND = 0 \<longrightarrow> lf_offset f = pos (lf_file f) \<and> lf_offset f \<le> lf_max f)"

lemma read_capped:
  assumes "capped f" "limited_Read ops n f = (b, e, f')"
  shows "capped f'"
proof -
  obtain s where r: "fo_Read ops n (lf_file f) = (b, e, s)"
    and f': "f' = f\<lparr>lf_file := s, lf_offset := lf_offset f + int (length b)\<rparr>"
    using assms(2) by (auto simp: limited_Read_def Let_def split: prod.splits)
  from assms(1) have "good (lf_flag f) (lf_file f)" by (simp add: capped_def)
  from read_law [OF this r] assms(1) show ?thesis by (auto simp: capped_def f')
qed

lemma sync_capped:
  assumes "capped f"
  shows "capped (limited_sync ops f)" "lf_flag (limited_sync ops f) = lf_flag f"
    "lf_max (limited_sync ops f) = lf_max f"
    "lf_offset (limited_sync ops f) =
       (if lf_flag f AND O_APPEND \<noteq> 0 then fsize (lf_file (limited_sync ops f)) else pos (lf_file (limited_sync ops f)))"
    "lf_offset (limited_sync ops f) \<le> lf_max f"
proof -
  obtain r s where st: "fo_Stat ops (lf_file f) = (r, s)" by fastforce
  with assms stat_law [of "lf_flag f" "lf_file f" r s] obtain i where
    i: "r = Inr i" "fi_size i = fsize (lf_file f)" "good (lf_flag f) s" "fsize s = fsize (lf_file f)"
    by (auto simp: capped_def)
  with assms st show "capped (limited_sync ops f)" "lf_flag (limited_sync ops f) = lf_flag f"
    "lf_max (limited_sync ops f) = lf_max f"
    "lf_offset (limited_sync ops f) =
       (if lf_flag f AND O_APPEND \<noteq> 0 then fsize (lf_file (limited_sync ops f)) else pos (lf_file (limited_sync ops f)))"
    "lf_offset (limited_sync ops f) \<le> lf_max f"
    by (auto simp: limited_sync_def capped_def)
qed

lemma store_capped:
  assumes c: "capped f" and off: "lf_offset f = (if lf_flag f AND O_APPEND \<noteq> 0 then fsize (lf_file f) else pos (lf_file f))"
    and room: "lf_offset f + int (length p) \<le> lf_max f" and eq: "limited_store ops p f = (n, e, f')"
  shows "capped f'" "n \<le> length p"
proof -
  obtain s' where w: "fo_Write ops p (lf_file f) = (n, e, s')"
    and f': "f' = f\<lparr>lf_file := s', lf_offset := lf_offset f + int n\<rparr>"
    using eq by (auto simp: limited_store_def Let_def split: prod.splits)
  from c have "good (lf_flag f) (lf_file f)" by (simp add: capped_def)
  note l = write_law [OF this w]
  from l show "n \<le> length p" by blast
  with l c off room show "capped f'" by (auto simp: capped_def f' split: if_splits)
qed

lemma tooLarge_capped:
  assumes "capped f" "tooLarge ops op f = (e, f')"
  shows "capped f' \<and> errors_Is e EFBIG"
proof -
  obtain r s where st: "fo_Stat ops (lf_file f) = (r, s)" by fastforce
  from assms(1) have "good (lf_flag f) (lf_file f)" by (simp add: capped_def)
  note l = stat_law [OF this st]
  from assms(2) st l have "f' = f\<lparr>lf_file := s\<rparr>" "\<exists>nm. e = PathError op nm ErrFileTooLarge"
    by (auto simp: tooLarge_def limited_name_def Let_def)
  with assms(1) l show ?thesis by (auto simp: capped_def ErrFileTooLarge_def)
qed

lemma write_capped:
  assumes c: "capped f" and eq: "limited_Write ops p f = (n, e, f')"
  shows "capped f'" "n \<le> length p" "n < length p \<Longrightarrow> e = None \<Longrightarrow> \<not> lf_offset (limited_sync ops f) + int (length p) > lf_max f"
proof -
  define g where "g = limited_sync ops f"
  note s = sync_capped [OF c, folded g_def]
  define allowed where "allowed = max (lf_max g - lf_offset g) 0"
  have W: "limited_Write ops p f =
      (if int (length p) \<le> allowed then limited_store ops p g
       else (case (if 0 < allowed then limited_store ops (take (nat allowed) p) g else (0, None, g)) of
              (n, Some e, f1) \<Rightarrow> (n, Some e, f1)
            | (n, None, f1) \<Rightarrow> (case tooLarge ops ''write'' f1 of (e, f2) \<Rightarrow> (n, Some e, f2))))"
    by (simp only: limited_Write_def Let_def g_def allowed_def)
  have "capped f' \<and> n \<le> length p \<and> (n < length p \<longrightarrow> e = None \<longrightarrow> \<not> lf_offset g + int (length p) > lf_max f)"
  proof (cases "int (length p) \<le> allowed")
    case True
    then have st: "limited_store ops p g = (n, e, f')"
      using eq W by simp
    have "lf_offset g + int (length p) \<le> lf_max g"
      using True s(3,5) by (auto simp: allowed_def max_def split: if_splits)
    with store_capped [OF s(1) _ _ st] s show ?thesis by simp
  next
    case False
    then have big: "lf_max g < lf_offset g + int (length p)" by (auto simp: allowed_def)
    show ?thesis
    proof (cases "0 < allowed")
      case True
      obtain n1 e1 f1 where st: "limited_store ops (take (nat allowed) p) g = (n1, e1, f1)" by (metis prod.collapse)
      have "lf_offset g + int (length (take (nat allowed) p)) \<le> lf_max g"
        using True False by (auto simp: allowed_def)
      from store_capped [OF s(1) _ this st] s have f1: "capped f1" "n1 \<le> length p" by auto
      with eq W False True st tooLarge_capped [OF f1(1)] show ?thesis
        by (cases e1) (auto split: prod.splits)
    next
      case no: False
      with eq W False tooLarge_capped [OF s(1)] show ?thesis by (auto split: prod.splits)
    qed
  qed
  then show "capped f'" "n \<le> length p"
    "n < length p \<Longrightarrow> e = None \<Longrightarrow> \<not> lf_offset (limited_sync ops f) + int (length p) > lf_max f"
    by (auto simp: g_def)
qed

end

section \<open>Handles of the in-memory file system\<close>

definition mem_file_ops :: "gotime \<Rightarrow> (memoryFile \<times> MemoryFS) file_ops" where
  "mem_file_ops now =
     \<lparr>fo_Read = (\<lambda>n (f, m). case mem_Read n f m of
          (Inl e, f', m') \<Rightarrow> ([], Some e, (f', m')) | (Inr b, f', m') \<Rightarrow> (b, None, (f', m'))),
      fo_Write = (\<lambda>p (f, m). case mem_Write now p f m of
          (Inl e, f', m') \<Rightarrow> (0, Some e, (f', m')) | (Inr n, f', m') \<Rightarrow> (n, None, (f', m'))),
      fo_Stat = (\<lambda>(f, m). case mem_FileStat f m of (r, m') \<Rightarrow> (r, (f, m'))),
      fo_Seek = None, fo_Truncate = None\<rparr>"

definition mem_file_good :: "goflags \<Rightarrow> memoryFile \<times> MemoryFS \<Rightarrow> bool" where
  "mem_file_good fl = (\<lambda>(f, m). \<not> mf_closed f \<and> mf_flag f = fl \<and> n_lazy (fs_heap m (mf_node f)) = None \<and>
     mode_IsRegular (n_mode (fs_heap m (mf_node f))))"

definition mem_file_size :: "memoryFile \<times> MemoryFS \<Rightarrow> int" where
  "mem_file_size = (\<lambda>(f, m). int (length (n_data (fs_heap m (mf_node f)))))"

definition mem_file_pos :: "memoryFile \<times> MemoryFS \<Rightarrow> int" where
  "mem_file_pos = (\<lambda>(f, m). int (mf_offset f))"

lemma regular_bits:
  assumes "mode_IsRegular md"
  shows "\<not> mode_IsDir md" "md AND ModeSymlink = 0" "md AND ModeNamedPipe = 0"
proof -
  have m: "ModeType AND ModeDir = ModeDir" "ModeType AND ModeSymlink = ModeSymlink"
    "ModeType AND ModeNamedPipe = ModeNamedPipe" by (simp_all add: mode_bits)
  have e: "md AND x = 0" if "ModeType AND x = x" for x
  proof -
    have "md AND x = (md AND ModeType) AND x" by (simp only: and.assoc that)
    with assms show ?thesis by (simp add: mode_IsRegular_def)
  qed
  from e [OF m(1)] e [OF m(2)] e [OF m(3)]
  show "\<not> mode_IsDir md" "md AND ModeSymlink = 0" "md AND ModeNamedPipe = 0" by (simp_all add: mode_IsDir_def)
qed

lemma mem_Write_size:
  assumes "mem_file_good fl (f, m)" "canWrite fl"
  shows "\<exists>m'. mem_Write now p f m = (Inr (length p),
      f\<lparr>mf_offset := (if fl AND O_APPEND \<noteq> 0 then length (n_data (fs_heap m (mf_node f))) else mf_offset f) + length p\<rparr>, m') \<and>
     n_lazy (fs_heap m' (mf_node f)) = None \<and> n_mode (fs_heap m' (mf_node f)) = n_mode (fs_heap m (mf_node f)) \<and>
     length (n_data (fs_heap m' (mf_node f))) = max (length (n_data (fs_heap m (mf_node f))))
       ((if fl AND O_APPEND \<noteq> 0 then length (n_data (fs_heap m (mf_node f))) else mf_offset f) + length p)"
  using assms regular_bits [of "n_mode (fs_heap m (mf_node f))"]
  by (auto simp: mem_Write_def mem_file_good_def materializeNode_def isLazyFileNode_def Let_def growBytes_def copy_at_def)

interpretation memfile: sized_file "mem_file_ops now" mem_file_good mem_file_size mem_file_pos
proof
  fix fl s
  assume g: "mem_file_good fl s"
  obtain f m where s: "s = (f, m)" by fastforce
  note r = regular_bits [of "n_mode (fs_heap m (mf_node f))"]
  have nl: "n_lazy (fs_heap m (mf_node f)) = None" "mode_IsRegular (n_mode (fs_heap m (mf_node f)))"
    using g s by (simp_all add: mem_file_good_def)
  show "0 \<le> mem_file_size s \<and> 0 \<le> mem_file_pos s" by (simp add: s mem_file_size_def mem_file_pos_def)
  show "mem_file_good fl s' \<and> n \<le> length p \<and>
      (fl AND O_APPEND = 0 \<longrightarrow> mem_file_pos s' = mem_file_pos s + int n) \<and>
      mem_file_size s' \<le> max (mem_file_size s)
        ((if fl AND O_APPEND \<noteq> 0 then mem_file_size s else mem_file_pos s) + int n)"
    if w: "fo_Write (mem_file_ops now) p s = (n, e, s')" for p n e s'
  proof (cases "canWrite fl")
    case True
    from mem_Write_size [OF g [unfolded s] True, of now p] w g s show ?thesis
      by (auto simp: mem_file_ops_def mem_file_good_def mem_file_size_def mem_file_pos_def)
  next
    case False
    with g w s show ?thesis
      by (auto simp: mem_file_ops_def mem_Write_def mem_file_good_def)
  qed
  show "mem_file_good fl s' \<and> mem_file_size s' = mem_file_size s \<and>
      mem_file_pos s' = mem_file_pos s + int (length b) \<and> mem_file_pos s' \<le> max (mem_file_pos s) (mem_file_size s)"
    if "fo_Read (mem_file_ops now) k s = (b, e, s')" for k b e s'
    using that g s nl r
    by (auto simp: mem_file_ops_def mem_Read_def mem_file_good_def mem_file_size_def mem_file_pos_def
        materializeNode_def isLazyFileNode_def Let_def split: if_splits)
  show "mem_file_good fl s' \<and> mem_file_size s' = mem_file_size s \<and> mem_file_pos s' = mem_file_pos s \<and>
      (\<exists>i. res = Inr i \<and> fi_size i = mem_file_size s)"
    if "fo_Stat (mem_file_ops now) s = (res, s')" for res s'
    using that g s nl r
    by (auto simp: mem_file_ops_def mem_FileStat_def mem_file_good_def mem_file_size_def mem_file_pos_def
        isLazyFileNode_def newFileInfo_def Let_def split: if_splits)
qed

section \<open>Properties\<close>

datatype limit_op = LRead nat | LWrite bytes

text \<open>Any sequence of reads and writes through the wrapper.\<close>

fun limited_run :: "'s file_ops \<Rightarrow> limit_op list \<Rightarrow> 's sizeLimitedFile \<Rightarrow> 's sizeLimitedFile" where
  "limited_run ops [] f = f"
| "limited_run ops (LRead n # xs) f = limited_run ops xs (snd (snd (limited_Read ops n f)))"
| "limited_run ops (LWrite p # xs) f = limited_run ops xs (snd (snd (limited_Write ops p f)))"

lemma limited_Write_max: "lf_max (snd (snd (limited_Write ops p f))) = lf_max f"
  by (auto simp: limited_Write_def limited_store_def limited_sync_def tooLarge_def limited_name_def Let_def
      split: prod.splits sum.splits option.splits)

lemma limited_Read_max: "lf_max (snd (snd (limited_Read ops n f))) = lf_max f"
  by (simp add: limited_Read_def Let_def split: prod.splits)

lemma limited_run_capped:
  "memfile.capped f \<Longrightarrow> memfile.capped (limited_run (mem_file_ops now) xs f) \<and>
   lf_max (limited_run (mem_file_ops now) xs f) = lf_max f"
proof (induction "mem_file_ops now" xs f rule: limited_run.induct)
  case (2 n xs f)
  obtain b e g where g: "limited_Read (mem_file_ops now) n f = (b, e, g)" by (metis prod.collapse)
  have "memfile.capped (snd (snd (limited_Read (mem_file_ops now) n f)))"
    using memfile.read_capped [OF 2(2) g] g by simp
  with 2 show ?case by (simp add: limited_Read_max)
next
  case (3 p xs f)
  obtain b e g where g: "limited_Write (mem_file_ops now) p f = (b, e, g)" by (metis prod.collapse)
  have "memfile.capped (snd (snd (limited_Write (mem_file_ops now) p f)))"
    using memfile.write_capped(1) [OF 3(2) g] g by simp
  with 3 show ?case by (simp add: limited_Write_max)
qed simp

lemma LimitFileSize_capped:
  assumes g: "mem_file_good fl (f, m)" and start: "mf_offset f = 0 \<or> fl AND O_APPEND \<noteq> 0"
    and w: "hasWriteIntent fl" and mx: "0 < mx" and sz: "mem_file_size (f, m) \<le> mx"
  obtains L where "LimitFileSize (mem_file_ops now) (f, m) fl mx = Sized L" "memfile.capped L" "lf_max L = mx"
    "mf_node (fst (lf_file L)) = mf_node f"
proof -
  obtain r s where st: "fo_Stat (mem_file_ops now) (f, m) = (r, s)" by (metis prod.collapse)
  note l = memfile.stat_law [OF g st]
  from l obtain i where i: "r = Inr i" "fi_size i = mem_file_size (f, m)" by blast
  have fs: "fst s = f" using st by (auto simp: mem_file_ops_def split: prod.splits)
  have reg: "mode_IsRegular (fi_mode i)"
    using st i g by (auto simp: mem_file_ops_def mem_FileStat_def mem_file_good_def isLazyFileNode_def
        newFileInfo_def Let_def split: prod.splits if_splits)
  let ?L = "\<lparr>lf_file = s, lf_flag = fl, lf_max = mx, lf_offset = 0\<rparr>"
  have "LimitFileSize (mem_file_ops now) (f, m) fl mx = Sized ?L"
    using w mx st i reg by (simp add: LimitFileSize_def) (simp add: mem_file_ops_def)
  moreover have "memfile.capped ?L"
    using l start sz mx unfolding memfile.capped_def by (auto simp: mem_file_pos_def)
  ultimately show thesis using that fs by simp
qed

text \<open>
  (C28) The cap holds: a regular file of the in-memory file system, opened for writing
  and wrapped with a cap it does not exceed, never exceeds it after any sequence of
  reads and writes through the wrapper, in append mode too.
\<close>

theorem limited_file_capped:
  assumes "mem_file_good fl (f, m)" "mf_offset f = 0 \<or> fl AND O_APPEND \<noteq> 0" "hasWriteIntent fl" "0 < mx"
    "int (length (n_data (fs_heap m (mf_node f)))) \<le> mx"
  shows "\<exists>L. LimitFileSize (mem_file_ops now) (f, m) fl mx = Sized L \<and>
     mem_file_size (lf_file (limited_run (mem_file_ops now) xs L)) \<le> mx"
proof -
  have sz: "mem_file_size (f, m) \<le> mx" using assms(5) by (simp add: mem_file_size_def)
  obtain L where L: "LimitFileSize (mem_file_ops now) (f, m) fl mx = Sized L" "memfile.capped L" "lf_max L = mx"
    using LimitFileSize_capped [OF assms(1-4) sz] by metis
  with limited_run_capped [OF L(2), of now xs] show ?thesis by (auto simp: memfile.capped_def)
qed

definition opened_file :: memoryFile where
  "opened_file = \<lparr>mf_path = ''/x'', mf_node = 1, mf_flag = create_flags, mf_offset = 0, mf_closed = False\<rparr>"

lemma opened_file_good: "mem_file_good create_flags (opened_file, snd opened_x)"
  "n_data (fs_heap (snd opened_x) (mf_node opened_file)) = []"
proof -
  have "case n_lazy (fs_heap (snd opened_x) (mf_node opened_file)) of None \<Rightarrow> True | Some _ \<Rightarrow> False" by code_simp
  then have l: "n_lazy (fs_heap (snd opened_x) (mf_node opened_file)) = None" by (simp split: option.splits)
  have "mf_flag opened_file = create_flags" "\<not> mf_closed opened_file"
    "mode_IsRegular (n_mode (fs_heap (snd opened_x) (mf_node opened_file)))" by code_simp+
  with l show "mem_file_good create_flags (opened_file, snd opened_x)" by (simp add: mem_file_good_def)
  show "n_data (fs_heap (snd opened_x) (mf_node opened_file)) = []" by code_simp
qed

theorem limited_file_capped_witness:
  "\<exists>L. LimitFileSize (mem_file_ops 9) (opened_file, snd opened_x) create_flags 3 = Sized L \<and>
     mem_file_size (lf_file (limited_run (mem_file_ops 9) [LWrite ''abcdef''] L)) \<le> 3"
proof -
  have "mf_offset opened_file = 0" "hasWriteIntent create_flags" by code_simp+
  with limited_file_capped [OF opened_file_good(1), of 3 9 "[LWrite ''abcdef'']"] opened_file_good(2)
  show ?thesis by simp
qed

text \<open>
  A write across the cap stores exactly the bytes that fit, then fails with the
  error for too large files; a write that fits succeeds in full.
\<close>

theorem limited_write_fits:
  assumes c: "mem_file_good (lf_flag L) (f, m)" "lf_file L = (f, m)" "canWrite (lf_flag L)"
    "lf_flag L AND O_APPEND = 0" "lf_offset L = int (mf_offset f)" "mf_offset f \<le> nat (lf_max L)" "0 \<le> lf_max L"
    and eq: "limited_Write (mem_file_ops now) p L = (n, e, L')"
  shows "n = min (length p) (nat (lf_max L) - mf_offset f) \<and>
     (e = None \<longleftrightarrow> mf_offset f + length p \<le> nat (lf_max L)) \<and>
     (\<forall>x. e = Some x \<longrightarrow> errors_Is x EFBIG)"
proof -
  define a where "a = max (lf_max L - lf_offset L) 0"
  have sync: "limited_sync (mem_file_ops now) L = L" using c(4) by (simp add: limited_sync_def)
  have st: "\<exists>L1. limited_store (mem_file_ops now) d L = (length d, None, L1)" for d
    using mem_Write_size [OF c(1,3), of now d] c(2)
    by (auto simp: limited_store_def mem_file_ops_def Let_def)
  have a: "nat a = nat (lf_max L) - mf_offset f" "0 \<le> a" using c(5-7) by (auto simp: a_def)
  show ?thesis
  proof (cases "int (length p) \<le> a")
    case True
    with eq sync st [of p] have "n = length p" "e = None" by (auto simp: limited_Write_def Let_def a_def [symmetric])
    with True a c(6) show ?thesis by auto
  next
    case False
    have tl: "\<exists>y L2. tooLarge (mem_file_ops now) ''write'' L1 = (y, L2) \<and> errors_Is y EFBIG" for L1
      by (auto simp: tooLarge_def limited_name_def Let_def ErrFileTooLarge_def split: prod.splits sum.splits)
    from False have len: "length (take (nat a) p) = nat a" by simp
    obtain L1 where L1: "limited_store (mem_file_ops now) (take (nat a) p) L = (nat a, None, L1)"
      using st [of "take (nat a) p"] len by auto
    define first where "first = (if 0 < a then limited_store (mem_file_ops now) (take (nat a) p) L else (0, None, L))"
    then obtain L2 where F: "first = (nat a, None, L2)"
      using L1 a(2) by (cases "0 < a") auto
    obtain y L3 where y: "tooLarge (mem_file_ops now) ''write'' L2 = (y, L3)" "errors_Is y EFBIG" using tl by blast
    have "limited_Write (mem_file_ops now) p L =
        (case first of (n, Some e, f1) \<Rightarrow> (n, Some e, f1)
          | (n, None, f1) \<Rightarrow> (case tooLarge (mem_file_ops now) ''write'' f1 of (e, f2) \<Rightarrow> (n, Some e, f2)))"
      using False sync by (simp only: limited_Write_def Let_def first_def a_def [symmetric] if_False)
    with F y eq have "n = nat a" "e = Some y" by simp_all
    with False a y show ?thesis by auto
  qed
qed

theorem limited_write_fits_witness:
  "\<exists>n e L'. limited_Write (mem_file_ops 9) ''abcdef''
      \<lparr>lf_file = (opened_file, snd opened_x), lf_flag = create_flags, lf_max = 3, lf_offset = 0\<rparr> = (n, e, L') \<and>
     n = 3 \<and> e \<noteq> None"
proof -
  let ?L = "\<lparr>lf_file = (opened_file, snd opened_x), lf_flag = create_flags, lf_max = 3, lf_offset = 0\<rparr>"
  obtain n e L' where eq: "limited_Write (mem_file_ops 9) ''abcdef'' ?L = (n, e, L')" by (metis prod.collapse)
  have "mf_offset opened_file = 0" by code_simp
  with limited_write_fits [OF _ _ _ _ _ _ _ eq] opened_file_good(1) create_flags_bits eq show ?thesis by auto
qed

end
