(* ===== verification/FileSys.thy ===== *)
theory FileSys
  imports Limit
begin

text \<open>
  The file system contract of \<open>fs/fs.go\<close> and the routines that copy a tree from one file
  system to another: \<open>fs/clone.go\<close> into an in-memory file system, \<open>fs/copy_internal.go\<close>
  into any. An object of the interface type is a record of its methods over a state
  \<open>'w\<close>, the state of everything the objects share, so two references to one object are
  the same record. \<open>'h\<close> is the type of the open files.

  The recursion over a directory tree and the copy loop end when the tree and the
  contents do; both take fuel, and \<open>None\<close> is a call that has not returned.
\<close>

section \<open>The interface\<close>

type_synonym ('w, 'a) act = "'w \<Rightarrow> (go_error + 'a) \<times> 'w"
type_synonym ('w, 'a) proc = "'w \<Rightarrow> ((go_error + 'a) \<times> 'w) option"

text \<open>
  \<open>f_Info\<close> is the \<open>Info\<close> method of a directory entry. \<open>Lchtimes\<close> and \<open>Mkfifo\<close> are
  optional capabilities. The last three are the methods of an open file.
\<close>

record ('w, 'h) FileSystem =
  f_Open :: "string \<Rightarrow> ('w, 'h) act"
  f_OpenFile :: "string \<Rightarrow> goflags \<Rightarrow> FileMode \<Rightarrow> ('w, 'h) act"
  f_Stat :: "string \<Rightarrow> ('w, fileInfo) act"
  f_Lstat :: "string \<Rightarrow> ('w, fileInfo) act"
  f_ReadDir :: "string \<Rightarrow> ('w, memoryDirEntry list) act"
  f_Info :: "memoryDirEntry \<Rightarrow> ('w, fileInfo) act"
  f_Readlink :: "string \<Rightarrow> ('w, string) act"
  f_Realpath :: "string \<Rightarrow> ('w, string) act"
  f_Symlink :: "string \<Rightarrow> string \<Rightarrow> ('w, unit) act"
  f_Link :: "string \<Rightarrow> string \<Rightarrow> ('w, unit) act"
  f_Chown :: "string \<Rightarrow> 32 word \<Rightarrow> 32 word \<Rightarrow> bool \<Rightarrow> ('w, unit) act"
  f_Chmod :: "string \<Rightarrow> FileMode \<Rightarrow> ('w, unit) act"
  f_Chtimes :: "string \<Rightarrow> gotime \<Rightarrow> gotime \<Rightarrow> ('w, unit) act"
  f_Lchtimes :: "(string \<Rightarrow> gotime \<Rightarrow> gotime \<Rightarrow> ('w, unit) act) option"
  f_MkdirAll :: "string \<Rightarrow> FileMode \<Rightarrow> ('w, unit) act"
  f_Mkfifo :: "(string \<Rightarrow> FileMode \<Rightarrow> ('w, unit) act) option"
  f_Remove :: "string \<Rightarrow> bool \<Rightarrow> ('w, unit) act"
  f_Rename :: "string \<Rightarrow> string \<Rightarrow> ('w, unit) proc"
  f_Getwd :: "'w \<Rightarrow> string"
  f_Chdir :: "string \<Rightarrow> ('w, unit) act"
  f_Read :: "nat \<Rightarrow> 'h \<Rightarrow> 'w \<Rightarrow> (bytes \<times> go_error option) io \<times> 'h \<times> 'w"
  f_Write :: "bytes \<Rightarrow> 'h \<Rightarrow> 'w \<Rightarrow> (nat \<times> go_error option) io \<times> 'h \<times> 'w"
  f_Close :: "'h \<Rightarrow> 'w \<Rightarrow> 'w"

definition mkfifoViaOptional :: "('w, 'h) FileSystem \<Rightarrow> string \<Rightarrow> FileMode \<Rightarrow> ('w, unit) act" where
  "mkfifoViaOptional fsys name perm w =
     (case f_Mkfifo fsys of
        Some mkfifo \<Rightarrow> mkfifo name perm w
      | None \<Rightarrow> (Inl (PathError ''mkfifo'' (Clean name) (Errno ErrPermission)), w))"

record FileOwnership =
  UID :: "32 word"
  GID :: "32 word"

definition DefaultOwnership :: FileOwnership where
  "DefaultOwnership = \<lparr>UID = DefaultOwnerUID, GID = DefaultOwnerGID\<rparr>"

definition OwnershipFromFileInfo :: "fileInfo \<Rightarrow> FileOwnership option" where
  "OwnershipFromFileInfo info =
     (if fi_owned info then Some \<lparr>UID = fi_uid info, GID = fi_gid info\<rparr> else None)"

definition joinChildPath :: "string \<Rightarrow> string \<Rightarrow> string" where
  "joinChildPath parent child =
     (if parent = ''/'' then ''/'' @ child else parent @ ''/'' @ child)"

lemma joinChildPath_joinClean: "joinChildPath = joinClean"
  by (simp add: fun_eq_iff joinChildPath_def joinClean_def)

section \<open>Sequencing\<close>

text \<open>
  \<open>andThen\<close> is a call followed by \<open>if err != nil { return err }\<close>; \<open>whenOwned\<close> is a call
  made only for a value with an owner; \<open>each\<close> is a loop over a slice that returns at the
  first error.
\<close>

definition andThen :: "('w, 'a) act \<Rightarrow> ('a \<Rightarrow> ('w, 'b) act) \<Rightarrow> ('w, 'b) act" where
  "andThen c k w = (case c w of (Inl e, w1) \<Rightarrow> (Inl e, w1) | (Inr x, w1) \<Rightarrow> k x w1)"

definition thenProc :: "('w, 'a) act \<Rightarrow> ('a \<Rightarrow> ('w, 'b) proc) \<Rightarrow> ('w, 'b) proc" where
  "thenProc c k w = (case c w of (Inl e, w1) \<Rightarrow> Some (Inl e, w1) | (Inr x, w1) \<Rightarrow> k x w1)"

definition returns :: "('w, 'a) act \<Rightarrow> ('w, 'a) proc" where
  "returns c w = Some (c w)"

definition done_ok :: "('w, unit) act" where
  "done_ok w = (Inr (), w)"

definition fails :: "go_error \<Rightarrow> ('w, 'a) act" where
  "fails e w = (Inl e, w)"

definition gives :: "'a \<Rightarrow> ('w, 'a) act" where
  "gives x w = (Inr x, w)"

text \<open>A call whose error is rewritten before it is returned.\<close>

definition mapError :: "(go_error \<Rightarrow> go_error) \<Rightarrow> ('w, 'a) act \<Rightarrow> ('w, 'a) act" where
  "mapError f c w = (case c w of (Inl e, w1) \<Rightarrow> (Inl (f e), w1) | (Inr x, w1) \<Rightarrow> (Inr x, w1))"

text \<open>\<open>errors.As\<close> with the type of path errors and of link errors.\<close>

fun as_PathError :: "go_error \<Rightarrow> go_error option" where
  "as_PathError (PathError op name e) = Some (PathError op name e)"
| "as_PathError (LinkError _ _ _ e) = as_PathError e"
| "as_PathError (Wrapf _ e) = as_PathError e"
| "as_PathError _ = None"

fun as_LinkError :: "go_error \<Rightarrow> go_error option" where
  "as_LinkError (LinkError op old new e) = Some (LinkError op old new e)"
| "as_LinkError (PathError _ _ e) = as_LinkError e"
| "as_LinkError (Wrapf _ e) = as_LinkError e"
| "as_LinkError _ = None"

definition whenOwned :: "fileInfo \<Rightarrow> (FileOwnership \<Rightarrow> ('w, unit) act) \<Rightarrow> ('w, unit) act" where
  "whenOwned info c =
     (case OwnershipFromFileInfo info of None \<Rightarrow> done_ok | Some ow \<Rightarrow> c ow)"

primrec each :: "('e \<Rightarrow> ('w, unit) proc) \<Rightarrow> 'e list \<Rightarrow> ('w, unit) proc" where
  "each c [] w = Some (Inr (), w)"
| "each c (x # xs) w =
     (case c x w of
        None \<Rightarrow> None
      | Some (Inl e, w1) \<Rightarrow> Some (Inl e, w1)
      | Some (Inr _, w1) \<Rightarrow> each c xs w1)"

text \<open>A call on the first or the second of two states.\<close>

definition onFst :: "('w, 'a) act \<Rightarrow> ('w \<times> 'd, 'a) act" where
  "onFst c = (\<lambda>(w, d). case c w of (r, w1) \<Rightarrow> (r, (w1, d)))"

definition onSnd :: "('d, 'a) act \<Rightarrow> ('w \<times> 'd, 'a) act" where
  "onSnd c = (\<lambda>(w, d). case c d of (r, d1) \<Rightarrow> (r, (w, d1)))"

section \<open>Runs of combined calls\<close>

lemma andThenE:
  assumes "andThen c k fs = (r, fs')"
  obtains (err) e where "c fs = (Inl e, fs')" "r = Inl e" | (ok) a fs1 where "c fs = (Inr a, fs1)" "k a fs1 = (r, fs')"
  using assms by (cases "c fs"; cases "fst (c fs)") (auto simp: andThen_def)

lemma thenProcE:
  assumes "thenProc c k fs = Some (r, fs')"
  obtains (err) e where "c fs = (Inl e, fs')" "r = Inl e" | (ok) a fs1 where "c fs = (Inr a, fs1)" "k a fs1 = Some (r, fs')"
  using assms by (cases "c fs"; cases "fst (c fs)") (auto simp: thenProc_def)

lemma mapErrorE:
  assumes "mapError f c fs = (r, fs')"
  obtains (err) e where "c fs = (Inl e, fs')" "r = Inl (f e)" | (ok) a where "c fs = (Inr a, fs')" "r = Inr a"
  using assms by (cases "c fs"; cases "fst (c fs)") (auto simp: mapError_def)

section \<open>Entries by name\<close>

text \<open>A table of directory entries whose keys are their names, as listings build it.\<close>

definition keyed :: "(string \<times> memoryDirEntry) list \<Rightarrow> bool" where
  "keyed m \<longleftrightarrow> (\<forall>n e. map_of m n = Some e \<longrightarrow> de_name e = n)"

lemma keyed_update: "keyed m \<Longrightarrow> keyed (AList.update (de_name e) e m)"
  by (auto simp: keyed_def update_conv' split: if_splits)

lemma keyed_listing:
  assumes "keyed m"
  shows "map de_name (map (\<lambda>n. the (map_of m n)) (sorted_list_of_set (fst ` set m))) = sorted_list_of_set (fst ` set m)"
proof -
  have "de_name (the (map_of m n)) = n" if "n \<in> fst ` set m" for n
    using that assms by (auto simp: keyed_def dest!: weak_map_of_SomeI)
  then show ?thesis by (auto intro: map_idI)
qed

section \<open>Copying the bytes of an open file\<close>

definition copyBufferSize :: nat where "copyBufferSize = 32 * 1024"

text \<open>
  The loop of \<open>WriteTo\<close> and \<open>ReadFrom\<close>, and of \<open>io.Copy\<close>, between a reader and a
  writer over a common state: a read into the buffer, a write of what was read, until
  the end of the input. A call that waits forever does not return.
\<close>

primrec io_Copy ::
  "nat \<Rightarrow> (nat \<Rightarrow> 's \<Rightarrow> (bytes \<times> go_error option) io \<times> 's) \<Rightarrow>
   (bytes \<Rightarrow> 's \<Rightarrow> (nat \<times> go_error option) io \<times> 's) \<Rightarrow> ('s, unit) proc" where
  "io_Copy 0 rd wr s = None"
| "io_Copy (Suc fuel) rd wr s =
     (case rd copyBufferSize s of
        (Wait, s1) \<Rightarrow> None
      | (Done (b, err), s1) \<Rightarrow>
          (case (if b = [] then (Done (0, None), s1) else wr b s1) of
             (Wait, s2) \<Rightarrow> None
           | (Done (n, Some e), s2) \<Rightarrow> Some (Inl e, s2)
           | (Done (n, None), s2) \<Rightarrow>
               if n \<noteq> length b then Some (Inl (Errno ErrShortWrite), s2)
               else (case err of
                       None \<Rightarrow> io_Copy fuel rd wr s2
                     | Some e \<Rightarrow> if errors_Is e ErrEOF then Some (Inr (), s2)
                                 else Some (Inl e, s2))))"

section \<open>Open files of the in-memory file system\<close>

definition handle_fifo :: "nat \<Rightarrow> MemoryFS \<Rightarrow> memoryFIFO" where
  "handle_fifo r m = (case n_fifo (fs_heap m r) of None \<Rightarrow> newMemoryFIFO | Some q \<Rightarrow> q)"

definition handle_Read ::
  "nat \<Rightarrow> handle \<Rightarrow> MemoryFS \<Rightarrow> (bytes \<times> go_error option) io \<times> handle \<times> MemoryFS" where
  "handle_Read n h m =
     (case h of
        PlainFile f \<Rightarrow>
          (case mem_Read n f m of
             (Inl e, f', m') \<Rightarrow> (Done ([], Some e), PlainFile f', m')
           | (Inr b, f', m') \<Rightarrow> (Done (b, None), PlainFile f', m'))
      | FifoHandle f r \<Rightarrow>
          (case fifo_read None n f (handle_fifo r m) of
             (res, f', q) \<Rightarrow>
               ((case res of Wait \<Rightarrow> Wait | Done (Inl e) \<Rightarrow> Done ([], Some e) | Done (Inr b) \<Rightarrow> Done (b, None)),
                FifoHandle f' r, update_node r (\<lambda>n. n\<lparr>n_fifo := Some q\<rparr>) m)))"

definition handle_Write ::
  "gotime \<Rightarrow> bytes \<Rightarrow> handle \<Rightarrow> MemoryFS \<Rightarrow> (nat \<times> go_error option) io \<times> handle \<times> MemoryFS" where
  "handle_Write now b h m =
     (case h of
        PlainFile f \<Rightarrow>
          (case mem_Write now b f m of
             (Inl e, f', m') \<Rightarrow> (Done (0, Some e), PlainFile f', m')
           | (Inr n, f', m') \<Rightarrow> (Done (n, None), PlainFile f', m'))
      | FifoHandle f r \<Rightarrow>
          (case fifo_write None b f (handle_fifo r m) of
             (res, n, f', q) \<Rightarrow>
               ((case res of Wait \<Rightarrow> Wait | Done e \<Rightarrow> Done (n, e)),
                FifoHandle f' r, update_node r (\<lambda>n. n\<lparr>n_fifo := Some q\<rparr>) m)))"

definition handle_Close :: "handle \<Rightarrow> MemoryFS \<Rightarrow> MemoryFS" where
  "handle_Close h m =
     (case h of
        PlainFile f \<Rightarrow> m
      | FifoHandle f r \<Rightarrow>
          (case fifo_close f (handle_fifo r m) of
             (f', q) \<Rightarrow> update_node r (\<lambda>n. n\<lparr>n_fifo := Some q\<rparr>) m))"

text \<open>The in-memory file system as an object of the interface.\<close>

definition memory_FileSystem :: "gotime \<Rightarrow> (MemoryFS, handle) FileSystem" where
  "memory_FileSystem now =
     \<lparr>f_Open = mem_Open now,
      f_OpenFile = mem_OpenFile now,
      f_Stat = mem_Stat,
      f_Lstat = mem_Lstat,
      f_ReadDir = (\<lambda>name m. (mem_ReadDir name m, m)),
      f_Info = (\<lambda>e. mem_Lstat (de_path e)),
      f_Readlink = (\<lambda>name m. (mem_Readlink name m, m)),
      f_Realpath = (\<lambda>name m. (mem_Realpath name m, m)),
      f_Symlink = mem_Symlink now,
      f_Link = mem_Link now,
      f_Chown = mem_Chown,
      f_Chmod = mem_Chmod now,
      f_Chtimes = mem_Chtimes now,
      f_Lchtimes = Some (mem_Lchtimes now),
      f_MkdirAll = mem_MkdirAll now,
      f_Mkfifo = Some (mem_Mkfifo now),
      f_Remove = mem_Remove,
      f_Rename = (\<lambda>old new. returns (mem_Rename now old new)),
      f_Getwd = mem_Getwd,
      f_Chdir = mem_Chdir,
      f_Read = handle_Read,
      f_Write = handle_Write now,
      f_Close = handle_Close\<rparr>"

end
