(* ===== verification/Clone.thy ===== *)
theory Clone
  imports FileSys
begin

text \<open>
  Copying trees between file systems. \<open>clonePathWithInfo\<close> (\<open>fs/clone.go\<close>) copies into
  an in-memory file system and feeds snapshots and the overlay's copy-up;
  \<open>copyPathIntoWithInfo\<close> (\<open>fs/copy_internal.go\<close>) copies between any two file systems
  and feeds renames across mounts. Source and destination are the two components of the
  state, except in the second routine, where both are views of one state because both
  ends may be mounts of one object.
\<close>

section \<open>Single nodes\<close>

text \<open>The flags \<open>O_CREATE|O_WRONLY|O_TRUNC\<close> of the writer are \<open>create_flags\<close>.\<close>

definition cloneFile ::
  "nat \<Rightarrow> gotime \<Rightarrow> ('w, 'h) FileSystem \<Rightarrow> string \<Rightarrow> string \<Rightarrow> FileMode \<Rightarrow> ('w \<times> MemoryFS, unit) proc" where
  "cloneFile fuel now src srcName dstName mode =
     (\<lambda>(w, d).
       case f_Open src srcName w of
         (Inl e, w1) \<Rightarrow> Some (Inl e, (w1, d))
       | (Inr reader, w1) \<Rightarrow>
           (case f_Stat src srcName w1 of
              (Inl e, w2) \<Rightarrow> Some (Inl e, (f_Close src reader w2, d))
            | (Inr info, w2) \<Rightarrow>
                (case mem_OpenFile now dstName create_flags (mode_Perm mode) d of
                   (Inl e, d1) \<Rightarrow> Some (Inl e, (f_Close src reader w2, d1))
                 | (Inr writer, d1) \<Rightarrow>
                     (case io_Copy fuel
                             (\<lambda>n (rh, w, wh, d). case f_Read src n rh w of (r, rh', w') \<Rightarrow> (r, (rh', w', wh, d)))
                             (\<lambda>b (rh, w, wh, d). case handle_Write now b wh d of (r, wh', d') \<Rightarrow> (r, (rh, w, wh', d')))
                             (reader, w2, writer, d1) of
                        None \<Rightarrow> None
                      | Some (res, (rh, w3, wh, d2)) \<Rightarrow>
                          (case (case res of
                                   Inl e \<Rightarrow> (Inl e, d2)
                                 | Inr _ \<Rightarrow>
                                     andThen (mem_Chmod now dstName mode)
                                       (\<lambda>_. whenOwned info (\<lambda>ow. mem_Chown dstName (UID ow) (GID ow) True)) d2) of
                             (r, d3) \<Rightarrow> Some (r, (f_Close src rh w3, handle_Close wh d3)))))))"

definition cloneDirNode :: "gotime \<Rightarrow> string \<Rightarrow> fileInfo \<Rightarrow> (MemoryFS, unit) act" where
  "cloneDirNode now dstName info d =
     (if \<not> mode_IsDir (fi_mode info) then (Inl (PathError ''mkdir'' dstName (Errno ErrInvalid)), d)
      else
        andThen (mem_MkdirAll now dstName (mode_Perm (fi_mode info)))
          (\<lambda>_. andThen (mem_Chmod now dstName (fi_mode info))
            (\<lambda>_. andThen (whenOwned info (\<lambda>ow. mem_Chown dstName (UID ow) (GID ow) False))
              (\<lambda>_. if \<not> IsZero (fi_modTime info)
                   then mem_Lchtimes now dstName (fi_modTime info) (fi_modTime info)
                   else done_ok))) d)"

text \<open>The owner of a cloned node: that of its source, or the default one.\<close>

definition set_owner :: "fileInfo \<Rightarrow> memoryNode \<Rightarrow> memoryNode" where
  "set_owner info node =
     (case OwnershipFromFileInfo info of
        None \<Rightarrow> node
      | Some ow \<Rightarrow> node\<lparr>n_uid := UID ow, n_gid := GID ow\<rparr>)"

definition lazy_node :: "gotime \<Rightarrow> fileInfo \<Rightarrow> go_error + bytes \<Rightarrow> memoryNode" where
  "lazy_node now info provider =
     set_owner info
       ((blank_node (fi_mode info AND storedPermBits)
           (if IsZero (fi_modTime info) then now else fi_modTime info))
          \<lparr>n_lazy := Some provider, n_lazySize := fi_size info, n_lazySized := True\<rparr>)"

definition cloneLazyFile ::
  "gotime \<Rightarrow> string \<Rightarrow> fileInfo \<Rightarrow> go_error + bytes \<Rightarrow> (MemoryFS, unit) act" where
  "cloneLazyFile now dstName info provider d =
     (if \<not> mode_IsRegular (fi_mode info) then (Inl (PathError ''open'' dstName (Errno ErrInvalid)), d)
      else if ref_at d dstName \<noteq> None then (Inl (PathError ''open'' dstName (Errno ErrExist)), d)
      else (case ensureParentLocked now ''open'' dstName d of
              (Inl e, d1) \<Rightarrow> (Inl e, d1)
            | (Inr _, d1) \<Rightarrow> (Inr (), snd (install dstName (lazy_node now info provider) d1))))"

definition special_node :: "gotime \<Rightarrow> fileInfo \<Rightarrow> memoryNode" where
  "special_node now info =
     set_owner info
       ((blank_node (fi_mode info AND (storedPermBits OR seedableTypeBits))
           (if IsZero (fi_modTime info) then now else fi_modTime info))
          \<lparr>n_fifo := (if fi_mode info AND ModeNamedPipe \<noteq> 0 then Some newMemoryFIFO else None)\<rparr>)"

definition cloneSpecialFile :: "gotime \<Rightarrow> string \<Rightarrow> fileInfo \<Rightarrow> (MemoryFS, unit) act" where
  "cloneSpecialFile now dstName info d =
     (case mkdirAllLocked now (parentDir dstName) 0x1ED d of
        (Inl e, d1) \<Rightarrow> (Inl e, d1)
      | (Inr _, d1) \<Rightarrow> (Inr (), snd (install dstName (special_node now info) d1)))"

section \<open>Trees\<close>

text \<open>
  The information of a child is taken from its directory entry unless the entry is a
  link; when the entry cannot give it, it is asked for again.
\<close>

definition child_info ::
  "('w, 'h) FileSystem \<Rightarrow> memoryDirEntry \<Rightarrow> 'w \<Rightarrow> fileInfo option \<times> 'w" where
  "child_info src e w =
     (if mode_Type (de_mode e) AND ModeSymlink = 0
      then (case f_Info src e w of (Inl _, w1) \<Rightarrow> (None, w1) | (Inr i, w1) \<Rightarrow> (Some i, w1))
      else (None, w))"

definition given_info ::
  "('w, 'h) FileSystem \<Rightarrow> string \<Rightarrow> fileInfo option \<Rightarrow> ('w, fileInfo) act" where
  "given_info src srcName info w =
     (case info of None \<Rightarrow> f_Lstat src srcName w | Some i \<Rightarrow> (Inr i, w))"

primrec clonePathWithInfo ::
  "nat \<Rightarrow> gotime \<Rightarrow> ('w, 'h) FileSystem \<Rightarrow> string \<Rightarrow> fileInfo option \<Rightarrow> string \<Rightarrow>
   ('w \<times> MemoryFS, unit) proc" where
  "clonePathWithInfo 0 now src srcName info0 dstName s = None"
| "clonePathWithInfo (Suc fuel) now src srcName info0 dstName s =
     thenProc (onFst (given_info src srcName info0)) (\<lambda>info.
       let absDst = Clean dstName; mode = fi_mode info
       in if mode AND ModeSymlink \<noteq> 0 then
            returns (andThen (onFst (f_Readlink src srcName)) (\<lambda>target.
              andThen (onSnd (mem_Symlink now target absDst)) (\<lambda>_.
                onSnd (whenOwned info (\<lambda>ow. mem_Chown absDst (UID ow) (GID ow) False)))))
          else if mode_IsDir mode then
            thenProc (onSnd (mem_MkdirAll now absDst (mode_Perm mode))) (\<lambda>_.
              thenProc (onSnd (whenOwned info (\<lambda>ow. mem_Chown absDst (UID ow) (GID ow) False))) (\<lambda>_.
                thenProc (onFst (f_ReadDir src srcName)) (\<lambda>entries.
                  each (\<lambda>e (w, d).
                    case child_info src e w of
                      (childInfo, w1) \<Rightarrow>
                        clonePathWithInfo fuel now src (joinChildPath (Clean srcName) (de_name e)) childInfo
                          (joinChildPath absDst (de_name e)) (w1, d)) entries)))
          else if mode AND ModeType \<noteq> 0 then returns (onSnd (cloneSpecialFile now absDst info))
          else cloneFile fuel now src srcName absDst mode) s"

definition clonePath ::
  "nat \<Rightarrow> gotime \<Rightarrow> ('w, 'h) FileSystem \<Rightarrow> string \<Rightarrow> string \<Rightarrow> ('w \<times> MemoryFS, unit) proc" where
  "clonePath fuel now src srcName dstName = clonePathWithInfo fuel now src srcName None dstName"

section \<open>Copying between any two file systems\<close>

definition copyFileInto ::
  "nat \<Rightarrow> ('w, 'h) FileSystem \<Rightarrow> string \<Rightarrow> ('w, 'k) FileSystem \<Rightarrow> string \<Rightarrow> fileInfo \<Rightarrow> ('w, unit) proc" where
  "copyFileInto fuel src srcName dst dstName info w =
     (case f_Open src srcName w of
        (Inl e, w1) \<Rightarrow> Some (Inl e, w1)
      | (Inr reader, w1) \<Rightarrow>
          (case f_OpenFile dst dstName create_flags (mode_Perm (fi_mode info)) w1 of
             (Inl e, w2) \<Rightarrow> Some (Inl e, f_Close src reader w2)
           | (Inr writer, w2) \<Rightarrow>
               (case io_Copy fuel
                       (\<lambda>n (rh, wh, w). case f_Read src n rh w of (r, rh', w') \<Rightarrow> (r, (rh', wh, w')))
                       (\<lambda>b (rh, wh, w). case f_Write dst b wh w of (r, wh', w') \<Rightarrow> (r, (rh, wh', w')))
                       (reader, writer, w2) of
                  None \<Rightarrow> None
                | Some (res, (rh, wh, w3)) \<Rightarrow>
                    (case (case res of
                             Inl e \<Rightarrow> (Inl e, w3)
                           | Inr _ \<Rightarrow>
                               andThen (f_Chmod dst dstName (mode_Perm (fi_mode info)))
                                 (\<lambda>_. whenOwned info (\<lambda>ow. f_Chown dst dstName (UID ow) (GID ow) True)) w3) of
                       (r, w4) \<Rightarrow> Some (r, f_Close src rh (f_Close dst wh w4))))))"

primrec copyPathIntoWithInfo ::
  "nat \<Rightarrow> ('w, 'h) FileSystem \<Rightarrow> string \<Rightarrow> fileInfo option \<Rightarrow> ('w, 'k) FileSystem \<Rightarrow> string \<Rightarrow> ('w, unit) proc" where
  "copyPathIntoWithInfo 0 src srcName info0 dst dstName w = None"
| "copyPathIntoWithInfo (Suc fuel) src srcName info0 dst dstName w =
     thenProc (given_info src srcName info0) (\<lambda>info.
       let absDst = Clean dstName; mode = fi_mode info;
           chown = whenOwned info (\<lambda>ow. f_Chown dst absDst (UID ow) (GID ow) False)
       in if mode AND ModeSymlink \<noteq> 0 then
            returns (andThen (f_Readlink src srcName) (\<lambda>target.
              andThen (f_Symlink dst target absDst) (\<lambda>_. chown)))
          else if mode_IsDir mode then
            thenProc (f_MkdirAll dst absDst (mode_Perm mode)) (\<lambda>_.
              thenProc (f_Chmod dst absDst (mode_Perm mode)) (\<lambda>_.
                thenProc chown (\<lambda>_.
                  thenProc (f_ReadDir src srcName) (\<lambda>entries.
                    each (\<lambda>e w.
                      case child_info src e w of
                        (childInfo, w1) \<Rightarrow>
                          copyPathIntoWithInfo fuel src (joinChildPath (Clean srcName) (de_name e)) childInfo
                            dst (joinChildPath absDst (de_name e)) w1) entries))))
          else if mode AND ModeNamedPipe \<noteq> 0 then
            returns (andThen (mkfifoViaOptional dst absDst (mode_Perm mode)) (\<lambda>_. chown))
          else if \<not> mode_IsRegular mode then
            returns (\<lambda>w. (Inl (PathError ''copy'' srcName (Errno ErrInvalid)), w))
          else copyFileInto fuel src srcName dst absDst info) w"

definition copyPathInto ::
  "nat \<Rightarrow> ('w, 'h) FileSystem \<Rightarrow> string \<Rightarrow> ('w, 'k) FileSystem \<Rightarrow> string \<Rightarrow> ('w, unit) proc" where
  "copyPathInto fuel src srcName dst dstName = copyPathIntoWithInfo fuel src srcName None dst dstName"

end
