(* ===== verification/Overlay.thy ===== *)
theory Overlay
  imports Clone
begin

text \<open>
  The copy-on-write file system of \<open>fs/overlay.go\<close>: its state and one definition per
  operation. The lower layer is an object of the file system interface with its own state;
  the upper layer is an in-memory file system. The operations hold the lock only around
  accesses to the working directory, the tombstones and the cache, so a definition is the
  sequence of steps one caller makes when no other interleaves.

  The lazy provider of a copied-up file opens the lower file and reads it to the end when
  the content is first needed; \<open>o_content\<close> stands for what that gives, a parameter of
  the model.
\<close>

section \<open>State\<close>

record ('w, 'h) OverlayFS =
  o_lower :: "('w, 'h) FileSystem"
  o_content :: "string \<Rightarrow> go_error + bytes"
  o_world :: 'w
  o_upper :: MemoryFS
  o_cwd :: string
  o_tombstones :: "string set"
  o_lowerDirs :: "string \<rightharpoonup> fileInfo"

datatype overlaySource = overlaySourceNone | overlaySourceUpper | overlaySourceLower

datatype overlayMissing = overlayMissingNone | overlayMissingFinal

datatype 'h overlayFile = UpperFile handle | LowerFile 'h

definition NewOverlay ::
  "gotime \<Rightarrow> ('w, 'h) FileSystem \<Rightarrow> (string \<Rightarrow> go_error + bytes) \<Rightarrow> 'w \<Rightarrow> ('w, 'h) OverlayFS" where
  "NewOverlay now lower content w =
     \<lparr>o_lower = lower, o_content = content, o_world = w, o_upper = newMemoryWithImplicitParents now,
      o_cwd = ''/'', o_tombstones = {}, o_lowerDirs = Map.empty\<rparr>"

text \<open>A method call on one of the layers.\<close>

definition onUpper :: "(MemoryFS, 'a) act \<Rightarrow> (('w, 'h) OverlayFS, 'a) act" where
  "onUpper c fs = (case c (o_upper fs) of (r, u) \<Rightarrow> (r, fs\<lparr>o_upper := u\<rparr>))"

definition onLower :: "(('w, 'h) FileSystem \<Rightarrow> ('w, 'a) act) \<Rightarrow> (('w, 'h) OverlayFS, 'a) act" where
  "onLower c fs = (case c (o_lower fs) (o_world fs) of (r, w) \<Rightarrow> (r, fs\<lparr>o_world := w\<rparr>))"

section \<open>Helpers\<close>

definition toPathError :: "string \<Rightarrow> string \<Rightarrow> go_error \<Rightarrow> go_error" where
  "toPathError op name err =
     (case as_PathError err of Some pathErr \<Rightarrow> pathErr | None \<Rightarrow> PathError op name err)"

definition unwrapPathError :: "go_error \<Rightarrow> go_error" where
  "unwrapPathError err =
     (case as_PathError err of Some (PathError _ _ e) \<Rightarrow> e | _ \<Rightarrow> err)"

definition split_path :: "string \<Rightarrow> string list" where
  "split_path p = split_on slash (TrimPrefix p ''/'')"

definition o_resolve :: "string \<Rightarrow> ('w, 'h) OverlayFS \<Rightarrow> string" where
  "o_resolve name fs = Resolve (o_cwd fs) name"

text \<open>The number of steps of the walk to the root that \<open>isHidden\<close> makes.\<close>

definition hide_steps :: "string \<Rightarrow> nat" where
  "hide_steps p = (if clean_path p then length (abs_comps p) else Suc (length (abs_comps (parentDir p))))"

lemma hide_steps_parent: "p \<noteq> ''/'' \<Longrightarrow> hide_steps (parentDir p) < hide_steps p"
proof (cases "clean_path p")
  case True
  assume "p \<noteq> ''/''"
  with True obtain cs c where "p = render (cs @ [c])" "valid_comps (cs @ [c])"
    by (metis clean_pathE render_eq_root rev_exhaust)
  then show ?thesis by (simp add: hide_steps_def)
qed (simp add: hide_steps_def)

function hidden_loop :: "string set \<Rightarrow> string \<Rightarrow> bool" where
  "hidden_loop tombs current =
     (if current \<in> tombs then True
      else if current = ''/'' then False
      else hidden_loop tombs (parentDir current))"
  by pat_completeness auto
termination
  by (relation "measure (\<lambda>(t, p). hide_steps p)") (auto intro: hide_steps_parent)

declare hidden_loop.simps [simp del]

definition isHidden :: "string \<Rightarrow> ('w, 'h) OverlayFS \<Rightarrow> bool" where
  "isHidden name fs = hidden_loop (o_tombstones fs) (Clean name)"

definition isExactTombstone :: "string \<Rightarrow> ('w, 'h) OverlayFS \<Rightarrow> bool" where
  "isExactTombstone name fs = (Clean name \<in> o_tombstones fs)"

definition addTombstone :: "string \<Rightarrow> ('w, 'h) OverlayFS \<Rightarrow> ('w, 'h) OverlayFS" where
  "addTombstone name fs = fs\<lparr>o_tombstones := insert (Clean name) (o_tombstones fs)\<rparr>"

definition clearTombstonesUnder :: "string \<Rightarrow> ('w, 'h) OverlayFS \<Rightarrow> ('w, 'h) OverlayFS" where
  "clearTombstonesUnder name fs =
     fs\<lparr>o_tombstones := Set.filter (\<lambda>c. \<not> (c = Clean name \<or> HasPrefix c (Clean name @ ''/''))) (o_tombstones fs)\<rparr>"

text \<open>\<open>lstatMaybe\<close> and \<open>removeMaybe\<close>: a missing file is not an error.\<close>

definition maybe :: "('w, 'a) act \<Rightarrow> ('w, 'a option) act" where
  "maybe c w =
     (case c w of
        (Inl e, w1) \<Rightarrow> if errors_Is e ErrNotExist then (Inr None, w1) else (Inl e, w1)
      | (Inr x, w1) \<Rightarrow> (Inr (Some x), w1))"

section \<open>The merged view\<close>

definition visibleInfo :: "string \<Rightarrow> (('w, 'h) OverlayFS, fileInfo \<times> overlaySource) act" where
  "visibleInfo p fs =
     (case onUpper (mem_Lstat p) fs of
        (Inr info, fs1) \<Rightarrow> (Inr (info, overlaySourceUpper), fs1)
      | (Inl e, fs1) \<Rightarrow>
          if \<not> errors_Is e ErrNotExist then (Inl e, fs1)
          else if isHidden p fs1 then (Inl (Errno ErrNotExist), fs1)
          else (case onLower (\<lambda>l. f_Lstat l p) fs1 of
                  (Inl e, fs2) \<Rightarrow> (Inl e, fs2)
                | (Inr info, fs2) \<Rightarrow> (Inr (info, overlaySourceLower), fs2)))"

definition visiblePrefixInfo :: "string \<Rightarrow> (('w, 'h) OverlayFS, fileInfo \<times> overlaySource) act" where
  "visiblePrefixInfo p fs =
     (case onUpper (mem_Lstat p) fs of
        (Inr info, fs1) \<Rightarrow> (Inr (info, overlaySourceUpper), fs1)
      | (Inl e, fs1) \<Rightarrow>
          if \<not> errors_Is e ErrNotExist then (Inl e, fs1)
          else if isHidden p fs1 then (Inl (Errno ErrNotExist), fs1)
          else (case o_lowerDirs fs1 p of
                  Some info \<Rightarrow> (Inr (info, overlaySourceLower), fs1)
                | None \<Rightarrow>
                    (case onLower (\<lambda>l. f_Lstat l p) fs1 of
                       (Inl e, fs2) \<Rightarrow> (Inl e, fs2)
                     | (Inr info, fs2) \<Rightarrow>
                         (Inr (info, overlaySourceLower),
                          if mode_IsDir (fi_mode info)
                          then fs2\<lparr>o_lowerDirs := (o_lowerDirs fs2)(p \<mapsto> info)\<rparr> else fs2))))"

definition visibleComponentInfo ::
  "string \<Rightarrow> bool \<Rightarrow> (('w, 'h) OverlayFS, fileInfo \<times> overlaySource) act" where
  "visibleComponentInfo p isLast = (if isLast then visibleInfo p else visiblePrefixInfo p)"

definition readlinkAt :: "overlaySource \<Rightarrow> string \<Rightarrow> (('w, 'h) OverlayFS, string) act" where
  "readlinkAt source p =
     (case source of
        overlaySourceUpper \<Rightarrow> onUpper (\<lambda>u. (mem_Readlink p u, u))
      | overlaySourceLower \<Rightarrow> onLower (\<lambda>l. f_Readlink l p)
      | overlaySourceNone \<Rightarrow> fails (Errno ErrNotExist))"

type_synonym merged = "string \<times> fileInfo option \<times> overlaySource"

text \<open>
  One walk along the components: it ends at an entry, or restarts at the target of a
  link.
\<close>

datatype merged_walk = Found merged | Follow string

primrec merged_loop ::
  "bool \<Rightarrow> overlayMissing \<Rightarrow> string list \<Rightarrow> string \<Rightarrow> (('w, 'h) OverlayFS, merged_walk) act" where
  "merged_loop followFinal missing [] current fs = (Inl (Errno ErrNotExist), fs)"
| "merged_loop followFinal missing (part # rest) current fs =
     (let nxt = joinChildPath current part; isLast = (rest = [])
      in (case visibleComponentInfo nxt isLast fs of
            (Inl err, fs1) \<Rightarrow>
              if \<not> errors_Is err ErrNotExist then (Inl err, fs1)
              else if isLast \<and> missing = overlayMissingFinal
              then (Inr (Found (nxt, None, overlaySourceNone)), fs1)
              else (Inl (Errno ErrNotExist), fs1)
          | (Inr (info, source), fs1) \<Rightarrow>
              if fi_mode info AND ModeSymlink \<noteq> 0 \<and> (\<not> isLast \<or> followFinal) then
                (case readlinkAt source nxt fs1 of
                   (Inl err, fs2) \<Rightarrow> (Inl (unwrapPathError err), fs2)
                 | (Inr target, fs2) \<Rightarrow>
                     let resolved = Resolve current target
                     in (Inr (Follow (if isLast then resolved else Resolve resolved (path_JoinAll rest))), fs2))
              else if isLast then (Inr (Found (nxt, Some info, source)), fs1)
              else if \<not> mode_IsDir (fi_mode info) then (Inl (Errno ErrInvalid), fs1)
              else merged_loop followFinal missing rest nxt fs1))"

function resolveMergedDepth ::
  "string \<Rightarrow> bool \<Rightarrow> overlayMissing \<Rightarrow> nat \<Rightarrow> ('w, 'h) OverlayFS \<Rightarrow> (go_error + merged) \<times> ('w, 'h) OverlayFS" where
  "resolveMergedDepth p0 followFinal missing depth fs =
     (let p = Clean p0
      in if maxSymlinkDepth < depth then (Inl (Errno ErrTooManySymlinks), fs)
         else if p = ''/'' then
           (case visibleInfo p fs of
              (Inl e, fs1) \<Rightarrow> (Inl e, fs1)
            | (Inr (info, source), fs1) \<Rightarrow> (Inr (p, Some info, source), fs1))
         else (case merged_loop followFinal missing (split_path p) ''/'' fs of
                 (Inl e, fs1) \<Rightarrow> (Inl e, fs1)
               | (Inr (Found res), fs1) \<Rightarrow> (Inr res, fs1)
               | (Inr (Follow target), fs1) \<Rightarrow>
                   resolveMergedDepth target followFinal missing (Suc depth) fs1))"
  by pat_completeness auto
termination
  by (relation "measure (\<lambda>(p, f, a, depth, fs). Suc maxSymlinkDepth - depth)")
    (auto simp: maxSymlinkDepth_def)

declare resolveMergedDepth.simps [simp del]

definition resolveMergedPath ::
  "string \<Rightarrow> bool \<Rightarrow> overlayMissing \<Rightarrow> (('w, 'h) OverlayFS, merged) act" where
  "resolveMergedPath p followFinal missing fs = resolveMergedDepth p followFinal missing 0 fs"

definition resolveMerged ::
  "string \<Rightarrow> bool \<Rightarrow> (('w, 'h) OverlayFS, string \<times> fileInfo \<times> overlaySource) act" where
  "resolveMerged p followFinal fs =
     (case resolveMergedDepth p followFinal overlayMissingNone 0 fs of
        (Inl e, fs1) \<Rightarrow> (Inl e, fs1)
      | (Inr (resolved, None, source), fs1) \<Rightarrow> (Inl (Errno ErrNotExist), fs1)
      | (Inr (resolved, Some info, source), fs1) \<Rightarrow> (Inr (resolved, info, source), fs1))"

section \<open>Copying up\<close>

primrec copyUp_loop :: "gotime \<Rightarrow> string list \<Rightarrow> string \<Rightarrow> (('w, 'h) OverlayFS, unit) act" where
  "copyUp_loop now [] current fs = (Inr (), fs)"
| "copyUp_loop now (part # parts) current fs =
     (let nxt = joinChildPath current part
      in (case visiblePrefixInfo nxt fs of
            (Inl e, fs1) \<Rightarrow> (Inl e, fs1)
          | (Inr (info, source), fs1) \<Rightarrow>
              if source = overlaySourceUpper then copyUp_loop now parts nxt fs1
              else andThen (onLower (\<lambda>l. f_Lstat l nxt)) (\<lambda>dirInfo.
                     andThen (onUpper (cloneDirNode now nxt dirInfo)) (\<lambda>_.
                       copyUp_loop now parts nxt)) fs1))"

definition copyUpAncestors :: "gotime \<Rightarrow> string \<Rightarrow> (('w, 'h) OverlayFS, unit) act" where
  "copyUpAncestors now p =
     (if parentDir p = ''/'' then done_ok else copyUp_loop now (split_path (parentDir p)) ''/'')"

text \<open>
  Only a link or a special file takes the first branch here, so the tree walk of
  \<open>clonePathWithInfo\<close> makes one step and its fuel is 1.
\<close>

definition copyUpLowerEntry ::
  "gotime \<Rightarrow> string \<Rightarrow> fileInfo \<Rightarrow> string \<Rightarrow> (('w, 'h) OverlayFS, unit) act" where
  "copyUpLowerEntry now src info dst fs =
     (if \<not> mode_IsRegular (fi_mode info) then
        (case clonePathWithInfo 1 now (o_lower fs) src (Some info) dst (o_world fs, o_upper fs) of
           None \<Rightarrow> (Inl (PathError ''open'' dst (Errno ErrInvalid)), fs)
         | Some (r, (w, u)) \<Rightarrow> (r, fs\<lparr>o_world := w, o_upper := u\<rparr>))
      else onUpper (cloneLazyFile now (Clean dst) info (o_content fs src)) fs)"

definition copyUpNode :: "gotime \<Rightarrow> string \<Rightarrow> fileInfo \<Rightarrow> (('w, 'h) OverlayFS, unit) act" where
  "copyUpNode now p info =
     andThen (copyUpAncestors now p) (\<lambda>_.
       if mode_IsDir (fi_mode info) then onUpper (cloneDirNode now p info)
       else copyUpLowerEntry now p info p)"

section \<open>Operations\<close>

definition openUpper ::
  "gotime \<Rightarrow> goflags \<Rightarrow> FileMode \<Rightarrow> string \<Rightarrow> (('w, 'h) OverlayFS, 'h overlayFile) act" where
  "openUpper now flag perm resolved =
     andThen (onUpper (mem_OpenFile now resolved flag perm)) (\<lambda>h. gives (UpperFile h))"

text \<open>The second half of \<open>OpenFile\<close>: an open with write intent of the resolved entry.\<close>

definition open_resolved ::
  "gotime \<Rightarrow> string \<Rightarrow> goflags \<Rightarrow> FileMode \<Rightarrow> merged \<Rightarrow> (('w, 'h) OverlayFS, 'h overlayFile) act" where
  "open_resolved now p flag perm =
     (\<lambda>(resolved, info, source).
       if flag AND (O_CREATE OR O_EXCL) = O_CREATE OR O_EXCL \<and> info \<noteq> None
       then fails (PathError ''open'' p (Errno ErrExist))
       else (case info of
               None \<Rightarrow>
                 if flag AND O_CREATE = 0 then fails (PathError ''open'' p (Errno ErrNotExist))
                 else andThen (mapError (toPathError ''open'' p) (copyUpAncestors now resolved))
                        (\<lambda>_. openUpper now flag perm resolved)
             | Some i \<Rightarrow>
                 if source = overlaySourceLower then
                   if mode_IsDir (fi_mode i) then fails (PathError ''open'' p (Errno ErrInvalid))
                   else andThen (mapError (toPathError ''open'' p) (copyUpNode now resolved i))
                          (\<lambda>_. openUpper now flag perm resolved)
                 else openUpper now flag perm resolved))"

definition ov_OpenFile ::
  "gotime \<Rightarrow> string \<Rightarrow> goflags \<Rightarrow> FileMode \<Rightarrow> (('w, 'h) OverlayFS, 'h overlayFile) act" where
  "ov_OpenFile now name flag perm fs =
     (let p = o_resolve name fs;
          exclusive = (flag AND (O_CREATE OR O_EXCL) = O_CREATE OR O_EXCL)
      in if \<not> hasWriteIntent flag then
           andThen (mapError (toPathError ''open'' p) (resolveMerged p True)) (\<lambda>(resolved, info, source).
             if source = overlaySourceUpper then openUpper now flag perm resolved
             else andThen (onLower (\<lambda>l. f_OpenFile l resolved flag perm)) (\<lambda>h. gives (LowerFile h))) fs
         else
           andThen (mapError (\<lambda>e. toPathError ''open'' p (if flag AND O_CREATE \<noteq> 0 then createParentError e else e))
               (resolveMergedPath p (\<not> exclusive)
                  (if flag AND O_CREATE \<noteq> 0 then overlayMissingFinal else overlayMissingNone)))
             (open_resolved now p flag perm) fs)"

definition ov_Open :: "gotime \<Rightarrow> string \<Rightarrow> (('w, 'h) OverlayFS, 'h overlayFile) act" where
  "ov_Open now name = ov_OpenFile now name O_RDONLY 0"

definition ov_Stat :: "string \<Rightarrow> (('w, 'h) OverlayFS, fileInfo) act" where
  "ov_Stat name fs =
     andThen (mapError (toPathError ''stat'' (o_resolve name fs)) (resolveMerged (o_resolve name fs) True))
       (\<lambda>(_, info, _). gives info) fs"

definition ov_Lstat :: "string \<Rightarrow> (('w, 'h) OverlayFS, fileInfo) act" where
  "ov_Lstat name fs =
     andThen (mapError (toPathError ''lstat'' (o_resolve name fs)) (resolveMerged (o_resolve name fs) False))
       (\<lambda>(_, info, _). gives info) fs"

definition not_dir :: "fileInfo option \<Rightarrow> bool" where
  "not_dir info = (case info of None \<Rightarrow> False | Some i \<Rightarrow> \<not> mode_IsDir (fi_mode i))"

text \<open>
  The merged listing: the entries of the upper layer, then those lower entries that are
  neither hidden nor already there; the result is in the order of the names.
\<close>

definition merge_entries ::
  "string \<Rightarrow> memoryDirEntry list \<Rightarrow> memoryDirEntry list \<Rightarrow> ('w, 'h) OverlayFS \<Rightarrow> memoryDirEntry list" where
  "merge_entries p uppers lowers fs =
     (let byName = fold (\<lambda>e m. AList.update (de_name e) e m) uppers [];
          byName = fold (\<lambda>e m.
              if isHidden (path_Join p (de_name e)) fs then m
              else if map_of m (de_name e) \<noteq> None then m
              else AList.update (de_name e) e m) lowers byName
      in map (\<lambda>n. the (map_of byName n)) (sorted_list_of_set (set (map fst byName))))"

text \<open>\<open>ReadDir\<close> after the name is resolved: the upper entry, the lower entry, the lists.\<close>

definition readDir_lower :: "string \<Rightarrow> fileInfo option \<Rightarrow> (('w, 'h) OverlayFS, memoryDirEntry list) act" where
  "readDir_lower p upperInfo =
     andThen (mapError (toPathError ''readdir'' p) (onLower (\<lambda>l. maybe (f_Lstat l p)))) (\<lambda>lowerInfo.
       if not_dir lowerInfo \<and> upperInfo = None then fails (PathError ''readdir'' p (Errno ErrInvalid))
       else if upperInfo = None \<and> lowerInfo = None then fails (PathError ''readdir'' p (Errno ErrNotExist))
       else
         andThen (if upperInfo \<noteq> None then onUpper (\<lambda>u. (mem_ReadDir p u, u)) else gives []) (\<lambda>uppers fs2.
           andThen (if lowerInfo \<noteq> None \<and> \<not> isExactTombstone p fs2
                    then onLower (\<lambda>l. f_ReadDir l p) else gives [])
             (\<lambda>lowers fs3. (Inr (merge_entries p uppers lowers fs3), fs3)) fs2))"

definition readDir_at :: "string \<Rightarrow> (('w, 'h) OverlayFS, memoryDirEntry list) act" where
  "readDir_at p =
     andThen (mapError (toPathError ''readdir'' p) (onUpper (maybe (mem_Lstat p)))) (\<lambda>upperInfo fs1.
       if not_dir upperInfo then (Inl (PathError ''readdir'' p (Errno ErrInvalid)), fs1)
       else if upperInfo = None \<and> isHidden p fs1
       then (Inl (PathError ''readdir'' p (Errno ErrNotExist)), fs1)
       else readDir_lower p upperInfo fs1)"

definition ov_ReadDir :: "string \<Rightarrow> (('w, 'h) OverlayFS, memoryDirEntry list) act" where
  "ov_ReadDir name fs =
     (let requested = o_resolve name fs
      in andThen (mapError (toPathError ''readdir'' requested) (resolveMerged requested True))
           (\<lambda>(p, _, _). readDir_at p) fs)"

definition ov_Readlink :: "string \<Rightarrow> (('w, 'h) OverlayFS, string) act" where
  "ov_Readlink name fs =
     (let p = o_resolve name fs
      in mapError (toPathError ''readlink'' p)
           (andThen (resolveMerged p False) (\<lambda>(resolved, _, source). readlinkAt source resolved)) fs)"

definition ov_Realpath :: "string \<Rightarrow> (('w, 'h) OverlayFS, string) act" where
  "ov_Realpath name fs =
     (let p = o_resolve name fs
      in andThen (mapError (\<lambda>e. PathError ''realpath'' p (unwrapPathError e)) (resolveMerged p True))
           (\<lambda>(resolved, _, _). gives resolved) fs)"

text \<open>
  \<open>Symlink\<close> and \<open>Mkfifo\<close> share their steps: the name is resolved and must be missing,
  its ancestors are copied up, the upper layer creates the entry, and tombstones at and
  under the name are dropped.
\<close>

definition ov_create ::
  "gotime \<Rightarrow> string \<Rightarrow> (string \<Rightarrow> (MemoryFS, unit) act) \<Rightarrow> string \<Rightarrow> (('w, 'h) OverlayFS, unit) act" where
  "ov_create now op mk name fs =
     (let requested = o_resolve name fs
      in andThen (mapError (\<lambda>e. toPathError op requested (createParentError e))
             (resolveMergedPath requested False overlayMissingFinal)) (\<lambda>(p, info, _).
           if info \<noteq> None then fails (PathError op p (Errno ErrExist))
           else andThen (mapError (toPathError op p) (copyUpAncestors now p)) (\<lambda>_.
             andThen (mapError (toPathError op p) (onUpper (mk p))) (\<lambda>_ fs1.
               (Inr (), clearTombstonesUnder p fs1)))) fs)"

definition ov_Symlink :: "gotime \<Rightarrow> string \<Rightarrow> string \<Rightarrow> (('w, 'h) OverlayFS, unit) act" where
  "ov_Symlink now target linkName = ov_create now ''symlink'' (mem_Symlink now target) linkName"

definition ov_Mkfifo :: "gotime \<Rightarrow> string \<Rightarrow> FileMode \<Rightarrow> (('w, 'h) OverlayFS, unit) act" where
  "ov_Mkfifo now name perm = ov_create now ''mkfifo'' (\<lambda>p. mem_Mkfifo now p perm) name"

text \<open>\<open>Link\<close> first makes sure the old entry is in the upper layer.\<close>

definition link_source :: "gotime \<Rightarrow> string \<Rightarrow> fileInfo \<Rightarrow> overlaySource \<Rightarrow> (('w, 'h) OverlayFS, unit) act" where
  "link_source now oldAbs info source =
     (case source of
        overlaySourceUpper \<Rightarrow> done_ok
      | overlaySourceLower \<Rightarrow>
          mapError (toPathError ''link'' oldAbs)
            (andThen (onUpper (maybe (mem_Lstat oldAbs))) (\<lambda>there.
               if there = None then copyUpNode now oldAbs info else done_ok))
      | overlaySourceNone \<Rightarrow> fails (PathError ''link'' oldAbs (Errno ErrNotExist)))"

definition ov_Link :: "gotime \<Rightarrow> string \<Rightarrow> string \<Rightarrow> (('w, 'h) OverlayFS, unit) act" where
  "ov_Link now oldName newName fs =
     (let oldReq = o_resolve oldName fs; newReq = o_resolve newName fs
      in andThen (mapError (\<lambda>_. PathError ''link'' oldReq (Errno ErrNotExist)) (resolveMerged oldReq False))
           (\<lambda>(oldAbs, info, source).
             if mode_IsDir (fi_mode info) then fails (PathError ''link'' oldAbs (Errno ErrInvalid))
             else
               andThen (mapError (\<lambda>e. toPathError ''link'' newReq (createParentError e))
                   (resolveMergedPath newReq False overlayMissingFinal)) (\<lambda>(newAbs, newInfo, _).
                 if newInfo \<noteq> None then fails (PathError ''link'' newAbs (Errno ErrExist))
                 else
                   andThen (mapError (toPathError ''link'' newAbs) (copyUpAncestors now newAbs)) (\<lambda>_.
                     andThen (link_source now oldAbs info source) (\<lambda>_.
                       andThen (mapError (toPathError ''link'' oldAbs) (onUpper (mem_Link now oldAbs newAbs)))
                         (\<lambda>_ fs1. (Inr (), clearTombstonesUnder newAbs fs1)))))) fs)"

text \<open>
  The changes of metadata share their steps: the node is resolved, copied up if the
  lower layer provides it, and changed in the upper layer.
\<close>

definition ov_change ::
  "gotime \<Rightarrow> string \<Rightarrow> bool \<Rightarrow> (string \<Rightarrow> (MemoryFS, unit) act) \<Rightarrow> string \<Rightarrow> (('w, 'h) OverlayFS, unit) act" where
  "ov_change now op follow change name fs =
     (let requested = o_resolve name fs
      in andThen (mapError (toPathError op requested) (resolveMerged requested follow)) (\<lambda>(p, info, source).
           andThen (if source = overlaySourceLower
                    then mapError (toPathError op p) (copyUpNode now p info) else done_ok)
             (\<lambda>_. mapError (toPathError op p) (onUpper (change p)))) fs)"

definition ov_Chmod :: "gotime \<Rightarrow> string \<Rightarrow> FileMode \<Rightarrow> (('w, 'h) OverlayFS, unit) act" where
  "ov_Chmod now name mode = ov_change now ''chmod'' True (\<lambda>p. mem_Chmod now p mode) name"

definition ov_Chown ::
  "gotime \<Rightarrow> string \<Rightarrow> 32 word \<Rightarrow> 32 word \<Rightarrow> bool \<Rightarrow> (('w, 'h) OverlayFS, unit) act" where
  "ov_Chown now name uid gid follow =
     ov_change now ''chown'' follow (\<lambda>p. mem_Chown p uid gid follow) name"

definition ov_Chtimes :: "gotime \<Rightarrow> string \<Rightarrow> gotime \<Rightarrow> gotime \<Rightarrow> (('w, 'h) OverlayFS, unit) act" where
  "ov_Chtimes now name atime mtime =
     ov_change now ''chtimes'' True (\<lambda>p. mem_Chtimes now p atime mtime) name"

definition ov_Lchtimes :: "gotime \<Rightarrow> string \<Rightarrow> gotime \<Rightarrow> gotime \<Rightarrow> (('w, 'h) OverlayFS, unit) act" where
  "ov_Lchtimes now name atime mtime =
     ov_change now ''lchtimes'' False (\<lambda>p. mem_Lchtimes now p atime mtime) name"

primrec ov_mkdir_loop ::
  "gotime \<Rightarrow> FileMode \<Rightarrow> string list \<Rightarrow> string \<Rightarrow> (('w, 'h) OverlayFS, unit) act" where
  "ov_mkdir_loop now perm [] current fs = (Inr (), fs)"
| "ov_mkdir_loop now perm (part # parts) current fs =
     (let nxt = joinChildPath current part
      in (case visiblePrefixInfo nxt fs of
            (Inl e, fs1) \<Rightarrow>
              if errors_Is e ErrNotExist then
                andThen (mapError (toPathError ''mkdir'' nxt) (copyUpAncestors now nxt)) (\<lambda>_.
                  onUpper (mem_MkdirAll now (Resolve nxt (path_JoinAll parts)) perm)) fs1
              else (Inl (toPathError ''mkdir'' nxt e), fs1)
          | (Inr (info0, _), fs1) \<Rightarrow>
              andThen (if fi_mode info0 AND ModeSymlink \<noteq> 0
                       then mapError (toPathError ''mkdir'' nxt) (resolveMerged nxt True)
                       else gives (nxt, info0, overlaySourceNone)) (\<lambda>(nxt', info, _).
                if \<not> mode_IsDir (fi_mode info) then fails (PathError ''mkdir'' nxt (Errno ErrInvalid))
                else ov_mkdir_loop now perm parts nxt') fs1))"

definition ov_MkdirAll :: "gotime \<Rightarrow> string \<Rightarrow> FileMode \<Rightarrow> (('w, 'h) OverlayFS, unit) act" where
  "ov_MkdirAll now name perm fs =
     (let p = o_resolve name fs
      in if p = ''/'' then (Inr (), fs) else ov_mkdir_loop now perm (split_path p) ''/'' fs)"

definition remove_resolved ::
  "string \<Rightarrow> bool \<Rightarrow> string \<times> fileInfo \<times> overlaySource \<Rightarrow> (('w, 'h) OverlayFS, unit) act" where
  "remove_resolved requested recursive =
     (\<lambda>(p, info, source).
       if p = ''/'' then fails (PathError ''remove'' requested (Errno ErrPermission))
       else
         andThen (if mode_IsDir (fi_mode info) \<and> \<not> recursive
                  then andThen (ov_ReadDir p) (\<lambda>entries.
                         if entries \<noteq> [] then fails (PathError ''remove'' p (Errno ErrInvalid)) else done_ok)
                  else done_ok) (\<lambda>_.
           andThen (if source = overlaySourceUpper
                    then mapError (toPathError ''remove'' p) (onUpper (maybe (mem_Remove p recursive)))
                    else gives None) (\<lambda>_.
             andThen (mapError (toPathError ''remove'' p) (onLower (\<lambda>l. maybe (f_Lstat l p)))) (\<lambda>lower fs1.
               (Inr (), if lower \<noteq> None then addTombstone p fs1 else fs1)))))"

definition ov_Remove :: "string \<Rightarrow> bool \<Rightarrow> (('w, 'h) OverlayFS, unit) act" where
  "ov_Remove name recursive fs =
     (let requested = o_resolve name fs
      in if requested = ''/'' then (Inl (PathError ''remove'' requested (Errno ErrPermission)), fs)
         else
           andThen (mapError (\<lambda>_. PathError ''remove'' requested (Errno ErrNotExist)) (resolveMerged requested False))
             (remove_resolved requested recursive) fs)"

text \<open>\<open>moveMerged\<close> recurses into the merged directories below \<open>src\<close>, on fuel.\<close>

primrec moveMerged ::
  "nat \<Rightarrow> gotime \<Rightarrow> string \<Rightarrow> fileInfo \<Rightarrow> overlaySource \<Rightarrow> string \<Rightarrow> (('w, 'h) OverlayFS, unit) proc" where
  "moveMerged 0 now src info source dst fs = None"
| "moveMerged (Suc fuel) now src info source dst fs =
     (if \<not> mode_IsDir (fi_mode info) then
        if source = overlaySourceUpper then returns (onUpper (mem_Rename now src dst)) fs
        else returns (copyUpLowerEntry now src info dst) fs
      else
        thenProc (onUpper (cloneDirNode now dst info)) (\<lambda>_.
          thenProc (ov_ReadDir src) (\<lambda>entries.
            each (\<lambda>e.
              thenProc (visibleInfo (joinChildPath src (de_name e))) (\<lambda>(childInfo, childSource).
                moveMerged fuel now (joinChildPath src (de_name e)) childInfo childSource
                  (joinChildPath dst (de_name e)))) entries)) fs)"

definition ov_Rename :: "nat \<Rightarrow> gotime \<Rightarrow> string \<Rightarrow> string \<Rightarrow> (('w, 'h) OverlayFS, unit) proc" where
  "ov_Rename fuel now oldName newName fs =
     (let oldReq = o_resolve oldName fs; newReq = o_resolve newName fs
      in if oldReq = ''/'' \<or> newReq = ''/''
         then Some (Inl (PathError ''rename'' oldReq (Errno ErrPermission)), fs)
         else
           thenProc (mapError (\<lambda>_. PathError ''rename'' oldReq (Errno ErrNotExist)) (resolveMerged oldReq False))
             (\<lambda>(oldAbs, info, source).
               thenProc (mapError (\<lambda>e. toPathError ''rename'' newReq (createParentError e))
                   (resolveMergedPath newReq False overlayMissingFinal)) (\<lambda>(newAbs, newInfo, _).
                 if oldAbs = ''/'' \<or> newAbs = ''/''
                 then returns (fails (PathError ''rename'' oldReq (Errno ErrPermission)))
                 else if oldAbs = newAbs then returns done_ok
                 else if newInfo \<noteq> None then returns (fails (PathError ''rename'' newAbs (Errno ErrExist)))
                 else if mode_IsDir (fi_mode info) \<and> isDescendantPath newAbs oldAbs
                 then returns (fails (PathError ''rename'' newAbs (Errno ErrInvalid)))
                 else
                   thenProc (mapError (toPathError ''rename'' newAbs) (copyUpAncestors now newAbs)) (\<lambda>_ fs1.
                     case moveMerged fuel now oldAbs info source newAbs fs1 of
                       None \<Rightarrow> None
                     | Some (Inl e, fs2) \<Rightarrow> Some (Inl (toPathError ''rename'' oldAbs e), fs2)
                     | Some (Inr _, fs2) \<Rightarrow>
                         Some (case ov_Remove oldAbs True fs2 of
                                 (Inl e, fs3) \<Rightarrow> (if errors_Is e ErrNotExist then Inr () else Inl e, fs3)
                               | (Inr _, fs3) \<Rightarrow> (Inr (), fs3))))) fs)"

definition ov_Getwd :: "('w, 'h) OverlayFS \<Rightarrow> string" where
  "ov_Getwd fs = o_cwd fs"

definition ov_Chdir :: "string \<Rightarrow> (('w, 'h) OverlayFS, unit) act" where
  "ov_Chdir name fs =
     (let p = o_resolve name fs
      in andThen (mapError (\<lambda>_. PathError ''chdir'' p (Errno ErrNotExist)) (resolveMerged p True))
           (\<lambda>(_, info, _) fs1.
             if \<not> mode_IsDir (fi_mode info) then (Inl (PathError ''chdir'' p (Errno ErrInvalid)), fs1)
             else (Inr (), fs1\<lparr>o_cwd := p\<rparr>)) fs)"

end
