(* ===== verification/Overlay_Upper.thy ===== *)
theory Overlay_Upper
  imports Overlay MemoryFS_Seed
begin

text \<open>
  What the overlay needs of its upper layer beyond the tree invariant: its working
  directory stays the root, parents are created on demand, and every lazy file knows its
  size, so that asking for metadata never loads content. Each operation keeps this.
\<close>

section \<open>Calm operations\<close>

definition sized :: "MemoryFS \<Rightarrow> bool" where
  "sized m \<longleftrightarrow> (\<forall>r. n_lazy (fs_heap m r) \<noteq> None \<longrightarrow> n_lazySized (fs_heap m r))"

definition calm :: "MemoryFS \<Rightarrow> MemoryFS \<Rightarrow> bool" where
  "calm m m' \<longleftrightarrow> fs_cwd m' = fs_cwd m \<and> fs_implicitParents m' = fs_implicitParents m \<and> (sized m \<longrightarrow> sized m')"

named_theorems calm_intros "operations of the upper layer that keep its lazy files sized"

lemma calm_refl [calm_intros, simp]: "calm m m" by (simp add: calm_def)

lemma calm_trans: "calm m m1 \<Longrightarrow> calm m1 m2 \<Longrightarrow> calm m m2" by (simp add: calm_def)

lemma calm_update [calm_intros]:
  assumes "\<And>n. n_lazy (f n) = n_lazy n \<and> n_lazySized (f n) = n_lazySized n \<or> n_lazy (f n) = None"
  shows "calm m (update_node r f m)"
  using assms by (auto simp: calm_def sized_def split: if_splits) (metis option.distinct(1))+

lemma calm_child [calm_intros]: "calm m (add_child p c m)" "calm m (del_child p c m)"
  by (auto simp: add_child_def del_child_def intro!: calm_intros split: option.splits)

lemma calm_set_ref [calm_intros]: "calm m (set_ref p r m)"
  by (simp add: calm_def sized_def set_ref_def)

lemma calm_alloc:
  assumes "alloc_node n m = (r, m')" "n_lazy n = None \<or> n_lazySized n"
  shows "calm m m'"
  using assms by (auto simp: alloc_node_def newNodeIDLocked_def Let_def calm_def sized_def)

lemma calm_install:
  assumes "install p n m = (r, m')" "n_lazy n = None \<or> n_lazySized n"
  shows "calm m m'"
proof -
  obtain x m1 where a: "alloc_node n m = (x, m1)" by (metis prod.collapse)
  with assms(1) have "m' = add_child (parentDir p) (path_Base p) (set_ref p x m1)"
    by (auto simp: install_def)
  with calm_trans [OF calm_trans [OF calm_alloc [OF a assms(2)] calm_set_ref] calm_child(1)] show ?thesis by simp
qed

lemma calm_install_snd: "calm m m1 \<Longrightarrow> n_lazy n = None \<or> n_lazySized n \<Longrightarrow> calm m (snd (install p n m1))"
  by (metis calm_install calm_trans prod.collapse)

lemma blank_node_lazy [simp]: "n_lazy (blank_node md now) = None" by (simp add: blank_node_def)

section \<open>The operations\<close>

lemma calm_mkdir_loop: "mkdirAll_loop now perm cur rem m = (res, m') \<Longrightarrow> calm m m'"
proof (induction now perm cur rem m rule: mkdirAll_loop.induct)
  case (1 now perm cur rem m)
  show ?case
  proof (cases "rem = ''''")
    case True
    with "1.prems" show ?thesis by (simp add: mkdirAll_loop.simps)
  next
    case False
    obtain part rest where p: "next_part rem = (part, rest)" by (metis prod.collapse)
    let ?nxt = "joinClean cur part"
    define perm' where "perm' = (if perm AND storedPermBits = 0 then 0x1ED else perm AND storedPermBits)"
    obtain x m1 where al: "alloc_node (blank_node (ModeDir OR perm') now) m = (x, m1)" by (metis prod.collapse)
    have step: "calm m (add_child cur part (set_ref ?nxt x m1))"
      by (rule calm_trans [OF calm_alloc [OF al]], simp,
          rule calm_trans [OF calm_set_ref calm_child(1)])
    note IH = "1.IH" [OF False p [symmetric] refl refl]
    show ?thesis
    proof (cases "ref_at m ?nxt")
      case None
      with "1.prems" False p al
      have "mkdirAll_loop now perm' ?nxt rest (add_child cur part (set_ref ?nxt x m1)) = (res, m')"
        by (simp add: mkdirAll_loop.simps [of now perm cur rem m] Let_def perm'_def [symmetric])
      with IH(1) [OF None perm'_def al [symmetric] refl] step show ?thesis by (blast intro: calm_trans)
    next
      case (Some r)
      with "1.prems" False p IH(2,3) show ?thesis
        by (auto simp: mkdirAll_loop.simps [of now perm cur rem m] Let_def
            split: if_splits sum.splits prod.splits option.splits)
    qed
  qed
qed

lemma calm_mkdirAllLocked: "mkdirAllLocked now name perm m = (res, m') \<Longrightarrow> calm m m'"
  by (auto simp: mkdirAllLocked_def Let_def dest: calm_mkdir_loop split: if_splits)

lemma calm_ensureParent: "ensureParentLocked now op p m = (res, m') \<Longrightarrow> calm m m'"
  by (auto simp: ensureParentLocked_def dest: calm_mkdirAllLocked split: if_splits option.splits)

lemma calm_MkdirAll: "mem_MkdirAll now name perm m = (res, m') \<Longrightarrow> calm m m'"
  by (simp add: mem_MkdirAll_def calm_mkdirAllLocked)

lemma calm_on_node:
  assumes "on_node op follow f name m = (res, m')" "\<And>n. n_lazy (f n) = n_lazy n \<and> n_lazySized (f n) = n_lazySized n"
  shows "calm m m'"
  using assms by (auto simp: on_node_def intro!: calm_update split: sum.splits prod.splits option.splits)

lemma calm_metadata:
  "mem_Chmod now name mode m = (res, m') \<Longrightarrow> calm m m'"
  "mem_Chown name uid gid follow m = (res, m') \<Longrightarrow> calm m m'"
  "mem_Chtimes now name ta tm m = (res, m') \<Longrightarrow> calm m m'"
  "mem_Lchtimes now name ta tm m = (res, m') \<Longrightarrow> calm m m'"
  by (auto simp: mem_Chmod_def mem_Chown_def mem_Chtimes_def mem_Lchtimes_def elim!: calm_on_node)

lemma calm_Symlink: "mem_Symlink now t name m = (res, m') \<Longrightarrow> calm m m'"
  by (auto simp: mem_Symlink_def Let_def dest: calm_ensureParent intro: calm_install_snd
      split: sum.splits if_splits prod.splits option.splits)

lemma calm_Link:
  assumes "mem_Link now oldName newName m = (res, m')"
  shows "calm m m'"
proof -
  have tail: "calm m m'" if "(case ensureParentLocked now ''link'' p m of
      (Inl e, m1) \<Rightarrow> (Inl e, m1)
    | (Inr _, m1) \<Rightarrow> (Inr (), update_node r (\<lambda>n. n\<lparr>n_modTime := now\<rparr>)
         (add_child (parentDir p) (path_Base p) (set_ref p r m1)))) = (res, m')" for p r
  proof -
    obtain x m1 where ep: "ensureParentLocked now ''link'' p m = (x, m1)" by (metis prod.collapse)
    have "calm m1 (update_node r (\<lambda>n. n\<lparr>n_modTime := now\<rparr>) (add_child (parentDir p) (path_Base p) (set_ref p r m1)))"
      by (rule calm_trans [OF calm_trans [OF calm_set_ref calm_child(1)]], rule calm_update, simp)
    with that ep calm_ensureParent [OF ep] show ?thesis by (cases x) (auto intro: calm_trans)
  qed
  with assms show ?thesis
    by (auto simp: mem_Link_def Let_def split: sum.splits if_splits prod.splits option.splits)
qed

lemma calm_materializeNode: "materializeNode r m = (res, m') \<Longrightarrow> calm m m'"
  by (auto simp: materializeNode_def Let_def intro!: calm_update split: if_splits option.splits sum.splits)

lemma calm_materializePath: "materializePath name ff mo m = (res, m') \<Longrightarrow> calm m m'"
  by (auto simp: materializePath_def dest: calm_materializeNode split: sum.splits prod.splits option.splits if_splits)

lemma calm_open_make:
  assumes "open_make now flag perm p ref m = (res, m')" shows "calm m m'"
proof (cases ref)
  case None
  obtain x m1 where ep: "ensureParentLocked now ''open'' p m = (x, m1)" by (metis prod.collapse)
  obtain r m2 where i: "install p (blank_node (if perm AND storedPermBits = 0 then 0x1A4 else perm AND storedPermBits) now) m1 = (r, m2)"
    by (metis prod.collapse)
  from calm_ensureParent [OF ep] calm_install [OF i] have "calm m m1" "calm m m2" by (auto intro: calm_trans)
  with assms None ep i show ?thesis by (auto simp: open_make_def Let_def split: if_splits sum.splits)
qed (use assms in \<open>auto simp: open_make_def split: if_splits\<close>)

lemma calm_open_finish: "open_finish now flag p r m = (res, m') \<Longrightarrow> calm m m'"
  by (auto simp: open_finish_def Let_def intro!: calm_update split: if_splits prod.splits)

lemma calm_OpenFile:
  assumes "mem_OpenFile now name flag perm m = (res, m')" shows "calm m m'"
proof -
  obtain x m1 where p: "open_preload name flag m = (x, m1)" by (metis prod.collapse)
  have 1: "calm m m1"
    using p by (auto simp: open_preload_def dest: calm_materializePath split: if_splits prod.splits sum.splits)
  have 2: "calm m1 m'" if "open_locate name flag m1 = Inr (q, ref)" "x = Inr u" for q ref u
  proof -
    obtain y m2 where mk: "open_make now flag perm q ref m1 = (y, m2)" by (metis prod.collapse)
    with assms p that have "m' = m2 \<or> (\<exists>r. open_finish now flag q r m2 = (res, m'))"
      by (cases y) (auto simp: mem_OpenFile_def)
    with calm_open_make [OF mk] show ?thesis by (auto intro: calm_trans calm_open_finish)
  qed
  from assms p have "m' = m1 \<or> (\<exists>q ref u. open_locate name flag m1 = Inr (q, ref) \<and> x = Inr u)"
    by (auto simp: mem_OpenFile_def split: sum.splits prod.splits)
  with 1 2 show ?thesis by (auto intro: calm_trans)
qed

lemma calm_Mkfifo:
  assumes "mem_Mkfifo now name perm m = (res, m')" shows "calm m m'"
proof -
  have step: "calm m (update_node pr (\<lambda>n. n\<lparr>n_children := insert c (n_children n)\<rparr>) (set_ref p r m1))"
    if "alloc_node ((blank_node md now)\<lparr>n_fifo := q\<rparr>) m = (r, m1)" for pr c p r m1 md q
    by (rule calm_trans [OF calm_trans [OF calm_alloc [OF that] calm_set_ref]], simp, rule calm_update, simp)
  from assms show ?thesis
    by (auto simp: mem_Mkfifo_def Let_def split: sum.splits prod.splits option.splits if_splits intro: step)
qed

lemma calm_nodes: "calm m (m\<lparr>fs_nodes := xs\<rparr>)" by (simp add: calm_def sized_def)

lemma calm_Remove: "mem_Remove name recursive m = (res, m') \<Longrightarrow> calm m m'"
  by (auto simp: mem_Remove_def intro: calm_trans [OF calm_nodes calm_child(2)]
      split: sum.splits prod.splits option.splits if_splits)

lemma calm_rebuild: "calm m (rebuildDirectoryChildrenLocked m)"
  by (simp add: calm_def sized_def rebuild_eq)

lemma calm_fold_set_ref: "calm m (fold (\<lambda>(p, r) s. set_ref (f p) r s) xs m)"
  by (induction xs arbitrary: m) (auto intro: calm_trans [OF calm_set_ref])

lemma calm_move_subtree: "calm m (move_subtree old new m)"
  unfolding move_subtree_def drop_subtree_def
  by (rule calm_trans [OF calm_trans [OF calm_trans [OF calm_child(2) calm_nodes] calm_fold_set_ref] calm_child(1)])

lemma mem_Rename_moves:
  assumes "mem_Rename now oldName newName m = (res, m')"
  shows "m' = m \<or> (\<exists>x p m1. ensureParentLocked now ''rename'' p m = (x, m1) \<and>
     (m' = m1 \<or> (\<exists>q. m' = rebuildDirectoryChildrenLocked (move_subtree q p m1))))"
  using assms unfolding mem_Rename_def move_subtree_def drop_subtree_def
  by (auto simp: Let_def split: sum.splits prod.splits option.splits if_splits)

lemma calm_Rename:
  assumes "mem_Rename now oldName newName m = (res, m')" shows "calm m m'"
proof -
  consider "m' = m" | x p m1 where "ensureParentLocked now ''rename'' p m = (x, m1)"
      "m' = m1 \<or> (\<exists>q. m' = rebuildDirectoryChildrenLocked (move_subtree q p m1))"
    using mem_Rename_moves [OF assms] by blast
  then show ?thesis
  proof cases
    case 2
    from calm_ensureParent [OF 2(1)] 2(2) show ?thesis
      by (auto intro: calm_trans [OF _ calm_trans [OF calm_move_subtree calm_rebuild]])
  qed simp
qed

lemmas calm_ops = calm_MkdirAll calm_metadata calm_Symlink calm_Link calm_OpenFile calm_Mkfifo calm_Remove calm_Rename

section \<open>The state of an upper layer\<close>

definition upper_ok :: "MemoryFS \<Rightarrow> bool" where
  "upper_ok u \<longleftrightarrow> fs_wf u \<and> fs_cwd u = ''/'' \<and> fs_implicitParents u \<and> sized u"

lemma upper_okD:
  assumes "upper_ok u" shows "fs_wf u" "fs_cwd u = ''/''" "fs_implicitParents u" "sized u"
  using assms by (auto simp: upper_ok_def)

lemma upper_ok_calm: "upper_ok u \<Longrightarrow> calm u u' \<Longrightarrow> fs_wf u' \<Longrightarrow> upper_ok u'"
  by (simp add: upper_ok_def calm_def)

definition keeps_upper :: "(MemoryFS, 'a) act \<Rightarrow> bool" where
  "keeps_upper c \<longleftrightarrow> (\<forall>u r u'. upper_ok u \<longrightarrow> c u = (r, u') \<longrightarrow> upper_ok u')"

named_theorems upper_intros "operations that keep an upper layer well formed"

lemma keeps_upperI:
  assumes "\<And>u r u'. upper_ok u \<Longrightarrow> c u = (r, u') \<Longrightarrow> calm u u' \<and> fs_wf u'"
  shows "keeps_upper c"
  using assms by (auto simp: keeps_upper_def intro: upper_ok_calm)

lemma keeps_upperD: "keeps_upper c \<Longrightarrow> upper_ok u \<Longrightarrow> c u = (r, u') \<Longrightarrow> upper_ok u'"
  by (auto simp: keeps_upper_def)

lemma keeps_mem_ops [upper_intros]:
  "keeps_upper (mem_MkdirAll now name perm)" "keeps_upper (mem_Chmod now name mode)"
  "keeps_upper (mem_Chown name uid gid follow)" "keeps_upper (mem_Chtimes now name ta tm)"
  "keeps_upper (mem_Lchtimes now name ta tm)" "keeps_upper (mem_Symlink now t name)"
  "keeps_upper (mem_Link now old new)" "keeps_upper (mem_OpenFile now name flag mode)"
  "keeps_upper (mem_Mkfifo now name perm)" "keeps_upper (mem_Remove name recursive)"
  "keeps_upper (mem_Rename now old new)"
  subgoal by (rule keeps_upperI) (metis calm_MkdirAll mem_MkdirAll_wf upper_okD(1))
  subgoal by (rule keeps_upperI) (metis calm_metadata(1) mem_Chmod_wf upper_okD(1))
  subgoal by (rule keeps_upperI) (metis calm_metadata(2) mem_Chown_wf upper_okD(1))
  subgoal by (rule keeps_upperI) (metis calm_metadata(3) mem_Chtimes_wf upper_okD(1))
  subgoal by (rule keeps_upperI) (metis calm_metadata(4) mem_Lchtimes_wf upper_okD(1))
  subgoal by (rule keeps_upperI) (metis calm_Symlink mem_Symlink_wf upper_okD(1))
  subgoal by (rule keeps_upperI) (metis calm_Link mem_Link_wf upper_okD(1))
  subgoal by (rule keeps_upperI) (metis calm_OpenFile mem_OpenFile_wf upper_okD(1))
  subgoal by (rule keeps_upperI) (metis calm_Mkfifo mem_Mkfifo_wf upper_okD(1))
  subgoal by (rule keeps_upperI) (metis calm_Remove mem_Remove_wf upper_okD(1))
  subgoal by (rule keeps_upperI) (metis calm_Rename mem_Rename_wf upper_okD(1))
  done

lemma keeps_upper_andThen [upper_intros]:
  assumes c: "keeps_upper c" and k: "\<And>x. keeps_upper (k x)"
  shows "keeps_upper (andThen c k)"
  unfolding keeps_upper_def
proof (intro allI impI)
  fix u r u'
  assume ok: "upper_ok u" and eq: "andThen c k u = (r, u')"
  obtain x u1 where x: "c u = (x, u1)" by (metis prod.collapse)
  with c ok have "upper_ok u1" by (rule keeps_upperD)
  with eq x k show "upper_ok u'" by (cases x) (auto simp: andThen_def dest: keeps_upperD)
qed

lemma keeps_done [upper_intros]: "keeps_upper done_ok" "keeps_upper (fails e)" "keeps_upper (gives x)"
  by (auto simp: keeps_upper_def done_ok_def fails_def gives_def)

lemma keeps_whenOwned [upper_intros]: "(\<And>ow. keeps_upper (c ow)) \<Longrightarrow> keeps_upper (whenOwned info c)"
  by (auto simp: whenOwned_def intro: upper_intros split: option.splits)

lemma keeps_maybe [upper_intros]: "keeps_upper c \<Longrightarrow> keeps_upper (maybe c)"
  unfolding keeps_upper_def maybe_def by (force split: prod.splits sum.splits if_splits)

lemma keeps_pure [upper_intros]: "keeps_upper (\<lambda>u. (f u, u))"
  by (auto simp: keeps_upper_def)

lemma sized_Lstat: "sized m \<Longrightarrow> mem_Lstat p m = (fst (mem_Lstat p m), m)"
  by (auto simp: mem_Lstat_def mem_stat_op_def materializePath_def sized_def isLazyFileNode_def
      split: sum.splits prod.splits option.splits if_splits)

lemma keeps_Lstat [upper_intros]: "keeps_upper (mem_Lstat p)"
  unfolding keeps_upper_def by (metis prod.inject sized_Lstat upper_okD(4))

lemma keeps_cloneDirNode [upper_intros]: "keeps_upper (cloneDirNode now p info)"
proof -
  have "keeps_upper (\<lambda>d. andThen (mem_MkdirAll now p (mode_Perm (fi_mode info)))
          (\<lambda>_. andThen (mem_Chmod now p (fi_mode info))
            (\<lambda>_. andThen (whenOwned info (\<lambda>ow. mem_Chown p (UID ow) (GID ow) False))
              (\<lambda>_. if \<not> IsZero (fi_modTime info)
                   then mem_Lchtimes now p (fi_modTime info) (fi_modTime info)
                   else done_ok))) d)" by (auto intro!: upper_intros)
  then show ?thesis by (auto simp: cloneDirNode_def keeps_upper_def)
qed

end
