(* ===== verification/Overlay_View.thy ===== *)
theory Overlay_View
  imports Overlay_Upper
begin

text \<open>
  The merged view of the overlay as a pure function of its two layers and the tombstones.
  The contract of the lower layer is the locale \<open>lower_layer\<close>; inside it the stateful
  lookups of theory \<open>Overlay\<close> are shown to compute the pure ones and to change nothing
  but the cache of lower directories, so the cache never shows.
\<close>

section \<open>Pure lookups\<close>

definition vis :: "('w, 'h) OverlayFS \<Rightarrow> string \<Rightarrow> go_error + fileInfo \<times> overlaySource" where
  "vis fs p =
     (case fst (mem_Lstat p (o_upper fs)) of
        Inr info \<Rightarrow> Inr (info, overlaySourceUpper)
      | Inl e \<Rightarrow>
          if \<not> errors_Is e ErrNotExist then Inl e
          else if isHidden p fs then Inl (Errno ErrNotExist)
          else (case fst (f_Lstat (o_lower fs) p (o_world fs)) of
                  Inl e \<Rightarrow> Inl e
                | Inr info \<Rightarrow> Inr (info, overlaySourceLower)))"

definition link_text :: "('w, 'h) OverlayFS \<Rightarrow> overlaySource \<Rightarrow> string \<Rightarrow> go_error + string" where
  "link_text fs source p =
     (case source of
        overlaySourceUpper \<Rightarrow> mem_Readlink p (o_upper fs)
      | overlaySourceLower \<Rightarrow> fst (f_Readlink (o_lower fs) p (o_world fs))
      | overlaySourceNone \<Rightarrow> Inl (Errno ErrNotExist))"

primrec mwalk ::
  "('w, 'h) OverlayFS \<Rightarrow> bool \<Rightarrow> overlayMissing \<Rightarrow> string list \<Rightarrow> string \<Rightarrow> go_error + merged_walk" where
  "mwalk fs ff mi [] current = Inl (Errno ErrNotExist)"
| "mwalk fs ff mi (part # rest) current =
     (let nxt = joinChildPath current part
      in (case vis fs nxt of
            Inl err \<Rightarrow>
              if \<not> errors_Is err ErrNotExist then Inl err
              else if rest = [] \<and> mi = overlayMissingFinal then Inr (Found (nxt, None, overlaySourceNone))
              else Inl (Errno ErrNotExist)
          | Inr (info, source) \<Rightarrow>
              if fi_mode info AND ModeSymlink \<noteq> 0 \<and> (rest \<noteq> [] \<or> ff) then
                (case link_text fs source nxt of
                   Inl err \<Rightarrow> Inl (unwrapPathError err)
                 | Inr target \<Rightarrow>
                     Inr (Follow (if rest = [] then Resolve current target
                                  else Resolve (Resolve current target) (path_JoinAll rest))))
              else if rest = [] then Inr (Found (nxt, Some info, source))
              else if \<not> mode_IsDir (fi_mode info) then Inl (Errno ErrInvalid)
              else mwalk fs ff mi rest nxt))"

function mresolve ::
  "('w, 'h) OverlayFS \<Rightarrow> string \<Rightarrow> bool \<Rightarrow> overlayMissing \<Rightarrow> nat \<Rightarrow> go_error + merged" where
  "mresolve fs p0 ff mi depth =
     (let p = Clean p0
      in if maxSymlinkDepth < depth then Inl (Errno ErrTooManySymlinks)
         else if p = ''/'' then
           (case vis fs p of Inl e \<Rightarrow> Inl e | Inr (info, source) \<Rightarrow> Inr (p, Some info, source))
         else (case mwalk fs ff mi (split_path p) ''/'' of
                 Inl e \<Rightarrow> Inl e
               | Inr (Found res) \<Rightarrow> Inr res
               | Inr (Follow target) \<Rightarrow> mresolve fs target ff mi (Suc depth)))"
  by pat_completeness auto
termination
  by (relation "measure (\<lambda>(fs, p, f, a, depth). Suc maxSymlinkDepth - depth)")
    (auto simp: maxSymlinkDepth_def)

declare mresolve.simps [simp del]

text \<open>The pure lookups do not read the cache or the working directory.\<close>

abbreviation recache :: "('w, 'h) OverlayFS \<Rightarrow> (string \<rightharpoonup> fileInfo) \<Rightarrow> ('w, 'h) OverlayFS" where
  "recache fs c \<equiv> fs\<lparr>o_lowerDirs := c\<rparr>"

lemma isHidden_recache [simp]: "isHidden p (recache fs c) = isHidden p fs"
  by (simp add: isHidden_def)

lemma vis_recache [simp]: "vis (recache fs c) p = vis fs p"
  by (simp add: vis_def split: sum.split)

lemma link_text_recache [simp]: "link_text (recache fs c) s p = link_text fs s p"
  by (simp add: link_text_def split: overlaySource.split)

lemma mwalk_recache [simp]: "mwalk (recache fs c) ff mi parts cur = mwalk fs ff mi parts cur"
  by (induction parts arbitrary: cur) (simp_all add: Let_def split: sum.split prod.split)

lemma mresolve_recache [simp]: "mresolve (recache fs c) p ff mi d = mresolve fs p ff mi d"
proof (induction fs p ff mi d rule: mresolve.induct)
  case (1 fs p ff mi d)
  then show ?case
    by (simp add: mresolve.simps [of "recache fs c"] mresolve.simps [of fs] Let_def
        split: sum.splits merged_walk.splits)
qed

section \<open>Tombstones\<close>

lemma hidden_loop_iff:
  assumes "valid_comps cs"
  shows "hidden_loop T (render cs) \<longleftrightarrow> (\<exists>es. prefix es cs \<and> render es \<in> T)"
  using assms
proof (induction cs rule: rev_induct)
  case Nil
  then show ?case by (simp add: hidden_loop.simps [of T "''/''"])
next
  case (snoc c cs)
  then have "hidden_loop T (render (cs @ [c])) \<longleftrightarrow> render (cs @ [c]) \<in> T \<or> hidden_loop T (render cs)"
    by (simp add: hidden_loop.simps [of T "render (cs @ [c])"])
  with snoc show ?case by (auto simp: prefix_snoc)
qed

lemma isHidden_iff:
  "valid_comps cs \<Longrightarrow> isHidden (render cs) fs \<longleftrightarrow> (\<exists>es. prefix es cs \<and> render es \<in> o_tombstones fs)"
  by (simp add: isHidden_def hidden_loop_iff)

section \<open>The contract of the lower layer\<close>

text \<open>
  Lookups in the lower layer do not change it, and opening a file there for reading
  changes nothing that a lookup sees; a directory is no link, and the names in a listing
  are single components.
\<close>

locale lower_layer =
  fixes L :: "('w, 'h) FileSystem" and ok :: "'w \<Rightarrow> bool"
  assumes lstat_keeps: "ok w \<Longrightarrow> snd (f_Lstat L p w) = w"
    and readlink_keeps: "ok w \<Longrightarrow> snd (f_Readlink L p w) = w"
    and readdir_keeps: "ok w \<Longrightarrow> snd (f_ReadDir L p w) = w"
    and open_keeps: "ok w \<Longrightarrow> \<not> hasWriteIntent flag \<Longrightarrow> f_OpenFile L p flag perm w = (r, w') \<Longrightarrow>
      ok w' \<and> (\<forall>q. fst (f_Lstat L q w') = fst (f_Lstat L q w)) \<and>
      (\<forall>q. fst (f_Readlink L q w') = fst (f_Readlink L q w)) \<and>
      (\<forall>q. fst (f_ReadDir L q w') = fst (f_ReadDir L q w))"
    and lstat_kind: "ok w \<Longrightarrow> fst (f_Lstat L p w) = Inr i \<Longrightarrow> mode_IsDir (fi_mode i) \<Longrightarrow> fi_mode i AND ModeSymlink = 0"
    and readdir_names: "ok w \<Longrightarrow> fst (f_ReadDir L p w) = Inr es \<Longrightarrow> e \<in> set es \<Longrightarrow> valid_comp (de_name e)"
begin

definition cache_ok :: "('w, 'h) OverlayFS \<Rightarrow> bool" where
  "cache_ok fs \<longleftrightarrow> (\<forall>p i. o_lowerDirs fs p = Some i \<longrightarrow>
     fst (f_Lstat L p (o_world fs)) = Inr i \<and> mode_IsDir (fi_mode i))"

definition inv :: "('w, 'h) OverlayFS \<Rightarrow> bool" where
  "inv fs \<longleftrightarrow> o_lower fs = L \<and> ok (o_world fs) \<and> upper_ok (o_upper fs) \<and> clean_path (o_cwd fs) \<and>
     (\<forall>p \<in> o_tombstones fs. clean_path p) \<and> cache_ok fs"

lemma invD:
  assumes "inv fs"
  shows "o_lower fs = L" "ok (o_world fs)" "upper_ok (o_upper fs)" "clean_path (o_cwd fs)" "cache_ok fs"
    "p \<in> o_tombstones fs \<Longrightarrow> clean_path p"
  using assms by (auto simp: inv_def)

lemma onLower_pure:
  assumes "inv fs" "snd (c L (o_world fs)) = o_world fs"
  shows "onLower c fs = (fst (c L (o_world fs)), fs)"
  using assms by (cases "c L (o_world fs)") (simp add: onLower_def inv_def)

lemma onUpper_Lstat: "inv fs \<Longrightarrow> onUpper (mem_Lstat p) fs = (fst (mem_Lstat p (o_upper fs)), fs)"
  by (subst onUpper_def, subst sized_Lstat [OF upper_okD(4) [OF invD(3)]]) simp_all

lemma onLower_Lstat: "inv fs \<Longrightarrow> onLower (\<lambda>l. f_Lstat l p) fs = (fst (f_Lstat L p (o_world fs)), fs)"
  by (simp add: onLower_pure lstat_keeps invD)

lemma visibleInfo_pure: "inv fs \<Longrightarrow> visibleInfo p fs = (vis fs p, fs)"
  by (simp add: vis_def visibleInfo_def onUpper_Lstat onLower_Lstat invD split: sum.splits)

lemma visiblePrefixInfo_pure:
  assumes i: "inv fs"
  obtains c where "visiblePrefixInfo p fs = (vis fs p, recache fs c)" "inv (recache fs c)"
proof -
  have same: "recache fs (o_lowerDirs fs) = fs" by simp
  show thesis
  proof (cases "fst (mem_Lstat p (o_upper fs))")
    case (Inr info)
    with i that [of "o_lowerDirs fs"] show thesis
      by (simp add: visiblePrefixInfo_def vis_def onUpper_Lstat)
  next
    case (Inl e)
    show thesis
    proof (cases "errors_Is e ErrNotExist \<and> \<not> isHidden p fs")
      case False
      with i Inl that [of "o_lowerDirs fs"] show thesis
        by (auto simp: visiblePrefixInfo_def vis_def onUpper_Lstat)
    next
      case True
      note base = visiblePrefixInfo_def vis_def invD(1) [OF i] onUpper_Lstat [OF i] onLower_Lstat [OF i] Inl
      show thesis
      proof (cases "o_lowerDirs fs p")
        case (Some info)
        with invD(5) [OF i] have "fst (f_Lstat L p (o_world fs)) = Inr info" by (simp add: cache_ok_def)
        with True Some i that [of "o_lowerDirs fs"] show thesis by (simp add: base)
      next
        case None
        show thesis
        proof (cases "fst (f_Lstat L p (o_world fs))")
          case (Inl e')
          with True None i that [of "o_lowerDirs fs"] show thesis by (simp add: base)
        next
          case lo: (Inr info)
          let ?c = "if mode_IsDir (fi_mode info) then (o_lowerDirs fs)(p \<mapsto> info) else o_lowerDirs fs"
          have "inv (recache fs ?c)" using i lo by (auto simp: inv_def cache_ok_def)
          with True None lo that [of ?c] show thesis by (simp add: base)
        qed
      qed
    qed
  qed
qed

lemma visibleComponentInfo_pure:
  assumes "inv fs"
  obtains c where "visibleComponentInfo p isLast fs = (vis fs p, recache fs c)" "inv (recache fs c)"
proof (cases isLast)
  case True
  with assms that [of "o_lowerDirs fs"] show thesis
    by (simp add: visibleComponentInfo_def visibleInfo_pure)
next
  case False
  from visiblePrefixInfo_pure [OF assms, of p] that False show thesis
    by (metis visibleComponentInfo_def)
qed

lemma readlinkAt_pure: "inv fs \<Longrightarrow> readlinkAt source p fs = (link_text fs source p, fs)"
  by (cases source) (simp_all add: link_text_def readlinkAt_def onUpper_def fails_def onLower_pure readlink_keeps invD)

lemma merged_loop_pure:
  assumes "inv fs"
  shows "\<exists>c. merged_loop ff mi parts cur fs = (mwalk fs ff mi parts cur, recache fs c) \<and> inv (recache fs c)"
  using assms
proof (induction parts arbitrary: cur fs)
  case Nil
  then show ?case by (auto intro: exI [of _ "o_lowerDirs fs"])
next
  case (Cons part rest)
  let ?nxt = "joinChildPath cur part"
  obtain c where v: "visibleComponentInfo ?nxt (rest = []) fs = (vis fs ?nxt, recache fs c)" "inv (recache fs c)"
    using visibleComponentInfo_pure [OF Cons.prems] by metis
  from Cons.IH [OF v(2), of ?nxt] obtain c' where
    w: "merged_loop ff mi rest ?nxt (recache fs c) = (mwalk fs ff mi rest ?nxt, recache fs c')" "inv (recache fs c')"
    by auto
  show ?case
  proof (cases "vis fs ?nxt")
    case (Inl e)
    with v show ?thesis by (auto simp: Let_def)
  next
    case (Inr iv)
    obtain info source where "iv = (info, source)" by (metis prod.collapse)
    with Inr v w show ?thesis
      by (cases "link_text fs source ?nxt") (auto simp: Let_def readlinkAt_pure)
  qed
qed

lemma resolve_pure:
  assumes "inv fs"
  shows "\<exists>c. resolveMergedDepth p ff mi d fs = (mresolve fs p ff mi d, recache fs c) \<and> inv (recache fs c)"
  using assms
proof (induction p ff mi d fs rule: resolveMergedDepth.induct)
  case (1 p ff mi d fs)
  note unf = resolveMergedDepth.simps [of p ff mi d fs] mresolve.simps [of fs p ff mi d]
  consider (deep) "maxSymlinkDepth < d" | (root) "\<not> maxSymlinkDepth < d" "Clean p = ''/''"
    | (walk) "\<not> maxSymlinkDepth < d" "Clean p \<noteq> ''/''" by blast
  then show ?case
  proof cases
    case deep
    with "1.prems" show ?thesis by (auto simp: unf intro: exI [of _ "o_lowerDirs fs"])
  next
    case root
    with "1.prems" show ?thesis
      by (auto simp: unf Let_def visibleInfo_pure intro!: exI [of _ "o_lowerDirs fs"] split: sum.splits prod.splits)
  next
    case walk
    obtain c where m: "merged_loop ff mi (split_path (Clean p)) ''/'' fs =
        (mwalk fs ff mi (split_path (Clean p)) ''/'', recache fs c)" "inv (recache fs c)"
      using merged_loop_pure [OF "1.prems"] by blast
    show ?thesis
    proof (cases "mwalk fs ff mi (split_path (Clean p)) ''/''")
      case (Inl e)
      with walk m show ?thesis by (auto simp: unf Let_def)
    next
      case (Inr w)
      show ?thesis
      proof (cases w)
        case (Found res)
        with Inr walk m show ?thesis by (auto simp: unf Let_def)
      next
        case (Follow t)
        from "1.IH" [OF refl walk m(1) [symmetric] Inr Follow m(2)] Inr Follow walk m(1) show ?thesis
          by (auto simp: unf Let_def)
      qed
    qed
  qed
qed

end

end
