(* ===== verification/Overlay_Paths.thy ===== *)
theory Overlay_Paths
  imports Overlay_View
begin

text \<open>
  Paths of the merged view. A path is physical in the view when each of its proper
  prefixes is visible as a directory and not a link; resolution returns such paths, and a
  physical path resolves to itself.
\<close>

section \<open>Lookups in the upper layer\<close>

lemma Resolve_render_abs [simp]: "valid_comps cs \<Longrightarrow> Resolve d (render cs) = render cs"
  by (subst Resolve_abs) (simp_all add: HasPrefix_def, simp add: render_def)

lemma upper_Lstat_at:
  assumes "upper_ok u" "valid_comps cs" "at u cs = Some r"
  shows "fst (mem_Lstat (render cs) u) = Inr (newFileInfo (path_Base (render cs)) (fs_heap u r))"
proof -
  note wf = upper_okD(1) [OF assms(1)]
  have "resolvePathLocked u (render cs) False False = Inr (render cs, Some r)"
    using resolvePathLocked_ident [OF wf assms(2) wf_phys [OF wf assms(2,3)], of False False] assms(3) by simp
  with upper_okD(4) [OF assms(1)] assms(3) show ?thesis
    by (auto simp: mem_Lstat_def mem_stat_op_def materializePath_def sized_def isLazyFileNode_def node_at_def at_def)
qed

lemma resolveAbs_loop_missing:
  assumes "fs_wf m" "valid_comps (ds @ cs)" "cs \<noteq> []" "at m (ds @ cs) = None"
    "\<And>es. strict_prefix es (ds @ cs) \<Longrightarrow> at m es = None \<or> is_dir m es"
  shows "resolveAbs_loop m ff False (render ds) (join_with slash cs) = Return (Inl (Errno ErrNotExist))"
  using assms
proof (induction cs arbitrary: ds)
  case (Cons c cs)
  show ?case
  proof (cases "at m (ds @ [c])")
    case None
    then show ?thesis by (simp add: resolveAbs_loop_Cons [OF Cons.prems(2)])
  next
    case (Some r)
    with Cons.prems(4) have ne: "cs \<noteq> []" by auto
    then have "strict_prefix (ds @ [c]) (ds @ c # cs)" by (auto simp: strict_prefix_def)
    with Cons.prems(5) [of "ds @ [c]"] Some have d: "node_dir m r" by (auto simp: is_dir_def)
    have v: "valid_comps (ds @ [c])" using Cons.prems(2) by simp
    from wf_dir_not_link [OF Cons.prems(1) v Some d] Cons.IH [of "ds @ [c]"] Cons.prems ne d Some show ?thesis
      by (simp add: resolveAbs_loop_Cons [OF Cons.prems(2)])
  qed
qed simp

lemma upper_Lstat_missing:
  assumes u: "upper_ok u" and v: "valid_comps cs" and n: "at u cs = None"
    and d: "\<And>es. strict_prefix es cs \<Longrightarrow> at u es = None \<or> is_dir u es"
  shows "\<exists>e. fst (mem_Lstat (render cs) u) = Inl e \<and> errors_Is e ErrNotExist"
proof -
  note wf = upper_okD(1) [OF u]
  have ne: "cs \<noteq> []" using n wf_root [OF wf] by (auto simp: is_dir_def)
  have "resolveAbs_loop u False False ''/'' (join_with slash cs) = Return (Inl (Errno ErrNotExist))"
    using resolveAbs_loop_missing [OF wf, of "[]" cs False] v n ne d by simp
  then have "resolvePathLocked u (render cs) False False = Inl (Errno ErrNotExist)"
    using v ne by (simp add: resolvePathLocked_def Resolve_render_abs resolveAbsLocked.simps maxSymlinkDepth_def tl_render)
  then show ?thesis by (simp add: mem_Lstat_def mem_stat_op_def materializePath_def)
qed

section \<open>Physical paths of the merged view\<close>

definition dir_info :: "fileInfo \<Rightarrow> bool" where
  "dir_info i \<longleftrightarrow> mode_IsDir (fi_mode i) \<and> fi_mode i AND ModeSymlink = 0"

definition vis_dir :: "('w, 'h) OverlayFS \<Rightarrow> string list \<Rightarrow> bool" where
  "vis_dir fs cs \<longleftrightarrow> (\<exists>i s. vis fs (render cs) = Inr (i, s) \<and> dir_info i)"

definition mphys :: "('w, 'h) OverlayFS \<Rightarrow> string list \<Rightarrow> bool" where
  "mphys fs cs \<longleftrightarrow> (\<forall>es. strict_prefix es cs \<longrightarrow> vis_dir fs es)"

lemma mphys_Nil [simp]: "mphys fs []" by (simp add: mphys_def)

lemma mphys_snoc [simp]: "mphys fs (cs @ [c]) \<longleftrightarrow> mphys fs cs \<and> vis_dir fs cs"
proof -
  have "strict_prefix es (cs @ [c]) \<longleftrightarrow> strict_prefix es cs \<or> es = cs" for es
    by (auto simp: strict_prefix_def)
  then show ?thesis by (auto simp: mphys_def)
qed

lemma mphys_prefix: "mphys fs cs \<Longrightarrow> prefix es cs \<Longrightarrow> mphys fs es"
  by (meson mphys_def prefix_order.less_le_trans)

lemma joinChildPath_render: "valid_comps (ds @ [c]) \<Longrightarrow> joinChildPath (render ds) c = render (ds @ [c])"
  by (simp add: joinChildPath_joinClean render_snoc)

lemma split_path_render: "valid_comps cs \<Longrightarrow> cs \<noteq> [] \<Longrightarrow> split_path (render cs) = cs"
  by (simp add: split_path_def TrimPrefix_def render_def split_join_valid)

lemma mwalk_result:
  assumes "valid_comps (ds @ cs)" "mphys fs ds" "vis_dir fs ds" "cs \<noteq> []"
    "mwalk fs ff mi cs (render ds) = Inr (Found (p, info, source))"
  shows "p = render (ds @ cs) \<and> mphys fs (ds @ cs) \<and>
     (case info of
        None \<Rightarrow> mi = overlayMissingFinal \<and> source = overlaySourceNone \<and>
          (\<exists>e. vis fs (render (ds @ cs)) = Inl e \<and> errors_Is e ErrNotExist)
      | Some i \<Rightarrow> vis fs (render (ds @ cs)) = Inr (i, source) \<and> (ff \<longrightarrow> fi_mode i AND ModeSymlink = 0))"
  using assms
proof (induction cs arbitrary: ds)
  case (Cons c cs)
  have v: "valid_comps (ds @ [c])" using Cons.prems(1) by simp
  note eq = Cons.prems(5) [simplified joinChildPath_render [OF v] mwalk.simps Let_def]
  show ?case
  proof (cases "vis fs (render (ds @ [c]))")
    case (Inl e)
    with eq Cons.prems show ?thesis by (auto split: if_splits)
  next
    case (Inr x)
    obtain i s where x: "x = (i, s)" by (metis prod.collapse)
    show ?thesis
    proof (cases "cs = []")
      case True
      with eq Inr x Cons.prems show ?thesis by (auto split: if_splits sum.splits)
    next
      case False
      with eq Inr x have d: "vis_dir fs (ds @ [c])" and
        eq': "mwalk fs ff mi cs (render (ds @ [c])) = Inr (Found (p, info, source))"
        by (auto simp: vis_dir_def dir_info_def split: if_splits sum.splits)
      have "valid_comps ((ds @ [c]) @ cs)" "mphys fs (ds @ [c])" using Cons.prems by simp_all
      from Cons.IH [OF this d False eq'] show ?thesis by (cases info) simp_all
    qed
  qed
qed simp

lemma mwalk_ident:
  assumes "valid_comps (ds @ cs)" "mphys fs (ds @ cs)" "cs \<noteq> []"
    "vis fs (render (ds @ cs)) = Inr (i, s)" "ff \<Longrightarrow> fi_mode i AND ModeSymlink = 0"
  shows "mwalk fs ff mi cs (render ds) = Inr (Found (render (ds @ cs), Some i, s))"
  using assms
proof (induction cs arbitrary: ds)
  case (Cons c cs)
  have v: "valid_comps (ds @ [c])" using Cons.prems(1) by simp
  show ?case
  proof (cases "cs = []")
    case True
    with Cons.prems show ?thesis by (auto simp: joinChildPath_render [OF v] Let_def)
  next
    case False
    then have "strict_prefix (ds @ [c]) (ds @ c # cs)" by (auto simp: strict_prefix_def)
    with Cons.prems(2) have "vis_dir fs (ds @ [c])" by (auto simp: mphys_def)
    with Cons.IH [of "ds @ [c]"] Cons.prems False show ?thesis
      by (auto simp: joinChildPath_render [OF v] vis_dir_def dir_info_def Let_def)
  qed
qed simp

lemma mwalk_missing:
  assumes "valid_comps (ds @ cs)" "cs \<noteq> []" "mphys fs (ds @ es)" "prefix es cs" "es \<noteq> []"
    "vis fs (render (ds @ es)) = Inl e" "errors_Is e ErrNotExist"
  shows "mwalk fs ff overlayMissingNone cs (render ds) = Inl (Errno ErrNotExist)"
  using assms
proof (induction cs arbitrary: ds es)
  case (Cons c cs)
  have v: "valid_comps (ds @ [c])" using Cons.prems(1) by simp
  from Cons.prems(4,5) obtain es' where es: "es = c # es'" "prefix es' cs" by (cases es) auto
  show ?case
  proof (cases "es' = []")
    case True
    with Cons.prems es show ?thesis by (simp add: joinChildPath_render [OF v] Let_def)
  next
    case False
    then have "strict_prefix (ds @ [c]) (ds @ es)" using es by (auto simp: strict_prefix_def)
    with Cons.prems(3) have d: "vis_dir fs (ds @ [c])" by (auto simp: mphys_def)
    from False es have ne: "cs \<noteq> []" by auto
    from Cons.IH [of "ds @ [c]" es'] Cons.prems es False ne
    have "mwalk fs ff overlayMissingNone cs (render (ds @ [c])) = Inl (Errno ErrNotExist)" by simp
    with d ne show ?thesis by (auto simp: joinChildPath_render [OF v] vis_dir_def dir_info_def Let_def)
  qed
qed simp

context lower_layer
begin

lemma vis_at:
  assumes "inv fs" "valid_comps cs" "at (o_upper fs) cs = Some r"
  shows "vis fs (render cs) = Inr (newFileInfo (path_Base (render cs)) (fs_heap (o_upper fs) r), overlaySourceUpper)"
  using upper_Lstat_at [OF invD(3) [OF assms(1)] assms(2,3)] by (simp add: vis_def)

lemma vis_dir_upper:
  assumes "inv fs" "valid_comps cs" "vis_dir fs cs"
  shows "at (o_upper fs) cs = None \<or> is_dir (o_upper fs) cs"
proof (cases "at (o_upper fs) cs")
  case (Some r)
  with assms(3) vis_at [OF assms(1,2) Some] have "node_dir (o_upper fs) r"
    by (simp add: vis_dir_def dir_info_def newFileInfo_def node_dir_def)
  with Some show ?thesis by (simp add: is_dir_def)
qed simp

lemma mphys_upper:
  assumes "inv fs" "valid_comps cs" "mphys fs cs" "strict_prefix es cs"
  shows "at (o_upper fs) es = None \<or> is_dir (o_upper fs) es"
proof -
  have "valid_comps es" using valid_comps_prefix [OF assms(2)] assms(4) by (simp add: strict_prefix_def)
  with vis_dir_upper [OF assms(1)] assms(3,4) show ?thesis by (simp add: mphys_def)
qed

lemma vis_missing:
  assumes i: "inv fs" and v: "valid_comps cs" and m: "mphys fs cs" and n: "at (o_upper fs) cs = None"
  shows "vis fs (render cs) =
     (if isHidden (render cs) fs then Inl (Errno ErrNotExist)
      else (case fst (f_Lstat L (render cs) (o_world fs)) of
              Inl e \<Rightarrow> Inl e | Inr info \<Rightarrow> Inr (info, overlaySourceLower)))"
proof -
  obtain e where "fst (mem_Lstat (render cs) (o_upper fs)) = Inl e" "errors_Is e ErrNotExist"
    using upper_Lstat_missing [OF invD(3) [OF i] v n mphys_upper [OF i v m]] by blast
  then show ?thesis by (simp add: vis_def invD(1) [OF i])
qed

lemma vis_root: "inv fs \<Longrightarrow> vis_dir fs []"
proof -
  assume i: "inv fs"
  note wf = upper_okD(1) [OF invD(3) [OF i]]
  from wf_root [OF wf] obtain r where r: "at (o_upper fs) [] = Some r" "node_dir (o_upper fs) r" by (rule is_dirE)
  with vis_at [OF i _ r(1)] wf_dir_not_link [OF wf _ r] show ?thesis
    by (simp add: vis_dir_def dir_info_def newFileInfo_def node_dir_def node_link_def)
qed

lemma mresolve_result:
  assumes i: "inv fs" and "mresolve fs p ff mi d = Inr (q, info, source)"
  shows "\<exists>cs. valid_comps cs \<and> q = render cs \<and> mphys fs cs \<and>
     (case info of
        None \<Rightarrow> mi = overlayMissingFinal \<and> source = overlaySourceNone \<and> cs \<noteq> [] \<and>
          (\<exists>e. vis fs (render cs) = Inl e \<and> errors_Is e ErrNotExist)
      | Some i \<Rightarrow> vis fs (render cs) = Inr (i, source) \<and> (ff \<longrightarrow> fi_mode i AND ModeSymlink = 0))"
  using assms
proof (induction fs p ff mi d rule: mresolve.induct)
  case (1 fs p ff mi d)
  obtain cs where cs: "Clean p = render cs" "valid_comps cs" by (metis Clean_eq abs_comps_valid)
  note eq = "1.prems"(2) [unfolded mresolve.simps [of fs p] Let_def]
  from eq have d: "\<not> maxSymlinkDepth < d" by (auto split: if_splits)
  show ?case
  proof (cases "cs = []")
    case True
    with eq d cs vis_root [OF "1.prems"(1)] show ?thesis
      by (auto simp: vis_dir_def dir_info_def split: sum.splits prod.splits intro!: exI [of _ "[]"])
  next
    case False
    then have np: "Clean p \<noteq> ''/''" using cs by simp
    have sp: "split_path (Clean p) = cs" using cs False by (simp add: split_path_render)
    show ?thesis
    proof (cases "mwalk fs ff mi cs ''/''")
      case (Inl e)
      with eq d np sp show ?thesis by simp
    next
      case (Inr w)
      show ?thesis
      proof (cases w)
        case (Found res)
        with eq d np sp Inr have "mwalk fs ff mi cs (render []) = Inr (Found (q, info, source))" by simp
        from mwalk_result [OF _ mphys_Nil vis_root [OF "1.prems"(1)] False this] cs False show ?thesis
          by (auto split: option.splits intro!: exI [of _ cs])
      next
        case (Follow t)
        with eq d np sp Inr have "mresolve fs t ff mi (Suc d) = Inr (q, info, source)" by simp
        with "1.IH" [OF refl d np Inr [folded sp] Follow "1.prems"(1)] show ?thesis by simp
      qed
    qed
  qed
qed

lemma mresolve_ident:
  assumes "valid_comps cs" "mphys fs cs" "vis fs (render cs) = Inr (i, s)" "d \<le> maxSymlinkDepth"
    "ff \<Longrightarrow> fi_mode i AND ModeSymlink = 0"
  shows "mresolve fs (render cs) ff mi d = Inr (render cs, Some i, s)"
proof (cases "cs = []")
  case True
  with assms show ?thesis by (simp add: mresolve.simps)
next
  case False
  with mwalk_ident [of "[]" cs fs i s ff mi] assms show ?thesis
    by (simp add: mresolve.simps split_path_render)
qed

lemma mresolve_missing:
  assumes "valid_comps cs" "mphys fs es" "prefix es cs" "es \<noteq> []" "vis fs (render es) = Inl e"
    "errors_Is e ErrNotExist" "d \<le> maxSymlinkDepth"
  shows "mresolve fs (render cs) ff overlayMissingNone d = Inl (Errno ErrNotExist)"
proof -
  have ne: "cs \<noteq> []" using assms(3,4) by auto
  from mwalk_missing [of "[]" cs fs es e ff] assms ne show ?thesis
    by (simp add: mresolve.simps split_path_render)
qed

text \<open>What a successful call of \<open>resolveMerged\<close> or \<open>resolveMergedPath\<close> gives.\<close>

lemma resolveMerged_pure:
  assumes "inv fs"
  obtains c where "inv (recache fs c)"
    "resolveMerged p ff fs =
      ((case mresolve fs p ff overlayMissingNone 0 of
          Inl e \<Rightarrow> Inl e | Inr (q, None, s) \<Rightarrow> Inl (Errno ErrNotExist) | Inr (q, Some i, s) \<Rightarrow> Inr (q, i, s)),
       recache fs c)"
proof -
  obtain c where "resolveMergedDepth p ff overlayMissingNone 0 fs = (mresolve fs p ff overlayMissingNone 0, recache fs c)"
    "inv (recache fs c)" using resolve_pure [OF assms] by blast
  with that [of c] show thesis
    by (simp add: resolveMerged_def split: sum.splits prod.splits option.splits)
qed

lemma resolveMerged_result:
  assumes i: "inv fs" and eq: "resolveMerged p ff fs = (Inr (q, info, source), fs')"
  obtains cs c where "fs' = recache fs c" "inv (recache fs c)" "valid_comps cs" "q = render cs" "mphys fs cs"
    "vis fs (render cs) = Inr (info, source)" "ff \<longrightarrow> fi_mode info AND ModeSymlink = 0"
proof -
  obtain c where c: "inv (recache fs c)" "resolveMerged p ff fs =
      ((case mresolve fs p ff overlayMissingNone 0 of
          Inl e \<Rightarrow> Inl e | Inr (q, None, s) \<Rightarrow> Inl (Errno ErrNotExist) | Inr (q, Some i, s) \<Rightarrow> Inr (q, i, s)),
       recache fs c)" using resolveMerged_pure [OF i] by blast
  then have fs': "fs' = recache fs c" and m: "mresolve fs p ff overlayMissingNone 0 = Inr (q, Some info, source)"
    using eq by (auto split: sum.splits prod.splits option.splits)
  from mresolve_result [OF i m] obtain cs where "valid_comps cs" "q = render cs" "mphys fs cs"
    "vis fs (render cs) = Inr (info, source)" "ff \<longrightarrow> fi_mode info AND ModeSymlink = 0" by auto
  with that [of c cs] c(1) fs' show thesis by blast
qed

lemma resolveMergedPath_result:
  assumes i: "inv fs" and eq: "resolveMergedPath p ff mi fs = (Inr (q, info, source), fs')"
  obtains cs c where "fs' = recache fs c" "inv (recache fs c)" "valid_comps cs" "q = render cs" "mphys fs cs"
    "info = None \<longrightarrow> mi = overlayMissingFinal \<and> cs \<noteq> [] \<and> (\<exists>e. vis fs (render cs) = Inl e \<and> errors_Is e ErrNotExist)"
    "\<forall>i. info = Some i \<longrightarrow> vis fs (render cs) = Inr (i, source) \<and> (ff \<longrightarrow> fi_mode i AND ModeSymlink = 0)"
proof -
  obtain c where c: "inv (recache fs c)" "fs' = recache fs c"
    and m: "mresolve fs p ff mi 0 = Inr (q, info, source)"
    using resolve_pure [OF i, of p ff mi 0] eq by (auto simp: resolveMergedPath_def)
  from mresolve_result [OF i m] obtain cs where "valid_comps cs" "q = render cs" "mphys fs cs"
    "case info of
        None \<Rightarrow> mi = overlayMissingFinal \<and> source = overlaySourceNone \<and> cs \<noteq> [] \<and>
          (\<exists>e. vis fs (render cs) = Inl e \<and> errors_Is e ErrNotExist)
      | Some i \<Rightarrow> vis fs (render cs) = Inr (i, source) \<and> (ff \<longrightarrow> fi_mode i AND ModeSymlink = 0)" by blast
  with that [of c cs] c show thesis by (cases info) auto
qed

end

end
