(* ===== verification/Overlay_Copy.thy ===== *)
theory Overlay_Copy
  imports Overlay_Paths
begin

text \<open>
  Copying up. Each copy adds one node to the upper layer at a path whose parent is
  already a directory there, and the node carries the metadata of the lower entry, so the
  merged view before and after is the same up to identity of nodes.
\<close>

section \<open>Adding one node to the upper layer\<close>

definition adds :: "MemoryFS \<Rightarrow> MemoryFS \<Rightarrow> string list \<Rightarrow> (memoryNode \<Rightarrow> bool) \<Rightarrow> bool" where
  "adds u u' cs P \<longleftrightarrow>
     (\<exists>r. at u' cs = Some r \<and> P (fs_heap u' r)) \<and>
     (\<forall>es. valid_comps es \<longrightarrow> es \<noteq> cs \<longrightarrow> at u' es = at u es) \<and>
     (\<forall>es x. valid_comps es \<longrightarrow> at u es = Some x \<longrightarrow>
        at u' cs \<noteq> Some x \<and> (\<exists>X. fs_heap u' x = (fs_heap u x)\<lparr>n_children := X\<rparr>))"

lemma children_self: "\<exists>X. n = n\<lparr>n_children := X\<rparr>"
  by (metis memoryNode.surjective memoryNode.update_convs(9))

lemma install_adds:
  assumes u: "upper_ok u" and v: "valid_comps (ds @ [c])" and d: "is_dir u ds" and new: "at u (ds @ [c]) = None"
    and n: "node_ok n" "n_children n = {}" "n_lazy n = None \<or> n_lazySized n"
    and eq: "install (render (ds @ [c])) n u = (r, u')"
  shows "upper_ok u'" "adds u u' (ds @ [c]) (\<lambda>m. \<exists>i. m = n\<lparr>n_id := i\<rparr>)"
proof -
  note wf = upper_okD(1) [OF u]
  note w = install_wf [OF wf v missing_not_dir [OF new] d n(1,2) eq]
  show "upper_ok u'" by (rule upper_ok_calm [OF u calm_install [OF eq n(3)] w(1)])
  have "at u' (ds @ [c]) = Some r" using w(2) [OF v] by simp
  moreover have "at u' es = at u es" if "valid_comps es" "es \<noteq> ds @ [c]" for es
    using w(2) that by simp
  moreover have "\<exists>X. fs_heap u' x = (fs_heap u x)\<lparr>n_children := X\<rparr>" if "valid_comps es" "at u es = Some x" for es x
    using w(4) [OF that] children_self [of "fs_heap u x"] by auto
  moreover have "r \<noteq> x" if "valid_comps es" "at u es = Some x" for es x
  proof -
    have "r = fs_nextRef u" using eq by (auto simp: install_def alloc_node_def newNodeIDLocked_def Let_def)
    with wf_ref [OF wf that] show ?thesis by simp
  qed
  ultimately show "adds u u' (ds @ [c]) (\<lambda>m. \<exists>i. m = n\<lparr>n_id := i\<rparr>)" using w(3) by (auto simp: adds_def)
qed

lemma adds_update:
  assumes a: "adds u u1 cs P" and r: "at u1 cs = Some r" and Q: "\<And>n. P n \<Longrightarrow> Q (f n)"
  shows "adds u (update_node r f u1) cs Q"
  using assms by (auto simp: adds_def)

lemma mkdirAll_loop_dirs:
  assumes "fs_wf m" "valid_comps (bs @ ds @ cs)" "is_dir m (bs @ ds)"
  shows "mkdirAll_loop now perm (render bs) (join_with slash (ds @ cs)) m =
     mkdirAll_loop now perm (render (bs @ ds)) (join_with slash cs) m"
  using assms
proof (induction ds arbitrary: bs)
  case (Cons d ds)
  have v: "valid_comps (bs @ [d])" "valid_comps (bs @ d # ds @ cs)" using Cons.prems(2) by simp_all
  have "is_dir m (bs @ [d])"
  proof (cases "ds = []")
    case False
    from Cons.prems(3) obtain r where "at m ((bs @ [d]) @ ds) = Some r" by (auto simp: is_dir_def)
    with wf_prefix_dir [OF Cons.prems(1), of "bs @ [d]" ds r] Cons.prems(2) False show ?thesis by simp
  qed (use Cons.prems(3) in simp)
  then obtain r where r: "at m (bs @ [d]) = Some r" "node_dir m r" by (rule is_dirE)
  with wf_dir_not_link [OF Cons.prems(1) v(1) r] Cons.IH [of "bs @ [d]"] Cons.prems show ?case
    by (simp add: mkdirAll_loop_Cons [OF v(2)])
qed simp

lemma mkdirAllLocked_existing:
  assumes "fs_wf m" "valid_comps cs" "is_dir m cs"
  shows "mkdirAllLocked now (render cs) perm m = (Inr (), m)"
proof (cases "cs = []")
  case False
  with mkdirAll_loop_dirs [of m "[]" cs "[]" now perm] assms show ?thesis
    by (simp add: mkdirAllLocked_def Let_def tl_render)
qed (simp add: mkdirAllLocked_def)

lemma ensureParentLocked_existing:
  assumes "fs_wf m" "valid_comps (ds @ [c])" "is_dir m ds"
  shows "ensureParentLocked now op (render (ds @ [c])) m = (Inr (), m)"
proof -
  have "parentDir (render (ds @ [c])) = render ds" using assms(2) by (rule parentDir_render)
  with assms mkdirAllLocked_existing [OF assms(1) _ assms(3)] show ?thesis
    by (auto simp: ensureParentLocked_def node_at_def is_dir_def at_def node_dir_def)
qed

lemma mem_MkdirAll_new:
  assumes wf: "fs_wf m" and v: "valid_comps (ds @ [c])" and d: "is_dir m ds" and new: "at m (ds @ [c]) = None"
  shows "mem_MkdirAll now (render (ds @ [c])) perm m =
     (Inr (), snd (install (render (ds @ [c])) (blank_node (ModeDir OR mkdir_perm perm) now) m))"
proof -
  have ne: "render (ds @ [c]) \<noteq> ''/''" using v by simp
  have "mkdirAllLocked now (render (ds @ [c])) perm m = mkdirAll_loop now perm (render []) (join_with slash (ds @ [c])) m"
    using v ne by (simp add: mkdirAllLocked_def Let_def tl_render)
  also have "\<dots> = mkdirAll_loop now perm (render ds) (join_with slash [c]) m"
    using mkdirAll_loop_dirs [of m "[]" ds "[c]" now perm] wf v d by simp
  also have "\<dots> = (Inr (), snd (install (render (ds @ [c])) (blank_node (ModeDir OR mkdir_perm perm) now) m))"
    using v new by (subst mkdirAll_loop_Cons) simp_all
  finally show ?thesis using v by (simp add: mem_MkdirAll_def)
qed

lemma on_node_at:
  assumes "fs_wf m" "valid_comps cs" "at m cs = Some r" "follow \<Longrightarrow> \<not> node_link m r"
  shows "on_node op follow f (render cs) m = (Inr (), update_node r f m)"
  using resolvePathLocked_ident [OF assms(1,2) wf_phys [OF assms(1-3)], of False follow] assms
  by (simp add: on_node_def)

section \<open>Metadata of a copy\<close>

text \<open>
  What a copy keeps of the information about an entry: its kind, the stored permission
  bits, the size of a file, the owner if the source has one, and a nonzero modification
  time.
\<close>

definition same_meta :: "fileInfo \<Rightarrow> fileInfo \<Rightarrow> bool" where
  "same_meta i j \<longleftrightarrow>
     mode_IsDir (fi_mode j) = mode_IsDir (fi_mode i) \<and>
     (fi_mode j AND ModeSymlink = 0) = (fi_mode i AND ModeSymlink = 0) \<and>
     mode_IsRegular (fi_mode j) = mode_IsRegular (fi_mode i) \<and>
     fi_mode j AND storedPermBits = fi_mode i AND storedPermBits \<and>
     (mode_IsRegular (fi_mode i) \<longrightarrow> fi_size j = fi_size i) \<and>
     (fi_owned i \<longrightarrow> fi_owned j \<and> fi_uid j = fi_uid i \<and> fi_gid j = fi_gid i) \<and>
     (\<not> IsZero (fi_modTime i) \<longrightarrow> fi_modTime j = fi_modTime i)"

lemma same_meta_refl [simp]: "same_meta i i" by (simp add: same_meta_def)

lemma same_meta_trans: "same_meta i j \<Longrightarrow> same_meta j k \<Longrightarrow> same_meta i k"
  by (simp add: same_meta_def)

definition copy_of :: "fileInfo \<Rightarrow> memoryNode \<Rightarrow> bool" where
  "copy_of i n \<longleftrightarrow> (\<forall>b. same_meta i (newFileInfo b n))"

lemma copy_of_id [simp]: "copy_of i (n\<lparr>n_id := k\<rparr>) = copy_of i n"
  by (simp add: copy_of_def same_meta_def newFileInfo_def isLazyFileNode_def)

lemma stored_bits_facts:
  "storedPermBits AND ModeDir = 0" "storedPermBits AND ModeSymlink = 0" "storedPermBits AND ModeType = 0"
  by (simp_all add: storedPermBits_def mode_bits)

lemma stored_mode_type:
  "(x AND storedPermBits) AND ModeType = 0" "\<not> mode_IsDir (x AND storedPermBits)" "mode_IsRegular (x AND storedPermBits)"
  by (simp_all add: mode_IsDir_def mode_IsRegular_def and.assoc stored_bits_facts)

lemma copy_of_lazy: "mode_IsRegular (fi_mode i) \<Longrightarrow> copy_of i (lazy_node now i prov)"
  using regular_bits [of "fi_mode i"]
  by (auto simp: copy_of_def same_meta_def newFileInfo_def lazy_node_def set_owner_def OwnershipFromFileInfo_def
      isLazyFileNode_def blank_node_def stored_mode_type and.assoc stored_bits_facts)

lemma lazy_node_ok: "node_ok (lazy_node now i prov)" "n_children (lazy_node now i prov) = {}"
  "n_lazy (lazy_node now i prov) = Some prov" "n_lazySized (lazy_node now i prov)"
  by (simp_all add: node_ok_def lazy_node_def set_owner_def OwnershipFromFileInfo_def blank_node_def stored_mode_type)

lemma cloneLazyFile_adds:
  assumes u: "upper_ok u" and v: "valid_comps (ds @ [c])" and d: "is_dir u ds" and new: "at u (ds @ [c]) = None"
    and reg: "mode_IsRegular (fi_mode i)"
  obtains u' where "cloneLazyFile now (render (ds @ [c])) i prov u = (Inr (), u')" "upper_ok u'"
    "adds u u' (ds @ [c]) (\<lambda>n. copy_of i n \<and> n_lazy n = Some prov)"
proof -
  obtain r u' where ins: "install (render (ds @ [c])) (lazy_node now i prov) u = (r, u')" by (metis prod.collapse)
  note a = install_adds [OF u v d new lazy_node_ok(1,2) _ ins]
  have "cloneLazyFile now (render (ds @ [c])) i prov u = (Inr (), u')"
    using new reg ins ensureParentLocked_existing [OF upper_okD(1) [OF u] v d]
    by (simp add: cloneLazyFile_def at_def)
  moreover have "adds u u' (ds @ [c]) (\<lambda>n. copy_of i n \<and> n_lazy n = Some prov)"
    using a(2) copy_of_lazy [OF reg, of now prov] lazy_node_ok by (auto simp: adds_def)
  ultimately show thesis using that a(1) lazy_node_ok by blast
qed

definition dir_stamp :: "gotime \<Rightarrow> fileInfo \<Rightarrow> memoryNode \<Rightarrow> memoryNode" where
  "dir_stamp now i n =
     (let n1 = n\<lparr>n_mode := n_mode n AND NOT storedPermBits OR fi_mode i AND storedPermBits, n_modTime := now\<rparr>;
          n2 = (if fi_owned i then n1\<lparr>n_uid := fi_uid i, n_gid := fi_gid i\<rparr> else n1)
      in if IsZero (fi_modTime i) then n2
         else n2\<lparr>n_atime := fi_modTime i, n_modTime := fi_modTime i\<rparr>)"

lemma stored_chmod_bits:
  fixes x y :: FileMode
  shows "(x AND NOT storedPermBits OR y AND storedPermBits) AND storedPermBits = y AND storedPermBits"
    "(x AND NOT storedPermBits OR y AND storedPermBits) AND ModeDir = x AND ModeDir"
    "(x AND NOT storedPermBits OR y AND storedPermBits) AND ModeSymlink = x AND ModeSymlink"
    "(x AND NOT storedPermBits OR y AND storedPermBits) AND ModeType = x AND ModeType"
  by (simp_all add: storedPermBits_def mode_bits and.assoc bit.conj_disj_distrib2)

lemma update_node_twice: "update_node r g (update_node r f m) = update_node r (\<lambda>n. g (f n)) m"
  by (simp add: update_node_def)

lemma dir_stamp_dir:
  "mode_IsDir (n_mode (dir_stamp now i n)) = mode_IsDir (n_mode n)"
  "(n_mode (dir_stamp now i n) AND ModeSymlink = 0) = (n_mode n AND ModeSymlink = 0)"
  "n_children (dir_stamp now i n) = n_children n" "n_lazy (dir_stamp now i n) = n_lazy n"
  by (simp_all add: dir_stamp_def Let_def mode_IsDir_def stored_chmod_bits)

lemma dir_not_regular: "mode_IsDir md \<Longrightarrow> \<not> mode_IsRegular md"
  using regular_bits by blast

lemma copy_of_dir_stamp:
  assumes "mode_IsDir (fi_mode i)" "fi_mode i AND ModeSymlink = 0" "mode_IsDir (n_mode n)" "n_mode n AND ModeSymlink = 0"
  shows "copy_of i (dir_stamp now i n)"
proof -
  have "mode_IsDir (n_mode (dir_stamp now i n))" using assms(3) by (simp add: dir_stamp_dir)
  with assms dir_not_regular [of "fi_mode i"] dir_not_regular [of "n_mode (dir_stamp now i n)"] show ?thesis
    by (simp add: copy_of_def same_meta_def newFileInfo_def dir_stamp_dir)
      (simp add: dir_stamp_def Let_def stored_chmod_bits)
qed

lemma cloneDirNode_eq:
  assumes wf: "fs_wf u1" and v: "valid_comps cs" and r: "at u1 cs = Some r" "node_dir u1 r"
    and mk: "mem_MkdirAll now (render cs) (mode_Perm (fi_mode i)) u = (Inr (), u1)" and d: "mode_IsDir (fi_mode i)"
  shows "cloneDirNode now (render cs) i u = (Inr (), update_node r (dir_stamp now i) u1)"
proof -
  have wf_up: "fs_wf (update_node r f u1) \<and> at (update_node r f u1) cs = Some r \<and> \<not> node_link (update_node r f u1) r"
    if "\<And>n. mode_IsDir (n_mode (f n)) = mode_IsDir (n_mode n)" "\<And>n. (n_mode (f n) AND ModeSymlink = 0) = (n_mode n AND ModeSymlink = 0)"
      "\<And>n. n_children (f n) = n_children n" for f
    using fs_wf_update_node [OF wf, of f r] that wf_dir_not_link [OF wf v r] r by (simp add: node_link_def)
  have nl: "\<not> node_link u1 r" by (rule wf_dir_not_link [OF wf v r])
  define f1 where "f1 n = n\<lparr>n_mode := n_mode n AND NOT storedPermBits OR fi_mode i AND storedPermBits, n_modTime := now\<rparr>" for n :: memoryNode
  define f2 where "f2 n = (if fi_owned i then n\<lparr>n_uid := fi_uid i, n_gid := fi_gid i\<rparr> else n)" for n :: memoryNode
  have 1: "mem_Chmod now (render cs) (fi_mode i) u1 = (Inr (), update_node r f1 u1)"
    using on_node_at [OF wf v r(1), of True] nl by (simp add: mem_Chmod_def f1_def [abs_def])
  have w1: "fs_wf (update_node r f1 u1)" "at (update_node r f1 u1) cs = Some r" "\<not> node_link (update_node r f1 u1) r"
    using wf_up [of f1] by (simp_all add: f1_def mode_IsDir_def stored_chmod_bits)
  have 2: "whenOwned i (\<lambda>ow. mem_Chown (render cs) (UID ow) (GID ow) False) (update_node r f1 u1) =
      (Inr (), update_node r (\<lambda>n. f2 (f1 n)) u1)"
    using on_node_at [OF w1(1) v w1(2), of False]
    by (auto simp: whenOwned_def OwnershipFromFileInfo_def mem_Chown_def f2_def update_node_twice done_ok_def)
  have w2: "fs_wf (update_node r (\<lambda>n. f2 (f1 n)) u1)" "at (update_node r (\<lambda>n. f2 (f1 n)) u1) cs = Some r"
    using wf_up [of "\<lambda>n. f2 (f1 n)"] by (simp_all add: f1_def f2_def mode_IsDir_def stored_chmod_bits)
  have 3: "(if \<not> IsZero (fi_modTime i) then mem_Lchtimes now (render cs) (fi_modTime i) (fi_modTime i) else done_ok)
      (update_node r (\<lambda>n. f2 (f1 n)) u1) = (Inr (), update_node r (dir_stamp now i) u1)"
    using on_node_at [OF w2(1) v w2(2), of False]
    by (simp add: mem_Lchtimes_def done_ok_def update_node_twice)
      (simp add: dir_stamp_def [abs_def] Let_def f1_def f2_def)
  from mk 1 2 3 d show ?thesis by (simp add: cloneDirNode_def andThen_def)
qed

lemma cloneDirNode_adds:
  assumes u: "upper_ok u" and v: "valid_comps (ds @ [c])" and d: "is_dir u ds" and new: "at u (ds @ [c]) = None"
    and i: "dir_info i"
  obtains u' where "cloneDirNode now (render (ds @ [c])) i u = (Inr (), u')" "upper_ok u'"
    "adds u u' (ds @ [c]) (\<lambda>n. copy_of i n \<and> n_lazy n = None)" "is_dir u' (ds @ [c])"
proof -
  let ?n = "blank_node (ModeDir OR mkdir_perm (mode_Perm (fi_mode i))) now"
  obtain r u1 where ins: "install (render (ds @ [c])) ?n u = (r, u1)" by (metis prod.collapse)
  note a = install_adds [OF u v d new mkdir_node_ok(1,2) _ ins]
  then have u1: "upper_ok u1" and ad: "adds u u1 (ds @ [c]) (\<lambda>m. \<exists>k. m = ?n\<lparr>n_id := k\<rparr>)" by simp_all
  from ad obtain x k where x: "at u1 (ds @ [c]) = Some x" "fs_heap u1 x = ?n\<lparr>n_id := k\<rparr>" by (auto simp: adds_def)
  have nd: "node_dir u1 x" using mkdir_node_ok(3) x(2) by (simp add: node_dir_def)
  have nl: "n_mode (fs_heap u1 x) AND ModeSymlink = 0"
    using wf_dir_not_link [OF upper_okD(1) [OF u1] v x(1) nd] by (simp add: node_link_def)
  let ?u = "update_node x (dir_stamp now i) u1"
  have eq: "cloneDirNode now (render (ds @ [c])) i u = (Inr (), ?u)"
    using cloneDirNode_eq [OF upper_okD(1) [OF u1] v x(1) nd] mem_MkdirAll_new [OF upper_okD(1) [OF u] v d new] ins i
    by (simp add: dir_info_def)
  have ok: "upper_ok ?u"
    using keeps_upperD [OF keeps_cloneDirNode u eq] .
  have other: "at u es = Some y \<Longrightarrow> valid_comps es \<Longrightarrow> y \<noteq> x" for es y
  proof
    assume es: "at u es = Some y" "valid_comps es" "y = x"
    with new ad have ne: "es \<noteq> ds @ [c]" and "at u1 es = Some x" by (auto simp: adds_def)
    with wf_unique [OF upper_okD(1) [OF u1] es(2) v _ x(1)] nd show False by simp
  qed
  have "adds u ?u (ds @ [c]) (\<lambda>n. copy_of i n \<and> n_lazy n = None)"
    unfolding adds_def
  proof (intro conjI allI impI)
    show "\<exists>r. at ?u (ds @ [c]) = Some r \<and> copy_of i (fs_heap ?u r) \<and> n_lazy (fs_heap ?u r) = None"
      using x nd nl i copy_of_dir_stamp [of i "fs_heap u1 x" now]
      by (simp add: node_dir_def dir_stamp_dir dir_info_def blank_node_def)
    show "at ?u es = at u es" if "valid_comps es" "es \<noteq> ds @ [c]" for es
      using ad that by (simp add: adds_def)
    show "at ?u (ds @ [c]) \<noteq> Some y" "\<exists>X. fs_heap ?u y = (fs_heap u y)\<lparr>n_children := X\<rparr>"
      if "valid_comps es" "at u es = Some y" for es y
      using ad that x other [OF that(2,1)] by (auto simp: adds_def)
  qed
  moreover have "is_dir ?u (ds @ [c])"
    using x nd by (simp add: is_dir_def node_dir_def dir_stamp_dir)
  ultimately show thesis using that eq ok by blast
qed

section \<open>Growth of the upper layer that the merged view does not show\<close>

definition grown :: "('w, 'h) OverlayFS \<Rightarrow> ('w, 'h) OverlayFS \<Rightarrow> bool" where
  "grown fs fs' \<longleftrightarrow>
     o_lower fs' = o_lower fs \<and> o_content fs' = o_content fs \<and> o_world fs' = o_world fs \<and>
     o_cwd fs' = o_cwd fs \<and> o_tombstones fs' = o_tombstones fs \<and>
     (\<forall>es x. valid_comps es \<longrightarrow> at (o_upper fs) es = Some x \<longrightarrow>
        at (o_upper fs') es = Some x \<and> (\<exists>X. fs_heap (o_upper fs') x = (fs_heap (o_upper fs) x)\<lparr>n_children := X\<rparr>)) \<and>
     (\<forall>es x. valid_comps es \<longrightarrow> at (o_upper fs) es = None \<longrightarrow> at (o_upper fs') es = Some x \<longrightarrow>
        \<not> isHidden (render es) fs \<and>
        (\<exists>i. fst (f_Lstat (o_lower fs) (render es) (o_world fs)) = Inr i \<and> copy_of i (fs_heap (o_upper fs') x) \<and>
          (n_lazy (fs_heap (o_upper fs') x) = None \<or>
           n_lazy (fs_heap (o_upper fs') x) = Some (o_content fs (render es)))))"

lemma grown_sameD:
  assumes "grown fs fs'"
  shows "o_lower fs' = o_lower fs" "o_content fs' = o_content fs" "o_world fs' = o_world fs"
    "o_cwd fs' = o_cwd fs" "o_tombstones fs' = o_tombstones fs" "isHidden p fs' = isHidden p fs"
  using assms by (auto simp: grown_def isHidden_def)

lemma grown_oldD:
  assumes "grown fs fs'" "valid_comps es" "at (o_upper fs) es = Some x"
  shows "at (o_upper fs') es = Some x" "\<exists>X. fs_heap (o_upper fs') x = (fs_heap (o_upper fs) x)\<lparr>n_children := X\<rparr>"
  using assms by (auto simp: grown_def)

lemma grown_newD:
  assumes "grown fs fs'" "valid_comps es" "at (o_upper fs) es = None" "at (o_upper fs') es = Some x"
  shows "\<not> isHidden (render es) fs"
    "\<exists>i. fst (f_Lstat (o_lower fs) (render es) (o_world fs)) = Inr i \<and> copy_of i (fs_heap (o_upper fs') x) \<and>
      (n_lazy (fs_heap (o_upper fs') x) = None \<or> n_lazy (fs_heap (o_upper fs') x) = Some (o_content fs (render es)))"
  using assms by (auto simp: grown_def)

lemma copy_of_children [simp]: "copy_of i (n\<lparr>n_children := X\<rparr>) = copy_of i n"
  by (simp add: copy_of_def same_meta_def newFileInfo_def isLazyFileNode_def)

lemma newFileInfo_children [simp]: "newFileInfo b (n\<lparr>n_children := X\<rparr>) = newFileInfo b n"
  by (simp add: newFileInfo_def isLazyFileNode_def)

lemma grown_recache: "grown fs (recache fs c)"
  using children_self by (auto simp: grown_def)

lemma grown_refl: "grown fs fs"
  using grown_recache [of fs "o_lowerDirs fs"] by simp

lemma grown_trans:
  assumes a: "grown fs fs1" and b: "grown fs1 fs2"
  shows "grown fs fs2"
  unfolding grown_def
proof (intro conjI allI impI)
  fix es x
  assume v: "valid_comps es" and x: "at (o_upper fs) es = Some x"
  note 1 = grown_oldD [OF a v x]
  note 2 = grown_oldD [OF b v 1(1)]
  show "at (o_upper fs2) es = Some x" by (rule 2)
  show "\<exists>X. fs_heap (o_upper fs2) x = (fs_heap (o_upper fs) x)\<lparr>n_children := X\<rparr>" using 1(2) 2(2) by auto
next
  fix es x
  assume v: "valid_comps es" and n: "at (o_upper fs) es = None" and x: "at (o_upper fs2) es = Some x"
  have "\<not> isHidden (render es) fs \<and> (\<exists>i. fst (f_Lstat (o_lower fs) (render es) (o_world fs)) = Inr i \<and>
      copy_of i (fs_heap (o_upper fs2) x) \<and>
      (n_lazy (fs_heap (o_upper fs2) x) = None \<or> n_lazy (fs_heap (o_upper fs2) x) = Some (o_content fs (render es))))"
  proof (cases "at (o_upper fs1) es")
    case None
    from grown_newD [OF b v None x] show ?thesis by (simp add: grown_sameD [OF a])
  next
    case (Some y)
    with grown_oldD(1) [OF b v Some] x have "y = x" by simp
    with grown_newD [OF a v n] Some grown_oldD(2) [OF b v Some] show ?thesis by auto
  qed
  then show "\<not> isHidden (render es) fs" "\<exists>i. fst (f_Lstat (o_lower fs) (render es) (o_world fs)) = Inr i \<and>
      copy_of i (fs_heap (o_upper fs2) x) \<and>
      (n_lazy (fs_heap (o_upper fs2) x) = None \<or> n_lazy (fs_heap (o_upper fs2) x) = Some (o_content fs (render es)))"
    by blast+
qed (simp_all add: grown_sameD [OF b] grown_sameD [OF a])

lemma adds_grown:
  assumes a: "adds (o_upper fs) u' cs (\<lambda>n. copy_of i n \<and> (n_lazy n = None \<or> n_lazy n = Some (o_content fs (render cs))))"
    and new: "at (o_upper fs) cs = None" and h: "\<not> isHidden (render cs) fs"
    and l: "fst (f_Lstat (o_lower fs) (render cs) (o_world fs)) = Inr i"
  shows "grown fs (fs\<lparr>o_upper := u'\<rparr>)"
  unfolding grown_def
proof (intro conjI allI impI)
  fix es x
  assume v: "valid_comps es" and x: "at (o_upper fs) es = Some x"
  with new have "es \<noteq> cs" by auto
  with a v x show "at (o_upper (fs\<lparr>o_upper := u'\<rparr>)) es = Some x"
    "\<exists>X. fs_heap (o_upper (fs\<lparr>o_upper := u'\<rparr>)) x = (fs_heap (o_upper fs) x)\<lparr>n_children := X\<rparr>"
    by (auto simp: adds_def)
next
  fix es x
  assume v: "valid_comps es" and n: "at (o_upper fs) es = None" and x: "at (o_upper (fs\<lparr>o_upper := u'\<rparr>)) es = Some x"
  with a have "es = cs" by (auto simp: adds_def)
  with h show "\<not> isHidden (render es) fs" by simp
  from \<open>es = cs\<close> a x l show "\<exists>i. fst (f_Lstat (o_lower fs) (render es) (o_world fs)) = Inr i \<and>
      copy_of i (fs_heap (o_upper (fs\<lparr>o_upper := u'\<rparr>)) x) \<and>
      (n_lazy (fs_heap (o_upper (fs\<lparr>o_upper := u'\<rparr>)) x) = None \<or>
       n_lazy (fs_heap (o_upper (fs\<lparr>o_upper := u'\<rparr>)) x) = Some (o_content fs (render es)))"
    by (auto simp: adds_def)
qed simp_all

text \<open>The two views agree at a path: the same error, or information that a copy keeps.\<close>

definition vis_like :: "go_error + fileInfo \<times> overlaySource \<Rightarrow> go_error + fileInfo \<times> overlaySource \<Rightarrow> bool" where
  "vis_like a b \<longleftrightarrow>
     (case a of
        Inl e \<Rightarrow> b = Inl e
      | Inr (i, _) \<Rightarrow> (case b of Inl _ \<Rightarrow> False | Inr (j, _) \<Rightarrow> same_meta i j))"

lemma vis_like_refl [simp]: "vis_like a a"
  by (simp add: vis_like_def split: sum.split prod.split)

lemma vis_like_dir: "vis_like (vis fs (render es)) (vis fs' (render es)) \<Longrightarrow> vis_dir fs es \<Longrightarrow> vis_dir fs' es"
  by (auto simp: vis_like_def vis_dir_def dir_info_def same_meta_def split: sum.splits prod.splits)

context lower_layer
begin

lemma grown_inv_upper: "inv fs \<Longrightarrow> upper_ok u \<Longrightarrow> inv (fs\<lparr>o_upper := u\<rparr>)"
  by (simp add: inv_def cache_ok_def)

lemma grown_vis:
  assumes i: "inv fs" "inv fs'" and g: "grown fs fs'"
  shows "valid_comps es \<Longrightarrow> mphys fs es \<Longrightarrow> mphys fs' es \<and> vis_like (vis fs (render es)) (vis fs' (render es))"
proof (induction es rule: rev_induct)
  case Nil
  from wf_root [OF upper_okD(1) [OF invD(3) [OF i(1)]]] obtain r where r: "at (o_upper fs) [] = Some r"
    by (auto simp: is_dir_def)
  note o = grown_oldD [OF g _ r]
  from vis_at [OF i(1) _ r] vis_at [OF i(2) _ o(1)] o(2) show ?case by auto
next
  case (snoc c es)
  then have ph: "mphys fs es" "vis_dir fs es" "valid_comps es" by simp_all
  with snoc.IH vis_like_dir [of fs es fs'] have ph': "mphys fs' (es @ [c])" by simp
  note lw = invD(1) [OF i(1)] invD(1) [OF i(2)] grown_sameD [OF g]
  show ?case
  proof (cases "at (o_upper fs) (es @ [c])")
    case (Some r)
    note o = grown_oldD [OF g snoc.prems(1) Some]
    from vis_at [OF i(1) snoc.prems(1) Some] vis_at [OF i(2) snoc.prems(1) o(1)] o(2) ph' show ?thesis by auto
  next
    case None
    note v = vis_missing [OF i(1) snoc.prems None]
    show ?thesis
    proof (cases "at (o_upper fs') (es @ [c])")
      case None
      from v vis_missing [OF i(2) snoc.prems(1) ph' None] ph' show ?thesis by (simp add: lw)
    next
      case (Some x)
      from grown_newD [OF g snoc.prems(1) None Some] v vis_at [OF i(2) snoc.prems(1) Some] ph' show ?thesis
        by (auto simp: lw vis_like_def copy_of_def)
    qed
  qed
qed

end

end
