(* ===== verification/Overlay_CopyUp.thy ===== *)
theory Overlay_CopyUp
  imports Overlay_Copy
begin

text \<open>
  \<open>copyUpAncestors\<close> and \<open>copyUpNode\<close> succeed on every physical path of the merged view,
  keep the invariant and leave the view as it was.
\<close>

section \<open>Links and special files\<close>

lemma mem_Symlink_new:
  assumes u: "upper_ok u" and v: "valid_comps (ds @ [c])" and d: "is_dir u ds" and new: "at u (ds @ [c]) = None"
  shows "mem_Symlink now t (render (ds @ [c])) u =
     (Inr (), snd (install (render (ds @ [c])) ((blank_node (ModeSymlink OR 0x1FF) now)\<lparr>n_target := t\<rparr>) u))"
proof -
  note wf = upper_okD(1) [OF u]
  have "phys u (ds @ [c])"
    using d wf_phys [OF wf, of ds] v by (auto simp: phys_snoc is_dir_def)
  from resolvePathLocked_ident [OF wf v this, of True False] new
  have "resolvePathLocked u (render (ds @ [c])) False True = Inr (render (ds @ [c]), None)" by simp
  with ensureParentLocked_existing [OF wf v d] new show ?thesis
    by (simp add: mem_Symlink_def at_def)
qed

lemma special_node_ok:
  "node_ok (special_node now i)" "n_children (special_node now i) = {}" "n_lazy (special_node now i) = None"
  "\<not> mode_IsDir (n_mode (special_node now i))"
proof -
  have "(x AND (storedPermBits OR seedableTypeBits)) AND ModeDir = 0" for x
    by (simp add: and.assoc storedPermBits_def seedableTypeBits_def mode_bits)
  then show "node_ok (special_node now i)" "\<not> mode_IsDir (n_mode (special_node now i))"
    by (simp_all add: node_ok_def special_node_def set_owner_def OwnershipFromFileInfo_def blank_node_def mode_IsDir_def)
  show "n_children (special_node now i) = {}" "n_lazy (special_node now i) = None"
    by (simp_all add: special_node_def set_owner_def OwnershipFromFileInfo_def blank_node_def)
qed

lemma link_node_facts:
  "\<not> mode_IsDir (n_mode ((blank_node (ModeSymlink OR 0x1FF) now)\<lparr>n_target := t\<rparr>))"
  "n_lazy ((blank_node (ModeSymlink OR 0x1FF) now)\<lparr>n_target := t\<rparr>) = None"
  by (simp_all add: blank_node_def mode_IsDir_def mode_bits)

lemma cloneSpecialFile_adds:
  assumes u: "upper_ok u" and v: "valid_comps (ds @ [c])" and d: "is_dir u ds" and new: "at u (ds @ [c]) = None"
  obtains u' where "cloneSpecialFile now (render (ds @ [c])) i u = (Inr (), u')" "upper_ok u'"
    "adds u u' (ds @ [c]) (\<lambda>n. \<not> mode_IsDir (n_mode n))"
proof -
  obtain r u' where ins: "install (render (ds @ [c])) (special_node now i) u = (r, u')" by (metis prod.collapse)
  note a = install_adds [OF u v d new special_node_ok(1,2) _ ins]
  have "cloneSpecialFile now (render (ds @ [c])) i u = (Inr (), u')"
    using mkdirAllLocked_existing [OF upper_okD(1) [OF u] _ d] v ins parentDir_render [OF v]
    by (simp add: cloneSpecialFile_def)
  moreover have "adds u u' (ds @ [c]) (\<lambda>n. \<not> mode_IsDir (n_mode n))"
    using a(2) special_node_ok(3,4) by (auto simp: adds_def)
  ultimately show thesis using that a(1) special_node_ok(3) by blast
qed

lemma clone_link_adds:
  assumes u: "upper_ok u" and v: "valid_comps (ds @ [c])" and d: "is_dir u ds" and new: "at u (ds @ [c]) = None"
  obtains u' where "andThen (mem_Symlink now t (render (ds @ [c])))
      (\<lambda>_. whenOwned i (\<lambda>ow. mem_Chown (render (ds @ [c])) (UID ow) (GID ow) False)) u = (Inr (), u')" "upper_ok u'"
    "adds u u' (ds @ [c]) (\<lambda>n. \<not> mode_IsDir (n_mode n))"
proof -
  let ?n = "(blank_node (ModeSymlink OR 0x1FF) now)\<lparr>n_target := t\<rparr>"
  let ?own = "whenOwned i (\<lambda>ow. mem_Chown (render (ds @ [c])) (UID ow) (GID ow) False)"
  obtain r u1 where ins: "install (render (ds @ [c])) ?n u = (r, u1)" by (metis prod.collapse)
  note a = install_adds [OF u v d new symlink_node_ok _ ins]
  then have u1: "upper_ok u1" and ad: "adds u u1 (ds @ [c]) (\<lambda>n. \<not> mode_IsDir (n_mode n))"
    using link_node_facts by (auto simp: adds_def)
  then obtain x where x: "at u1 (ds @ [c]) = Some x" by (auto simp: adds_def)
  have sy: "mem_Symlink now t (render (ds @ [c])) u = (Inr (), u1)"
    using mem_Symlink_new [OF u v d new] ins by simp
  have "\<exists>u'. ?own u1 = (Inr (), u') \<and> adds u u' (ds @ [c]) (\<lambda>n. \<not> mode_IsDir (n_mode n))"
    using on_node_at [OF upper_okD(1) [OF u1] v x, of False] ad adds_update [OF ad x]
    by (auto simp: whenOwned_def OwnershipFromFileInfo_def mem_Chown_def done_ok_def)
  then obtain u' where own: "?own u1 = (Inr (), u')" "adds u u' (ds @ [c]) (\<lambda>n. \<not> mode_IsDir (n_mode n))" by blast
  have "keeps_upper ?own" by (intro upper_intros)
  from keeps_upperD [OF this u1 own(1)] sy own that show thesis by (simp add: andThen_def)
qed

section \<open>Copying up in the merged view\<close>

context lower_layer
begin

lemma vis_lowerD:
  assumes i: "inv fs" and v: "valid_comps cs" and m: "mphys fs cs" and s: "vis fs (render cs) = Inr (info, overlaySourceLower)"
  shows "at (o_upper fs) cs = None" "\<not> isHidden (render cs) fs" "fst (f_Lstat L (render cs) (o_world fs)) = Inr info"
proof -
  show n: "at (o_upper fs) cs = None"
    using vis_at [OF i v] s by (cases "at (o_upper fs) cs") auto
  from vis_missing [OF i v m n] s show "\<not> isHidden (render cs) fs" "fst (f_Lstat L (render cs) (o_world fs)) = Inr info"
    by (auto split: if_splits sum.splits)
qed

lemma vis_upperD:
  assumes i: "inv fs" and v: "valid_comps cs" and m: "mphys fs cs" and s: "vis fs (render cs) = Inr (info, overlaySourceUpper)"
  obtains r where "at (o_upper fs) cs = Some r" "info = newFileInfo (path_Base (render cs)) (fs_heap (o_upper fs) r)"
proof (cases "at (o_upper fs) cs")
  case None
  from vis_missing [OF i v m None] s show thesis by (auto split: if_splits sum.splits)
next
  case (Some r)
  from vis_at [OF i v Some] s that [OF Some] show thesis by simp
qed

lemma vis_source:
  assumes i: "inv fs" and v: "valid_comps cs" and m: "mphys fs cs" and s: "vis fs (render cs) = Inr (info, source)"
  shows "source = overlaySourceUpper \<or> source = overlaySourceLower"
  using vis_missing [OF i v m] vis_at [OF i v] s by (cases "at (o_upper fs) cs") (auto split: if_splits sum.splits)

lemma copyUp_step:
  assumes i: "inv fs" and v: "valid_comps (ds @ [c])" and d: "is_dir (o_upper fs) ds"
    and m: "mphys fs (ds @ [c])" and vd: "vis fs (render (ds @ [c])) = Inr (info, overlaySourceLower)" "dir_info info"
  obtains u' where "cloneDirNode now (render (ds @ [c])) info (o_upper fs) = (Inr (), u')"
    "inv (fs\<lparr>o_upper := u'\<rparr>)" "grown fs (fs\<lparr>o_upper := u'\<rparr>)" "is_dir u' (ds @ [c])"
    "\<forall>es. valid_comps es \<longrightarrow> es \<noteq> ds @ [c] \<longrightarrow> at u' es = at (o_upper fs) es"
proof -
  note l = vis_lowerD [OF i v m vd(1)]
  obtain u' where u': "cloneDirNode now (render (ds @ [c])) info (o_upper fs) = (Inr (), u')" "upper_ok u'"
    "adds (o_upper fs) u' (ds @ [c]) (\<lambda>n. copy_of info n \<and> n_lazy n = None)" "is_dir u' (ds @ [c])"
    by (rule cloneDirNode_adds [OF invD(3) [OF i] v d l(1) vd(2)])
  have "grown fs (fs\<lparr>o_upper := u'\<rparr>)"
    by (rule adds_grown [of fs u' "ds @ [c]" info]) (use u'(3) l invD(1) [OF i] in \<open>auto simp: adds_def\<close>)
  moreover have "at u' es = at (o_upper fs) es" if "valid_comps es" "es \<noteq> ds @ [c]" for es
    using u'(3) that by (simp add: adds_def)
  ultimately show thesis using that u' grown_inv_upper [OF i u'(2)] by blast
qed

lemma copyUp_loop_spec:
  assumes "inv fs" "valid_comps (ds @ cs)" "is_dir (o_upper fs) ds" "\<And>es. prefix es (ds @ cs) \<Longrightarrow> vis_dir fs es"
  shows "\<exists>fs'. copyUp_loop now cs (render ds) fs = (Inr (), fs') \<and> inv fs' \<and> grown fs fs' \<and> is_dir (o_upper fs') (ds @ cs) \<and>
     (\<forall>es. valid_comps es \<longrightarrow> \<not> prefix es (ds @ cs) \<longrightarrow> at (o_upper fs') es = at (o_upper fs) es)"
  using assms
proof (induction cs arbitrary: ds fs)
  case Nil
  then show ?case by (auto simp: grown_refl)
next
  case (Cons c cs)
  have v: "valid_comps (ds @ [c])" and v': "valid_comps ((ds @ [c]) @ cs)" using Cons.prems(2) by simp_all
  have vd: "vis_dir fs (ds @ [c])" using Cons.prems(4) by (simp add: prefix_def)
  then obtain info s where info: "vis fs (render (ds @ [c])) = Inr (info, s)" "dir_info info" by (auto simp: vis_dir_def)
  have m: "mphys fs (ds @ [c])"
    unfolding mphys_def
  proof (intro allI impI)
    fix es assume "strict_prefix es (ds @ [c])"
    then have "prefix es (ds @ [c])" by (rule prefix_order.less_imp_le)
    then have "prefix es (ds @ c # cs)" by (rule prefix_order.trans) simp
    then show "vis_dir fs es" by (rule Cons.prems(4))
  qed
  obtain k where k: "visiblePrefixInfo (render (ds @ [c])) fs = (Inr (info, s), recache fs k)" "inv (recache fs k)"
    using visiblePrefixInfo_pure [OF Cons.prems(1), of "render (ds @ [c])"] unfolding info(1) by blast
  note jc = joinChildPath_render [OF v]
  have rest: "\<exists>fs'. copyUp_loop now cs (render (ds @ [c])) fs1 = (Inr (), fs') \<and> inv fs' \<and> grown fs fs' \<and>
      is_dir (o_upper fs') (ds @ c # cs) \<and>
      (\<forall>es. valid_comps es \<longrightarrow> \<not> prefix es (ds @ c # cs) \<longrightarrow> at (o_upper fs') es = at (o_upper fs) es)"
    if i1: "inv fs1" and g1: "grown fs fs1" and d1: "is_dir (o_upper fs1) (ds @ [c])"
      and o1: "\<And>es. valid_comps es \<Longrightarrow> es \<noteq> ds @ [c] \<Longrightarrow> at (o_upper fs1) es = at (o_upper fs) es" for fs1
  proof -
    have "vis_dir fs1 es" if es: "prefix es (ds @ c # cs)" for es
    proof -
      have "valid_comps es" using valid_comps_prefix [OF Cons.prems(2) es] .
      moreover have "mphys fs es"
        unfolding mphys_def using Cons.prems(4) prefix_order.less_le_trans [OF _ es] prefix_order.less_imp_le by blast
      ultimately show ?thesis
        using grown_vis [OF Cons.prems(1) i1 g1] vis_like_dir Cons.prems(4) [OF es] by blast
    qed
    with Cons.IH [OF i1 v' d1] obtain fs' where fs': "copyUp_loop now cs (render (ds @ [c])) fs1 = (Inr (), fs')"
      "inv fs'" "grown fs1 fs'" "is_dir (o_upper fs') (ds @ c # cs)"
      "\<And>es. valid_comps es \<Longrightarrow> \<not> prefix es (ds @ c # cs) \<Longrightarrow> at (o_upper fs') es = at (o_upper fs1) es" by auto
    have "at (o_upper fs') es = at (o_upper fs) es" if es: "valid_comps es" "\<not> prefix es (ds @ c # cs)" for es
    proof -
      have "es \<noteq> ds @ [c]" using es(2) by auto
      with o1 [OF es(1)] fs'(5) [OF es] show ?thesis by simp
    qed
    with fs' grown_trans [OF g1 fs'(3)] show ?thesis by blast
  qed
  show ?case
  proof (cases "s = overlaySourceUpper")
    case True
    with vis_upperD [OF Cons.prems(1) v m] info obtain r where r: "at (o_upper fs) (ds @ [c]) = Some r"
      "info = newFileInfo (path_Base (render (ds @ [c]))) (fs_heap (o_upper fs) r)" by metis
    with info(2) have "is_dir (o_upper fs) (ds @ [c])"
      by (simp add: is_dir_def node_dir_def dir_info_def newFileInfo_def)
    with rest [OF k(2) grown_recache] True k show ?thesis by (simp add: jc)
  next
    case False
    with vis_source [OF Cons.prems(1) v m info(1)] have lo: "s = overlaySourceLower" by simp
    have l: "fst (f_Lstat L (render (ds @ [c])) (o_world fs)) = Inr info"
      using vis_lowerD [OF Cons.prems(1) v m] info(1) lo by simp
    have pre: "is_dir (o_upper (recache fs k)) ds" "mphys (recache fs k) (ds @ [c])"
      "vis (recache fs k) (render (ds @ [c])) = Inr (info, overlaySourceLower)"
      using Cons.prems(3) m info lo by (simp_all add: mphys_def vis_dir_def)
    obtain u' where u': "cloneDirNode now (render (ds @ [c])) info (o_upper (recache fs k)) = (Inr (), u')"
      "inv ((recache fs k)\<lparr>o_upper := u'\<rparr>)" "grown (recache fs k) ((recache fs k)\<lparr>o_upper := u'\<rparr>)" "is_dir u' (ds @ [c])"
      "\<forall>es. valid_comps es \<longrightarrow> es \<noteq> ds @ [c] \<longrightarrow> at u' es = at (o_upper (recache fs k)) es"
      by (rule copyUp_step [OF k(2) v pre info(2)])
    have "andThen (onLower (\<lambda>l. f_Lstat l (render (ds @ [c])))) (\<lambda>dirInfo.
        andThen (onUpper (cloneDirNode now (render (ds @ [c])) dirInfo)) (\<lambda>_.
          copyUp_loop now cs (render (ds @ [c])))) (recache fs k) =
        copyUp_loop now cs (render (ds @ [c])) ((recache fs k)\<lparr>o_upper := u'\<rparr>)"
      using l onLower_Lstat [OF k(2)] u'(1) by (simp add: andThen_def onUpper_def)
    with rest [OF u'(2) grown_trans [OF grown_recache u'(3)]] u'(4,5) k lo show ?thesis by (simp add: jc)
  qed
qed

lemma copyUpAncestors_spec:
  assumes i: "inv fs" and v: "valid_comps (ds @ [c])" and m: "mphys fs (ds @ [c])"
  obtains fs' where "copyUpAncestors now (render (ds @ [c])) fs = (Inr (), fs')" "inv fs'" "grown fs fs'"
    "is_dir (o_upper fs') ds" "at (o_upper fs') (ds @ [c]) = at (o_upper fs) (ds @ [c])"
proof -
  have pd: "parentDir (render (ds @ [c])) = render ds" using v by (rule parentDir_render)
  show thesis
  proof (cases "ds = []")
    case True
    with pd have "copyUpAncestors now (render (ds @ [c])) fs = (Inr (), fs)"
      by (simp add: copyUpAncestors_def done_ok_def)
    with that i grown_refl wf_root [OF upper_okD(1) [OF invD(3) [OF i]]] True show thesis by blast
  next
    case False
    have "vis_dir fs es" if "prefix es ([] @ ds)" for es
    proof -
      have "strict_prefix es (ds @ [c])"
        using that prefix_order.le_less_trans [of es ds "ds @ [c]"] by (simp add: strict_prefix_def)
      with m show ?thesis by (simp add: mphys_def del: mphys_snoc)
    qed
    with copyUp_loop_spec [OF i, of "[]" ds now] v wf_root [OF upper_okD(1) [OF invD(3) [OF i]]]
    obtain fs' where "copyUp_loop now ds ''/'' fs = (Inr (), fs')" "inv fs'" "grown fs fs'" "is_dir (o_upper fs') ds"
      "\<And>es. valid_comps es \<Longrightarrow> \<not> prefix es ds \<Longrightarrow> at (o_upper fs') es = at (o_upper fs) es"
      by auto
    moreover from this(5) [of "ds @ [c]"] v have "at (o_upper fs') (ds @ [c]) = at (o_upper fs) (ds @ [c])"
      by (simp add: prefix_def)
    ultimately show thesis using that pd False v by (simp add: copyUpAncestors_def split_path_render)
  qed
qed

text \<open>
  Copying a single lower entry to a new name: either reading a link fails and nothing
  changes, or the upper layer gains one node. The walk of \<open>clonePathWithInfo\<close> makes one
  step.
\<close>

lemma clonePath_entry:
  assumes i: "inv fs" and v: "valid_comps (ds @ [c])" and d: "is_dir (o_upper fs) ds"
    and new: "at (o_upper fs) (ds @ [c]) = None" and nr: "\<not> mode_IsRegular (fi_mode info)" "\<not> mode_IsDir (fi_mode info)"
  shows "(\<exists>e. clonePathWithInfo 1 now L src (Some info) (render (ds @ [c])) (o_world fs, o_upper fs) =
        Some (Inl e, (o_world fs, o_upper fs))) \<or>
     (\<exists>u'. clonePathWithInfo 1 now L src (Some info) (render (ds @ [c])) (o_world fs, o_upper fs) =
        Some (Inr (), (o_world fs, u')) \<and> upper_ok u' \<and>
        adds (o_upper fs) u' (ds @ [c]) (\<lambda>n. \<not> mode_IsDir (n_mode n)))"
proof -
  note u = invD(3) [OF i]
  have cl: "Clean (render (ds @ [c])) = render (ds @ [c])" using v by simp
  have gi: "onFst (given_info L src (Some info)) (o_world fs, o_upper fs) = (Inr info, (o_world fs, o_upper fs))"
    by (simp add: onFst_def given_info_def)
  show ?thesis
  proof (cases "fi_mode info AND ModeSymlink = 0")
    case True
    obtain u' where "cloneSpecialFile now (render (ds @ [c])) info (o_upper fs) = (Inr (), u')" "upper_ok u'"
      "adds (o_upper fs) u' (ds @ [c]) (\<lambda>n. \<not> mode_IsDir (n_mode n))"
      by (rule cloneSpecialFile_adds [OF u v d new])
    with True nr cl gi show ?thesis
      by (simp add: thenProc_def Let_def returns_def onSnd_def mode_IsRegular_def)
  next
    case False
    obtain t w where rl: "f_Readlink L src (o_world fs) = (t, w)" by (metis prod.collapse)
    with readlink_keeps [OF invD(2) [OF i], of src] have w: "w = o_world fs" by simp
    show ?thesis
    proof (cases t)
      case (Inl e)
      with False rl w cl gi show ?thesis
        by (simp add: thenProc_def Let_def returns_def andThen_def onFst_def)
    next
      case (Inr target)
      obtain u' where "andThen (mem_Symlink now target (render (ds @ [c])))
          (\<lambda>_. whenOwned info (\<lambda>ow. mem_Chown (render (ds @ [c])) (UID ow) (GID ow) False)) (o_upper fs) = (Inr (), u')"
        "upper_ok u'" "adds (o_upper fs) u' (ds @ [c]) (\<lambda>n. \<not> mode_IsDir (n_mode n))"
        by (rule clone_link_adds [OF u v d new])
      with False rl w Inr cl gi show ?thesis
        by (auto simp: thenProc_def Let_def returns_def andThen_def onFst_def onSnd_def split: prod.splits sum.splits)
    qed
  qed
qed

lemma copyUpLowerEntry_spec:
  assumes i: "inv fs" and v: "valid_comps (ds @ [c])" and d: "is_dir (o_upper fs) ds"
    and new: "at (o_upper fs) (ds @ [c]) = None" and nd: "\<not> mode_IsDir (fi_mode info)"
    and eq: "copyUpLowerEntry now src info (render (ds @ [c])) fs = (res, fs')"
  shows "fs' = fs \<and> res \<noteq> Inr () \<or>
     (\<exists>u'. res = Inr () \<and> fs' = fs\<lparr>o_upper := u'\<rparr> \<and> upper_ok u' \<and>
        adds (o_upper fs) u' (ds @ [c]) (\<lambda>n. \<not> mode_IsDir (n_mode n)))"
proof (cases "mode_IsRegular (fi_mode info)")
  case True
  obtain u' where u': "cloneLazyFile now (render (ds @ [c])) info (o_content fs src) (o_upper fs) = (Inr (), u')" "upper_ok u'"
    "adds (o_upper fs) u' (ds @ [c]) (\<lambda>n. copy_of info n \<and> n_lazy n = Some (o_content fs src))"
    by (rule cloneLazyFile_adds [OF invD(3) [OF i] v d new True])
  have "adds (o_upper fs) u' (ds @ [c]) (\<lambda>n. \<not> mode_IsDir (n_mode n))"
    using u'(3) nd by (auto simp: adds_def copy_of_def same_meta_def newFileInfo_def)
  with eq True u' v show ?thesis by (auto simp: copyUpLowerEntry_def onUpper_def)
next
  case False
  from clonePath_entry [OF i v d new False nd, of now src] eq False invD(1) [OF i] show ?thesis
    by (auto simp: copyUpLowerEntry_def simp del: One_nat_def)
qed

lemma keeps_onUpper: "inv fs \<Longrightarrow> keeps_upper c \<Longrightarrow> onUpper c fs = (r, fs') \<Longrightarrow> inv fs'"
  by (auto simp: onUpper_def split: prod.splits intro!: grown_inv_upper dest: invD(3) keeps_upperD)

lemma copyUpNode_inv:
  assumes i: "inv fs" and v: "valid_comps cs" and m: "mphys fs cs"
    and s: "vis fs (render cs) = Inr (info, overlaySourceLower)"
    and eq: "copyUpNode now (render cs) info fs = (res, fs')"
  shows "inv fs'"
proof -
  note l = vis_lowerD [OF i v m s]
  have "cs \<noteq> []" using l(1) wf_root [OF upper_okD(1) [OF invD(3) [OF i]]] by (auto simp: is_dir_def)
  then obtain ds c where cs: "cs = ds @ [c]" by (metis rev_exhaust)
  obtain fs1 where c1: "copyUpAncestors now (render (ds @ [c])) fs = (Inr (), fs1)" "inv fs1" "grown fs fs1"
    "is_dir (o_upper fs1) ds" "at (o_upper fs1) (ds @ [c]) = at (o_upper fs) (ds @ [c])"
    by (rule copyUpAncestors_spec [OF i, of ds c now]) (use v m cs in simp_all)
  show ?thesis
  proof (cases "mode_IsDir (fi_mode info)")
    case True
    then have "onUpper (cloneDirNode now (render cs) info) fs1 = (res, fs')"
      using eq c1(1) cs by (simp add: copyUpNode_def andThen_def)
    with keeps_onUpper [OF c1(2) keeps_cloneDirNode] show ?thesis by blast
  next
    case False
    then have "copyUpLowerEntry now (render cs) info (render (ds @ [c])) fs1 = (res, fs')"
      using eq c1(1) cs by (simp add: copyUpNode_def andThen_def)
    from copyUpLowerEntry_spec [OF c1(2) _ c1(4) _ False this] c1(2,5) l(1) cs v grown_inv_upper show ?thesis by auto
  qed
qed

text \<open>A regular file or a directory is copied up without a trace in the merged view.\<close>

lemma copyUpNode_grown:
  assumes i: "inv fs" and v: "valid_comps cs" and m: "mphys fs cs"
    and s: "vis fs (render cs) = Inr (info, overlaySourceLower)" and kind: "mode_IsRegular (fi_mode info) \<or> dir_info info"
  obtains fs' r where "copyUpNode now (render cs) info fs = (Inr (), fs')" "inv fs'" "grown fs fs'"
    "at (o_upper fs') cs = Some r" "copy_of info (fs_heap (o_upper fs') r)"
    "mode_IsRegular (fi_mode info) \<Longrightarrow> n_lazy (fs_heap (o_upper fs') r) = Some (o_content fs (render cs))"
proof -
  note l = vis_lowerD [OF i v m s]
  have "cs \<noteq> []" using l(1) wf_root [OF upper_okD(1) [OF invD(3) [OF i]]] by (auto simp: is_dir_def)
  then obtain ds c where cs: "cs = ds @ [c]" by (metis rev_exhaust)
  obtain fs1 where c1: "copyUpAncestors now (render (ds @ [c])) fs = (Inr (), fs1)" "inv fs1" "grown fs fs1"
    "is_dir (o_upper fs1) ds" "at (o_upper fs1) (ds @ [c]) = at (o_upper fs) (ds @ [c])"
    by (rule copyUpAncestors_spec [OF i, of ds c now]) (use v m cs in simp_all)
  have new: "at (o_upper fs1) (ds @ [c]) = None" using c1(5) l(1) cs by simp
  have v': "valid_comps (ds @ [c])" using v cs by simp
  note g = grown_sameD [OF c1(3)]
  have l1: "\<not> isHidden (render (ds @ [c])) fs1" "fst (f_Lstat (o_lower fs1) (render (ds @ [c])) (o_world fs1)) = Inr info"
    using l(2,3) cs g invD(1) [OF i] by simp_all
  show thesis
  proof (cases "mode_IsRegular (fi_mode info)")
    case True
    obtain u' where u': "cloneLazyFile now (render (ds @ [c])) info (o_content fs1 (render cs)) (o_upper fs1) = (Inr (), u')" "upper_ok u'"
      "adds (o_upper fs1) u' (ds @ [c]) (\<lambda>n. copy_of info n \<and> n_lazy n = Some (o_content fs1 (render cs)))"
      by (rule cloneLazyFile_adds [OF invD(3) [OF c1(2)] v' c1(4) new True])
    then obtain r where r: "at u' (ds @ [c]) = Some r" "copy_of info (fs_heap u' r)"
      "n_lazy (fs_heap u' r) = Some (o_content fs (render cs))" using g by (auto simp: adds_def)
    have "grown fs1 (fs1\<lparr>o_upper := u'\<rparr>)"
      by (rule adds_grown [of fs1 u' "ds @ [c]" info]) (use u'(3) l1 new cs in \<open>auto simp: adds_def\<close>)
    moreover have "copyUpNode now (render cs) info fs = (Inr (), fs1\<lparr>o_upper := u'\<rparr>)"
      using c1(1) u'(1) True regular_bits [OF True] cs v'
      by (simp add: copyUpNode_def andThen_def copyUpLowerEntry_def onUpper_def)
    ultimately show thesis
      using that [of "fs1\<lparr>o_upper := u'\<rparr>" r] grown_inv_upper [OF c1(2) u'(2)] grown_trans [OF c1(3)] r cs by simp
  next
    case False
    with kind have d: "dir_info info" by simp
    obtain u' where u': "cloneDirNode now (render (ds @ [c])) info (o_upper fs1) = (Inr (), u')" "upper_ok u'"
      "adds (o_upper fs1) u' (ds @ [c]) (\<lambda>n. copy_of info n \<and> n_lazy n = None)" "is_dir u' (ds @ [c])"
      by (rule cloneDirNode_adds [OF invD(3) [OF c1(2)] v' c1(4) new d])
    then obtain r where r: "at u' (ds @ [c]) = Some r" "copy_of info (fs_heap u' r)" by (auto simp: adds_def)
    have "grown fs1 (fs1\<lparr>o_upper := u'\<rparr>)"
      by (rule adds_grown [of fs1 u' "ds @ [c]" info]) (use u'(3) l1 new in \<open>auto simp: adds_def\<close>)
    moreover have "copyUpNode now (render cs) info fs = (Inr (), fs1\<lparr>o_upper := u'\<rparr>)"
      using c1(1) u'(1) d cs by (simp add: copyUpNode_def andThen_def onUpper_def dir_info_def)
    ultimately show thesis
      using that [of "fs1\<lparr>o_upper := u'\<rparr>" r] grown_inv_upper [OF c1(2) u'(2)] grown_trans [OF c1(3)] r cs False by simp
  qed
qed

end

end
