(* ===== verification/Overlay_Ops.thy ===== *)
theory Overlay_Ops
  imports Overlay_CopyUp
begin

text \<open>Every operation of the overlay keeps its invariant.\<close>

lemma maybe_pure: "c w = (x, w) \<Longrightarrow> snd (maybe c w) = w"
  by (cases x) (auto simp: maybe_def)

context lower_layer
begin

definition keeps :: "(('w, 'h) OverlayFS, 'a) act \<Rightarrow> bool" where
  "keeps c \<longleftrightarrow> (\<forall>fs r fs'. inv fs \<longrightarrow> c fs = (r, fs') \<longrightarrow> inv fs')"

lemma keepsI: "(\<And>fs r fs'. inv fs \<Longrightarrow> c fs = (r, fs') \<Longrightarrow> inv fs') \<Longrightarrow> keeps c"
  by (auto simp: keeps_def)

lemma keepsD: "keeps c \<Longrightarrow> inv fs \<Longrightarrow> c fs = (r, fs') \<Longrightarrow> inv fs'"
  by (auto simp: keeps_def)

lemma keeps_basic: "keeps (fails e)" "keeps (gives x)" "keeps done_ok"
  by (auto simp: keeps_def fails_def gives_def done_ok_def)

lemma keeps_andThen: "keeps c \<Longrightarrow> (\<And>a. keeps (k a)) \<Longrightarrow> keeps (andThen c k)"
  by (rule keepsI, erule andThenE) (auto dest: keepsD)

lemma keeps_mapError: "keeps c \<Longrightarrow> keeps (mapError f c)"
  by (rule keepsI, erule mapErrorE) (auto dest: keepsD)

lemma keeps_upper_call: "keeps_upper c \<Longrightarrow> keeps (onUpper c)"
  by (rule keepsI) (rule keeps_onUpper)

lemma keeps_lower_pure: "(\<And>w. ok w \<Longrightarrow> snd (c L w) = w) \<Longrightarrow> keeps (onLower c)"
  by (rule keepsI) (simp add: onLower_pure invD)

lemma keeps_lower_lookups:
  "keeps (onLower (\<lambda>l. maybe (f_Lstat l p)))" "keeps (onLower (\<lambda>l. f_ReadDir l p))" "keeps (onLower (\<lambda>l. f_Readlink l p))"
proof -
  show "keeps (onLower (\<lambda>l. maybe (f_Lstat l p)))"
    by (rule keeps_lower_pure) (metis lstat_keeps maybe_pure prod.collapse)
qed (simp_all add: keeps_lower_pure readdir_keeps readlink_keeps)

lemma keeps_resolve: "keeps (resolveMerged p ff)" "keeps (resolveMergedPath p ff mi)"
proof -
  show "keeps (resolveMerged p ff)"
    by (rule keepsI) (metis resolveMerged_pure prod.inject)
  show "keeps (resolveMergedPath p ff mi)"
    by (rule keepsI) (metis resolve_pure resolveMergedPath_def prod.inject)
qed

lemma keeps_readlinkAt: "keeps (readlinkAt s p)"
  by (rule keepsI) (simp add: readlinkAt_pure)

lemma keeps_lower_open:
  assumes "\<not> hasWriteIntent flag" shows "keeps (onLower (\<lambda>l. f_OpenFile l p flag perm))"
proof (rule keepsI)
  fix fs r fs'
  assume i: "inv fs" and eq: "onLower (\<lambda>l. f_OpenFile l p flag perm) fs = (r, fs')"
  obtain w where w: "f_OpenFile L p flag perm (o_world fs) = (r, w)" "fs' = fs\<lparr>o_world := w\<rparr>"
    using eq invD(1) [OF i] by (auto simp: onLower_def split: prod.splits)
  from open_keeps [OF invD(2) [OF i] assms w(1)] i w(2) show "inv fs'" by (auto simp: inv_def cache_ok_def)
qed

lemmas keeps_intros = keeps_basic keeps_andThen keeps_mapError keeps_upper_call keeps_lower_lookups keeps_resolve
  keeps_readlinkAt keeps_lower_open upper_intros

section \<open>Lookups\<close>

lemma keeps_ov_lookups: "keeps (ov_Stat name)" "keeps (ov_Lstat name)" "keeps (ov_Readlink name)" "keeps (ov_Realpath name)"
proof -
  have "keeps (andThen (mapError f (resolveMerged p ff)) (\<lambda>(_, info, _). gives info))" for f p ff
    by (intro keeps_intros) (auto intro: keeps_intros)
  then show "keeps (ov_Stat name)" "keeps (ov_Lstat name)"
    unfolding ov_Stat_def ov_Lstat_def by (auto intro!: keepsI dest: keepsD)
  have "keeps (andThen (mapError f (resolveMerged p ff)) (\<lambda>(q, _, _). gives q))" for f p ff
    by (intro keeps_intros) (auto intro: keeps_intros)
  then show "keeps (ov_Realpath name)"
    unfolding ov_Realpath_def Let_def by (auto intro!: keepsI dest: keepsD)
  have "keeps (mapError f (andThen (resolveMerged p ff) (\<lambda>(q, _, s). readlinkAt s q)))" for f p ff
    by (intro keeps_intros) (auto intro: keeps_intros)
  then show "keeps (ov_Readlink name)"
    unfolding ov_Readlink_def Let_def by (auto intro!: keepsI dest: keepsD)
qed

lemma keeps_ReadDir_tail:
  "keeps (\<lambda>fs2. andThen (if b \<and> \<not> isExactTombstone p fs2 then onLower (\<lambda>l. f_ReadDir l p) else gives [])
     (\<lambda>lowers fs3. (Inr (merge_entries p uppers lowers fs3), fs3)) fs2)"
proof (rule keepsI)
  fix fs r fs'
  assume i: "inv fs" and "andThen (if b \<and> \<not> isExactTombstone p fs then onLower (\<lambda>l. f_ReadDir l p) else gives [])
     (\<lambda>lowers fs3. (Inr (merge_entries p uppers lowers fs3), fs3)) fs = (r, fs')"
  moreover have "keeps (if x then onLower (\<lambda>l. f_ReadDir l p) else gives [])" for x
    by (cases x) (auto intro: keeps_intros)
  ultimately show "inv fs'" by (elim andThenE) (auto dest: keepsD)
qed

lemma keeps_readDir_lower: "keeps (readDir_lower p upperInfo)"
  unfolding readDir_lower_def
  by (intro keeps_andThen keeps_mapError keeps_lower_lookups)
    (auto intro!: keeps_andThen keeps_ReadDir_tail keeps_ReadDir_tail [of True, simplified] keeps_basic
      keeps_upper_call upper_intros)

lemma keeps_readDir_at: "keeps (readDir_at p)"
proof -
  have guard: "keeps (\<lambda>fs1. if b1 then (Inl e1, fs1) else if b2 \<and> isHidden p fs1 then (Inl e2, fs1) else readDir_lower p x fs1)"
    for b1 b2 e1 e2 x
    by (rule keepsI) (auto dest: keepsD [OF keeps_readDir_lower] split: if_splits)
  show ?thesis unfolding readDir_at_def by (intro keeps_andThen keeps_mapError keeps_upper_call upper_intros guard)
qed

lemma keeps_ReadDir: "keeps (ov_ReadDir name)"
proof -
  have "keeps (andThen (mapError f (resolveMerged p True)) (\<lambda>(p, _, _). readDir_at p))" for f p
    by (intro keeps_andThen keeps_mapError keeps_resolve) (auto intro: keeps_readDir_at)
  then show ?thesis unfolding ov_ReadDir_def Let_def by (auto intro!: keepsI dest: keepsD)
qed

section \<open>Changes\<close>

lemma keeps_openUpper: "keeps (openUpper now flag perm p)"
  unfolding openUpper_def by (intro keeps_intros)

lemma keeps_cleared: "inv fs \<Longrightarrow> inv (clearTombstonesUnder p fs)"
  by (simp add: inv_def cache_ok_def clearTombstonesUnder_def)

lemma inv_tombstone: "inv fs \<Longrightarrow> inv (addTombstone p fs)"
  by (simp add: inv_def cache_ok_def addTombstone_def)

lemma vis_dir_recache [simp]: "vis_dir (recache fs c) cs = vis_dir fs cs"
  by (simp add: vis_dir_def)

lemma mphys_recache [simp]: "mphys (recache fs c) cs = mphys fs cs"
  by (simp add: mphys_def)

lemma copyUpAncestors_inv:
  assumes "inv fs" "valid_comps cs" "cs \<noteq> []" "mphys fs cs" "copyUpAncestors now (render cs) fs = (r, fs')"
  shows "inv fs'" "grown fs fs'" "r = Inr ()"
proof -
  obtain ds c where cs: "cs = ds @ [c]" using assms(3) by (metis rev_exhaust)
  obtain fs1 where "copyUpAncestors now (render (ds @ [c])) fs = (Inr (), fs1)" "inv fs1" "grown fs fs1"
    "is_dir (o_upper fs1) ds" "at (o_upper fs1) (ds @ [c]) = at (o_upper fs) (ds @ [c])"
    by (rule copyUpAncestors_spec [OF assms(1), of ds c now]) (use assms cs in simp_all)
  with assms(5) cs show "inv fs'" "grown fs fs'" "r = Inr ()" by simp_all
qed

lemma open_resolved_inv:
  assumes i: "inv fs" and v: "valid_comps cs" and m: "mphys fs cs"
    and n: "info = None \<Longrightarrow> cs \<noteq> []" and s: "\<And>i. info = Some i \<Longrightarrow> vis fs (render cs) = Inr (i, source)"
    and eq: "open_resolved now p flag perm (render cs, info, source) fs = (r, fs')"
  shows "inv fs'"
proof (cases info)
  case None
  have "inv fs1" if "mapError f (copyUpAncestors now (render cs)) fs = (x, fs1)" for f x fs1
    using that copyUpAncestors_inv(1) [OF i v n [OF None] m] by (blast elim: mapErrorE)
  with eq None i show ?thesis
    by (auto simp: open_resolved_def fails_def elim!: andThenE split: if_splits
        intro: keepsD [OF keeps_openUpper])
next
  case (Some j)
  have "inv fs1" if "mapError f (copyUpNode now (render cs) j) fs = (x, fs1)" "source = overlaySourceLower" for f x fs1
    using that copyUpNode_inv [OF i v m, of j now] s [OF Some] by (auto elim: mapErrorE)
  with eq Some i show ?thesis
    by (auto simp: open_resolved_def fails_def elim!: andThenE split: if_splits
        intro: keepsD [OF keeps_openUpper])
qed

lemma keeps_OpenFile: "keeps (ov_OpenFile now name flag perm)"
proof (rule keepsI)
  fix fs r fs'
  assume i: "inv fs" and eq: "ov_OpenFile now name flag perm fs = (r, fs')"
  show "inv fs'"
  proof (cases "hasWriteIntent flag")
    case False
    have "keeps (andThen (mapError f (resolveMerged p True)) (\<lambda>(resolved, info, source).
        if source = overlaySourceUpper then openUpper now flag perm resolved
        else andThen (onLower (\<lambda>l. f_OpenFile l resolved flag perm)) (\<lambda>h. gives (LowerFile h))))" for f p
      by (intro keeps_andThen keeps_mapError keeps_resolve)
        (auto intro!: keeps_andThen keeps_basic keeps_openUpper keeps_lower_open False)
    with eq False i show ?thesis by (auto simp: ov_OpenFile_def Let_def dest: keepsD)
  next
    case True
    with eq have "andThen (mapError (\<lambda>e. toPathError ''open'' (o_resolve name fs)
          (if flag AND O_CREATE \<noteq> 0 then createParentError e else e))
        (resolveMergedPath (o_resolve name fs) (flag AND (O_CREATE OR O_EXCL) \<noteq> O_CREATE OR O_EXCL)
           (if flag AND O_CREATE \<noteq> 0 then overlayMissingFinal else overlayMissingNone)))
        (open_resolved now (o_resolve name fs) flag perm) fs = (r, fs')"
      by (simp add: ov_OpenFile_def Let_def)
    then show ?thesis
    proof (rule andThenE)
      fix a fs1
      assume res: "mapError (\<lambda>e. toPathError ''open'' (o_resolve name fs)
            (if flag AND O_CREATE \<noteq> 0 then createParentError e else e))
          (resolveMergedPath (o_resolve name fs) (flag AND (O_CREATE OR O_EXCL) \<noteq> O_CREATE OR O_EXCL)
             (if flag AND O_CREATE \<noteq> 0 then overlayMissingFinal else overlayMissingNone)) fs = (Inr a, fs1)"
        and run: "open_resolved now (o_resolve name fs) flag perm a fs1 = (r, fs')"
      obtain q info s where a: "a = (q, info, s)" by (metis prod.collapse)
      from res a have "resolveMergedPath (o_resolve name fs) (flag AND (O_CREATE OR O_EXCL) \<noteq> O_CREATE OR O_EXCL)
             (if flag AND O_CREATE \<noteq> 0 then overlayMissingFinal else overlayMissingNone) fs = (Inr (q, info, s), fs1)"
        by (auto elim: mapErrorE)
      from resolveMergedPath_result [OF i this] obtain cs c where cs: "fs1 = recache fs c" "inv fs1" "valid_comps cs"
        "q = render cs" "mphys fs cs" "info = None \<longrightarrow> cs \<noteq> []" "\<forall>i. info = Some i \<longrightarrow> vis fs (render cs) = Inr (i, s)"
        by metis
      from run a cs(4) have "open_resolved now (o_resolve name fs) flag perm (render cs, info, s) fs1 = (r, fs')" by simp
      from open_resolved_inv [OF cs(2,3) _ _ _ this] cs(1,5-7) show ?thesis by simp
    qed (use i keepsD [OF keeps_mapError [OF keeps_resolve(2)]] in blast)
  qed
qed


lemma resolveMerged_inv:
  assumes i: "inv fs" and eq: "mapError f (resolveMerged p ff) fs = (Inr (q, info, source), fs1)"
  obtains cs where "inv fs1" "valid_comps cs" "q = render cs" "mphys fs1 cs" "vis fs1 (render cs) = Inr (info, source)"
    "ff \<longrightarrow> fi_mode info AND ModeSymlink = 0" "mphys fs cs" "vis fs (render cs) = Inr (info, source)"
    "o_cwd fs1 = o_cwd fs" "\<exists>c. fs1 = recache fs c"
proof -
  from eq have "resolveMerged p ff fs = (Inr (q, info, source), fs1)" by (auto elim: mapErrorE)
  then obtain cs c where "fs1 = recache fs c" "inv (recache fs c)" "valid_comps cs"
    "q = render cs" "mphys fs cs" "vis fs (render cs) = Inr (info, source)" "ff \<longrightarrow> fi_mode info AND ModeSymlink = 0"
    by (rule resolveMerged_result [OF i])
  then show thesis by (intro that [of cs]) (simp_all, blast)
qed

lemma resolveMergedPath_inv:
  assumes i: "inv fs" and eq: "mapError f (resolveMergedPath p ff overlayMissingFinal) fs = (Inr (q, info, source), fs1)"
  obtains cs where "inv fs1" "valid_comps cs" "q = render cs" "mphys fs1 cs"
    "info = None \<longrightarrow> cs \<noteq> [] \<and> (\<exists>e. vis fs1 (render cs) = Inl e \<and> errors_Is e ErrNotExist)"
    "\<exists>c. fs1 = recache fs c"
proof -
  from eq have "resolveMergedPath p ff overlayMissingFinal fs = (Inr (q, info, source), fs1)" by (auto elim: mapErrorE)
  then obtain cs c where "fs1 = recache fs c" "inv (recache fs c)" "valid_comps cs" "q = render cs" "mphys fs cs"
    "info = None \<longrightarrow> overlayMissingFinal = overlayMissingFinal \<and> cs \<noteq> [] \<and>
       (\<exists>e. vis fs (render cs) = Inl e \<and> errors_Is e ErrNotExist)"
    "\<forall>i. info = Some i \<longrightarrow> vis fs (render cs) = Inr (i, source) \<and> (ff \<longrightarrow> fi_mode i AND ModeSymlink = 0)"
    by (rule resolveMergedPath_result [OF i])
  then show thesis by (intro that [of cs]) (simp_all, blast)
qed

lemma keeps_change:
  assumes "\<And>p. keeps_upper (change p)"
  shows "keeps (ov_change now op follow change name)"
proof (rule keepsI)
  fix fs r fs'
  assume i: "inv fs" and eq: "ov_change now op follow change name fs = (r, fs')"
  have tail: "keeps (\<lambda>fs. mapError f (onUpper (change p)) fs)" for f p
    using assms by (intro keeps_mapError keeps_upper_call)
  from eq show "inv fs'"
    unfolding ov_change_def Let_def
  proof (cases rule: andThenE)
    case err
    then show ?thesis using i keepsD [OF keeps_mapError [OF keeps_resolve(1)]] by blast
  next
    case (ok a fs1)
    obtain q info source where a: "a = (q, info, source)" by (metis prod.collapse)
    obtain cs where cs: "inv fs1" "valid_comps cs" "q = render cs" "mphys fs1 cs" "vis fs1 (render cs) = Inr (info, source)"
      by (rule resolveMerged_inv [OF i ok(1) [unfolded a]])
    have "inv fs2" if "(if source = overlaySourceLower then mapError (toPathError op q) (copyUpNode now q info) else done_ok) fs1 = (x, fs2)"
      for x fs2
      using that cs copyUpNode_inv [OF cs(1,2,4), of info now]
      by (auto simp: done_ok_def elim!: mapErrorE split: if_splits)
    with ok(2) a show ?thesis by (auto elim!: andThenE dest: keepsD [OF tail])
  qed
qed

lemma keeps_create:
  assumes "\<And>p. keeps_upper (mk p)"
  shows "keeps (ov_create now op mk name)"
proof (rule keepsI)
  fix fs r fs'
  assume i: "inv fs" and eq: "ov_create now op mk name fs = (r, fs')"
  from eq show "inv fs'"
    unfolding ov_create_def Let_def
  proof (cases rule: andThenE)
    case err
    then show ?thesis using i keepsD [OF keeps_mapError [OF keeps_resolve(2)]] by blast
  next
    case (ok a fs1)
    obtain q info source where a: "a = (q, info, source)" by (metis prod.collapse)
    obtain cs where cs: "inv fs1" "valid_comps cs" "q = render cs" "mphys fs1 cs"
      "info = None \<longrightarrow> cs \<noteq> [] \<and> (\<exists>e. vis fs1 (render cs) = Inl e \<and> errors_Is e ErrNotExist)"
      by (rule resolveMergedPath_inv [OF i ok(1) [unfolded a]])
    have 1: "inv fs2" if "info = None" "mapError f (copyUpAncestors now q) fs1 = (x, fs2)" for f x fs2
      using that cs copyUpAncestors_inv(1) [OF cs(1,2) _ cs(4)] by (auto elim!: mapErrorE)
    have 2: "keeps (mapError f (onUpper (mk p)))" for f p using assms by (intro keeps_mapError keeps_upper_call)
    from ok(2) a cs(1) show ?thesis
      by (auto simp: fails_def elim!: andThenE dest: keepsD [OF 2] 1 intro: keeps_cleared split: if_splits)
        (meson 1 2 keepsD keeps_cleared)+
  qed
qed

lemma keeps_ov_changes:
  "keeps (ov_Chmod now name mode)" "keeps (ov_Chown now name uid gid follow)"
  "keeps (ov_Chtimes now name ta tm)" "keeps (ov_Lchtimes now name ta tm)"
  "keeps (ov_Symlink now t name)" "keeps (ov_Mkfifo now name perm)"
  unfolding ov_Chmod_def ov_Chown_def ov_Chtimes_def ov_Lchtimes_def ov_Symlink_def ov_Mkfifo_def
  by (auto intro!: keeps_change keeps_create upper_intros)

lemma keeps_Remove: "keeps (ov_Remove name recursive)"
proof -
  have guard: "keeps (if b then andThen (ov_ReadDir p) (\<lambda>entries. if entries \<noteq> [] then fails e else done_ok) else done_ok)"
    for b p e by (auto intro!: keeps_andThen keeps_ReadDir keeps_basic)
  have up: "keeps (if b then mapError f (onUpper (maybe (mem_Remove p recursive))) else gives None)" for b f p
    by (auto intro!: keeps_mapError keeps_upper_call upper_intros keeps_basic)
  have tomb: "keeps (\<lambda>fs1. (Inr (), if b then addTombstone p fs1 else fs1))" for b p
    by (rule keepsI) (auto intro: inv_tombstone)
  have "keeps (remove_resolved requested recursive a)" for requested a
    by (cases a) (auto simp: remove_resolved_def intro!: keeps_andThen keeps_mapError keeps_lower_lookups keeps_basic
        guard up tomb keeps_upper_call upper_intros keeps_ReadDir)
  then have all: "keeps (andThen (mapError f (resolveMerged q False)) (remove_resolved requested recursive))" for f q requested
    by (intro keeps_andThen keeps_mapError keeps_resolve)
  show ?thesis unfolding ov_Remove_def Let_def by (auto intro!: keepsI dest: keepsD [OF all] split: if_splits)
qed

lemma keeps_Chdir: "keeps (ov_Chdir name)"
proof (rule keepsI)
  fix fs r fs'
  assume i: "inv fs" and eq: "ov_Chdir name fs = (r, fs')"
  from eq show "inv fs'"
    unfolding ov_Chdir_def Let_def
  proof (cases rule: andThenE)
    case err
    then show ?thesis using i keepsD [OF keeps_mapError [OF keeps_resolve(1)]] by blast
  next
    case (ok a fs1)
    then have "inv fs1" using i keepsD [OF keeps_mapError [OF keeps_resolve(1)]] by blast
    moreover have "clean_path (o_resolve name fs)" by (simp add: o_resolve_def)
    ultimately show ?thesis using ok(2) by (auto simp: inv_def cache_ok_def split: prod.splits if_splits)
  qed
qed


section \<open>Links\<close>

lemma upper_maybe_Lstat:
  assumes i: "inv fs" and v: "valid_comps cs" and m: "mphys fs cs" and eq: "onUpper (maybe (mem_Lstat (render cs))) fs = (r, fs')"
  shows "fs' = fs" "r = Inr None \<Longrightarrow> at (o_upper fs) cs = None"
proof -
  from onUpper_Lstat [OF i, of "render cs"] obtain x where x: "mem_Lstat (render cs) (o_upper fs) = (x, o_upper fs)"
    by (auto simp: onUpper_def split: prod.splits) (metis OverlayFS.ext_inject OverlayFS.surjective OverlayFS.update_convs(4))
  with eq show "fs' = fs" by (auto simp: onUpper_def maybe_def split: sum.splits if_splits)
  show "at (o_upper fs) cs = None" if "r = Inr None"
    using that eq x upper_Lstat_at [of "o_upper fs" cs] invD(3) [OF i] v
    by (cases "at (o_upper fs) cs") (auto simp: onUpper_def maybe_def split: sum.splits if_splits)
qed

lemma link_source_inv:
  assumes i: "inv fs" "inv fs1" and g: "grown fs fs1" and v: "valid_comps cs" and m: "mphys fs cs"
    and s: "vis fs (render cs) = Inr (info, source)" and eq: "link_source now (render cs) info source fs1 = (r, fs')"
  shows "inv fs'"
proof (cases source)
  case overlaySourceLower
  have m1: "mphys fs1 cs" using grown_vis [OF i g v m] by simp
  note l = vis_lowerD [OF i(1) v m s [unfolded overlaySourceLower]]
  have copy: "inv fs2" if "at (o_upper fs1) cs = None" "copyUpNode now (render cs) info fs1 = (x, fs2)" for x fs2
  proof (rule copyUpNode_inv [OF i(2) v m1 _ that(2)])
    show "vis fs1 (render cs) = Inr (info, overlaySourceLower)"
      using vis_missing [OF i(2) v m1 that(1)] l(2,3) grown_sameD [OF g] invD(1) [OF i(1)] by simp
  qed
  note up = upper_maybe_Lstat [OF i(2) v m1]
  from eq show ?thesis
    by (auto simp: link_source_def overlaySourceLower done_ok_def elim!: mapErrorE andThenE split: if_splits
        dest: up(1) intro: i(2)) (metis copy i(2) up)+
qed (use eq i(2) in \<open>auto simp: link_source_def done_ok_def fails_def\<close>)

lemma keeps_Link: "keeps (ov_Link now oldName newName)"
proof (rule keepsI)
  fix fs r fs'
  assume i: "inv fs" and eq: "ov_Link now oldName newName fs = (r, fs')"
  note res = keepsD [OF keeps_mapError [OF keeps_resolve(1)]] keepsD [OF keeps_mapError [OF keeps_resolve(2)]]
  have last: "keeps (mapError f (onUpper (mem_Link now p q)))" for f p q
    by (intro keeps_mapError keeps_upper_call upper_intros)
  from eq show "inv fs'"
    unfolding ov_Link_def Let_def
  proof (cases rule: andThenE)
    case err
    then show ?thesis using i res by blast
  next
    case (ok a fs1)
    obtain oldAbs info source where a: "a = (oldAbs, info, source)" by (metis prod.collapse)
    obtain cs where cs: "inv fs1" "valid_comps cs" "oldAbs = render cs" "mphys fs1 cs" "vis fs1 (render cs) = Inr (info, source)"
      by (rule resolveMerged_inv [OF i ok(1) [unfolded a]])
    show ?thesis
    proof (cases "mode_IsDir (fi_mode info)")
      case True
      with ok(2) a cs(1) show ?thesis by (simp add: fails_def)
    next
      case False
      from ok(2) show ?thesis unfolding a case_prod_conv if_not_P [OF False]
      proof (cases rule: andThenE)
        case err
        then show ?thesis using cs(1) res by blast
      next
        case (ok b fs2)
        obtain newAbs newInfo src where b: "b = (newAbs, newInfo, src)" by (metis prod.collapse)
        obtain ds where ds: "inv fs2" "valid_comps ds" "newAbs = render ds" "mphys fs2 ds"
          "newInfo = None \<longrightarrow> ds \<noteq> [] \<and> (\<exists>e. vis fs2 (render ds) = Inl e \<and> errors_Is e ErrNotExist)"
          "\<exists>c. fs2 = recache fs1 c"
          by (rule resolveMergedPath_inv [OF cs(1) ok(1) [unfolded b]])
        have g: "grown fs1 fs2" using ds(6) grown_recache by blast
        have anc: "inv fs3" "grown fs1 fs3" if "newInfo = None" "mapError f (copyUpAncestors now newAbs) fs2 = (x, fs3)" for f x fs3
        proof -
          from that(2) ds(3) obtain y where "copyUpAncestors now (render ds) fs2 = (y, fs3)" by (auto elim: mapErrorE)
          note c = copyUpAncestors_inv [OF ds(1,2) _ ds(4) this]
          from c(1,2) ds(5) that(1) grown_trans [OF g] show "inv fs3" "grown fs1 fs3" by simp_all
        qed
        have src: "inv fs4" if "newInfo = None" "mapError f (copyUpAncestors now newAbs) fs2 = (x, fs3)"
            "link_source now oldAbs info source fs3 = (y, fs4)" for f x fs3 y fs4
          using link_source_inv [OF cs(1) anc [OF that(1,2)] cs(2,4,5)] that(3) cs(3) by simp
        show ?thesis
        proof (cases newInfo)
          case None
          from ok(2) b None ds(1) show ?thesis
            by (auto elim!: andThenE intro!: keeps_cleared) (meson anc(1) src keepsD last None)+
        qed (use ok(2) b ds(1) in \<open>simp add: fails_def\<close>)
      qed
    qed
  qed
qed


section \<open>Directories\<close>

lemma mkdir_loop_inv:
  assumes "inv fs" "valid_comps ds" "valid_comps parts" "mphys fs ds" "vis_dir fs ds"
    "ov_mkdir_loop now perm parts (render ds) fs = (r, fs')"
  shows "inv fs'"
  using assms
proof (induction parts arbitrary: fs ds)
  case (Cons part parts)
  let ?n = "render (ds @ [part])"
  have v: "valid_comps (ds @ [part])" using Cons.prems(2,3) by simp
  have m: "mphys fs (ds @ [part])" using Cons.prems(4,5) by simp
  obtain c where c: "visiblePrefixInfo ?n fs = (vis fs ?n, recache fs c)" "inv (recache fs c)"
    by (rule visiblePrefixInfo_pure [OF Cons.prems(1)])
  let ?fs = "recache fs c"
  note run = Cons.prems(6) [unfolded ov_mkdir_loop.simps Let_def joinChildPath_render [OF v] c(1)]
  show ?case
  proof (cases "vis fs ?n")
    case (Inl e)
    have anc: "inv fs2" if "mapError f (copyUpAncestors now ?n) ?fs = (x, fs2)" for f x fs2
    proof -
      from that obtain y where "copyUpAncestors now ?n ?fs = (y, fs2)" by (auto elim: mapErrorE)
      from copyUpAncestors_inv(1) [OF c(2) v _ _ this] m show ?thesis by simp
    qed
    from run Inl c(2) show ?thesis
      by (auto elim!: andThenE split: if_splits dest: anc intro: keepsD [OF keeps_upper_call [OF upper_intros(1)]])
  next
    case (Inr x)
    obtain info0 s0 where x: "x = (info0, s0)" by (cases x)
    let ?look = "if fi_mode info0 AND ModeSymlink \<noteq> 0 then mapError (toPathError ''mkdir'' ?n) (resolveMerged ?n True)
      else gives (?n, info0, overlaySourceNone)"
    from run Inr x have "andThen ?look (\<lambda>(nxt', info, _). if \<not> mode_IsDir (fi_mode info)
        then fails (PathError ''mkdir'' ?n (Errno ErrInvalid)) else ov_mkdir_loop now perm parts nxt') ?fs = (r, fs')"
      by simp
    then show ?thesis
    proof (cases rule: andThenE)
      case (err e)
      then show ?thesis using keepsD [OF keeps_mapError [OF keeps_resolve(1)] c(2)] c(2)
        by (auto simp: gives_def split: if_splits)
    next
      case (ok a fs1)
      obtain q info s where a: "a = (q, info, s)" by (metis prod.collapse)
      have "inv fs1 \<and> (\<exists>es. valid_comps es \<and> q = render es \<and> mphys fs1 es \<and>
          (\<exists>t. vis fs1 (render es) = Inr (info, t)) \<and> fi_mode info AND ModeSymlink = 0)"
      proof (cases "fi_mode info0 AND ModeSymlink \<noteq> 0")
        case True
        with ok(1) a have res: "mapError (toPathError ''mkdir'' ?n) (resolveMerged ?n True) ?fs = (Inr (q, info, s), fs1)"
          by simp
        obtain es where "inv fs1" "valid_comps es" "q = render es" "mphys fs1 es" "vis fs1 (render es) = Inr (info, s)"
          "True \<longrightarrow> fi_mode info AND ModeSymlink = 0"
          by (rule resolveMerged_inv [OF c(2) res])
        then show ?thesis by blast
      next
        case False
        with ok(1) a have "q = ?n" "info = info0" "fs1 = ?fs" by (auto simp: gives_def)
        with False Inr x c(2) v m show ?thesis by (auto intro!: exI [of _ "ds @ [part]"])
      qed
      then obtain es t where es: "inv fs1" "valid_comps es" "q = render es" "mphys fs1 es"
        "vis fs1 (render es) = Inr (info, t)" "fi_mode info AND ModeSymlink = 0" by blast
      show ?thesis
      proof (cases "mode_IsDir (fi_mode info)")
        case True
        with es have "vis_dir fs1 es" by (simp add: vis_dir_def dir_info_def)
        with Cons.IH [OF es(1,2) _ es(4)] Cons.prems(3) ok(2) a True es(3) show ?thesis by simp
      qed (use ok(2) a es(1) in \<open>simp add: fails_def\<close>)
    qed
  qed
qed simp

lemma keeps_MkdirAll: "keeps (ov_MkdirAll now name perm)"
proof (rule keepsI)
  fix fs r fs'
  assume i: "inv fs" and eq: "ov_MkdirAll now name perm fs = (r, fs')"
  have "clean_path (o_resolve name fs)" by (simp add: o_resolve_def)
  then obtain cs where cs: "o_resolve name fs = render cs" "valid_comps cs" by (rule clean_pathE)
  show "inv fs'"
  proof (cases "cs = []")
    case True
    with eq i cs show ?thesis by (simp add: ov_MkdirAll_def)
  next
    case False
    with cs have "split_path (render cs) = cs" "render cs \<noteq> ''/''" by (simp_all add: split_path_render)
    with eq cs have "ov_mkdir_loop now perm cs (render []) fs = (r, fs')" by (simp add: ov_MkdirAll_def)
    with mkdir_loop_inv [OF i _ cs(2) _ vis_root [OF i]] show ?thesis by simp
  qed
qed

end

end
