(* ===== verification/Overlay_Move.thy ===== *)
theory Overlay_Move
  imports Overlay_Ops MemoryFS_Tree
begin

text \<open>
  \<open>moveMerged\<close> and \<open>Rename\<close> of the overlay. A move only touches paths at or below its two
  ends, so the siblings that a recursive move has yet to visit stay as they were.
\<close>

section \<open>Changes below given paths\<close>

definition apart :: "MemoryFS \<Rightarrow> MemoryFS \<Rightarrow> string list list \<Rightarrow> bool" where
  "apart u u' xs \<longleftrightarrow> (\<forall>es. valid_comps es \<longrightarrow> (\<forall>x \<in> set xs. \<not> prefix x es) \<longrightarrow>
     at u' es = at u es \<and> (\<forall>r. at u es = Some r \<longrightarrow> (\<exists>X. fs_heap u' r = (fs_heap u r)\<lparr>n_children := X\<rparr>)))"

lemma apart_refl [simp]: "apart u u xs"
  by (simp add: apart_def children_self)

lemma apartD:
  assumes "apart u u' xs" "valid_comps es" "\<forall>x \<in> set xs. \<not> prefix x es"
  shows "at u' es = at u es" "at u es = Some r \<Longrightarrow> \<exists>X. fs_heap u' r = (fs_heap u r)\<lparr>n_children := X\<rparr>"
  using assms by (auto simp: apart_def)

lemma apart_trans:
  assumes a: "apart u u1 xs" and b: "apart u1 u2 xs" shows "apart u u2 xs"
  unfolding apart_def
proof (intro allI impI conjI)
  fix es assume es: "valid_comps es" "\<forall>x \<in> set xs. \<not> prefix x es"
  note 1 = apartD [OF a es] and 2 = apartD [OF b es]
  show "at u2 es = at u es" using 1(1) 2(1) by simp
  fix r assume r: "at u es = Some r"
  obtain X Y where "fs_heap u1 r = (fs_heap u r)\<lparr>n_children := X\<rparr>" "fs_heap u2 r = (fs_heap u1 r)\<lparr>n_children := Y\<rparr>"
    using 1(2) [OF r] 2(2) [of r] r 1(1) by auto
  then show "\<exists>X. fs_heap u2 r = (fs_heap u r)\<lparr>n_children := X\<rparr>" by auto
qed

lemma apart_below:
  assumes "apart u u' xs" "\<And>x. x \<in> set xs \<Longrightarrow> \<exists>y \<in> set ys. prefix y x" shows "apart u u' ys"
  unfolding apart_def
proof (intro allI impI)
  fix es assume es: "valid_comps es" "\<forall>y \<in> set ys. \<not> prefix y es"
  have "\<forall>x \<in> set xs. \<not> prefix x es"
  proof
    fix x assume "x \<in> set xs"
    with assms(2) obtain y where "y \<in> set ys" "prefix y x" by blast
    with es(2) show "\<not> prefix x es" by (meson prefix_order.trans)
  qed
  with apartD [OF assms(1) es(1)] show "at u' es = at u es \<and> (\<forall>r. at u es = Some r \<longrightarrow> (\<exists>X. fs_heap u' r = (fs_heap u r)\<lparr>n_children := X\<rparr>))"
    by blast
qed

lemma apart_is_dir:
  assumes "apart u u' xs" "valid_comps es" "\<forall>x \<in> set xs. \<not> prefix x es" shows "is_dir u' es \<longleftrightarrow> is_dir u es"
proof (cases "at u es")
  case (Some r)
  with apartD [OF assms] obtain X where "at u' es = Some r" "fs_heap u' r = (fs_heap u r)\<lparr>n_children := X\<rparr>" by auto
  with Some show ?thesis by (simp add: is_dir_def node_dir_def)
qed (use apartD [OF assms] in \<open>simp add: is_dir_def\<close>)

lemma adds_apart: "adds u u' d P \<Longrightarrow> apart u u' [d]"
  by (auto simp: adds_def apart_def)

section \<open>A rename in the upper layer\<close>

lemma mem_Rename_new:
  assumes u: "upper_ok u" and vs: "valid_comps s" "at u s = Some r" "s \<noteq> []"
    and v: "valid_comps (ds @ [c])" and d: "is_dir u ds" and new: "at u (ds @ [c]) = None" and np: "\<not> prefix s (ds @ [c])"
  shows "mem_Rename now (render s) (render (ds @ [c])) u =
     (Inr (), rebuildDirectoryChildrenLocked (move_subtree (render s) (render (ds @ [c])) u))"
proof -
  note wf = upper_okD(1) [OF u]
  have "phys u (ds @ [c])" using d wf_phys [OF wf, of ds] v by (auto simp: phys_snoc is_dir_def)
  from resolvePathLocked_ident [OF wf v this, of True False] new
  have loc: "rename_locate (render (ds @ [c])) u = Inr (render (ds @ [c]), None)" by (simp add: rename_locate_def)
  have old: "resolvePathLocked u (render s) False False = Inr (render s, Some r)"
    using resolvePathLocked_ident [OF wf vs(1) wf_phys [OF wf vs(1,2)], of False False] vs(2) by simp
  have nd: "\<not> isDescendantPath (render (ds @ [c])) (render s)"
    using isDescendantPath_iff [OF vs(1) v] np by (auto simp: strict_prefix_def)
  from loc old nd ensureParentLocked_existing [OF wf v d] vs show ?thesis
    by (simp add: mem_Rename_def move_subtree_def drop_subtree_def Let_def)
qed

lemma at_rebuild [simp]: "at (rebuildDirectoryChildrenLocked m) es = at m es"
  by (simp add: at_def ref_at_def rebuild_eq)

lemma move_rebuild_apart:
  assumes u: "upper_ok u" and vs: "valid_comps s" "s \<noteq> []" and v: "valid_comps d" "d \<noteq> []" and new: "at u d = None"
  shows "apart u (rebuildDirectoryChildrenLocked (move_subtree (render s) (render d) u)) [s, d]"
  unfolding apart_def
proof (intro allI impI conjI)
  note mv = move_subtree_at [OF upper_okD(1) [OF u] vs v new]
  fix es assume es: "valid_comps es" "\<forall>x \<in> set [s, d]. \<not> prefix x es"
  show "at (rebuildDirectoryChildrenLocked (move_subtree (render s) (render d) u)) es = at u es"
    using mv(1) [OF es(1)] es(2) by simp
  fix r
  obtain X where "fs_heap (move_subtree (render s) (render d) u) r = (fs_heap u r)\<lparr>n_children := X\<rparr>"
    using mv(6) by blast
  then show "\<exists>X. fs_heap (rebuildDirectoryChildrenLocked (move_subtree (render s) (render d) u)) r = (fs_heap u r)\<lparr>n_children := X\<rparr>"
    by (auto simp: rebuild_eq(5))
qed

section \<open>The listing of a merged directory\<close>

lemma mem_ReadDir_names:
  assumes wf: "fs_wf m" and eq: "mem_ReadDir p m = Inr es" and e: "e \<in> set es" shows "valid_comp (de_name e)"
proof -
  from eq e obtain q r where res: "resolvePathLocked m p True False = Inr (q, Some r)" and nd: "node_dir m r"
    and n: "de_name e \<in> set (sorted_list_of_set (n_children (fs_heap m r)))"
    by (auto simp: mem_ReadDir_def node_dir_def split: sum.splits prod.splits option.splits if_splits)
  from resolvePathLocked_result [OF wf res] obtain cs where cs: "valid_comps cs" "at m cs = Some r" by metis
  note ch = wf_children [OF wf cs nd]
  have "finite (n_children (fs_heap m r))"
    unfolding ch by (rule finite_subset [OF _ finite_children [of m cs]]) auto
  with n ch show ?thesis by simp
qed

lemma merge_entries_names:
  assumes "\<And>e. e \<in> set uppers \<union> set lowers \<Longrightarrow> P (de_name e)"
  shows "distinct (map de_name (merge_entries p uppers lowers fs))" "e \<in> set (merge_entries p uppers lowers fs) \<Longrightarrow> P (de_name e)"
proof -
  define Q where "Q m \<longleftrightarrow> keyed m \<and> (\<forall>n \<in> fst ` set m. P n)" for m
  define a where "a = fold (\<lambda>e m. AList.update (de_name e) e m) uppers []"
  define b where "b = fold (\<lambda>e m.
              if isHidden (path_Join p (de_name e)) fs then m
              else if map_of m (de_name e) \<noteq> None then m
              else AList.update (de_name e) e m) lowers a"
  have step: "Q m \<Longrightarrow> P (de_name e) \<Longrightarrow> Q (AList.update (de_name e) e m)" for m e
    by (auto simp: Q_def keyed_update dom_update)
  have "Q (fold (\<lambda>e m. AList.update (de_name e) e m) xs m)" if "Q m" "\<forall>e \<in> set xs. P (de_name e)" for xs m
    using that by (induction xs arbitrary: m) (simp_all add: step)
  moreover have "Q []" by (simp add: Q_def keyed_def)
  ultimately have a: "Q a" using assms by (simp add: a_def)
  have "Q (fold (\<lambda>e m.
              if isHidden (path_Join p (de_name e)) fs then m
              else if map_of m (de_name e) \<noteq> None then m
              else AList.update (de_name e) e m) xs m)" if "Q m" "\<forall>e \<in> set xs. P (de_name e)" for xs m
    using that by (induction xs arbitrary: m) (simp_all add: step)
  then have "Q b" using a assms by (simp add: b_def)
  then have b: "keyed b" "\<And>n. n \<in> fst ` set b \<Longrightarrow> P n" by (auto simp: Q_def)
  have eq: "merge_entries p uppers lowers fs = map (\<lambda>n. the (map_of b n)) (sorted_list_of_set (fst ` set b))"
    by (simp add: merge_entries_def a_def b_def Let_def)
  have names: "map de_name (merge_entries p uppers lowers fs) = sorted_list_of_set (fst ` set b)"
    using keyed_listing [OF b(1)] by (simp add: eq)
  then show "distinct (map de_name (merge_entries p uppers lowers fs))" by simp
  have "de_name e \<in> fst ` set b" if "e \<in> set (merge_entries p uppers lowers fs)"
    using that names by (metis List.finite_set finite_imageI image_eqI list.set_map sorted_list_of_set.set_sorted_key_list_of_set)
  with b(2) show "e \<in> set (merge_entries p uppers lowers fs) \<Longrightarrow> P (de_name e)" by blast
qed

section \<open>Moving\<close>

text \<open>Two states with the same lower layer and tombstones.\<close>

definition same_lower :: "('w, 'h) OverlayFS \<Rightarrow> ('w, 'h) OverlayFS \<Rightarrow> bool" where
  "same_lower fs fs' \<longleftrightarrow> o_world fs' = o_world fs \<and> o_tombstones fs' = o_tombstones fs"

lemma same_lower_intros [simp]:
  "same_lower fs fs" "same_lower fs (recache fs c)" "same_lower fs (fs\<lparr>o_upper := u\<rparr>)"
  by (simp_all add: same_lower_def)

lemma same_lower_trans: "same_lower fs fs1 \<Longrightarrow> same_lower fs1 fs2 \<Longrightarrow> same_lower fs fs2"
  by (simp add: same_lower_def)

lemma same_lower_hidden: "same_lower fs fs' \<Longrightarrow> isHidden p fs' = isHidden p fs"
  by (simp add: same_lower_def isHidden_def)

context lower_layer
begin

lemma apart_vis_any:
  assumes i: "inv fs" "inv fs'" and a: "apart (o_upper fs) (o_upper fs') xs" and w: "o_world fs' = o_world fs"
    and h: "\<And>es. valid_comps es \<Longrightarrow> \<forall>x \<in> set xs. \<not> prefix x es \<Longrightarrow> isHidden (render es) fs' = isHidden (render es) fs"
  shows "valid_comps es \<Longrightarrow> mphys fs es \<Longrightarrow> (\<forall>x \<in> set xs. \<not> prefix x es) \<Longrightarrow>
    mphys fs' es \<and> vis fs' (render es) = vis fs (render es)"
proof (induction es rule: rev_induct)
  case Nil
  from wf_root [OF upper_okD(1) [OF invD(3) [OF i(1)]]] obtain r where r: "at (o_upper fs) [] = Some r" by (rule is_dirE)
  with apartD(1) [OF a _ Nil(3)] have r': "at (o_upper fs') [] = Some r" by simp
  obtain X where "fs_heap (o_upper fs') r = (fs_heap (o_upper fs) r)\<lparr>n_children := X\<rparr>"
    using apartD(2) [OF a _ Nil(3) r] by auto
  with vis_at [OF i(1) _ r] vis_at [OF i(2) _ r'] show ?case by simp
next
  case (snoc c es)
  then have np: "\<forall>x \<in> set xs. \<not> prefix x es" by auto
  with snoc have ph: "mphys fs' (es @ [c])" by (simp add: vis_dir_def)
  note v = snoc.prems(1)
  show ?case
  proof (cases "at (o_upper fs) (es @ [c])")
    case None
    with apartD(1) [OF a v snoc.prems(3)] have "at (o_upper fs') (es @ [c]) = None" by simp
    note n = vis_missing [OF i(1) snoc.prems(1,2) None] vis_missing [OF i(2) v ph this]
    show ?thesis using ph unfolding n w h [OF v snoc.prems(3)] by blast
  next
    case (Some r)
    with apartD(1) [OF a v snoc.prems(3)] have r': "at (o_upper fs') (es @ [c]) = Some r" by simp
    obtain X where "fs_heap (o_upper fs') r = (fs_heap (o_upper fs) r)\<lparr>n_children := X\<rparr>"
      using apartD(2) [OF a v snoc.prems(3) Some] by auto
    with vis_at [OF i(1) v Some] vis_at [OF i(2) v r'] ph show ?thesis by simp
  qed
qed

lemma apart_vis:
  assumes i: "inv fs" "inv fs'" and s: "same_lower fs fs'" and a: "apart (o_upper fs) (o_upper fs') xs"
    and es: "valid_comps es" "mphys fs es" "\<forall>x \<in> set xs. \<not> prefix x es"
  shows "mphys fs' es \<and> vis fs' (render es) = vis fs (render es)"
  by (rule apart_vis_any [OF i a _ _ es]) (use s in \<open>simp_all add: same_lower_def isHidden_def\<close>)

lemma lookups_pure:
  assumes "inv fs"
  shows "onUpper (maybe (mem_Lstat p)) fs = (r, fs') \<Longrightarrow> fs' = fs"
    "onLower (\<lambda>l. maybe (f_Lstat l p)) fs = (r, fs') \<Longrightarrow> fs' = fs"
    "onUpper (\<lambda>u. (mem_ReadDir p u, u)) fs = (x, fs') \<Longrightarrow> fs' = fs \<and> x = mem_ReadDir p (o_upper fs)"
    "onLower (\<lambda>l. f_ReadDir l p) fs = (x, fs') \<Longrightarrow> fs' = fs \<and> x = fst (f_ReadDir L p (o_world fs))"
proof -
  note w = invD(1,2) [OF assms]
  show "onUpper (maybe (mem_Lstat p)) fs = (r, fs') \<Longrightarrow> fs' = fs"
    using sized_Lstat [OF upper_okD(4) [OF invD(3) [OF assms]], of p]
    by (auto simp: onUpper_def dest: maybe_pure split: prod.splits)
  show "onLower (\<lambda>l. maybe (f_Lstat l p)) fs = (r, fs') \<Longrightarrow> fs' = fs"
    using maybe_pure [of "f_Lstat L p" "o_world fs"] lstat_keeps [OF w(2), of p]
    by (auto simp: onLower_def w(1) split: prod.splits) (metis OverlayFS.update_convs(3) OverlayFS.surjective prod.collapse snd_conv)
  show "onUpper (\<lambda>u. (mem_ReadDir p u, u)) fs = (x, fs') \<Longrightarrow> fs' = fs \<and> x = mem_ReadDir p (o_upper fs)"
    by (auto simp: onUpper_def)
  show "onLower (\<lambda>l. f_ReadDir l p) fs = (x, fs') \<Longrightarrow> fs' = fs \<and> x = fst (f_ReadDir L p (o_world fs))"
    using readdir_keeps [OF w(2), of p] by (auto simp: onLower_def w(1) split: prod.splits)
qed

definition listing :: "memoryDirEntry list \<Rightarrow> bool" where
  "listing es \<longleftrightarrow> distinct (map de_name es) \<and> (\<forall>e \<in> set es. valid_comp (de_name e))"

lemma readDir_lower_result:
  assumes i: "inv fs" and eq: "readDir_lower p x fs = (r, fs')"
  shows "fs' = fs \<and> (\<forall>es. r = Inr es \<longrightarrow> listing es)"
proof -
  have up: "fs1 = fs \<and> (\<forall>es. r1 = Inr es \<longrightarrow> (\<forall>e \<in> set es. valid_comp (de_name e)))"
    if "(if b then onUpper (\<lambda>u. (mem_ReadDir p u, u)) else gives []) fs = (r1, fs1)" for b r1 fs1
    using that lookups_pure(3) [OF i, of p r1 fs1] mem_ReadDir_names [OF upper_okD(1) [OF invD(3) [OF i]]]
    by (auto simp: gives_def split: if_splits)
  have low: "fs1 = fs \<and> (\<forall>es. r1 = Inr es \<longrightarrow> (\<forall>e \<in> set es. valid_comp (de_name e)))"
    if "(if b then onLower (\<lambda>l. f_ReadDir l p) else gives []) fs = (r1, fs1)" for b r1 fs1
    using that lookups_pure(4) [OF i, of p r1 fs1] readdir_names [OF invD(2) [OF i]]
    by (auto simp: gives_def split: if_splits)
  have merge: "listing (merge_entries p us ls fs)"
    if "\<forall>e \<in> set us. valid_comp (de_name e)" "\<forall>e \<in> set ls. valid_comp (de_name e)" for us ls
    using merge_entries_names [where uppers = us and lowers = ls and P = valid_comp and p = p and fs = fs] that
    by (auto simp: listing_def)
  have lists: "fs' = fs \<and> (\<forall>es. r = Inr es \<longrightarrow> listing es)"
    if "andThen (if b then onUpper (\<lambda>u. (mem_ReadDir p u, u)) else gives []) (\<lambda>uppers fs2.
           andThen (if b2 \<and> \<not> isExactTombstone p fs2 then onLower (\<lambda>l. f_ReadDir l p) else gives [])
             (\<lambda>lowers fs3. (Inr (merge_entries p uppers lowers fs3), fs3)) fs2) fs = (r, fs')" for b b2
    using that
  proof (cases rule: andThenE)
    case (err e)
    with up [OF err(1)] show ?thesis by simp
  next
    case (ok us fs1)
    with up [OF ok(1)] have us: "\<forall>e \<in> set us. valid_comp (de_name e)" "fs1 = fs" by auto
    from ok(2) [unfolded us(2)] show ?thesis
    proof (cases rule: andThenE)
      case (err e)
      with low [OF err(1)] show ?thesis by simp
    next
      case (ok ls fs2)
      with low [OF ok(1)] merge [OF us(1)] show ?thesis by auto
    qed
  qed
  from eq show ?thesis unfolding readDir_lower_def
  proof (cases rule: andThenE)
    case (err e)
    then show ?thesis using lookups_pure(2) [OF i] by (auto elim: mapErrorE)
  next
    case (ok li fs1)
    then have "fs1 = fs" using lookups_pure(2) [OF i] by (auto elim: mapErrorE)
    with ok(2) lists [of True True] lists [of True False] lists [of False True] show ?thesis
      by (cases x; cases li) (auto simp: fails_def split: if_splits)
  qed
qed

lemma ReadDir_result:
  assumes i: "inv fs" and eq: "ov_ReadDir name fs = (r, fs')"
  shows "(\<exists>c. fs' = recache fs c) \<and> (\<forall>es. r = Inr es \<longrightarrow> listing es)"
proof -
  have dir: "g' = g \<and> (\<forall>es. x = Inr es \<longrightarrow> listing es)" if g: "inv g" and run: "readDir_at p g = (x, g')" for g x g' p
    using run unfolding readDir_at_def
  proof (cases rule: andThenE)
    case (err e)
    then show ?thesis using lookups_pure(1) [OF g] by (auto elim: mapErrorE)
  next
    case (ok ui g1)
    then have "g1 = g" using lookups_pure(1) [OF g] by (auto elim: mapErrorE)
    with ok(2) readDir_lower_result [OF g] show ?thesis by (auto split: if_splits)
  qed
  have res: "\<exists>c. fs1 = recache fs c \<and> inv (recache fs c)" if "mapError f (resolveMerged p True) fs = (x, fs1)" for f p x fs1
  proof -
    from that obtain y where y: "resolveMerged p True fs = (y, fs1)" by (auto elim: mapErrorE)
    obtain c where "inv (recache fs c)" "snd (resolveMerged p True fs) = recache fs c"
      by (rule resolveMerged_pure [OF i, of p True]) simp
    with y show ?thesis by auto
  qed
  from eq show ?thesis unfolding ov_ReadDir_def Let_def
  proof (cases rule: andThenE)
    case (err e)
    then show ?thesis using res by blast
  next
    case (ok a fs1)
    from res [OF ok(1)] obtain c where c: "fs1 = recache fs c" "inv (recache fs c)" by blast
    from ok(2) have "readDir_at (fst a) fs1 = (r, fs')" by (simp add: case_prod_beta)
    from dir [OF c(2) this [unfolded c(1)]] show ?thesis by blast
  qed
qed

definition movable :: "string list \<Rightarrow> fileInfo \<Rightarrow> overlaySource \<Rightarrow> string list \<Rightarrow> ('w, 'h) OverlayFS \<Rightarrow> bool" where
  "movable s info source d fs \<longleftrightarrow> inv fs \<and> valid_comps s \<and> s \<noteq> [] \<and> valid_comps d \<and> d \<noteq> [] \<and> mphys fs s \<and>
     (mode_IsDir (fi_mode info) \<longrightarrow> dir_info info \<and> vis_dir fs s) \<and>
     (source = overlaySourceUpper \<longrightarrow> at (o_upper fs) s \<noteq> None) \<and>
     is_dir (o_upper fs) (butlast d) \<and> at (o_upper fs) d = None \<and> \<not> prefix s d \<and> \<not> prefix d s"

definition moved :: "('w, 'h) OverlayFS \<Rightarrow> ('w, 'h) OverlayFS \<Rightarrow> string list list \<Rightarrow> bool" where
  "moved fs fs' xs \<longleftrightarrow> inv fs' \<and> same_lower fs fs' \<and> apart (o_upper fs) (o_upper fs') xs"

lemma moved_trans: "moved fs fs1 xs \<Longrightarrow> moved fs1 fs2 xs \<Longrightarrow> moved fs fs2 xs"
  by (auto simp: moved_def intro: same_lower_trans apart_trans)

lemma moved_below: "moved fs fs' xs \<Longrightarrow> (\<And>x. x \<in> set xs \<Longrightarrow> \<exists>y \<in> set ys. prefix y x) \<Longrightarrow> moved fs fs' ys"
  by (auto simp: moved_def intro: apart_below)

text \<open>The children still to be moved, and the state their moves need.\<close>

definition moving :: "string list \<Rightarrow> string list \<Rightarrow> string list \<Rightarrow> ('w, 'h) OverlayFS \<Rightarrow> bool" where
  "moving s d ns fs \<longleftrightarrow> inv fs \<and> valid_comps s \<and> valid_comps d \<and> valid_comps ns \<and> distinct ns \<and> mphys fs s \<and> vis_dir fs s \<and>
     is_dir (o_upper fs) d \<and> (\<forall>n \<in> set ns. at (o_upper fs) (d @ [n]) = None) \<and> \<not> prefix s d \<and> \<not> prefix d s"

lemma vis_kind:
  assumes "inv fs" "valid_comps cs" "mphys fs cs" "vis fs (render cs) = Inr (info, source)" "mode_IsDir (fi_mode info)"
  shows "dir_info info"
proof (cases "at (o_upper fs) cs")
  case None
  with assms vis_missing [OF assms(1-3) None] lstat_kind [OF invD(2) [OF assms(1)], of "render cs" info] show ?thesis
    by (auto simp: dir_info_def split: if_splits sum.splits)
next
  case (Some r)
  note wf = upper_okD(1) [OF invD(3) [OF assms(1)]]
  from assms(4,5) vis_at [OF assms(1,2) Some] wf_dir_not_link [OF wf assms(2) Some] show ?thesis
    by (auto simp: dir_info_def newFileInfo_def node_dir_def node_link_def)
qed

lemma moving_child:
  assumes m: "moving s d (n # ns) fs" and v: "vis fs (render (s @ [n])) = Inr (info, source)"
  shows "movable (s @ [n]) info source (d @ [n]) fs"
proof -
  from m have f: "inv fs" "valid_comps (s @ [n])" "valid_comps (d @ [n])" "mphys fs (s @ [n])" by (simp_all add: moving_def)
  have "vis_dir fs (s @ [n])" if "mode_IsDir (fi_mode info)"
    using vis_kind [OF f(1,2,4) v that] v by (auto simp: vis_dir_def)
  moreover have "at (o_upper fs) (s @ [n]) \<noteq> None" if "source = overlaySourceUpper"
    using vis_upperD [OF f(1,2,4) v [unfolded that]] by blast
  moreover have "\<not> prefix (s @ [n]) (d @ [n])" "\<not> prefix (d @ [n]) (s @ [n])"
    using m append_prefixD [of s "[n]" d] append_prefixD [of d "[n]" s] by (auto simp: moving_def)
  ultimately show ?thesis using m f vis_kind [OF f(1,2,4) v] by (simp add: movable_def moving_def)
qed

lemma moving_next:
  assumes m: "moving s d (n # ns) fs" and mv: "moved fs fs' [s @ [n], d @ [n]]"
  shows "moving s d ns fs'"
proof -
  from mv have f: "inv fs'" "same_lower fs fs'" "apart (o_upper fs) (o_upper fs') [s @ [n], d @ [n]]" by (simp_all add: moved_def)
  have np: "\<forall>x \<in> set [s @ [n], d @ [n]]. \<not> prefix x s" "\<forall>x \<in> set [s @ [n], d @ [n]]. \<not> prefix x d"
    "k \<in> set ns \<Longrightarrow> \<forall>x \<in> set [s @ [n], d @ [n]]. \<not> prefix x (d @ [k])" for k
    using m append_prefixD [of s "[n]" d] append_prefixD [of d "[n]" s] by (auto simp: moving_def)
  have i: "inv fs" "valid_comps s" "valid_comps d" "mphys fs s" "vis_dir fs s" "is_dir (o_upper fs) d" using m by (simp_all add: moving_def)
  have "mphys fs' s" "vis_dir fs' s" using apart_vis [OF i(1) f i(2,4) np(1)] i(5) by (auto simp: vis_dir_def)
  moreover have "is_dir (o_upper fs') d" using apart_is_dir [OF f(3) i(3) np(2)] i(6) by simp
  moreover have "at (o_upper fs') (d @ [k]) = None" if "k \<in> set ns" for k
    using apartD(1) [OF f(3) _ np(3) [OF that]] m that by (auto simp: moving_def list_all_iff)
  ultimately show ?thesis using m f by (simp add: moving_def)
qed

lemma move_children:
  assumes "moving s d (map de_name es) fs"
    and "each (\<lambda>e. thenProc (visibleInfo (joinChildPath (render s) (de_name e))) (\<lambda>(childInfo, childSource).
      move (joinChildPath (render s) (de_name e)) childInfo childSource (joinChildPath (render d) (de_name e)))) es fs = Some (r, fs')"
    and child: "\<And>s d info source fs r fs'. movable s info source d fs \<Longrightarrow> move (render s) info source (render d) fs = Some (r, fs') \<Longrightarrow>
      inv fs' \<and> (r = Inr () \<longrightarrow> moved fs fs' [s, d])"
  shows "inv fs' \<and> (r = Inr () \<longrightarrow> moved fs fs' [s, d])"
  using assms(1,2)
proof (induction es arbitrary: fs)
  case Nil
  then show ?case by (auto simp: moving_def moved_def)
next
  case (Cons e es)
  let ?n = "de_name e"
  let ?step = "\<lambda>e. thenProc (visibleInfo (joinChildPath (render s) (de_name e))) (\<lambda>(childInfo, childSource).
    move (joinChildPath (render s) (de_name e)) childInfo childSource (joinChildPath (render d) (de_name e)))"
  from Cons.prems(1) have i: "inv fs" and vs: "valid_comps (s @ [?n])" "valid_comps (d @ [?n])" by (simp_all add: moving_def)
  show ?case
  proof (cases "vis fs (render (s @ [?n]))")
    case (Inl x)
    with Cons.prems(2) i show ?thesis by (auto simp: thenProc_def visibleInfo_pure joinChildPath_render [OF vs(1)])
  next
    case (Inr y)
    obtain info source where y: "y = (info, source)" by (cases y)
    note mb = moving_child [OF Cons.prems(1) [simplified] Inr [unfolded y]]
    have st: "?step e fs = move (render (s @ [?n])) info source (render (d @ [?n])) fs"
      using i Inr y
      by (simp add: thenProc_def visibleInfo_pure joinChildPath_render [OF vs(1)] joinChildPath_render [OF vs(2)])
    obtain z fs1 where run: "move (render (s @ [?n])) info source (render (d @ [?n])) fs = Some (z, fs1)"
      and rest: "case z of Inl e \<Rightarrow> r = Inl e \<and> fs' = fs1 | Inr _ \<Rightarrow> each ?step es fs1 = Some (r, fs')"
    proof (cases "?step e fs")
      case None
      with Cons.prems(2) show thesis by simp
    next
      case (Some zf)
      obtain z fs1 where zf: "zf = (z, fs1)" by (cases zf)
      show thesis
      proof (rule that)
        show "move (render (s @ [?n])) info source (render (d @ [?n])) fs = Some (z, fs1)" using Some zf st by simp
        have "(case z of Inl e \<Rightarrow> Some (Inl e, fs1) | Inr _ \<Rightarrow> each ?step es fs1) = Some (r, fs')"
          using Cons.prems(2) unfolding each.simps Some zf by (simp split: sum.splits)
        then show "case z of Inl e \<Rightarrow> r = Inl e \<and> fs' = fs1 | Inr _ \<Rightarrow> each ?step es fs1 = Some (r, fs')"
          by (cases z) auto
      qed
    qed
    note c = child [OF mb run]
    show ?thesis
    proof (cases z)
      case (Inl x)
      with rest c show ?thesis by simp
    next
      case z: (Inr u)
      with c have mv: "moved fs fs1 [s @ [?n], d @ [?n]]" by simp
      have "moved fs fs1 [s, d]" by (rule moved_below [OF mv]) auto
      with Cons.IH [OF moving_next [OF Cons.prems(1) [simplified] mv]] rest z show ?thesis by (auto intro: moved_trans)
    qed
  qed
qed


lemma moveMerged_inv:
  assumes "movable s info source d fs" "moveMerged fuel now (render s) info source (render d) fs = Some (r, fs')"
  shows "inv fs' \<and> (r = Inr () \<longrightarrow> moved fs fs' [s, d])"
  using assms
proof (induction fuel arbitrary: s info source d fs r fs')
  case (Suc fuel)
  note p = Suc.prems(1) [unfolded movable_def]
  obtain ds c where d: "d = ds @ [c]" using p by (metis rev_exhaust)
  have i: "inv fs" and v: "valid_comps (ds @ [c])" and dd: "is_dir (o_upper fs) ds" and new: "at (o_upper fs) (ds @ [c]) = None"
    and vs: "valid_comps s" "s \<noteq> []" and np: "\<not> prefix s (ds @ [c])"
    using p d by simp_all
  note u = invD(3) [OF i]
  consider (up) "\<not> mode_IsDir (fi_mode info)" "source = overlaySourceUpper"
    | (low) "\<not> mode_IsDir (fi_mode info)" "source \<noteq> overlaySourceUpper" | (dir) "mode_IsDir (fi_mode info)" by blast
  then show ?case
  proof cases
    case up
    let ?u = "rebuildDirectoryChildrenLocked (move_subtree (render s) (render (ds @ [c])) (o_upper fs))"
    from p up obtain x where x: "at (o_upper fs) s = Some x" by auto
    note rn = mem_Rename_new [OF u vs(1) x vs(2) v dd new np, of now]
    have "apart (o_upper fs) ?u [s, d]" using move_rebuild_apart [OF u vs v _ new] d by simp
    moreover have eq: "r = Inr ()" "fs' = fs\<lparr>o_upper := ?u\<rparr>"
      using Suc.prems(2) up rn d by (simp_all add: returns_def onUpper_def)
    moreover have "inv fs'"
      unfolding eq by (rule keeps_onUpper [OF i upper_intros(11), of now "render s" "render (ds @ [c])"]) (simp add: onUpper_def rn)
    ultimately show ?thesis by (simp add: moved_def)
  next
    case low
    with Suc.prems(2) d have "copyUpLowerEntry now (render s) info (render (ds @ [c])) fs = (r, fs')" by (simp add: returns_def)
    from copyUpLowerEntry_spec [OF i v dd new low(1) this] i d show ?thesis
      by (auto simp: moved_def intro: grown_inv_upper apart_below [OF adds_apart])
  next
    case dir
    with p have k: "dir_info info" "vis_dir fs s" by simp_all
    obtain u' where u': "cloneDirNode now (render (ds @ [c])) info (o_upper fs) = (Inr (), u')" "upper_ok u'"
      "adds (o_upper fs) u' (ds @ [c]) (\<lambda>n. copy_of info n \<and> n_lazy n = None)" "is_dir u' (ds @ [c])"
      by (rule cloneDirNode_adds [OF u v dd new k(1)])
    let ?fs = "fs\<lparr>o_upper := u'\<rparr>"
    have i1: "inv ?fs" using grown_inv_upper [OF i u'(2)] .
    note ap = adds_apart [OF u'(3)]
    obtain z fs2 where rd: "ov_ReadDir (render s) ?fs = (z, fs2)" by (metis prod.collapse)
    from ReadDir_result [OF i1 rd] obtain cc where cc: "fs2 = recache ?fs cc" and ls: "\<And>es. z = Inr es \<Longrightarrow> listing es" by auto
    have i2: "inv fs2" by (rule keepsD [OF keeps_ReadDir i1 rd])
    note run = Suc.prems(2) [unfolded moveMerged.simps d]
    show ?thesis
    proof (cases z)
      case (Inl e)
      with run dir u'(1) rd i2 show ?thesis by (auto simp: thenProc_def onUpper_def)
    next
      case (Inr es)
      have s1: "mphys fs2 s" "vis_dir fs2 s"
        using apart_vis [OF i i1 _ _ vs(1), of "[ds @ [c]]"] ap p k(2) d cc by (auto simp: vis_dir_def)
      have "at (o_upper fs2) (d @ [n]) = None" if "valid_comp n" for n
      proof -
        have "at (o_upper fs) ((ds @ [c]) @ [n]) = None"
          using wf_prefix_dir [OF upper_okD(1) [OF u], of "ds @ [c]" "[n]"] v that new
          by (cases "at (o_upper fs) ((ds @ [c]) @ [n])") (auto simp: is_dir_def)
        then show ?thesis using u'(3) v that cc d by (auto simp: adds_def)
      qed
      with ls [OF Inr] have mv: "moving s d (map de_name es) fs2"
        using i2 vs s1 p d cc u'(4) by (auto simp: moving_def listing_def list_all_iff)
      from run dir u'(1) rd Inr d
      have "each (\<lambda>e. thenProc (visibleInfo (joinChildPath (render s) (de_name e))) (\<lambda>(childInfo, childSource).
          moveMerged fuel now (joinChildPath (render s) (de_name e)) childInfo childSource (joinChildPath (render d) (de_name e))))
          es fs2 = Some (r, fs')"
        by (simp add: thenProc_def onUpper_def)
      from move_children [OF mv this Suc.IH] have m2: "inv fs' \<and> (r = Inr () \<longrightarrow> moved fs2 fs' [s, d])" .
      have "moved fs fs2 [s, d]"
        using i2 cc d apart_below [OF ap, of "[s, d]"] by (auto simp: moved_def same_lower_def)
      with m2 show ?thesis by (auto intro: moved_trans)
    qed
  qed
qed simp


text \<open>What \<open>Rename\<close> has checked before it moves makes the move possible.\<close>

lemma rename_movable:
  assumes i: "inv fs" and s: "valid_comps s" "mphys fs s" "vis fs (render s) = Inr (info, source)"
    and d: "valid_comps d" "mphys fs d" and miss: "\<exists>e. vis fs (render d) = Inl e" 
    and apart: "s \<noteq> []" "d = ds @ [c]" "s \<noteq> d" "mode_IsDir (fi_mode info) \<Longrightarrow> \<not> prefix s d"
    and i1: "inv fs1" and g: "grown fs fs1" and dd: "is_dir (o_upper fs1) ds"
    and same: "at (o_upper fs1) (ds @ [c]) = at (o_upper fs) (ds @ [c])"
  shows "movable s info source d fs1"
proof -
  note gv = grown_vis [OF i i1 g s(1,2)]
  have vd: "dir_info info" "vis_dir fs s" if "mode_IsDir (fi_mode info)"
    using vis_kind [OF i s that] s(3) by (auto simp: vis_dir_def)
  have "at (o_upper fs) d = None"
    using vis_at [OF i d(1)] miss by (cases "at (o_upper fs) d") auto
  moreover have "at (o_upper fs1) s \<noteq> None" if "source = overlaySourceUpper"
    using vis_upperD [OF i s(1,2) s(3) [unfolded that]] grown_oldD(1) [OF g s(1)] by (metis option.distinct(1))
  moreover have "\<not> prefix s d"
  proof
    assume "prefix s d"
    with apart(3) have "strict_prefix s d" by (simp add: strict_prefix_def)
    with d(2) have "vis_dir fs s" by (simp add: mphys_def)
    with s(3) have "mode_IsDir (fi_mode info)" by (auto simp: vis_dir_def dir_info_def)
    with apart(4) \<open>prefix s d\<close> show False by simp
  qed
  moreover have "\<not> prefix d s"
  proof
    assume "prefix d s"
    with apart(3) have "strict_prefix d s" by (simp add: strict_prefix_def)
    with s(2) have "vis_dir fs d" by (simp add: mphys_def)
    with miss show False by (auto simp: vis_dir_def)
  qed
  ultimately show ?thesis
    using i1 s(1) apart d gv dd same vd vis_like_dir [of fs s fs1] by (auto simp: movable_def)
qed

lemma Rename_inv:
  assumes i: "inv fs" and eq: "ov_Rename fuel now oldName newName fs = Some (r, fs')"
  shows "inv fs'"
proof -
  let ?old = "o_resolve oldName fs" and ?new = "o_resolve newName fs"
  note res = keepsD [OF keeps_mapError [OF keeps_resolve(1)]] keepsD [OF keeps_mapError [OF keeps_resolve(2)]]
  show ?thesis
  proof (cases "?old = ''/'' \<or> ?new = ''/''")
    case True
    with eq i show ?thesis by (simp add: ov_Rename_def)
  next
    case False
    from eq show ?thesis unfolding ov_Rename_def Let_def if_not_P [OF False]
    proof (cases rule: thenProcE)
      case (err e)
      then show ?thesis using res(1) [OF i] by blast
    next
      case (ok a fs1)
      obtain oldAbs info source where a: "a = (oldAbs, info, source)" by (metis prod.collapse)
      obtain s where s: "inv fs1" "valid_comps s" "oldAbs = render s" "mphys fs1 s" "vis fs1 (render s) = Inr (info, source)"
        by (rule resolveMerged_inv [OF i ok(1) [unfolded a]])
      from ok(2) show ?thesis unfolding a case_prod_conv
      proof (cases rule: thenProcE)
        case (err e)
        then show ?thesis using res(2) [OF s(1)] by blast
      next
        case (ok b fs2)
        obtain newAbs newInfo x where b: "b = (newAbs, newInfo, x)" by (metis prod.collapse)
        obtain d where d: "inv fs2" "valid_comps d" "newAbs = render d" "mphys fs2 d"
          "newInfo = None \<longrightarrow> d \<noteq> [] \<and> (\<exists>e. vis fs2 (render d) = Inl e \<and> errors_Is e ErrNotExist)"
          "\<exists>c. fs2 = recache fs1 c"
          by (rule resolveMergedPath_inv [OF s(1) ok(1) [unfolded b]])
        then have s2: "mphys fs2 s" "vis fs2 (render s) = Inr (info, source)" using s(4,5) by auto
        show ?thesis
        proof (cases "oldAbs = ''/'' \<or> newAbs = ''/'' \<or> oldAbs = newAbs \<or> newInfo \<noteq> None \<or>
            (mode_IsDir (fi_mode info) \<and> isDescendantPath newAbs oldAbs)")
          case True
          with ok(2) b d(1) show ?thesis by (auto simp: returns_def fails_def done_ok_def split: if_splits)
        next
          case F: False
          from ok(2) F b have "thenProc (mapError (toPathError ''rename'' newAbs) (copyUpAncestors now newAbs)) (\<lambda>_ fs1.
               case moveMerged fuel now oldAbs info source newAbs fs1 of
                 None \<Rightarrow> None
               | Some (Inl e, fs2) \<Rightarrow> Some (Inl (toPathError ''rename'' oldAbs e), fs2)
               | Some (Inr _, fs2) \<Rightarrow>
                   Some (case ov_Remove oldAbs True fs2 of
                           (Inl e, fs3) \<Rightarrow> (if errors_Is e ErrNotExist then Inr () else Inl e, fs3)
                         | (Inr _, fs3) \<Rightarrow> (Inr (), fs3))) fs2 = Some (r, fs')" by (simp split: if_splits)
          moreover obtain ds c where dc: "d = ds @ [c]" using F d(5) by (metis rev_exhaust)
          obtain fs3 where c3: "copyUpAncestors now (render (ds @ [c])) fs2 = (Inr (), fs3)" "inv fs3" "grown fs2 fs3"
            "is_dir (o_upper fs3) ds" "at (o_upper fs3) (ds @ [c]) = at (o_upper fs2) (ds @ [c])"
            by (rule copyUpAncestors_spec [OF d(1), of ds c now]) (use d(2,4) dc in simp_all)
          moreover have "movable s info source d fs3"
          proof (rule rename_movable [OF d(1) s(2) s2 d(2,4) _ _ dc _ _ c3(2-5)])
            show "\<exists>e. vis fs2 (render d) = Inl e" using F d(5) by auto
            show "s \<noteq> []" "s \<noteq> d" using F s(3) d(3) by auto
            show "\<not> prefix s d" if "mode_IsDir (fi_mode info)"
              using that F s(3) d(3) isDescendantPath_iff [OF s(2) d(2)] by (auto simp: strict_prefix_def)
          qed
          note move = moveMerged_inv [OF this, folded s(3) d(3)]
          ultimately show ?thesis using d(3) dc
            by (auto simp: thenProc_def mapError_def split: option.splits sum.splits prod.splits
                dest: move) (meson keepsD [OF keeps_Remove])+
        qed
      qed
    qed
  qed
qed

end

end
