(* ===== verification/Overlay_Remove.thy ===== *)
theory Overlay_Remove
  imports Overlay_Move
begin

text \<open>
  \<open>Remove\<close> of the overlay takes an entry and everything below it out of the merged view,
  whichever layer provides it, and nothing else.
\<close>

lemma drop_apart:
  assumes "valid_comps (p @ [c])"
  shows "apart u (del_child (render p) c (drop_subtree (render (p @ [c])) u)) [p @ [c]]"
    "at (del_child (render p) c (drop_subtree (render (p @ [c])) u)) (p @ [c]) = None"
proof -
  have at: "at (del_child (render p) c (drop_subtree (render (p @ [c])) u)) es = (if prefix (p @ [c]) es then None else at u es)"
    if "valid_comps es" for es
  proof -
    have "at (del_child (render p) c m) es = at m es" for m
      by (simp add: del_child_def at_def ref_at_def split: option.split)
    with that assms at_drop_subtree [of "p @ [c]" es u] show ?thesis by simp
  qed
  then show "at (del_child (render p) c (drop_subtree (render (p @ [c])) u)) (p @ [c]) = None" using assms by simp
  show "apart u (del_child (render p) c (drop_subtree (render (p @ [c])) u)) [p @ [c]]"
    using at child_ops_content(1) [of "render p" c "drop_subtree (render (p @ [c])) u"] by (simp add: apart_def)
qed

lemma isHidden_add:
  assumes "valid_comps cs" "valid_comps es"
  shows "isHidden (render es) (addTombstone (render cs) fs) \<longleftrightarrow> prefix cs es \<or> isHidden (render es) fs"
proof -
  have "ds = cs" if "prefix ds es" "render ds = render cs" for ds
    using that valid_comps_prefix [OF assms(2)] assms(1) render_inj by blast
  then show ?thesis using assms by (auto simp: isHidden_iff addTombstone_def)
qed

context lower_layer
begin

lemma lower_maybe_Lstat:
  assumes i: "inv fs" and eq: "onLower (\<lambda>l. maybe (f_Lstat l p)) fs = (Inr x, fs')"
  shows "fs' = fs" "x \<noteq> None \<longleftrightarrow> (\<exists>i. fst (f_Lstat L p (o_world fs)) = Inr i)"
    "fst (f_Lstat L p (o_world fs)) = Inl e \<Longrightarrow> errors_Is e ErrNotExist"
  using lookups_pure(2) [OF i eq] eq invD(1) [OF i]
  by (auto simp: onLower_def maybe_def split: prod.splits sum.splits if_splits)

lemma upper_Remove_present:
  assumes i: "inv fs" and v: "valid_comps cs" and r: "at (o_upper fs) cs = Some r"
    and eq: "onUpper (maybe (mem_Remove (render cs) recursive)) fs = (Inr x, fs')"
  obtains u where "fs' = fs\<lparr>o_upper := u\<rparr>" "apart (o_upper fs) u [cs]" "at u cs = None"
proof -
  note wf = upper_okD(1) [OF invD(3) [OF i]]
  have res: "resolvePathLocked (o_upper fs) (render cs) False False = Inr (render cs, Some r)"
    using resolvePathLocked_ident [OF wf v wf_phys [OF wf v r], of False False] r by simp
  obtain y u where y: "mem_Remove (render cs) recursive (o_upper fs) = (y, u)" by (metis prod.collapse)
  have "y = Inr ()"
    using eq y res by (auto simp: onUpper_def maybe_def mem_Remove_def split: if_splits sum.splits)
  with y have rm: "mem_Remove (render cs) recursive (o_upper fs) = (Inr (), u)" by simp
  obtain p c r' where p: "resolvePathLocked (o_upper fs) (render cs) False False = Inr (render (p @ [c]), Some r')"
    "valid_comps (p @ [c])" "u = del_child (render p) c (drop_subtree (render (p @ [c])) (o_upper fs))"
    by (rule mem_Remove_result [OF wf rm])
  then have "cs = p @ [c]" using res v render_inj by (metis Pair_inject sum.inject(2))
  with drop_apart [OF p(2), of "o_upper fs"] p(3) y eq \<open>y = Inr ()\<close> that [of u] show thesis
    by (simp add: onUpper_def maybe_def)
qed

lemma remove_steps:
  assumes i: "inv fs" and eq: "ov_Remove name recursive fs = (Inr (), fs')"
  obtains cs info source u c where "valid_comps cs" "cs \<noteq> []" "mphys fs cs" "vis fs (render cs) = Inr (info, source)"
    "fst (resolveMerged (o_resolve name fs) False fs) = Inr (render cs, info, source)"
    "apart (o_upper fs) u [cs]" "at u cs = None"
    "fs' = (if \<exists>i. fst (f_Lstat L (render cs) (o_world fs)) = Inr i then addTombstone (render cs) ((recache fs c)\<lparr>o_upper := u\<rparr>)
            else (recache fs c)\<lparr>o_upper := u\<rparr>)"
    "\<forall>e. fst (f_Lstat L (render cs) (o_world fs)) = Inl e \<longrightarrow> errors_Is e ErrNotExist"
proof -
  have nr: "o_resolve name fs \<noteq> ''/''" using eq by (auto simp: ov_Remove_def)
  have "andThen (mapError (\<lambda>_. PathError ''remove'' (o_resolve name fs) (Errno ErrNotExist)) (resolveMerged (o_resolve name fs) False))
      (remove_resolved (o_resolve name fs) recursive) fs = (Inr (), fs')" using eq nr by (simp add: ov_Remove_def Let_def)
  then obtain a fs1 where res: "mapError (\<lambda>_. PathError ''remove'' (o_resolve name fs) (Errno ErrNotExist))
      (resolveMerged (o_resolve name fs) False) fs = (Inr a, fs1)"
    and run: "remove_resolved (o_resolve name fs) recursive a fs1 = (Inr (), fs')" by (auto elim: andThenE)
  obtain q info source where a: "a = (q, info, source)" by (metis prod.collapse)
  obtain cs where cs: "inv fs1" "valid_comps cs" "q = render cs" "mphys fs cs" "vis fs (render cs) = Inr (info, source)"
    "\<exists>c. fs1 = recache fs c"
    by (rule resolveMerged_inv [OF i res [unfolded a]])
  then obtain c1 where c1: "fs1 = recache fs c1" by blast
  have found: "fst (resolveMerged (o_resolve name fs) False fs) = Inr (render cs, info, source)"
    using res a cs(3) by (auto elim: mapErrorE)
  have ne: "cs \<noteq> []" using run a cs(3) by (auto simp: remove_resolved_def fails_def)
  with run a cs(2,3) obtain fs2 x fs3 y fs4 where
    s2: "(if mode_IsDir (fi_mode info) \<and> \<not> recursive
          then andThen (ov_ReadDir (render cs)) (\<lambda>entries.
                 if entries \<noteq> [] then fails (PathError ''remove'' (render cs) (Errno ErrInvalid)) else done_ok)
          else done_ok) fs1 = (Inr (), fs2)"
    and s3: "(if source = overlaySourceUpper
          then mapError (toPathError ''remove'' (render cs)) (onUpper (maybe (mem_Remove (render cs) recursive)))
          else gives None) fs2 = (Inr x, fs3)"
    and s4: "mapError (toPathError ''remove'' (render cs)) (onLower (\<lambda>l. maybe (f_Lstat l (render cs)))) fs3 = (Inr y, fs4)"
    and fs': "fs' = (if y \<noteq> None then addTombstone (render cs) fs4 else fs4)"
    unfolding remove_resolved_def by (simp only: case_prod_conv render_eq_root if_False) (elim andThenE, simp_all)
  have "\<exists>c. fs2 = recache fs c \<and> inv (recache fs c)"
  proof (cases "mode_IsDir (fi_mode info) \<and> \<not> recursive")
    case True
    with s2 obtain es where rd: "ov_ReadDir (render cs) fs1 = (Inr es, fs2)"
      by (auto simp: done_ok_def fails_def elim!: andThenE split: if_splits)
    with ReadDir_result [OF cs(1) rd] keepsD [OF keeps_ReadDir cs(1) rd] c1 show ?thesis by auto
  qed (use s2 c1 cs(1) in \<open>auto simp: done_ok_def\<close>)
  then obtain c2 where c2: "fs2 = recache fs c2" "inv (recache fs c2)" by blast
  have "\<exists>u. fs3 = fs2\<lparr>o_upper := u\<rparr> \<and> apart (o_upper fs) u [cs] \<and> at u cs = None \<and> inv fs3"
  proof (cases source)
    case overlaySourceUpper
    with s3 have rm: "onUpper (maybe (mem_Remove (render cs) recursive)) fs2 = (Inr x, fs3)" by (auto elim: mapErrorE)
    obtain r where "at (o_upper fs2) cs = Some r"
      using vis_upperD [OF i cs(2,4) cs(5) [unfolded overlaySourceUpper]] c2(1) by auto
    from upper_Remove_present [OF _ cs(2) this rm] c2 obtain u where "fs3 = fs2\<lparr>o_upper := u\<rparr>"
      "apart (o_upper fs) u [cs]" "at u cs = None" by auto
    moreover have "inv fs3"
      using keepsD [OF keeps_upper_call _ rm] c2 by (simp add: upper_intros)
    ultimately show ?thesis by blast
  next
    case overlaySourceLower
    with vis_lowerD(1) [OF i cs(2,4)] cs(5) have "at (o_upper fs) cs = None" by simp
    with s3 overlaySourceLower c2 show ?thesis by (auto simp: gives_def intro!: exI [of _ "o_upper fs"])
  qed (use vis_source [OF i cs(2,4,5)] in simp)
  then obtain u where u: "fs3 = fs2\<lparr>o_upper := u\<rparr>" "apart (o_upper fs) u [cs]" "at u cs = None" "inv fs3" by blast
  from s4 have "onLower (\<lambda>l. maybe (f_Lstat l (render cs))) fs3 = (Inr y, fs4)" by (auto elim: mapErrorE)
  from lower_maybe_Lstat [OF u(4) this] have "fs4 = fs3" "y \<noteq> None \<longleftrightarrow> (\<exists>i. fst (f_Lstat L (render cs) (o_world fs)) = Inr i)"
    "\<forall>e. fst (f_Lstat L (render cs) (o_world fs)) = Inl e \<longrightarrow> errors_Is e ErrNotExist"
    using u(1) c2(1) by auto
  then show thesis
    using that [of cs info source u c2] cs(2,4,5) ne found u c2(1) fs' by simp
qed

lemma Remove_hides:
  assumes i: "inv fs" and eq: "ov_Remove name recursive fs = (Inr (), fs')"
  obtains cs info source where "valid_comps cs" "cs \<noteq> []"
    "fst (resolveMerged (o_resolve name fs) False fs) = Inr (render cs, info, source)" "mphys fs' cs"
    "\<exists>e. vis fs' (render cs) = Inl e \<and> errors_Is e ErrNotExist"
    "\<forall>es. valid_comps es \<longrightarrow> \<not> prefix cs es \<longrightarrow> mphys fs es \<longrightarrow> mphys fs' es \<and> vis fs' (render es) = vis fs (render es)"
proof -
  obtain cs info source u c where cs: "valid_comps cs" "cs \<noteq> []" "mphys fs cs" "vis fs (render cs) = Inr (info, source)"
    "fst (resolveMerged (o_resolve name fs) False fs) = Inr (render cs, info, source)"
    and u: "apart (o_upper fs) u [cs]" "at u cs = None"
    and fs': "fs' = (if \<exists>i. fst (f_Lstat L (render cs) (o_world fs)) = Inr i then addTombstone (render cs) ((recache fs c)\<lparr>o_upper := u\<rparr>)
            else (recache fs c)\<lparr>o_upper := u\<rparr>)"
    and low: "\<forall>e. fst (f_Lstat L (render cs) (o_world fs)) = Inl e \<longrightarrow> errors_Is e ErrNotExist"
    by (rule remove_steps [OF i eq])
  have i': "inv fs'" by (rule keepsD [OF keeps_Remove i eq])
  have f: "o_upper fs' = u" "o_world fs' = o_world fs" using fs' by (auto simp: addTombstone_def)
  have hid: "isHidden (render es) ((recache fs c)\<lparr>o_upper := u\<rparr>) = isHidden (render es) fs" for es by (simp add: isHidden_def)
  have rest: "mphys fs' es \<and> vis fs' (render es) = vis fs (render es)"
    if "valid_comps es" "\<not> prefix cs es" "mphys fs es" for es
    by (rule apart_vis_any [OF i i' _ f(2) _ that(1,3), of "[cs]"])
      (use that u(1) f(1) fs' isHidden_add [OF cs(1), of _ "(recache fs c)\<lparr>o_upper := u\<rparr>"] hid in \<open>simp_all split: if_splits\<close>)
  obtain ds c where d: "cs = ds @ [c]" using cs(2) by (metis rev_exhaust)
  have ph: "mphys fs' cs" using rest [of ds] cs(1,3) d by (simp add: vis_dir_def)
  have "\<exists>e. vis fs' (render cs) = Inl e \<and> errors_Is e ErrNotExist"
  proof (cases "fst (f_Lstat L (render cs) (o_world fs))")
    case (Inl e)
    with low vis_missing [OF i' cs(1) ph] f u(2) show ?thesis by auto
  next
    case (Inr j)
    then have "isHidden (render cs) fs'" using fs' isHidden_add [OF cs(1,1)] by simp
    with vis_missing [OF i' cs(1) ph] f u(2) show ?thesis by simp
  qed
  with that [OF cs(1,2,5) ph] rest show thesis by blast
qed

end

end
