(* ===== verification/Overlay_Memory.thy ===== *)
theory Overlay_Memory
  imports Overlay_Remove
begin

text \<open>
  The in-memory file system as the lower layer of an overlay: it meets the contract
  \<open>lower_layer\<close> as long as none of its files is lazy. Only the opening of a named pipe
  leaves a trace in it, and no lookup sees that.
\<close>

section \<open>States that differ in pipes only\<close>

definition pipes_only :: "MemoryFS \<Rightarrow> MemoryFS \<Rightarrow> bool" where
  "pipes_only m m' \<longleftrightarrow> fs_nodes m' = fs_nodes m \<and> fs_cwd m' = fs_cwd m \<and>
     (\<forall>r. \<exists>q. fs_heap m' r = (fs_heap m r)\<lparr>n_fifo := q\<rparr>)"

lemma pipes_only_refl [simp]: "pipes_only m m"
proof -
  have "\<exists>q. n = n\<lparr>n_fifo := q\<rparr>" for n :: memoryNode by (rule exI [of _ "n_fifo n"]) simp
  then show ?thesis by (simp add: pipes_only_def)
qed

lemma pipes_only_update: "pipes_only m (update_node r (\<lambda>n. n\<lparr>n_fifo := q\<rparr>) m)"
proof -
  have "\<exists>q. n = n\<lparr>n_fifo := q\<rparr>" for n :: memoryNode by (rule exI [of _ "n_fifo n"]) simp
  then show ?thesis by (auto simp: pipes_only_def)
qed

lemma pipes_onlyD:
  assumes "pipes_only m m'"
  shows "ref_at m' p = ref_at m p" "fs_cwd m' = fs_cwd m" "n_mode (fs_heap m' r) = n_mode (fs_heap m r)"
    "n_target (fs_heap m' r) = n_target (fs_heap m r)" "n_children (fs_heap m' r) = n_children (fs_heap m r)"
    "n_lazy (fs_heap m' r) = n_lazy (fs_heap m r)" "newFileInfo b (fs_heap m' r) = newFileInfo b (fs_heap m r)"
proof -
  from assms obtain q where "fs_heap m' r = (fs_heap m r)\<lparr>n_fifo := q\<rparr>" by (auto simp: pipes_only_def)
  then show "n_mode (fs_heap m' r) = n_mode (fs_heap m r)" "n_target (fs_heap m' r) = n_target (fs_heap m r)"
    "n_children (fs_heap m' r) = n_children (fs_heap m r)" "n_lazy (fs_heap m' r) = n_lazy (fs_heap m r)"
    "newFileInfo b (fs_heap m' r) = newFileInfo b (fs_heap m r)"
    by (simp_all add: newFileInfo_def isLazyFileNode_def)
qed (use assms in \<open>simp_all add: pipes_only_def ref_at_def\<close>)

lemma resolveAbs_loop_pipes:
  "pipes_only m m' \<Longrightarrow> resolveAbs_loop m' ff am cur rem = resolveAbs_loop m ff am cur rem"
proof (induction m ff am cur rem rule: resolveAbs_loop.induct)
  case (1 m ff am cur rem)
  note d = pipes_onlyD [OF "1.prems"]
  show ?case
  proof (cases "rem = ''''")
    case False
    obtain part rest where p: "next_part rem = (part, rest)" by (metis prod.collapse)
    show ?thesis
      using "1.IH" [OF False p [symmetric] refl refl refl] "1.prems" False p
      by (auto simp: resolveAbs_loop.simps [of m ff am cur rem] resolveAbs_loop.simps [of m' ff am cur rem] d Let_def
          split: option.split)
  qed (simp add: resolveAbs_loop.simps d)
qed

lemma resolveAbs_pipes:
  "pipes_only m m' \<Longrightarrow> resolveAbsLocked m' p ff am depth = resolveAbsLocked m p ff am depth"
proof (induction m p ff am depth rule: resolveAbsLocked.induct)
  case (1 m p ff am depth)
  then show ?case
    by (simp add: resolveAbsLocked.simps [of m p ff am depth] resolveAbsLocked.simps [of m' p ff am depth]
        pipes_onlyD [OF "1.prems"] resolveAbs_loop_pipes [OF "1.prems"] Let_def split: option.split walk.split)
qed

lemma resolvePath_pipes: "pipes_only m m' \<Longrightarrow> resolvePathLocked m' p ff am = resolvePathLocked m p ff am"
  by (simp add: resolvePathLocked_def resolveAbs_pipes pipes_onlyD(2))

section \<open>The contract\<close>

definition no_lazy :: "MemoryFS \<Rightarrow> bool" where
  "no_lazy m = list_all (\<lambda>(p, r). n_lazy (fs_heap m r) = None) (fs_nodes m)"

definition loaded :: "MemoryFS \<Rightarrow> bool" where
  "loaded m \<longleftrightarrow> fs_wf m \<and> no_lazy m"

lemma loaded_materialize:
  assumes "loaded m"
  shows "materializePath q ff mo m = (map_sum id fst (resolvePathLocked m q ff False), m)"
proof -
  have "n_lazy (fs_heap m r) = None" if res: "resolvePathLocked m q ff False = Inr (p, Some r)" for p r
  proof -
    obtain cs where "Some r = at m cs" by (rule resolvePathLocked_result [OF _ res]) (use assms in \<open>auto simp: loaded_def\<close>)
    then have "(render cs, r) \<in> set (fs_nodes m)" by (metis at_def ref_at_def map_of_SomeD)
    then show ?thesis using assms by (auto simp: loaded_def no_lazy_def list_all_iff)
  qed
  then show ?thesis by (auto simp: materializePath_def isLazyFileNode_def split: sum.splits option.splits)
qed

lemma loaded_Lstat: "loaded m \<Longrightarrow> mem_Lstat p m = (fst (mem_Lstat p m), m)"
  by (auto simp: mem_Lstat_def mem_stat_op_def loaded_materialize split: sum.splits option.splits)

lemma pipes_only_lookups:
  assumes p: "pipes_only m m'" and l: "loaded m" and l': "loaded m'"
  shows "fst (mem_Lstat q m') = fst (mem_Lstat q m)" "mem_Readlink q m' = mem_Readlink q m" "mem_ReadDir q m' = mem_ReadDir q m"
proof -
  note d = pipes_onlyD [OF p] resolvePath_pipes [OF p]
  have n: "node_at m' x = None \<longleftrightarrow> node_at m x = None" "node_at m x = Some k \<Longrightarrow> node_at m' x = Some k' \<Longrightarrow>
      n_mode k' = n_mode k \<and> newFileInfo b k' = newFileInfo b k" for x k k' b
    using d by (auto simp: node_at_def split: option.splits)

  show "mem_Readlink q m' = mem_Readlink q m" by (auto simp: mem_Readlink_def d split: sum.split prod.split option.split)
  show "fst (mem_Lstat q m') = fst (mem_Lstat q m)"
    using n(2) by (auto simp: mem_Lstat_def mem_stat_op_def loaded_materialize [OF l] loaded_materialize [OF l'] d
        split: sum.split option.split)
      (metis n(1) option.distinct(1))+
  show "mem_ReadDir q m' = mem_ReadDir q m"
    using n(2) by (auto simp: mem_ReadDir_def d split: sum.split prod.split option.split)
      (metis n(1) option.distinct(1))+
qed

lemma open_reading_pipes:
  assumes l: "loaded m" and f: "\<not> hasWriteIntent flag" and eq: "mem_OpenFile now p flag perm m = (r, m')"
  shows "pipes_only m m'"
proof -
  have bits: "x AND (a OR b OR c) = 0 \<Longrightarrow> x AND b = 0 \<and> x AND c = 0" for x a b c :: goflags
    by (auto simp: bit_eq_iff bit_simps)
  from f have fl: "\<not> canWrite flag" "flag AND O_CREATE = 0" "flag AND O_TRUNC = 0"
    using bits [of flag O_APPEND O_CREATE O_TRUNC] by (auto simp: hasWriteIntent_def split: if_splits)
  have pre: "open_preload p flag m = (x, m1) \<Longrightarrow> m1 = m" for x m1
    by (auto simp: open_preload_def loaded_materialize [OF l] split: if_splits prod.splits sum.splits)
  have mk: "open_make now flag perm q ref m = (x, m1) \<Longrightarrow> m1 = m" for q ref x m1
    using fl by (auto simp: open_make_def split: option.splits if_splits)
  have fin: "open_finish now flag q ref m = (x, m1) \<Longrightarrow> pipes_only m m1" for q ref x m1
    using fl by (auto simp: open_finish_def Let_def intro: pipes_only_update split: if_splits prod.splits)
  from eq show ?thesis
    by (auto simp: mem_OpenFile_def split: sum.splits prod.splits dest!: pre mk dest: fin)
qed

lemma mem_Lstat_kind:
  assumes l: "loaded m" and eq: "fst (mem_Lstat p m) = Inr i" and d: "mode_IsDir (fi_mode i)"
  shows "fi_mode i AND ModeSymlink = 0"
proof -
  have wf: "fs_wf m" using l by (simp add: loaded_def)
  from eq obtain q ref where res: "resolvePathLocked m p False False = Inr (q, ref)"
    and n: "map_option (newFileInfo (path_Base q)) (node_at m q) = Some i"
    by (cases "resolvePathLocked m p False False")
      (auto simp: mem_Lstat_def mem_stat_op_def loaded_materialize [OF l] split: option.splits)
  from resolvePathLocked_result [OF wf res] obtain cs where cs: "valid_comps cs" "q = render cs" by metis
  from n obtain r where r: "at m cs = Some r" "i = newFileInfo (path_Base q) (fs_heap m r)"
    by (auto simp: node_at_def at_def cs(2))
  with d wf_dir_not_link [OF wf cs(1) r(1)] show ?thesis
    by (auto simp: newFileInfo_def node_dir_def node_link_def)
qed

text \<open>
  The states a lower layer can take when it starts as \<open>m\<close>: they differ from \<open>m\<close> in the
  ends of pipes at most.
\<close>

definition lower_of :: "MemoryFS \<Rightarrow> MemoryFS \<Rightarrow> bool" where
  "lower_of m w \<longleftrightarrow> loaded w \<and> pipes_only m w"

lemma pipes_only_trans: "pipes_only m m1 \<Longrightarrow> pipes_only m1 m2 \<Longrightarrow> pipes_only m m2"
proof -
  assume a: "pipes_only m m1" "pipes_only m1 m2"
  have "\<exists>q. fs_heap m2 r = (fs_heap m r)\<lparr>n_fifo := q\<rparr>" for r
  proof -
    from a obtain q q' where "fs_heap m1 r = (fs_heap m r)\<lparr>n_fifo := q\<rparr>" "fs_heap m2 r = (fs_heap m1 r)\<lparr>n_fifo := q'\<rparr>"
      unfolding pipes_only_def by blast
    then show ?thesis by auto
  qed
  with a show ?thesis by (simp add: pipes_only_def)
qed

interpretation memlow: lower_layer "memory_FileSystem t" "lower_of m"
proof unfold_locales
  fix w p assume lo: "lower_of m w"
  then have l: "loaded w" and m: "pipes_only m w" by (simp_all add: lower_of_def)
  have wf: "fs_wf w" using l by (simp add: loaded_def)
  show "mode_IsDir (fi_mode i) \<Longrightarrow> fi_mode i AND ModeSymlink = 0" if "fst (f_Lstat (memory_FileSystem t) p w) = Inr i" for i
    using mem_Lstat_kind [OF l] that by (simp add: memory_FileSystem_def)
  show "valid_comp (de_name e)" if "fst (f_ReadDir (memory_FileSystem t) p w) = Inr es" "e \<in> set es" for es e
    using mem_ReadDir_names [OF wf] that by (simp add: memory_FileSystem_def)
  show "snd (f_Lstat (memory_FileSystem t) p w) = w"
    using loaded_Lstat [OF l] by (simp add: memory_FileSystem_def) (metis snd_conv)
  show "snd (f_Readlink (memory_FileSystem t) p w) = w" "snd (f_ReadDir (memory_FileSystem t) p w) = w"
    by (simp_all add: memory_FileSystem_def)
  fix flag perm r w'
  assume f: "\<not> hasWriteIntent flag" and eq: "f_OpenFile (memory_FileSystem t) p flag perm w = (r, w')"
  then have eq: "mem_OpenFile t p flag perm w = (r, w')" by (simp add: memory_FileSystem_def)
  note po = open_reading_pipes [OF l f eq]
  have "fs_nodes w' = fs_nodes w" using po by (simp add: pipes_only_def)
  then have l': "loaded w'" using l mem_OpenFile_wf [OF _ eq] pipes_onlyD(6) [OF po] by (simp add: loaded_def no_lazy_def)
  with pipes_only_lookups [OF po l l'] pipes_only_trans [OF m po]
  show "lower_of m w' \<and> (\<forall>q. fst (f_Lstat (memory_FileSystem t) q w') = fst (f_Lstat (memory_FileSystem t) q w)) \<and>
      (\<forall>q. fst (f_Readlink (memory_FileSystem t) q w') = fst (f_Readlink (memory_FileSystem t) q w)) \<and>
      (\<forall>q. fst (f_ReadDir (memory_FileSystem t) q w') = fst (f_ReadDir (memory_FileSystem t) q w))"
    by (simp add: memory_FileSystem_def lower_of_def)
qed

end
