(* ===== verification/Overlay_Props.thy ===== *)
theory Overlay_Props
  imports Overlay_Memory
begin

text \<open>
  What the overlay promises, stated for an in-memory lower layer: the reachable states,
  the isolation of the lower layer, the cache of directories, resolved names, removal and
  copy-up.
\<close>

section \<open>Reachable states\<close>

definition memory_overlay :: "gotime \<Rightarrow> (string \<Rightarrow> go_error + bytes) \<Rightarrow> MemoryFS \<Rightarrow> (MemoryFS, handle) OverlayFS" where
  "memory_overlay t content m = NewOverlay t (memory_FileSystem t) content m"

inductive ov_step :: "('w, 'h) OverlayFS \<Rightarrow> ('w, 'h) OverlayFS \<Rightarrow> bool" where
  OpenFile: "ov_OpenFile now name flag perm fs = (r1, fs') \<Longrightarrow> ov_step fs fs'"
| Stat: "ov_Stat name fs = (r2, fs') \<Longrightarrow> ov_step fs fs'"
| Lstat: "ov_Lstat name fs = (r2, fs') \<Longrightarrow> ov_step fs fs'"
| ReadDir: "ov_ReadDir name fs = (r3, fs') \<Longrightarrow> ov_step fs fs'"
| Readlink: "ov_Readlink name fs = (r4, fs') \<Longrightarrow> ov_step fs fs'"
| Realpath: "ov_Realpath name fs = (r4, fs') \<Longrightarrow> ov_step fs fs'"
| Symlink: "ov_Symlink now target name fs = (r, fs') \<Longrightarrow> ov_step fs fs'"
| Mkfifo: "ov_Mkfifo now name perm fs = (r, fs') \<Longrightarrow> ov_step fs fs'"
| Link: "ov_Link now old name fs = (r, fs') \<Longrightarrow> ov_step fs fs'"
| Chmod: "ov_Chmod now name mode fs = (r, fs') \<Longrightarrow> ov_step fs fs'"
| Chown: "ov_Chown now name uid gid follow fs = (r, fs') \<Longrightarrow> ov_step fs fs'"
| Chtimes: "ov_Chtimes now name atime mtime fs = (r, fs') \<Longrightarrow> ov_step fs fs'"
| Lchtimes: "ov_Lchtimes now name atime mtime fs = (r, fs') \<Longrightarrow> ov_step fs fs'"
| MkdirAll: "ov_MkdirAll now name perm fs = (r, fs') \<Longrightarrow> ov_step fs fs'"
| Remove: "ov_Remove name recursive fs = (r, fs') \<Longrightarrow> ov_step fs fs'"
| Rename: "ov_Rename fuel now old name fs = Some (r, fs') \<Longrightarrow> ov_step fs fs'"
| Chdir: "ov_Chdir name fs = (r, fs') \<Longrightarrow> ov_step fs fs'"

inductive ov_reach :: "('w, 'h) OverlayFS \<Rightarrow> ('w, 'h) OverlayFS \<Rightarrow> bool" for start where
  init: "ov_reach start start"
| step: "ov_reach start fs \<Longrightarrow> ov_step fs fs' \<Longrightarrow> ov_reach start fs'"

lemma upper_ok_new: "upper_ok (newMemoryWithImplicitParents now)"
  using newMemoryWithImplicitParents_wf [of now]
  by (simp add: upper_ok_def sized_def newMemoryWithImplicitParents_def NewMemory_def blank_node_def)

context lower_layer
begin

lemma step_inv: "ov_step fs fs' \<Longrightarrow> inv fs \<Longrightarrow> inv fs'"
  by (induction rule: ov_step.induct)
    (blast intro: keepsD [OF keeps_OpenFile] keepsD [OF keeps_ov_lookups(1)] keepsD [OF keeps_ov_lookups(2)]
      keepsD [OF keeps_ov_lookups(3)] keepsD [OF keeps_ov_lookups(4)] keepsD [OF keeps_ReadDir]
      keepsD [OF keeps_ov_changes(1)] keepsD [OF keeps_ov_changes(2)] keepsD [OF keeps_ov_changes(3)]
      keepsD [OF keeps_ov_changes(4)] keepsD [OF keeps_ov_changes(5)] keepsD [OF keeps_ov_changes(6)]
      keepsD [OF keeps_Link] keepsD [OF keeps_MkdirAll] keepsD [OF keeps_Remove] keepsD [OF keeps_Chdir] Rename_inv)+

lemma reach_inv: "ov_reach fs0 fs \<Longrightarrow> inv fs0 \<Longrightarrow> inv fs"
  by (induction rule: ov_reach.induct) (auto intro: step_inv)

lemma NewOverlay_inv: "ok w \<Longrightarrow> inv (NewOverlay t L content w)"
  by (simp add: inv_def cache_ok_def NewOverlay_def upper_ok_new)

text \<open>\<open>Lstat\<close> at a physical path of the merged view, and below a missing one.\<close>

lemma Lstat_physical:
  assumes "inv fs" "valid_comps cs" "mphys fs cs" "vis fs (render cs) = Inr (i, s)"
  shows "fst (resolveMerged (render cs) False fs) = Inr (render cs, i, s)" "fst (ov_Lstat (render cs) fs) = Inr i"
proof -
  have "mresolve fs (render cs) False overlayMissingNone 0 = Inr (render cs, Some i, s)"
    by (rule mresolve_ident) (use assms in \<open>simp_all add: maxSymlinkDepth_def\<close>)
  then show r: "fst (resolveMerged (render cs) False fs) = Inr (render cs, i, s)"
    by (rule_tac resolveMerged_pure [OF assms(1), of "render cs" False]) simp
  show "fst (ov_Lstat (render cs) fs) = Inr i"
    using r assms(2) by (cases "resolveMerged (render cs) False fs")
      (auto simp: ov_Lstat_def o_resolve_def andThen_def mapError_def gives_def)
qed

lemma Lstat_below_missing:
  assumes "inv fs" "valid_comps (cs @ ds)" "cs \<noteq> []" "mphys fs cs" "vis fs (render cs) = Inl e" "errors_Is e ErrNotExist"
  shows "\<exists>e. fst (ov_Lstat (render (cs @ ds)) fs) = Inl e \<and> errors_Is e ErrNotExist"
proof -
  have "mresolve fs (render (cs @ ds)) False overlayMissingNone 0 = Inl (Errno ErrNotExist)"
    by (rule mresolve_missing [of _ _ cs e]) (use assms in \<open>simp_all add: maxSymlinkDepth_def\<close>)
  then have "fst (resolveMerged (render (cs @ ds)) False fs) = Inl (Errno ErrNotExist)"
    by (rule_tac resolveMerged_pure [OF assms(1), of "render (cs @ ds)" False]) simp
  then show ?thesis
    using assms(2) by (cases "resolveMerged (render (cs @ ds)) False fs")
      (auto simp: ov_Lstat_def o_resolve_def andThen_def mapError_def toPathError_def)
qed

lemma resolved_physical:
  assumes "inv fs" "fst (resolveMerged p ff fs) = Inr (q, i, s)"
  shows "\<exists>cs. valid_comps cs \<and> q = render cs \<and> mphys fs cs \<and> vis fs (render cs) = Inr (i, s) \<and> (ff \<longrightarrow> fi_mode i AND ModeSymlink = 0)"
proof -
  from assms(2) have "resolveMerged p ff fs = (Inr (q, i, s), snd (resolveMerged p ff fs))" by (metis prod.collapse)
  then obtain cs c where "valid_comps cs" "q = render cs" "mphys fs cs" "vis fs (render cs) = Inr (i, s)"
    "ff \<longrightarrow> fi_mode i AND ModeSymlink = 0" by (rule resolveMerged_result [OF assms(1)])
  then show ?thesis by blast
qed

end

lemma memory_overlay_inv:
  assumes "loaded m" "ov_reach (memory_overlay t content m) fs"
  shows "memlow.inv t m fs"
proof -
  have "lower_of m m" using assms(1) by (simp add: lower_of_def)
  then have "memlow.inv t m (memory_overlay t content m)"
    unfolding memory_overlay_def by (rule memlow.NewOverlay_inv)
  then show ?thesis by (rule memlow.reach_inv [OF assms(2)])
qed

section \<open>Properties\<close>



text \<open>
  The cache of lower directories is transparent: a reachable overlay resolves every
  name, with or without a missing last component, as it would with an empty cache.
\<close>

theorem overlay_cache_transparent:
  assumes "loaded m" "ov_reach (memory_overlay t content m) fs"
  shows "fst (resolveMergedPath p followFinal missing fs) =
    fst (resolveMergedPath p followFinal missing (fs\<lparr>o_lowerDirs := Map.empty\<rparr>))"
proof -
  note i = memory_overlay_inv [OF assms]
  have i': "memlow.inv t m (recache fs Map.empty)" using i by (simp add: memlow.inv_def memlow.cache_ok_def)
  from memlow.resolve_pure [OF i, of p followFinal missing 0] memlow.resolve_pure [OF i', of p followFinal missing 0]
  show ?thesis by (auto simp: resolveMergedPath_def)
qed

text \<open>
  \<open>Realpath\<close> of the overlay gives a clean absolute path that it resolves to itself,
  and whose entry in the merged view is no link.
\<close>

theorem overlay_Realpath_idempotent:
  assumes reach: "loaded m" "ov_reach (memory_overlay t content m) fs" and eq: "ov_Realpath name fs = (Inr p, fs')"
  shows "clean_path p \<and> fst (ov_Realpath p fs') = Inr p \<and>
    (\<exists>i. fst (ov_Lstat p fs') = Inr i \<and> fi_mode i AND ModeSymlink = 0)"
proof -
  note i = memory_overlay_inv [OF reach]
  have i': "memlow.inv t m fs'" by (rule memlow.keepsD [OF memlow.keeps_ov_lookups(4) i eq])
  from eq obtain j s where res: "resolveMerged (o_resolve name fs) True fs = (Inr (p, j, s), fs')"
    by (auto simp: ov_Realpath_def Let_def gives_def elim!: andThenE mapErrorE)
  obtain cs c where cs: "fs' = recache fs c" "valid_comps cs" "p = render cs" "mphys fs cs"
    "vis fs (render cs) = Inr (j, s)" "True \<longrightarrow> fi_mode j AND ModeSymlink = 0"
    by (rule memlow.resolveMerged_result [OF i res])
  have "mresolve fs' (render cs) True overlayMissingNone 0 = Inr (render cs, Some j, s)"
    by (rule memlow.mresolve_ident) (use cs in \<open>simp_all add: maxSymlinkDepth_def\<close>)
  then have "fst (resolveMerged (render cs) True fs') = Inr (render cs, j, s)"
    by (rule_tac memlow.resolveMerged_pure [OF i', of "render cs" True]) simp
  then have "fst (ov_Realpath p fs') = Inr p"
    using cs(2,3) by (cases "resolveMerged (render cs) True fs'")
      (auto simp: ov_Realpath_def o_resolve_def andThen_def mapError_def gives_def)
  moreover have "fst (ov_Lstat p fs') = Inr j"
    using memlow.Lstat_physical(2) [OF i' cs(2), of j s] cs by simp
  ultimately show ?thesis using cs by (auto simp: clean_path_def)
qed



section \<open>Examples\<close>

text \<open>A lower layer with one file in a directory, and the overlay after that file was removed.\<close>

definition demo_lower :: MemoryFS where
  "demo_lower = snd (mem_OpenFile 5 ''/d/f'' create_flags 0x1A4 (snd (mem_MkdirAll 5 ''/d'' 0 (NewMemory 1))))"

definition demo_overlay :: "(MemoryFS, handle) OverlayFS" where
  "demo_overlay = memory_overlay 7 (\<lambda>_. Inr ''x'') demo_lower"

definition demo_removed :: "(MemoryFS, handle) OverlayFS" where
  "demo_removed = snd (ov_Remove ''/d/f'' False demo_overlay)"

lemma demo_loaded: "loaded demo_lower"
proof -
  have "no_lazy demo_lower" by code_simp
  moreover have "fs_wf demo_lower"
    unfolding demo_lower_def
    by (rule mem_OpenFile_wf [OF mem_MkdirAll_wf [OF NewMemory_wf surjective_pairing] surjective_pairing])
  ultimately show ?thesis by (simp add: loaded_def)
qed

lemma demo_reach: "ov_reach (memory_overlay 7 (\<lambda>_. Inr ''x'') demo_lower) demo_overlay"
  "ov_reach (memory_overlay 7 (\<lambda>_. Inr ''x'') demo_lower) demo_removed"
proof -
  show r: "ov_reach (memory_overlay 7 (\<lambda>_. Inr ''x'') demo_lower) demo_overlay"
    by (simp add: demo_overlay_def ov_reach.init)
  show "ov_reach (memory_overlay 7 (\<lambda>_. Inr ''x'') demo_lower) demo_removed"
    unfolding demo_removed_def by (rule ov_reach.step [OF r], rule ov_step.Remove, rule surjective_pairing)
qed




theorem overlay_cache_transparent_witness:
  "o_lowerDirs demo_removed ''/d'' \<noteq> None \<and>
   fst (resolveMergedPath ''/d/g'' True overlayMissingFinal demo_removed) =
   fst (resolveMergedPath ''/d/g'' True overlayMissingFinal (demo_removed\<lparr>o_lowerDirs := Map.empty\<rparr>))"
proof -
  have "o_lowerDirs demo_removed ''/d'' \<noteq> None" by code_simp
  with overlay_cache_transparent [OF demo_loaded demo_reach(2)] show ?thesis by blast
qed

theorem overlay_Realpath_idempotent_witness:
  "\<exists>fs'. ov_Realpath ''/d/../d'' demo_removed = (Inr ''/d'', fs') \<and> fst (ov_Realpath ''/d'' fs') = Inr ''/d''"
proof -
  have "fst (ov_Realpath ''/d/../d'' demo_removed) = Inr ''/d''" by code_simp
  then have eq: "ov_Realpath ''/d/../d'' demo_removed = (Inr ''/d'', snd (ov_Realpath ''/d/../d'' demo_removed))"
    by (metis prod.collapse)
  with overlay_Realpath_idempotent [OF demo_loaded demo_reach(2) eq] show ?thesis by blast
qed




end
