(* ===== verification/Mountable.thy ===== *)
theory Mountable
  imports Clone
begin

text \<open>
  The multi-mount file system of \<open>fs/mountable.go\<close>: a table of file systems mounted at
  clean paths over a base. The state keeps the table as an association list: its order is
  one of the orders in which Go may iterate the map, and theory \<open>Mountable_Props\<close> shows
  that no result depends on it. Base and mounts are objects of the interface over one
  shared state. The messages of plain errors are kept without their quoted arguments.
\<close>

section \<open>Views of a mounted file system\<close>

definition prefixMountPath :: "string \<Rightarrow> string \<Rightarrow> string" where
  "prefixMountPath mountPoint pathValue =
     (if Clean pathValue = ''/'' then mountPoint
      else Resolve mountPoint (TrimPrefix (Clean pathValue) ''/''))"

definition namespaceError :: "string \<Rightarrow> go_error \<Rightarrow> go_error" where
  "namespaceError mountPoint err =
     (if mountPoint = '''' then err
      else (case as_PathError err of
              Some (PathError op p e) \<Rightarrow> PathError op (prefixMountPath mountPoint p) e
            | _ \<Rightarrow>
                (case as_LinkError err of
                   Some (LinkError op old new e) \<Rightarrow>
                     LinkError op (prefixMountPath mountPoint old) (prefixMountPath mountPoint new) e
                 | _ \<Rightarrow> err)))"

definition namespaced :: "string \<Rightarrow> ('w, 'a) act \<Rightarrow> ('w, 'a) act" where
  "namespaced mountPoint = mapError (namespaceError mountPoint)"

definition namespacedFS :: "string \<Rightarrow> ('w, 'h) FileSystem \<Rightarrow> ('w, 'h) FileSystem" where
  "namespacedFS mp inner =
     \<lparr>f_Open = (\<lambda>name. namespaced mp (f_Open inner name)),
      f_OpenFile = (\<lambda>name flag perm. namespaced mp (f_OpenFile inner name flag perm)),
      f_Stat = (\<lambda>name. namespaced mp (f_Stat inner name)),
      f_Lstat = (\<lambda>name. namespaced mp (f_Lstat inner name)),
      f_ReadDir = (\<lambda>name. namespaced mp (f_ReadDir inner name)),
      f_Info = f_Info inner,
      f_Readlink = (\<lambda>name. namespaced mp (f_Readlink inner name)),
      f_Realpath = (\<lambda>name. andThen (namespaced mp (f_Realpath inner name)) (\<lambda>resolved. gives (prefixMountPath mp resolved))),
      f_Symlink = (\<lambda>target linkName. namespaced mp (f_Symlink inner target linkName)),
      f_Link = (\<lambda>oldName newName. namespaced mp (f_Link inner oldName newName)),
      f_Chown = (\<lambda>name uid gid follow. namespaced mp (f_Chown inner name uid gid follow)),
      f_Chmod = (\<lambda>name mode. namespaced mp (f_Chmod inner name mode)),
      f_Chtimes = (\<lambda>name atime mtime. namespaced mp (f_Chtimes inner name atime mtime)),
      f_Lchtimes = Some (\<lambda>name atime mtime. namespaced mp
         (case f_Lchtimes inner of
            None \<Rightarrow> f_Chtimes inner name atime mtime
          | Some lchtimes \<Rightarrow> lchtimes name atime mtime)),
      f_MkdirAll = (\<lambda>name perm. namespaced mp (f_MkdirAll inner name perm)),
      f_Mkfifo = Some (\<lambda>name perm. namespaced mp (mkfifoViaOptional inner name perm)),
      f_Remove = (\<lambda>name recursive. namespaced mp (f_Remove inner name recursive)),
      f_Rename = (\<lambda>oldName newName w.
         case f_Rename inner oldName newName w of
           None \<Rightarrow> None
         | Some (Inl e, w1) \<Rightarrow> Some (Inl (namespaceError mp e), w1)
         | Some (Inr u, w1) \<Rightarrow> Some (Inr u, w1)),
      f_Getwd = (\<lambda>w. prefixMountPath mp (f_Getwd inner w)),
      f_Chdir = (\<lambda>name. namespaced mp (f_Chdir inner name)),
      f_Read = f_Read inner,
      f_Write = f_Write inner,
      f_Close = f_Close inner\<rparr>"

text \<open>Synthetic directories above mount points, and the renamed root of a mount.\<close>

definition syntheticDirInfo :: "string \<Rightarrow> fileInfo" where
  "syntheticDirInfo absn =
     \<lparr>fi_name = (if absn = ''/'' then ''/'' else path_Base absn), fi_size = 0, fi_mode = ModeDir OR 0x1ED,
      fi_atime = 0, fi_modTime = 0, fi_uid = DefaultOwnerUID, fi_gid = DefaultOwnerGID, fi_nodeID = 0,
      fi_owned = True\<rparr>"

definition remapFileInfoName :: "string \<Rightarrow> fileInfo \<Rightarrow> fileInfo" where
  "remapFileInfoName name info = info\<lparr>fi_name := name\<rparr>"

section \<open>The mount table\<close>

record ('w, 'h) MountableFS =
  m_base :: "('w, 'h) FileSystem"
  m_cwd :: string
  m_mounts :: "(string \<times> ('w, 'h) FileSystem) list"
  m_world :: 'w

definition NewMountable :: "('w, 'h) FileSystem \<Rightarrow> 'w \<Rightarrow> ('w, 'h) MountableFS" where
  "NewMountable base w = \<lparr>m_base = base, m_cwd = ''/'', m_mounts = [], m_world = w\<rparr>"

definition pathWithinMount :: "string \<Rightarrow> string \<Rightarrow> bool" where
  "pathWithinMount pathValue mountPoint = (pathValue = mountPoint \<or> HasPrefix pathValue (mountPoint @ ''/''))"

definition validateMountPath :: "string \<Rightarrow> go_error option" where
  "validateMountPath mountPoint0 =
     (let mountPoint = TrimSpace mountPoint0
      in if mountPoint = '''' then Some (Errorf ''mount point must be absolute'')
         else if \<not> HasPrefix mountPoint ''/'' then Some (Errorf ''mount point must be absolute'')
         else if list_ex (\<lambda>segment. segment = ''.'' \<or> segment = ''..'') (split_on slash mountPoint)
         then Some (Errorf ''invalid mount point: contains '.' or '..' segments'')
         else if Clean mountPoint = ''/'' then Some (Errorf ''cannot mount at root'')
         else None)"

fun validateMount_loop :: "string \<Rightarrow> string list \<Rightarrow> go_error option" where
  "validateMount_loop mountPoint [] = None"
| "validateMount_loop mountPoint (existing # rest) =
     (if existing = mountPoint then validateMount_loop mountPoint rest
      else if HasPrefix mountPoint (existing @ ''/'') then Some (Errorf ''cannot mount: inside existing mount'')
      else if HasPrefix existing (mountPoint @ ''/'') then Some (Errorf ''cannot mount: would contain existing mount'')
      else validateMount_loop mountPoint rest)"

definition validateMountLocked :: "string \<Rightarrow> ('w, 'h) MountableFS \<Rightarrow> go_error option" where
  "validateMountLocked mountPoint m = validateMount_loop mountPoint (map fst (m_mounts m))"

definition mt_Mount :: "string \<Rightarrow> ('w, 'h) FileSystem option \<Rightarrow> (('w, 'h) MountableFS, unit) act" where
  "mt_Mount mountPoint fsys m =
     (case fsys of
        None \<Rightarrow> (Inl (Errorf ''mount: filesystem is nil''), m)
      | Some f \<Rightarrow>
          (case validateMountPath mountPoint of
             Some e \<Rightarrow> (Inl e, m)
           | None \<Rightarrow>
               let normalized = Clean (TrimSpace mountPoint)
               in if normalized = ''/'' then (Inl (Errorf ''cannot mount at root''), m)
                  else (case validateMountLocked normalized m of
                          Some e \<Rightarrow> (Inl e, m)
                        | None \<Rightarrow> (Inr (), m\<lparr>m_mounts := AList.update normalized f (m_mounts m)\<rparr>))))"

definition mt_Unmount :: "string \<Rightarrow> (('w, 'h) MountableFS, unit) act" where
  "mt_Unmount mountPoint m =
     (let normalized = Clean (TrimSpace mountPoint)
      in (case map_of (m_mounts m) normalized of
            None \<Rightarrow> (Inl (Errorf ''no filesystem mounted''), m)
          | Some f \<Rightarrow>
              if pathWithinMount (m_cwd m) normalized
              then (Inl (PathError ''unmount'' normalized (Errno EBUSY)), m)
              else (Inr (), m\<lparr>m_mounts := AList.delete normalized (m_mounts m)\<rparr>)))"

definition mt_Mounts :: "('w, 'h) MountableFS \<Rightarrow> (string \<times> ('w, 'h) FileSystem) list" where
  "mt_Mounts m = sort_key fst (m_mounts m)"

definition mt_IsMountPoint :: "string \<Rightarrow> ('w, 'h) MountableFS \<Rightarrow> bool" where
  "mt_IsMountPoint pathValue m = (map_of (m_mounts m) (Clean pathValue) \<noteq> None)"

section \<open>Routing\<close>

definition mt_resolve :: "string \<Rightarrow> ('w, 'h) MountableFS \<Rightarrow> string" where
  "mt_resolve name m = Resolve (m_cwd m) name"

type_synonym ('w, 'h) mountedEntry = "string \<times> ('w, 'h) FileSystem"

definition routeLocked :: "string \<Rightarrow> ('w, 'h) MountableFS \<Rightarrow> ('w, 'h) mountedEntry option \<times> string" where
  "routeLocked abs0 m =
     (let absn = Clean abs0
      in (case map_of (m_mounts m) absn of
            Some f \<Rightarrow> (Some (absn, f), ''/'')
          | None \<Rightarrow>
              (case find (\<lambda>(mountPoint, _). HasPrefix absn (mountPoint @ ''/'')) (m_mounts m) of
                 Some (mountPoint, f) \<Rightarrow> (Some (mountPoint, f), TrimPrefix absn mountPoint)
               | None \<Rightarrow> (None, absn))))"

definition isSyntheticParentLocked :: "string \<Rightarrow> ('w, 'h) MountableFS \<Rightarrow> bool" where
  "isSyntheticParentLocked absn m =
     (if map_of (m_mounts m) absn \<noteq> None then False
      else list_ex (\<lambda>(mountPoint, _).
             (HasPrefix mountPoint (absn @ ''/'') \<or> absn = ''/'') \<and>
             (absn = ''/'' \<or> HasPrefix mountPoint (absn @ ''/''))) (m_mounts m))"

definition route :: "string \<Rightarrow> ('w, 'h) MountableFS \<Rightarrow> ('w, 'h) mountedEntry option \<times> string \<times> bool" where
  "route absn m = (case routeLocked absn m of (entry, rel) \<Rightarrow> (entry, rel, isSyntheticParentLocked absn m))"

definition entry_view :: "('w, 'h) MountableFS \<Rightarrow> ('w, 'h) mountedEntry option \<Rightarrow> ('w, 'h) FileSystem" where
  "entry_view m entry = (case entry of None \<Rightarrow> m_base m | Some (mp, f) \<Rightarrow> namespacedFS mp f)"

definition routedView :: "string \<Rightarrow> ('w, 'h) MountableFS \<Rightarrow> ('w, 'h) FileSystem \<times> string" where
  "routedView absn m = (case routeLocked absn m of (entry, rel) \<Rightarrow> (entry_view m entry, rel))"

definition childMountNames :: "string \<Rightarrow> ('w, 'h) MountableFS \<Rightarrow> string list" where
  "childMountNames abs0 m =
     (let absn = Clean abs0;
          pre = (if absn = ''/'' then '''' else absn);
          children = fold (\<lambda>(mountPoint, _) acc.
            if pre \<noteq> '''' \<and> \<not> HasPrefix mountPoint (pre @ ''/'') then acc
            else
              let remainder = (if pre = '''' then TrimPrefix mountPoint ''/'' else TrimPrefix mountPoint (pre @ ''/''));
                  child = hd (split_on slash remainder)
              in if child \<noteq> '''' then insert child acc else acc) (m_mounts m) {}
      in sorted_list_of_set children)"

definition pathContainsMount :: "string \<Rightarrow> ('w, 'h) MountableFS \<Rightarrow> bool" where
  "pathContainsMount absn m =
     (if absn = ''/'' then m_mounts m \<noteq> []
      else list_ex (\<lambda>(mountPoint, _). mountPoint = absn \<or> HasPrefix mountPoint (absn @ ''/'')) (m_mounts m))"

section \<open>Operations\<close>

text \<open>A call on the shared state, made by the object.\<close>

definition onWorld :: "('w, 'a) act \<Rightarrow> (('w, 'h) MountableFS, 'a) act" where
  "onWorld c m = (case c (m_world m) of (r, w) \<Rightarrow> (r, m\<lparr>m_world := w\<rparr>))"

definition procWorld :: "('w, 'a) proc \<Rightarrow> (('w, 'h) MountableFS, 'a) proc" where
  "procWorld c m = (case c (m_world m) of None \<Rightarrow> None | Some (r, w) \<Rightarrow> Some (r, m\<lparr>m_world := w\<rparr>))"

text \<open>Most operations resolve the name, find its view and call the method there.\<close>

definition onRouted ::
  "(('w, 'h) FileSystem \<Rightarrow> string \<Rightarrow> ('w, 'a) act) \<Rightarrow> string \<Rightarrow> (('w, 'h) MountableFS, 'a) act" where
  "onRouted c name m = (case routedView (mt_resolve name m) m of (fsys, rel) \<Rightarrow> onWorld (c fsys rel) m)"

definition mt_OpenFile :: "string \<Rightarrow> goflags \<Rightarrow> FileMode \<Rightarrow> (('w, 'h) MountableFS, 'h) act" where
  "mt_OpenFile name flag perm = onRouted (\<lambda>fsys rel. f_OpenFile fsys rel flag perm) name"

definition mt_Open :: "string \<Rightarrow> (('w, 'h) MountableFS, 'h) act" where
  "mt_Open name = mt_OpenFile name O_RDONLY 0"

text \<open>A failing call whose missing file is answered by \<open>v\<close>.\<close>

definition orSynthetic :: "'a \<Rightarrow> ('w, 'a) act \<Rightarrow> ('w, 'a) act" where
  "orSynthetic v c w =
     (case c w of
        (Inr x, w1) \<Rightarrow> (Inr x, w1)
      | (Inl e, w1) \<Rightarrow> if errors_Is e ErrNotExist then (Inr v, w1) else (Inl e, w1))"

text \<open>\<open>Stat\<close> and \<open>Lstat\<close> have the same body, over the method of the same name.\<close>

definition mt_stat_op ::
  "(('w, 'h) FileSystem \<Rightarrow> string \<Rightarrow> ('w, fileInfo) act) \<Rightarrow> string \<Rightarrow> (('w, 'h) MountableFS, fileInfo) act" where
  "mt_stat_op stat name m =
     (let absn = mt_resolve name m
      in (case route absn m of
            (Some (mp, f), rel, synthetic) \<Rightarrow>
              if rel = ''/'' then
                (case onWorld (stat f ''/'') m of
                   (Inr info, m1) \<Rightarrow> (Inr (remapFileInfoName (path_Base absn) info), m1)
                 | (Inl _, m1) \<Rightarrow> (Inr (syntheticDirInfo absn), m1))
              else onWorld (stat (namespacedFS mp f) rel) m
          | (None, rel, synthetic) \<Rightarrow>
              if synthetic then onWorld (orSynthetic (syntheticDirInfo absn) (stat (m_base m) absn)) m
              else onWorld (stat (m_base m) absn) m))"

definition mt_Stat :: "string \<Rightarrow> (('w, 'h) MountableFS, fileInfo) act" where
  "mt_Stat = mt_stat_op f_Stat"

definition mt_Lstat :: "string \<Rightarrow> (('w, 'h) MountableFS, fileInfo) act" where
  "mt_Lstat = mt_stat_op f_Lstat"

definition synthetic_entry :: "string \<Rightarrow> string \<Rightarrow> memoryDirEntry" where
  "synthetic_entry absn child =
     \<lparr>de_name = fi_name (syntheticDirInfo (joinChildPath absn child)), de_path = joinChildPath absn child,
      de_mode = fi_mode (syntheticDirInfo (joinChildPath absn child))\<rparr>"

definition mount_entries :: "string \<Rightarrow> memoryDirEntry list \<Rightarrow> ('w, 'h) MountableFS \<Rightarrow> memoryDirEntry list" where
  "mount_entries absn baseEntries m =
     (let byName = fold (\<lambda>e acc. AList.update (de_name e) e acc) baseEntries [];
          byName = fold (\<lambda>child acc.
             if map_of acc child \<noteq> None then acc
             else AList.update child (synthetic_entry absn child) acc) (childMountNames absn m) byName
      in map (\<lambda>n. the (map_of byName n)) (sorted_list_of_set (set (map fst byName))))"

definition mt_ReadDir :: "string \<Rightarrow> (('w, 'h) MountableFS, memoryDirEntry list) act" where
  "mt_ReadDir name m =
     (let absn = mt_resolve name m
      in (case route absn m of
            (Some (mp, f), rel, _) \<Rightarrow> onWorld (f_ReadDir (namespacedFS mp f) rel) m
          | (None, rel, synthetic) \<Rightarrow>
              if \<not> synthetic then onWorld (f_ReadDir (m_base m) absn) m
              else andThen (onWorld (orSynthetic [] (f_ReadDir (m_base m) absn)))
                     (\<lambda>baseEntries m1. (Inr (mount_entries absn baseEntries m1), m1)) m))"

definition mt_Readlink :: "string \<Rightarrow> (('w, 'h) MountableFS, string) act" where
  "mt_Readlink name m =
     (let absn = mt_resolve name m
      in (case route absn m of
            (Some (mp, f), rel, _) \<Rightarrow> onWorld (f_Readlink (namespacedFS mp f) rel) m
          | (None, _, _) \<Rightarrow> onWorld (f_Readlink (m_base m) absn) m))"

definition mt_Realpath :: "string \<Rightarrow> (('w, 'h) MountableFS, string) act" where
  "mt_Realpath name m =
     (let absn = mt_resolve name m
      in (case route absn m of
            (Some (mp, f), rel, _) \<Rightarrow>
              if rel = ''/'' then (Inr mp, m)
              else onWorld (f_Realpath (namespacedFS mp f) rel) m
          | (None, _, synthetic) \<Rightarrow>
              if synthetic then onWorld (orSynthetic absn (f_Realpath (m_base m) absn)) m
              else onWorld (f_Realpath (m_base m) absn) m))"

definition mt_Symlink :: "string \<Rightarrow> string \<Rightarrow> (('w, 'h) MountableFS, unit) act" where
  "mt_Symlink target linkName = onRouted (\<lambda>fsys rel. f_Symlink fsys target rel) linkName"

text \<open>Two routed paths are on one file system: both in the base, or in one mount.\<close>

definition same_entry :: "('w, 'h) mountedEntry option \<Rightarrow> ('w, 'h) mountedEntry option \<Rightarrow> bool" where
  "same_entry a b = (map_option fst a = map_option fst b)"

definition mt_Link :: "string \<Rightarrow> string \<Rightarrow> (('w, 'h) MountableFS, unit) act" where
  "mt_Link oldName newName m =
     (let oldAbs = mt_resolve oldName m; newAbs = mt_resolve newName m
      in (case (routeLocked oldAbs m, routeLocked newAbs m) of
            ((oldEntry, oldRel), (newEntry, newRel)) \<Rightarrow>
              if \<not> same_entry oldEntry newEntry
              then (Inl (LinkError ''link'' oldAbs newAbs (Errno EXDEV)), m)
              else onWorld (f_Link (entry_view m oldEntry) oldRel newRel) m))"

definition mt_Chown :: "string \<Rightarrow> 32 word \<Rightarrow> 32 word \<Rightarrow> bool \<Rightarrow> (('w, 'h) MountableFS, unit) act" where
  "mt_Chown name uid gid follow = onRouted (\<lambda>fsys rel. f_Chown fsys rel uid gid follow) name"

definition mt_Chmod :: "string \<Rightarrow> FileMode \<Rightarrow> (('w, 'h) MountableFS, unit) act" where
  "mt_Chmod name mode = onRouted (\<lambda>fsys rel. f_Chmod fsys rel mode) name"

definition mt_Chtimes :: "string \<Rightarrow> gotime \<Rightarrow> gotime \<Rightarrow> (('w, 'h) MountableFS, unit) act" where
  "mt_Chtimes name atime mtime = onRouted (\<lambda>fsys rel. f_Chtimes fsys rel atime mtime) name"

definition mt_Lchtimes :: "string \<Rightarrow> gotime \<Rightarrow> gotime \<Rightarrow> (('w, 'h) MountableFS, unit) act" where
  "mt_Lchtimes name atime mtime =
     onRouted (\<lambda>fsys rel.
       case f_Lchtimes fsys of
         None \<Rightarrow> f_Chtimes fsys rel atime mtime
       | Some lchtimes \<Rightarrow> lchtimes rel atime mtime) name"

text \<open>A synthetic directory may be entered and is already there, unless the base has a file at its path.\<close>

definition synthetic_dir :: "string \<Rightarrow> string \<Rightarrow> (('w, 'h) MountableFS, unit) act" where
  "synthetic_dir op absn m =
     (case onWorld (f_Stat (m_base m) absn) m of
        (Inr info, m1) \<Rightarrow>
          if \<not> mode_IsDir (fi_mode info) then (Inl (PathError op absn (Errno ErrInvalid)), m1) else (Inr (), m1)
      | (Inl e, m1) \<Rightarrow> if \<not> errors_Is e ErrNotExist then (Inl e, m1) else (Inr (), m1))"

definition mt_MkdirAll :: "string \<Rightarrow> FileMode \<Rightarrow> (('w, 'h) MountableFS, unit) act" where
  "mt_MkdirAll name perm m =
     (let absn = mt_resolve name m
      in (case route absn m of
            (entry, rel, synthetic) \<Rightarrow>
              if synthetic then synthetic_dir ''mkdir'' absn m
              else if entry \<noteq> None \<and> rel = ''/'' then (Inr (), m)
              else onWorld (f_MkdirAll (entry_view m entry) rel perm) m))"

definition mt_Mkfifo :: "string \<Rightarrow> FileMode \<Rightarrow> (('w, 'h) MountableFS, unit) act" where
  "mt_Mkfifo name perm m =
     (let absn = mt_resolve name m
      in (case route absn m of
            (entry, rel, synthetic) \<Rightarrow>
              andThen (\<lambda>m.
                if synthetic then
                  (case mt_Stat absn m of
                     (Inr _, m1) \<Rightarrow> (Inl (PathError ''mkfifo'' absn (Errno ErrExist)), m1)
                   | (Inl e, m1) \<Rightarrow> if \<not> errors_Is e ErrNotExist then (Inl e, m1) else (Inr (), m1))
                else (Inr (), m)) (\<lambda>_ m.
              if entry \<noteq> None \<and> rel = ''/'' then (Inl (PathError ''mkfifo'' absn (Errno ErrExist)), m)
              else (case entry of
                      Some (mp, f) \<Rightarrow> onWorld (namespaced mp (mkfifoViaOptional f rel perm)) m
                    | None \<Rightarrow> onWorld (mkfifoViaOptional (m_base m) absn perm) m)) m))"

definition mt_Remove :: "string \<Rightarrow> bool \<Rightarrow> (('w, 'h) MountableFS, unit) act" where
  "mt_Remove name recursive m =
     (let absn = mt_resolve name m
      in if pathContainsMount absn m then (Inl (PathError ''remove'' absn (Errno EBUSY)), m)
         else (case routedView absn m of (fsys, rel) \<Rightarrow> onWorld (f_Remove fsys rel recursive) m))"

text \<open>
  A rename across mounts copies the tree, on fuel, and then removes the source; a failure
  of either step removes what was copied unless the destination existed before.
\<close>

definition undo_copy :: "bool \<Rightarrow> ('w, 'h) FileSystem \<Rightarrow> string \<Rightarrow> 'w \<Rightarrow> 'w" where
  "undo_copy dstExisted dst newRel w = (if \<not> dstExisted then snd (f_Remove dst newRel True w) else w)"

definition rename_across ::
  "nat \<Rightarrow> ('w, 'h) FileSystem \<Rightarrow> string \<Rightarrow> ('w, 'h) FileSystem \<Rightarrow> string \<Rightarrow> ('w, unit) proc" where
  "rename_across fuel src oldRel dst newRel w =
     (case f_Lstat dst newRel w of
        (st, w1) \<Rightarrow>
          let dstExisted = (case st of Inr _ \<Rightarrow> True | Inl _ \<Rightarrow> False)
          in (case copyPathInto fuel src oldRel dst newRel w1 of
                None \<Rightarrow> None
              | Some (Inl e, w2) \<Rightarrow> Some (Inl e, undo_copy dstExisted dst newRel w2)
              | Some (Inr _, w2) \<Rightarrow>
                  (case f_Remove src oldRel True w2 of
                     (Inl e, w3) \<Rightarrow> Some (Inl e, undo_copy dstExisted dst newRel w3)
                   | (Inr _, w3) \<Rightarrow> Some (Inr (), w3))))"

definition mt_Rename :: "nat \<Rightarrow> string \<Rightarrow> string \<Rightarrow> (('w, 'h) MountableFS, unit) proc" where
  "mt_Rename fuel oldName newName m =
     (let oldAbs = mt_resolve oldName m; newAbs = mt_resolve newName m
      in if pathContainsMount oldAbs m then Some (Inl (PathError ''rename'' oldAbs (Errno EBUSY)), m)
         else if pathContainsMount newAbs m then Some (Inl (PathError ''rename'' newAbs (Errno EBUSY)), m)
         else (case (routeLocked oldAbs m, routeLocked newAbs m) of
                 ((oldEntry, oldRel), (newEntry, newRel)) \<Rightarrow>
                   if same_entry oldEntry newEntry
                   then procWorld (f_Rename (entry_view m oldEntry) oldRel newRel) m
                   else procWorld (rename_across fuel (entry_view m oldEntry) oldRel (entry_view m newEntry) newRel) m))"

definition mt_Getwd :: "('w, 'h) MountableFS \<Rightarrow> string" where
  "mt_Getwd m = m_cwd m"

definition chdir_check :: "string \<Rightarrow> ('w, fileInfo) act \<Rightarrow> ('w, unit) act" where
  "chdir_check absn stat =
     andThen stat (\<lambda>info.
       if \<not> mode_IsDir (fi_mode info) then fails (PathError ''chdir'' absn (Errno ErrInvalid)) else done_ok)"

definition mt_Chdir :: "string \<Rightarrow> (('w, 'h) MountableFS, unit) act" where
  "mt_Chdir name m =
     (let absn = mt_resolve name m
      in andThen
           (case route absn m of
              (Some (mp, f), rel, _) \<Rightarrow> onWorld (chdir_check absn (f_Stat (namespacedFS mp f) rel))
            | (None, _, synthetic) \<Rightarrow>
                if synthetic then synthetic_dir ''chdir'' absn
                else onWorld (chdir_check absn (f_Stat (m_base m) absn)))
           (\<lambda>_ m1. (Inr (), m1\<lparr>m_cwd := absn\<rparr>)) m)"

section \<open>The factory\<close>

type_synonym ('w, 'h) Factory = "('w, ('w, 'h) FileSystem) act"

primrec mount_all ::
  "(string \<times> ('w, 'h) Factory option) list \<Rightarrow> ('w, 'h) MountableFS \<Rightarrow> (go_error + ('w, 'h) MountableFS) \<times> 'w" where
  "mount_all [] m = (Inr m, m_world m)"
| "mount_all (cfg # rest) m =
     (case snd cfg of
        None \<Rightarrow> (Inl (Errorf ''mount: factory is nil''), m_world m)
      | Some fac \<Rightarrow>
          (case fac (m_world m) of
             (Inl e, w1) \<Rightarrow> (Inl (Wrapf ''mount'' e), w1)
           | (Inr fsys, w1) \<Rightarrow>
               (case mt_Mount (fst cfg) (Some fsys) (m\<lparr>m_world := w1\<rparr>) of
                  (Inl e, m1) \<Rightarrow> (Inl e, m_world m1)
                | (Inr _, m1) \<Rightarrow> mount_all rest m1)))"

definition mountableFactory_New ::
  "('w, 'h) Factory \<Rightarrow> ('w, 'h) Factory option \<Rightarrow> (string \<times> ('w, 'h) Factory option) list \<Rightarrow> 'w \<Rightarrow>
   (go_error + ('w, 'h) MountableFS) \<times> 'w" where
  "mountableFactory_New memoryFactory base mounts w =
     (let baseFactory = (case base of None \<Rightarrow> memoryFactory | Some b \<Rightarrow> b)
      in (case baseFactory w of
            (Inl e, w1) \<Rightarrow> (Inl e, w1)
          | (Inr b, w1) \<Rightarrow> mount_all mounts (NewMountable b w1)))"

end
