(* ===== verification/Mountable_Props.thy ===== *)
theory Mountable_Props
  imports Mountable
begin

text \<open>
  The mount table is an antichain of clean paths in every reachable state, so routing is a
  function of the path and the table alone, whatever order the map is iterated in.
\<close>

section \<open>The invariant of the table\<close>

definition mt_wf :: "('w, 'h) MountableFS \<Rightarrow> bool" where
  "mt_wf m \<longleftrightarrow> distinct (map fst (m_mounts m)) \<and> clean_path (m_cwd m) \<and>
     (\<forall>a \<in> fst ` set (m_mounts m). clean_path a \<and> a \<noteq> ''/'') \<and>
     (\<forall>a \<in> fst ` set (m_mounts m). \<forall>b \<in> fst ` set (m_mounts m). \<not> HasPrefix b (a @ ''/''))"

lemma mt_wfD:
  assumes "mt_wf m"
  shows "distinct (map fst (m_mounts m))" "clean_path (m_cwd m)"
    "(a, f) \<in> set (m_mounts m) \<Longrightarrow> clean_path a" "(a, f) \<in> set (m_mounts m) \<Longrightarrow> a \<noteq> ''/''"
    "(a, f) \<in> set (m_mounts m) \<Longrightarrow> (b, g) \<in> set (m_mounts m) \<Longrightarrow> \<not> HasPrefix b (a @ ''/'')"
  using assms by (force simp: mt_wf_def)+

lemma mt_wf_world [simp]: "mt_wf (m\<lparr>m_world := w\<rparr>) = mt_wf m"
  by (simp add: mt_wf_def)

text \<open>\<open>HasPrefix\<close> with a slash is the order of component lists.\<close>

lemma HasPrefix_slash:
  assumes "valid_comps ps" "valid_comps qs" "ps \<noteq> []"
  shows "HasPrefix (render qs) (render ps @ ''/'') \<longleftrightarrow> strict_prefix ps qs"
  using assms by (simp add: HasPrefix_def prefix_slash_iff)

lemma validateMount_loop_None:
  "validateMount_loop mp xs = None \<longleftrightarrow>
     (\<forall>x \<in> set xs. x \<noteq> mp \<longrightarrow> \<not> HasPrefix mp (x @ ''/'') \<and> \<not> HasPrefix x (mp @ ''/''))"
  by (induction mp xs rule: validateMount_loop.induct) auto

lemma no_self_prefix [simp]: "\<not> HasPrefix x (x @ [c])"
  by (simp add: HasPrefix_def prefix_def)

lemma Mount_ok:
  assumes "mt_Mount mountPoint fsys m = (Inr (), m')"
  obtains f where "fsys = Some f" "Clean (TrimSpace mountPoint) \<noteq> ''/''"
    "\<forall>x \<in> fst ` set (m_mounts m). x \<noteq> Clean (TrimSpace mountPoint) \<longrightarrow>
       \<not> HasPrefix (Clean (TrimSpace mountPoint)) (x @ ''/'') \<and> \<not> HasPrefix x (Clean (TrimSpace mountPoint) @ ''/'')"
    "m' = m\<lparr>m_mounts := AList.update (Clean (TrimSpace mountPoint)) f (m_mounts m)\<rparr>"
  using assms
  by (auto simp: mt_Mount_def Let_def validateMountLocked_def validateMount_loop_None split: option.splits if_splits)

lemma Mount_wf:
  assumes wf: "mt_wf m" and eq: "mt_Mount mountPoint fsys m = (r, m')"
  shows "mt_wf m'"
proof (cases r)
  case (Inl e)
  with eq have "m' = m" by (auto simp: mt_Mount_def Let_def split: option.splits if_splits)
  with wf show ?thesis by simp
next
  case (Inr u)
  with eq obtain f where f: "Clean (TrimSpace mountPoint) \<noteq> ''/''"
    "\<forall>x \<in> fst ` set (m_mounts m). x \<noteq> Clean (TrimSpace mountPoint) \<longrightarrow>
       \<not> HasPrefix (Clean (TrimSpace mountPoint)) (x @ ''/'') \<and> \<not> HasPrefix x (Clean (TrimSpace mountPoint) @ ''/'')"
    "m' = m\<lparr>m_mounts := AList.update (Clean (TrimSpace mountPoint)) f (m_mounts m)\<rparr>"
    by (auto elim: Mount_ok)
  let ?n = "Clean (TrimSpace mountPoint)"
  have keys: "fst ` set (m_mounts m') = insert ?n (fst ` set (m_mounts m))" using f(3) by (simp add: dom_update)
  have "distinct (map fst (m_mounts m'))" using wf f(3) by (simp add: mt_wf_def distinct_update)
  moreover have "clean_path ?n" by simp
  ultimately show ?thesis using wf f(1,2) f(3) unfolding mt_wf_def keys by auto
qed

lemma Unmount_wf:
  assumes wf: "mt_wf m" and eq: "mt_Unmount mountPoint m = (r, m')"
  shows "mt_wf m'"
proof -
  from eq consider "m' = m" | k where "m' = m\<lparr>m_mounts := AList.delete k (m_mounts m)\<rparr>"
    by (auto simp: mt_Unmount_def Let_def split: option.splits if_splits)
  then show ?thesis
  proof cases
    case 2
    then have sub: "fst ` set (m_mounts m') \<subseteq> fst ` set (m_mounts m)" and d: "distinct (map fst (m_mounts m'))" "m_cwd m' = m_cwd m"
      using wf dom_delete_subset [of k "m_mounts m"] by (simp_all add: mt_wf_def distinct_delete)
    note w = wf [unfolded mt_wf_def]
    have "\<forall>a \<in> fst ` set (m_mounts m'). clean_path a \<and> a \<noteq> ''/''"
      using w sub by (meson subsetD)
    moreover have "\<forall>a \<in> fst ` set (m_mounts m'). \<forall>b \<in> fst ` set (m_mounts m'). \<not> HasPrefix b (a @ ''/'')"
      using w sub by (meson subsetD)
    ultimately show ?thesis using w d by (simp add: mt_wf_def)
  qed (use wf in simp)
qed

section \<open>Routing\<close>

lemma wf_mount_comps:
  assumes "mt_wf m" "(mp, f) \<in> set (m_mounts m)"
  obtains ps where "mp = render ps" "valid_comps ps" "ps \<noteq> []"
  using mt_wfD(3,4) [OF assms] by (metis clean_pathE render_eq_root)

lemma wf_mount_unique:
  assumes wf: "mt_wf m" and a: "(render ps, f) \<in> set (m_mounts m)" "valid_comps ps" "ps \<noteq> []"
    and b: "(render qs, g) \<in> set (m_mounts m)" "valid_comps qs" "qs \<noteq> []" and p: "prefix ps cs" "prefix qs cs"
  shows "qs = ps \<and> g = f"
proof -
  have "\<not> strict_prefix ps qs" "\<not> strict_prefix qs ps"
    using mt_wfD(5) [OF wf a(1) b(1)] mt_wfD(5) [OF wf b(1) a(1)] HasPrefix_slash a b by auto
  with prefix_same_cases [OF p] have "qs = ps" by (auto simp: strict_prefix_def)
  with a(1) b(1) mt_wfD(1) [OF wf] show ?thesis by (metis eq_key_imp_eq_value)
qed

lemma TrimPrefix_render:
  assumes "valid_comps (ps @ ds)" "ps \<noteq> []" "ds \<noteq> []"
  shows "TrimPrefix (render (ps @ ds)) (render ps) = render ds"
proof -
  have "join_with slash (ps @ ds) = join_with slash ps @ slash # join_with slash ds"
    using assms by (simp add: join_with_append)
  then show ?thesis by (simp add: TrimPrefix_def render_def prefix_def)
qed

lemma route_at:
  assumes wf: "mt_wf m" and e: "(render ps, f) \<in> set (m_mounts m)" and v: "valid_comps (ps @ ds)" "ps \<noteq> []"
  shows "routeLocked (render (ps @ ds)) m = (Some (render ps, f), render ds)"
proof (cases "ds = []")
  case True
  have "map_of (m_mounts m) (render ps) = Some f" using e mt_wfD(1) [OF wf] by simp
  with True v show ?thesis by (simp add: routeLocked_def)
next
  case False
  have "map_of (m_mounts m) (render (ps @ ds)) = None"
  proof (cases "map_of (m_mounts m) (render (ps @ ds))")
    case (Some g)
    from wf_mount_unique [OF wf e _ _ map_of_SomeD [OF Some], of "ps @ ds"] v False show ?thesis by auto
  qed simp
  moreover have "find (\<lambda>(mp, _). HasPrefix (render (ps @ ds)) (mp @ ''/'')) (m_mounts m) = Some (render ps, f)"
  proof -
    have hit: "HasPrefix (render (ps @ ds)) (render ps @ ''/'')"
      using HasPrefix_slash [of ps "ps @ ds"] v False by (auto simp: strict_prefix_def)
    then obtain mp g where fd: "find (\<lambda>(mp, _). HasPrefix (render (ps @ ds)) (mp @ ''/'')) (m_mounts m) = Some (mp, g)"
      using e by (cases "find (\<lambda>(mp, _). HasPrefix (render (ps @ ds)) (mp @ ''/'')) (m_mounts m)")
        (auto simp: find_None_iff)
    then have g: "(mp, g) \<in> set (m_mounts m)" "HasPrefix (render (ps @ ds)) (mp @ ''/'')"
      by (auto simp: find_Some_iff dest: nth_mem)
    obtain qs where qs: "mp = render qs" "valid_comps qs" "qs \<noteq> []" by (rule wf_mount_comps [OF wf g(1)])
    with g(2) v HasPrefix_slash [of qs "ps @ ds"] have "prefix qs (ps @ ds)" by (simp add: strict_prefix_def)
    from wf_mount_unique [OF wf e _ _ g(1) [unfolded qs(1)] qs(2,3) _ this] v have "qs = ps \<and> g = f" by simp
    with fd qs(1) show ?thesis by simp
  qed
  ultimately show ?thesis using v False TrimPrefix_render [OF v(1) v(2) False] by (simp add: routeLocked_def)
qed

lemma route_none:
  assumes wf: "mt_wf m" and v: "valid_comps cs"
    and n: "\<And>ps f. (render ps, f) \<in> set (m_mounts m) \<Longrightarrow> valid_comps ps \<Longrightarrow> \<not> prefix ps cs"
  shows "routeLocked (render cs) m = (None, render cs)"
proof -
  have "map_of (m_mounts m) (render cs) = None"
    using n [OF map_of_SomeD] v by (cases "map_of (m_mounts m) (render cs)") auto
  moreover have "find (\<lambda>(mp, _). HasPrefix (render cs) (mp @ ''/'')) (m_mounts m) = None"
  proof -
    have "\<not> HasPrefix (render cs) (mp @ ''/'')" if e: "(mp, f) \<in> set (m_mounts m)" for mp f
    proof -
      obtain qs where "mp = render qs" "valid_comps qs" "qs \<noteq> []" by (rule wf_mount_comps [OF wf e])
      with n [of qs f] e v HasPrefix_slash [of qs cs] show ?thesis by (simp add: strict_prefix_def)
    qed
    then show ?thesis by (auto simp: find_None_iff)
  qed
  ultimately show ?thesis using v by (simp add: routeLocked_def)
qed

text \<open>Every path is at or below exactly one mount, or in the base.\<close>

lemma route_cases:
  assumes wf: "mt_wf m" and v: "valid_comps cs"
  obtains (mounted) ps f ds where "cs = ps @ ds" "ps \<noteq> []" "(render ps, f) \<in> set (m_mounts m)"
      "routeLocked (render cs) m = (Some (render ps, f), render ds)"
    | (base) "\<forall>ps f. (render ps, f) \<in> set (m_mounts m) \<longrightarrow> valid_comps ps \<longrightarrow> \<not> prefix ps cs"
      "routeLocked (render cs) m = (None, render cs)"
proof (cases "\<exists>ps f. (render ps, f) \<in> set (m_mounts m) \<and> valid_comps ps \<and> prefix ps cs")
  case True
  then obtain ps f ds where e: "(render ps, f) \<in> set (m_mounts m)" "valid_comps ps" "cs = ps @ ds" by (auto simp: prefix_def)
  then have "ps \<noteq> []" using mt_wfD(4) [OF wf e(1)] by auto
  with e v mounted route_at [OF wf e(1)] show thesis by blast
next
  case False
  with base route_none [OF wf v] show thesis by blast
qed

section \<open>Reachable states\<close>

definition same_table :: "('w, 'h) MountableFS \<Rightarrow> ('w, 'h) MountableFS \<Rightarrow> bool" where
  "same_table m m' \<longleftrightarrow> (\<exists>w. m' = m\<lparr>m_world := w\<rparr>)"

lemma same_table_refl [simp]: "same_table m m"
  by (auto simp: same_table_def intro: exI [of _ "m_world m"])

lemma same_table_wf: "mt_wf m \<Longrightarrow> same_table m m' \<Longrightarrow> mt_wf m'"
  by (auto simp: same_table_def)

lemma onWorld_table: "onWorld c m = (r, m') \<Longrightarrow> same_table m m'"
  by (auto simp: onWorld_def same_table_def split: prod.splits)

lemma procWorld_table: "procWorld c m = Some (r, m') \<Longrightarrow> same_table m m'"
  by (auto simp: procWorld_def same_table_def split: option.splits prod.splits)

lemma onRouted_table: "onRouted c name m = (r, m') \<Longrightarrow> same_table m m'"
  by (auto simp: onRouted_def split: prod.splits dest: onWorld_table)

text \<open>Calls on the files, whatever file system serves them, leave the table alone.\<close>

inductive mt_step :: "('w, 'h) MountableFS \<Rightarrow> ('w, 'h) MountableFS \<Rightarrow> bool" where
  Mount: "mt_Mount mountPoint fsys m = (r, m') \<Longrightarrow> mt_step m m'"
| Unmount: "mt_Unmount mountPoint m = (r, m') \<Longrightarrow> mt_step m m'"
| OpenFile: "mt_OpenFile name flag perm m = (r1, m') \<Longrightarrow> mt_step m m'"
| Stat: "mt_Stat name m = (r2, m') \<Longrightarrow> mt_step m m'"
| Lstat: "mt_Lstat name m = (r2, m') \<Longrightarrow> mt_step m m'"
| ReadDir: "mt_ReadDir name m = (r3, m') \<Longrightarrow> mt_step m m'"
| Readlink: "mt_Readlink name m = (r4, m') \<Longrightarrow> mt_step m m'"
| Realpath: "mt_Realpath name m = (r4, m') \<Longrightarrow> mt_step m m'"
| Symlink: "mt_Symlink target name m = (r, m') \<Longrightarrow> mt_step m m'"
| Link: "mt_Link old new m = (r, m') \<Longrightarrow> mt_step m m'"
| Chown: "mt_Chown name uid gid follow m = (r, m') \<Longrightarrow> mt_step m m'"
| Chmod: "mt_Chmod name mode m = (r, m') \<Longrightarrow> mt_step m m'"
| Chtimes: "mt_Chtimes name atime mtime m = (r, m') \<Longrightarrow> mt_step m m'"
| Lchtimes: "mt_Lchtimes name atime mtime m = (r, m') \<Longrightarrow> mt_step m m'"
| MkdirAll: "mt_MkdirAll name perm m = (r, m') \<Longrightarrow> mt_step m m'"
| Mkfifo: "mt_Mkfifo name perm m = (r, m') \<Longrightarrow> mt_step m m'"
| Remove: "mt_Remove name recursive m = (r, m') \<Longrightarrow> mt_step m m'"
| Rename: "mt_Rename fuel old new m = Some (r, m') \<Longrightarrow> mt_step m m'"
| Chdir: "mt_Chdir name m = (r, m') \<Longrightarrow> mt_step m m'"

inductive mt_reach :: "('w, 'h) MountableFS \<Rightarrow> ('w, 'h) MountableFS \<Rightarrow> bool" for start where
  init: "mt_reach start start"
| step: "mt_reach start m \<Longrightarrow> mt_step m m' \<Longrightarrow> mt_reach start m'"

lemma stat_table: "mt_stat_op stat name m = (r, m') \<Longrightarrow> same_table m m'"
  by (auto simp: mt_stat_op_def Let_def split: prod.splits option.splits if_splits sum.splits dest: onWorld_table)

lemma synthetic_dir_table: "synthetic_dir op p m = (r, m') \<Longrightarrow> same_table m m'"
  by (auto simp: synthetic_dir_def split: prod.splits if_splits sum.splits dest: onWorld_table)

lemma lookups_table:
  "mt_ReadDir name m = (r3, m') \<Longrightarrow> same_table m m'" "mt_Readlink name m = (r4, m') \<Longrightarrow> same_table m m'"
  "mt_Realpath name m = (r4, m') \<Longrightarrow> same_table m m'" "mt_Link old new m = (r, m') \<Longrightarrow> same_table m m'"
  "mt_Remove name recursive m = (r, m') \<Longrightarrow> same_table m m'" "mt_MkdirAll name perm m = (r, m') \<Longrightarrow> same_table m m'"
  by (auto simp: mt_ReadDir_def mt_Readlink_def mt_Realpath_def mt_Link_def mt_Remove_def mt_MkdirAll_def Let_def andThen_def
      split: prod.splits option.splits if_splits sum.splits dest: onWorld_table synthetic_dir_table)

lemma routed_table:
  "mt_OpenFile name flag perm m = (r1, m') \<Longrightarrow> same_table m m'" "mt_Stat name m = (r2, m') \<Longrightarrow> same_table m m'"
  "mt_Lstat name m = (r2, m') \<Longrightarrow> same_table m m'" "mt_Symlink target name m = (r, m') \<Longrightarrow> same_table m m'"
  "mt_Chown name uid gid follow m = (r, m') \<Longrightarrow> same_table m m'" "mt_Chmod name mode m = (r, m') \<Longrightarrow> same_table m m'"
  "mt_Chtimes name atime mtime m = (r, m') \<Longrightarrow> same_table m m'" "mt_Lchtimes name atime mtime m = (r, m') \<Longrightarrow> same_table m m'"
  by (simp_all add: mt_OpenFile_def mt_Stat_def mt_Lstat_def mt_Symlink_def mt_Chown_def mt_Chmod_def mt_Chtimes_def
      mt_Lchtimes_def onRouted_table stat_table)

lemma same_table_trans: "same_table m m1 \<Longrightarrow> same_table m1 m2 \<Longrightarrow> same_table m m2"
  by (auto simp: same_table_def)

lemma Mkfifo_table:
  assumes "mt_Mkfifo name perm m = (r, m')" shows "same_table m m'"
proof -
  let ?p = "mt_resolve name m"
  obtain entry rel synthetic where rt: "route ?p m = (entry, rel, synthetic)" by (metis prod.collapse)
  have tail: "same_table m1 m'" if "(if entry \<noteq> None \<and> rel = ''/'' then (Inl (PathError ''mkfifo'' ?p (Errno ErrExist)), m1)
      else (case entry of Some (mp, f) \<Rightarrow> onWorld (namespaced mp (mkfifoViaOptional f rel perm)) m1
        | None \<Rightarrow> onWorld (mkfifoViaOptional (m_base m1) ?p perm) m1)) = (r, m')" for m1
    using that by (auto split: if_splits option.splits prod.splits dest: onWorld_table)
  show ?thesis
  proof (cases synthetic)
    case True
    obtain st m1 where st: "mt_Stat ?p m = (st, m1)" by (metis prod.collapse)
    have "same_table m m1" using st by (simp add: mt_Stat_def stat_table)
    moreover have "m' = m1 \<or> same_table m1 m'"
      using assms rt True st tail [of m1]
      by (cases st) (auto simp: mt_Mkfifo_def Let_def andThen_def split: if_splits)
    ultimately show ?thesis by (auto intro: same_table_trans)
  next
    case False
    with assms rt show ?thesis by (intro tail) (auto simp: mt_Mkfifo_def Let_def andThen_def)
  qed
qed

lemma Rename_table: "mt_Rename fuel old new m = Some (r, m') \<Longrightarrow> same_table m m'"
  by (auto simp: mt_Rename_def Let_def split: prod.splits if_splits dest: procWorld_table)

lemma Chdir_wf:
  assumes wf: "mt_wf m" and eq: "mt_Chdir name m = (r, m')" shows "mt_wf m'"
proof -
  let ?c = "case route (mt_resolve name m) m of
      (Some (mp, f), rel, _) \<Rightarrow> onWorld (chdir_check (mt_resolve name m) (f_Stat (namespacedFS mp f) rel))
    | (None, _, synthetic) \<Rightarrow> if synthetic then synthetic_dir ''chdir'' (mt_resolve name m)
        else onWorld (chdir_check (mt_resolve name m) (f_Stat (m_base m) (mt_resolve name m)))"
  obtain entry rel synthetic where rt: "route (mt_resolve name m) m = (entry, rel, synthetic)" by (metis prod.collapse)
  have "same_table m m1" if "?c m = (x, m1)" for x m1
  proof (cases entry)
    case None
    with that rt show ?thesis by (cases synthetic) (simp_all add: onWorld_table synthetic_dir_table)
  next
    case (Some e)
    with that rt show ?thesis by (cases e) (simp add: onWorld_table)
  qed
  moreover obtain x m1 where x: "?c m = (x, m1)" by (rule prod.exhaust)
  ultimately have w1: "mt_wf m1" using same_table_wf [OF wf] by blast
  have "m' = m1 \<or> m' = m1\<lparr>m_cwd := p\<rparr>"
    if "andThen c (\<lambda>_ m1. (Inr (), m1\<lparr>m_cwd := p\<rparr>)) m = (r, m')" "c m = (x, m1)" for c :: "(('a, 'b) MountableFS, unit) act" and p
    using that by (auto simp: andThen_def split: sum.splits)
  from this [OF eq [unfolded mt_Chdir_def Let_def] x] have "m' = m1 \<or> m' = m1\<lparr>m_cwd := mt_resolve name m\<rparr>" .
  moreover have "clean_path (mt_resolve name m)" by (simp add: mt_resolve_def)
  moreover have "mt_wf (m1\<lparr>m_cwd := p\<rparr>)" if "clean_path p" for p using w1 that by (simp add: mt_wf_def)
  ultimately show ?thesis using w1 by blast
qed

lemma mt_step_wf: "mt_step m m' \<Longrightarrow> mt_wf m \<Longrightarrow> mt_wf m'"
proof (induction rule: mt_step.induct)
  case Mount then show ?case by (blast intro: Mount_wf)
next
  case Unmount then show ?case by (blast intro: Unmount_wf)
next
  case Chdir then show ?case by (blast intro: Chdir_wf)
qed (meson same_table_wf routed_table lookups_table Mkfifo_table Rename_table)+

lemma reach_wf: "mt_reach (NewMountable base w) m \<Longrightarrow> mt_wf m"
proof (induction rule: mt_reach.induct)
  case init
  have "clean_path ''/''" by (auto simp: clean_path_def intro: exI [of _ "[]"])
  then show ?case by (simp add: mt_wf_def NewMountable_def)
qed (rule mt_step_wf)

section \<open>The order of the table\<close>

text \<open>The names of the mounts below a directory, as a set.\<close>

definition child_names :: "string list \<Rightarrow> ('w, 'h) MountableFS \<Rightarrow> string set" where
  "child_names cs m = {c. \<exists>ds f. valid_comps (cs @ c # ds) \<and> (render (cs @ c # ds), f) \<in> set (m_mounts m)}"

lemma fold_insert_if:
  "fold (\<lambda>x acc. if P x then acc else if Q x then insert (g x) acc else acc) xs S =
    S \<union> g ` {x \<in> set xs. \<not> P x \<and> Q x}"
  by (induction xs arbitrary: S) auto

lemma childMountNames_eq:
  assumes wf: "mt_wf m" and v: "valid_comps cs"
  shows "childMountNames (render cs) m = sorted_list_of_set (child_names cs m)" "finite (child_names cs m)"
proof -
  define pre where "pre = (if render cs = ''/'' then '''' else render cs)"
  define P where "P = (\<lambda>(mp, f :: ('a, 'b) FileSystem). pre \<noteq> '''' \<and> \<not> HasPrefix mp (pre @ ''/''))"
  define g where "g = (\<lambda>(mp, f :: ('a, 'b) FileSystem).
    hd (split_on slash (if pre = '''' then TrimPrefix mp ''/'' else TrimPrefix mp (pre @ ''/''))))"
  have fold: "childMountNames (render cs) m = sorted_list_of_set (g ` {x \<in> set (m_mounts m). \<not> P x \<and> g x \<noteq> ''''})"
  proof -
    have "(\<lambda>(mountPoint, f :: ('a, 'b) FileSystem) acc.
        if pre \<noteq> '''' \<and> \<not> HasPrefix mountPoint (pre @ ''/'') then acc
        else let remainder = (if pre = '''' then TrimPrefix mountPoint ''/'' else TrimPrefix mountPoint (pre @ ''/''));
                 child = hd (split_on slash remainder)
             in if child \<noteq> '''' then insert child acc else acc) =
      (\<lambda>x acc. if P x then acc else if g x \<noteq> '''' then insert (g x) acc else acc)"
      by (auto simp: fun_eq_iff P_def g_def Let_def)
    then show ?thesis
      using v by (simp only: childMountNames_def Let_def Clean_render pre_def [symmetric] fold_insert_if) simp
  qed
  have child: "\<not> P (render qs, f) \<longleftrightarrow> strict_prefix cs qs" "strict_prefix cs qs \<Longrightarrow> g (render qs, f) = hd (drop (length cs) qs)"
    if q: "valid_comps qs" "qs \<noteq> []" for qs f
  proof -
    show "\<not> P (render qs, f) \<longleftrightarrow> strict_prefix cs qs"
    proof (cases "cs = []")
      case False
      have "render cs \<noteq> ''''" by (simp add: render_def)
      with False q v HasPrefix_slash [of cs qs] show ?thesis by (simp add: P_def pre_def)
    qed (use q in \<open>simp add: P_def pre_def strict_prefix_def\<close>)
    assume "strict_prefix cs qs"
    then obtain ds where ds: "qs = cs @ ds" "ds \<noteq> []" by (auto simp: strict_prefix_def prefix_def)
    have "(if pre = '''' then TrimPrefix (render qs) ''/'' else TrimPrefix (render qs) (pre @ ''/'')) = join_with slash ds"
    proof (cases "cs = []")
      case True
      with ds show ?thesis by (simp add: pre_def TrimPrefix_def render_def)
    next
      case False
      with ds have "join_with slash (cs @ ds) = join_with slash cs @ slash # join_with slash ds" by (simp add: join_with_append)
      moreover have "pre = render cs" using False v by (simp add: pre_def)
      ultimately show ?thesis using ds by (simp add: TrimPrefix_def render_def prefix_def)
    qed
    then have "g (render qs, f) = hd (split_on slash (join_with slash ds))" by (simp only: g_def prod.case)
    with ds q split_join_valid [of ds] show "g (render qs, f) = hd (drop (length cs) qs)" by simp
  qed
  have "g ` {x \<in> set (m_mounts m). \<not> P x \<and> g x \<noteq> ''''} = child_names cs m"
  proof (intro set_eqI iffI)
    fix c assume "c \<in> g ` {x \<in> set (m_mounts m). \<not> P x \<and> g x \<noteq> ''''}"
    then obtain mp f where e: "(mp, f) \<in> set (m_mounts m)" "\<not> P (mp, f)" "c = g (mp, f)" by auto
    obtain qs where q: "mp = render qs" "valid_comps qs" "qs \<noteq> []" by (rule wf_mount_comps [OF wf e(1)])
    with e child [of qs f] have s: "strict_prefix cs qs" "c = hd (drop (length cs) qs)" by auto
    then obtain ds where "qs = cs @ ds" "ds \<noteq> []" by (auto simp: strict_prefix_def prefix_def)
    with s e q show "c \<in> child_names cs m" by (cases ds) (auto simp: child_names_def)
  next
    fix c assume "c \<in> child_names cs m"
    then obtain ds f where e: "valid_comps (cs @ c # ds)" "(render (cs @ c # ds), f) \<in> set (m_mounts m)"
      by (auto simp: child_names_def)
    have s: "strict_prefix cs (cs @ c # ds)" by (simp add: strict_prefix_def)
    have "c \<noteq> ''''" using e(1) by (auto simp: valid_comp_def)
    with e s child [of "cs @ c # ds" f] show "c \<in> g ` {x \<in> set (m_mounts m). \<not> P x \<and> g x \<noteq> ''''}"
      by (force intro: image_eqI [where x = "(render (cs @ c # ds), f)"])
  qed
  moreover have "finite (g ` {x \<in> set (m_mounts m). \<not> P x \<and> g x \<noteq> ''''})" by simp
  ultimately show "childMountNames (render cs) m = sorted_list_of_set (child_names cs m)" "finite (child_names cs m)"
    using fold by simp_all
qed

section \<open>Listings\<close>

lemma fill_table:
  assumes "keyed t"
  shows "keyed (fold (\<lambda>e acc. AList.update (de_name e) e acc) xs t)"
    "fst ` set (fold (\<lambda>e acc. AList.update (de_name e) e acc) xs t) = fst ` set t \<union> de_name ` set xs"
proof -
  have "keyed (fold (\<lambda>e acc. AList.update (de_name e) e acc) xs t) \<and>
    fst ` set (fold (\<lambda>e acc. AList.update (de_name e) e acc) xs t) = fst ` set t \<union> de_name ` set xs"
    using assms
  proof (induction xs arbitrary: t)
    case (Cons e xs)
    from Cons.IH [OF keyed_update [OF Cons.prems]] show ?case by (simp add: dom_update)
  qed simp
  then show "keyed (fold (\<lambda>e acc. AList.update (de_name e) e acc) xs t)"
    "fst ` set (fold (\<lambda>e acc. AList.update (de_name e) e acc) xs t) = fst ` set t \<union> de_name ` set xs" by simp_all
qed

definition add_missing :: "(string \<Rightarrow> memoryDirEntry) \<Rightarrow> string \<Rightarrow> (string \<times> memoryDirEntry) list \<Rightarrow> (string \<times> memoryDirEntry) list" where
  "add_missing mk c acc = (if map_of acc c \<noteq> None then acc else AList.update c (mk c) acc)"

lemma add_missing_keys: "fst ` set (add_missing mk c t) = insert c (fst ` set t)"
proof (cases "map_of t c")
  case None
  then show ?thesis by (simp add: add_missing_def dom_update)
next
  case (Some e)
  then have "c \<in> fst ` set t" by (force dest: map_of_SomeD)
  then show ?thesis using Some by (simp add: add_missing_def insert_absorb)
qed

lemma fill_missing:
  assumes "keyed t" "\<forall>c \<in> set xs. de_name (mk c) = c"
  shows "keyed (fold (add_missing mk) xs t) \<and> fst ` set (fold (add_missing mk) xs t) = fst ` set t \<union> set xs"
  using assms
proof (induction xs arbitrary: t)
  case (Cons c xs)
  have "keyed (add_missing mk c t)"
    using keyed_update [OF Cons.prems(1), of "mk c"] Cons.prems by (simp add: add_missing_def)
  with Cons.IH [of "add_missing mk c t"] Cons.prems(2) show ?case by (simp add: add_missing_keys)
qed simp

section \<open>Properties\<close>

text \<open>
  (C17) In every state a mountable file system can reach, the mount points are distinct
  clean absolute paths, none of them the root and none below another, and the working
  directory is a clean absolute path.
\<close>

theorem mount_table_antichain:
  assumes "mt_reach (NewMountable base w) m"
  shows "mt_wf m"
  using assms by (rule reach_wf)

text \<open>
  (C16) Routing does not depend on the order in which the mount table is iterated, which Go
  leaves open: any other order of the same table gives every path the same file system and
  the same path there, and every directory the same child mounts.
\<close>

theorem mount_order_irrelevant:
  assumes reach: "mt_reach (NewMountable base w) m"
    and perm: "set xs = set (m_mounts m)" "distinct (map fst xs)" and m': "m' = m\<lparr>m_mounts := xs\<rparr>"
  shows "routeLocked p m' = routeLocked p m \<and> isSyntheticParentLocked p m' = isSyntheticParentLocked p m \<and>
    childMountNames p m' = childMountNames p m \<and> pathContainsMount p m' = pathContainsMount p m"
proof -
  note wf = reach_wf [OF reach]
  have wf': "mt_wf m'" using wf perm m' by (simp add: mt_wf_def)
  obtain cs where cs: "valid_comps cs" "Clean p = render cs" by (metis Clean_eq abs_comps_valid)
  have r: "routeLocked p x = routeLocked (render cs) x" "childMountNames p x = childMountNames (render cs) x"
    for x :: "('a, 'b) MountableFS"
    using cs by (simp_all add: routeLocked_def childMountNames_def)
  have keys: "map_of xs k = map_of (m_mounts m) k" for k
    using perm mt_wfD(1) [OF wf] by (metis map_of_inject_set)
  have "routeLocked (render cs) m' = routeLocked (render cs) m"
  proof (rule route_cases [OF wf cs(1)])
    fix ps f ds
    assume a: "cs = ps @ ds" "ps \<noteq> []" "(render ps, f) \<in> set (m_mounts m)"
      "routeLocked (render cs) m = (Some (render ps, f), render ds)"
    with route_at [OF wf', of ps f ds] cs(1) perm m' show ?thesis by simp
  next
    assume b: "\<forall>ps f. (render ps, f) \<in> set (m_mounts m) \<longrightarrow> valid_comps ps \<longrightarrow> \<not> prefix ps cs"
      "routeLocked (render cs) m = (None, render cs)"
    with route_none [OF wf' cs(1)] perm m' show ?thesis by simp
  qed
  moreover have "child_names cs m' = child_names cs m" using perm m' by (simp add: child_names_def)
  then have "childMountNames (render cs) m' = childMountNames (render cs) m"
    using childMountNames_eq(1) [OF wf cs(1)] childMountNames_eq(1) [OF wf' cs(1)] by simp
  moreover have "isSyntheticParentLocked p m' = isSyntheticParentLocked p m"
    using perm m' keys by (simp add: isSyntheticParentLocked_def list_ex_iff)
  moreover have "pathContainsMount p m' = pathContainsMount p m"
    using perm m' by (auto simp: pathContainsMount_def list_ex_iff)
  ultimately show ?thesis by (simp add: r)
qed

text \<open>
  (C32) Routing loses nothing: a path inside a mount is the mount point extended by the
  clean relative path passed to the mounted file system, and a path outside every mount is
  passed to the base unchanged.
\<close>

theorem mount_route_roundtrip:
  assumes reach: "mt_reach (NewMountable base w) m" and eq: "routeLocked p m = (entry, rel)"
  shows "clean_path rel \<and>
    (case entry of
       None \<Rightarrow> rel = Clean p \<and> (\<forall>mp f. (mp, f) \<in> set (m_mounts m) \<longrightarrow> \<not> pathWithinMount (Clean p) mp)
     | Some (mp, f) \<Rightarrow> (mp, f) \<in> set (m_mounts m) \<and> pathWithinMount (Clean p) mp \<and> prefixMountPath mp rel = Clean p)"
proof -
  note wf = reach_wf [OF reach]
  obtain cs where cs: "valid_comps cs" "Clean p = render cs" by (metis Clean_eq abs_comps_valid)
  have r: "routeLocked (render cs) m = (entry, rel)" using eq cs by (simp add: routeLocked_def)
  have within: "pathWithinMount (render cs) (render ps) \<longleftrightarrow> prefix ps cs" if "valid_comps ps" "ps \<noteq> []" for ps
    using subtree_iff [OF that(1) cs(1) that(2)] by (simp add: pathWithinMount_def)
  show ?thesis
  proof (rule route_cases [OF wf cs(1)])
    fix ps f ds
    assume a: "cs = ps @ ds" "ps \<noteq> []" "(render ps, f) \<in> set (m_mounts m)"
      "routeLocked (render cs) m = (Some (render ps, f), render ds)"
    have "prefixMountPath (render ps) (render ds) = render (ps @ ds)"
    proof (cases "ds = []")
      case True
      then show ?thesis using a(1) cs(1) by (simp add: prefixMountPath_def)
    next
      case False
      have "TrimPrefix (render ds) ''/'' = join_with slash ds" by (simp add: TrimPrefix_def render_def)
      with False a(1) cs(1) Resolve_join [of ps ds] show ?thesis by (simp add: prefixMountPath_def)
    qed
    with a r cs within [of ps] show ?thesis by (auto simp: clean_path_def)
  next
    assume b: "\<forall>ps f. (render ps, f) \<in> set (m_mounts m) \<longrightarrow> valid_comps ps \<longrightarrow> \<not> prefix ps cs"
      "routeLocked (render cs) m = (None, render cs)"
    have "\<not> pathWithinMount (Clean p) mp" if e: "(mp, f) \<in> set (m_mounts m)" for mp f
    proof -
      obtain qs where "mp = render qs" "valid_comps qs" "qs \<noteq> []" by (rule wf_mount_comps [OF wf e])
      with b(1) e within cs(2) show ?thesis by auto
    qed
    with b r cs show ?thesis by (auto simp: clean_path_def)
  qed
qed

text \<open>
  After a successful \<open>Mount\<close> every path at or below the mount point is served by the
  mounted file system, with the rest of the path, and every other path as before; undoing
  the mount with \<open>Unmount\<close> restores the table when nothing was mounted there.
\<close>

theorem mount_serves_subtree:
  assumes reach: "mt_reach (NewMountable base w) m" and eq: "mt_Mount mountPoint (Some f) m = (Inr (), m')"
  shows "\<exists>ps. valid_comps ps \<and> ps \<noteq> [] \<and> Clean (TrimSpace mountPoint) = render ps \<and>
    (\<forall>ds. valid_comps ds \<longrightarrow> routeLocked (render (ps @ ds)) m' = (Some (render ps, f), render ds)) \<and>
    (\<forall>cs. valid_comps cs \<longrightarrow> \<not> prefix ps cs \<longrightarrow> routeLocked (render cs) m' = routeLocked (render cs) m) \<and>
    (\<forall>m''. map_of (m_mounts m) (render ps) = None \<longrightarrow> mt_Unmount mountPoint m' = (Inr (), m'') \<longrightarrow> m'' = m)"
proof -
  note wf = reach_wf [OF reach] and wf' = Mount_wf [OF reach_wf [OF reach] eq]
  obtain ps where ps: "valid_comps ps" "Clean (TrimSpace mountPoint) = render ps" by (metis Clean_eq abs_comps_valid)
  have g: "render ps \<noteq> ''/''" "m' = m\<lparr>m_mounts := AList.update (render ps) f (m_mounts m)\<rparr>"
    using eq by (auto simp: mt_Mount_def Let_def ps(2) split: option.splits if_splits)
  then have m': "m_mounts m' = AList.update (render ps) f (m_mounts m)" and ne: "ps \<noteq> []" by auto
  have mem: "(k, x) \<in> set (m_mounts m') \<longleftrightarrow> (if k = render ps then x = f else (k, x) \<in> set (m_mounts m))" for k x
  proof -
    have "(k, x) \<in> set (m_mounts m') \<longleftrightarrow> map_of (m_mounts m') k = Some x"
      "(k, x) \<in> set (m_mounts m) \<longleftrightarrow> map_of (m_mounts m) k = Some x"
      using mt_wfD(1) [OF wf] mt_wfD(1) [OF wf'] by simp_all
    then show ?thesis by (auto simp: m' update_conv')
  qed
  have "routeLocked (render (ps @ ds)) m' = (Some (render ps, f), render ds)" if "valid_comps ds" for ds
    using route_at [OF wf', of ps f ds] mem ps ne that by simp
  moreover have "routeLocked (render cs) m' = routeLocked (render cs) m" if v: "valid_comps cs" "\<not> prefix ps cs" for cs
  proof (rule route_cases [OF wf v(1)])
    fix qs h ds
    assume a: "cs = qs @ ds" "qs \<noteq> []" "(render qs, h) \<in> set (m_mounts m)"
      "routeLocked (render cs) m = (Some (render qs, h), render ds)"
    have "render qs \<noteq> render ps" using a(1) v ps(1) render_inj [of qs ps] by auto
    with a mem v(1) route_at [OF wf', of qs h ds] show ?thesis by simp
  next
    assume b: "\<forall>ps f. (render ps, f) \<in> set (m_mounts m) \<longrightarrow> valid_comps ps \<longrightarrow> \<not> prefix ps cs"
      "routeLocked (render cs) m = (None, render cs)"
    have "\<not> prefix qs cs" if "(render qs, h) \<in> set (m_mounts m')" "valid_comps qs" for qs h
      using b(1) that mem v(2) ps(1) render_inj [of qs ps] by (auto split: if_splits)
    with route_none [OF wf' v(1)] b(2) show ?thesis by simp
  qed
  moreover have "m'' = m" if "map_of (m_mounts m) (render ps) = None" "mt_Unmount mountPoint m' = (Inr (), m'')" for m''
  proof -
    have "AList.delete (render ps) (AList.update (render ps) f (m_mounts m)) = m_mounts m"
      using that(1) by (simp add: delete_update_same map_of_eq_None_iff)
    with that(2) g show ?thesis by (auto simp: mt_Unmount_def Let_def ps(2) split: option.splits if_splits)
  qed
  ultimately show ?thesis using ps ne by (intro exI [of _ ps]) simp
qed

text \<open>
  The rewriting of errors that cross a mount keeps what \<open>errors.Is\<close> reports, so a
  caller distinguishes missing, existing, forbidden and busy files as without the mount.
\<close>

theorem namespaceError_keeps_kind: "errors_Is (namespaceError mountPoint err) t = errors_Is err t"
proof -
  have p: "as_PathError e = Some x \<Longrightarrow> \<exists>op q e'. x = PathError op q e' \<and> errors_Is e t = errors_Is e' t" for e x
    by (induction e rule: as_PathError.induct) auto
  have l: "as_LinkError e = Some x \<Longrightarrow> \<exists>op a b e'. x = LinkError op a b e' \<and> errors_Is e t = errors_Is e' t" for e x
    by (induction e rule: as_LinkError.induct) auto
  show ?thesis
    using p [of err] l [of err] by (force simp: namespaceError_def split: option.split go_error.split)
qed

text \<open>
  A mount point and the directories above it can be neither removed nor renamed, nor
  replaced by a rename: the calls fail with \<open>EBUSY\<close> and change nothing.
\<close>

theorem mount_points_busy:
  assumes reach: "mt_reach (NewMountable base w) m" and mnt: "(mp, f) \<in> set (m_mounts m)"
    and above: "pathWithinMount mp (mt_resolve name m) \<or> mt_resolve name m = ''/''"
  shows "mt_Remove name recursive m = (Inl (PathError ''remove'' (mt_resolve name m) (Errno EBUSY)), m) \<and>
    mt_Rename fuel name newName m = Some (Inl (PathError ''rename'' (mt_resolve name m) (Errno EBUSY)), m) \<and>
    (\<exists>e. mt_Rename fuel oldName name m = Some (Inl e, m) \<and> errors_Is e EBUSY)"
proof -
  have "pathContainsMount (mt_resolve name m) m"
    using above mnt by (auto simp: pathContainsMount_def pathWithinMount_def list_ex_iff)
  then show ?thesis by (auto simp: mt_Remove_def mt_Rename_def Let_def)
qed

text \<open>
  The listing of a directory above mount points is sorted, without repetition, and
  names exactly the entries of the base and the next components of the mounts below.
\<close>

theorem mount_ReadDir_synthetic:
  assumes reach: "mt_reach (NewMountable base w) m" and cs: "mt_resolve name m = render cs" "valid_comps cs"
    and syn: "isSyntheticParentLocked (render cs) m" and rd: "orSynthetic [] (f_ReadDir (m_base m) (render cs)) (m_world m) = (Inr bes, w1)"
  shows "\<exists>es. mt_ReadDir name m = (Inr es, m\<lparr>m_world := w1\<rparr>) \<and> sorted (map de_name es) \<and> distinct (map de_name es) \<and>
    set (map de_name es) = de_name ` set bes \<union> {c. \<exists>ds f. valid_comps (cs @ c # ds) \<and> (render (cs @ c # ds), f) \<in> set (m_mounts m)}"
proof -
  note wf = reach_wf [OF reach]
  have "fst (routeLocked (render cs) m) = None"
  proof (rule route_cases [OF wf cs(2)])
    fix ps f ds
    assume a: "cs = ps @ ds" "ps \<noteq> []" "(render ps, f) \<in> set (m_mounts m)"
    from syn obtain mp g where g: "(mp, g) \<in> set (m_mounts m)" "HasPrefix mp (render cs @ ''/'')"
      using a cs(2) by (auto simp: isSyntheticParentLocked_def list_ex_iff split: if_splits)
    obtain qs where qs: "mp = render qs" "valid_comps qs" "qs \<noteq> []" by (rule wf_mount_comps [OF wf g(1)])
    with g(2) HasPrefix_slash [of cs qs] cs(2) a have "strict_prefix cs qs" by simp
    then have "strict_prefix ps qs" using a(1) by (metis prefixI prefix_order.le_less_trans)
    with mt_wfD(5) [OF wf a(3) g(1)] HasPrefix_slash [of ps qs] a cs(2) qs show ?thesis by simp
  qed simp
  then obtain rel where rt: "route (render cs) m = (None, rel, True)"
    using syn by (cases "routeLocked (render cs) m") (auto simp: route_def)
  define a where "a = fold (\<lambda>e acc. AList.update (de_name e) e acc) bes []"
  define b where "b = fold (add_missing (synthetic_entry (render cs))) (childMountNames (render cs) m) a"
  have child: "set (childMountNames (render cs) m) = child_names cs m"
    using childMountNames_eq [OF wf cs(2)] by simp
  have entry: "de_name (synthetic_entry (render cs) c) = c" if "c \<in> child_names cs m" for c
  proof -
    have v: "valid_comps (cs @ [c])" using that by (auto simp: child_names_def)
    then have "joinChildPath (render cs) c = render (cs @ [c])" by (simp add: joinChildPath_joinClean render_snoc)
    with v show ?thesis by (simp add: synthetic_entry_def syntheticDirInfo_def)
  qed
  have "keyed []" by (simp add: keyed_def)
  note a = fill_table [OF this, of bes, folded a_def]
  have b: "keyed b" "fst ` set b = de_name ` set bes \<union> child_names cs m"
    using fill_missing [OF a(1), of "childMountNames (render cs) m" "synthetic_entry (render cs)", folded b_def] a(2) child entry
    by simp_all
  let ?es = "mount_entries (render cs) bes m"
  have nm: "map de_name ?es = sorted_list_of_set (fst ` set b)"
    using keyed_listing [OF b(1)] by (simp add: mount_entries_def Let_def a_def b_def add_missing_def [abs_def])
  have "mt_ReadDir name m = (Inr ?es, m\<lparr>m_world := w1\<rparr>)"
  proof -
    have "childMountNames p (m\<lparr>m_world := w1\<rparr>) = childMountNames p m" for p by (simp add: childMountNames_def)
    then have "mount_entries p bes (m\<lparr>m_world := w1\<rparr>) = mount_entries p bes m" for p by (simp add: mount_entries_def)
    with rt rd cs(1) show ?thesis by (simp add: mt_ReadDir_def Let_def andThen_def onWorld_def)
  qed
  moreover have "sorted (map de_name ?es)" "distinct (map de_name ?es)" "set (map de_name ?es) = fst ` set b"
    unfolding nm by simp_all
  ultimately show ?thesis unfolding b(2) child_names_def by blast
qed

section \<open>Examples\<close>

definition demo_base :: "(MemoryFS, handle) MountableFS" where
  "demo_base = NewMountable (memory_FileSystem 7) (NewMemory 1)"

definition demo_a :: "(MemoryFS, handle) MountableFS" where
  "demo_a = snd (mt_Mount ''/mnt/a'' (Some (memory_FileSystem 7)) demo_base)"

definition demo_ab :: "(MemoryFS, handle) MountableFS" where
  "demo_ab = snd (mt_Mount ''/mnt/b'' (Some (memory_FileSystem 8)) demo_a)"

lemma demo_Mount: "mt_Mount ''/mnt/a'' (Some (memory_FileSystem 7)) demo_base = (Inr (), demo_a)"
proof -
  have "fst (mt_Mount ''/mnt/a'' (Some (memory_FileSystem 7)) demo_base) = Inr ()" by code_simp
  then show ?thesis by (simp add: demo_a_def prod_eq_iff)
qed

lemma demo_mt_reach:
  "mt_reach (NewMountable (memory_FileSystem 7) (NewMemory 1)) demo_base"
  "mt_reach (NewMountable (memory_FileSystem 7) (NewMemory 1)) demo_a"
  "mt_reach (NewMountable (memory_FileSystem 7) (NewMemory 1)) demo_ab"
proof -
  show b: "mt_reach (NewMountable (memory_FileSystem 7) (NewMemory 1)) demo_base"
    by (simp add: demo_base_def mt_reach.init)
  show a: "mt_reach (NewMountable (memory_FileSystem 7) (NewMemory 1)) demo_a"
    by (rule mt_reach.step [OF b], rule mt_step.Mount, rule demo_Mount)
  show "mt_reach (NewMountable (memory_FileSystem 7) (NewMemory 1)) demo_ab"
    unfolding demo_ab_def by (rule mt_reach.step [OF a], rule mt_step.Mount, rule surjective_pairing)
qed

lemma demo_mounts: "m_mounts demo_ab = [(''/mnt/a'', memory_FileSystem 7), (''/mnt/b'', memory_FileSystem 8)]"
  "m_mounts demo_a = [(''/mnt/a'', memory_FileSystem 7)]"
proof -
  have 1: "validateMountPath ''/mnt/a'' = None" "validateMountPath ''/mnt/b'' = None"
    "Clean (TrimSpace ''/mnt/a'') = ''/mnt/a''" "Clean (TrimSpace ''/mnt/b'') = ''/mnt/b''" by code_simp+
  show a: "m_mounts demo_a = [(''/mnt/a'', memory_FileSystem 7)]"
    by (simp add: demo_a_def mt_Mount_def 1 demo_base_def NewMountable_def validateMountLocked_def)
  show "m_mounts demo_ab = [(''/mnt/a'', memory_FileSystem 7), (''/mnt/b'', memory_FileSystem 8)]"
    by (simp add: demo_ab_def mt_Mount_def 1 a validateMountLocked_def HasPrefix_def)
qed

theorem mount_table_antichain_witness: "mt_wf demo_ab \<and> map fst (m_mounts demo_ab) = [''/mnt/a'', ''/mnt/b'']"
  using mount_table_antichain [OF demo_mt_reach(3)] by (simp add: demo_mounts)

theorem mount_order_irrelevant_witness:
  "routeLocked ''/mnt/b/x'' (demo_ab\<lparr>m_mounts := rev (m_mounts demo_ab)\<rparr>) = routeLocked ''/mnt/b/x'' demo_ab"
proof -
  have "distinct (map fst (rev (m_mounts demo_ab)))" by (simp add: demo_mounts)
  from mount_order_irrelevant [OF demo_mt_reach(3) set_rev this refl] show ?thesis by blast
qed

theorem mount_route_roundtrip_witness:
  "\<exists>f. routeLocked ''/mnt/a/x'' demo_ab = (Some (''/mnt/a'', f), ''/x'') \<and> prefixMountPath ''/mnt/a'' ''/x'' = ''/mnt/a/x''"
proof -
  have 1: "map_option fst (fst (routeLocked ''/mnt/a/x'' demo_ab)) = Some ''/mnt/a''" "snd (routeLocked ''/mnt/a/x'' demo_ab) = ''/x''"
    "Clean ''/mnt/a/x'' = ''/mnt/a/x''"
    by code_simp+
  then obtain f where f: "routeLocked ''/mnt/a/x'' demo_ab = (Some (''/mnt/a'', f), ''/x'')"
    by (cases "routeLocked ''/mnt/a/x'' demo_ab") auto
  with mount_route_roundtrip [OF demo_mt_reach(3) f] 1(3) show ?thesis by simp
qed

theorem mount_serves_subtree_witness:
  "\<exists>ps. Clean (TrimSpace ''/mnt/a'') = render ps \<and>
     routeLocked (render (ps @ [''x''])) demo_a = (Some (render ps, memory_FileSystem 7), render [''x''])"
proof -
  have "valid_comps [''x'']" by code_simp
  with mount_serves_subtree [OF demo_mt_reach(1) demo_Mount] show ?thesis by metis
qed

theorem mount_points_busy_witness:
  "mt_Remove ''/mnt'' True demo_ab = (Inl (PathError ''remove'' ''/mnt'' (Errno EBUSY)), demo_ab)"
proof -
  have "(''/mnt/a'', memory_FileSystem 7) \<in> set (m_mounts demo_ab)" by (simp add: demo_mounts)
  moreover have p: "mt_resolve ''/mnt'' demo_ab = ''/mnt''" "pathWithinMount ''/mnt/a'' ''/mnt''" by code_simp+
  ultimately show ?thesis using mount_points_busy [OF demo_mt_reach(3), of "''/mnt/a''" _ "''/mnt''" True] by simp
qed

theorem mount_ReadDir_synthetic_witness:
  "\<exists>es m'. mt_ReadDir ''/mnt'' demo_ab = (Inr es, m') \<and> distinct (map de_name es) \<and> ''a'' \<in> set (map de_name es)"
proof -
  have 1: "mt_resolve ''/mnt'' demo_ab = ''/mnt''" "isSyntheticParentLocked ''/mnt'' demo_ab"
    "valid_comps [''mnt'']" "valid_comps ([''mnt''] @ ''a'' # [])" "render [''mnt''] = ''/mnt''" "render ([''mnt''] @ ''a'' # []) = ''/mnt/a''"
    by code_simp+
  have "fst (orSynthetic [] (f_ReadDir (m_base demo_ab) ''/mnt'') (m_world demo_ab)) = Inr []" by code_simp
  then have "orSynthetic [] (f_ReadDir (m_base demo_ab) ''/mnt'') (m_world demo_ab) =
      (Inr [], snd (orSynthetic [] (f_ReadDir (m_base demo_ab) ''/mnt'') (m_world demo_ab)))" by (metis prod.collapse)
  from mount_ReadDir_synthetic [OF demo_mt_reach(3), of "''/mnt''" "[''mnt'']", unfolded 1(5), OF 1(1,3,2) this]
  obtain es m' where es: "mt_ReadDir ''/mnt'' demo_ab = (Inr es, m')" "distinct (map de_name es)"
    "set (map de_name es) = {c. \<exists>ds f. valid_comps ([''mnt''] @ c # ds) \<and> (render ([''mnt''] @ c # ds), f) \<in> set (m_mounts demo_ab)}"
    by auto
  have "''a'' \<in> set (map de_name es)"
    unfolding es(3) using 1(4,6) demo_mounts(1) by (auto intro!: exI [of _ "[]"] exI [of _ "memory_FileSystem 7"])
  with es(1,2) show ?thesis by blast
qed

end
