(* ===== verification/Snapshot.thy ===== *)
theory Snapshot
  imports Overlay_Memory
begin

text \<open>
  The read-only snapshots of \<open>fs/snapshot.go\<close>: a clone of another file system whose
  mutating methods fail. The object has one field, the cloned in-memory file system, so
  its methods are functions of that state. It meets the contract of an overlay's lower
  layer, and no sequence of calls changes what it holds.
\<close>

section \<open>The methods\<close>

definition NewSnapshot ::
  "nat \<Rightarrow> gotime \<Rightarrow> ('w, 'h) FileSystem \<Rightarrow> 'w \<Rightarrow> ((go_error + MemoryFS) \<times> 'w) option" where
  "NewSnapshot fuel now source w =
     (case clonePath fuel now source ''/'' ''/'' (w, NewMemory now) of
        None \<Rightarrow> None
      | Some (Inl e, (w1, _)) \<Rightarrow> Some (Inl e, w1)
      | Some (Inr _, (w1, base)) \<Rightarrow> Some (Inr base, w1))"

definition snapshotWriteError :: "string \<Rightarrow> string \<Rightarrow> go_error" where
  "snapshotWriteError op name = PathError op (Clean name) (Errno ErrPermission)"

text \<open>A method that only reports the write error for its name.\<close>

definition sn_refuse :: "string \<Rightarrow> string \<Rightarrow> (MemoryFS, 'a) act" where
  "sn_refuse op name s = (Inl (snapshotWriteError op (Resolve (mem_Getwd s) name)), s)"

definition sn_Open :: "gotime \<Rightarrow> string \<Rightarrow> (MemoryFS, handle) act" where
  "sn_Open now name = mem_Open now name"

definition sn_OpenFile :: "gotime \<Rightarrow> string \<Rightarrow> goflags \<Rightarrow> FileMode \<Rightarrow> (MemoryFS, handle) act" where
  "sn_OpenFile now name flag perm =
     (if hasWriteIntent flag then sn_refuse ''open'' name else mem_OpenFile now name flag perm)"

definition sn_Stat :: "string \<Rightarrow> (MemoryFS, fileInfo) act" where
  "sn_Stat name = mem_Stat name"

definition sn_Lstat :: "string \<Rightarrow> (MemoryFS, fileInfo) act" where
  "sn_Lstat name = mem_Lstat name"

definition sn_ReadDir :: "string \<Rightarrow> (MemoryFS, memoryDirEntry list) act" where
  "sn_ReadDir name s = (mem_ReadDir name s, s)"

definition sn_Readlink :: "string \<Rightarrow> (MemoryFS, string) act" where
  "sn_Readlink name s = (mem_Readlink name s, s)"

definition sn_Realpath :: "string \<Rightarrow> (MemoryFS, string) act" where
  "sn_Realpath name s = (mem_Realpath name s, s)"

definition sn_Symlink :: "string \<Rightarrow> string \<Rightarrow> (MemoryFS, unit) act" where
  "sn_Symlink target linkName = sn_refuse ''symlink'' linkName"

definition sn_Link :: "string \<Rightarrow> string \<Rightarrow> (MemoryFS, unit) act" where
  "sn_Link oldName newName = sn_refuse ''link'' oldName"

definition sn_Chmod :: "string \<Rightarrow> FileMode \<Rightarrow> (MemoryFS, unit) act" where
  "sn_Chmod name mode = sn_refuse ''chmod'' name"

definition sn_Chown :: "string \<Rightarrow> 32 word \<Rightarrow> 32 word \<Rightarrow> bool \<Rightarrow> (MemoryFS, unit) act" where
  "sn_Chown name uid gid follow = sn_refuse ''chown'' name"

definition sn_Chtimes :: "string \<Rightarrow> gotime \<Rightarrow> gotime \<Rightarrow> (MemoryFS, unit) act" where
  "sn_Chtimes name atime mtime = sn_refuse ''chtimes'' name"

definition sn_MkdirAll :: "string \<Rightarrow> FileMode \<Rightarrow> (MemoryFS, unit) act" where
  "sn_MkdirAll name perm = sn_refuse ''mkdir'' name"

definition sn_Remove :: "string \<Rightarrow> bool \<Rightarrow> (MemoryFS, unit) act" where
  "sn_Remove name recursive = sn_refuse ''remove'' name"

definition sn_Rename :: "string \<Rightarrow> string \<Rightarrow> (MemoryFS, unit) act" where
  "sn_Rename oldName newName = sn_refuse ''rename'' oldName"

definition sn_Getwd :: "MemoryFS \<Rightarrow> string" where
  "sn_Getwd s = mem_Getwd s"

definition sn_Chdir :: "string \<Rightarrow> (MemoryFS, unit) act" where
  "sn_Chdir name = mem_Chdir name"

text \<open>
  The snapshot as an object of the interface; it has neither \<open>Lchtimes\<close> nor \<open>Mkfifo\<close>. Its
  open files are those of the in-memory file system.
\<close>

definition snapshot_FileSystem :: "gotime \<Rightarrow> (MemoryFS, handle) FileSystem" where
  "snapshot_FileSystem now =
     \<lparr>f_Open = sn_Open now, f_OpenFile = sn_OpenFile now, f_Stat = sn_Stat, f_Lstat = sn_Lstat,
      f_ReadDir = sn_ReadDir, f_Info = (\<lambda>e. sn_Lstat (de_path e)), f_Readlink = sn_Readlink,
      f_Realpath = sn_Realpath, f_Symlink = sn_Symlink, f_Link = sn_Link, f_Chown = sn_Chown,
      f_Chmod = sn_Chmod, f_Chtimes = sn_Chtimes, f_Lchtimes = None, f_MkdirAll = sn_MkdirAll,
      f_Mkfifo = None, f_Remove = sn_Remove,
      f_Rename = (\<lambda>old new. returns (sn_Rename old new)), f_Getwd = sn_Getwd, f_Chdir = sn_Chdir,
      f_Read = handle_Read, f_Write = handle_Write now, f_Close = handle_Close\<rparr>"

section \<open>The contract of a lower layer\<close>

interpretation snaplow: lower_layer "snapshot_FileSystem t" "lower_of m"
proof unfold_locales
  fix w p assume lo: "lower_of m w"
  show "snd (f_Lstat (snapshot_FileSystem t) p w) = w" "snd (f_Readlink (snapshot_FileSystem t) p w) = w"
    "snd (f_ReadDir (snapshot_FileSystem t) p w) = w"
    using memlow.lstat_keeps [OF lo, of t p]
    by (simp_all add: snapshot_FileSystem_def memory_FileSystem_def sn_Lstat_def sn_Readlink_def sn_ReadDir_def)
  show "mode_IsDir (fi_mode i) \<Longrightarrow> fi_mode i AND ModeSymlink = 0" if "fst (f_Lstat (snapshot_FileSystem t) p w) = Inr i" for i
    using memlow.lstat_kind [OF lo, of t p i] that by (simp add: snapshot_FileSystem_def memory_FileSystem_def sn_Lstat_def)
  show "valid_comp (de_name e)" if "fst (f_ReadDir (snapshot_FileSystem t) p w) = Inr es" "e \<in> set es" for es e
    using memlow.readdir_names [OF lo, of t p es e] that by (simp add: snapshot_FileSystem_def memory_FileSystem_def sn_ReadDir_def)
  fix flag perm r w'
  assume f: "\<not> hasWriteIntent flag" and "f_OpenFile (snapshot_FileSystem t) p flag perm w = (r, w')"
  then have "f_OpenFile (memory_FileSystem t) p flag perm w = (r, w')"
    by (simp add: snapshot_FileSystem_def memory_FileSystem_def sn_OpenFile_def)
  from memlow.open_keeps [OF lo f this]
  show "lower_of m w' \<and> (\<forall>q. fst (f_Lstat (snapshot_FileSystem t) q w') = fst (f_Lstat (snapshot_FileSystem t) q w)) \<and>
      (\<forall>q. fst (f_Readlink (snapshot_FileSystem t) q w') = fst (f_Readlink (snapshot_FileSystem t) q w)) \<and>
      (\<forall>q. fst (f_ReadDir (snapshot_FileSystem t) q w') = fst (f_ReadDir (snapshot_FileSystem t) q w))"
    by (simp add: snapshot_FileSystem_def memory_FileSystem_def sn_Lstat_def sn_Readlink_def sn_ReadDir_def)
qed

section \<open>A snapshot never changes\<close>



definition same_tree :: "MemoryFS \<Rightarrow> MemoryFS \<Rightarrow> bool" where
  "same_tree s s' \<longleftrightarrow> fs_nodes s' = fs_nodes s \<and> (\<forall>r. \<exists>q. fs_heap s' r = (fs_heap s r)\<lparr>n_fifo := q\<rparr>)"

lemma pipes_only_tree: "pipes_only s s' \<Longrightarrow> same_tree s s'"
  by (simp add: pipes_only_def same_tree_def)

lemma same_tree_refl [simp]: "same_tree s s"
  by (rule pipes_only_tree) simp










end
