(* ===== verification/GoText.thy ===== *)
theory GoText
  imports GoLib
begin

text \<open>
  What the pattern, network and brace components use of the packages \<open>unicode/utf8\<close>,
  \<open>strings\<close>, \<open>strconv\<close> and \<open>slices\<close>. A Go string is a list of bytes; a rune is an
  integer. The tables of package \<open>unicode\<close> enter as arguments of the functions that use them.
\<close>

abbreviation between :: "char \<Rightarrow> char \<Rightarrow> char \<Rightarrow> bool" where "between lo hi c \<equiv> lo \<le> c \<and> c \<le> hi"

section \<open>UTF-8\<close>

definition RuneError :: int where "RuneError = 0xFFFD"

abbreviation byte :: "char \<Rightarrow> int" where "byte c \<equiv> of_char c"

definition continuation :: "int \<Rightarrow> bool" where "continuation b = (0x80 \<le> b \<and> b \<le> 0xBF)"

text \<open>
  The accepted range of the second byte after a first byte, and the length of the sequence
  (\<open>None\<close> for a byte that starts no sequence).
\<close>

definition utf8_first :: "int \<Rightarrow> (nat \<times> int \<times> int) option" where
  "utf8_first b =
     (if 0xC2 \<le> b \<and> b \<le> 0xDF then Some (2, 0x80, 0xBF)
      else if b = 0xE0 then Some (3, 0xA0, 0xBF)
      else if b = 0xED then Some (3, 0x80, 0x9F)
      else if 0xE1 \<le> b \<and> b \<le> 0xEF then Some (3, 0x80, 0xBF)
      else if b = 0xF0 then Some (4, 0x90, 0xBF)
      else if 0xF1 \<le> b \<and> b \<le> 0xF3 then Some (4, 0x80, 0xBF)
      else if b = 0xF4 then Some (4, 0x80, 0x8F)
      else None)"

definition DecodeRune :: "string \<Rightarrow> int \<times> nat" where
  "DecodeRune s =
     (case s of
        [] \<Rightarrow> (RuneError, 0)
      | c # cs \<Rightarrow>
          let b0 = byte c
          in if b0 < 0x80 then (b0, 1)
             else (case utf8_first b0 of
                     None \<Rightarrow> (RuneError, 1)
                   | Some (sz, lo, hi) \<Rightarrow>
                       let bs = map byte (take (sz - 1) cs)
                       in if length bs = sz - 1 \<and> lo \<le> bs ! 0 \<and> bs ! 0 \<le> hi \<and> list_all continuation (tl bs)
                          then (fold (\<lambda>b r. r * 64 + b mod 64) bs (b0 mod 2 ^ (7 - sz)), sz)
                          else (RuneError, 1)))"

definition rune_size :: "string \<Rightarrow> nat" where "rune_size s = snd (DecodeRune s)"

lemma utf8_first_size: "utf8_first b = Some (sz, lo, hi) \<Longrightarrow> 2 \<le> sz \<and> sz \<le> 4 \<and> 0x80 \<le> lo \<and> hi \<le> 0xBF \<and> 0x80 \<le> b"
  by (auto simp: utf8_first_def split: if_splits)

lemma rune_size_Nil [simp]: "rune_size [] = 0"
  by (simp add: rune_size_def DecodeRune_def)

lemma rune_size_pos: "s \<noteq> [] \<Longrightarrow> 0 < rune_size s"
  by (auto simp: rune_size_def DecodeRune_def Let_def neq_Nil_conv dest!: utf8_first_size split: option.splits)

lemma rune_size_le: "rune_size s \<le> length s"
  by (auto simp: rune_size_def DecodeRune_def Let_def dest!: utf8_first_size split: option.splits list.splits)

lemma rune_size_ascii: "byte c < 0x80 \<Longrightarrow> rune_size (c # cs) = 1"
  by (simp add: rune_size_def DecodeRune_def)

text \<open>The bytes of a rune that is longer than one byte all lie above the ASCII range.\<close>

lemma rune_high_bytes:
  assumes "c \<in> set (take (rune_size s) s)" "rune_size s \<noteq> 1"
  shows "0x80 \<le> byte c"
proof (cases s)
  case (Cons a cs)
  show ?thesis
  proof (cases "utf8_first (byte a)")
    case None
    with assms Cons show ?thesis by (auto simp: rune_size_def DecodeRune_def Let_def split: if_splits)
  next
    case (Some t)
    obtain sz lo hi where t: "t = (sz, lo, hi)" by (cases t) auto
    from assms Cons Some t have *: "rune_size s = sz" "length (map byte (take (sz - 1) cs)) = sz - 1"
      "lo \<le> map byte (take (sz - 1) cs) ! 0" "list_all continuation (tl (map byte (take (sz - 1) cs)))"
      by (auto simp: rune_size_def DecodeRune_def Let_def split: if_splits)
    from Some t have sz: "2 \<le> sz" "0x80 \<le> lo" "0x80 \<le> byte a" using utf8_first_size by auto
    obtain b bs where b: "take (sz - 1) cs = b # bs" using *(2) sz(1) by (cases "take (sz - 1) cs") auto
    have "set (take sz s) = insert a (set (take (sz - 1) cs))" using Cons sz(1) by (cases sz) auto
    moreover from *(3) b have "lo \<le> byte b" by simp
    ultimately show ?thesis using assms(1) * b sz by (auto simp: list_all_iff continuation_def)
  qed
qed (use assms in simp)

section \<open>Sorted slices\<close>

text \<open>\<open>slices.Compact\<close> on a sorted slice, and \<open>slices.BinarySearch\<close> as its halving loop.\<close>

fun Compact :: "nat list \<Rightarrow> nat list" where
  "Compact (x # y # xs) = (if x = y then Compact (y # xs) else x # Compact (y # xs))"
| "Compact xs = xs"

lemma Compact_set [simp]: "set (Compact xs) = set xs"
  by (induction xs rule: Compact.induct) auto

lemma Compact_sorted: "sorted xs \<Longrightarrow> sorted (Compact xs) \<and> distinct (Compact xs)"
proof (induction xs rule: Compact.induct)
  case (1 x y xs)
  then show ?case by (cases "x = y") (auto simp: less_le)
qed auto

function search_loop :: "nat list \<Rightarrow> nat \<Rightarrow> nat \<Rightarrow> nat \<Rightarrow> nat" where
  "search_loop xs t i j =
     (if i < j then
        let h = (i + j) div 2
        in if xs ! h < t then search_loop xs t (h + 1) j else search_loop xs t i h
      else i)"
  by pat_completeness auto
termination by (relation "measure (\<lambda>(xs, t, i, j). j - i)") auto

declare search_loop.simps [simp del]

definition BinarySearch :: "nat list \<Rightarrow> nat \<Rightarrow> nat \<times> bool" where
  "BinarySearch xs t =
     (let i = search_loop xs t 0 (length xs) in (i, i < length xs \<and> xs ! i = t))"

definition splits_at :: "nat list \<Rightarrow> nat \<Rightarrow> nat \<Rightarrow> nat \<Rightarrow> bool" where
  "splits_at xs t i j \<longleftrightarrow> i \<le> j \<and> j \<le> length xs \<and> (\<forall>k < i. xs ! k < t) \<and> (\<forall>k < length xs. j \<le> k \<longrightarrow> t \<le> xs ! k)"

lemma splits_at_right:
  assumes "sorted xs" "splits_at xs t i j" "h < j" "xs ! h < t"
  shows "splits_at xs t (h + 1) j"
proof -
  have "xs ! k < t" if "k < h + 1" for k
  proof -
    from that assms(2,3) have "xs ! k \<le> xs ! h" by (intro sorted_nth_mono [OF assms(1)]) (auto simp: splits_at_def)
    with assms(4) show ?thesis by simp
  qed
  with assms(2,3) show ?thesis by (simp add: splits_at_def)
qed

lemma splits_at_left:
  assumes "sorted xs" "splits_at xs t i j" "i \<le> h" "h < j" "\<not> xs ! h < t"
  shows "splits_at xs t i h"
proof -
  have "t \<le> xs ! k" if "h \<le> k" "k < length xs" for k
    using sorted_nth_mono [OF assms(1) that] assms(5) by simp
  with assms(2,3,4) show ?thesis by (simp add: splits_at_def)
qed

lemma search_loop_splits:
  "sorted xs \<Longrightarrow> splits_at xs t i j \<Longrightarrow> splits_at xs t (search_loop xs t i j) (search_loop xs t i j)"
proof (induction xs t i j rule: search_loop.induct)
  case (1 xs t i j)
  show ?case
  proof (cases "i < j")
    case False
    then have "search_loop xs t i j = i" by (simp add: search_loop.simps [of xs t i j])
    moreover from False "1.prems"(2) have "j = i" by (simp add: splits_at_def)
    ultimately
    show ?thesis using "1.prems"(2) by simp
  next
    case True
    define h where "h = (i + j) div 2"
    from True have h: "i \<le> h" "h < j" by (auto simp: h_def)
    show ?thesis
    proof (cases "xs ! h < t")
      case less: True
      with True have "search_loop xs t i j = search_loop xs t (h + 1) j"
        by (simp add: search_loop.simps [of xs t i j] h_def)
      then show ?thesis
        using "1.IH"(1) [OF True h_def less "1.prems"(1) splits_at_right [OF "1.prems" h(2) less]] by simp
    next
      case ge: False
      with True have "search_loop xs t i j = search_loop xs t i h"
        by (simp add: search_loop.simps [of xs t i j] h_def)
      then show ?thesis
        using "1.IH"(2) [OF True h_def ge "1.prems"(1) splits_at_left [OF "1.prems" h ge]] by simp
    qed
  qed
qed

lemma BinarySearch_found: "sorted xs \<Longrightarrow> snd (BinarySearch xs t) \<longleftrightarrow> t \<in> set xs"
proof -
  assume s: "sorted xs"
  define i where "i = search_loop xs t 0 (length xs)"
  have "splits_at xs t i i"
    unfolding i_def by (rule search_loop_splits [OF s]) (simp add: splits_at_def)
  then have b: "\<And>k. k < i \<Longrightarrow> xs ! k < t" "\<And>k. i \<le> k \<Longrightarrow> k < length xs \<Longrightarrow> t \<le> xs ! k"
    by (auto simp: splits_at_def)
  have "t \<in> set xs \<longleftrightarrow> i < length xs \<and> xs ! i = t"
  proof
    assume "t \<in> set xs"
    then obtain k where k: "k < length xs" "xs ! k = t" by (auto simp: in_set_conv_nth)
    with b(1) [of k] have ik: "i \<le> k" by (cases "k < i") auto
    with k sorted_nth_mono [OF s ik] b(2) [of i] show "i < length xs \<and> xs ! i = t" by simp
  qed auto
  then show ?thesis by (simp add: BinarySearch_def i_def [symmetric] Let_def)
qed

section \<open>Searching and splitting\<close>

text \<open>\<open>strings.Cut\<close>: the text before and after the first occurrence of a separator.\<close>

fun Cut :: "string \<Rightarrow> string \<Rightarrow> (string \<times> string) option" where
  "Cut [] sep = (if sep = [] then Some ([], []) else None)"
| "Cut (c # cs) sep =
     (if prefix sep (c # cs) then Some ([], drop (length sep) (c # cs))
      else (case Cut cs sep of None \<Rightarrow> None | Some (a, b) \<Rightarrow> Some (c # a, b)))"

lemma Cut_length: "Cut s sep = Some (a, b) \<Longrightarrow> length a + length b + length sep = length s"
proof (induction s arbitrary: a)
  case (Cons c cs)
  then show ?case by (auto simp: prefix_length_le split: if_splits option.splits dest: prefix_length_le)
qed (simp split: if_splits)

fun Contains :: "string \<Rightarrow> string \<Rightarrow> bool" where
  "Contains [] sub = (sub = [])"
| "Contains (c # cs) sub = (prefix sub (c # cs) \<or> Contains cs sub)"

definition HasSuffix :: "string \<Rightarrow> string \<Rightarrow> bool" where
  "HasSuffix s p = suffix p s"

definition TrimSuffix :: "string \<Rightarrow> string \<Rightarrow> string" where
  "TrimSuffix s p = (if suffix p s then take (length s - length p) s else s)"

text \<open>\<open>strings.FieldsFunc\<close> for a predicate on ASCII characters.\<close>

fun split_where :: "(char \<Rightarrow> bool) \<Rightarrow> string \<Rightarrow> string list" where
  "split_where P [] = [[]]"
| "split_where P (c # cs) =
     (if P c then [] # split_where P cs else (c # hd (split_where P cs)) # tl (split_where P cs))"

definition FieldsFunc :: "string \<Rightarrow> (char \<Rightarrow> bool) \<Rightarrow> string list" where
  "FieldsFunc s P = filter (\<lambda>f. f \<noteq> []) (split_where P s)"

text \<open>The position of the last occurrence of a byte splits a string.\<close>

definition cut_last :: "char \<Rightarrow> string \<Rightarrow> (string \<times> string) option" where
  "cut_last c s =
     (if c \<in> set s
      then Some (rev (tl (dropWhile (\<lambda>x. x \<noteq> c) (rev s))), rev (takeWhile (\<lambda>x. x \<noteq> c) (rev s)))
      else None)"

section \<open>Upper and lower case\<close>

definition EncodeRune :: "int \<Rightarrow> string" where
  "EncodeRune r =
     (let ch = (\<lambda>b. char_of (nat b))
      in if r < 0 \<or> 0x10FFFF < r \<or> 0xD800 \<le> r \<and> r \<le> 0xDFFF then [CHR 0xEF, CHR 0xBF, CHR 0xBD]
         else if r < 0x80 then [ch r]
         else if r < 0x800 then [ch (0xC0 + r div 64), ch (0x80 + r mod 64)]
         else if r < 0x10000 then [ch (0xE0 + r div 4096), ch (0x80 + r div 64 mod 64), ch (0x80 + r mod 64)]
         else [ch (0xF0 + r div 262144), ch (0x80 + r div 4096 mod 64), ch (0x80 + r div 64 mod 64), ch (0x80 + r mod 64)])"

function runes :: "string \<Rightarrow> int list" where
  "runes s = (if s = [] then [] else fst (DecodeRune s) # runes (drop (rune_size s) s))"
  by pat_completeness auto
termination by (relation "measure length") (auto simp: rune_size_pos)

declare runes.simps [simp del]

definition ascii_lower :: "int \<Rightarrow> int" where
  "ascii_lower r = (if 65 \<le> r \<and> r \<le> 90 then r + 32 else r)"

definition ascii_upper :: "int \<Rightarrow> int" where
  "ascii_upper r = (if 97 \<le> r \<and> r \<le> 122 then r - 32 else r)"

definition map_case :: "(int \<Rightarrow> int) \<Rightarrow> (int \<Rightarrow> int) \<Rightarrow> string \<Rightarrow> string" where
  "map_case ascii table s = concat (map (\<lambda>r. EncodeRune (if r < 0x80 then ascii r else table r)) (runes s))"

text \<open>\<open>strings.ToLower\<close> and \<open>ToUpper\<close>; the argument is the table of package \<open>unicode\<close>.\<close>

definition ToLower :: "(int \<Rightarrow> int) \<Rightarrow> string \<Rightarrow> string" where
  "ToLower lower s = map_case ascii_lower lower s"

definition ToUpper :: "(int \<Rightarrow> int) \<Rightarrow> string \<Rightarrow> string" where
  "ToUpper upper s = map_case ascii_upper upper s"

end
