(* ===== verification/GoNet.thy ===== *)
theory GoNet
  imports GoText
begin

text \<open>
  What the network component uses of the packages \<open>net/url\<close>, \<open>net/http\<close>, \<open>net\<close> and
  \<open>net/netip\<close>: the escaping of paths, host and port, canonical header names, addresses and
  prefixes are defined here. The parser and printer of URLs, the text form of addresses, the
  construction of requests and the Unicode tables are the fields of the argument \<open>net_lib\<close>.
\<close>

section \<open>Escaping\<close>

definition is_alnum :: "char \<Rightarrow> bool" where
  "is_alnum c = (between (CHR ''a'') (CHR ''z'') c \<or> between (CHR ''A'') (CHR ''Z'') c \<or> between (CHR ''0'') (CHR ''9'') c)"

definition hex_value :: "char \<Rightarrow> nat option" where
  "hex_value c =
     (if between (CHR ''0'') (CHR ''9'') c then Some (of_char c - 48)
      else if between (CHR ''a'') (CHR ''f'') c then Some (of_char c - 87)
      else if between (CHR ''A'') (CHR ''F'') c then Some (of_char c - 55)
      else None)"

text \<open>\<open>unescape\<close> for a path, and for a query where a plus stands for a space.\<close>

fun unescape :: "bool \<Rightarrow> string \<Rightarrow> string option" where
  "unescape query [] = Some []"
| "unescape query (c # cs) =
     (if c = CHR ''%'' then
        (case cs of
           a # b # rest \<Rightarrow>
             (case (hex_value a, hex_value b) of
                (Some x, Some y) \<Rightarrow> map_option (\<lambda>t. char_of (16 * x + y) # t) (unescape query rest)
              | _ \<Rightarrow> None)
         | _ \<Rightarrow> None)
      else map_option (\<lambda>t. (if query \<and> c = CHR ''+'' then CHR '' '' else c) # t) (unescape query cs))"

abbreviation PathUnescape :: "string \<Rightarrow> string option" where "PathUnescape \<equiv> unescape False"
abbreviation QueryUnescape :: "string \<Rightarrow> string option" where "QueryUnescape \<equiv> unescape True"

definition shouldEscape_path :: "char \<Rightarrow> bool" where
  "shouldEscape_path c = (\<not> (is_alnum c \<or> c \<in> set ''-_.~$&+,/:;=@''))"

definition validEncoded_path :: "string \<Rightarrow> bool" where
  "validEncoded_path s =
     list_all (\<lambda>c. c \<in> set (''!$&'' @ [CHR 0x27] @ ''()*+,;=:@[]%'') \<or> \<not> shouldEscape_path c) s"

definition hex_digit :: "nat \<Rightarrow> char" where
  "hex_digit n = (''0123456789ABCDEF'') ! n"

definition escape_path :: "string \<Rightarrow> string" where
  "escape_path s = concat (map (\<lambda>c. if shouldEscape_path c
     then [CHR ''%'', hex_digit (of_char c div 16), hex_digit (of_char c mod 16)] else [c]) s)"

section \<open>URLs\<close>

record URL =
  u_Scheme :: string
  u_Opaque :: string
  u_User :: "string option"
  u_Host :: string
  u_Path :: string
  u_RawPath :: string
  u_OmitHost :: bool
  u_ForceQuery :: bool
  u_RawQuery :: string
  u_Fragment :: string
  u_RawFragment :: string

definition EscapedPath :: "URL \<Rightarrow> string" where
  "EscapedPath u =
     (if u_RawPath u \<noteq> '''' \<and> validEncoded_path (u_RawPath u) \<and> PathUnescape (u_RawPath u) = Some (u_Path u)
      then u_RawPath u
      else if u_Path u = ''*'' then ''*'' else escape_path (u_Path u))"

definition validOptionalPort :: "string \<Rightarrow> bool" where
  "validOptionalPort p = (p = '''' \<or> hd p = CHR '':'' \<and> list_all (\<lambda>c. between (CHR ''0'') (CHR ''9'') c) (tl p))"

definition splitHostPort :: "string \<Rightarrow> string \<times> string" where
  "splitHostPort hostPort =
     (case (case cut_last CHR '':'' hostPort of
              Some (h, p) \<Rightarrow> if validOptionalPort (CHR '':'' # p) then (h, p) else (hostPort, '''')
            | None \<Rightarrow> (hostPort, '''')) of
        (h, p) \<Rightarrow> (if HasPrefix h ''['' \<and> HasSuffix h '']'' then butlast (tl h) else h, p))"

definition Hostname :: "URL \<Rightarrow> string" where "Hostname u = fst (splitHostPort (u_Host u))"
definition Port :: "URL \<Rightarrow> string" where "Port u = snd (splitHostPort (u_Host u))"

definition JoinHostPort :: "string \<Rightarrow> string \<Rightarrow> string" where
  "JoinHostPort host port =
     (if CHR '':'' \<in> set host then ''['' @ host @ '']:'' @ port else host @ '':'' @ port)"

section \<open>Header names\<close>

definition header_byte :: "char \<Rightarrow> bool" where
  "header_byte c = (is_alnum c \<or> c \<in> set (''!#$%&'' @ [CHR 0x27] @ ''*+-.^_'' @ [CHR 0x60] @ ''|~''))"

definition upper_char :: "char \<Rightarrow> char" where
  "upper_char c = (if between (CHR ''a'') (CHR ''z'') c then char_of (of_char c - 32 :: nat) else c)"

definition lower_char :: "char \<Rightarrow> char" where
  "lower_char c = (if between (CHR ''A'') (CHR ''Z'') c then char_of (of_char c + 32 :: nat) else c)"

fun canonical_loop :: "bool \<Rightarrow> string \<Rightarrow> string" where
  "canonical_loop upper [] = []"
| "canonical_loop upper (c # cs) =
     (if upper then upper_char c else lower_char c) # canonical_loop (c = CHR ''-'') cs"

definition CanonicalHeaderKey :: "string \<Rightarrow> string" where
  "CanonicalHeaderKey s = (if list_all header_byte s then canonical_loop True s else s)"

section \<open>Addresses\<close>

text \<open>
  \<open>netip.Addr\<close> is an IPv4 or an IPv6 address, the latter with a zone; \<open>net.IP\<close> is a slice
  of bytes. A prefix is an address with the number of its leading bits that count.
\<close>

datatype Addr = Addr4 "32 word" | Addr6 "128 word" string

type_synonym IP = "8 word list"

definition word_of_bytes :: "8 word list \<Rightarrow> 'a::len word" where
  "word_of_bytes bs = fold (\<lambda>b r. push_bit 8 r OR ucast b) bs 0"

definition AddrFromSlice :: "IP \<Rightarrow> Addr option" where
  "AddrFromSlice ip =
     (if length ip = 4 then Some (Addr4 (word_of_bytes ip))
      else if length ip = 16 then Some (Addr6 (word_of_bytes ip) '''')
      else None)"

definition Unmap :: "Addr \<Rightarrow> Addr" where
  "Unmap a =
     (case a of Addr4 _ \<Rightarrow> a
      | Addr6 w _ \<Rightarrow> if drop_bit 32 w = 0xFFFF then Addr4 (ucast w) else a)"

definition WithoutZone :: "Addr \<Rightarrow> Addr" where
  "WithoutZone a = (case a of Addr4 _ \<Rightarrow> a | Addr6 w _ \<Rightarrow> Addr6 w '''')"

definition prefix_Contains :: "Addr \<times> nat \<Rightarrow> Addr \<Rightarrow> bool" where
  "prefix_Contains p a =
     (case (p, a) of
        ((Addr4 v, n), Addr4 w) \<Rightarrow> drop_bit (32 - n) (w XOR v) = 0
      | ((Addr6 v _, n), Addr6 w z) \<Rightarrow> z = '''' \<and> drop_bit (128 - n) (w XOR v) = 0
      | _ \<Rightarrow> False)"

definition IsUnspecified :: "Addr \<Rightarrow> bool" where
  "IsUnspecified a = (a = Addr4 0 \<or> a = Addr6 0 '''')"

definition IsLoopback :: "Addr \<Rightarrow> bool" where
  "IsLoopback a = (case a of Addr4 w \<Rightarrow> drop_bit 24 w = 127 | Addr6 w _ \<Rightarrow> w = 1)"

definition IsPrivate :: "Addr \<Rightarrow> bool" where
  "IsPrivate a =
     (case a of
        Addr4 w \<Rightarrow> drop_bit 24 w = 10 \<or> drop_bit 20 w = 0xAC1 \<or> drop_bit 16 w = 0xC0A8
      | Addr6 w _ \<Rightarrow> drop_bit 121 w = 0x7E)"

definition IsLinkLocalUnicast :: "Addr \<Rightarrow> bool" where
  "IsLinkLocalUnicast a =
     (case a of Addr4 w \<Rightarrow> drop_bit 16 w = 0xA9FE | Addr6 w _ \<Rightarrow> drop_bit 118 w = 0x3FA)"

definition IsMulticast :: "Addr \<Rightarrow> bool" where
  "IsMulticast a = (case a of Addr4 w \<Rightarrow> drop_bit 28 w = 0xE | Addr6 w _ \<Rightarrow> drop_bit 120 w = 0xFF)"

section \<open>Errors and the rest of the libraries\<close>

datatype net_error =
    AccessDeniedError string string
  | MethodNotAllowedError string
  | RedirectNotAllowedError string
  | TooManyRedirectsError int
  | ResponseTooLargeError int
  | InvalidConfigError "(string \<times> string) list"
  | DNSError string string bool
  | LibError string

record net_lib =
  unicode_lower :: "int \<Rightarrow> int"
  unicode_upper :: "int \<Rightarrow> int"
  url_Parse :: "string \<Rightarrow> net_error + URL"
  url_String :: "URL \<Rightarrow> string"
  url_ResolveReference :: "URL \<Rightarrow> URL \<Rightarrow> URL"
  http_NewRequest :: "string \<Rightarrow> string \<Rightarrow> net_error + string"
  netip_ParseAddr :: "string \<Rightarrow> Addr option"
  net_ParseIP :: "string \<Rightarrow> IP option"
  net_SplitHostPort :: "string \<Rightarrow> net_error + string \<times> string"
  ip_String :: "IP \<Rightarrow> string"

end
