(* ===== verification/Network.thy ===== *)
theory Network
  imports GoNet
begin

text \<open>
  The HTTP client of the sandbox (\<open>network/network.go\<close>, \<open>network/redact.go\<close>): its allowlist
  of URL prefixes and methods, the normalisation of URL paths, the classification of private
  addresses, the request loop with its redirects, and the redaction of secrets. The doer, the
  resolver and the dialer are arguments that act on a world \<open>'w\<close>; a deadline shows up as an
  error of theirs. The request loop also returns the requests it has sent.
\<close>

section \<open>Names that carry secrets\<close>

definition RedactedValue :: string where "RedactedValue = ''[REDACTED]''"

definition sensitiveQueryKeys :: "string list" where
  "sensitiveQueryKeys =
     [''access_token'', ''api_key'', ''apikey'', ''auth'', ''authorization'', ''bearer'', ''credential'',
      ''id_token'', ''key'', ''password'', ''passwd'', ''refresh_token'', ''secret'', ''sig'', ''signature'',
      ''token'', ''x-amz-credential'', ''x-amz-security-token'', ''x-amz-signature'', ''x-goog-credential'',
      ''x-goog-signature'', ''x-ms-signature'']"

definition sensitiveNameFragments :: "string list" where
  "sensitiveNameFragments =
     [''token'', ''secret'', ''passw'', ''auth'', ''cookie'', ''credential'', ''signature'', ''apikey'', ''session'']"

definition sensitiveNameComponents :: "string list" where
  "sensitiveNameComponents = [''key'', ''sig'', ''pwd'', ''jwt'']"

definition IsSensitiveName :: "net_lib \<Rightarrow> string \<Rightarrow> bool" where
  "IsSensitiveName L name =
     (let normalized = ToLower (unicode_lower L) (TrimSpace name)
      in if normalized = '''' then False
         else normalized \<in> set sensitiveQueryKeys \<or>
           list_ex (Contains normalized) sensitiveNameFragments \<or>
           list_ex (\<lambda>component. component \<in> set sensitiveNameComponents)
             (FieldsFunc normalized (\<lambda>r. r = CHR ''-'' \<or> r = CHR ''_'' \<or> r = CHR ''.'')))"

definition isCredentialHeader :: "string \<Rightarrow> bool" where
  "isCredentialHeader name =
     (CanonicalHeaderKey (TrimSpace name) \<in>
        {''Authorization'', ''Proxy-Authorization'', ''Cookie'', ''Cookie2''})"

definition isBodyHeader :: "string \<Rightarrow> bool" where
  "isBodyHeader name =
     (CanonicalHeaderKey (TrimSpace name) \<in>
        {''Content-Type'', ''Content-Length'', ''Content-Encoding'', ''Content-Language'',
         ''Content-Location'', ''Transfer-Encoding''})"

section \<open>Redaction\<close>

definition redact_part :: "net_lib \<Rightarrow> string \<Rightarrow> string \<times> bool" where
  "redact_part L part =
     (if part = '''' then (part, False)
      else (case Cut part ''='' of
              None \<Rightarrow> (part, False)
            | Some (key, val) \<Rightarrow>
                let decodedKey = (case QueryUnescape key of Some k \<Rightarrow> k | None \<Rightarrow> key)
                in if \<not> IsSensitiveName L decodedKey then (part, False)
                   else if val \<noteq> RedactedValue then (key @ ''='' @ RedactedValue, True)
                   else (part, False)))"

definition RedactQuery :: "net_lib \<Rightarrow> string \<Rightarrow> string \<times> bool" where
  "RedactQuery L raw =
     (let parts = map (redact_part L) (split_on CHR ''&'' raw)
      in (join_with CHR ''&'' (map fst parts), list_ex snd parts))"

text \<open>
  The expression \<open>unparsedUserinfo\<close>: a scheme, \<open>://\<close>, and the text up to the last \<open>@\<close> before
  a slash, a question mark or a hash. The result is the scheme part and what follows the \<open>@\<close>.
\<close>

definition scheme_char :: "char \<Rightarrow> bool" where
  "scheme_char c = (is_alnum c \<or> c \<in> set ''+.-'')"

definition is_alpha :: "char \<Rightarrow> bool" where
  "is_alpha c = (between (CHR ''a'') (CHR ''z'') c \<or> between (CHR ''A'') (CHR ''Z'') c)"

definition unparsedUserinfo :: "string \<Rightarrow> (string \<times> string) option" where
  "unparsedUserinfo s =
     (let scheme = takeWhile scheme_char s; rest = dropWhile scheme_char s
      in if s \<noteq> [] \<and> is_alpha (hd s) \<and> HasPrefix rest ''://'' then
           (let authority = takeWhile (\<lambda>c. c \<notin> set ''/?#'') (drop 3 rest)
            in case cut_last CHR ''@'' authority of
                 None \<Rightarrow> None
               | Some (_, after) \<Rightarrow> Some (scheme @ ''://'', after @ drop (length authority) (drop 3 rest)))
         else None)"

definition redactUnparsedURL :: "net_lib \<Rightarrow> string \<Rightarrow> (string \<times> bool)" where
  "redactUnparsedURL L s =
     (if \<not> Contains s ''://'' then ('''', False)
      else
        (case (case unparsedUserinfo s of
                 Some (pre, after) \<Rightarrow> (pre @ RedactedValue @ ''@'' @ after, True)
               | None \<Rightarrow> (s, False)) of
           (out, changed) \<Rightarrow>
             (case Cut out ''?'' of
                None \<Rightarrow> (out, changed)
              | Some (base, q) \<Rightarrow>
                  (case (case Cut q ''#'' of None \<Rightarrow> (q, '''') | Some (q1, f) \<Rightarrow> (q1, ''#'' @ f)) of
                     (query, tail) \<Rightarrow>
                       (case RedactQuery L query of
                          (redacted, True) \<Rightarrow> (base @ ''?'' @ redacted @ tail, True)
                        | (_, False) \<Rightarrow> (out, changed))))))"

definition replace_slashes :: "string \<Rightarrow> string" where
  "replace_slashes out =
     (case Cut out ''//'' of
        None \<Rightarrow> out
      | Some (a, b) \<Rightarrow> a @ ''//'' @ RedactedValue @ ''@'' @ b)"

definition RedactURL :: "net_lib \<Rightarrow> string \<Rightarrow> string \<times> bool" where
  "RedactURL L s =
     (case url_Parse L s of
        Inl _ \<Rightarrow> redactUnparsedURL L s
      | Inr parsed \<Rightarrow>
          if u_Scheme parsed = '''' \<and> u_Host parsed = '''' then ('''', False)
          else
            let hadUserinfo = (u_User parsed \<noteq> None \<and> u_Host parsed \<noteq> '''');
                p1 = (if hadUserinfo then parsed\<lparr>u_User := None\<rparr> else parsed);
                rq = (if u_RawQuery p1 \<noteq> '''' then RedactQuery L (u_RawQuery p1) else (u_RawQuery p1, False));
                p2 = (if snd rq then p1\<lparr>u_RawQuery := fst rq\<rparr> else p1)
            in if \<not> (hadUserinfo \<or> snd rq) then ('''', False)
               else (if hadUserinfo then replace_slashes (url_String L p2) else url_String L p2, True))"

definition redactForError :: "net_lib \<Rightarrow> string \<Rightarrow> string" where
  "redactForError L rawURL = (case RedactURL L rawURL of (redacted, True) \<Rightarrow> redacted | (_, False) \<Rightarrow> rawURL)"

section \<open>URL paths\<close>

fun dot_segments_loop :: "string list \<Rightarrow> string list \<Rightarrow> string list" where
  "dot_segments_loop out [] = out"
| "dot_segments_loop out (segment # rest) =
     (if segment = ''.'' then dot_segments_loop (if rest = [] then out @ [''''] else out) rest
      else if segment = ''..'' then
        (let out1 = butlast out in dot_segments_loop (if rest = [] then out1 @ [''''] else out1) rest)
      else dot_segments_loop (out @ [segment]) rest)"

definition removeDotSegments :: "string \<Rightarrow> string" where
  "removeDotSegments escaped =
     (if \<not> HasPrefix escaped ''/'' then escaped
      else ''/'' @ join_with slash (dot_segments_loop [] (split_on slash (tl escaped))))"

function double_encoded :: "string \<Rightarrow> bool" where
  "double_encoded lower =
     (case Cut lower ''%25'' of
        None \<Rightarrow> False
      | Some (_, rest) \<Rightarrow>
          HasPrefix rest ''2e'' \<or> HasPrefix rest ''2f'' \<or> HasPrefix rest ''5c'' \<or> double_encoded rest)"
  by pat_completeness auto
termination by (relation "measure length") (auto dest!: Cut_length)

declare double_encoded.simps [simp del]

definition hasDoubleEncodedSeparator :: "net_lib \<Rightarrow> string \<Rightarrow> bool" where
  "hasDoubleEncodedSeparator L escaped = double_encoded (ToLower (unicode_lower L) escaped)"

definition before_semicolon :: "string \<Rightarrow> string" where
  "before_semicolon part = (case Cut part '';'' of None \<Rightarrow> part | Some (a, _) \<Rightarrow> a)"

definition ambiguous_segment :: "string \<Rightarrow> bool" where
  "ambiguous_segment segment =
     (case PathUnescape segment of
        None \<Rightarrow> True
      | Some decoded \<Rightarrow>
          list_ex (\<lambda>part. before_semicolon part = ''.'' \<or> before_semicolon part = ''..'')
            (FieldsFunc decoded (\<lambda>r. r = slash \<or> r = CHR 0x5C)))"

definition hasAmbiguousDotSegment :: "net_lib \<Rightarrow> string \<Rightarrow> bool" where
  "hasAmbiguousDotSegment L escaped =
     (hasDoubleEncodedSeparator L escaped \<or> list_ex ambiguous_segment (split_on slash escaped))"

definition normalizeURLPath :: "net_lib \<Rightarrow> URL \<Rightarrow> string + URL" where
  "normalizeURLPath L u =
     (let escaped = removeDotSegments (EscapedPath u)
      in if hasAmbiguousDotSegment L escaped then Inl ''ambiguous dot segment in URL path''
         else (case PathUnescape escaped of
                 None \<Rightarrow> Inl ''invalid URL path escape''
               | Some decoded \<Rightarrow> Inr (u\<lparr>u_Path := decoded, u_RawPath := escaped\<rparr>)))"

section \<open>The allowlist\<close>

record allowListEntry =
  a_origin :: string
  a_pathPrefix :: string

definition allowListPathMatches :: "string \<Rightarrow> string \<Rightarrow> bool" where
  "allowListPathMatches pathname pfx =
     (if pfx = '''' \<or> pfx = ''/'' then True
      else if pathname = pfx then True
      else if HasSuffix pfx ''/'' then HasPrefix pathname pfx
      else HasPrefix pathname (pfx @ ''/''))"

definition urlAllowed :: "URL \<Rightarrow> allowListEntry list \<Rightarrow> bool" where
  "urlAllowed target entries =
     (let origin = u_Scheme target @ ''://'' @ u_Host target;
          pathname = (if EscapedPath target = '''' then ''/'' else EscapedPath target)
      in list_ex (\<lambda>entry. origin = a_origin entry \<and> allowListPathMatches pathname (a_pathPrefix entry)) entries)"

definition normalize_entry :: "net_lib \<Rightarrow> string \<Rightarrow> (string \<times> string) + allowListEntry" where
  "normalize_entry L entry =
     (case url_Parse L entry of
        Inl _ \<Rightarrow> Inl (''invalid allowlist URL'', entry)
      | Inr parsed \<Rightarrow>
          if u_Scheme parsed = '''' \<or> u_Host parsed = '''' then Inl (''invalid allowlist URL'', entry)
          else if u_Scheme parsed \<noteq> ''http'' \<and> u_Scheme parsed \<noteq> ''https''
          then Inl (''allowlist URL must use http or https'', entry)
          else if u_User parsed \<noteq> None then Inl (''allowlist URL must not include userinfo'', entry)
          else (case normalizeURLPath L parsed of
                  Inl e \<Rightarrow> Inl (''allowlist URL has '' @ e, entry)
                | Inr u \<Rightarrow>
                    Inr \<lparr>a_origin = u_Scheme u @ ''://'' @ u_Host u,
                         a_pathPrefix = (if EscapedPath u = '''' then ''/'' else EscapedPath u)\<rparr>))"

fun allow_loop ::
  "net_lib \<Rightarrow> string set \<Rightarrow> allowListEntry list \<Rightarrow> (string \<times> string) list \<Rightarrow> string list \<Rightarrow>
   allowListEntry list \<times> (string \<times> string) list" where
  "allow_loop L seen out problems [] = (out, problems)"
| "allow_loop L seen out problems (entry # entries) =
     (if TrimSpace entry = '''' then allow_loop L seen out problems entries
      else (case normalize_entry L (TrimSpace entry) of
              Inl p \<Rightarrow> allow_loop L seen out (problems @ [p]) entries
            | Inr e \<Rightarrow>
                let key = a_origin e @ a_pathPrefix e
                in if key \<in> seen then allow_loop L seen out problems entries
                   else allow_loop L (insert key seen) (out @ [e]) problems entries))"

definition normalizeAllowList ::
  "net_lib \<Rightarrow> string list \<Rightarrow> allowListEntry list \<times> (string \<times> string) list" where
  "normalizeAllowList L entries = (if entries = [] then ([], []) else allow_loop L {} [] [] entries)"

section \<open>Private addresses\<close>

definition v4 :: "32 word \<Rightarrow> 32 word \<Rightarrow> 32 word \<Rightarrow> 32 word \<Rightarrow> Addr" where
  "v4 a b c d = Addr4 (push_bit 24 a OR push_bit 16 b OR push_bit 8 c OR d)"

definition nonPublicPrefixes :: "(Addr \<times> nat) list" where
  "nonPublicPrefixes =
     [(v4 0 0 0 0, 8), (v4 100 64 0 0, 10), (v4 192 0 0 0, 24), (v4 192 0 2 0, 24), (v4 198 18 0 0, 15),
      (v4 198 51 100 0, 24), (v4 203 0 113 0, 24), (v4 240 0 0 0, 4),
      (Addr6 0 '''', 96), (Addr6 (push_bit 48 0xFFFF) '''', 96), (Addr6 (push_bit 80 0x64FF9B0001) '''', 48),
      (Addr6 (push_bit 112 0x100) '''', 64), (Addr6 (push_bit 96 0x20010DB8) '''', 32),
      (Addr6 (push_bit 112 0xFEC0) '''', 10)]"

definition nat64Prefix :: "Addr \<times> nat" where "nat64Prefix = (Addr6 (push_bit 96 0x64FF9B) '''', 96)"
definition sixToFourNet :: "Addr \<times> nat" where "sixToFourNet = (Addr6 (push_bit 112 0x2002) '''', 16)"

definition special_addr :: "Addr \<Rightarrow> bool" where
  "special_addr a =
     (IsUnspecified a \<or> IsLoopback a \<or> IsPrivate a \<or> IsLinkLocalUnicast a \<or> IsMulticast a \<or>
      list_ex (\<lambda>p. prefix_Contains p a) nonPublicPrefixes)"

text \<open>
  \<open>isPrivateAddr\<close> calls itself on the IPv4 address inside a translated IPv6 address.
\<close>

function isPrivateAddr :: "Addr \<Rightarrow> bool" where
  "isPrivateAddr addr0 =
     (let addr = WithoutZone (Unmap addr0)
      in if special_addr addr then True
         else (case addr of
                 Addr4 _ \<Rightarrow> False
               | Addr6 w _ \<Rightarrow>
                   if prefix_Contains nat64Prefix addr then isPrivateAddr (Addr4 (ucast w))
                   else if prefix_Contains sixToFourNet addr then isPrivateAddr (Addr4 (ucast (drop_bit 80 w)))
                   else False))"
  by pat_completeness auto
termination
  by (relation "measure (\<lambda>a. case a of Addr4 _ \<Rightarrow> 0 | Addr6 _ _ \<Rightarrow> 1)")
    (auto simp: WithoutZone_def Unmap_def split: Addr.splits if_splits)

declare isPrivateAddr.simps [simp del]

definition isPrivateIP :: "IP \<Rightarrow> bool" where
  "isPrivateIP ip = (case AddrFromSlice ip of None \<Rightarrow> False | Some addr \<Rightarrow> isPrivateAddr addr)"

definition isPrivateHostname :: "net_lib \<Rightarrow> string \<Rightarrow> bool" where
  "isPrivateHostname L host0 =
     (let host1 = TrimSpace (ToLower (unicode_lower L) host0);
          host = TrimPrefix (TrimSuffix host1 '']'') ''[''
      in if host = ''localhost'' \<or> HasSuffix host ''.localhost'' then True
         else (case netip_ParseAddr L host of None \<Rightarrow> False | Some addr \<Rightarrow> isPrivateAddr addr))"

section \<open>Configuration\<close>

record net_config =
  c_AllowedURLPrefixes :: "string list"
  c_AllowedMethods :: "string list"
  c_MaxRedirects :: int
  c_Timeout :: int
  c_MaxResponseBytes :: int
  c_DenyPrivateRanges :: bool

record resolvedConfig =
  r_allowedURLPrefixes :: "allowListEntry list"
  r_allowedMethods :: "string set"
  r_maxRedirects :: int
  r_timeout :: int
  r_maxResponseBytes :: int
  r_denyPrivateRanges :: bool

definition normalMethod :: "net_lib \<Rightarrow> string \<Rightarrow> string" where
  "normalMethod L method = ToUpper (unicode_upper L) (TrimSpace method)"

definition resolveConfig :: "net_lib \<Rightarrow> net_config \<Rightarrow> net_error + resolvedConfig" where
  "resolveConfig L cfg =
     (case normalizeAllowList L (c_AllowedURLPrefixes cfg) of
        (entries, problems) \<Rightarrow>
          if problems \<noteq> [] then Inl (InvalidConfigError problems)
          else if entries = [] then Inl (InvalidConfigError [(''at least one allowed URL prefix is required'', '''')])
          else
            let methods = (if c_AllowedMethods cfg = [] then [''GET'', ''HEAD''] else c_AllowedMethods cfg);
                allowed = set (filter (\<lambda>m. m \<noteq> '''') (map (normalMethod L) methods))
            in if allowed = {} then Inl (InvalidConfigError [(''at least one allowed HTTP method is required'', '''')])
               else Inr \<lparr>r_allowedURLPrefixes = entries, r_allowedMethods = allowed,
                 r_maxRedirects = (if c_MaxRedirects cfg \<le> 0 then 20 else c_MaxRedirects cfg),
                 r_timeout = (if c_Timeout cfg \<le> 0 then 30000000000 else c_Timeout cfg),
                 r_maxResponseBytes = (if c_MaxResponseBytes cfg \<le> 0 then 10485760 else c_MaxResponseBytes cfg),
                 r_denyPrivateRanges = c_DenyPrivateRanges cfg\<rparr>)"

section \<open>Checking a URL\<close>

type_synonym 'w resolver = "string \<Rightarrow> 'w \<Rightarrow> (net_error + IP option list) \<times> 'w"

definition no_such_host :: "net_error \<Rightarrow> bool" where
  "no_such_host e = (case e of DNSError err _ isNotFound \<Rightarrow> isNotFound \<or> err = ''no such host'' | _ \<Rightarrow> False)"

definition checkPrivateHost ::
  "net_lib \<Rightarrow> 'w resolver \<Rightarrow> URL \<Rightarrow> 'w \<Rightarrow> net_error option \<times> 'w" where
  "checkPrivateHost L lookupIPAddrs parsed w =
     (let host = Hostname parsed
      in if isPrivateHostname L host
         then (Some (AccessDeniedError (url_String L parsed) ''private or loopback host blocked''), w)
         else if netip_ParseAddr L host \<noteq> None then (None, w)
         else (case lookupIPAddrs host w of
                 (Inl e, w1) \<Rightarrow>
                   (if no_such_host e then None
                    else Some (AccessDeniedError (url_String L parsed) ''DNS resolution failed for private range check''), w1)
               | (Inr addresses, w1) \<Rightarrow>
                   (if list_ex (\<lambda>a. case a of None \<Rightarrow> False | Some ip \<Rightarrow> isPrivateIP ip) addresses
                    then Some (AccessDeniedError (url_String L parsed) ''host resolves to private or loopback IP'')
                    else None, w1)))"

definition allowedURL ::
  "net_lib \<Rightarrow> resolvedConfig \<Rightarrow> 'w resolver \<Rightarrow> string \<Rightarrow> 'w \<Rightarrow> (net_error + URL) \<times> 'w" where
  "allowedURL L cfg lookupIPAddrs rawURL w =
     (case url_Parse L rawURL of
        Inl _ \<Rightarrow> (Inl (AccessDeniedError rawURL ''invalid URL''), w)
      | Inr parsed \<Rightarrow>
          if u_Scheme parsed \<noteq> ''http'' \<and> u_Scheme parsed \<noteq> ''https''
          then (Inl (AccessDeniedError rawURL ''only http and https are allowed''), w)
          else if u_Host parsed = '''' \<or> u_Opaque parsed \<noteq> ''''
          then (Inl (AccessDeniedError rawURL ''missing host''), w)
          else (case normalizeURLPath L parsed of
                  Inl e \<Rightarrow> (Inl (AccessDeniedError rawURL e), w)
                | Inr u \<Rightarrow>
                    if \<not> urlAllowed u (r_allowedURLPrefixes cfg)
                    then (Inl (AccessDeniedError rawURL ''URL not in allowlist''), w)
                    else if r_denyPrivateRanges cfg
                    then (case checkPrivateHost L lookupIPAddrs u w of
                            (Some e, w1) \<Rightarrow> (Inl e, w1)
                          | (None, w1) \<Rightarrow> (Inr u, w1))
                    else (Inr u, w)))"

definition checkURLAllowed ::
  "net_lib \<Rightarrow> resolvedConfig \<Rightarrow> 'w resolver \<Rightarrow> string \<Rightarrow> 'w \<Rightarrow> net_error option \<times> 'w" where
  "checkURLAllowed L cfg lookupIPAddrs rawURL w =
     (case allowedURL L cfg lookupIPAddrs rawURL w of (Inl e, w1) \<Rightarrow> (Some e, w1) | (Inr _, w1) \<Rightarrow> (None, w1))"

section \<open>Dialing\<close>

definition resolveDialIPs :: "net_lib \<Rightarrow> 'w resolver \<Rightarrow> string \<Rightarrow> 'w \<Rightarrow> (net_error + IP list) \<times> 'w" where
  "resolveDialIPs L lookupIPAddrs host w =
     (case net_ParseIP L host of
        Some ip \<Rightarrow> (Inr [ip], w)
      | None \<Rightarrow>
          (case lookupIPAddrs host w of
             (Inl e, w1) \<Rightarrow> (Inl e, w1)
           | (Inr addresses, w1) \<Rightarrow>
               let ips = List.map_filter id addresses
               in (if ips = [] then Inl (DNSError ''no such host'' host True) else Inr ips, w1)))"

fun dial_loop ::
  "net_lib \<Rightarrow> (string \<Rightarrow> string \<Rightarrow> 'w \<Rightarrow> (net_error + 'c) \<times> 'w) \<Rightarrow> string \<Rightarrow> string \<Rightarrow> string \<Rightarrow> net_error option \<Rightarrow>
   IP list \<Rightarrow> 'w \<Rightarrow> (net_error + 'c) \<times> 'w" where
  "dial_loop L dial networkName host port lastErr [] w =
     (Inl (case lastErr of Some e \<Rightarrow> e | None \<Rightarrow> DNSError ''no such host'' host True), w)"
| "dial_loop L dial networkName host port lastErr (ip # ips) w =
     (case dial networkName (JoinHostPort (ip_String L ip) port) w of
        (Inr conn, w1) \<Rightarrow> (Inr conn, w1)
      | (Inl e, w1) \<Rightarrow> dial_loop L dial networkName host port (Some e) ips w1)"

definition dialContext ::
  "net_lib \<Rightarrow> resolvedConfig \<Rightarrow> 'w resolver \<Rightarrow> (string \<Rightarrow> string \<Rightarrow> 'w \<Rightarrow> (net_error + 'c) \<times> 'w) \<Rightarrow> string \<Rightarrow> string \<Rightarrow>
   'w \<Rightarrow> (net_error + 'c) \<times> 'w" where
  "dialContext L cfg lookupIPAddrs dial networkName address w =
     (case net_SplitHostPort L address of
        Inl e \<Rightarrow> (Inl e, w)
      | Inr (host, port) \<Rightarrow>
          (case resolveDialIPs L lookupIPAddrs host w of
             (Inl e, w1) \<Rightarrow> (Inl e, w1)
           | (Inr ips, w1) \<Rightarrow>
               if r_denyPrivateRanges cfg \<and> list_ex isPrivateIP ips
               then (Inl (AccessDeniedError host ''host resolves to private or loopback IP''), w1)
               else dial_loop L dial networkName host port None ips w1))"

section \<open>Requests\<close>

record Request =
  q_Method :: string
  q_URL :: string
  q_Headers :: "(string \<times> string) list"
  q_Body :: string
  q_FollowRedirects :: bool

record http_Request =
  h_Method :: string
  h_URL :: URL
  h_Host :: string
  h_Header :: "(string \<times> string) list"
  h_Body :: string

record http_Response =
  p_StatusCode :: int
  p_Status :: string
  p_Header :: "(string \<times> string list) list"
  p_Body :: "string \<times> net_error option"
  p_ContentLength :: int

record Response =
  s_StatusCode :: int
  s_Status :: string
  s_Headers :: "(string \<times> string) list"
  s_Body :: string
  s_URL :: string

definition isRedirect :: "int \<Rightarrow> bool" where
  "isRedirect statusCode = (statusCode \<in> {301, 302, 303, 307, 308})"

definition redirectSwitchesToGet :: "int \<Rightarrow> string \<Rightarrow> bool" where
  "redirectSwitchesToGet statusCode method =
     (statusCode \<in> {301, 302, 303} \<and> method \<noteq> ''GET'' \<and> method \<noteq> ''HEAD'')"

definition urlOrigin :: "net_lib \<Rightarrow> URL \<Rightarrow> string" where
  "urlOrigin L u =
     (let scheme = ToLower (unicode_lower L) (u_Scheme u);
          port = (if Port u \<noteq> '''' then Port u
                  else if scheme = ''http'' then ''80'' else if scheme = ''https'' then ''443'' else '''')
      in scheme @ ''://'' @ JoinHostPort (ToLower (unicode_lower L) (Hostname u)) port)"

definition resolveRedirectURL :: "net_lib \<Rightarrow> string \<Rightarrow> string \<Rightarrow> net_error + string" where
  "resolveRedirectURL L currentURL location =
     (case url_Parse L currentURL of
        Inl e \<Rightarrow> Inl e
      | Inr base \<Rightarrow>
          (case url_Parse L location of
             Inl e \<Rightarrow> Inl e
           | Inr next_u \<Rightarrow> Inr (url_String L (url_ResolveReference L base next_u))))"

definition keep_header :: "net_lib \<Rightarrow> bool \<Rightarrow> bool \<Rightarrow> string \<Rightarrow> bool" where
  "keep_header L sameOrigin dropBodyHeaders name =
     (\<not> (\<not> sameOrigin \<and> (isCredentialHeader name \<or> IsSensitiveName L name)) \<and>
      \<not> (dropBodyHeaders \<and> isBodyHeader name))"

definition set_headers :: "(string \<times> string) list \<Rightarrow> (string \<times> string) list" where
  "set_headers hs = fold (\<lambda>(name, val) h. AList.update (CanonicalHeaderKey name) val h) hs []"

text \<open>
  The body arrives as the bytes up to an error or the end; \<open>io.LimitReader\<close> stops one byte
  after the limit. The limit of a resolved configuration is positive.
\<close>

definition readResponse :: "resolvedConfig \<Rightarrow> string \<Rightarrow> http_Response \<Rightarrow> net_error + Response" where
  "readResponse cfg requestURL resp =
     (let limit = r_maxResponseBytes cfg; (bytes, err) = p_Body resp;
          (body, err1) = (if 0 < limit \<and> limit + 1 \<le> int (length bytes)
                          then (take (nat (limit + 1)) bytes, None) else (bytes, err))
      in if 0 < limit \<and> limit < p_ContentLength resp then Inl (ResponseTooLargeError limit)
         else (case err1 of
                 Some e \<Rightarrow> Inl e
               | None \<Rightarrow>
                   if 0 < limit \<and> limit < int (length body) then Inl (ResponseTooLargeError limit)
                   else Inr \<lparr>s_StatusCode = p_StatusCode resp, s_Status = p_Status resp,
                     s_Headers = map (\<lambda>(n, vs). (n, concat (case vs of [] \<Rightarrow> [] | v # vs' \<Rightarrow> v # map (\<lambda>x. '', '' @ x) vs')))
                       (p_Header resp),
                     s_Body = body, s_URL = requestURL\<rparr>))"

definition header_Get :: "http_Response \<Rightarrow> string \<Rightarrow> string" where
  "header_Get resp name = (case map_of (p_Header resp) name of Some (v # _) \<Rightarrow> v | _ \<Rightarrow> '''')"

record loop_state =
  l_method :: string
  l_currentURL :: string
  l_redirects :: int
  l_body :: string
  l_dropBodyHeaders :: bool
  l_originalOrigin :: string

type_synonym 'w doer = "http_Request \<Rightarrow> 'w \<Rightarrow> (net_error + http_Response) \<times> 'w"

definition make_request ::
  "net_lib \<Rightarrow> Request \<Rightarrow> loop_state \<Rightarrow> string \<Rightarrow> URL \<Rightarrow> net_error + http_Request" where
  "make_request L req s origin target =
     (case http_NewRequest L (l_method s) (url_String L target) of
        Inl e \<Rightarrow> Inl e
      | Inr host \<Rightarrow>
          Inr \<lparr>h_Method = l_method s, h_URL = target, h_Host = host,
            h_Header = set_headers (filter (\<lambda>(name, _).
              keep_header L (urlOrigin L target = origin) (l_dropBodyHeaders s) name) (q_Headers req)),
            h_Body = l_body s\<rparr>)"

text \<open>One redirect: the next state of the loop, or the error.\<close>

definition follow_redirect ::
  "net_lib \<Rightarrow> resolvedConfig \<Rightarrow> 'w resolver \<Rightarrow> loop_state \<Rightarrow> string \<Rightarrow> string \<Rightarrow> int \<Rightarrow> string \<Rightarrow> 'w \<Rightarrow>
   (net_error + loop_state) \<times> 'w" where
  "follow_redirect L cfg lookupIPAddrs s origin currentURL status location w =
     (case resolveRedirectURL L currentURL location of
        Inl e \<Rightarrow> (Inl e, w)
      | Inr nextURL \<Rightarrow>
          (case checkURLAllowed L cfg lookupIPAddrs nextURL w of
             (Some _, w1) \<Rightarrow> (Inl (RedirectNotAllowedError nextURL), w1)
           | (None, w1) \<Rightarrow>
               if r_maxRedirects cfg < l_redirects s + 1 then (Inl (TooManyRedirectsError (r_maxRedirects cfg)), w1)
               else
                 let s1 = s\<lparr>l_redirects := l_redirects s + 1, l_originalOrigin := origin, l_currentURL := nextURL\<rparr>
                 in if redirectSwitchesToGet status (l_method s) then
                      (if ''GET'' \<notin> r_allowedMethods cfg then (Inl (MethodNotAllowedError ''GET''), w1)
                       else (Inr (s1\<lparr>l_method := ''GET'', l_body := '''', l_dropBodyHeaders := True\<rparr>), w1))
                    else (Inr s1, w1)))"

lemma follow_redirect_counts:
  "follow_redirect L cfg lookupIPAddrs s origin currentURL status location w = (Inr s1, w1) \<Longrightarrow>
     l_redirects s1 = l_redirects s + 1 \<and> l_redirects s1 \<le> r_maxRedirects cfg"
  by (auto simp: follow_redirect_def Let_def split: sum.splits prod.splits option.splits if_splits)

function do_loop ::
  "net_lib \<Rightarrow> resolvedConfig \<Rightarrow> 'w resolver \<Rightarrow> 'w doer \<Rightarrow> Request \<Rightarrow> loop_state \<Rightarrow> 'w \<Rightarrow>
   http_Request list \<times> (net_error + Response) \<times> 'w" where
  "do_loop L cfg lookupIPAddrs doer req s w =
     (case allowedURL L cfg lookupIPAddrs (l_currentURL s) w of
        (Inl e, w1) \<Rightarrow> ([], Inl e, w1)
      | (Inr target, w1) \<Rightarrow>
          let currentURL = url_String L target;
              origin = (if l_redirects s = 0 then urlOrigin L target else l_originalOrigin s)
          in (case make_request L req s origin target of
                Inl e \<Rightarrow> ([], Inl e, w1)
              | Inr httpReq \<Rightarrow>
                  (case doer httpReq w1 of
                     (Inl e, w2) \<Rightarrow> ([httpReq], Inl e, w2)
                   | (Inr resp, w2) \<Rightarrow>
                       if isRedirect (p_StatusCode resp) \<and> q_FollowRedirects req \<and>
                          TrimSpace (header_Get resp ''Location'') \<noteq> ''''
                       then (case follow_redirect L cfg lookupIPAddrs s origin currentURL (p_StatusCode resp)
                                    (TrimSpace (header_Get resp ''Location'')) w2 of
                               (Inl e, w3) \<Rightarrow> ([httpReq], Inl e, w3)
                             | (Inr s1, w3) \<Rightarrow>
                                 (case do_loop L cfg lookupIPAddrs doer req s1 w3 of
                                    (sent, r) \<Rightarrow> (httpReq # sent, r)))
                       else ([httpReq], readResponse cfg currentURL resp, w2))))"
  by pat_completeness auto
termination
  by (relation "measure (\<lambda>(L, cfg, lookupIPAddrs, doer, req, s, w). nat (r_maxRedirects cfg - l_redirects s))")
    (auto dest!: follow_redirect_counts [OF sym])

declare do_loop.simps [simp del]

definition Do ::
  "net_lib \<Rightarrow> resolvedConfig \<Rightarrow> 'w resolver \<Rightarrow> 'w doer \<Rightarrow> Request \<Rightarrow> 'w \<Rightarrow>
   http_Request list \<times> (net_error + Response) \<times> 'w" where
  "Do L cfg lookupIPAddrs doer req w =
     (let method0 = normalMethod L (q_Method req); method = (if method0 = '''' then ''GET'' else method0)
      in if method \<notin> r_allowedMethods cfg then ([], Inl (MethodNotAllowedError method), w)
         else
           let currentURL = TrimSpace (q_URL req)
           in if currentURL = '''' then ([], Inl (AccessDeniedError currentURL ''missing URL''), w)
              else do_loop L cfg lookupIPAddrs doer req
                \<lparr>l_method = method, l_currentURL = currentURL, l_redirects = 0, l_body = q_Body req,
                 l_dropBodyHeaders = False, l_originalOrigin = ''''\<rparr> w)"

end
