(* ===== verification/Network_Props.thy ===== *)
theory Network_Props
  imports Network
begin

text \<open>
  The properties of the HTTP client: what it sends is on the allowlist, under the prefix and
  free of dot segments however a server decodes it; secrets stay with the origin they were
  given for; private addresses are recognised in every form and never dialed; responses are
  bounded; redacted queries hold no secret values.
\<close>

section \<open>Dot segments\<close>

abbreviation dots :: "string set" where "dots \<equiv> {''.'', ''..''}"

lemma dot_loop_no_dots:
  "set out \<inter> dots = {} \<Longrightarrow> set (dot_segments_loop out segs) \<inter> dots = {}"
proof (induction out segs rule: dot_segments_loop.induct)
  case (2 out segment rest)
  have "set (butlast out) \<inter> dots = {}" using "2.prems" in_set_butlastD by fastforce
  with 2 show ?case by (auto simp: Let_def)
qed simp

lemma dot_loop_id: "set segs \<inter> dots = {} \<Longrightarrow> dot_segments_loop out segs = out @ segs"
  by (induction segs arbitrary: out) auto

lemma dot_loop_elems: "set (dot_segments_loop out segs) \<subseteq> insert '''' (set out \<union> set segs)"
proof (induction out segs rule: dot_segments_loop.induct)
  case (2 out segment rest)
  have "set (butlast out) \<subseteq> set out" by (auto dest: in_set_butlastD)
  with 2 show ?case
    by (cases "segment = ''.''"; cases "segment = ''..''"; cases "rest = []") (simp_all add: Let_def, blast+)
qed auto

lemma dot_loop_nonempty: "segs \<noteq> [] \<or> out \<noteq> [] \<and> segs = [] \<Longrightarrow> dot_segments_loop out segs \<noteq> []"
proof (induction segs arbitrary: out)
  case (Cons s segs)
  show ?case
  proof (cases "segs = []")
    case False
    then show ?thesis using Cons.IH by (simp add: Let_def)
  qed (simp add: Let_def)
qed simp

lemma removeDotSegments_split:
  assumes "HasPrefix s ''/''"
  shows "split_on slash (tl (removeDotSegments s)) = dot_segments_loop [] (split_on slash (tl s))"
proof -
  let ?out = "dot_segments_loop [] (split_on slash (tl s))"
  have "slash \<notin> set x" if "x \<in> set ?out" for x
    using that dot_loop_elems [of "[]" "split_on slash (tl s)"] split_on_elems [of x slash "tl s"] by auto
  moreover have "?out \<noteq> []" by (rule dot_loop_nonempty) simp
  ultimately have "split_on slash (join_with slash ?out) = ?out" by (intro split_on_join)
  then show ?thesis using assms by (simp add: removeDotSegments_def)
qed

lemma removeDotSegments_no_dots:
  assumes "HasPrefix s ''/''"
  shows "set (split_on slash (removeDotSegments s)) \<inter> dots = {}"
proof -
  have "removeDotSegments s = slash # tl (removeDotSegments s)" using assms by (simp add: removeDotSegments_def)
  then have "split_on slash (removeDotSegments s) = '''' # dot_segments_loop [] (split_on slash (tl s))"
    using removeDotSegments_split [OF assms] split_on_sep_left by metis
  then show ?thesis using dot_loop_no_dots [of "[]" "split_on slash (tl s)"] by auto
qed

lemma removeDotSegments_idem: "removeDotSegments (removeDotSegments s) = removeDotSegments s"
proof (cases "HasPrefix s ''/''")
  case True
  let ?r = "removeDotSegments s"
  have p: "HasPrefix ?r ''/''" "?r = ''/'' @ tl ?r" using True by (simp_all add: removeDotSegments_def HasPrefix_def)
  have "dot_segments_loop [] (split_on slash (tl ?r)) = split_on slash (tl ?r)"
    unfolding removeDotSegments_split [OF True]
    using dot_loop_id [of _ "[]"] dot_loop_no_dots [of "[]" "split_on slash (tl s)"] by simp
  then have "removeDotSegments ?r = ''/'' @ tl ?r"
    using p(1) by (simp add: removeDotSegments_def [of ?r])
  with p(2) show ?thesis by simp
qed (simp add: removeDotSegments_def)

section \<open>Escaped paths\<close>

lemma set_join_with: "set (join_with c xs) \<subseteq> insert c (\<Union>(set ` set xs))"
  by (induction c xs rule: join_with.induct) auto

lemma set_join_with_elem: "x \<in> set xs \<Longrightarrow> set x \<subseteq> set (join_with c xs)"
  by (induction c xs rule: join_with.induct) auto

lemma set_removeDotSegments: "set (removeDotSegments s) \<subseteq> insert slash (set s)"
proof (cases "HasPrefix s ''/''")
  case True
  have "set x \<subseteq> set s" if x: "x \<in> set (dot_segments_loop [] (split_on slash (tl s)))" for x
  proof -
    have "x = '''' \<or> x \<in> set (split_on slash (tl s))" using x dot_loop_elems [of "[]" "split_on slash (tl s)"] by auto
    moreover have "set x \<subseteq> set (tl s)" if "x \<in> set (split_on slash (tl s))"
      using set_join_with_elem [OF that, of slash] by simp
    moreover have "set (tl s) \<subseteq> set s" by (cases s) auto
    ultimately show ?thesis by auto
  qed
  with True show ?thesis
    using set_join_with [of slash "dot_segments_loop [] (split_on slash (tl s))"] by (auto simp: removeDotSegments_def)
qed (auto simp: removeDotSegments_def)

lemma validEncoded_iff: "validEncoded_path s \<longleftrightarrow> (\<forall>c \<in> set s. validEncoded_path [c])"
  by (simp add: validEncoded_path_def list_all_iff)

lemma validEncoded_slash: "validEncoded_path ''/''"
  by code_simp

lemma validEncoded_subset: "validEncoded_path s \<Longrightarrow> set t \<subseteq> insert slash (set s) \<Longrightarrow> validEncoded_path t"
  using validEncoded_slash validEncoded_iff [of s] validEncoded_iff [of t] by blast

lemma hex_digit_alnum: "n < 16 \<Longrightarrow> is_alnum (hex_digit n)"
proof -
  have "list_all (\<lambda>n. is_alnum (hex_digit n)) [0..<16]" by code_simp
  then show "n < 16 \<Longrightarrow> is_alnum (hex_digit n)" by (simp add: list_all_iff)
qed

lemma validEncoded_alnum: "is_alnum c \<or> \<not> shouldEscape_path c \<Longrightarrow> validEncoded_path [c]"
  by (auto simp: validEncoded_path_def shouldEscape_path_def)

lemma validEncoded_escape: "validEncoded_path (escape_path s)"
proof -
  have h: "validEncoded_path [hex_digit (of_char c div 16)]" "validEncoded_path [hex_digit (of_char c mod 16)]" for c :: char
    by (intro validEncoded_alnum disjI1 hex_digit_alnum; simp add: less_mult_imp_div_less)+
  have pc: "validEncoded_path ''%''" by code_simp
  show ?thesis
    by (subst validEncoded_iff) (auto simp: escape_path_def h pc intro: validEncoded_alnum split: if_splits)
qed

lemma validEncoded_EscapedPath: "validEncoded_path (EscapedPath u)"
proof -
  have "validEncoded_path ''*''" by code_simp
  then show ?thesis using validEncoded_escape by (simp add: EscapedPath_def)
qed

lemma normalizeURLPath_result:
  assumes "normalizeURLPath L u = Inr u'"
  shows "EscapedPath u' = removeDotSegments (EscapedPath u) \<and> PathUnescape (EscapedPath u') = Some (u_Path u') \<and>
     \<not> hasAmbiguousDotSegment L (EscapedPath u') \<and>
     u_Scheme u' = u_Scheme u \<and> u_Host u' = u_Host u \<and> u_User u' = u_User u"
proof -
  let ?e = "removeDotSegments (EscapedPath u)"
  from assms have u: "PathUnescape ?e = Some (u_Path u')" "u_RawPath u' = ?e" "\<not> hasAmbiguousDotSegment L ?e"
    "u_Scheme u' = u_Scheme u" "u_Host u' = u_Host u" "u_User u' = u_User u"
    by (auto simp: normalizeURLPath_def Let_def split: if_splits option.splits)
  have v: "validEncoded_path ?e"
    by (rule validEncoded_subset [OF validEncoded_EscapedPath set_removeDotSegments])
  have "EscapedPath u' = ?e"
  proof (cases "?e = ''''")
    case True
    with u show ?thesis by (simp add: EscapedPath_def escape_path_def)
  next
    case False
    with u v show ?thesis by (simp add: EscapedPath_def)
  qed
  with u show ?thesis by simp
qed

section \<open>What is sent\<close>

definition url_ok :: "net_lib \<Rightarrow> resolvedConfig \<Rightarrow> URL \<Rightarrow> bool" where
  "url_ok L cfg u \<longleftrightarrow> u_Scheme u \<in> {''http'', ''https''} \<and> u_Host u \<noteq> '''' \<and>
     urlAllowed u (r_allowedURLPrefixes cfg) \<and> removeDotSegments (EscapedPath u) = EscapedPath u \<and>
     \<not> hasAmbiguousDotSegment L (EscapedPath u) \<and> PathUnescape (EscapedPath u) = Some (u_Path u) \<and>
     (r_denyPrivateRanges cfg \<longrightarrow> \<not> isPrivateHostname L (Hostname u))"

lemma allowedURL_ok:
  assumes "allowedURL L cfg look rawURL w = (Inr u, w1)"
  shows "url_ok L cfg u"
proof -
  from assms obtain p where p: "normalizeURLPath L p = Inr u" "u_Scheme p = ''http'' \<or> u_Scheme p = ''https''"
    "u_Host p \<noteq> ''''" "urlAllowed u (r_allowedURLPrefixes cfg)"
    by (auto simp: allowedURL_def split: sum.splits if_splits prod.splits option.splits)
  have "\<not> isPrivateHostname L (Hostname u)" if "r_denyPrivateRanges cfg"
    using assms that by (auto simp: allowedURL_def checkPrivateHost_def Let_def split: sum.splits if_splits prod.splits)
  with p normalizeURLPath_result [OF p(1)] removeDotSegments_idem show ?thesis by (auto simp: url_ok_def)
qed

lemma make_request_fields:
  "make_request L req s origin target = Inr h \<Longrightarrow>
     h_Method h = l_method s \<and> h_URL h = target \<and> h_Body h = l_body s \<and>
     h_Header h = set_headers (filter (\<lambda>(name, _). keep_header L (urlOrigin L target = origin) (l_dropBodyHeaders s) name) (q_Headers req))"
  by (auto simp: make_request_def split: sum.splits)

text \<open>
  The loop as a relation: which requests a state of the loop can send, whatever the server,
  the resolver and the libraries answer. The properties go by rule induction over it.
\<close>

abbreviation first_origin :: "net_lib \<Rightarrow> loop_state \<Rightarrow> URL \<Rightarrow> string" where
  "first_origin L s target \<equiv> (if l_redirects s = 0 then urlOrigin L target else l_originalOrigin s)"

definition redirected :: "resolvedConfig \<Rightarrow> loop_state \<Rightarrow> string \<Rightarrow> loop_state \<Rightarrow> bool" where
  "redirected cfg s origin s1 \<longleftrightarrow>
     l_originalOrigin s1 = origin \<and> l_redirects s1 = l_redirects s + 1 \<and> l_redirects s1 \<le> r_maxRedirects cfg \<and>
     (l_method s1 = l_method s \<and> l_body s1 = l_body s \<and> l_dropBodyHeaders s1 = l_dropBodyHeaders s \<or>
      l_method s1 = ''GET'' \<and> l_body s1 = '''' \<and> l_dropBodyHeaders s1 \<and> ''GET'' \<in> r_allowedMethods cfg)"

inductive sends :: "net_lib \<Rightarrow> resolvedConfig \<Rightarrow> Request \<Rightarrow> loop_state \<Rightarrow> http_Request list \<Rightarrow> bool"
  for L cfg req where
  none: "sends L cfg req s []"
| last: "url_ok L cfg target \<Longrightarrow> make_request L req s (first_origin L s target) target = Inr h \<Longrightarrow>
    sends L cfg req s [h]"
| more: "url_ok L cfg target \<Longrightarrow> make_request L req s (first_origin L s target) target = Inr h \<Longrightarrow>
    redirected cfg s (first_origin L s target) s1 \<Longrightarrow> sends L cfg req s1 sent \<Longrightarrow> sends L cfg req s (h # sent)"

lemma follow_redirect_redirected:
  "follow_redirect L cfg look s origin currentURL status location w = (Inr s1, w1) \<Longrightarrow> redirected cfg s origin s1"
  by (auto simp: follow_redirect_def redirected_def Let_def split: sum.splits prod.splits option.splits if_splits)

lemma readResponse_bounded:
  "readResponse cfg u resp = Inr r \<Longrightarrow> 0 < r_maxResponseBytes cfg \<Longrightarrow> int (length (s_Body r)) \<le> r_maxResponseBytes cfg"
  by (auto simp: readResponse_def Let_def split: prod.splits if_splits option.splits)

lemma do_loop_sends:
  "do_loop L cfg look doer req s w = (sent, r, w') \<Longrightarrow>
     sends L cfg req s sent \<and>
     (\<forall>resp. r = Inr resp \<longrightarrow> 0 < r_maxResponseBytes cfg \<longrightarrow> int (length (s_Body resp)) \<le> r_maxResponseBytes cfg)"
proof (induction L cfg look doer req s w arbitrary: sent r w' rule: do_loop.induct)
  case (1 L cfg look doer req s w)
  note ds = do_loop.simps [of L cfg look doer req s w]
  obtain a w1 where a: "allowedURL L cfg look (l_currentURL s) w = (a, w1)" by (rule prod.exhaust)
  show ?case
  proof (cases a)
    case (Inl e)
    with "1.prems" a show ?thesis by (auto simp: ds intro: sends.none)
  next
    case (Inr target)
    with a have ok: "url_ok L cfg target" by (auto intro: allowedURL_ok)
    let ?o = "first_origin L s target"
    show ?thesis
    proof (cases "make_request L req s ?o target")
      case (Inl e)
      with "1.prems" a Inr show ?thesis by (auto simp: ds Let_def intro: sends.none)
    next
      case h: (Inr h)
      note one = sends.last [OF ok h]
      obtain d w2 where d: "doer h w1 = (d, w2)" by (rule prod.exhaust)
      show ?thesis
      proof (cases d)
        case (Inl e)
        with "1.prems" a Inr h d one show ?thesis by (auto simp: ds Let_def)
      next
        case resp: (Inr resp)
        let ?loc = "TrimSpace (header_Get resp ''Location'')"
        show ?thesis
        proof (cases "isRedirect (p_StatusCode resp) \<and> q_FollowRedirects req \<and> ?loc \<noteq> ''''")
          case False
          with "1.prems" a Inr h d resp one readResponse_bounded show ?thesis by (auto simp: ds Let_def)
        next
          case True
          obtain f w3 where f: "follow_redirect L cfg look s ?o (url_String L target) (p_StatusCode resp) ?loc w2 = (f, w3)"
            by (rule prod.exhaust)
          show ?thesis
          proof (cases f)
            case (Inl e)
            with "1.prems" a Inr h d resp True f one show ?thesis by (auto simp: ds Let_def)
          next
            case s1: (Inr s1)
            obtain sent1 r1 where rec: "do_loop L cfg look doer req s1 w3 = (sent1, r1)" by (rule prod.exhaust)
            from "1.prems" a Inr h d resp True f s1 rec have res: "sent = h # sent1" "r1 = (r, w')"
              by (auto simp: ds Let_def)
            from "1.IH" [OF a [symmetric] Inr refl refl h d [symmetric] resp True f [symmetric] s1] rec res
            show ?thesis using sends.more [OF ok h follow_redirect_redirected] f s1 by auto
          qed
        qed
      qed
    qed
  qed
qed

lemma Do_sends:
  assumes "Do L cfg look doer req w = (sent, r, w')"
  shows "sent = [] \<or> (\<exists>s. sends L cfg req s sent \<and> l_redirects s = 0 \<and> l_method s \<in> r_allowedMethods cfg \<and>
     l_body s = q_Body req \<and> \<not> l_dropBodyHeaders s \<and>
     l_method s = (if normalMethod L (q_Method req) = '''' then ''GET'' else normalMethod L (q_Method req)))"
proof (cases "sent = []")
  case False
  let ?m = "if normalMethod L (q_Method req) = '''' then ''GET'' else normalMethod L (q_Method req)"
  let ?s = "\<lparr>l_method = ?m, l_currentURL = TrimSpace (q_URL req), l_redirects = 0, l_body = q_Body req,
     l_dropBodyHeaders = False, l_originalOrigin = ''''\<rparr>"
  from assms False have m: "?m \<in> r_allowedMethods cfg" and run: "do_loop L cfg look doer req ?s w = (sent, r, w')"
    by (auto simp: Do_def Let_def split: if_splits)
  from do_loop_sends [OF run] m have "sends L cfg req ?s sent \<and> l_redirects ?s = 0 \<and> l_method ?s \<in> r_allowedMethods cfg \<and>
     l_body ?s = q_Body req \<and> \<not> l_dropBodyHeaders ?s \<and> l_method ?s = ?m" by simp
  then show ?thesis by blast
qed simp

lemma sends_ok:
  "sends L cfg req s sent \<Longrightarrow> l_method s \<in> r_allowedMethods cfg \<Longrightarrow> h \<in> set sent \<Longrightarrow>
     url_ok L cfg (h_URL h) \<and> h_Method h \<in> r_allowedMethods cfg"
proof (induction rule: sends.induct)
  case (more target s h1 s1 sent)
  then show ?case by (auto simp: redirected_def dest!: make_request_fields)
qed (auto dest!: make_request_fields)

lemma sends_count:
  "sends L cfg req s sent \<Longrightarrow> l_redirects s \<le> r_maxRedirects cfg \<Longrightarrow>
     int (length sent) \<le> r_maxRedirects cfg - l_redirects s + 1"
  by (induction rule: sends.induct) (auto simp: redirected_def)

lemma Do_ok:
  assumes "Do L cfg look doer req w = (sent, r, w')" "h \<in> set sent"
  shows "url_ok L cfg (h_URL h) \<and> h_Method h \<in> r_allowedMethods cfg"
  using Do_sends [OF assms(1)] sends_ok assms(2) by fastforce

text \<open>
  (C38) The client stops: whatever the servers answer, it sends at most one request for each redirect
  that the configuration permits and one more, even if every answer is another redirect.
\<close>

theorem net_redirects_end:
  assumes "Do L cfg look doer req w = (sent, r, w')" "0 \<le> r_maxRedirects cfg"
  shows "int (length sent) \<le> r_maxRedirects cfg + 1"
  using Do_sends [OF assms(1)] sends_count [of L cfg req _ sent] assms(2) by fastforce

text \<open>
  (C4) Everything the client sends was allowed: each request it hands to its transport, the
  ones after redirects too, uses an allowed method, has the scheme http or https, the origin of
  an allowlist entry and a path that matches the entry's prefix, and where private ranges are
  denied it does not name a private host. This holds for every server, resolver and URL parser.
\<close>

theorem net_sends_allowed:
  assumes "Do L cfg look doer req w = (sent, r, w')" "h \<in> set sent"
  shows "h_Method h \<in> r_allowedMethods cfg \<and> u_Scheme (h_URL h) \<in> {''http'', ''https''} \<and>
     (\<exists>e \<in> set (r_allowedURLPrefixes cfg). a_origin e = u_Scheme (h_URL h) @ ''://'' @ u_Host (h_URL h) \<and>
        allowListPathMatches (if EscapedPath (h_URL h) = '''' then ''/'' else EscapedPath (h_URL h)) (a_pathPrefix e)) \<and>
     (r_denyPrivateRanges cfg \<longrightarrow> \<not> isPrivateHostname L (Hostname (h_URL h)))"
  using Do_ok [OF assms] by (fastforce simp: url_ok_def urlAllowed_def list_ex_iff Let_def)

section \<open>Confinement\<close>

text \<open>How a server may read a path: decode each segment, split it again at both kinds of slash, drop parameters.\<close>

definition server_parts :: "string \<Rightarrow> string list" where
  "server_parts segment =
     (case PathUnescape segment of
        None \<Rightarrow> []
      | Some decoded \<Rightarrow> map before_semicolon (FieldsFunc decoded (\<lambda>r. r = slash \<or> r = CHR 0x5C)))"

lemma prefix_segments:
  assumes "allowListPathMatches p pfx" "pfx \<noteq> ''''" "pfx \<noteq> ''/''"
  shows "prefix (split_on slash (TrimSuffix pfx ''/'')) (split_on slash p)"
proof (cases "HasSuffix pfx ''/''")
  case True
  then obtain q where q: "pfx = q @ ''/''" by (auto simp: HasSuffix_def suffix_def)
  with assms True obtain t where "p = q @ slash # t" by (auto simp: allowListPathMatches_def HasPrefix_def prefix_def split: if_splits)
  then show ?thesis using q by (simp add: TrimSuffix_def split_on_append_sep suffix_def)
next
  case False
  then have t: "TrimSuffix pfx ''/'' = pfx" by (simp add: TrimSuffix_def HasSuffix_def)
  from assms False consider "p = pfx" | u where "p = pfx @ slash # u"
    by (auto simp: allowListPathMatches_def HasPrefix_def prefix_def split: if_splits)
  then show ?thesis unfolding t by cases (simp_all add: split_on_append_sep)
qed

text \<open>
  (C18) What the client sends stays below the allowed prefix however the server reads the path:
  the segments of the prefix are the first segments of the path, the path is not changed by
  another removal of dot segments, and no segment, percent-decoded, split at slashes and
  backslashes and cut at its parameters, has a part \<open>.\<close> or \<open>..\<close> that would climb out.
\<close>

theorem net_paths_confined:
  assumes "Do L cfg look doer req w = (sent, r, w')" "h \<in> set sent"
  shows "removeDotSegments (EscapedPath (h_URL h)) = EscapedPath (h_URL h) \<and>
     (\<forall>seg \<in> set (split_on slash (EscapedPath (h_URL h))). PathUnescape seg \<noteq> None \<and> set (server_parts seg) \<inter> dots = {}) \<and>
     (\<exists>e \<in> set (r_allowedURLPrefixes cfg). a_pathPrefix e \<in> {'''', ''/''} \<or>
        prefix (split_on slash (TrimSuffix (a_pathPrefix e) ''/''))
          (split_on slash (if EscapedPath (h_URL h) = '''' then ''/'' else EscapedPath (h_URL h))))"
proof -
  have ok: "url_ok L cfg (h_URL h)" using Do_ok [OF assms] by simp
  then have amb: "\<not> ambiguous_segment seg" if "seg \<in> set (split_on slash (EscapedPath (h_URL h)))" for seg
    using that by (auto simp: url_ok_def hasAmbiguousDotSegment_def list_ex_iff)
  have "PathUnescape seg \<noteq> None \<and> set (server_parts seg) \<inter> dots = {}"
    if "seg \<in> set (split_on slash (EscapedPath (h_URL h)))" for seg
    using amb [OF that] by (auto simp: ambiguous_segment_def server_parts_def list_ex_iff split: option.splits)
  with ok prefix_segments show ?thesis by (fastforce simp: url_ok_def urlAllowed_def list_ex_iff Let_def)
qed

section \<open>Secrets and redirects\<close>

text \<open>Headers that were given by the caller and hold no credentials.\<close>

definition public_headers :: "net_lib \<Rightarrow> Request \<Rightarrow> (string \<times> string) list \<Rightarrow> bool" where
  "public_headers L req hs \<longleftrightarrow>
     (\<exists>given. hs = set_headers given \<and> set given \<subseteq> set (q_Headers req) \<and>
        (\<forall>(name, val) \<in> set given. \<not> isCredentialHeader name \<and> \<not> IsSensitiveName L name))"

lemma other_origin_headers:
  assumes "make_request L req s origin target = Inr h" "urlOrigin L (h_URL h) \<noteq> origin"
  shows "public_headers L req (h_Header h)"
  using make_request_fields [OF assms(1)] assms(2)
  by (auto simp: public_headers_def keep_header_def intro!: exI [of _ "filter _ _"])

lemma sends_origin:
  "sends L cfg req s sent \<Longrightarrow> h \<in> set sent \<Longrightarrow> 0 \<le> l_redirects s \<Longrightarrow>
     urlOrigin L (h_URL h) \<noteq> (if l_redirects s = 0 then urlOrigin L (h_URL (hd sent)) else l_originalOrigin s) \<Longrightarrow>
     public_headers L req (h_Header h)"
proof (induction rule: sends.induct)
  case (last target s h1)
  then have "h = h1" by simp
  with last other_origin_headers [OF last(2)] make_request_fields [OF last(2)] show ?case by (auto split: if_splits)
next
  case (more target s h1 s1 sent)
  have t: "h_URL h1 = target" using make_request_fields [OF more(2)] by simp
  show ?case
  proof (cases "h = h1")
    case True
    with more other_origin_headers [OF more(2)] t show ?thesis by (auto split: if_splits)
  next
    case False
    with more t show ?thesis by (auto simp: redirected_def split: if_splits)
  qed
qed simp

text \<open>
  (C19) Credentials stay with the origin they were given for: a request that a redirect sends
  to another scheme, host or port than the first one carries only headers of the caller that
  are neither credential headers nor have a name that looks secret.
\<close>

theorem net_credentials_stay:
  assumes "Do L cfg look doer req w = (sent, r, w')" "h \<in> set sent"
    "urlOrigin L (h_URL h) \<noteq> urlOrigin L (h_URL (hd sent))"
  shows "\<exists>given. h_Header h = set_headers given \<and> set given \<subseteq> set (q_Headers req) \<and>
     (\<forall>(name, val) \<in> set given. \<not> isCredentialHeader name \<and> \<not> IsSensitiveName L name)"
  using Do_sends [OF assms(1)] sends_origin [of L cfg req _ sent h] assms(2,3)
  by (fastforce simp: public_headers_def)

definition body_dropped :: "Request \<Rightarrow> http_Request \<Rightarrow> bool" where
  "body_dropped req h \<longleftrightarrow> h_Method h = ''GET'' \<and> h_Body h = '''' \<and>
     (\<exists>given. h_Header h = set_headers given \<and> set given \<subseteq> set (q_Headers req) \<and> (\<forall>(name, val) \<in> set given. \<not> isBodyHeader name))"

lemma dropped_headers:
  assumes "make_request L req s origin target = Inr h" "l_dropBodyHeaders s" "l_method s = ''GET''" "l_body s = ''''"
  shows "body_dropped req h"
  using make_request_fields [OF assms(1)] assms(2-4)
  by (auto simp: body_dropped_def keep_header_def intro!: exI [of _ "filter _ _"])

lemma sends_body:
  "sends L cfg req s sent \<Longrightarrow> h \<in> set sent \<Longrightarrow> (l_dropBodyHeaders s \<longrightarrow> l_method s = ''GET'' \<and> l_body s = '''') \<Longrightarrow>
     h_Method h = l_method s \<and> h_Body h = l_body s \<and> \<not> l_dropBodyHeaders s \<or> body_dropped req h"
proof (induction rule: sends.induct)
  case (last target s h1)
  then show ?case using dropped_headers [OF last(2)] make_request_fields [OF last(2)] by auto
next
  case (more target s h1 s1 sent)
  show ?case
  proof (cases "h = h1")
    case True
    with more dropped_headers [OF more(2)] make_request_fields [OF more(2)] show ?thesis by auto
  next
    case False
    with more show ?thesis by (auto simp: redirected_def)
  qed
qed simp

text \<open>
  A request is never replayed in a changed form: each request of a redirect chain is the
  caller's method with the caller's body, or, once a redirect has switched to GET, a GET with
  no body and none of the caller's headers that describe one.
\<close>

theorem net_redirect_body:
  assumes "Do L cfg look doer req w = (sent, r, w')" "h \<in> set sent"
  shows "h_Method h = (if normalMethod L (q_Method req) = '''' then ''GET'' else normalMethod L (q_Method req)) \<and>
       h_Body h = q_Body req \<or>
     h_Method h = ''GET'' \<and> h_Body h = '''' \<and>
       (\<exists>given. h_Header h = set_headers given \<and> set given \<subseteq> set (q_Headers req) \<and> (\<forall>(name, val) \<in> set given. \<not> isBodyHeader name))"
proof -
  from Do_sends [OF assms(1)] assms(2) obtain s where s: "sends L cfg req s sent" "l_body s = q_Body req" "\<not> l_dropBodyHeaders s"
    "l_method s = (if normalMethod L (q_Method req) = '''' then ''GET'' else normalMethod L (q_Method req))" by auto
  from sends_body [OF s(1) assms(2)] s(2-4) show ?thesis by (auto simp: body_dropped_def)
qed

section \<open>Responses\<close>

text \<open>
  A response that the client returns is no longer than the limit of its configuration,
  which is positive: the body is never read further than one byte past it.
\<close>

theorem net_response_bounded:
  assumes "resolveConfig L c = Inr cfg" "Do L cfg look doer req w = (sent, Inr resp, w')"
  shows "0 < r_maxResponseBytes cfg \<and> int (length (s_Body resp)) \<le> r_maxResponseBytes cfg"
proof -
  have pos: "0 < r_maxResponseBytes cfg"
    using assms(1) by (auto simp: resolveConfig_def Let_def split: prod.splits if_splits)
  from assms(2) obtain s where run: "do_loop L cfg look doer req s w = (sent, Inr resp, w')"
    by (auto simp: Do_def Let_def split: if_splits)
  from do_loop_sends [OF run] pos show ?thesis by simp
qed

section \<open>A run\<close>

definition demo_url :: "string \<Rightarrow> string \<Rightarrow> URL" where
  "demo_url host path = \<lparr>u_Scheme = ''http'', u_Opaque = '''', u_User = None, u_Host = host, u_Path = path, u_RawPath = '''',
     u_OmitHost = False, u_ForceQuery = False, u_RawQuery = '''', u_Fragment = '''', u_RawFragment = ''''\<rparr>"

definition demo_lib :: net_lib where
  "demo_lib = \<lparr>unicode_lower = id, unicode_upper = id,
     url_Parse = (\<lambda>s. case map_of [(''http://h/v1/./a'', demo_url ''h'' ''/v1/./a''), (''http://h/v1/a'', demo_url ''h'' ''/v1/a''),
        (''http://g/x'', demo_url ''g'' ''/x''), (''http://h/v1'', demo_url ''h'' ''/v1''), (''http://g'', demo_url ''g'' '''')] s of
        Some u \<Rightarrow> Inr u | None \<Rightarrow> Inl (LibError ''parse'')),
     url_String = (\<lambda>u. u_Scheme u @ ''://'' @ u_Host u @ EscapedPath u),
     url_ResolveReference = (\<lambda>_ u. u), http_NewRequest = (\<lambda>_ u. Inr u), netip_ParseAddr = (\<lambda>_. None),
     net_ParseIP = (\<lambda>_. None), net_SplitHostPort = (\<lambda>a. Inr (a, ''80'')), ip_String = (\<lambda>_. ''q'')\<rparr>"

definition demo_client :: net_config where
  "demo_client = \<lparr>c_AllowedURLPrefixes = [''http://h/v1'', ''http://g''], c_AllowedMethods = [''get'', ''POST''], c_MaxRedirects = 2,
     c_Timeout = 0, c_MaxResponseBytes = 4, c_DenyPrivateRanges = False\<rparr>"

definition demo_config :: resolvedConfig where
  "demo_config = \<lparr>r_allowedURLPrefixes = [\<lparr>a_origin = ''http://h'', a_pathPrefix = ''/v1''\<rparr>, \<lparr>a_origin = ''http://g'', a_pathPrefix = ''/''\<rparr>],
     r_allowedMethods = {''GET'', ''POST''}, r_maxRedirects = 2, r_timeout = 30000000000, r_maxResponseBytes = 4,
     r_denyPrivateRanges = False\<rparr>"

definition demo_doer :: "nat doer" where
  "demo_doer h w =
     (Inr (if u_Host (h_URL h) = ''h''
           then \<lparr>p_StatusCode = 302, p_Status = ''302'', p_Header = [(''Location'', ['' http://g/x''])], p_Body = ('''', None), p_ContentLength = 0\<rparr>
           else \<lparr>p_StatusCode = 200, p_Status = ''200'', p_Header = [], p_Body = (''ok'', None), p_ContentLength = 2\<rparr>), Suc w)"

definition demo_req :: Request where
  "demo_req = \<lparr>q_Method = ''post'', q_URL = '' http://h/v1/./a'',
     q_Headers = [(''authorization'', ''s''), (''Accept'', ''t''), (''content-type'', ''u'')], q_Body = ''b'', q_FollowRedirects = True\<rparr>"

definition demo_first :: http_Request where
  "demo_first = \<lparr>h_Method = ''POST'', h_URL = (demo_url ''h'' ''/v1/a'')\<lparr>u_RawPath := ''/v1/a''\<rparr>, h_Host = ''http://h/v1/a'',
     h_Header = [(''Authorization'', ''s''), (''Accept'', ''t''), (''Content-Type'', ''u'')], h_Body = ''b''\<rparr>"

definition demo_second :: http_Request where
  "demo_second = \<lparr>h_Method = ''GET'', h_URL = (demo_url ''g'' ''/x'')\<lparr>u_RawPath := ''/x''\<rparr>, h_Host = ''http://g/x'',
     h_Header = [(''Accept'', ''t'')], h_Body = ''''\<rparr>"

definition demo_response :: Response where
  "demo_response = \<lparr>s_StatusCode = 200, s_Status = ''200'', s_Headers = [], s_Body = ''ok'', s_URL = ''http://g/x''\<rparr>"

lemma demo_resolves: "resolveConfig demo_lib demo_client = Inr demo_config"
  by code_simp

lemma net_demo_run:
  "Do demo_lib demo_config (\<lambda>_ w. (Inr [], w)) demo_doer demo_req 0 = ([demo_first, demo_second], Inr demo_response, 2)"
  by code_simp

lemma net_demo_limits: "0 \<le> r_maxRedirects demo_config" "demo_second \<in> set [demo_first, demo_second]"
  by (simp_all add: demo_config_def)

theorem net_redirects_end_witness: "int (length [demo_first, demo_second]) \<le> r_maxRedirects demo_config + 1"
  by (rule net_redirects_end [OF net_demo_run net_demo_limits(1)])

theorem net_sends_allowed_witness:
  "h_Method demo_second \<in> r_allowedMethods demo_config \<and> u_Scheme (h_URL demo_second) \<in> {''http'', ''https''}"
  using net_sends_allowed [OF net_demo_run net_demo_limits(2)] by simp

theorem net_paths_confined_witness:
  "removeDotSegments (EscapedPath (h_URL demo_first)) = EscapedPath (h_URL demo_first)"
  using net_paths_confined [OF net_demo_run, of demo_first] by simp

theorem net_credentials_stay_witness:
  "\<exists>given. h_Header demo_second = set_headers given \<and> set given \<subseteq> set (q_Headers demo_req) \<and>
     list_all (\<lambda>(name, val). \<not> isCredentialHeader name \<and> \<not> IsSensitiveName demo_lib name) given"
proof -
  have "urlOrigin demo_lib (h_URL demo_second) \<noteq> urlOrigin demo_lib (h_URL (hd [demo_first, demo_second]))" by code_simp
  from net_credentials_stay [OF net_demo_run net_demo_limits(2) this] show ?thesis by (simp add: list_all_iff)
qed

theorem net_redirect_body_witness:
  "h_Body demo_second = '''' \<and> (\<exists>given. h_Header demo_second = set_headers given \<and> set given \<subseteq> set (q_Headers demo_req) \<and>
     list_all (\<lambda>(name, val). \<not> isBodyHeader name) given)"
proof -
  have "h_Body demo_second \<noteq> q_Body demo_req" by (simp add: demo_second_def demo_req_def)
  with net_redirect_body [OF net_demo_run net_demo_limits(2)] show ?thesis by (simp add: list_all_iff)
qed

theorem net_response_bounded_witness:
  "0 < r_maxResponseBytes demo_config \<and> int (length (s_Body demo_response)) \<le> r_maxResponseBytes demo_config"
  by (rule net_response_bounded [OF demo_resolves net_demo_run])

section \<open>Redaction\<close>

lemma Cut_char: "c \<notin> set k \<Longrightarrow> Cut (k @ c # v) [c] = Some (k, v)"
  by (induction k) auto

lemma Cut_charD: "Cut s [c] = Some (k, v) \<Longrightarrow> s = k @ c # v \<and> c \<notin> set k"
proof (induction s arbitrary: k)
  case (Cons a s)
  then show ?case by (cases "a = c") (auto split: option.splits)
qed simp

text \<open>A part of a query that still gives a secret away.\<close>

definition leaks :: "net_lib \<Rightarrow> string \<Rightarrow> bool" where
  "leaks L part \<longleftrightarrow> (\<exists>key val. Cut part ''='' = Some (key, val) \<and> val \<noteq> RedactedValue \<and>
     IsSensitiveName L (case QueryUnescape key of Some k \<Rightarrow> k | None \<Rightarrow> key))"

lemma redact_part_clean: "\<not> leaks L (fst (redact_part L part))"
proof (cases "Cut part ''=''")
  case None
  then show ?thesis by (simp add: redact_part_def leaks_def)
next
  case (Some kv)
  obtain key val where kv: "kv = (key, val)" by (rule prod.exhaust)
  with Some have "CHR ''='' \<notin> set key" "part \<noteq> ''''" using Cut_charD by fastforce+
  then have "Cut (key @ ''='' @ RedactedValue) ''='' = Some (key, RedactedValue)"
    using Cut_char [of "CHR ''=''" key RedactedValue] by simp
  with Some kv show ?thesis by (auto simp: redact_part_def leaks_def Let_def)
qed

lemma redact_part_id: "\<not> leaks L part \<Longrightarrow> redact_part L part = (part, False)"
proof (cases "Cut part ''=''")
  case (Some kv)
  obtain key val where "kv = (key, val)" by (rule prod.exhaust)
  with Some show "\<not> leaks L part \<Longrightarrow> redact_part L part = (part, False)"
    by (auto simp: redact_part_def leaks_def Let_def)
qed (simp add: redact_part_def)

lemma redact_part_no_amp:
  assumes "CHR ''&'' \<notin> set part"
  shows "CHR ''&'' \<notin> set (fst (redact_part L part))"
proof (cases "Cut part ''=''")
  case (Some kv)
  obtain key val where kv: "kv = (key, val)" by (rule prod.exhaust)
  with Some assms have "CHR ''&'' \<notin> set key" using Cut_charD [of part "CHR ''=''" key val] by auto
  with Some kv assms show ?thesis by (auto simp: redact_part_def RedactedValue_def Let_def)
qed (use assms in \<open>simp add: redact_part_def\<close>)

lemma RedactQuery_parts:
  "split_on CHR ''&'' (fst (RedactQuery L raw)) = map (\<lambda>p. fst (redact_part L p)) (split_on CHR ''&'' raw)"
  using redact_part_no_amp split_on_elems [of _ "CHR ''&''" raw]
  by (auto simp: RedactQuery_def Let_def comp_def intro!: split_on_join)

text \<open>
  Redaction is complete and stable: in a redacted query no part whose decoded key looks
  secret keeps its value, the number of parts is unchanged, a query that is reported as
  unchanged is the query that was given, and redacting again changes nothing.
\<close>

theorem RedactQuery_complete:
  "(\<forall>part \<in> set (split_on CHR ''&'' (fst (RedactQuery L raw))). \<not> leaks L part) \<and>
   length (split_on CHR ''&'' (fst (RedactQuery L raw))) = length (split_on CHR ''&'' raw) \<and>
   (\<not> snd (RedactQuery L raw) \<longrightarrow> fst (RedactQuery L raw) = raw) \<and>
   RedactQuery L (fst (RedactQuery L raw)) = (fst (RedactQuery L raw), False)"
proof (intro conjI)
  let ?red = "fst (RedactQuery L raw)"
  show clean: "\<forall>part \<in> set (split_on CHR ''&'' ?red). \<not> leaks L part"
    unfolding RedactQuery_parts by (auto simp: redact_part_clean)
  show "length (split_on CHR ''&'' ?red) = length (split_on CHR ''&'' raw)" by (simp add: RedactQuery_parts)
  have same: "fst (redact_part L p) = p" if "\<not> snd (redact_part L p)" for p
    using that by (auto simp: redact_part_def Let_def split: option.splits if_splits)
  show "\<not> snd (RedactQuery L raw) \<longrightarrow> ?red = raw"
  proof
    assume "\<not> snd (RedactQuery L raw)"
    then have "map (\<lambda>p. fst (redact_part L p)) (split_on CHR ''&'' raw) = split_on CHR ''&'' raw"
      by (intro map_idI same) (auto simp: RedactQuery_def Let_def list_ex_iff)
    then show "?red = raw" by (simp add: RedactQuery_def Let_def comp_def)
  qed
  have "map (redact_part L) (split_on CHR ''&'' ?red) = map (\<lambda>p. (p, False)) (split_on CHR ''&'' ?red)"
    using clean redact_part_id by auto
  then show "RedactQuery L ?red = (?red, False)"
    unfolding RedactQuery_def [of L ?red] Let_def by (simp only:) (simp add: comp_def list_ex_iff)
qed

theorem RedactQuery_complete_witness:
  "RedactQuery demo_lib ''a=1&api%5Fkey=[REDACTED]'' = (''a=1&api%5Fkey=[REDACTED]'', False)"
proof -
  have "fst (RedactQuery demo_lib ''a=1&api%5Fkey=x'') = ''a=1&api%5Fkey=[REDACTED]''" by code_simp
  with RedactQuery_complete [of demo_lib "''a=1&api%5Fkey=x''"] show ?thesis by (simp only: simp_thms)
qed

end
