(* ===== verification/Network_Addr.thy ===== *)
theory Network_Addr
  imports Network
begin

text \<open>
  Private addresses: the addresses that \<open>isPrivateAddr\<close> rejects, as a table of IPv4 ranges, and
  the IPv6 forms that carry an IPv4 address, which are classified by it. The dialer never
  dials a private address when the configuration denies them.
\<close>

section \<open>Prefixes as ranges\<close>

lemma div_eq_range: "0 < d \<Longrightarrow> x div d = q \<longleftrightarrow> q * d \<le> x \<and> x < (q + 1) * d" for x d q :: nat
proof
  assume "0 < d" "x div d = q"
  then show "q * d \<le> x \<and> x < (q + 1) * d"
    using dividend_less_div_times [of d x] div_times_less_eq_dividend [of x d] by (simp add: algebra_simps)
next
  assume d: "0 < d" "q * d \<le> x \<and> x < (q + 1) * d"
  then show "x div d = q" by (intro div_nat_eqI) (simp_all add: algebra_simps)
qed

lemma drop_bit_range:
  fixes a c :: "'a::len word"
  shows "drop_bit n a = c \<longleftrightarrow> unat c * 2 ^ n \<le> unat a \<and> unat a < (unat c + 1) * 2 ^ n"
proof -
  have "drop_bit n a = c \<longleftrightarrow> unat a div 2 ^ n = unat c"
    by (simp only: word_unat_eq_iff unat_drop_bit_eq drop_bit_eq_div [of n "unat a"])
  then show ?thesis by (simp add: div_eq_range)
qed

lemma xor_zero_iff: "x XOR y = 0 \<longleftrightarrow> x = y" for x y :: "'a::len word"
  by (auto simp: bit_eq_iff [of "x XOR y"] bit_eq_iff [of x] bit_xor_iff)

lemma drop_bit_xor_eq: "drop_bit n (a XOR v) = 0 \<longleftrightarrow> drop_bit n a = drop_bit n v" for a v :: "'a::len word"
  by (simp only: drop_bit_xor xor_zero_iff)

definition private_ranges :: "(nat \<times> nat) list" where
  "private_ranges =
     [(0x00000000, 0x00FFFFFF), (0x0A000000, 0x0AFFFFFF), (0x64400000, 0x647FFFFF), (0x7F000000, 0x7FFFFFFF),
      (0xA9FE0000, 0xA9FEFFFF), (0xAC100000, 0xAC1FFFFF), (0xC0000000, 0xC00000FF), (0xC0000200, 0xC00002FF),
      (0xC0A80000, 0xC0A8FFFF), (0xC6120000, 0xC613FFFF), (0xC6336400, 0xC63364FF), (0xCB007100, 0xCB0071FF),
      (0xE0000000, 0xEFFFFFFF), (0xF0000000, 0xFFFFFFFF)]"

lemma v4_values:
  "v4 0 0 0 0 = Addr4 0" "v4 100 64 0 0 = Addr4 0x64400000" "v4 192 0 0 0 = Addr4 0xC0000000"
  "v4 192 0 2 0 = Addr4 0xC0000200" "v4 198 18 0 0 = Addr4 0xC6120000" "v4 198 51 100 0 = Addr4 0xC6336400"
  "v4 203 0 113 0 = Addr4 0xCB007100" "v4 240 0 0 0 = Addr4 0xF0000000"
  by code_simp+

lemma drop_bit_nats:
  assumes "lo = unat c * 2 ^ k" "hi + 1 = (unat c + 1) * 2 ^ k"
  shows "drop_bit k a = c \<longleftrightarrow> lo \<le> unat a \<and> unat a \<le> hi"
  unfolding drop_bit_range assms(1) using assms(2) by auto

lemma contains_ipv4:
  assumes "drop_bit (32 - n) v = c" "lo = unat c * 2 ^ (32 - n)" "hi + 1 = (unat c + 1) * 2 ^ (32 - n)"
  shows "prefix_Contains (Addr4 v, n) (Addr4 a) \<longleftrightarrow> lo \<le> unat a \<and> unat a \<le> hi"
proof -
  have "prefix_Contains (Addr4 v, n) (Addr4 a) \<longleftrightarrow> drop_bit (32 - n) a = c"
    by (simp only: prefix_Contains_def prod.case Addr.case drop_bit_xor_eq assms(1))
  then show ?thesis using drop_bit_nats [OF assms(2,3)] by simp
qed

lemma ipv4_prefixes:
  "prefix_Contains (Addr4 0, 8) (Addr4 a) \<longleftrightarrow> 0 \<le> unat a \<and> unat a \<le> 0x00FFFFFF"
  "prefix_Contains (Addr4 0x64400000, 10) (Addr4 a) \<longleftrightarrow> 0x64400000 \<le> unat a \<and> unat a \<le> 0x647FFFFF"
  "prefix_Contains (Addr4 0xC0000000, 24) (Addr4 a) \<longleftrightarrow> 0xC0000000 \<le> unat a \<and> unat a \<le> 0xC00000FF"
  "prefix_Contains (Addr4 0xC0000200, 24) (Addr4 a) \<longleftrightarrow> 0xC0000200 \<le> unat a \<and> unat a \<le> 0xC00002FF"
  "prefix_Contains (Addr4 0xC6120000, 15) (Addr4 a) \<longleftrightarrow> 0xC6120000 \<le> unat a \<and> unat a \<le> 0xC613FFFF"
  "prefix_Contains (Addr4 0xC6336400, 24) (Addr4 a) \<longleftrightarrow> 0xC6336400 \<le> unat a \<and> unat a \<le> 0xC63364FF"
  "prefix_Contains (Addr4 0xCB007100, 24) (Addr4 a) \<longleftrightarrow> 0xCB007100 \<le> unat a \<and> unat a \<le> 0xCB0071FF"
  "prefix_Contains (Addr4 0xF0000000, 4) (Addr4 a) \<longleftrightarrow> 0xF0000000 \<le> unat a \<and> unat a \<le> 0xFFFFFFFF"
  apply (rule contains_ipv4 [where c = "0"], code_simp, simp, simp)
  apply (rule contains_ipv4 [where c = "0x191"], code_simp, simp, simp)
  apply (rule contains_ipv4 [where c = "0xC00000"], code_simp, simp, simp)
  apply (rule contains_ipv4 [where c = "0xC00002"], code_simp, simp, simp)
  apply (rule contains_ipv4 [where c = "0x6309"], code_simp, simp, simp)
  apply (rule contains_ipv4 [where c = "0xC63364"], code_simp, simp, simp)
  apply (rule contains_ipv4 [where c = "0xCB0071"], code_simp, simp, simp)
  apply (rule contains_ipv4 [where c = "0xF"], code_simp, simp, simp)
  done

lemma ipv4_classes:
  fixes a :: "32 word"
  shows "drop_bit 24 a = 127 \<longleftrightarrow> 0x7F000000 \<le> unat a \<and> unat a \<le> 0x7FFFFFFF"
  "drop_bit 24 a = 10 \<longleftrightarrow> 0x0A000000 \<le> unat a \<and> unat a \<le> 0x0AFFFFFF"
  "drop_bit 20 a = 0xAC1 \<longleftrightarrow> 0xAC100000 \<le> unat a \<and> unat a \<le> 0xAC1FFFFF"
  "drop_bit 16 a = 0xC0A8 \<longleftrightarrow> 0xC0A80000 \<le> unat a \<and> unat a \<le> 0xC0A8FFFF"
  "drop_bit 16 a = 0xA9FE \<longleftrightarrow> 0xA9FE0000 \<le> unat a \<and> unat a \<le> 0xA9FEFFFF"
  "drop_bit 28 a = 0xE \<longleftrightarrow> 0xE0000000 \<le> unat a \<and> unat a \<le> 0xEFFFFFFF"
  by (rule drop_bit_nats, simp, simp)+

lemma contains_mixed: "prefix_Contains (Addr6 v z, n) (Addr4 a) = False" "(Addr4 a = Addr6 v z) = False"
  by (simp_all add: prefix_Contains_def)

lemma special_ipv4:
  "special_addr (Addr4 a) \<longleftrightarrow> list_ex (\<lambda>(lo, hi). lo \<le> unat a \<and> unat a \<le> hi) private_ranges"
proof -
  have "a = 0 \<Longrightarrow> 0 \<le> unat a \<and> unat a \<le> 0x00FFFFFF" by simp
  then show ?thesis
    unfolding special_addr_def IsUnspecified_def IsLoopback_def IsPrivate_def IsLinkLocalUnicast_def IsMulticast_def
      nonPublicPrefixes_def private_ranges_def v4_values list_ex_Nil_iff list_ex_Cons_iff ipv4_prefixes contains_mixed Addr.case ipv4_classes
      prod.case Addr.inject
    by argo
qed

text \<open>
  The IPv4 addresses that the client treats as private are exactly those of fourteen
  ranges: this network, the private, shared, loopback and link-local ranges, the protocol
  assignment, documentation and benchmarking ranges, multicast and the reserved top.
\<close>

theorem private_ipv4_ranges:
  "isPrivateAddr (Addr4 a) \<longleftrightarrow> list_ex (\<lambda>(lo, hi). lo \<le> unat a \<and> unat a \<le> hi) private_ranges"
  by (simp add: isPrivateAddr.simps Unmap_def WithoutZone_def special_ipv4)

section \<open>Embedded IPv4 addresses\<close>

text \<open>A test on the leading bits of an address is one on its first 96 bits.\<close>

lemma drop_bit_via: "n \<le> k \<Longrightarrow> drop_bit k w = drop_bit (k - n) (drop_bit n w)" for w :: "'a::len word"
  by (simp add: drop_bit_drop_bit)

lemma special_ipv6:
  "special_addr (Addr6 w '''') \<longleftrightarrow>
     w = 1 \<or> drop_bit 121 w = 0x7E \<or> drop_bit 118 w = 0x3FA \<or> drop_bit 120 w = 0xFF \<or>
     drop_bit 32 w = 0 \<or> drop_bit 32 w = 0xFFFF0000 \<or> drop_bit 80 w = 0x64FF9B0001 \<or> drop_bit 64 w = 0x100000000000000 \<or>
     drop_bit 96 w = 0x20010DB8 \<or> drop_bit 118 w = 0x3FB"
proof -
  have v: "drop_bit 32 (push_bit 48 0xFFFF :: 128 word) = 0xFFFF0000" "drop_bit 80 (push_bit 80 0x64FF9B0001 :: 128 word) = 0x64FF9B0001"
    "drop_bit 64 (push_bit 112 0x100 :: 128 word) = 0x100000000000000" "drop_bit 96 (push_bit 96 0x20010DB8 :: 128 word) = 0x20010DB8"
    "drop_bit 118 (push_bit 112 0xFEC0 :: 128 word) = 0x3FB" by code_simp+
  have p: "prefix_Contains (Addr6 x '''', n) (Addr6 w '''') \<longleftrightarrow> drop_bit (128 - n) w = drop_bit (128 - n) x" for x n
    by (simp only: prefix_Contains_def prod.case Addr.case drop_bit_xor_eq simp_thms)
  have q: "prefix_Contains (Addr4 x, n) (Addr6 w '''') = False" for x n by (simp add: prefix_Contains_def)
  have k: "128 - 96 = (32::nat)" "128 - 48 = (80::nat)" "128 - 64 = (64::nat)" "128 - 32 = (96::nat)" "128 - 10 = (118::nat)" by simp_all
  have z: "w = 0 \<Longrightarrow> drop_bit 32 w = 0" "drop_bit 32 (0 :: 128 word) = 0" "(Addr6 w '''' = Addr4 0) = False" by simp_all
  show ?thesis
    unfolding special_addr_def IsUnspecified_def IsLoopback_def IsPrivate_def IsLinkLocalUnicast_def IsMulticast_def
      nonPublicPrefixes_def v4_values list_ex_Nil_iff list_ex_Cons_iff p q k v z(2,3) Addr.case Addr.inject
    using z(1) by argo
qed

lemma diff_96: "128 - 96 = (32::nat)" and diff_16: "128 - 16 = (112::nat)"
  by simp_all

lemma isPrivateAddr_ipv6:
  assumes "drop_bit 32 w \<noteq> (0xFFFF :: 128 word)"
  shows "isPrivateAddr (Addr6 w z) \<longleftrightarrow> special_addr (Addr6 w '''') \<or>
     (if drop_bit 32 w = push_bit 64 0x64FF9B then isPrivateAddr (Addr4 (ucast w))
      else drop_bit 112 w = 0x2002 \<and> isPrivateAddr (Addr4 (ucast (drop_bit 80 w))))"
proof -
  have v: "drop_bit 32 (push_bit 96 0x64FF9B :: 128 word) = push_bit 64 0x64FF9B" "drop_bit 112 (push_bit 112 0x2002 :: 128 word) = 0x2002"
    by code_simp+
  have "prefix_Contains nat64Prefix (Addr6 w '''') \<longleftrightarrow> drop_bit 32 w = push_bit 64 0x64FF9B"
    "prefix_Contains sixToFourNet (Addr6 w '''') \<longleftrightarrow> drop_bit 112 w = 0x2002"
    by (simp_all only: prefix_Contains_def nat64Prefix_def sixToFourNet_def prod.case Addr.case simp_thms
      diff_96 diff_16 drop_bit_xor_eq v)
  with assms show ?thesis
    by (subst isPrivateAddr.simps) (simp add: Unmap_def WithoutZone_def Let_def del: push_bit_numeral)
qed

lemma nat64_not_special:
  fixes w :: "128 word"
  assumes "drop_bit 32 w = push_bit 64 0x64FF9B"
  shows "\<not> special_addr (Addr6 w '''')"
proof -
  have d: "drop_bit (k + 32) w = drop_bit k (push_bit 64 0x64FF9B)" for k
    using assms drop_bit_drop_bit [of k 32 w] by simp
  have c: "drop_bit 89 (push_bit 64 0x64FF9B :: 128 word) \<noteq> 0x7E" "drop_bit 86 (push_bit 64 0x64FF9B :: 128 word) \<noteq> 0x3FA"
    "drop_bit 88 (push_bit 64 0x64FF9B :: 128 word) \<noteq> 0xFF" "(push_bit 64 0x64FF9B :: 128 word) \<noteq> 0"
    "(push_bit 64 0x64FF9B :: 128 word) \<noteq> 0xFFFF0000" "drop_bit 48 (push_bit 64 0x64FF9B :: 128 word) \<noteq> 0x64FF9B0001"
    "drop_bit 32 (push_bit 64 0x64FF9B :: 128 word) \<noteq> 0x100000000000000"
    "drop_bit 64 (push_bit 64 0x64FF9B :: 128 word) \<noteq> 0x20010DB8" "drop_bit 86 (push_bit 64 0x64FF9B :: 128 word) \<noteq> 0x3FB"
    by code_simp+
  have "w \<noteq> 1" using assms c(4) by (auto simp del: push_bit_numeral)
  then show ?thesis
    unfolding special_ipv6 using c d [of 89] d [of 86] d [of 88] d [of 48] d [of 32] d [of 64] assms by simp
qed

lemma drop_bit_differs:
  fixes w x :: "128 word"
  assumes "drop_bit 112 w = c" "k \<le> 112" "drop_bit (112 - k) x \<noteq> c"
  shows "drop_bit k w \<noteq> x"
proof
  assume "drop_bit k w = x"
  then have "drop_bit (112 - k) x = drop_bit 112 w" using assms(2) by (auto simp: drop_bit_drop_bit)
  with assms show False by simp
qed

lemma six_to_four_not_special:
  fixes w :: "128 word"
  assumes "drop_bit 112 w = 0x2002"
  shows "\<not> special_addr (Addr6 w '''') \<and> drop_bit 32 w \<noteq> push_bit 64 0x64FF9B \<and> drop_bit 32 w \<noteq> 0xFFFF"
proof -
  have up: "drop_bit (k + 112) w = drop_bit k 0x2002" for k
    using assms drop_bit_drop_bit [of k 112 w] by simp
  have c: "drop_bit 9 (0x2002 :: 128 word) \<noteq> 0x7E" "drop_bit 6 (0x2002 :: 128 word) \<noteq> 0x3FA" "drop_bit 8 (0x2002 :: 128 word) \<noteq> 0xFF"
    "drop_bit 6 (0x2002 :: 128 word) \<noteq> 0x3FB" by code_simp+
  have "drop_bit 32 w \<noteq> 0" "drop_bit 32 w \<noteq> 0xFFFF0000" "drop_bit 32 w \<noteq> push_bit 64 0x64FF9B" "drop_bit 32 w \<noteq> 0xFFFF"
    "drop_bit 80 w \<noteq> 0x64FF9B0001" "drop_bit 64 w \<noteq> 0x100000000000000" "drop_bit 96 w \<noteq> 0x20010DB8" "w \<noteq> 1"
    by (rule drop_bit_differs [OF assms], simp, code_simp | rule drop_bit_differs [OF assms, of 0, simplified], code_simp)+
  then show ?thesis unfolding special_ipv6 using c up [of 9] up [of 6] up [of 8] by simp
qed

text \<open>
  An IPv6 address that stands for an IPv4 address is private exactly if that address is:
  the mapped form, the well-known prefix of NAT64, whose last four bytes are the address, and
  6to4, where it follows the first two bytes. No zone and no other byte changes the answer.
\<close>

theorem embedded_ipv4_classified:
  "(drop_bit 32 w = 0xFFFF \<longrightarrow> isPrivateAddr (Addr6 w z) = isPrivateAddr (Addr4 (ucast w))) \<and>
   (drop_bit 32 w = push_bit 64 0x64FF9B \<longrightarrow> isPrivateAddr (Addr6 w z) = isPrivateAddr (Addr4 (ucast w))) \<and>
   (drop_bit 112 w = 0x2002 \<longrightarrow> isPrivateAddr (Addr6 w z) = isPrivateAddr (Addr4 (ucast (drop_bit 80 w))))"
proof (intro conjI impI)
  assume "drop_bit 32 w = 0xFFFF"
  then show "isPrivateAddr (Addr6 w z) = isPrivateAddr (Addr4 (ucast w))"
    by (subst (1 2) isPrivateAddr.simps) (simp add: Unmap_def WithoutZone_def)
next
  assume a: "drop_bit 32 w = push_bit 64 0x64FF9B"
  moreover have "(push_bit 64 0x64FF9B :: 128 word) \<noteq> 0xFFFF" by code_simp
  ultimately show "isPrivateAddr (Addr6 w z) = isPrivateAddr (Addr4 (ucast w))"
    using nat64_not_special [OF a] isPrivateAddr_ipv6 [of w z] by (simp del: push_bit_numeral)
next
  assume a: "drop_bit 112 w = 0x2002"
  then show "isPrivateAddr (Addr6 w z) = isPrivateAddr (Addr4 (ucast (drop_bit 80 w)))"
    using six_to_four_not_special [OF a] isPrivateAddr_ipv6 [of w z] by (simp del: push_bit_numeral)
qed

theorem embedded_ipv4_classified_witness:
  "isPrivateAddr (Addr6 0xFFFF7F000001 ''eth0'') \<and> isPrivateAddr (Addr6 (push_bit 80 0x20020A000001) '''')"
proof -
  have m: "drop_bit 32 (0xFFFF7F000001 :: 128 word) = 0xFFFF" "isPrivateAddr (Addr4 (ucast (0xFFFF7F000001 :: 128 word)))" by code_simp+
  have s: "drop_bit 112 (push_bit 80 0x20020A000001 :: 128 word) = 0x2002"
    "isPrivateAddr (Addr4 (ucast (drop_bit 80 (push_bit 80 0x20020A000001 :: 128 word))))" by code_simp+
  show ?thesis
    using embedded_ipv4_classified [of "0xFFFF7F000001" "''eth0''"] embedded_ipv4_classified [of "push_bit 80 0x20020A000001" "''''"] m s
    by (simp only: simp_thms)
qed

section \<open>Dialing\<close>

lemma dial_loop_agree:
  assumes "\<And>ip. ip \<in> set ips \<Longrightarrow> (\<And>w. dial1 n (JoinHostPort (ip_String L ip) port) w = dial2 n (JoinHostPort (ip_String L ip) port) w)"
  shows "dial_loop L dial1 n host port e ips w = dial_loop L dial2 n host port e ips w"
  using assms by (induction ips arbitrary: e w) (auto split: sum.splits prod.splits)

text \<open>
  (C25) A client that denies private ranges never dials one, whatever the resolver answers:
  the outcome of dialing does not depend on what the dialer would do at an address of a
  private range, so no connection to one is ever tried.
\<close>

theorem dial_avoids_private:
  assumes "r_denyPrivateRanges cfg"
    and "\<And>ip port w. \<not> isPrivateIP ip \<Longrightarrow>
      dial1 n (JoinHostPort (ip_String L ip) port) w = dial2 n (JoinHostPort (ip_String L ip) port) w"
  shows "dialContext L cfg look dial1 n address w = dialContext L cfg look dial2 n address w"
proof -
  have "dial_loop L dial1 n host port None ips w1 = dial_loop L dial2 n host port None ips w1"
    if "\<not> list_ex isPrivateIP ips" for host port ips w1
    using that assms(2) by (intro dial_loop_agree) (auto simp: list_ex_iff)
  with assms(1) show ?thesis by (auto simp: dialContext_def split: sum.splits prod.splits)
qed

definition dial_lib :: net_lib where
  "dial_lib = \<lparr>unicode_lower = id, unicode_upper = id, url_Parse = (\<lambda>_. Inl (LibError ''parse'')), url_String = u_Host,
     url_ResolveReference = (\<lambda>_ u. u), http_NewRequest = (\<lambda>_ u. Inr u), netip_ParseAddr = (\<lambda>_. None),
     net_ParseIP = (\<lambda>_. None), net_SplitHostPort = (\<lambda>a. Inr (a, ''80'')),
     ip_String = (\<lambda>ip. if isPrivateIP ip then ''p'' else ''q'')\<rparr>"

definition deny_config :: resolvedConfig where
  "deny_config = \<lparr>r_allowedURLPrefixes = [\<lparr>a_origin = ''http://h'', a_pathPrefix = ''/v1''\<rparr>], r_allowedMethods = {''GET'', ''POST''},
     r_maxRedirects = 2, r_timeout = 1, r_maxResponseBytes = 4, r_denyPrivateRanges = True\<rparr>"

theorem dial_avoids_private_witness:
  "dialContext dial_lib deny_config (\<lambda>_ w. (Inr [Some [10, 0, 0, 1]], w)) (\<lambda>_ _ w. (Inl (LibError ''down''), w)) ''tcp'' ''h'' () =
   dialContext dial_lib deny_config (\<lambda>_ w. (Inr [Some [10, 0, 0, 1]], w))
     (\<lambda>_ a w. (if a = ''p:80'' then Inr () else Inl (LibError ''down''), w)) ''tcp'' ''h'' ()"
proof (rule dial_avoids_private)
  show "r_denyPrivateRanges deny_config" by (simp add: deny_config_def)
qed (simp add: dial_lib_def JoinHostPort_def)

end
