(* ===== verification/Pattern.thy ===== *)
theory Pattern
  imports GoText
begin

text \<open>
  Shell patterns (\<open>shell/internal/pattern/pattern.go\<close> and \<open>extglob_matcher.go\<close>): quoting,
  the parser of extended patterns and the matcher that simulates a parsed pattern over a
  name. The parser works on the rest of the pattern where the source keeps an offset into
  it. A compiled bracket expression is a value of the type \<open>'rx\<close> of package \<open>regexp\<close>, which
  the source uses through \<open>Compile\<close> and \<open>MatchString\<close>; with \<open>strings.EqualFold\<close> (the case
  folding tables of package \<open>unicode\<close>) these are the fields of the argument \<open>text_lib\<close>.
\<close>

section \<open>Modes and errors\<close>

type_synonym Mode = "64 word"

definition Shortest :: Mode where "Shortest = 1"
definition Filenames :: Mode where "Filenames = 2"
definition EntireString :: Mode where "EntireString = 4"
definition NoGlobCase :: Mode where "NoGlobCase = 8"
definition NoGlobStar :: Mode where "NoGlobStar = 16"
definition GlobLeadingDot :: Mode where "GlobLeadingDot = 32"
definition ExtendedOperators :: Mode where "ExtendedOperators = 64"

abbreviation has :: "Mode \<Rightarrow> Mode \<Rightarrow> bool" where "has mode flag \<equiv> mode AND flag \<noteq> 0"

lemmas pattern_modes = Shortest_def Filenames_def EntireString_def NoGlobCase_def NoGlobStar_def
  GlobLeadingDot_def ExtendedOperators_def

datatype pat_error = SyntaxError string | UnterminatedExtGlob | PlainError string

record 'rx text_lib =
  rx_Compile :: "string \<Rightarrow> pat_error + 'rx"
  rx_MatchString :: "'rx \<Rightarrow> string \<Rightarrow> bool"
  EqualFold :: "string \<Rightarrow> string \<Rightarrow> bool"

section \<open>Quoting\<close>

definition meta_always :: "char \<Rightarrow> bool" where
  "meta_always c = (c \<in> {CHR ''*'', CHR ''?'', CHR ''['', CHR '']'', CHR ''-'', CHR 0x5C})"

definition meta_extended :: "char \<Rightarrow> bool" where
  "meta_extended c = (c \<in> {CHR ''@'', CHR ''!'', CHR ''+'', CHR ''('', CHR '')'', CHR ''|''})"

definition needs_quote :: "Mode \<Rightarrow> char \<Rightarrow> bool" where
  "needs_quote mode c = (meta_always c \<or> meta_extended c \<and> has mode ExtendedOperators)"

text \<open>
  \<open>HasMeta\<close> walks over the bytes and skips the byte after a backslash; \<open>QuoteMeta\<close> walks over
  the runes and writes them again, so that a byte that is no UTF-8 becomes \<open>RuneError\<close>.
\<close>

fun HasMeta :: "string \<Rightarrow> Mode \<Rightarrow> bool" where
  "HasMeta [] mode = False"
| "HasMeta (c # cs) mode =
     (if c = CHR 0x5C then (case cs of [] \<Rightarrow> False | _ # cs' \<Rightarrow> HasMeta cs' mode)
      else if c \<in> {CHR ''*'', CHR ''?'', CHR ''[''} then True
      else if c \<in> {CHR ''@'', CHR ''!'', CHR ''+''} \<and> has mode ExtendedOperators \<and> cs \<noteq> [] \<and> hd cs = CHR ''(''
      then True
      else HasMeta cs mode)"

definition rune_bytes :: "string \<Rightarrow> string" where
  "rune_bytes s =
     (if fst (DecodeRune s) = RuneError then [CHR 0xEF, CHR 0xBF, CHR 0xBD] else take (rune_size s) s)"

function quote_loop :: "Mode \<Rightarrow> string \<Rightarrow> string" where
  "quote_loop mode s =
     (if s = [] then []
      else (if rune_size s = 1 \<and> needs_quote mode (hd s) then [CHR 0x5C] else []) @ rune_bytes s @
           quote_loop mode (drop (rune_size s) s))"
  by pat_completeness auto
termination by (relation "measure (\<lambda>(mode, s). length s)") (auto simp: rune_size_pos)

declare quote_loop.simps [simp del]

definition QuoteMeta :: "string \<Rightarrow> Mode \<Rightarrow> string" where
  "QuoteMeta pat mode = (if list_ex (needs_quote mode) pat then quote_loop mode pat else pat)"

definition class_punct :: string where
  "class_punct = ''!'' @ [CHR 0x22] @ ''#$%&'' @ [CHR 0x27] @ ''()*+,-./:;<=>?@['' @ [CHR 0x5C] @ '']^_{|}~'' @ [CHR 0x60]"

definition quoteClassChar :: "string \<Rightarrow> string" where
  "quoteClassChar s = (if length s = 1 \<and> byte (hd s) < 0x80 \<and> hd s \<in> set class_punct then CHR 0x5C # s else s)"

section \<open>Bracket expressions\<close>

definition class_names :: "string list" where
  "class_names = [''alnum'', ''alpha'', ''ascii'', ''blank'', ''cntrl'', ''digit'', ''graph'',
     ''lower'', ''print'', ''punct'', ''space'', ''upper'', ''word'', ''xdigit'']"

definition charClass :: "string \<Rightarrow> pat_error + string \<times> nat" where
  "charClass s =
     (if HasPrefix s ''.'' \<or> HasPrefix s ''='' then Inl (PlainError ''collating features not available'')
      else if \<not> HasPrefix s '':'' then Inr ([], 0)
      else (case Cut (tl s) '':]'' of
              None \<Rightarrow> Inl (PlainError ''[[: was not matched with a closing :]]'')
            | Some (name, _) \<Rightarrow>
                if name \<in> set class_names then Inr (''[:'' @ name @ '':]'', length name + 3)
                else Inl (PlainError ''invalid character class'')))"

abbreviation no_closing :: pat_error where
  "no_closing \<equiv> SyntaxError ''[ was not matched with a closing ]''"

text \<open>The loop of \<open>scanCharClassToken\<close>; \<open>raw\<close> is the text scanned so far.\<close>

function scan_loop :: "string \<Rightarrow> string \<Rightarrow> pat_error + string \<times> string" where
  "scan_loop raw s =
     (case s of
        [] \<Rightarrow> Inl no_closing
      | c # cs \<Rightarrow>
          if c = CHR 0x5C then scan_loop (raw @ take 2 s) (drop 2 s)
          else if c = CHR ''['' then
            (case charClass cs of
               Inl e \<Rightarrow> Inl e
             | Inr (name, consumed) \<Rightarrow>
                 if name \<noteq> [] then scan_loop (raw @ take (1 + consumed) s) (drop (1 + consumed) s)
                 else scan_loop (raw @ [c]) cs)
          else if c = CHR '']'' then Inr (raw @ [c], cs)
          else scan_loop (raw @ [c]) cs)"
  by pat_completeness auto
termination by (relation "measure (\<lambda>(raw, s). length s)") auto

declare scan_loop.simps [simp del]

definition skip_if :: "char set \<Rightarrow> string \<times> string \<Rightarrow> string \<times> string" where
  "skip_if C = (\<lambda>(raw, s). if s \<noteq> [] \<and> hd s \<in> C then (raw @ [hd s], tl s) else (raw, s))"

definition scanCharClassToken :: "string \<Rightarrow> pat_error + string \<times> string" where
  "scanCharClassToken s =
     (if s = [] \<or> hd s \<noteq> CHR ''['' then Inl (SyntaxError ''expected ['')
      else if tl s = [] then Inl no_closing
      else (case skip_if {CHR '']''} (skip_if {CHR ''!'', CHR ''^''} ([CHR ''[''], tl s)) of
              (raw, rest) \<Rightarrow> scan_loop raw rest))"

function class_loop :: "string \<Rightarrow> string" where
  "class_loop s =
     (case s of
        [] \<Rightarrow> []
      | c # cs \<Rightarrow>
          if c = CHR 0x5C \<and> cs \<noteq> []
          then quoteClassChar (take (rune_size cs) cs) @ class_loop (drop (rune_size cs) cs)
          else c # class_loop cs)"
  by pat_completeness auto
termination by (relation "measure length") auto

declare class_loop.simps [simp del]

definition charClassRegexp :: "string \<Rightarrow> string" where
  "charClassRegexp raw =
     ''['' @ (if 1 < length raw \<and> raw ! 1 = CHR ''!'' then ''^'' @ class_loop (drop 2 raw)
            else class_loop (drop 1 raw))"

section \<open>Parsed patterns\<close>

datatype 'rx extSeq = ExtSeq (seq_id: nat) (seq_tokens: "'rx extToken list")
  and 'rx extToken =
    extLiteral string
  | extAnyOne
  | extAnyMany
  | extCharClass 'rx
  | extGroup char "'rx extSeq list"

definition flushLit :: "string \<Rightarrow> 'rx extToken list \<Rightarrow> 'rx extToken list" where
  "flushLit lit toks = (if lit = [] then toks else toks @ [extLiteral lit])"

definition opens_group :: "Mode \<Rightarrow> string \<Rightarrow> bool" where
  "opens_group mode s =
     (has mode ExtendedOperators \<and> 1 < length s \<and> s ! 1 = CHR ''('' \<and> s ! 0 \<in> set ''!?*+@'')"

definition compile_class :: "'rx text_lib \<Rightarrow> Mode \<Rightarrow> string \<Rightarrow> pat_error + 'rx" where
  "compile_class L mode raw =
     rx_Compile L ((if has mode NoGlobCase then ''(?i)'' else []) @ ''^'' @ charClassRegexp raw @ ''$'')"

text \<open>
  One token that opens no group: the literal text that it adds or the token, and the rest.
\<close>

definition plain_token ::
  "'rx text_lib \<Rightarrow> Mode \<Rightarrow> string \<Rightarrow> pat_error + (string + 'rx extToken) \<times> string" where
  "plain_token L mode s =
     (let c = hd s; cs = tl s
      in if c = CHR 0x5C then
           (if cs = [] then Inl (SyntaxError (CHR 0x5C # '' at end of pattern''))
            else Inr (Inl (take (rune_size cs) cs), drop (rune_size cs) cs))
         else if c = CHR ''*'' then
           Inr (Inr extAnyMany,
             if cs \<noteq> [] \<and> hd cs = CHR ''*'' \<and>
                (\<not> has mode ExtendedOperators \<or> length cs < 2 \<or> cs ! 1 \<noteq> CHR ''('')
             then tl cs else cs)
         else if c = CHR ''?'' then Inr (Inr extAnyOne, cs)
         else if c = CHR ''['' then
           (case scanCharClassToken s of
              Inl e \<Rightarrow> Inl e
            | Inr (raw, rest) \<Rightarrow>
                (case compile_class L mode raw of Inl e \<Rightarrow> Inl e | Inr rx \<Rightarrow> Inr (Inr (extCharClass rx), rest)))
         else Inr (Inl (take (rune_size s) s), drop (rune_size s) s))"

lemma scan_loop_rest: "scan_loop raw s = Inr (raw', rest) \<Longrightarrow> length rest < length s"
proof (induction "length s" arbitrary: raw s rule: less_induct)
  case less
  show ?case
  proof (cases s)
    case Nil
    with less.prems show ?thesis by (simp add: scan_loop.simps)
  next
    case (Cons c cs)
    have sub: "scan_loop raw2 (drop k cs) = Inr (raw', rest) \<Longrightarrow> length rest < length s" for raw2 k
      using less.hyps [of "drop k cs" raw2] Cons by fastforce
    from less.prems Cons have
      "(\<exists>raw2 k. scan_loop raw2 (drop k cs) = Inr (raw', rest)) \<or> (\<exists>raw2. scan_loop raw2 cs = Inr (raw', rest)) \<or> rest = cs"
      unfolding Cons scan_loop.simps [of raw "c # cs"]
      by (auto simp del: take_Suc_Cons take_Cons_numeral split: if_splits sum.splits)
    then show ?thesis using sub sub [of _ 0] Cons by auto
  qed
qed

lemma scanCharClassToken_rest: "scanCharClassToken s = Inr (raw, rest) \<Longrightarrow> length rest < length s"
  by (auto simp: scanCharClassToken_def skip_if_def dest!: scan_loop_rest split: if_splits)

lemma plain_token_rest:
  assumes "plain_token L mode s = Inr (t, rest)" "s \<noteq> []"
  shows "length rest < length s"
  using assms rune_size_pos [of s] rune_size_pos [of "tl s"]
  by (cases s) (auto simp: plain_token_def Let_def dest!: scanCharClassToken_rest split: if_splits sum.splits prod.splits)

lemma opens_group_length: "opens_group mode s \<Longrightarrow> 2 \<le> length s"
  by (simp add: opens_group_def)

text \<open>
  \<open>parseSeq\<close> and \<open>parseGroup\<close>. The counter of sequence numbers is state: it keeps the
  numbers given out by a group that turns out to be unterminated.
\<close>

function (sequential) parse_seq ::
  "'rx text_lib \<Rightarrow> Mode \<Rightarrow> string \<Rightarrow> string \<Rightarrow> string \<Rightarrow> 'rx extToken list \<Rightarrow> nat \<Rightarrow>
   (pat_error + 'rx extToken list \<times> string) \<times> nat"
  and parseGroup ::
  "'rx text_lib \<Rightarrow> Mode \<Rightarrow> string \<Rightarrow> 'rx extSeq list \<Rightarrow> nat \<Rightarrow> (pat_error + 'rx extSeq list \<times> string) \<times> nat" where
  "parse_seq L mode stops s lit toks n =
     (if s = [] \<or> hd s \<in> set stops then (Inr (flushLit lit toks, s), n)
      else if opens_group mode s then
        (case parseGroup L mode (drop 2 s) [] n of
           (Inl UnterminatedExtGlob, n1) \<Rightarrow> (Inr (flushLit s (flushLit lit toks), []), n1)
         | (Inl e, n1) \<Rightarrow> (Inl e, n1)
         | (Inr (alts, rest), n1) \<Rightarrow>
             parse_seq L mode stops rest [] (flushLit lit toks @ [extGroup (hd s) alts]) n1)
      else
        (case plain_token L mode s of
           Inl e \<Rightarrow> (Inl e, n)
         | Inr (Inl t, rest) \<Rightarrow> parse_seq L mode stops rest (lit @ t) toks n
         | Inr (Inr tok, rest) \<Rightarrow> parse_seq L mode stops rest [] (flushLit lit toks @ [tok]) n))"
| "parseGroup L mode s alts n =
     (case parse_seq L mode ''|)'' s [] [] (Suc n) of
        (Inl e, n1) \<Rightarrow> (Inl e, n1)
      | (Inr (toks, rest), n1) \<Rightarrow>
          if rest = [] then (Inl UnterminatedExtGlob, n1)
          else if hd rest = CHR ''|'' then parseGroup L mode (tl rest) (alts @ [ExtSeq n toks]) n1
          else if hd rest = CHR '')'' then (Inr (alts @ [ExtSeq n toks], tl rest), n1)
          else (Inl UnterminatedExtGlob, n1))"
  by pat_completeness auto

termination
proof -
  have parse_rest:
    "parse_seq_parseGroup_dom (Inl (L, mode, stops, s, lit, toks, n)) \<Longrightarrow>
       (\<And>ts rest n1. parse_seq L mode stops s lit toks n = (Inr (ts, rest), n1) \<Longrightarrow> length rest \<le> length s)"
    "parse_seq_parseGroup_dom (Inr (L, mode, s, alts, n)) \<Longrightarrow>
       (\<And>as rest n1. parseGroup L mode s alts n = (Inr (as, rest), n1) \<Longrightarrow> length rest < length s)"
    for L :: "'rx text_lib" and mode stops s lit toks n alts
  proof (induction L mode stops s lit toks n and L mode s alts n rule: parse_seq_parseGroup.pinduct)
    case (1 L mode stops s lit toks n)
    show ?case
    proof (cases "s \<noteq> [] \<and> hd s \<notin> set stops \<and> opens_group mode s")
      case True
      with 1 show ?thesis by (auto simp: parse_seq.psimps split: sum.splits prod.splits pat_error.splits) force
    next
      case False
      with 1 show ?thesis
        by (cases "s = [] \<or> hd s \<in> set stops")
          (auto simp: parse_seq.psimps split: sum.splits prod.splits dest!: plain_token_rest, force+)
    qed
  next
    case (2 L mode s alts n)
    from "2.prems" obtain toks r n2 where t: "parse_seq L mode ''|)'' s [] [] (Suc n) = (Inr (toks, r), n2)" "r \<noteq> []"
      and d: "parseGroup L mode (tl r) (alts @ [ExtSeq n toks]) n2 = (Inr (as, rest), n1) \<and> hd r = CHR ''|'' \<or> rest = tl r"
      by (auto simp: parseGroup.psimps [OF "2.hyps"] split: sum.splits prod.splits if_splits)
    have "length rest \<le> length (tl r)" using d "2.IH"(2) [OF t(1) [symmetric] refl refl] t(2) by fastforce
    with "2.IH"(1) [OF t(1)] t(2) show ?case by (cases r) auto
  qed
  have group: "length rest < length s"
    if "(Inr (as, rest), n1) = parseGroup L mode (drop 2 s) alts n" "parse_seq_parseGroup_dom (Inr (L, mode, drop 2 s, alts, n))"
    for L :: "'rx text_lib" and mode s alts n as rest n1
    using parse_rest(2) [OF that(2) that(1) [symmetric]] by simp
  have seq: "length (tl rest) < length s"
    if "(Inr (ts, rest), n1) = parse_seq L mode stops s lit toks n"
      "parse_seq_parseGroup_dom (Inl (L, mode, stops, s, lit, toks, n))" "rest \<noteq> []"
    for L :: "'rx text_lib" and mode stops s lit toks n ts rest n1
    using parse_rest(1) [OF that(2) that(1) [symmetric]] that(3) by (cases rest) auto
  show ?thesis
    by (relation "measure (\<lambda>x. case x of Inl (L, mode, stops, s, lit, toks, n) \<Rightarrow> 2 * length s
       | Inr (L, mode, s, alts, n) \<Rightarrow> 2 * length s + 1)")
      (auto dest: plain_token_rest opens_group_length group seq simp del: length_tl)
qed

declare parse_seq.simps [simp del] parseGroup.simps [simp del]

definition parseExtPattern :: "'rx text_lib \<Rightarrow> string \<Rightarrow> Mode \<Rightarrow> pat_error + 'rx extSeq" where
  "parseExtPattern L pat mode =
     (case fst (parse_seq L mode '''' pat [] [] 2) of
        Inl e \<Rightarrow> Inl e
      | Inr (toks, rest) \<Rightarrow>
          if rest \<noteq> [] then Inl (SyntaxError ''unexpected trailing pattern data'') else Inr (ExtSeq 1 toks))"

section \<open>The matcher\<close>

record extMatcher =
  em_mode :: Mode
  em_name :: string
  em_memo :: "nat \<times> nat \<Rightarrow> nat list option"

definition newExtMatcher :: "Mode \<Rightarrow> string \<Rightarrow> extMatcher" where
  "newExtMatcher mode name = \<lparr>em_mode = mode, em_name = name, em_memo = Map.empty\<rparr>"

definition leadingDotBlocked :: "extMatcher \<Rightarrow> string \<Rightarrow> nat \<Rightarrow> bool" where
  "leadingDotBlocked m name ni =
     (if \<not> has (em_mode m) Filenames \<or> has (em_mode m) GlobLeadingDot \<or> length name \<le> ni \<or> name ! ni \<noteq> CHR ''.''
      then False
      else ni = 0 \<or> name ! (ni - 1) = slash)"

definition matchLiteral :: "'rx text_lib \<Rightarrow> extMatcher \<Rightarrow> string \<Rightarrow> string \<Rightarrow> nat \<Rightarrow> nat option" where
  "matchLiteral L m lit name ni =
     (if length name < ni + length lit then None
      else
        let part = take (length lit) (drop ni name)
        in if (if has (em_mode m) NoGlobCase then EqualFold L part lit else part = lit)
           then Some (ni + length lit) else None)"

definition matchSingle :: "extMatcher \<Rightarrow> string \<Rightarrow> nat \<Rightarrow> bool \<Rightarrow> nat option" where
  "matchSingle m name ni respectLeadingDot =
     (if length name \<le> ni then None
      else (case DecodeRune (drop ni name) of
              (r, sz) \<Rightarrow>
                if sz = 0 then None
                else if has (em_mode m) Filenames \<and> r = byte slash then None
                else if respectLeadingDot \<and> leadingDotBlocked m name ni \<and> r = byte CHR ''.'' then None
                else Some (ni + sz)))"

definition matchCharClass :: "'rx text_lib \<Rightarrow> extMatcher \<Rightarrow> 'rx \<Rightarrow> string \<Rightarrow> nat \<Rightarrow> nat option" where
  "matchCharClass L m cls name ni =
     (case matchSingle m name ni True of
        None \<Rightarrow> None
      | Some e \<Rightarrow> if rx_MatchString L cls (take (e - ni) (drop ni name)) then Some e else None)"

function cand_loop :: "extMatcher \<Rightarrow> string \<Rightarrow> nat \<Rightarrow> nat list" where
  "cand_loop m name i =
     (if length name \<le> i then []
      else (case DecodeRune (drop i name) of
              (r, sz) \<Rightarrow>
                if sz = 0 then []
                else if has (em_mode m) Filenames \<and> r = byte slash then []
                else (i + sz) # cand_loop m name (i + sz)))"
  by pat_completeness auto
termination by (relation "measure (\<lambda>(m, name, i). length name - i)") auto

declare cand_loop.simps [simp del]

definition candidateEnds :: "extMatcher \<Rightarrow> string \<Rightarrow> nat \<Rightarrow> bool \<Rightarrow> nat list" where
  "candidateEnds m name ni respectLeadingDot =
     (if length name \<le> ni then [ni]
      else if respectLeadingDot \<and> leadingDotBlocked m name ni \<and> name ! ni = CHR ''.'' then [ni]
      else ni # cand_loop m name ni)"

definition uniqSortedInts :: "nat list \<Rightarrow> nat list" where
  "uniqSortedInts xs = (if length xs < 2 then xs else Compact (sort xs))"

text \<open>
  A set of offsets is a slice of booleans. \<open>mark\<close> sets one and records that something was
  marked; \<open>starts\<close> lists the offsets of a set in order, as the loops over it do.
\<close>

type_synonym marks = "bool list \<times> bool"

definition mark :: "nat \<Rightarrow> marks \<Rightarrow> marks" where
  "mark i = (\<lambda>(next, some). (next[i := True], True))"

definition mark_opt :: "nat option \<Rightarrow> marks \<Rightarrow> marks" where
  "mark_opt e acc = (case e of None \<Rightarrow> acc | Some i \<Rightarrow> mark i acc)"

definition starts :: "bool list \<Rightarrow> nat list" where
  "starts S = filter (\<lambda>i. S ! i) [0..<length S]"

text \<open>
  The work list of a repeated group. \<open>once\<close> gives the ends of one repetition. The source
  indexes \<open>seen\<close> without a test: an offset outside of it would panic, here it is skipped,
  and \<open>once\<close> never returns one.
\<close>

definition star_push :: "nat \<Rightarrow> nat \<Rightarrow> nat list \<times> bool list \<times> marks \<Rightarrow> nat list \<times> bool list \<times> marks" where
  "star_push ni e = (\<lambda>(work, seen, acc).
     if e = ni \<or> length seen \<le> e \<or> seen ! e then (work, seen, acc)
     else (e # work, seen[e := True], mark e acc))"

definition unseen :: "bool list \<Rightarrow> nat" where "unseen seen = length (filter Not seen)"

lemma unseen_update: "e < length seen \<Longrightarrow> \<not> seen ! e \<Longrightarrow> Suc (unseen (seen[e := True])) = unseen seen"
  unfolding unseen_def
proof (induction seen arbitrary: e)
  case (Cons b seen)
  then show ?case by (cases e) auto
qed simp

lemma star_push_measure:
  "fold (star_push ni) ends (work, seen, acc) = (work', seen', acc') \<Longrightarrow>
     2 * unseen seen' + length work' \<le> 2 * unseen seen + length work"
proof (induction ends arbitrary: work seen acc)
  case (Cons e ends)
  obtain w s a where p: "star_push ni e (work, seen, acc) = (w, s, a)" by (rule prod_cases3)
  then have "2 * unseen s + length w \<le> 2 * unseen seen + length work"
    using unseen_update [of e seen] by (auto simp: star_push_def split: if_splits)
  moreover from Cons.prems p have "2 * unseen seen' + length work' \<le> 2 * unseen s + length w"
    using Cons.IH by simp
  ultimately show ?case by simp
qed simp

function star_loop ::
  "(nat \<Rightarrow> 'm \<Rightarrow> nat list \<times> 'm) \<Rightarrow> nat list \<Rightarrow> bool list \<Rightarrow> marks \<Rightarrow> 'm \<Rightarrow> marks \<times> 'm" where
  "star_loop once [] seen acc m = (acc, m)"
| "star_loop once (ni # work) seen acc m =
     (case once ni m of
        (ends, m1) \<Rightarrow>
          (case fold (star_push ni) ends (work, seen, acc) of
             (work1, seen1, acc1) \<Rightarrow> star_loop once work1 seen1 acc1 m1))"
  by pat_completeness auto
termination
  by (relation "measure (\<lambda>(once, work, seen, acc, m). 2 * unseen seen + length work)")
    (auto dest!: star_push_measure [OF sym])

definition runGroup ::
  "char \<Rightarrow> (nat \<Rightarrow> extMatcher \<Rightarrow> nat list \<times> extMatcher) \<Rightarrow> bool list \<Rightarrow> marks \<Rightarrow> extMatcher \<Rightarrow> marks \<times> extMatcher" where
  "runGroup op once S acc m =
     (if op = CHR ''@'' \<or> op = CHR ''?'' then
        fold (\<lambda>ni (acc, m).
          let acc1 = (if op = CHR ''?'' then mark ni acc else acc)
          in (case once ni m of (ends, m1) \<Rightarrow> (fold mark ends acc1, m1))) (starts S) (acc, m)
      else if op = CHR ''*'' \<or> op = CHR ''+'' then
        star_loop once (rev (starts S)) (replicate (length S) False)
          (if op = CHR ''*'' then fold mark (starts S) acc else acc) m
      else if op = CHR ''!'' then
        fold (\<lambda>ni (acc, m).
          case once ni m of
            (excluded, m1) \<Rightarrow>
              (fold (\<lambda>e acc. if snd (BinarySearch excluded e) then acc else mark e acc)
                 (candidateEnds m (em_name m) ni True) acc, m1)) (starts S) (acc, m)
      else (acc, m))"

lemma star_loop_cong [fundef_cong]:
  assumes "\<And>ni m. once ni m = once' ni m" "work = work'" "seen = seen'" "acc = acc'" "m = m'"
  shows "star_loop once work seen acc m = star_loop once' work' seen' acc' m'"
proof -
  have "once = once'" using assms(1) by blast
  with assms show ?thesis by simp
qed

lemma runGroup_cong [fundef_cong]:
  assumes "op = op'" "\<And>ni m. once ni m = once' ni m" "S = S'" "acc = acc'" "m = m'"
  shows "runGroup op once S acc m = runGroup op' once' S' acc' m'"
proof -
  have "once = once'" using assms(2) by blast
  with assms show ?thesis by simp
qed

text \<open>The tokens that are no groups change nothing but the marks.\<close>

definition run_plain :: "'rx text_lib \<Rightarrow> 'rx extToken \<Rightarrow> bool list \<Rightarrow> extMatcher \<Rightarrow> marks \<Rightarrow> marks" where
  "run_plain L tok S m acc =
     (case tok of
        extLiteral lit \<Rightarrow> fold (\<lambda>ni. mark_opt (matchLiteral L m lit (em_name m) ni)) (starts S) acc
      | extAnyOne \<Rightarrow> fold (\<lambda>ni. mark_opt (matchSingle m (em_name m) ni True)) (starts S) acc
      | extCharClass cls \<Rightarrow> fold (\<lambda>ni. mark_opt (matchCharClass L m cls (em_name m) ni)) (starts S) acc
      | extAnyMany \<Rightarrow>
          fold (\<lambda>ni acc. if fst acc ! ni then acc else fold mark (candidateEnds m (em_name m) ni True) acc)
            (starts S) acc
      | extGroup _ _ \<Rightarrow> acc)"

function run :: "'rx text_lib \<Rightarrow> 'rx extToken list \<Rightarrow> bool list \<Rightarrow> extMatcher \<Rightarrow> bool list \<times> extMatcher"
  and run_token :: "'rx text_lib \<Rightarrow> 'rx extToken \<Rightarrow> bool list \<Rightarrow> extMatcher \<Rightarrow> marks \<times> extMatcher"
  and groupOnce :: "'rx text_lib \<Rightarrow> 'rx extSeq list \<Rightarrow> nat \<Rightarrow> extMatcher \<Rightarrow> nat list \<times> extMatcher"
  and alts_ends :: "'rx text_lib \<Rightarrow> 'rx extSeq list \<Rightarrow> nat \<Rightarrow> extMatcher \<Rightarrow> nat list \<times> extMatcher"
  and seqEnds :: "'rx text_lib \<Rightarrow> 'rx extSeq \<Rightarrow> nat \<Rightarrow> extMatcher \<Rightarrow> nat list \<times> extMatcher" where
  "run L [] S m = (S, m)"
| "run L (tok # toks) S m =
     (case run_token L tok S m of
        ((next, some), m1) \<Rightarrow> if \<not> some then (next, m1) else run L toks next m1)"
| "run_token L tok S m =
     (case tok of
        extGroup op alts \<Rightarrow>
          runGroup op (\<lambda>ni m. groupOnce L alts ni m) S (replicate (length S) False, False) m
      | _ \<Rightarrow> (run_plain L tok S m (replicate (length S) False, False), m))"
| "groupOnce L alts start m =
     (if length alts = 1 then seqEnds L (hd alts) start m
      else (case alts_ends L alts start m of (out, m1) \<Rightarrow> (uniqSortedInts out, m1)))"
| "alts_ends L [] start m = ([], m)"
| "alts_ends L (alt # alts) start m =
     (case seqEnds L alt start m of
        (out, m1) \<Rightarrow> (case alts_ends L alts start m1 of (outs, m2) \<Rightarrow> (out @ outs, m2)))"
| "seqEnds L (ExtSeq k toks) start m =
     (case em_memo m (k, start) of
        Some cached \<Rightarrow> (cached, m)
      | None \<Rightarrow>
          (case run L toks ((replicate (Suc (length (em_name m))) False)[start := True]) m of
             (S, m1) \<Rightarrow> let out = starts S in (out, m1\<lparr>em_memo := (em_memo m1)((k, start) \<mapsto> out)\<rparr>)))"
  by pat_completeness auto
termination
  by (relation "measure (\<lambda>x. case x of
       Inl (Inl (L, toks, S, m)) \<Rightarrow> 2 * size_list size toks
     | Inl (Inr (L, tok, S, m)) \<Rightarrow> 2 * size tok
     | Inr (Inl (L, alts, start, m)) \<Rightarrow> 2 * size_list size alts + 1
     | Inr (Inr (Inl (L, alts, start, m))) \<Rightarrow> 2 * size_list size alts
     | Inr (Inr (Inr (L, alt, start, m))) \<Rightarrow> 2 * size alt)")
    (auto simp: length_Suc_conv)

definition matches :: "'rx text_lib \<Rightarrow> 'rx extSeq \<Rightarrow> extMatcher \<Rightarrow> bool" where
  "matches L root m =
     fst (run L (seq_tokens root) ((replicate (Suc (length (em_name m))) False)[0 := True]) m) !
       length (em_name m)"

declare run_token.simps [simp del] groupOnce.simps [simp del] seqEnds.simps [simp del]

end
