(* ===== verification/Pattern_Match.thy ===== *)
theory Pattern_Match
  imports Pattern
begin

text \<open>
  What a parsed pattern means and that the matcher computes it. The meaning of a token is
  the set of offsets it can end at when it starts at a given offset: the matcher's slices of
  booleans, its early exit, the skipped star runs, the work list of repeated groups, the
  binary search of negated groups and the memo table are all absent from it. The invariant
  of the memo table says that every entry is the meaning of the sequence with that number.
\<close>

section \<open>Meaning\<close>

definition rune_step :: "extMatcher \<Rightarrow> (nat \<times> nat) set" where
  "rune_step m = {(i, j). matchSingle m (em_name m) i False = Some j}"

definition any_many :: "extMatcher \<Rightarrow> nat \<Rightarrow> nat set" where
  "any_many m i =
     (if leadingDotBlocked m (em_name m) i then {i} else {j. (i, j) \<in> (rune_step m)\<^sup>*})"

definition plain_means :: "'rx text_lib \<Rightarrow> extMatcher \<Rightarrow> 'rx extToken \<Rightarrow> nat \<Rightarrow> nat set" where
  "plain_means L m tok i =
     (case tok of
        extLiteral lit \<Rightarrow> set_option (matchLiteral L m lit (em_name m) i)
      | extAnyOne \<Rightarrow> set_option (matchSingle m (em_name m) i True)
      | extCharClass cls \<Rightarrow> set_option (matchCharClass L m cls (em_name m) i)
      | extAnyMany \<Rightarrow> any_many m i
      | extGroup _ _ \<Rightarrow> {})"

definition proper :: "(nat \<Rightarrow> nat set) \<Rightarrow> (nat \<times> nat) set" where
  "proper once = {(a, b). b \<in> once a \<and> b \<noteq> a}"

definition group_means :: "char \<Rightarrow> extMatcher \<Rightarrow> (nat \<Rightarrow> nat set) \<Rightarrow> nat \<Rightarrow> nat set" where
  "group_means op m once i =
     (if op = CHR ''@'' then once i
      else if op = CHR ''?'' then insert i (once i)
      else if op = CHR ''*'' then {j. (i, j) \<in> (proper once)\<^sup>*}
      else if op = CHR ''+'' then {j. (i, j) \<in> (proper once)\<^sup>+}
      else if op = CHR ''!'' then any_many m i - once i
      else {})"

definition then_means :: "nat set \<Rightarrow> (nat \<Rightarrow> nat set) \<Rightarrow> nat set" where
  "then_means A f = (\<Union>i \<in> A. f i)"

lemma group_means_cong [fundef_cong]:
  assumes "op = op'" "m = m'" "\<And>i. once i = once' i" "i = i'"
  shows "group_means op m once i = group_means op' m' once' i'"
proof -
  have "once = once'" using assms(3) by blast
  with assms show ?thesis by simp
qed

lemma then_means_cong [fundef_cong]:
  assumes "A = A'" "\<And>i. f i = g i"
  shows "then_means A f = then_means A' g"
  using assms by (simp add: then_means_def)

function means :: "'rx text_lib \<Rightarrow> extMatcher \<Rightarrow> 'rx extToken list \<Rightarrow> nat \<Rightarrow> nat set"
  and token_means :: "'rx text_lib \<Rightarrow> extMatcher \<Rightarrow> 'rx extToken \<Rightarrow> nat \<Rightarrow> nat set"
  and alts_means :: "'rx text_lib \<Rightarrow> extMatcher \<Rightarrow> 'rx extSeq list \<Rightarrow> nat \<Rightarrow> nat set" where
  "means L m [] i = {i}"
| "means L m (tok # toks) i = then_means (token_means L m tok i) (\<lambda>j. means L m toks j)"
| "token_means L m tok i =
     (case tok of
        extGroup op alts \<Rightarrow> group_means op m (\<lambda>k. alts_means L m alts k) i
      | _ \<Rightarrow> plain_means L m tok i)"
| "alts_means L m [] i = {}"
| "alts_means L m (alt # alts) i = means L m (seq_tokens alt) i \<union> alts_means L m alts i"
  by pat_completeness auto
termination
proof (relation "measure (\<lambda>x. case x of
     Inl (L, m, toks, i) \<Rightarrow> size_list size toks
   | Inr (Inl (L, m, tok, i)) \<Rightarrow> size tok
   | Inr (Inr (L, m, alts, i)) \<Rightarrow> size_list size alts)", goal_cases)
  case (5 L m alt alts i)
  then show ?case by (cases alt) auto
qed auto

declare token_means.simps [simp del]

text \<open>The meaning depends on the mode and the name only.\<close>

definition same :: "extMatcher \<Rightarrow> extMatcher \<Rightarrow> bool" where
  "same m m' \<longleftrightarrow> em_mode m' = em_mode m \<and> em_name m' = em_name m"

lemma same_match:
  assumes "same m m'"
  shows "matchLiteral L m' = matchLiteral L m" "matchSingle m' = matchSingle m"
    "matchCharClass L m' = matchCharClass L m" "candidateEnds m' = candidateEnds m"
    "leadingDotBlocked m' = leadingDotBlocked m"
proof -
  have e: "em_mode m' = em_mode m" using assms by (simp add: same_def)
  show lit: "matchLiteral L m' = matchLiteral L m" by (intro ext) (simp add: matchLiteral_def e)
  show dot: "leadingDotBlocked m' = leadingDotBlocked m" by (intro ext) (simp add: leadingDotBlocked_def e)
  show sin: "matchSingle m' = matchSingle m" by (intro ext) (auto simp: matchSingle_def e dot split: prod.splits)
  show "matchCharClass L m' = matchCharClass L m" by (intro ext) (simp add: matchCharClass_def sin)
  have "cand_loop m' name i = cand_loop m name i" for name i
  proof (induction "length name - i" arbitrary: i rule: less_induct)
    case less
    then show ?case
      by (subst (1 2) cand_loop.simps) (auto simp: e split: prod.splits)
  qed
  then show "candidateEnds m' = candidateEnds m" by (intro ext) (simp add: candidateEnds_def dot)
qed

section \<open>Offsets\<close>

lemma matchSingle_bounds: "matchSingle m name i b = Some j \<Longrightarrow> i < j \<and> j \<le> length name"
proof -
  assume a: "matchSingle m name i b = Some j"
  have "rune_size (drop i name) \<le> length name - i" using rune_size_le [of "drop i name"] by simp
  with a show ?thesis
    by (auto simp: matchSingle_def rune_size_def split: if_splits prod.splits)
qed

lemma matchLiteral_bounds: "matchLiteral L m lit name i = Some j \<Longrightarrow> i \<le> j \<and> j \<le> length name"
  by (auto simp: matchLiteral_def Let_def split: if_splits)

lemma matchCharClass_bounds: "matchCharClass L m cls name i = Some j \<Longrightarrow> i < j \<and> j \<le> length name"
  by (auto simp: matchCharClass_def dest!: matchSingle_bounds split: if_splits option.splits)

lemma rune_steps_bounds: "(i, j) \<in> (rune_step m)\<^sup>* \<Longrightarrow> i \<le> length (em_name m) \<Longrightarrow> i \<le> j \<and> j \<le> length (em_name m)"
  by (induction rule: rtrancl_induct) (auto simp: rune_step_def dest!: matchSingle_bounds)

lemma any_many_bounds: "j \<in> any_many m i \<Longrightarrow> i \<le> length (em_name m) \<Longrightarrow> i \<le> j \<and> j \<le> length (em_name m)"
  by (auto simp: any_many_def dest: rune_steps_bounds split: if_splits)

lemma any_many_trans: "a \<in> any_many m i \<Longrightarrow> any_many m a \<subseteq> any_many m i"
  by (auto simp: any_many_def split: if_splits)

lemma any_many_self: "i \<in> any_many m i"
  by (simp add: any_many_def)

lemma cand_loop_steps: "set (cand_loop m (em_name m) i) = {j. (i, j) \<in> (rune_step m)\<^sup>+}"
proof (induction "length (em_name m) - i" arbitrary: i rule: less_induct)
  case less
  show ?case
  proof (cases "matchSingle m (em_name m) i False")
    case None
    then have "cand_loop m (em_name m) i = []"
      by (subst cand_loop.simps) (auto simp: matchSingle_def split: if_splits prod.splits)
    moreover have "\<not> (i, j) \<in> (rune_step m)\<^sup>+" for j
      using None by (auto simp: rune_step_def dest!: tranclD)
    ultimately show ?thesis by simp
  next
    case (Some k)
    then have k: "i < k" "k \<le> length (em_name m)" using matchSingle_bounds by blast+
    from Some have "cand_loop m (em_name m) i = k # cand_loop m (em_name m) k"
      by (subst cand_loop.simps) (auto simp: matchSingle_def split: if_splits prod.splits)
    moreover have "(i, j) \<in> (rune_step m)\<^sup>+ \<longleftrightarrow> j = k \<or> (k, j) \<in> (rune_step m)\<^sup>+" for j
    proof
      assume "(i, j) \<in> (rune_step m)\<^sup>+"
      then obtain z where "(i, z) \<in> rune_step m" "(z, j) \<in> (rune_step m)\<^sup>*" by (auto dest!: tranclD)
      with Some show "j = k \<or> (k, j) \<in> (rune_step m)\<^sup>+" by (auto simp: rune_step_def dest: rtranclD)
    next
      assume "j = k \<or> (k, j) \<in> (rune_step m)\<^sup>+"
      moreover have "(i, k) \<in> rune_step m" using Some by (simp add: rune_step_def)
      ultimately show "(i, j) \<in> (rune_step m)\<^sup>+" by (auto intro: trancl_into_trancl2)
    qed
    ultimately show ?thesis using less [of k] k by auto
  qed
qed

lemma candidateEnds_any_many: "i \<le> length (em_name m) \<Longrightarrow> set (candidateEnds m (em_name m) i True) = any_many m i"
proof -
  assume i: "i \<le> length (em_name m)"
  have dot: "leadingDotBlocked m (em_name m) i \<Longrightarrow> i < length (em_name m) \<and> em_name m ! i = CHR ''.''"
    by (auto simp: leadingDotBlocked_def split: if_splits)
  have fin: "i = length (em_name m) \<Longrightarrow> {j. (i, j) \<in> (rune_step m)\<^sup>*} = {i}"
    using rune_steps_bounds [of i _ m] by (auto simp: le_antisym)
  show ?thesis
  proof (cases "leadingDotBlocked m (em_name m) i")
    case True
    with dot show ?thesis by (auto simp: candidateEnds_def any_many_def)
  next
    case False
    have "insert i {j. (i, j) \<in> (rune_step m)\<^sup>+} = {j. (i, j) \<in> (rune_step m)\<^sup>*}"
      by (auto dest: rtranclD)
    with False fin i show ?thesis
      by (cases "i = length (em_name m)") (auto simp: candidateEnds_def any_many_def cand_loop_steps)
  qed
qed

section \<open>Marks\<close>

definition pos :: "bool list \<Rightarrow> nat set" where
  "pos S = {i. i < length S \<and> S ! i}"

definition marked :: "nat \<Rightarrow> marks \<Rightarrow> nat set \<Rightarrow> bool" where
  "marked N acc A \<longleftrightarrow> length (fst acc) = Suc N \<and> pos (fst acc) = A \<and> (snd acc \<longleftrightarrow> A \<noteq> {})"

lemma set_starts [simp]: "set (starts S) = pos S"
  by (auto simp: starts_def pos_def)

lemma sorted_starts: "sorted (starts S)"
  by (simp add: starts_def sorted_wrt_filter)

lemma pos_replicate [simp]: "pos (replicate n False) = {}"
  by (auto simp: pos_def)

lemma pos_update: "i < length S \<Longrightarrow> pos (S[i := True]) = insert i (pos S)"
  by (auto simp: pos_def nth_list_update)

lemma marked_subset: "marked N acc A \<Longrightarrow> A \<subseteq> {..N}"
  by (auto simp: marked_def pos_def)

lemma marked_init: "marked N (replicate (Suc N) False, False) {}"
  by (simp add: marked_def del: replicate_Suc)

lemma marked_mark: "marked N acc A \<Longrightarrow> i \<le> N \<Longrightarrow> marked N (mark i acc) (insert i A)"
  by (cases acc) (auto simp: marked_def mark_def pos_update)

lemma marked_fold: "marked N acc A \<Longrightarrow> set es \<subseteq> {..N} \<Longrightarrow> marked N (fold mark es acc) (A \<union> set es)"
proof (induction es arbitrary: acc A)
  case (Cons e es)
  then have "marked N (fold mark es (mark e acc)) (insert e A \<union> set es)" by (intro Cons.IH marked_mark) auto
  then show ?case by simp
qed simp

lemma marked_fold_opt:
  assumes "marked N acc A" "\<And>i. i \<in> set is \<Longrightarrow> set_option (f i) \<subseteq> {..N}"
  shows "marked N (fold (\<lambda>i. mark_opt (f i)) is acc) (A \<union> (\<Union>i \<in> set is. set_option (f i)))"
  using assms
proof (induction "is" arbitrary: acc A)
  case (Cons i "is")
  have "marked N (mark_opt (f i) acc) (A \<union> set_option (f i))"
    using Cons.prems(1) Cons.prems(2) [of i] marked_mark [of N acc A] by (cases "f i") (auto simp: mark_opt_def)
  then have "marked N (fold (\<lambda>i. mark_opt (f i)) is (mark_opt (f i) acc))
      (A \<union> set_option (f i) \<union> (\<Union>i \<in> set is. set_option (f i)))"
    using Cons.prems by (intro Cons.IH) auto
  then show ?case by (simp add: Un_assoc)
qed simp

text \<open>
  The star: a start that is marked already lies in an earlier run, and the runs are closed.
\<close>

lemma marked_fold_many:
  assumes "marked N acc A" "set is \<subseteq> {..N}" "N = length (em_name m)" "\<And>a. a \<in> A \<Longrightarrow> any_many m a \<subseteq> A"
  shows "marked N (fold (\<lambda>ni acc. if fst acc ! ni then acc
      else fold mark (candidateEnds m (em_name m) ni True) acc) is acc) (A \<union> (\<Union>i \<in> set is. any_many m i))"
  using assms
proof (induction "is" arbitrary: acc A)
  case (Cons i "is")
  define acc1 where "acc1 = (if fst acc ! i then acc else fold mark (candidateEnds m (em_name m) i True) acc)"
  have c: "set (candidateEnds m (em_name m) i True) = any_many m i"
    using Cons.prems by (intro candidateEnds_any_many) auto
  have sub: "any_many m i \<subseteq> {..N}" using any_many_bounds [of _ m i] Cons.prems by auto
  have m1: "marked N acc1 (A \<union> any_many m i)"
  proof (cases "fst acc ! i")
    case True
    with Cons.prems have "i \<in> A" by (auto simp: marked_def pos_def)
    with Cons.prems(4) have "A \<union> any_many m i = A" by blast
    with True Cons.prems(1) show ?thesis by (simp add: acc1_def)
  next
    case False
    with Cons.prems(1) sub c show ?thesis using marked_fold [of N acc A "candidateEnds m (em_name m) i True"]
      by (simp add: acc1_def)
  qed
  have "any_many m a \<subseteq> A \<union> any_many m i" if "a \<in> A \<union> any_many m i" for a
    using that Cons.prems(4) any_many_trans by blast
  then have "marked N (fold (\<lambda>ni acc. if fst acc ! ni then acc
      else fold mark (candidateEnds m (em_name m) ni True) acc) is acc1) (A \<union> any_many m i \<union> (\<Union>i \<in> set is. any_many m i))"
    using Cons.prems m1 by (intro Cons.IH) auto
  then show ?case by (simp add: acc1_def Un_assoc)
qed simp

section \<open>Repeated groups\<close>

lemma trancl_closed:
  assumes "\<And>a. a \<in> T - W \<Longrightarrow> R `` {a} \<subseteq> T" "(a, b) \<in> R\<^sup>+" "a \<in> T"
  shows "b \<in> T \<or> b \<in> R\<^sup>+ `` W"
  using assms(2,3)
proof (induction rule: trancl_induct)
  case (base b)
  with assms(1) show ?case by blast
next
  case (step b c)
  from step.IH [OF step.prems] step.hyps(2) assms(1) show ?case by (blast intro: trancl_into_trancl)
qed

lemma star_push_fold:
  assumes "fold (star_push ni) ends (work, seen, acc) = (work1, seen1, acc1)"
    "length seen = Suc N" "marked N acc A" "set ends \<subseteq> {..N}"
  shows "length seen1 = Suc N \<and> pos seen1 = pos seen \<union> (set ends - {ni}) \<and>
     set work1 = set work \<union> (set ends - {ni} - pos seen) \<and> marked N acc1 (A \<union> (set ends - {ni} - pos seen))"
  using assms
proof (induction ends arbitrary: work seen acc A)
  case (Cons e ends)
  show ?case
  proof (cases "e = ni \<or> seen ! e")
    case True
    then have "star_push ni e (work, seen, acc) = (work, seen, acc)" by (auto simp: star_push_def)
    moreover from True Cons.prems have "e = ni \<or> e \<in> pos seen" by (auto simp: pos_def)
    ultimately show ?thesis using Cons.IH [of work seen acc A] Cons.prems by (simp add: insert_Diff_if) blast
  next
    case False
    with Cons.prems have p: "star_push ni e (work, seen, acc) = (e # work, seen[e := True], mark e acc)"
      "e \<notin> pos seen" "pos (seen[e := True]) = insert e (pos seen)" "marked N (mark e acc) (insert e A)"
      by (auto simp: star_push_def pos_update intro: marked_mark) (simp add: pos_def)
    have "length seen1 = Suc N \<and> pos seen1 = insert e (pos seen) \<union> (set ends - {ni}) \<and>
      set work1 = set (e # work) \<union> (set ends - {ni} - insert e (pos seen)) \<and>
      marked N acc1 (insert e A \<union> (set ends - {ni} - insert e (pos seen)))"
      using Cons.IH [of "e # work" "seen[e := True]" "mark e acc" "insert e A"] Cons.prems p by simp
    moreover have "insert e A \<union> (set ends - {ni} - insert e (pos seen)) = A \<union> (set (e # ends) - {ni} - pos seen)"
      using False p(2) by auto
    ultimately show ?thesis using False p(2) by (auto simp: insert_Diff_if)
  qed
qed auto

lemma star_loop_means:
  "star_loop once work seen acc m = (acc', m') \<Longrightarrow> I m \<Longrightarrow> marked N acc A \<Longrightarrow> length seen = Suc N \<Longrightarrow>
    set work \<subseteq> {..N} \<Longrightarrow> pos seen \<subseteq> A \<Longrightarrow> (\<And>a. a \<in> pos seen - set work \<Longrightarrow> proper E `` {a} \<subseteq> pos seen) \<Longrightarrow>
    (\<And>ni m ends m1. ni \<le> N \<Longrightarrow> I m \<Longrightarrow> once ni m = (ends, m1) \<Longrightarrow> I m1 \<and> set ends = E ni \<and> E ni \<subseteq> {..N}) \<Longrightarrow>
    I m' \<and> marked N acc' (A \<union> (proper E)\<^sup>+ `` set work)"
proof (induction once work seen acc m arbitrary: A rule: star_loop.induct)
  case (2 once ni work seen acc m)
  obtain ends m1 where o: "once ni m = (ends, m1)" by (rule prod.exhaust)
  obtain work1 seen1 acc1 where f: "fold (star_push ni) ends (work, seen, acc) = (work1, seen1, acc1)"
    by (rule prod_cases3)
  from o "2.prems"(8) [OF _ "2.prems"(2)] "2.prems"(5) have E: "I m1" "set ends = E ni" "E ni \<subseteq> {..N}" by auto
  define new where "new = proper E `` {ni} - pos seen"
  have R: "set ends - {ni} = proper E `` {ni}" using E by (auto simp: proper_def)
  from star_push_fold [OF f "2.prems"(4,3)] E R have
    s: "length seen1 = Suc N" "pos seen1 = pos seen \<union> proper E `` {ni}" "set work1 = set work \<union> new"
      "marked N acc1 (A \<union> new)" by (auto simp: new_def)
  have clo: "proper E `` {a} \<subseteq> pos seen1" if "a \<in> pos seen1 - set work1" for a
  proof (cases "a = ni")
    case False
    with that s(2,3) have "a \<in> pos seen - set (ni # work)" by (auto simp: new_def)
    with "2.prems"(7) s(2) show ?thesis by blast
  qed (use s(2) in blast)
  have "new \<subseteq> {..N}" using E by (auto simp: new_def proper_def)
  then have wk: "set work1 \<subseteq> {..N}" "pos seen1 \<subseteq> A \<union> new" using "2.prems"(5,6) s(2,3) by (auto simp: new_def)
  from "2.prems"(1) o f have call: "star_loop once work1 seen1 acc1 m1 = (acc', m')" by simp
  have res: "I m' \<and> marked N acc' (A \<union> new \<union> (proper E)\<^sup>+ `` set work1)"
    by (rule "2.IH" [OF o [symmetric] f [symmetric] refl call E(1) s(4,1) wk clo "2.prems"(8)])
  have "(proper E)\<^sup>+ `` set (ni # work) \<subseteq> A \<union> new \<union> (proper E)\<^sup>+ `` set work1"
  proof
    fix b assume "b \<in> (proper E)\<^sup>+ `` set (ni # work)"
    then consider "(ni, b) \<in> (proper E)\<^sup>+" | "b \<in> (proper E)\<^sup>+ `` set work" by auto
    then show "b \<in> A \<union> new \<union> (proper E)\<^sup>+ `` set work1"
    proof cases
      case 1
      then obtain z where z: "(ni, z) \<in> proper E" "z = b \<or> (z, b) \<in> (proper E)\<^sup>+"
        by (auto dest!: tranclD dest: rtranclD)
      then have "z \<in> pos seen1" using s(2) by blast
      with z trancl_closed [OF clo, where a = z and b = b] have "b \<in> pos seen1 \<or> b \<in> (proper E)\<^sup>+ `` set work1" by auto
      with s(2) "2.prems"(6) show ?thesis by (auto simp: new_def)
    qed (use s(3) in auto)
  qed
  moreover have "new \<union> (proper E)\<^sup>+ `` set work1 \<subseteq> (proper E)\<^sup>+ `` set (ni # work)"
    unfolding s(3) by (auto simp: new_def intro: trancl_into_trancl2)
  ultimately have "A \<union> new \<union> (proper E)\<^sup>+ `` set work1 = A \<union> (proper E)\<^sup>+ `` set (ni # work)" by blast
  with res show ?case by simp
qed simp

lemma means_bounds:
  "j \<in> means L m toks i \<Longrightarrow> i \<le> length (em_name m) \<Longrightarrow> i \<le> j \<and> j \<le> length (em_name m)"
  "j \<in> token_means L m tok i \<Longrightarrow> i \<le> length (em_name m) \<Longrightarrow> i \<le> j \<and> j \<le> length (em_name m)"
  "j \<in> alts_means L m alts i \<Longrightarrow> i \<le> length (em_name m) \<Longrightarrow> i \<le> j \<and> j \<le> length (em_name m)"
proof (induction L m toks i and L m tok i and L m alts i arbitrary: j and j and j
    rule: means_token_means_alts_means.induct)
  case (2 L m tok toks i)
  then obtain k where k: "k \<in> token_means L m tok i" "j \<in> means L m toks k" by (auto simp: then_means_def)
  from "2.IH"(1) [OF k(1) "2.prems"(2)] "2.IH"(2) [OF k(2)] show ?case by simp
next
  case (3 L m tok i)
  show ?case
  proof (cases "\<exists>op alts. tok = extGroup op alts")
    case True
    then obtain op alts where t: "tok = extGroup op alts" by blast
    have once: "\<And>a b. b \<in> alts_means L m alts a \<Longrightarrow> a \<le> length (em_name m) \<Longrightarrow> a \<le> b \<and> b \<le> length (em_name m)"
      using "3.IH" [OF t] by blast
    have rep: "(i, b) \<in> (proper (alts_means L m alts))\<^sup>* \<Longrightarrow> i \<le> b \<and> b \<le> length (em_name m)" for b
      by (induction rule: rtrancl_induct) (use "3.prems" once in \<open>fastforce simp: proper_def\<close>)+
    from "3.prems" t once rep show ?thesis
      by (auto simp: token_means.simps group_means_def dest: any_many_bounds trancl_into_rtrancl split: if_splits)
  next
    case False
    with "3.prems" show ?thesis
      by (cases tok) (auto simp: token_means.simps plain_means_def
        dest: matchLiteral_bounds matchSingle_bounds matchCharClass_bounds any_many_bounds)
  qed
qed auto

section \<open>The matcher computes the meaning\<close>

lemma fold_group_means:
  assumes "set is \<subseteq> {..N}" "I m" "marked N acc A"
    and step: "\<And>i acc m A acc1 m1. i \<in> set is \<Longrightarrow> I m \<Longrightarrow> marked N acc A \<Longrightarrow> f i (acc, m) = (acc1, m1) \<Longrightarrow>
      I m1 \<and> marked N acc1 (A \<union> G i)"
    and "fold f is (acc, m) = (acc', m')"
  shows "I m' \<and> marked N acc' (A \<union> (\<Union>i \<in> set is. G i))"
  using assms
proof (induction "is" arbitrary: acc m A)
  case (Cons i "is")
  obtain acc1 m1 where f: "f i (acc, m) = (acc1, m1)" by (rule prod.exhaust)
  have s: "I m1 \<and> marked N acc1 (A \<union> G i)" by (rule Cons.prems(4) [OF _ Cons.prems(2,3) f]) simp
  have "I m' \<and> marked N acc' (A \<union> G i \<union> (\<Union>i \<in> set is. G i))"
  proof (rule Cons.IH)
    show "fold f is (acc1, m1) = (acc', m')" using Cons.prems(5) f by simp
    show "\<And>ia acc m A acc1 m1. ia \<in> set is \<Longrightarrow> I m \<Longrightarrow> marked N acc A \<Longrightarrow> f ia (acc, m) = (acc1, m1) \<Longrightarrow>
      I m1 \<and> marked N acc1 (A \<union> G ia)" using Cons.prems(4) by (meson list.set_intros(2))
  qed (use Cons.prems s in auto)
  then show ?case by (simp add: Un_assoc)
qed simp

definition once_ok ::
  "extMatcher \<Rightarrow> (extMatcher \<Rightarrow> bool) \<Rightarrow> (nat \<Rightarrow> extMatcher \<Rightarrow> nat list \<times> extMatcher) \<Rightarrow> (nat \<Rightarrow> nat set) \<Rightarrow> bool" where
  "once_ok m0 I once E \<longleftrightarrow>
     (\<forall>ni m ends m1. ni \<le> length (em_name m0) \<longrightarrow> I m \<longrightarrow> once ni m = (ends, m1) \<longrightarrow>
        I m1 \<and> sorted ends \<and> set ends = E ni) \<and>
     (\<forall>i \<le> length (em_name m0). E i \<subseteq> {..length (em_name m0)})"

lemma runGroup_means:
  assumes once: "once_ok m0 I once E" and I: "\<And>m. I m \<Longrightarrow> same m0 m" "I m"
    and S: "length S = Suc N" "N = length (em_name m0)" and acc: "marked N acc {}"
    and run: "runGroup op once S acc m = (acc', m')"
  shows "I m' \<and> marked N acc' (\<Union>i \<in> pos S. group_means op m0 E i)"
proof -
  have o: "I m1 \<and> sorted ends \<and> set ends = E i \<and> E i \<subseteq> {..N}" if "i \<le> N" "I m" "once i m = (ends, m1)" for i m ends m1
    using once that S(2) unfolding once_ok_def by blast
  have sub: "set (starts S) \<subseteq> {..N}" using S(1) by (auto simp: pos_def)
  consider (one) "op = CHR ''@'' \<or> op = CHR ''?''" | (star) "op = CHR ''*'' \<or> op = CHR ''+''" | (neg) "op = CHR ''!''"
    | (none) "op \<notin> {CHR ''@'', CHR ''?'', CHR ''*'', CHR ''+'', CHR ''!''}" by blast
  then show ?thesis
  proof cases
    case one
    define f where "f = (\<lambda>ni (acc, m). let acc1 = if op = CHR ''?'' then mark ni acc else acc
            in case once ni m of (ends, m1) \<Rightarrow> (fold mark ends acc1, m1))"
    have call: "fold f (starts S) (acc, m) = (acc', m')" using run one by (auto simp: runGroup_def f_def)
    have "I m' \<and> marked N acc' ({} \<union> (\<Union>i \<in> set (starts S). group_means op m0 E i))"
    proof (rule fold_group_means [where I = I and G = "group_means op m0 E", OF sub I(2) acc _ call])
      fix i acc m A acc1 m1
      assume a: "i \<in> set (starts S)" "I m" "marked N acc A"
        "f i (acc, m) = (acc1, m1)"
      obtain ends where e: "once i m = (ends, m1)" and acc1: "acc1 = fold mark ends (if op = CHR ''?'' then mark i acc else acc)"
        using a(4) by (auto simp: f_def Let_def split: prod.splits)
      from a(1) sub have i: "i \<le> N" by auto
      have "marked N (if op = CHR ''?'' then mark i acc else acc) (A \<union> (if op = CHR ''?'' then {i} else {}))"
        using a(3) i marked_mark by auto
      from marked_fold [OF this, of ends] o [OF i a(2) e] acc1 one show "I m1 \<and> marked N acc1 (A \<union> group_means op m0 E i)"
        by (auto simp: group_means_def Un_assoc split: if_splits)
    qed
    then show ?thesis by simp
  next
    case star
    define A where "A = (if op = CHR ''*'' then pos S else {})"
    have m1: "marked N (if op = CHR ''*'' then fold mark (starts S) acc else acc) A"
      using acc marked_fold [OF acc sub] by (auto simp: A_def)
    from run star have call: "star_loop once (rev (starts S)) (replicate (length S) False)
        (if op = CHR ''*'' then fold mark (starts S) acc else acc) m = (acc', m')"
      by (auto simp: runGroup_def)
    have "I m' \<and> marked N acc' (A \<union> (proper E)\<^sup>+ `` set (rev (starts S)))"
      by (rule star_loop_means [where I = I, OF call I(2) m1]) (use S(1) sub o in \<open>auto simp del: replicate_Suc\<close>)
    moreover have "A \<union> (proper E)\<^sup>+ `` pos S = (\<Union>i \<in> pos S. group_means op m0 E i)"
      using star by (auto simp: A_def group_means_def intro: trancl_into_rtrancl dest: rtranclD)
    ultimately show ?thesis by simp
  next
    case neg
    define f where "f = (\<lambda>ni (acc, m). case once ni m of (excluded, m1) \<Rightarrow>
            (fold (\<lambda>e acc. if snd (BinarySearch excluded e) then acc else mark e acc)
               (candidateEnds m (em_name m) ni True) acc, m1))"
    have call: "fold f (starts S) (acc, m) = (acc', m')" using run neg by (auto simp: runGroup_def f_def)
    have "I m' \<and> marked N acc' ({} \<union> (\<Union>i \<in> set (starts S). group_means op m0 E i))"
    proof (rule fold_group_means [where I = I and G = "group_means op m0 E", OF sub I(2) acc _ call])
      fix i acc m A acc1 m1
      assume a: "i \<in> set (starts S)" "I m" "marked N acc A"
        "f i (acc, m) = (acc1, m1)"
      from a(1) sub have i: "i \<le> N" by auto
      obtain ex where e: "once i m = (ex, m1)" and
        acc1: "acc1 = fold (\<lambda>e acc. if snd (BinarySearch ex e) then acc else mark e acc) (candidateEnds m (em_name m) i True) acc"
        using a(4) by (auto simp: f_def split: prod.splits)
      have ok: "I m1" "sorted ex" "set ex = E i" using o [OF i a(2) e] by auto
      have "acc1 = fold (\<lambda>e acc. if e \<in> E i then acc else mark e acc) (candidateEnds m0 (em_name m0) i True) acc"
        using acc1 same_match(4) [OF I(1) [OF a(2)]] I(1) [OF a(2)] ok by (simp add: BinarySearch_found same_def)
      moreover have "fold (\<lambda>e acc. if e \<in> E i then acc else mark e acc) xs acc = fold mark (filter (\<lambda>e. e \<notin> E i) xs) acc" for xs
        by (induction xs arbitrary: acc) auto
      moreover have "set (filter (\<lambda>e. e \<notin> E i) (candidateEnds m0 (em_name m0) i True)) = group_means op m0 E i"
        using candidateEnds_any_many [of i m0] i S(2) neg by (auto simp: group_means_def)
      moreover have "group_means op m0 E i \<subseteq> {..N}"
        using neg any_many_bounds [of _ m0 i] i S(2) by (auto simp: group_means_def)
      ultimately show "I m1 \<and> marked N acc1 (A \<union> group_means op m0 E i)"
        using marked_fold [OF a(3), of "filter (\<lambda>e. e \<notin> E i) (candidateEnds m0 (em_name m0) i True)"] ok by simp
    qed
    then show ?thesis by simp
  next
    case none
    with run acc I(2) show ?thesis by (auto simp: runGroup_def group_means_def)
  qed
qed

text \<open>
  The numbers of sequences: \<open>subs\<close> lists the numbered sequences inside a token list. A table
  \<open>K\<close> from numbers to token lists fits a pattern when every sequence in it has its entry.
\<close>

function subs :: "'rx extToken list \<Rightarrow> (nat \<times> 'rx extToken list) list"
  and token_subs :: "'rx extToken \<Rightarrow> (nat \<times> 'rx extToken list) list"
  and alts_subs :: "'rx extSeq list \<Rightarrow> (nat \<times> 'rx extToken list) list" where
  "subs [] = []"
| "subs (tok # toks) = token_subs tok @ subs toks"
| "token_subs tok = (case tok of extGroup op alts \<Rightarrow> alts_subs alts | _ \<Rightarrow> [])"
| "alts_subs [] = []"
| "alts_subs (alt # alts) = (seq_id alt, seq_tokens alt) # subs (seq_tokens alt) @ alts_subs alts"
  by pat_completeness auto
termination
proof (relation "measure (\<lambda>x. case x of Inl toks \<Rightarrow> size_list size toks | Inr (Inl tok) \<Rightarrow> size tok
     | Inr (Inr alts) \<Rightarrow> size_list size alts)", goal_cases)
  case (5 alt alts)
  then show ?case by (cases alt) auto
qed auto

declare token_subs.simps [simp del]

definition fits :: "(nat \<Rightarrow> 'rx extToken list option) \<Rightarrow> (nat \<times> 'rx extToken list) list \<Rightarrow> bool" where
  "fits K ps \<longleftrightarrow> (\<forall>(k, ts) \<in> set ps. K k = Some ts)"

lemma fits_simps [simp]:
  "fits K []" "fits K (p # ps) \<longleftrightarrow> K (fst p) = Some (snd p) \<and> fits K ps" "fits K (ps @ qs) \<longleftrightarrow> fits K ps \<and> fits K qs"
  by (auto simp: fits_def)

definition memo_ok ::
  "'rx text_lib \<Rightarrow> (nat \<Rightarrow> 'rx extToken list option) \<Rightarrow> extMatcher \<Rightarrow> extMatcher \<Rightarrow> bool" where
  "memo_ok L K m0 m \<longleftrightarrow> same m0 m \<and>
     (\<forall>k start out ts. em_memo m (k, start) = Some out \<longrightarrow> K k = Some ts \<longrightarrow> start \<le> length (em_name m0) \<longrightarrow>
        sorted out \<and> set out = means L m0 ts start)"

lemma uniqSortedInts_set: "set (uniqSortedInts xs) = set xs \<and> sorted (uniqSortedInts xs)"
proof (cases "length xs < 2")
  case True
  then have "sorted xs" by (cases xs) auto
  with True show ?thesis by (simp add: uniqSortedInts_def)
next
  case False
  with Compact_sorted [of "sort xs"] show ?thesis by (simp add: uniqSortedInts_def)
qed

lemma run_plain_means:
  assumes "same m0 m" "length S = Suc N" "N = length (em_name m0)" "\<nexists>op alts. tok = extGroup op alts"
  shows "marked N (run_plain L tok S m (replicate (length S) False, False)) (\<Union>i \<in> pos S. token_means L m0 tok i)"
proof -
  have n: "em_name m = em_name m0" using assms(1) by (simp add: same_def)
  have sub: "set (starts S) \<subseteq> {..N}" using assms(2) by (auto simp: pos_def)
  have b: "set_option x \<subseteq> {..N}" if "\<And>j. x = Some j \<Longrightarrow> j \<le> N" for x using that by (cases x) auto
  have rp: "run_plain L t S m = run_plain L t S m0" for t
    by (intro ext) (unfold run_plain_def same_match [OF assms(1)] n, rule refl)
  show ?thesis
  proof (cases tok)
    case (extLiteral lit)
    have "marked N (fold (\<lambda>i. mark_opt (matchLiteral L m0 lit (em_name m0) i)) (starts S) (replicate (Suc N) False, False))
        ({} \<union> (\<Union>i \<in> set (starts S). set_option (matchLiteral L m0 lit (em_name m0) i)))"
      by (rule marked_fold_opt [OF marked_init]) (rule b, auto dest: matchLiteral_bounds simp: assms(3))
    then show ?thesis using extLiteral assms(2) by (simp add: rp run_plain_def token_means.simps plain_means_def del: replicate_Suc)
  next
    case extAnyOne
    have "marked N (fold (\<lambda>i. mark_opt (matchSingle m0 (em_name m0) i True)) (starts S) (replicate (Suc N) False, False))
        ({} \<union> (\<Union>i \<in> set (starts S). set_option (matchSingle m0 (em_name m0) i True)))"
      by (rule marked_fold_opt [OF marked_init]) (rule b, auto dest: matchSingle_bounds simp: assms(3))
    then show ?thesis using extAnyOne assms(2) by (simp add: rp run_plain_def token_means.simps plain_means_def del: replicate_Suc)
  next
    case (extCharClass cls)
    have "marked N (fold (\<lambda>i. mark_opt (matchCharClass L m0 cls (em_name m0) i)) (starts S) (replicate (Suc N) False, False))
        ({} \<union> (\<Union>i \<in> set (starts S). set_option (matchCharClass L m0 cls (em_name m0) i)))"
      by (rule marked_fold_opt [OF marked_init]) (rule b, auto dest: matchCharClass_bounds simp: assms(3))
    then show ?thesis using extCharClass assms(2) by (simp add: rp run_plain_def token_means.simps plain_means_def del: replicate_Suc)
  next
    case extAnyMany
    have "marked N (fold (\<lambda>ni acc. if fst acc ! ni then acc else fold mark (candidateEnds m0 (em_name m0) ni True) acc)
        (starts S) (replicate (Suc N) False, False)) ({} \<union> (\<Union>i \<in> set (starts S). any_many m0 i))"
      by (rule marked_fold_many [OF marked_init sub assms(3)]) simp
    then show ?thesis using extAnyMany assms(2) by (simp add: rp run_plain_def token_means.simps plain_means_def del: replicate_Suc)
  qed (use assms(4) in simp)
qed

definition run_ok where
  "run_ok L K m0 S toks r \<longleftrightarrow> (case r of (S', m') \<Rightarrow>
     memo_ok L K m0 m' \<and> length S' = length S \<and> pos S' = (\<Union>i \<in> pos S. means L m0 toks i))"

definition ends_ok where
  "ends_ok L K m0 A r \<longleftrightarrow> (case r of (ends, m') \<Rightarrow> memo_ok L K m0 m' \<and> sorted ends \<and> set ends = A)"

lemma run_means:
  "fits K (subs toks) \<Longrightarrow> memo_ok L K m0 m \<Longrightarrow> length S = Suc (length (em_name m0)) \<Longrightarrow>
     run_ok L K m0 S toks (run L toks S m)"
  "fits K (token_subs tok) \<Longrightarrow> memo_ok L K m0 m \<Longrightarrow> length S = Suc (length (em_name m0)) \<Longrightarrow>
     (case run_token L tok S m of (acc, m') \<Rightarrow> memo_ok L K m0 m' \<and>
        marked (length (em_name m0)) acc (\<Union>i \<in> pos S. token_means L m0 tok i))"
  "fits K (alts_subs alts) \<Longrightarrow> memo_ok L K m0 m \<Longrightarrow> start \<le> length (em_name m0) \<Longrightarrow>
     ends_ok L K m0 (alts_means L m0 alts start) (groupOnce L alts start m)"
  "fits K (alts_subs alts) \<Longrightarrow> memo_ok L K m0 m \<Longrightarrow> start \<le> length (em_name m0) \<Longrightarrow>
     (case alts_ends L alts start m of (out, m') \<Rightarrow> memo_ok L K m0 m' \<and> set out = alts_means L m0 alts start)"
  "fits K (alts_subs [alt]) \<Longrightarrow> memo_ok L K m0 m \<Longrightarrow> start \<le> length (em_name m0) \<Longrightarrow>
     ends_ok L K m0 (means L m0 (seq_tokens alt) start) (seqEnds L alt start m)"
proof (induction L toks S m and L tok S m and L alts start m and L alts start m and L alt start m
    rule: run_run_token_groupOnce_alts_ends_seqEnds.induct)
  case (1 L S m)
  then show ?case by (simp add: run_ok_def)
next
  case (2 L tok toks S m)
  obtain nxt sm m1 where r: "run_token L tok S m = ((nxt, sm), m1)" by (metis prod.exhaust)
  from "2.IH"(1) "2.prems" r have t: "memo_ok L K m0 m1" "marked (length (em_name m0)) (nxt, sm) (\<Union>i \<in> pos S. token_means L m0 tok i)"
    by auto
  have means: "(\<Union>i \<in> pos S. means L m0 (tok # toks) i) = (\<Union>j \<in> pos nxt. means L m0 toks j)"
    using t(2) by (auto simp: marked_def then_means_def)
  show ?case
  proof (cases sm)
    case False
    with t(2) have "pos nxt = {}" by (auto simp: marked_def)
    with means False r t "2.prems"(3) show ?thesis by (auto simp: run_ok_def marked_def)
  next
    case True
    have "run_ok L K m0 nxt toks (run L toks nxt m1)"
      using "2.IH"(2) [OF r [symmetric] refl] True "2.prems" t by (simp add: marked_def)
    with means True r "2.prems"(3) t(2) show ?thesis by (auto simp: run_ok_def marked_def)
  qed
next
  case (3 L tok S m)
  show ?case
  proof (cases "\<exists>op alts. tok = extGroup op alts")
    case True
    then obtain op alts where t: "tok = extGroup op alts" by blast
    have sub: "\<forall>i \<le> length (em_name m0). alts_means L m0 alts i \<subseteq> {..length (em_name m0)}"
      using means_bounds(3) [of _ L m0 alts] by blast
    have once: "once_ok m0 (memo_ok L K m0) (groupOnce L alts) (alts_means L m0 alts)"
      unfolding once_ok_def
    proof (intro conjI sub allI impI)
      fix ni m ends m1
      assume a: "ni \<le> length (em_name m0)" "memo_ok L K m0 m" "groupOnce L alts ni m = (ends, m1)"
      have "ends_ok L K m0 (alts_means L m0 alts ni) (groupOnce L alts ni m)"
        using "3.IH" [OF t] "3.prems"(1) a(1,2) t by (simp add: token_subs.simps)
      then show "memo_ok L K m0 m1" "sorted ends" "set ends = alts_means L m0 alts ni"
        using a(3) by (simp_all add: ends_ok_def)
    qed
    obtain acc' m' where g: "runGroup op (groupOnce L alts) S (replicate (length S) False, False) m = (acc', m')"
      by (rule prod.exhaust)
    have "memo_ok L K m0 m' \<and> marked (length (em_name m0)) acc' (\<Union>i \<in> pos S. group_means op m0 (alts_means L m0 alts) i)"
      by (rule runGroup_means [OF once _ "3.prems"(2,3) refl _ g])
        (use "3.prems"(3) in \<open>simp_all add: memo_ok_def marked_init del: replicate_Suc\<close>)
    with g t show ?thesis by (simp add: run_token.simps token_means.simps)
  next
    case False
    then have "run_token L tok S m = (run_plain L tok S m (replicate (length S) False, False), m)"
      by (cases tok) (auto simp: run_token.simps)
    with run_plain_means [OF _ "3.prems"(3) refl False, of m L] "3.prems"(2) show ?thesis by (simp add: memo_ok_def)
  qed
next
  case (4 L alts start m)
  show ?case
  proof (cases "length alts = 1")
    case True
    then obtain alt where "alts = [alt]" by (auto simp: length_Suc_conv)
    with "4.IH"(1) [OF True] "4.prems" show ?thesis by (simp add: groupOnce.simps)
  next
    case False
    obtain out m1 where "alts_ends L alts start m = (out, m1)" by (rule prod.exhaust)
    with "4.IH"(2) [OF False] "4.prems" False show ?thesis
      by (simp add: groupOnce.simps ends_ok_def uniqSortedInts_set)
  qed
next
  case (6 L alt alts start m)
  obtain out m1 where s: "seqEnds L alt start m = (out, m1)" by (rule prod.exhaust)
  obtain outs m2 where r: "alts_ends L alts start m1 = (outs, m2)" by (rule prod.exhaust)
  from "6.IH"(1) "6.prems" s have o: "memo_ok L K m0 m1" "set out = means L m0 (seq_tokens alt) start"
    by (auto simp: ends_ok_def)
  from "6.IH"(2) [OF s [symmetric]] "6.prems" o r have "memo_ok L K m0 m2" "set outs = alts_means L m0 alts start"
    by auto
  with s r o show ?case by simp
next
  case (7 L k toks start m)
  have sm: "em_name m = em_name m0" using "7.prems"(2) by (simp add: memo_ok_def same_def)
  show ?case
  proof (cases "em_memo m (k, start)")
    case (Some cached)
    with "7.prems" show ?thesis by (simp add: seqEnds.simps ends_ok_def memo_ok_def)
  next
    case None
    define S0 where "S0 = (replicate (Suc (length (em_name m))) False)[start := True]"
    have S0: "length S0 = Suc (length (em_name m0))" "pos S0 = {start}"
      using "7.prems"(3) sm by (simp_all add: S0_def pos_update del: replicate_Suc)
    obtain S1 m1 where r: "run L toks S0 m = (S1, m1)" by (rule prod.exhaust)
    with "7.IH" [OF None] "7.prems" S0 have
      ok: "memo_ok L K m0 m1" "pos S1 = means L m0 toks start" by (auto simp: S0_def run_ok_def)
    have "seqEnds L (ExtSeq k toks) start m = (starts S1, m1\<lparr>em_memo := (em_memo m1)((k, start) \<mapsto> starts S1)\<rparr>)"
      using None r by (simp add: seqEnds.simps S0_def Let_def)
    moreover have "memo_ok L K m0 (m1\<lparr>em_memo := (em_memo m1)((k, start) \<mapsto> starts S1)\<rparr>)"
      using ok "7.prems"(1) by (auto simp: memo_ok_def same_def sorted_starts)
    ultimately show ?thesis using ok(2) by (simp add: ends_ok_def sorted_starts)
  qed
qed auto

end
