(* ===== verification/Pattern_Props.thy ===== *)
theory Pattern_Props
  imports Pattern_Match
begin

text \<open>
  The properties of shell patterns: the parser numbers the sequences of a pattern apart, so
  the memo table of the matcher is sound and the matcher computes the meaning of the parsed
  pattern; a quoted text is a pattern for that text alone; a pattern without unescaped
  metacharacters matches one text at most.
\<close>

section \<open>Numbering\<close>

lemma subs_append [simp]: "subs (xs @ ys) = subs xs @ subs ys"
  by (induction xs) auto

lemma alts_subs_append [simp]: "alts_subs (xs @ ys) = alts_subs xs @ alts_subs ys"
  by (induction xs) auto

lemma subs_flushLit [simp]: "subs (flushLit lit toks) = subs toks"
  by (simp add: flushLit_def token_subs.simps)







lemma fits_map_of: "distinct (map fst ps) \<Longrightarrow> fits (map_of ps) ps"
  by (auto simp: fits_def)


lemma matches_means:
  assumes "distinct (map fst (subs (seq_tokens root)))"
  shows "matches L root (newExtMatcher mode name) \<longleftrightarrow>
     length name \<in> means L (newExtMatcher mode name) (seq_tokens root) 0"
proof -
  define m where "m = newExtMatcher mode name"
  define S where "S = (replicate (Suc (length name)) False)[0 := True]"
  have m: "em_name m = name" "memo_ok L (map_of (subs (seq_tokens root))) m m"
    by (simp_all add: m_def newExtMatcher_def memo_ok_def same_def)
  have S: "length S = Suc (length name)" "pos S = {0}"
    by (simp_all add: S_def pos_update del: replicate_Suc list_update.simps list_update_code)
  obtain S1 m1 where r: "run L (seq_tokens root) S m = (S1, m1)" by (rule prod.exhaust)
  with run_means(1) [OF fits_map_of [OF assms] m(2), of S] S m(1)
  have "length S1 = Suc (length name)" "pos S1 = means L m (seq_tokens root) 0"
    by (auto simp: run_ok_def)
  moreover have "matches L root m \<longleftrightarrow> S1 ! length name"
    using r m(1) by (simp add: matches_def S_def del: replicate_Suc list_update.simps list_update_code)
  ultimately show ?thesis by (auto simp: m_def pos_def)
qed


definition no_rx :: "unit text_lib" where
  "no_rx = \<lparr>rx_Compile = (\<lambda>_. Inr ()), rx_MatchString = (\<lambda>_ _. False), EqualFold = (=)\<rparr>"





section \<open>Quoting\<close>





lemma plain_literal:
  "s \<noteq> [] \<Longrightarrow> hd s \<notin> {CHR 0x5C, CHR ''*'', CHR ''?'', CHR ''[''} \<Longrightarrow>
     plain_token L mode s = Inr (Inl (take (rune_size s) s), drop (rune_size s) s)"
  by (auto simp: plain_token_def Let_def)








lemma match_one_literal:
  assumes "\<not> has mode NoGlobCase"
  shows "matches L (ExtSeq k (flushLit s [])) (newExtMatcher mode name) \<longleftrightarrow> name = s"
proof -
  have "matches L (ExtSeq k (flushLit s [])) (newExtMatcher mode name) \<longleftrightarrow>
    length name \<in> means L (newExtMatcher mode name) (flushLit s []) 0"
    using matches_means [of "ExtSeq k (flushLit s [])" L mode name] by simp
  also have "\<dots> \<longleftrightarrow> name = s"
  proof (cases "s = []")
    case True
    then show ?thesis by (simp add: flushLit_def)
  next
    case False
    have "length name \<in> means L (newExtMatcher mode name) (flushLit s []) 0 \<longleftrightarrow>
      matchLiteral L (newExtMatcher mode name) s name 0 = Some (length name)"
      using False by (simp add: flushLit_def then_means_def token_means.simps plain_means_def newExtMatcher_def)
    also have "\<dots> \<longleftrightarrow> length s = length name \<and> take (length s) name = s"
      using assms by (auto simp: matchLiteral_def newExtMatcher_def Let_def)
    finally show ?thesis by auto
  qed
  finally show ?thesis .
qed




text \<open>Outside valid UTF-8 the quoted text is another one.\<close>

lemma QuoteMeta_invalid_byte:
  "QuoteMeta [CHR 0xFF, CHR ''*''] 0 = [CHR 0xEF, CHR 0xBF, CHR 0xBD, CHR 0x5C, CHR ''*'']"
  by code_simp

section \<open>Patterns without metacharacters\<close>

lemma HasMeta_high: "(\<And>c. c \<in> set (take k s) \<Longrightarrow> 0x80 \<le> byte c) \<Longrightarrow> HasMeta s mode = HasMeta (drop k s) mode"
proof (induction k arbitrary: s)
  case (Suc k)
  show ?case
  proof (cases s)
    case (Cons c cs)
    with Suc.prems have "0x80 \<le> byte c" "\<And>c. c \<in> set (take k cs) \<Longrightarrow> 0x80 \<le> byte c" by auto
    moreover from this(1) have "c \<notin> {CHR 0x5C, CHR ''*'', CHR ''?'', CHR ''['', CHR ''@'', CHR ''!'', CHR ''+''}" by auto
    ultimately show ?thesis using Suc.IH [of cs] Cons by auto
  qed simp
qed simp

lemma HasMeta_rune:
  assumes "\<not> HasMeta s mode" "s \<noteq> []" "hd s \<noteq> CHR 0x5C"
  shows "\<not> HasMeta (drop (rune_size s) s) mode"
proof (cases "rune_size s = 1")
  case True
  with assms show ?thesis by (cases s) (auto split: if_splits)
next
  case False
  with assms(1) HasMeta_high [of "rune_size s" s mode] rune_high_bytes [of _ s] show ?thesis by blast
qed

lemma HasMeta_escaped:
  assumes "\<not> HasMeta (CHR 0x5C # cs) mode" "cs \<noteq> []"
  shows "\<not> HasMeta (drop (rune_size cs) cs) mode"
proof (cases "rune_size cs = 1")
  case True
  with assms show ?thesis by (cases cs) auto
next
  case False
  obtain c ds where cs: "cs = c # ds" using assms(2) by (cases cs) auto
  obtain k where k: "rune_size cs = Suc k" using rune_size_pos [OF assms(2)] by (cases "rune_size cs") auto
  have "HasMeta ds mode = HasMeta (drop k ds) mode"
    using rune_high_bytes [of _ cs] False cs k by (intro HasMeta_high) auto
  with assms(1) cs k show ?thesis by simp
qed

lemma no_meta_opens: "\<not> HasMeta s mode \<Longrightarrow> \<not> opens_group mode s"
  by (cases s; cases "tl s") (auto simp: opens_group_def)

lemma parse_no_meta:
  "\<not> HasMeta s mode \<Longrightarrow> parse_seq L mode '''' s lit toks n = (Inr (ts, rest), n1) \<Longrightarrow>
     \<exists>t. ts = flushLit (lit @ t) toks \<and> rest = []"
proof (induction "length s" arbitrary: s lit rule: less_induct)
  case less
  note ps = parse_seq.simps [of L mode "''''" s lit toks n]
  show ?case
  proof (cases "s = []")
    case True
    with less.prems(2) show ?thesis using ps by (auto intro: exI [of _ "[]"])
  next
    case False
    have ng: "\<not> opens_group mode s" using less.prems(1) by (rule no_meta_opens)
    have step: ?thesis if "length r < length s" "\<not> HasMeta r mode" "plain_token L mode s = Inr (Inl t, r)" for r t
      using less.hyps [OF that(1,2), of "lit @ t"] less.prems(2) that(3) False ng by (auto simp: ps)
    show ?thesis
    proof (cases "hd s = CHR 0x5C")
      case True
      show ?thesis
      proof (cases "tl s = []")
        case nil: True
        then have "plain_token L mode s = Inl (SyntaxError (CHR 0x5C # '' at end of pattern''))"
          using True by (simp add: plain_token_def)
        with less.prems(2) False ng show ?thesis by (simp add: ps)
      next
        case ne: False
        have s: "s = CHR 0x5C # tl s" using True False by (cases s) auto
        have "\<not> HasMeta (drop (rune_size (tl s)) (tl s)) mode"
          using less.prems(1) s HasMeta_escaped [of "tl s" mode] ne by metis
        moreover have "length (drop (rune_size (tl s)) (tl s)) < length s" using False by (cases s) auto
        moreover have "plain_token L mode s = Inr (Inl (take (rune_size (tl s)) (tl s)), drop (rune_size (tl s)) (tl s))"
          using True ne by (simp add: plain_token_def Let_def)
        ultimately show ?thesis by (intro step)
      qed
    next
      case other: False
      have "hd s \<notin> {CHR 0x5C, CHR ''*'', CHR ''?'', CHR ''[''}"
        using less.prems(1) other False by (cases s) (auto split: if_splits)
      then have "plain_token L mode s = Inr (Inl (take (rune_size s) s), drop (rune_size s) s)"
        using False by (intro plain_literal)
      moreover have "length (drop (rune_size s) s) < length s" using rune_size_pos [OF False] False by simp
      ultimately show ?thesis using HasMeta_rune [OF less.prems(1) False other] by (intro step)
    qed
  qed
qed

text \<open>
  A pattern without unescaped metacharacters matches one text at most: where \<open>HasMeta\<close>
  answers false and the pattern parses, there is a text such that, in a case-sensitive mode,
  the pattern matches it and nothing else.
\<close>

theorem no_meta_matches_one:
  assumes "\<not> HasMeta pat mode" "parseExtPattern L pat mode = Inr root" "\<not> has mode NoGlobCase"
  shows "\<exists>w. \<forall>name. matches L root (newExtMatcher mode name) \<longleftrightarrow> name = w"
proof -
  obtain r n1 where r: "parse_seq L mode '''' pat [] [] 2 = (r, n1)" by (rule prod.exhaust)
  with assms(2) obtain toks where t: "r = Inr (toks, [])" "root = ExtSeq 1 toks"
    by (auto simp: parseExtPattern_def split: sum.splits if_splits)
  from parse_no_meta [OF assms(1), of L "[]" "[]" 2 toks "[]" n1] r t obtain w where "toks = flushLit w []" by auto
  with t match_one_literal [OF assms(3)] show ?thesis by blast
qed

theorem no_meta_matches_one_witness:
  "\<exists>w. \<forall>name. matches no_rx (ExtSeq 1 [extLiteral ''a*'']) (newExtMatcher 0 name) \<longleftrightarrow> name = w"
proof -
  have "\<not> HasMeta (''a'' @ [CHR 0x5C] @ ''*'') 0" "\<not> has 0 NoGlobCase"
    "parseExtPattern no_rx (''a'' @ [CHR 0x5C] @ ''*'') 0 = Inr (ExtSeq 1 [extLiteral ''a*''])" by code_simp+
  then show ?thesis by (intro no_meta_matches_one)
qed

section \<open>A repetition that matches nothing\<close>

text \<open>
  The regular expression that \<open>+(|a)\<close> is translated to matches the empty name, as does one
  repetition \<open>@(|a)\<close> in this matcher. Here the work list skips an end at its own start, so the
  matcher, which is used as soon as the pattern holds a negated group, refuses it.
\<close>

lemma plus_group_misses_empty:
  "(case parseExtPattern no_rx ''+(|a)'' 68 of Inl _ \<Rightarrow> True | Inr root \<Rightarrow> matches no_rx root (newExtMatcher 68 '''')) = False"
  "(case parseExtPattern no_rx ''@(|a)'' 68 of Inl _ \<Rightarrow> False | Inr root \<Rightarrow> matches no_rx root (newExtMatcher 68 '''')) = True"
  by code_simp+

end
