(* ===== verification/Braces.thy ===== *)
theory Braces
  imports GoText
begin

text \<open>
  Brace expansion: the parser's split of a word into literals and brace expressions
  (\<open>shell/syntax/braces.go\<close>) and the expansion of the resulting word
  (\<open>shell/expand/braces.go\<close>). The other kinds of word parts are opaque here: they are values
  of a type \<open>'p\<close>. The printer of the syntax package is the argument \<open>print\<close>. An index out of
  range, which panics in Go, is the error \<open>Panic\<close>.
\<close>

section \<open>Word parts\<close>

record Pos =
  offs :: "32 word"
  lineCol :: "32 word"

definition pos_IsValid :: "Pos \<Rightarrow> bool" where
  "pos_IsValid p = (offs p \<le> 0xFFFFFFF4 \<and> lineCol p \<noteq> 0)"

definition posAddCol :: "Pos \<Rightarrow> nat \<Rightarrow> Pos" where
  "posAddCol p n = (if \<not> pos_IsValid p then p else p\<lparr>lineCol := lineCol p + of_nat n, offs := offs p + of_nat n\<rparr>)"

record Lit =
  ValuePos :: Pos
  ValueEnd :: Pos
  Value :: string

definition no_pos :: Pos where "no_pos = \<lparr>offs = 0, lineCol = 0\<rparr>"

datatype 'p part =
    PLit Lit
  | PBrace bool "'p part list list"
  | POther 'p

text \<open>The method \<open>Lit\<close> of a word: its literal text, empty if some part is no literal.\<close>

fun lit_values :: "'p part list \<Rightarrow> string list option" where
  "lit_values [] = Some []"
| "lit_values (PLit l # ps) = map_option (\<lambda>vs. Value l # vs) (lit_values ps)"
| "lit_values (_ # ps) = None"

definition word_Lit :: "'p part list \<Rightarrow> string" where
  "word_Lit ps = (case lit_values ps of Some vs \<Rightarrow> concat vs | None \<Rightarrow> '''')"

section \<open>Numbers\<close>

text \<open>\<open>strconv.Atoi\<close> and \<open>Itoa\<close> for 64-bit integers.\<close>

definition digit :: "char \<Rightarrow> int option" where
  "digit c = (if between (CHR ''0'') (CHR ''9'') c then Some (of_char c - 48) else None)"

definition digits_value :: "string \<Rightarrow> int option" where
  "digits_value s =
     (if s \<noteq> [] \<and> list_all (\<lambda>c. digit c \<noteq> None) s then Some (fold (\<lambda>c n. 10 * n + the (digit c)) s 0) else None)"

definition Atoi :: "string \<Rightarrow> int option" where
  "Atoi s =
     (case (if HasPrefix s ''-'' then map_option uminus (digits_value (tl s))
            else if HasPrefix s ''+'' then digits_value (tl s) else digits_value s) of
        None \<Rightarrow> None
      | Some n \<Rightarrow> if - (2 ^ 63) \<le> n \<and> n < 2 ^ 63 then Some n else None)"

function nat_digits :: "int \<Rightarrow> string" where
  "nat_digits n = (if n < 10 then [char_of (48 + n)] else nat_digits (n div 10) @ [char_of (48 + n mod 10)])"
  by pat_completeness auto
termination by (relation "measure nat") auto

declare nat_digits.simps [simp del]

definition Itoa :: "int \<Rightarrow> string" where
  "Itoa n = (if n < 0 then ''-'' @ nat_digits (- n) else nat_digits n)"

definition zero_padded :: "nat \<Rightarrow> int \<Rightarrow> string" where
  "zero_padded width n =
     (let ds = nat_digits (abs n); sign = (if n < 0 then ''-'' else '''')
      in sign @ replicate (width - length sign - length ds) CHR ''0'' @ ds)"

section \<open>Splitting a word\<close>

datatype braceSepKind = braceSepComma | braceSepDots

record 'p braceCandidate =
  Lbrace :: Lit
  Rbrace :: "Lit option"
  Seps :: "(braceSepKind \<times> Lit) list"
  Elems :: "'p part list list"

text \<open>
  The state of the split: the parts at the top, and the open candidates, innermost first. The
  accumulator of the source is the last element of the innermost candidate, or the top.
\<close>

record 'p split_state =
  top_parts :: "'p part list"
  open_cands :: "'p braceCandidate list"

definition acc_parts :: "'p split_state \<Rightarrow> 'p part list" where
  "acc_parts st = (case open_cands st of [] \<Rightarrow> top_parts st | c # _ \<Rightarrow> last (Elems c))"

definition set_acc :: "'p part list \<Rightarrow> 'p split_state \<Rightarrow> 'p split_state" where
  "set_acc ps st =
     (case open_cands st of
        [] \<Rightarrow> st\<lparr>top_parts := ps\<rparr>
      | c # cs \<Rightarrow> st\<lparr>open_cands := c\<lparr>Elems := butlast (Elems c) @ [ps]\<rparr> # cs\<rparr>)"

definition merges :: "Lit \<Rightarrow> Lit \<Rightarrow> bool" where
  "merges prev lit = (pos_IsValid (ValueEnd prev) \<and> pos_IsValid (ValuePos lit) \<and> ValueEnd prev = ValuePos lit)"

definition append_lit :: "Lit \<Rightarrow> 'p part list \<Rightarrow> 'p part list" where
  "append_lit lit ps =
     (case (if ps = [] then None else Some (last ps)) of
        Some (PLit prev) \<Rightarrow>
          if merges prev lit
          then butlast ps @ [PLit (prev\<lparr>Value := Value prev @ Value lit, ValueEnd := ValueEnd lit\<rparr>)]
          else ps @ [PLit lit]
      | _ \<Rightarrow> ps @ [PLit lit])"

definition addLit :: "Lit option \<Rightarrow> 'p split_state \<Rightarrow> 'p split_state" where
  "addLit lit st = (case lit of None \<Rightarrow> st | Some l \<Rightarrow> set_acc (append_lit l (acc_parts st)) st)"

definition addPart :: "'p part \<Rightarrow> 'p split_state \<Rightarrow> 'p split_state" where
  "addPart p st = (case p of PLit l \<Rightarrow> addLit (Some l) st | _ \<Rightarrow> set_acc (acc_parts st @ [p]) st)"

definition splitLit :: "Lit \<Rightarrow> nat \<Rightarrow> nat \<Rightarrow> Lit option" where
  "splitLit lit start fin =
     (if fin \<le> start then None
      else Some \<lparr>ValuePos = posAddCol (ValuePos lit) start, ValueEnd = posAddCol (ValuePos lit) fin,
        Value = take (fin - start) (drop start (Value lit))\<rparr>)"

fun add_elems :: "(braceSepKind \<times> Lit) list \<Rightarrow> 'p part list list \<Rightarrow> 'p split_state \<Rightarrow> 'p split_state" where
  "add_elems seps [] st = st"
| "add_elems seps [e] st = fold addPart e st"
| "add_elems (sep # seps) (e # es) st = add_elems seps es (addLit (Some (snd sep)) (fold addPart e st))"
| "add_elems [] (e # es) st = fold addPart e st"

definition addCandidateLiteral :: "'p braceCandidate \<Rightarrow> 'p split_state \<Rightarrow> 'p split_state" where
  "addCandidateLiteral br st = addLit (Rbrace br) (add_elems (Seps br) (Elems br) (addLit (Some (Lbrace br)) st))"

fun comma_elems :: "'p part list list \<Rightarrow> (braceSepKind \<times> Lit) list \<Rightarrow> 'p part list list \<Rightarrow> 'p part list list" where
  "comma_elems done ((braceSepComma, _) # seps) (e # es) = comma_elems (done @ [e]) seps es"
| "comma_elems done ((braceSepDots, lit) # seps) (e # es) =
     comma_elems (butlast done @ [last done @ PLit lit # e]) seps es"
| "comma_elems done _ _ = done"

definition braceCommaElems :: "'p braceCandidate \<Rightarrow> 'p part list list" where
  "braceCommaElems br = comma_elems [hd (Elems br)] (Seps br) (tl (Elems br))"

definition asciiLetter :: "char \<Rightarrow> bool" where
  "asciiLetter c = (between (CHR ''a'') (CHR ''z'') c \<or> between (CHR ''A'') (CHR ''Z'') c)"

text \<open>The kind of a sequence bound: a number, a letter, or neither.\<close>

definition seq_bound :: "string \<Rightarrow> bool option" where
  "seq_bound v =
     (if Atoi v \<noteq> None then Some False else if length v = 1 \<and> asciiLetter (hd v) then Some True else None)"

definition validBraceSequence :: "'p part list list \<Rightarrow> bool" where
  "validBraceSequence elems =
     (if length elems \<noteq> 2 \<and> length elems \<noteq> 3 then False
      else (case (seq_bound (word_Lit (elems ! 0)), seq_bound (word_Lit (elems ! 1))) of
              (Some a, Some b) \<Rightarrow> a = b \<and> (length elems = 3 \<longrightarrow> Atoi (word_Lit (elems ! 2)) \<noteq> None)
            | _ \<Rightarrow> False))"

definition braceCandidateNode :: "'p braceCandidate \<Rightarrow> 'p part option" where
  "braceCandidateNode br =
     (if Rbrace br = None \<or> length (Elems br) \<le> 1 then None
      else if list_ex (\<lambda>sep. fst sep = braceSepComma) (Seps br) then Some (PBrace False (braceCommaElems br))
      else if \<not> validBraceSequence (Elems br) then None
      else Some (PBrace True (Elems br)))"

definition closeBrace :: "'p braceCandidate \<Rightarrow> 'p split_state \<Rightarrow> 'p split_state" where
  "closeBrace br st = (case braceCandidateNode br of Some e \<Rightarrow> addPart e st | None \<Rightarrow> addCandidateLiteral br st)"

definition open_brace :: "Lit \<Rightarrow> 'p split_state \<Rightarrow> 'p split_state" where
  "open_brace l st = st\<lparr>open_cands := \<lparr>Lbrace = l, Rbrace = None, Seps = [], Elems = [[]]\<rparr> # open_cands st\<rparr>"

definition add_sep :: "braceSepKind \<Rightarrow> Lit \<Rightarrow> 'p split_state \<Rightarrow> 'p split_state" where
  "add_sep k l st =
     (case open_cands st of
        [] \<Rightarrow> st
      | c # cs \<Rightarrow> st\<lparr>open_cands := c\<lparr>Seps := Seps c @ [(k, l)], Elems := Elems c @ [[]]\<rparr> # cs\<rparr>)"

definition close_top :: "Lit \<Rightarrow> 'p split_state \<Rightarrow> 'p split_state" where
  "close_top l st =
     (case open_cands st of
        [] \<Rightarrow> st
      | c # cs \<Rightarrow> closeBrace (c\<lparr>Rbrace := Some l\<rparr>) (st\<lparr>open_cands := cs\<rparr>))"

text \<open>The loop over the bytes of a literal: \<open>j\<close> is the index, \<open>pend\<close> the start of what is pending.\<close>

function lit_loop :: "Lit \<Rightarrow> nat \<Rightarrow> nat \<Rightarrow> 'p split_state \<Rightarrow> nat \<times> 'p split_state" where
  "lit_loop lit j pend st =
     (if length (Value lit) \<le> j then (pend, st)
      else
        let c = Value lit ! j; st1 = addLit (splitLit lit pend j) st
        in if c = CHR ''{'' then lit_loop lit (j + 1) (j + 1) (open_brace (the (splitLit lit j (j + 1))) st1)
           else if c = CHR '','' \<and> open_cands st \<noteq> []
           then lit_loop lit (j + 1) (j + 1) (add_sep braceSepComma (the (splitLit lit j (j + 1))) st1)
           else if c = CHR ''.'' \<and> open_cands st \<noteq> [] \<and> j + 1 < length (Value lit) \<and> Value lit ! (j + 1) = CHR ''.''
           then lit_loop lit (j + 2) (j + 2) (add_sep braceSepDots (the (splitLit lit j (j + 2))) st1)
           else if c = CHR ''}'' \<and> open_cands st \<noteq> []
           then lit_loop lit (j + 1) (j + 1) (close_top (the (splitLit lit j (j + 1))) st1)
           else lit_loop lit (j + 1) pend st)"
  by pat_completeness auto
termination by (relation "measure (\<lambda>(lit, j, pend, st). length (Value lit) - j)") auto

declare lit_loop.simps [simp del]

definition split_part :: "'p part \<Rightarrow> 'p split_state \<Rightarrow> 'p split_state" where
  "split_part wp st =
     (case wp of
        PLit lit \<Rightarrow>
          (case lit_loop lit 0 0 st of
             (pend, st1) \<Rightarrow>
               if pend = 0 then addPart (PLit lit) st1 else addLit (splitLit lit pend (length (Value lit))) st1)
      | _ \<Rightarrow> addPart wp st)"

lemma open_set_acc [simp]: "length (open_cands (set_acc ps st)) = length (open_cands st)"
  by (simp add: set_acc_def split: list.splits)

lemma open_addLit [simp]: "length (open_cands (addLit l st)) = length (open_cands st)"
  by (simp add: addLit_def split: option.splits)

lemma open_addPart [simp]: "length (open_cands (addPart p st)) = length (open_cands st)"
  by (simp add: addPart_def split: part.splits)

lemma open_fold_addPart [simp]: "length (open_cands (fold addPart ps st)) = length (open_cands st)"
  by (induction ps arbitrary: st) auto

lemma open_add_elems [simp]: "length (open_cands (add_elems seps es st)) = length (open_cands st)"
  by (induction seps es st rule: add_elems.induct) auto

lemma open_addCandidateLiteral [simp]: "length (open_cands (addCandidateLiteral c st)) = length (open_cands st)"
  by (simp add: addCandidateLiteral_def)

function close_all :: "'p split_state \<Rightarrow> 'p split_state" where
  "close_all st =
     (case open_cands st of
        [] \<Rightarrow> st
      | c # cs \<Rightarrow> close_all (addCandidateLiteral c (st\<lparr>open_cands := cs\<rparr>)))"
  by pat_completeness auto

termination by (relation "measure (\<lambda>st. length (open_cands st))") auto

declare close_all.simps [simp del]

definition splitBraceWordParts :: "'p part list \<Rightarrow> 'p part list" where
  "splitBraceWordParts parts =
     (if \<not> list_ex (\<lambda>p. case p of PLit l \<Rightarrow> CHR ''{'' \<in> set (Value l) | _ \<Rightarrow> False) parts then parts
      else top_parts (close_all (fold split_part parts \<lparr>top_parts = [], open_cands = []\<rparr>)))"

section \<open>Expanding a word\<close>

datatype brace_error = BraceExpansionLimitError int | BadSubstitution string | Panic

text \<open>A budget is absent, or a limit with the number of words used.\<close>

type_synonym braceBudget = "(int \<times> int) option"

definition newBraceBudget :: "int \<Rightarrow> braceBudget" where
  "newBraceBudget limit = (if limit \<le> 0 then None else Some (limit, 0))"

definition budget_add :: "int \<Rightarrow> braceBudget \<Rightarrow> brace_error option \<times> braceBudget" where
  "budget_add n b =
     (case b of
        None \<Rightarrow> (None, None)
      | Some (limit, used) \<Rightarrow>
          (if limit < used + n then Some (BraceExpansionLimitError limit) else None, Some (limit, used + n)))"

definition asciiLower :: "char \<Rightarrow> bool" where "asciiLower b = (between (CHR ''a'') (CHR ''z'') b)"
definition asciiUpper :: "char \<Rightarrow> bool" where "asciiUpper b = (between (CHR ''A'') (CHR ''Z'') b)"

definition mixedCaseBraceRange :: "char \<Rightarrow> char \<Rightarrow> bool" where
  "mixedCaseBraceRange a b = (asciiLower a \<and> asciiUpper b \<or> asciiUpper a \<and> asciiLower b)"

definition hasLeadingZero :: "string \<Rightarrow> bool" where
  "hasLeadingZero s0 =
     (let s = (if s0 \<noteq> [] \<and> hd s0 = CHR ''-'' then tl s0 else s0) in 1 < length s \<and> hd s = CHR ''0'')"

definition formatBraceSequenceNumber :: "int \<Rightarrow> bool \<Rightarrow> nat \<Rightarrow> string" where
  "formatBraceSequenceNumber n fixedWidth targetWidth = (if \<not> fixedWidth then Itoa n else zero_padded targetWidth n)"

definition braceSequenceStep :: "string \<Rightarrow> int option" where
  "braceSequenceStep s = (case Atoi s of None \<Rightarrow> None | Some n \<Rightarrow> if n = - (2 ^ 63) then None else Some n)"

lemma unat_minus_less: "\<not> r < s \<Longrightarrow> s \<noteq> 0 \<Longrightarrow> unat (r - s) < unat r" for r s :: "'a::len word"
proof -
  assume "\<not> r < s" "s \<noteq> 0"
  then have "s \<le> r" "0 < unat s" by (auto simp: unat_gt_0)
  then show ?thesis using unat_sub [of s r] word_le_nat_alt [of s r] by simp
qed

text \<open>
  The loop over a sequence, on 64-bit words as in the source: the remaining distance is
  compared in unsigned arithmetic before a step is made. \<open>step\<close> is the absolute value of the
  increment. With a step of zero the loop of the source would not end; the steps it is called
  with are never zero.
\<close>

function seq_loop :: "bool \<Rightarrow> 64 word \<Rightarrow> 64 word \<Rightarrow> 64 word \<Rightarrow> 64 word list" where
  "seq_loop upward to step n =
     (let remaining = (if upward then to - n else n - to)
      in if remaining < step \<or> step = 0 then [n]
         else n # seq_loop upward to step (if upward then n + step else n - step))"
  by pat_completeness auto

termination
proof (relation "measure (\<lambda>(upward, to, step, n). unat (if upward then to - n else n - to))", goal_cases)
  case (2 upward to step n remaining)
  have e: "to - (n + step) = (to - n) - step" "(n - step) - to = (n - to) - step" by (simp_all add: algebra_simps)
  show ?case
  proof (cases upward)
    case True
    with 2 show ?thesis using unat_minus_less [of "to - n" step] by (simp add: e(1))
  next
    case False
    with 2 show ?thesis using unat_minus_less [of "n - to" step] by (simp add: e(2))
  qed
qed simp

declare seq_loop.simps [simp del]

definition seq_items :: "int \<Rightarrow> int \<Rightarrow> int \<Rightarrow> int list" where
  "seq_items from to step =
     map sint (seq_loop (from \<le> to) (word_of_int to) (word_of_int step) (word_of_int from))"

text \<open>The literals of a sequence expression; \<open>None\<close> where it is kept as literal text.\<close>

definition sequence_step :: "'p part list list \<Rightarrow> int option" where
  "sequence_step elems =
     (if length elems \<le> 2 then Some 1
      else (case braceSequenceStep (word_Lit (elems ! 2)) of
              None \<Rightarrow> None
            | Some n \<Rightarrow> Some (if n \<noteq> 0 then abs n else 1)))"

definition sequence_lits ::
  "('p part list \<Rightarrow> string) \<Rightarrow> 'p part list list \<Rightarrow> 'p part list \<Rightarrow> brace_error + string list option" where
  "sequence_lits print elems rest =
     (if length elems < 2 then Inl Panic
      else
        let fromLit = word_Lit (elems ! 0); toLit = word_Lit (elems ! 1);
            numbers = (case (Atoi fromLit, Atoi toLit) of (Some f, Some t) \<Rightarrow> Some (f, t) | _ \<Rightarrow> None)
        in (case numbers of
              Some (f, t) \<Rightarrow>
                let fixedWidth = (hasLeadingZero fromLit \<or> hasLeadingZero toLit);
                    targetWidth = max (length fromLit) (length toLit)
                in Inr (map_option (\<lambda>step. map (\<lambda>n. formatBraceSequenceNumber n fixedWidth targetWidth) (seq_items f t step))
                     (sequence_step elems))
            | None \<Rightarrow>
                if fromLit = '''' \<or> toLit = '''' then Inl Panic
                else if mixedCaseBraceRange (hd fromLit) (hd toLit) \<and> print rest \<noteq> '''' \<and> rest \<noteq> []
                then Inl (BadSubstitution (print rest))
                else Inr (map_option (\<lambda>step. map EncodeRune (seq_items (byte (hd fromLit)) (byte (hd toLit)) step))
                       (sequence_step elems))))"

definition new_lit :: "string \<Rightarrow> 'p part" where
  "new_lit v = PLit \<lparr>ValuePos = no_pos, ValueEnd = no_pos, Value = v\<rparr>"

text \<open>The parts before the first brace expression, the expression, and the parts after it.\<close>

fun find_brace :: "'p part list \<Rightarrow> ('p part list \<times> (bool \<times> 'p part list list) \<times> 'p part list) option" where
  "find_brace [] = None"
| "find_brace (PBrace sq elems # ps) = Some ([], (sq, elems), ps)"
| "find_brace (p # ps) = map_option (\<lambda>(l, b, r). (p # l, b, r)) (find_brace ps)"

fun part_braces :: "'p part \<Rightarrow> nat" and word_braces :: "'p part list \<Rightarrow> nat" and elems_braces :: "'p part list list \<Rightarrow> nat" where
  "part_braces (PBrace sq elems) = Suc (elems_braces elems)"
| "part_braces (PLit l) = 0"
| "part_braces (POther p) = 0"
| "word_braces [] = 0"
| "word_braces (p # ps) = part_braces p + word_braces ps"
| "elems_braces [] = 0"
| "elems_braces (e # es) = word_braces e + elems_braces es"

fun expand_each ::
  "('a \<Rightarrow> braceBudget \<Rightarrow> (brace_error + 'b list) \<times> braceBudget) \<Rightarrow> 'a list \<Rightarrow> braceBudget \<Rightarrow>
   (brace_error + 'b list) \<times> braceBudget" where
  "expand_each f [] b = (Inr [], b)"
| "expand_each f (x # xs) b =
     (case f x b of
        (Inl e, b1) \<Rightarrow> (Inl e, b1)
      | (Inr ws, b1) \<Rightarrow>
          (case expand_each f xs b1 of (Inl e, b2) \<Rightarrow> (Inl e, b2) | (Inr rest, b2) \<Rightarrow> (Inr (ws @ rest), b2)))"

lemma expand_each_cong [fundef_cong]:
  "xs = ys \<Longrightarrow> b = b' \<Longrightarrow> (\<And>x b. x \<in> set ys \<Longrightarrow> f x b = g x b) \<Longrightarrow> expand_each f xs b = expand_each g ys b'"
proof (induction xs arbitrary: ys b b')
  case (Cons x xs)
  then have "f x b = g x b" "\<And>b. expand_each f xs b = expand_each g xs b" by auto
  with Cons.prems show ?case by (auto split: sum.splits prod.splits)
qed auto

definition prepend_all :: "'p part list \<Rightarrow> (brace_error + 'p part list list) \<times> braceBudget \<Rightarrow>
   (brace_error + 'p part list list) \<times> braceBudget" where
  "prepend_all left = map_prod (map_sum id (map (\<lambda>w. left @ w))) id"

lemma find_brace_count:
  "find_brace ps = Some (l, (sq, elems), r) \<Longrightarrow> word_braces r + elems_braces elems < word_braces ps"
  by (induction ps arbitrary: l rule: find_brace.induct) auto

lemma word_braces_append [simp]: "word_braces (xs @ ys) = word_braces xs + word_braces ys"
  by (induction xs) auto

lemma elems_braces_le: "e \<in> set elems \<Longrightarrow> word_braces e \<le> elems_braces elems"
  by (induction elems) auto

function braces ::
  "('p part list \<Rightarrow> string) \<Rightarrow> 'p part list \<Rightarrow> braceBudget \<Rightarrow> (brace_error + 'p part list list) \<times> braceBudget" where
  "braces print word b =
     (case find_brace word of
        None \<Rightarrow> (case budget_add 1 b of (Some e, b1) \<Rightarrow> (Inl e, b1) | (None, b1) \<Rightarrow> (Inr [word], b1))
      | Some (left, (sq, elems), rest) \<Rightarrow>
          if sq then
            (case sequence_lits print elems rest of
               Inl e \<Rightarrow> (Inl e, b)
             | Inr None \<Rightarrow> prepend_all left (braces print (new_lit (print [PBrace sq elems]) # rest) b)
             | Inr (Some lits) \<Rightarrow> prepend_all left (expand_each (\<lambda>l b. braces print (new_lit l # rest) b) lits b))
          else prepend_all left (expand_each (\<lambda>elem b. braces print (elem @ rest) b) elems b))"
  by pat_completeness auto
termination
  by (relation "measure (\<lambda>(print, word, b). word_braces word)")
    (auto dest!: find_brace_count elems_braces_le simp: new_lit_def)

declare braces.simps [simp del]

text \<open>The budget scopes of a configuration: the outermost scope starts a new count.\<close>

record brace_config =
  MaxBraceExpansionWords :: int
  braceScopeDepth :: int
  braceScope_used :: int

definition BeginBraceExpansionScope :: "brace_config \<Rightarrow> brace_config" where
  "BeginBraceExpansionScope cfg =
     (let cfg1 = (if braceScopeDepth cfg = 0 then cfg\<lparr>braceScope_used := 0\<rparr> else cfg)
      in cfg1\<lparr>braceScopeDepth := braceScopeDepth cfg1 + 1\<rparr>)"

definition EndBraceExpansionScope :: "brace_config \<Rightarrow> brace_config" where
  "EndBraceExpansionScope cfg =
     (if 0 < braceScopeDepth cfg then cfg\<lparr>braceScopeDepth := braceScopeDepth cfg - 1\<rparr> else cfg)"

definition braceExpansionBudget :: "brace_config \<Rightarrow> braceBudget" where
  "braceExpansionBudget cfg =
     (if MaxBraceExpansionWords cfg \<le> 0 then None
      else if braceScopeDepth cfg = 0 then newBraceBudget (MaxBraceExpansionWords cfg)
      else Some (MaxBraceExpansionWords cfg, braceScope_used cfg))"

end
