(* ===== verification/Braces_Expand.thy ===== *)
theory Braces_Expand
  imports Braces
begin

text \<open>
  Expanding braces: a numeric sequence is the arithmetic progression between its bounds, with
  no wrap-around at the ends of the integers; the expansion of a word is the product of the
  alternatives of its parts, in order; a budget cuts it off exactly at its limit; and no word
  that the parser builds makes the expansion panic.
\<close>

section \<open>Sequences\<close>

abbreviation int64 :: "int \<Rightarrow> bool" where "int64 n \<equiv> - (2 ^ 63) \<le> n \<and> n < 2 ^ 63"

lemma sint_of_int64: "int64 n \<Longrightarrow> sint (word_of_int n :: 64 word) = n"
  by (simp add: sint_sbintrunc' signed_take_bit_int_eq_self)

lemma len64: "LENGTH(64) = 64"
  by simp

lemma uint_diff: "0 \<le> b - a \<Longrightarrow> b - a < 2 ^ 64 \<Longrightarrow> uint (word_of_int b - word_of_int a :: 64 word) = b - a"
proof -
  assume "0 \<le> b - a" "b - a < 2 ^ 64"
  then have "uint (word_of_int (b - a) :: 64 word) = b - a"
    by (simp only: uint_word_of_int_eq len64 take_bit_int_eq_self)
  moreover have "word_of_int b - word_of_int a = (word_of_int (b - a) :: 64 word)" by simp
  ultimately show ?thesis by (simp only:)
qed

lemma less_step:
  assumes "0 \<le> b - a" "b - a < 2 ^ 64" "0 < s" "s < 2 ^ 63"
  shows "(word_of_int b - word_of_int a :: 64 word) < word_of_int s \<longleftrightarrow> b - a < s" "(word_of_int s :: 64 word) \<noteq> 0"
proof -
  have "uint (word_of_int s :: 64 word) = s" using assms by (simp add: uint_word_of_int_eq take_bit_int_eq_self)
  then show "(word_of_int b - word_of_int a :: 64 word) < word_of_int s \<longleftrightarrow> b - a < s" "(word_of_int s :: 64 word) \<noteq> 0"
    using uint_diff [OF assms(1,2)] assms(3) by (auto simp: word_less_def)
qed

lemma progression_step:
  assumes "0 < s" "s \<le> d"
  shows "map f [0..<nat (d div s) + 1] = f 0 # map (\<lambda>k. f (Suc k)) [0..<nat ((d - s) div s) + 1]"
proof -
  have "d div s = (d - s) div s + 1" using assms by (simp add: div_pos_geq)
  moreover have "0 \<le> (d - s) div s" using assms by (simp add: pos_imp_zdiv_nonneg_iff)
  ultimately have n: "nat (d div s) + 1 = Suc (nat ((d - s) div s) + 1)" by simp
  show ?thesis unfolding n upt_conv_Cons [OF zero_less_Suc] by (simp add: map_Suc_upt [symmetric] del: upt_Suc)
qed

lemma seq_loop_up:
  "int64 t \<Longrightarrow> int64 v \<Longrightarrow> v \<le> t \<Longrightarrow> 0 < s \<Longrightarrow> s < 2 ^ 63 \<Longrightarrow>
     seq_loop True (word_of_int t) (word_of_int s) (word_of_int v) =
     map (\<lambda>k. word_of_int (v + int k * s)) [0..<nat ((t - v) div s) + 1]"
proof (induction "nat (t - v)" arbitrary: v rule: less_induct)
  case less
  then have r: "(word_of_int t - word_of_int v :: 64 word) < word_of_int s \<longleftrightarrow> t - v < s" "(word_of_int s :: 64 word) \<noteq> 0"
    using less_step [of t v s] by auto
  show ?case
  proof (cases "t - v < s")
    case True
    with less.prems have "(t - v) div s = 0" by (simp add: div_pos_pos_trivial)
    with True r show ?thesis by (simp add: seq_loop.simps)
  next
    case False
    have "seq_loop True (word_of_int t) (word_of_int s) (word_of_int (v + s)) =
      map (\<lambda>k. word_of_int (v + s + int k * s)) [0..<nat ((t - (v + s)) div s) + 1]"
      using less.prems False by (intro less.hyps) auto
    moreover have "map (\<lambda>k. word_of_int (v + int k * s) :: 64 word) [0..<nat ((t - v) div s) + 1] =
      word_of_int v # map (\<lambda>k. word_of_int (v + s + int k * s)) [0..<nat ((t - (v + s)) div s) + 1]"
      using progression_step [of s "t - v" "\<lambda>k. word_of_int (v + int k * s) :: 64 word"] less.prems False
      by (simp add: algebra_simps del: upt_Suc)
    ultimately show ?thesis using False r by (subst seq_loop.simps) simp
  qed
qed

lemma seq_loop_down:
  "int64 t \<Longrightarrow> int64 v \<Longrightarrow> t \<le> v \<Longrightarrow> 0 < s \<Longrightarrow> s < 2 ^ 63 \<Longrightarrow>
     seq_loop False (word_of_int t) (word_of_int s) (word_of_int v) =
     map (\<lambda>k. word_of_int (v - int k * s)) [0..<nat ((v - t) div s) + 1]"
proof (induction "nat (v - t)" arbitrary: v rule: less_induct)
  case less
  then have r: "(word_of_int v - word_of_int t :: 64 word) < word_of_int s \<longleftrightarrow> v - t < s" "(word_of_int s :: 64 word) \<noteq> 0"
    using less_step [of v t s] by auto
  show ?case
  proof (cases "v - t < s")
    case True
    with less.prems have "(v - t) div s = 0" by (simp add: div_pos_pos_trivial)
    with True r show ?thesis by (simp add: seq_loop.simps)
  next
    case False
    have "seq_loop False (word_of_int t) (word_of_int s) (word_of_int (v - s)) =
      map (\<lambda>k. word_of_int (v - s - int k * s)) [0..<nat ((v - s - t) div s) + 1]"
      using less.prems False by (intro less.hyps) auto
    moreover have "map (\<lambda>k. word_of_int (v - int k * s) :: 64 word) [0..<nat ((v - t) div s) + 1] =
      word_of_int v # map (\<lambda>k. word_of_int (v - s - int k * s)) [0..<nat ((v - s - t) div s) + 1]"
      using progression_step [of s "v - t" "\<lambda>k. word_of_int (v - int k * s) :: 64 word"] less.prems False
      by (simp add: algebra_simps del: upt_Suc)
    ultimately show ?thesis using False r by (subst seq_loop.simps) simp
  qed
qed

lemma progression_bound: "0 < s \<Longrightarrow> 0 \<le> d \<Longrightarrow> k < nat (d div s) + 1 \<Longrightarrow> 0 \<le> int k * s \<and> int k * s \<le> d" for d s :: int
proof -
  assume a: "0 < s" "0 \<le> d" "k < nat (d div s) + 1"
  then have "0 \<le> d div s" by (simp add: pos_imp_zdiv_nonneg_iff)
  with a(3) have "int k \<le> d div s" by linarith
  then have "int k * s \<le> d div s * s" using a(1) by simp
  also have "\<dots> \<le> d" using pos_mod_sign [OF a(1), of d] div_mult_mod_eq [of d s] by linarith
  finally show ?thesis using a by simp
qed

text \<open>
  A sequence counts from its first bound towards its second in equal steps and stops
  before it would pass it, for all 64-bit bounds: the loop, which compares unsigned distances
  and adds with wrap-around, yields the arithmetic progression of the integers.
\<close>

theorem seq_items_progression:
  assumes "int64 f" "int64 t" "0 < s" "s < 2 ^ 63"
  shows "seq_items f t s =
     map (\<lambda>k. if f \<le> t then f + int k * s else f - int k * s) [0..<nat (\<bar>t - f\<bar> div s) + 1]"
proof (cases "f \<le> t")
  case True
  have "sint (word_of_int (f + int k * s) :: 64 word) = f + int k * s" if "k < nat ((t - f) div s) + 1" for k
    using progression_bound [OF assms(3) _ that] True assms by (intro sint_of_int64 conjI; linarith)
  with True show ?thesis using seq_loop_up [of t f s] assms by (simp add: seq_items_def comp_def del: upt_Suc)
next
  case False
  have "sint (word_of_int (f - int k * s) :: 64 word) = f - int k * s" if "k < nat ((f - t) div s) + 1" for k
    using progression_bound [OF assms(3) _ that] False assms by (intro sint_of_int64 conjI; linarith)
  with False show ?thesis using seq_loop_down [of t f s] assms by (simp add: seq_items_def comp_def del: upt_Suc)
qed

theorem seq_items_progression_witness:
  "seq_items 9223372036854775802 9223372036854775807 3 =
     map (\<lambda>k. 9223372036854775802 + int k * 3) [0..<2]"
  using seq_items_progression [of 9223372036854775802 9223372036854775807 3] by (simp add: numeral_2_eq_2 del: upt_Suc upt_rec_numeral)

section \<open>Words the parser builds\<close>

text \<open>
  A well-formed brace expression is a list of at least two words, or a valid sequence; its
  words are well-formed.
\<close>

fun wf_part :: "'p part \<Rightarrow> bool" and wf_word :: "'p part list \<Rightarrow> bool" and wf_elems :: "'p part list list \<Rightarrow> bool" where
  "wf_part (PBrace sq elems) = ((if sq then validBraceSequence elems else 2 \<le> length elems) \<and> wf_elems elems)"
| "wf_part (PLit l) = True"
| "wf_part (POther p) = True"
| "wf_word [] = True"
| "wf_word (p # ps) = (wf_part p \<and> wf_word ps)"
| "wf_elems [] = True"
| "wf_elems (e # es) = (wf_word e \<and> wf_elems es)"

lemma wf_word_append [simp]: "wf_word (xs @ ys) \<longleftrightarrow> wf_word xs \<and> wf_word ys"
  by (induction xs) auto

lemma wf_elems_iff: "wf_elems es \<longleftrightarrow> (\<forall>e \<in> set es. wf_word e)"
  by (induction es) auto

lemma wf_new_lit [simp]: "wf_part (new_lit l)"
  by (simp add: new_lit_def)

lemma find_brace_word: "find_brace ps = Some (l, (sq, elems), r) \<Longrightarrow> ps = l @ PBrace sq elems # r \<and> find_brace l = None"
  by (induction ps arbitrary: l rule: find_brace.induct) auto

lemma bound_nonempty: "seq_bound v \<noteq> None \<Longrightarrow> v \<noteq> ''''"
  by (auto simp: seq_bound_def Atoi_def digits_value_def HasPrefix_def split: if_splits)

lemma sequence_no_panic: "validBraceSequence elems \<Longrightarrow> sequence_lits print elems rest \<noteq> Inl Panic"
  using bound_nonempty [of "word_Lit (elems ! 0)"] bound_nonempty [of "word_Lit (elems ! 1)"]
  by (auto simp: validBraceSequence_def sequence_lits_def Let_def split: if_splits option.splits)

section \<open>The reference: a product of alternatives\<close>

fun mixed_part :: "'p part \<Rightarrow> bool" and mixed_word :: "'p part list \<Rightarrow> bool" and mixed_elems :: "'p part list list \<Rightarrow> bool" where
  "mixed_part (PBrace sq elems) =
     (sq \<and> (Atoi (word_Lit (elems ! 0)) = None \<or> Atoi (word_Lit (elems ! 1)) = None) \<and>
        mixedCaseBraceRange (hd (word_Lit (elems ! 0))) (hd (word_Lit (elems ! 1))) \<or> mixed_elems elems)"
| "mixed_part (PLit l) = False"
| "mixed_part (POther p) = False"
| "mixed_word [] = False"
| "mixed_word (p # ps) = (mixed_part p \<or> mixed_word ps)"
| "mixed_elems [] = False"
| "mixed_elems (e # es) = (mixed_word e \<or> mixed_elems es)"

lemma mixed_word_append [simp]: "mixed_word (xs @ ys) \<longleftrightarrow> mixed_word xs \<or> mixed_word ys"
  by (induction xs) auto

lemma mixed_elems_iff: "mixed_elems es \<longleftrightarrow> (\<exists>e \<in> set es. mixed_word e)"
  by (induction es) auto

lemma mixed_new_lit [simp]: "\<not> mixed_part (new_lit l)"
  by (simp add: new_lit_def)

definition seq_alts :: "('p part list \<Rightarrow> string) \<Rightarrow> 'p part list list \<Rightarrow> 'p part list list" where
  "seq_alts print elems =
     (case sequence_lits print elems [] of
        Inr (Some lits) \<Rightarrow> map (\<lambda>l. [new_lit l]) lits
      | Inr None \<Rightarrow> [[new_lit (print [PBrace True elems])]]
      | Inl _ \<Rightarrow> [])"

fun alts_of :: "('p part list \<Rightarrow> string) \<Rightarrow> 'p part \<Rightarrow> 'p part list list"
  and expand :: "('p part list \<Rightarrow> string) \<Rightarrow> 'p part list \<Rightarrow> 'p part list list"
  and expand_elems :: "('p part list \<Rightarrow> string) \<Rightarrow> 'p part list list \<Rightarrow> 'p part list list" where
  "alts_of print (PBrace sq elems) = (if sq then seq_alts print elems else expand_elems print elems)"
| "alts_of print (PLit l) = [[PLit l]]"
| "alts_of print (POther p) = [[POther p]]"
| "expand print [] = [[]]"
| "expand print (p # ps) = concat (map (\<lambda>x. map (\<lambda>y. x @ y) (expand print ps)) (alts_of print p))"
| "expand_elems print [] = []"
| "expand_elems print (e # es) = expand print e @ expand_elems print es"

lemma append_fun: "(@) (a @ b) = (\<lambda>y. a @ b @ y)" "(@) [x] = (#) x"
  by auto

lemma expand_append: "expand print (xs @ ys) = concat (map (\<lambda>x. map (\<lambda>y. x @ y) (expand print ys)) (expand print xs))"
proof (induction xs)
  case (Cons p xs)
  have "concat (map (\<lambda>x. map ((@) x) (concat (map (\<lambda>x. map ((@) x) Y) X))) A) =
    concat (map (\<lambda>x. map ((@) x) Y) (concat (map (\<lambda>x. map ((@) x) X) A)))" for X Y A :: "'a part list list"
    by (induction A) (simp_all add: map_concat comp_def append_fun(1))
  with Cons show ?case by simp
qed (simp add: map_idI)

lemma expand_no_brace: "find_brace ps = None \<Longrightarrow> expand print ps = [ps]"
  by (induction ps rule: find_brace.induct) auto

lemma expand_elems_concat: "expand_elems print es = concat (map (expand print) es)"
  by (induction es) auto

lemma expand_first:
  assumes "find_brace word = Some (l, (sq, elems), r)"
  shows "expand print word = map (\<lambda>w. l @ w) (concat (map (\<lambda>x. map (\<lambda>y. x @ y) (expand print r)) (alts_of print (PBrace sq elems))))"
  using find_brace_word [OF assms] expand_append [of print l "PBrace sq elems # r"] expand_no_brace [of l print] by simp

lemma sequence_rest:
  "validBraceSequence elems \<Longrightarrow> \<not> mixed_part (PBrace True elems) \<Longrightarrow> sequence_lits print elems rest = sequence_lits print elems []"
  by (auto simp: sequence_lits_def Let_def split: option.splits)

lemma sequence_ok:
  "validBraceSequence elems \<Longrightarrow> \<not> mixed_part (PBrace True elems) \<Longrightarrow> \<exists>o1. sequence_lits print elems [] = Inr o1"
  using bound_nonempty [of "word_Lit (elems ! 0)"] bound_nonempty [of "word_Lit (elems ! 1)"]
  by (auto simp: validBraceSequence_def sequence_lits_def Let_def split: if_splits option.splits)

lemma expand_each_ok: "(\<And>x. x \<in> set xs \<Longrightarrow> f x None = (Inr (g x), None)) \<Longrightarrow> expand_each f xs None = (Inr (concat (map g xs)), None)"
  by (induction xs) auto

lemma expand_lit [simp]: "expand print (new_lit l # r) = map (\<lambda>y. new_lit l # y) (expand print r)"
  by (simp add: new_lit_def)

lemma braces_expand:
  "wf_word word \<Longrightarrow> \<not> mixed_word word \<Longrightarrow> braces print word None = (Inr (expand print word), None)"
proof (induction "word_braces word" arbitrary: word rule: less_induct)
  case less
  note bs = braces.simps [of print word None]
  show ?case
  proof (cases "find_brace word")
    case None
    then show ?thesis using expand_no_brace [OF None, of print] by (simp add: bs budget_add_def)
  next
    case (Some t)
    obtain l sq elems r where t: "t = (l, (sq, elems), r)" by (metis prod.exhaust)
    note f = Some [unfolded t]
    have w: "word = l @ PBrace sq elems # r" using find_brace_word [OF f] by blast
    have lt: "word_braces r + elems_braces elems < word_braces word" by (rule find_brace_count [OF f])
    have wf: "wf_part (PBrace sq elems)" "wf_word r" "\<not> mixed_part (PBrace sq elems)" "\<not> mixed_word r"
      using less.prems w by auto
    have lits: "braces print (new_lit v # r) None = (Inr (map (\<lambda>y. new_lit v # y) (expand print r)), None)" for v
      using less.hyps [of "new_lit v # r"] lt wf by (simp add: new_lit_def)
    show ?thesis
    proof (cases sq)
      case True
      then obtain o1 where o1: "sequence_lits print elems [] = Inr o1"
        using sequence_ok wf by fastforce
      then have o2: "sequence_lits print elems r = Inr o1" using sequence_rest [of elems print r] wf True by simp
      have run: "expand_each (\<lambda>v b. braces print (new_lit v # r) b) vs None =
          (Inr (concat (map (\<lambda>v. map (\<lambda>y. new_lit v # y) (expand print r)) vs)), None)" for vs
        by (rule expand_each_ok) (rule lits)
      show ?thesis
        using f True o1 o2 run lits expand_first [OF f, of print]
        by (cases o1) (simp_all add: bs prepend_all_def seq_alts_def comp_def append_fun(2))
    next
      case False
      have elem: "braces print (e @ r) None = (Inr (expand print (e @ r)), None)" if "e \<in> set elems" for e
        using less.hyps [of "e @ r"] lt wf that elems_braces_le [OF that] False by (auto simp: wf_elems_iff mixed_elems_iff)
      have "expand_each (\<lambda>e b. braces print (e @ r) b) elems None = (Inr (concat (map (\<lambda>e. expand print (e @ r)) elems)), None)"
        by (rule expand_each_ok) (rule elem)
      moreover have "concat (map (\<lambda>e. expand print (e @ r)) es) =
          concat (map (\<lambda>x. map ((@) x) (expand print r)) (concat (map (expand print) es)))" for es
        by (induction es) (simp_all add: expand_append)
      ultimately show ?thesis
        using f False expand_first [OF f, of print] by (simp add: bs prepend_all_def expand_elems_concat)
    qed
  qed
qed



section \<open>The budget\<close>

text \<open>Without a limit no error depends on the budget, and none is left behind.\<close>

definition within :: "(braceBudget \<Rightarrow> (brace_error + 'b list) \<times> braceBudget) \<Rightarrow> bool" where
  "within f \<longleftrightarrow>
     (\<forall>ws lim used. f None = (Inr ws, None) \<longrightarrow> used \<le> lim \<longrightarrow>
        f (Some (lim, used)) =
          (if used + int (length ws) \<le> lim then (Inr ws, Some (lim, used + int (length ws)))
           else (Inl (BraceExpansionLimitError lim), Some (lim, lim + 1))))"

lemma expand_each_within:
  assumes "\<And>x. x \<in> set xs \<Longrightarrow> within (f x)" "\<And>x. x \<in> set xs \<Longrightarrow> snd (f x None) = None"
  shows "within (expand_each f xs)"
  using assms
proof (induction xs)
  case (Cons x xs)
  then have a: "within (f x)" "within (expand_each f xs)" "snd (f x None) = None" by auto
  show ?case
    unfolding within_def
  proof (intro allI impI)
    fix ws lim used
    assume e: "expand_each f (x # xs) None = (Inr ws, None)" and u: "used \<le> (lim :: int)"
    then obtain vs us where v: "f x None = (Inr vs, None)" "expand_each f xs None = (Inr us, None)" "ws = vs @ us"
      using a(3) by (auto split: sum.splits prod.splits)
    show "expand_each f (x # xs) (Some (lim, used)) =
          (if used + int (length ws) \<le> lim then (Inr ws, Some (lim, used + int (length ws)))
           else (Inl (BraceExpansionLimitError lim), Some (lim, lim + 1)))"
      using a(1) [unfolded within_def] a(2) [unfolded within_def] v u by (auto simp: algebra_simps)
  qed
qed (simp add: within_def)

lemma expand_each_none: "(\<And>x. x \<in> set xs \<Longrightarrow> snd (f x None) = None) \<Longrightarrow> snd (expand_each f xs None) = None"
proof (induction xs)
  case (Cons x xs)
  then have "snd (f x None) = None" "snd (expand_each f xs None) = None" by auto
  then show ?case by (cases "f x None"; cases "expand_each f xs None") (auto split: sum.splits)
qed simp

lemma prepend_none: "snd (prepend_all l r) = snd r"
  by (cases r) (simp add: prepend_all_def)

lemma prepend_within: "within f \<Longrightarrow> within (\<lambda>b. prepend_all l (f b))"
proof (unfold within_def, intro allI impI)
  fix ws lim used
  assume f: "\<forall>ws lim used. f None = (Inr ws, None) \<longrightarrow> used \<le> lim \<longrightarrow>
        f (Some (lim, used)) =
          (if used + int (length ws) \<le> lim then (Inr ws, Some (lim, used + int (length ws)))
           else (Inl (BraceExpansionLimitError lim), Some (lim, lim + 1)))"
    and p: "prepend_all l (f None) = (Inr ws, None)" and u: "used \<le> (lim :: int)"
  from p obtain vs where v: "f None = (Inr vs, None)" "ws = map ((@) l) vs"
    unfolding prepend_all_def by (cases "f None"; cases "fst (f None)") auto
  show "prepend_all l (f (Some (lim, used))) =
          (if used + int (length ws) \<le> lim then (Inr ws, Some (lim, used + int (length ws)))
           else (Inl (BraceExpansionLimitError lim), Some (lim, lim + 1)))"
    using f v u by (simp add: prepend_all_def)
qed

lemma braces_within: "within (braces print word) \<and> snd (braces print word None) = None"
proof (induction "word_braces word" arbitrary: word rule: less_induct)
  case less
  show ?case
  proof (cases "find_brace word")
    case None
    then show ?thesis by (auto simp: within_def braces.simps [of print word] budget_add_def)
  next
    case (Some t)
    obtain l sq elems r where t: "t = (l, (sq, elems), r)" by (metis prod.exhaust)
    note f = Some [unfolded t]
    have lt: "word_braces r + elems_braces elems < word_braces word" by (rule find_brace_count [OF f])
    have lits: "within (braces print (new_lit v # r))" "snd (braces print (new_lit v # r) None) = None" for v
      using less [of "new_lit v # r"] lt by (simp_all add: new_lit_def)
    have elem: "within (braces print (e @ r))" "snd (braces print (e @ r) None) = None" if "e \<in> set elems" for e
      using less [of "e @ r"] lt elems_braces_le [OF that] by simp_all
    have es: "braces print word = (\<lambda>b. prepend_all l (expand_each (\<lambda>elem b. braces print (elem @ r) b) elems b))" if "\<not> sq"
      using f that by (simp add: fun_eq_iff braces.simps [of print word])
    have sn: "braces print word = (\<lambda>b. prepend_all l (braces print (new_lit (print [PBrace sq elems]) # r) b))"
      if "sq" "sequence_lits print elems r = Inr None"
      using f that by (simp add: fun_eq_iff braces.simps [of print word])
    have ss: "braces print word = (\<lambda>b. prepend_all l (expand_each (\<lambda>v b. braces print (new_lit v # r) b) vs b))"
      if "sq" "sequence_lits print elems r = Inr (Some vs)" for vs
      using f that by (simp add: fun_eq_iff braces.simps [of print word])
    have se: "braces print word = (\<lambda>b. (Inl e, b))" if "sq" "sequence_lits print elems r = Inl e" for e
      using f that by (simp add: fun_eq_iff braces.simps [of print word])
    show ?thesis
    proof (cases sq)
      case True
      then consider e where "sequence_lits print elems r = Inl e" | "sequence_lits print elems r = Inr None"
        | vs where "sequence_lits print elems r = Inr (Some vs)" by (metis option.exhaust sum.exhaust)
      then show ?thesis
        by cases (simp_all add: se [OF True] sn [OF True] ss [OF True] prepend_none lits prepend_within
            expand_each_within expand_each_none, simp add: within_def)
    next
      case False
      then show ?thesis by (simp add: es prepend_none elem prepend_within expand_each_within expand_each_none)
    qed
  qed
qed

text \<open>
  (C31) A budget cuts the expansion off exactly at its limit: if the expansion without a limit
  gives \<open>ws\<close>, then with a budget it gives the same words and counts them, as long as the total
  stays within the limit; beyond it, it fails with the limit error when the first word too many
  is counted.
\<close>

theorem braces_budget:
  assumes "fst (braces print word None) = Inr ws" "used \<le> lim"
  shows "braces print word (Some (lim, used)) =
     (if used + int (length ws) \<le> lim then (Inr ws, Some (lim, used + int (length ws)))
      else (Inl (BraceExpansionLimitError lim), Some (lim, lim + 1)))"
  using braces_within [of print word] assms by (simp add: within_def prod_eq_iff)

theorem braces_budget_witness:
  "braces (\<lambda>_. '''') [PBrace False [[new_lit ''b''], [new_lit ''c''], []]] (Some (5, 3)) =
     (Inl (BraceExpansionLimitError 5), Some (5, 6))"
  by (subst braces_budget [where ws = "[[new_lit ''b''], [new_lit ''c''], []]"])
    (simp_all add: braces_expand new_lit_def)

section \<open>No panic\<close>

lemma expand_each_no_panic: "(\<And>x b. x \<in> set xs \<Longrightarrow> fst (f x b) \<noteq> Inl Panic) \<Longrightarrow> fst (expand_each f xs b) \<noteq> Inl Panic"
proof (induction xs arbitrary: b)
  case (Cons x xs)
  then have "fst (f x b) \<noteq> Inl Panic" "\<And>b. fst (expand_each f xs b) \<noteq> Inl Panic" by auto
  then show ?case by (auto split: sum.splits prod.splits) (metis fst_conv)
qed simp

lemma prepend_no_panic: "fst (prepend_all l r) = Inl Panic \<longleftrightarrow> fst r = Inl Panic"
  by (cases r; cases "fst r") (auto simp: prepend_all_def)

lemma braces_panic_free: "wf_word word \<Longrightarrow> fst (braces print word b) \<noteq> Inl Panic"
proof (induction "word_braces word" arbitrary: word b rule: less_induct)
  case less
  note bs = braces.simps [of print word b]
  show ?case
  proof (cases "find_brace word")
    case None
    then show ?thesis by (simp add: bs budget_add_def split: option.splits prod.splits)
  next
    case (Some t)
    obtain l sq elems r where t: "t = (l, (sq, elems), r)" by (metis prod.exhaust)
    note f = Some [unfolded t]
    have w: "word = l @ PBrace sq elems # r" using find_brace_word [OF f] by blast
    have lt: "word_braces r + elems_braces elems < word_braces word" by (rule find_brace_count [OF f])
    have wf: "wf_part (PBrace sq elems)" "wf_word r" using less.prems w by auto
    have lits: "fst (braces print (new_lit v # r) b) \<noteq> Inl Panic" for v b
      using less.hyps [of "new_lit v # r"] lt wf by (simp add: new_lit_def)
    have elem: "fst (braces print (e @ r) b) \<noteq> Inl Panic" if "e \<in> set elems" for e b
      using less.hyps [of "e @ r"] lt wf elems_braces_le [OF that] that by (auto simp: wf_elems_iff)
    have "fst (expand_each (\<lambda>v b. braces print (new_lit v # r) b) vs b) \<noteq> Inl Panic" for vs by (rule expand_each_no_panic) (rule lits)
    moreover have "fst (expand_each (\<lambda>e b. braces print (e @ r) b) elems b) \<noteq> Inl Panic" by (rule expand_each_no_panic) (rule elem)
    moreover have "sequence_lits print elems r \<noteq> Inl Panic" if sq using sequence_no_panic wf that by auto
    ultimately show ?thesis using f lits by (auto simp: bs prepend_no_panic split: sum.splits option.splits)
  qed
qed

end
