(* ===== verification/Braces_Split.thy ===== *)
theory Braces_Split
  imports Braces_Expand
begin

text \<open>
  Splitting a word into brace expressions: the split loses no text and invents none, whatever
  braces are open, empty or unbalanced, and the brace expressions it builds are well-formed, so
  that expanding its result never indexes an empty string or a missing element.
\<close>

section \<open>The text of a word\<close>

text \<open>The text of a word is a list of bytes and of opaque parts, with the braces written out.\<close>

abbreviation chars :: "string \<Rightarrow> (char + 'p) list" where "chars \<equiv> map Inl"

definition sep_text :: "bool \<Rightarrow> string" where
  "sep_text sq = (if sq then ''..'' else '','')"

fun part_text :: "'p part \<Rightarrow> (char + 'p) list" and word_text :: "'p part list \<Rightarrow> (char + 'p) list"
  and elems_text :: "string \<Rightarrow> 'p part list list \<Rightarrow> (char + 'p) list" where
  "part_text (PLit l) = chars (Value l)"
| "part_text (POther p) = [Inr p]"
| "part_text (PBrace sq elems) = chars ''{'' @ elems_text (sep_text sq) elems @ chars ''}''"
| "word_text [] = []"
| "word_text (p # ps) = part_text p @ word_text ps"
| "elems_text sep [] = []"
| "elems_text sep (e # es) = word_text e @ (if es = [] then [] else chars sep @ elems_text sep es)"

lemma word_text_append [simp]: "word_text (xs @ ys) = word_text xs @ word_text ys"
  by (induction xs) auto

lemma elems_text_snoc:
  "elems_text sep (es @ [e]) = (if es = [] then [] else elems_text sep es @ chars sep) @ word_text e"
  by (induction es) auto

lemma elems_text_extend: "es \<noteq> [] \<Longrightarrow> elems_text sep (butlast es @ [last es @ x]) = elems_text sep es @ word_text x"
proof (induction es)
  case (Cons e es)
  then show ?case by (cases es) auto
qed simp

section \<open>The state of the split\<close>

definition kind_text :: "braceSepKind \<Rightarrow> string" where
  "kind_text k = (case k of braceSepComma \<Rightarrow> '','' | braceSepDots \<Rightarrow> ''..'')"

fun joined :: "(braceSepKind \<times> Lit) list \<Rightarrow> 'p part list list \<Rightarrow> (char + 'p) list" where
  "joined seps [] = []"
| "joined seps [e] = word_text e"
| "joined (sep # seps) (e # es) = word_text e @ chars (Value (snd sep)) @ joined seps es"
| "joined [] (e # es) = word_text e"

definition cand_text :: "'p braceCandidate \<Rightarrow> (char + 'p) list" where
  "cand_text c = chars (Value (Lbrace c)) @ joined (Seps c) (Elems c)"

definition state_text :: "'p split_state \<Rightarrow> (char + 'p) list" where
  "state_text st = word_text (top_parts st) @ concat (map cand_text (rev (open_cands st)))"

definition sep_ok :: "braceSepKind \<times> Lit \<Rightarrow> bool" where
  "sep_ok sep = (Value (snd sep) = kind_text (fst sep))"

definition cand_ok :: "'p braceCandidate \<Rightarrow> bool" where
  "cand_ok c = (Value (Lbrace c) = ''{'' \<and> length (Elems c) = Suc (length (Seps c)) \<and> list_all sep_ok (Seps c))"

text \<open>The invariant of the split, and that all brace expressions built so far are well-formed.\<close>

definition split_inv :: "'p split_state \<Rightarrow> bool" where
  "split_inv st = list_all (\<lambda>c. cand_ok c \<and> Rbrace c = None) (open_cands st)"

definition wf_state :: "'p split_state \<Rightarrow> bool" where
  "wf_state st = (wf_word (top_parts st) \<and> list_all (\<lambda>c. wf_elems (Elems c)) (open_cands st))"

lemmas split_defs = state_text_def split_inv_def cand_text_def cand_ok_def

lemma joined_last:
  "length es = Suc (length seps) \<Longrightarrow> word_text ps = word_text (last es) @ x \<Longrightarrow>
     joined seps (butlast es @ [ps]) = joined seps es @ x"
proof (induction seps es rule: joined.induct)
  case (3 sep seps e e2 es)
  then show ?case by (cases es) auto
qed auto

lemma joined_snoc: "length es = Suc (length seps) \<Longrightarrow> joined (seps @ [s]) (es @ [[]]) = joined seps es @ chars (Value (snd s))"
proof (induction seps es rule: joined.induct)
  case (3 sep seps e e2 es)
  then show ?case by (cases es) auto
qed auto

text \<open>A change of the accumulator that appends a text appends it to the state's text.\<close>

definition appends :: "(char + 'p) list \<Rightarrow> 'p split_state \<Rightarrow> 'p split_state \<Rightarrow> bool" where
  "appends x st st1 = (split_inv st \<longrightarrow> split_inv st1 \<and> state_text st1 = state_text st @ x)"

lemma appends_trans: "appends x st st1 \<Longrightarrow> appends y st1 st2 \<Longrightarrow> appends (x @ y) st st2"
  by (simp add: appends_def)

lemma appends_refl [simp]: "appends [] st st"
  by (simp add: appends_def)

lemma set_acc_appends: "word_text ps = word_text (acc_parts st) @ x \<Longrightarrow> appends x st (set_acc ps st)"
  by (cases "open_cands st") (auto simp: appends_def split_defs set_acc_def acc_parts_def joined_last)

lemma append_lit_text: "word_text (append_lit l ps) = word_text ps @ chars (Value l)"
proof (cases ps rule: rev_cases)
  case (snoc qs q)
  then show ?thesis by (cases q) (auto simp: append_lit_def)
qed (simp add: append_lit_def)

definition opt_text :: "Lit option \<Rightarrow> (char + 'p) list" where
  "opt_text l = (case l of None \<Rightarrow> [] | Some l \<Rightarrow> chars (Value l))"

lemma addLit_appends: "appends (opt_text l) st (addLit l st)"
  by (cases l) (simp_all add: addLit_def opt_text_def set_acc_appends append_lit_text)

lemma addPart_appends: "appends (part_text p) st (addPart p st)"
  by (cases p) (use addLit_appends [of "Some _"] in \<open>simp_all add: addPart_def opt_text_def set_acc_appends\<close>)

lemma fold_addPart_appends: "appends (word_text ps) st (fold addPart ps st)"
  by (induction ps arbitrary: st) (auto intro: appends_trans addPart_appends)

lemma add_elems_appends: "appends (joined seps es) st (add_elems seps es st)"
proof (induction seps es st rule: add_elems.induct)
  case (3 sep seps e e2 es st)
  have "appends (chars (Value (snd sep))) (fold addPart e st) (addLit (Some (snd sep)) (fold addPart e st))"
    using addLit_appends [of "Some (snd sep)"] by (simp add: opt_text_def)
  then show ?case using 3 fold_addPart_appends [of e st] by (auto intro!: appends_trans)
qed (auto intro: fold_addPart_appends)

lemma addCandidateLiteral_appends:
  "appends (cand_text c @ opt_text (Rbrace c)) st (addCandidateLiteral c st)"
proof -
  have "appends (chars (Value (Lbrace c))) st (addLit (Some (Lbrace c)) st)"
    using addLit_appends [of "Some (Lbrace c)"] by (simp add: opt_text_def)
  then show ?thesis
    unfolding addCandidateLiteral_def cand_text_def append_assoc
    by (rule appends_trans [OF _ appends_trans [OF add_elems_appends addLit_appends]])
qed

section \<open>Closing a brace\<close>

lemma comma_elems_text:
  "length es = length seps \<Longrightarrow> list_all sep_ok seps \<Longrightarrow> done \<noteq> [] \<Longrightarrow>
     elems_text '','' (comma_elems done seps es) =
       elems_text '','' done @ concat (map2 (\<lambda>s e. chars (Value (snd s)) @ word_text e) seps es)"
proof (induction "done" seps es rule: comma_elems.induct)
  case (2 "done" lit seps e es)
  then show ?case using elems_text_extend [of "done" "'',''" "PLit lit # e"] by (simp add: sep_ok_def)
qed (auto simp: sep_ok_def kind_text_def elems_text_snoc)

lemma joined_zip:
  "length es = length seps \<Longrightarrow> joined seps (e # es) = word_text e @ concat (map2 (\<lambda>s e. chars (Value (snd s)) @ word_text e) seps es)"
proof (induction seps arbitrary: e es)
  case (Cons s seps)
  then show ?case by (cases es) auto
qed simp

lemma joined_dots:
  "length es = Suc (length seps) \<Longrightarrow> list_all sep_ok seps \<Longrightarrow> \<not> list_ex (\<lambda>s. fst s = braceSepComma) seps \<Longrightarrow>
     joined seps es = elems_text ''..'' es"
proof (induction seps es rule: joined.induct)
  case (3 sep seps e e2 es)
  then show ?case by (cases "fst sep") (auto simp: sep_ok_def kind_text_def)
qed auto

lemma node_text:
  assumes "cand_ok c" "Rbrace c = Some l" "Value l = ''}''" "braceCandidateNode c = Some p"
  shows "part_text p = cand_text c @ chars (Value l)"
proof -
  obtain e es where E: "Elems c = e # es" using assms(1) by (cases "Elems c") (auto simp: cand_ok_def)
  show ?thesis
  proof (cases "list_ex (\<lambda>s. fst s = braceSepComma) (Seps c)")
    case True
    then have "p = PBrace False (braceCommaElems c)" using assms by (auto simp: braceCandidateNode_def split: if_splits)
    then show ?thesis
      using assms E comma_elems_text [of es "Seps c" "[e]"] joined_zip [of es "Seps c" e]
      by (simp add: cand_text_def cand_ok_def sep_text_def braceCommaElems_def)
  next
    case False
    then have "p = PBrace True (Elems c)" using assms by (auto simp: braceCandidateNode_def split: if_splits)
    then show ?thesis
      using assms False joined_dots [of "Elems c" "Seps c"] by (simp add: cand_text_def cand_ok_def sep_text_def)
  qed
qed

lemma closeBrace_appends:
  assumes "cand_ok c" "Rbrace c = Some l" "Value l = ''}''"
  shows "appends (cand_text c @ chars (Value l)) st (closeBrace c st)"
proof (cases "braceCandidateNode c")
  case None
  then show ?thesis using addCandidateLiteral_appends [of c st] assms by (simp add: closeBrace_def opt_text_def)
next
  case (Some p)
  then show ?thesis using addPart_appends [of p st] node_text [OF assms Some] by (simp add: closeBrace_def)
qed

section \<open>The steps of the split\<close>

lemma splitLit_text: "i \<le> j \<Longrightarrow> j \<le> length (Value l) \<Longrightarrow> opt_text (splitLit l i j) = chars (take (j - i) (drop i (Value l)))"
  by (auto simp: opt_text_def splitLit_def)

lemma splitLit_one: "j < length (Value l) \<Longrightarrow> Value (the (splitLit l j (j + 1))) = [Value l ! j]"
  by (simp add: splitLit_def take_Suc_conv_app_nth hd_drop_conv_nth take_Suc)

lemma splitLit_two:
  "j + 1 < length (Value l) \<Longrightarrow> Value (the (splitLit l j (j + 2))) = [Value l ! j, Value l ! (j + 1)]"
  by (simp add: splitLit_def Cons_nth_drop_Suc [symmetric])

lemma open_brace_appends: "Value l = ''{'' \<Longrightarrow> appends (chars (Value l)) st (open_brace l st)"
  by (simp add: appends_def split_defs open_brace_def)

lemma add_sep_appends: "open_cands st \<noteq> [] \<Longrightarrow> Value l = kind_text k \<Longrightarrow> appends (chars (Value l)) st (add_sep k l st)"
  by (cases "open_cands st") (auto simp: appends_def split_defs add_sep_def joined_snoc sep_ok_def)

lemma close_top_appends: "open_cands st \<noteq> [] \<Longrightarrow> Value l = ''}'' \<Longrightarrow> appends (chars (Value l)) st (close_top l st)"
proof (cases "open_cands st")
  case (Cons c cs)
  assume "Value l = ''}''"
  then show ?thesis
    using Cons closeBrace_appends [of "c\<lparr>Rbrace := Some l\<rparr>" l "st\<lparr>open_cands := cs\<rparr>"]
    by (auto simp: appends_def split_defs close_top_def)
qed simp

text \<open>
  What the loop over a literal does at a byte: it ends, goes on to the next byte, or moves the
  pending text into the state and handles a brace, comma or pair of dots.
\<close>

inductive brace_step :: "string \<Rightarrow> 'p split_state \<Rightarrow> 'p split_state \<Rightarrow> bool" where
  lbrace: "Value l = ''{'' \<Longrightarrow> brace_step ''{'' st (open_brace l st)"
| sep: "Value l = kind_text k \<Longrightarrow> open_cands st \<noteq> [] \<Longrightarrow> brace_step (kind_text k) st (add_sep k l st)"
| rbrace: "Value l = ''}'' \<Longrightarrow> open_cands st \<noteq> [] \<Longrightarrow> brace_step ''}'' st (close_top l st)"

lemma brace_step_appends: "brace_step t st st1 \<Longrightarrow> appends (chars t) st st1"
  by (induction rule: brace_step.induct) (metis open_brace_appends add_sep_appends close_top_appends)+

lemma lit_loop_cases:
  fixes lit :: Lit
  defines "v \<equiv> Value lit"
  obtains (fin) "length v \<le> j" "lit_loop lit j pend st = (pend, st)"
  | (next_byte) "j < length v" "lit_loop lit j pend st = lit_loop lit (j + 1) pend st"
  | (step) k st1 where "0 < k" "j + k \<le> length v" "lit_loop lit j pend st = lit_loop lit (j + k) (j + k) st1"
      "brace_step (take k (drop j v)) (addLit (splitLit lit pend j) st) st1"
proof -
  let ?s = "addLit (splitLit lit pend j) st"
  note ls = lit_loop.simps [of lit j pend st, folded v_def]
  have op: "open_cands st \<noteq> [] \<Longrightarrow> open_cands ?s \<noteq> []" by (metis length_0_conv open_addLit)
  have one: "take 1 (drop j v) = [v ! j]" if "j < length v" using that by (simp add: take_Suc hd_drop_conv_nth)
  have two: "take 2 (drop j v) = [v ! j, v ! (j + 1)]" if "j + 1 < length v"
    using that by (simp add: Cons_nth_drop_Suc [symmetric])
  consider "length v \<le> j" | (lb) "j < length v" "v ! j = CHR ''{''"
    | (co) "j < length v" "v ! j = CHR '',''" "open_cands st \<noteq> []"
    | (dt) "j + 1 < length v" "v ! j = CHR ''.''" "v ! (j + 1) = CHR ''.''" "open_cands st \<noteq> []"
    | (rb) "j < length v" "v ! j = CHR ''}''" "open_cands st \<noteq> []"
    | (other) "j < length v" "v ! j \<noteq> CHR ''{''" "\<not> (v ! j = CHR '','' \<and> open_cands st \<noteq> [])"
        "\<not> (v ! j = CHR ''.'' \<and> open_cands st \<noteq> [] \<and> j + 1 < length v \<and> v ! (j + 1) = CHR ''.'')"
        "\<not> (v ! j = CHR ''}'' \<and> open_cands st \<noteq> [])"
    using not_le by blast
  then show thesis
  proof cases
    case 1
    then show ?thesis by (intro fin) (simp_all add: ls)
  next
    case lb
    then show ?thesis
      using splitLit_one [of j lit] one lbrace [of "the (splitLit lit j (j + 1))" ?s]
      by (intro step [of 1]) (simp_all add: ls Let_def v_def)
  next
    case co
    then show ?thesis
      using splitLit_one [of j lit] one op sep [of "the (splitLit lit j (j + 1))" braceSepComma ?s]
      by (intro step [of 1]) (simp_all add: ls Let_def v_def kind_text_def)
  next
    case dt
    then show ?thesis
      using splitLit_two [of j lit] two op sep [of "the (splitLit lit j (j + 2))" braceSepDots ?s]
      by (intro step [of 2]) (simp_all add: ls Let_def v_def kind_text_def)
  next
    case rb
    then show ?thesis
      using splitLit_one [of j lit] one op rbrace [of "the (splitLit lit j (j + 1))" ?s]
      by (intro step [of 1]) (simp_all add: ls Let_def v_def)
  next
    case other
    then show ?thesis by (intro next_byte) (auto simp: ls)
  qed
qed

lemma step_drop: "i \<le> j \<Longrightarrow> chars (take (j - i) (drop i v)) @ chars (take k (drop j v)) @ chars (drop (j + k) v) = chars (drop i v)"
proof -
  assume "i \<le> j"
  then have "drop j v = drop (j - i) (drop i v)" by simp
  moreover have "drop (j + k) v = drop k (drop j v)" by (simp add: add.commute)
  ultimately show ?thesis by (metis append_take_drop_id map_append)
qed

lemma lit_loop_text:
  assumes "lit_loop lit j pend st = (pend1, st1)" "pend \<le> j" "j \<le> length (Value lit)" "split_inv st"
  shows "split_inv st1 \<and> pend1 \<le> length (Value lit) \<and>
     state_text st1 @ chars (drop pend1 (Value lit)) = state_text st @ chars (drop pend (Value lit))"
  using assms
proof (induction "length (Value lit) - j" arbitrary: j pend st rule: less_induct)
  case less
  let ?v = "Value lit"
  have pre: "appends (chars (take (j - pend) (drop pend ?v))) st (addLit (splitLit lit pend j) st)"
    using addLit_appends [of "splitLit lit pend j" st] less.prems by (simp add: splitLit_text)
  show ?case
  proof (cases lit j pend st rule: lit_loop_cases)
    case fin
    then show ?thesis using less.prems by simp
  next
    case next_byte
    then show ?thesis using less.prems less.hyps [of "j + 1" pend st] by simp
  next
    case (step k s2)
    then have "lit_loop lit (j + k) (j + k) s2 = (pend1, st1)" using less.prems by simp
    then show ?thesis
      using appends_trans [OF pre brace_step_appends [OF step(4)]] step_drop [of pend j ?v k] less.prems
        less.hyps [of "j + k" "j + k" s2] step(1,2)
      by (auto simp: appends_def)
  qed
qed

lemma split_part_appends: "appends (part_text p) st (split_part p st)"
proof (cases p)
  case (PLit lit)
  obtain n st1 where l: "lit_loop lit 0 0 st = (n, st1)" by fastforce
  have t: "split_inv st1 \<and> n \<le> length (Value lit) \<and>
      state_text st1 @ chars (drop n (Value lit)) = state_text st @ chars (Value lit)" if "split_inv st"
    using lit_loop_text [OF l _ _ that] by simp
  have "appends (chars (drop n (Value lit))) st1 (split_part p st)" if "split_inv st"
    using PLit l t [OF that] addPart_appends [of "PLit lit" st1] addLit_appends [of "splitLit lit n (length (Value lit))" st1]
    by (simp add: split_part_def splitLit_text)
  then show ?thesis using t PLit by (simp add: appends_def)
qed (use addPart_appends [of p] in \<open>simp_all add: split_part_def\<close>)

lemma fold_split_appends: "appends (word_text ps) st (fold split_part ps st)"
  by (induction ps arbitrary: st) (auto intro: appends_trans split_part_appends)

lemma close_all_text: "split_inv st \<Longrightarrow> word_text (top_parts (close_all st)) = state_text st"
proof (induction st rule: close_all.induct)
  case (1 st)
  show ?case
  proof (cases "open_cands st")
    case Nil
    then show ?thesis by (simp add: close_all.simps state_text_def)
  next
    case (Cons c cs)
    let ?st = "st\<lparr>open_cands := cs\<rparr>"
    have "split_inv ?st" "Rbrace c = None" using "1.prems" Cons by (simp_all add: split_inv_def)
    then show ?thesis
      using Cons 1 addCandidateLiteral_appends [of c ?st]
      by (simp add: close_all.simps [of st] appends_def opt_text_def) (simp add: state_text_def)
  qed
qed

text \<open>
  (C15) Splitting a word into brace expressions neither loses nor invents text: the text of the
  result, with the braces, commas and dots of its brace expressions written out, is the text of
  the word, for every word, balanced or not.
\<close>

theorem split_keeps_text: "word_text (splitBraceWordParts parts) = word_text parts" for parts :: "'p part list"
proof -
  let ?st = "\<lparr>top_parts = [], open_cands = []\<rparr> :: 'p split_state"
  have "split_inv ?st" "state_text ?st = []" by (simp_all add: split_inv_def state_text_def)
  then show ?thesis
    using fold_split_appends [of parts ?st] by (simp add: splitBraceWordParts_def appends_def close_all_text)
qed

section \<open>The brace expressions of the result\<close>

lemma wf_butlast: "wf_word ps \<Longrightarrow> wf_word (butlast ps)"
  by (cases ps rule: rev_cases) auto

lemma append_lit_wf: "wf_word ps \<Longrightarrow> wf_word (append_lit l ps)"
  by (auto simp: append_lit_def wf_butlast split: part.splits)

lemma wf_elems_last: "es \<noteq> [] \<Longrightarrow> wf_elems es \<longleftrightarrow> wf_elems (butlast es) \<and> wf_word (last es)"
  by (cases es rule: rev_cases) (auto simp: wf_elems_iff)

lemma acc_wf: "split_inv st \<Longrightarrow> wf_state st \<Longrightarrow> wf_word (acc_parts st)"
proof (cases "open_cands st")
  case (Cons c cs)
  assume "split_inv st" "wf_state st"
  with Cons have "Elems c \<noteq> []" "wf_elems (Elems c)" by (auto simp: split_inv_def cand_ok_def wf_state_def)
  with Cons show ?thesis by (simp add: acc_parts_def wf_elems_last)
qed (simp add: acc_parts_def wf_state_def)

lemma set_acc_wf: "wf_state st \<Longrightarrow> wf_word ps \<Longrightarrow> wf_state (set_acc ps st)"
  by (cases "open_cands st") (auto simp: set_acc_def wf_state_def wf_elems_iff dest: in_set_butlastD)

lemma addLit_wf: "split_inv st \<Longrightarrow> wf_state st \<Longrightarrow> wf_state (addLit l st)"
  by (cases l) (simp_all add: addLit_def set_acc_wf append_lit_wf acc_wf)

lemma addPart_wf: "split_inv st \<Longrightarrow> wf_state st \<Longrightarrow> wf_part p \<Longrightarrow> wf_state (addPart p st)"
  by (cases p) (simp_all add: addPart_def set_acc_wf acc_wf addLit_wf)

lemma addPart_inv: "split_inv st \<Longrightarrow> split_inv (addPart p st)"
  using addPart_appends [of p st] by (simp add: appends_def)

lemma addLit_inv: "split_inv st \<Longrightarrow> split_inv (addLit l st)"
  using addLit_appends [of l st] by (simp add: appends_def)

lemma fold_addPart_wf:
  "split_inv st \<Longrightarrow> wf_state st \<Longrightarrow> wf_word ps \<Longrightarrow> wf_state (fold addPart ps st) \<and> split_inv (fold addPart ps st)"
  by (induction ps arbitrary: st) (auto simp: addPart_wf addPart_inv)

lemma add_elems_wf:
  "split_inv st \<Longrightarrow> wf_state st \<Longrightarrow> wf_elems es \<Longrightarrow> wf_state (add_elems seps es st) \<and> split_inv (add_elems seps es st)"
  by (induction seps es st rule: add_elems.induct) (simp_all add: fold_addPart_wf addLit_wf addLit_inv)

lemma addCandidateLiteral_wf:
  "split_inv st \<Longrightarrow> wf_state st \<Longrightarrow> wf_elems (Elems c) \<Longrightarrow> wf_state (addCandidateLiteral c st)"
  by (simp add: addCandidateLiteral_def addLit_wf addLit_inv add_elems_wf)

lemma comma_elems_wf:
  "length es = length seps \<Longrightarrow> wf_elems done \<Longrightarrow> wf_elems es \<Longrightarrow> done \<noteq> [] \<Longrightarrow>
     wf_elems (comma_elems done seps es) \<and>
     length (comma_elems done seps es) = length done + length (filter (\<lambda>s. fst s = braceSepComma) seps)"
proof (induction "done" seps es rule: comma_elems.induct)
  case (2 "done" lit seps e es)
  then have "wf_elems (butlast done)" "wf_word (last done)" by (simp_all add: wf_elems_last)
  with 2 show ?case by (simp add: wf_elems_last Suc_le_eq)
qed (simp_all add: wf_elems_last)

lemma node_wf:
  assumes "cand_ok c" "wf_elems (Elems c)" "braceCandidateNode c = Some p"
  shows "wf_part p"
proof -
  obtain e es where E: "Elems c = e # es" using assms(1) by (cases "Elems c") (auto simp: cand_ok_def)
  have "filter (\<lambda>s. fst s = braceSepComma) (Seps c) \<noteq> []" if "list_ex (\<lambda>s. fst s = braceSepComma) (Seps c)"
    using that by (auto simp: list_ex_iff filter_empty_conv)
  then show ?thesis
    using assms E comma_elems_wf [of es "Seps c" "[e]"]
    by (auto simp: braceCandidateNode_def braceCommaElems_def cand_ok_def Suc_le_eq split: if_splits)
qed

lemma closeBrace_wf: "split_inv st \<Longrightarrow> wf_state st \<Longrightarrow> cand_ok c \<Longrightarrow> wf_elems (Elems c) \<Longrightarrow> wf_state (closeBrace c st)"
  by (auto simp: closeBrace_def addCandidateLiteral_wf addPart_wf node_wf split: option.splits)

lemma brace_step_wf: "brace_step t st st1 \<Longrightarrow> split_inv st \<Longrightarrow> wf_state st \<Longrightarrow> wf_state st1"
proof (induction rule: brace_step.induct)
  case (rbrace l st)
  then obtain c cs where c: "open_cands st = c # cs" by (cases "open_cands st") auto
  then show ?case
    using rbrace closeBrace_wf [of "st\<lparr>open_cands := cs\<rparr>" "c\<lparr>Rbrace := Some l\<rparr>"]
    by (simp add: close_top_def split_inv_def wf_state_def cand_ok_def)
qed (auto simp: open_brace_def add_sep_def wf_state_def wf_elems_iff split: list.splits)

lemma lit_loop_wf:
  assumes "split_inv st" "wf_state st" "pend \<le> j" "j \<le> length (Value lit)"
  shows "wf_state (snd (lit_loop lit j pend st))"
  using assms
proof (induction "length (Value lit) - j" arbitrary: j pend st rule: less_induct)
  case less
  show ?case
  proof (cases lit j pend st rule: lit_loop_cases)
    case (step k s2)
    have "split_inv s2" using brace_step_appends [OF step(4)] addLit_inv less.prems by (auto simp: appends_def)
    moreover have "wf_state s2" using brace_step_wf [OF step(4)] less.prems by (simp add: addLit_inv addLit_wf)
    ultimately show ?thesis using step less.hyps [of "j + k" s2 "j + k"] by simp
  qed (use less.prems less.hyps [of "j + 1" st pend] in simp_all)
qed

lemma split_part_wf: "split_inv st \<Longrightarrow> wf_state st \<Longrightarrow> wf_part p \<Longrightarrow> wf_state (split_part p st)"
proof (cases p)
  case (PLit lit)
  assume a: "split_inv st" "wf_state st"
  obtain n st1 where l: "lit_loop lit 0 0 st = (n, st1)" by fastforce
  with a have "wf_state st1" "split_inv st1" using lit_loop_wf [of st 0 0 lit] lit_loop_text [OF l] by simp_all
  with PLit l show ?thesis by (simp add: split_part_def addPart_wf addLit_wf)
qed (simp_all add: split_part_def addPart_wf)

lemma fold_split_wf: "split_inv st \<Longrightarrow> wf_state st \<Longrightarrow> wf_word ps \<Longrightarrow> wf_state (fold split_part ps st)"
proof (induction ps arbitrary: st)
  case (Cons p ps)
  then have "split_inv (split_part p st)" "wf_state (split_part p st)"
    using split_part_appends [of p st] by (simp_all add: appends_def split_part_wf)
  with Cons show ?case by simp
qed simp

lemma close_all_wf: "split_inv st \<Longrightarrow> wf_state st \<Longrightarrow> wf_word (top_parts (close_all st))"
proof (induction st rule: close_all.induct)
  case (1 st)
  show ?case
  proof (cases "open_cands st")
    case Nil
    then show ?thesis using 1 by (simp add: close_all.simps wf_state_def)
  next
    case (Cons c cs)
    let ?st = "st\<lparr>open_cands := cs\<rparr>"
    have "split_inv ?st" "wf_state ?st" "wf_elems (Elems c)" using "1.prems" Cons by (simp_all add: split_inv_def wf_state_def)
    then show ?thesis
      using Cons 1(1) addCandidateLiteral_appends [of c ?st]
      by (simp add: close_all.simps [of st] appends_def addCandidateLiteral_wf)
  qed
qed

lemma split_wf: "wf_word parts \<Longrightarrow> wf_word (splitBraceWordParts parts)" for parts :: "'p part list"
proof -
  assume w: "wf_word parts"
  let ?st = "\<lparr>top_parts = [], open_cands = []\<rparr> :: 'p split_state"
  have i: "split_inv ?st" "wf_state ?st" by (simp_all add: split_inv_def wf_state_def)
  then have "split_inv (fold split_part parts ?st)" using fold_split_appends [of parts ?st] by (simp add: appends_def)
  then show ?thesis using w i by (simp add: splitBraceWordParts_def close_all_wf fold_split_wf)
qed

text \<open>
  (C30) The split builds well-formed brace expressions: a list has at least two elements and a
  sequence two or three literal bounds of one kind. Expanding its result, whatever the printer
  and the budget, therefore never panics: it returns words, a bad substitution or the limit
  error.
\<close>

theorem split_expands_without_panic:
  assumes "word_braces parts = 0"
  shows "wf_word (splitBraceWordParts parts) \<and> fst (braces print (splitBraceWordParts parts) b) \<noteq> Inl Panic"
proof -
  have "word_braces ps = 0 \<Longrightarrow> wf_word ps" for ps :: "'a part list"
  proof (induction ps)
    case (Cons p ps)
    then show ?case by (cases p) auto
  qed simp
  with assms have "wf_word (splitBraceWordParts parts)" by (simp add: split_wf)
  then show ?thesis by (simp add: braces_panic_free)
qed

theorem split_expands_without_panic_witness:
  "wf_word (splitBraceWordParts [new_lit ''{a..,{1..3}}'' :: nat part]) \<and>
     fst (braces (\<lambda>_. '''') (splitBraceWordParts [new_lit ''{a..,{1..3}}'' :: nat part]) None) \<noteq> Inl Panic"
  using split_expands_without_panic [of "[new_lit ''{a..,{1..3}}'' :: nat part]"] by (simp add: new_lit_def)

end
