(* ===== verification/Trie.thy ===== *)
theory Trie
  imports FileSys
begin

text \<open>
  The trie-backed file system of \<open>fs/trie.go\<close>. Directory entries (\<open>trieDentry\<close>) and inodes
  (\<open>trieInode\<close>) are objects that point to each other: an entry knows its parent entry and its
  inode, the inode of a directory holds a map from names to entries. Both kinds of object live
  in heaps of the state, addressed by numbers; several entries may share an inode (hard links).
  As for the in-memory file system, an operation under the lock is one step, the clock is the
  argument \<open>now\<close>, and a lazy provider is represented by the result of its call.
\<close>

section \<open>State\<close>

record trieDentry =
  d_name :: string
  d_parent :: "nat option"
  d_inode :: nat

text \<open>
  A map of children is an association list, absent (\<open>nil\<close>) for everything but directories. The
  cached list of names is a slice that may be \<open>nil\<close> too.
\<close>

record trieInode =
  i_id :: nat
  i_mode :: FileMode
  i_data :: bytes
  i_lazy :: "(go_error + bytes) option"
  i_target :: string
  i_children :: "(string \<times> nat) list option"
  i_names :: "string list option"
  i_dirty :: bool
  i_atime :: gotime
  i_modTime :: gotime
  i_uid :: "32 word"
  i_gid :: "32 word"

record TrieFS =
  t_cwd :: string
  t_root :: nat
  t_nextNodeID :: nat
  t_dents :: "nat \<Rightarrow> trieDentry"
  t_inodes :: "nat \<Rightarrow> trieInode"
  t_nextDent :: nat
  t_nextInode :: nat

definition blank_inode :: "FileMode \<Rightarrow> gotime \<Rightarrow> trieInode" where
  "blank_inode mode now =
     \<lparr>i_id = 0, i_mode = mode, i_data = [], i_lazy = None, i_target = [], i_children = None, i_names = None,
      i_dirty = False, i_atime = now, i_modTime = now, i_uid = DefaultOwnerUID, i_gid = DefaultOwnerGID\<rparr>"

definition NewTrie :: "gotime \<Rightarrow> TrieFS" where
  "NewTrie now =
     \<lparr>t_cwd = ''/'', t_root = 0, t_nextNodeID = 1,
      t_dents = (\<lambda>_. \<lparr>d_name = '''', d_parent = None, d_inode = 0\<rparr>),
      t_inodes = (\<lambda>_. (blank_inode (ModeDir OR 0x1ED) now)\<lparr>i_id := 1, i_children := Some []\<rparr>),
      t_nextDent = 1, t_nextInode = 1\<rparr>"

section \<open>Elementary state changes\<close>

abbreviation inode :: "TrieFS \<Rightarrow> nat \<Rightarrow> trieInode" where
  "inode t d \<equiv> t_inodes t (d_inode (t_dents t d))"

text \<open>The lookup \<open>children[name]\<close>, also in a \<open>nil\<close> map.\<close>

definition child_of :: "TrieFS \<Rightarrow> nat \<Rightarrow> string \<Rightarrow> nat option" where
  "child_of t d name = (case i_children (inode t d) of None \<Rightarrow> None | Some cs \<Rightarrow> map_of cs name)"

definition update_inode :: "nat \<Rightarrow> (trieInode \<Rightarrow> trieInode) \<Rightarrow> TrieFS \<Rightarrow> TrieFS" where
  "update_inode i f t = t\<lparr>t_inodes := (t_inodes t)(i := f (t_inodes t i))\<rparr>"

definition update_dent :: "nat \<Rightarrow> (trieDentry \<Rightarrow> trieDentry) \<Rightarrow> TrieFS \<Rightarrow> TrieFS" where
  "update_dent d f t = t\<lparr>t_dents := (t_dents t)(d := f (t_dents t d))\<rparr>"

definition trie_newNodeID :: "TrieFS \<Rightarrow> nat \<times> TrieFS" where
  "trie_newNodeID t = (Suc (t_nextNodeID t), t\<lparr>t_nextNodeID := Suc (t_nextNodeID t)\<rparr>)"

definition new_inode :: "trieInode \<Rightarrow> TrieFS \<Rightarrow> nat \<times> TrieFS" where
  "new_inode node t =
     (let (n, t1) = trie_newNodeID t; i = t_nextInode t1
      in (i, t1\<lparr>t_nextInode := Suc i, t_inodes := (t_inodes t1)(i := node\<lparr>i_id := n\<rparr>)\<rparr>))"

definition new_dent :: "trieDentry \<Rightarrow> TrieFS \<Rightarrow> nat \<times> TrieFS" where
  "new_dent e t = (t_nextDent t, t\<lparr>t_nextDent := Suc (t_nextDent t), t_dents := (t_dents t)(t_nextDent t := e)\<rparr>)"

definition attachChildLocked :: "nat \<Rightarrow> nat \<Rightarrow> TrieFS \<Rightarrow> TrieFS" where
  "attachChildLocked parent child t =
     (case i_children (inode t parent) of
        None \<Rightarrow> t
      | Some cs \<Rightarrow>
          update_inode (d_inode (t_dents t parent))
            (\<lambda>n. n\<lparr>i_children := Some (AList.update (d_name (t_dents t child)) child cs), i_dirty := True\<rparr>) t)"

definition detachChildLocked :: "nat option \<Rightarrow> string \<Rightarrow> TrieFS \<Rightarrow> TrieFS" where
  "detachChildLocked parent name t =
     (case parent of
        None \<Rightarrow> t
      | Some p \<Rightarrow>
          (case i_children (inode t p) of
             None \<Rightarrow> t
           | Some cs \<Rightarrow>
               update_inode (d_inode (t_dents t p))
                 (\<lambda>n. n\<lparr>i_children := Some (filter (\<lambda>kv. fst kv \<noteq> name) cs), i_dirty := True\<rparr>) t))"

text \<open>A new entry with a new inode, attached to its parent.\<close>

definition trie_install :: "nat \<Rightarrow> string \<Rightarrow> trieInode \<Rightarrow> TrieFS \<Rightarrow> nat \<times> TrieFS" where
  "trie_install parent name node t =
     (let (i, t1) = new_inode node t; (d, t2) = new_dent \<lparr>d_name = name, d_parent = Some parent, d_inode = i\<rparr> t1
      in (d, attachChildLocked parent d t2))"

section \<open>Path resolution\<close>

definition trieSplitPath :: "string \<Rightarrow> string list" where
  "trieSplitPath p = (if p = ''/'' then [] else split_on slash (TrimPrefix p ''/''))"

fun trie_walk ::
  "TrieFS \<Rightarrow> bool \<Rightarrow> bool \<Rightarrow> nat \<Rightarrow> string \<Rightarrow> string list \<Rightarrow> (string \<times> nat option) walk" where
  "trie_walk t followFinal allowMissingFinal current currentAbs [] = Return (Inr (''/'', Some (t_root t)))"
| "trie_walk t followFinal allowMissingFinal current currentAbs (part # rest) =
     (case child_of t current part of
        None \<Rightarrow>
          if rest = [] \<and> allowMissingFinal then Return (Inr (joinChildPath currentAbs part, None))
          else Return (Inl (Errno ErrNotExist))
      | Some child \<Rightarrow>
          let nextAbs = joinChildPath currentAbs part; node = inode t child
          in if i_mode node AND ModeSymlink \<noteq> 0 \<and> (rest \<noteq> [] \<or> followFinal) then
               let target = Resolve currentAbs (i_target node)
               in Restart (if rest = [] then target else Resolve target (path_JoinAll rest))
             else if rest = [] then Return (Inr (nextAbs, Some child))
             else if \<not> mode_IsDir (i_mode node) then Return (Inl (Errno ErrInvalid))
             else trie_walk t followFinal allowMissingFinal child nextAbs rest)"

function trie_resolveAbs ::
  "TrieFS \<Rightarrow> string \<Rightarrow> bool \<Rightarrow> bool \<Rightarrow> nat \<Rightarrow> go_error + string \<times> nat option" where
  "trie_resolveAbs t name followFinal allowMissingFinal depth =
     (let absn = Clean name
      in if maxSymlinkDepth < depth then Inl (Errno ErrTooManySymlinks)
         else if absn = ''/'' then Inr (''/'', Some (t_root t))
         else (case trie_walk t followFinal allowMissingFinal (t_root t) ''/'' (trieSplitPath absn) of
                 Return r \<Rightarrow> r
               | Restart target \<Rightarrow> trie_resolveAbs t target True allowMissingFinal (Suc depth)))"
  by pat_completeness auto
termination
  by (relation "measure (\<lambda>(t, p, f, a, depth). Suc maxSymlinkDepth - depth)") (auto simp: maxSymlinkDepth_def)

declare trie_resolveAbs.simps [simp del]

definition trie_resolvePath ::
  "TrieFS \<Rightarrow> string \<Rightarrow> bool \<Rightarrow> bool \<Rightarrow> go_error + string \<times> nat option" where
  "trie_resolvePath t name followFinal allowMissingFinal =
     (case trie_resolveAbs t (Resolve (t_cwd t) name) followFinal allowMissingFinal 0 of
        Inl e \<Rightarrow> Inl e
      | Inr (p, None) \<Rightarrow> if allowMissingFinal then Inr (p, None) else Inl (Errno ErrNotExist)
      | Inr (p, Some d) \<Rightarrow> Inr (p, Some d))"

fun trie_walkCreate :: "TrieFS \<Rightarrow> string \<Rightarrow> nat \<Rightarrow> string \<Rightarrow> string list \<Rightarrow> string walk" where
  "trie_walkCreate t absn current currentAbs [] = Return (Inr absn)"
| "trie_walkCreate t absn current currentAbs (part # rest) =
     (case child_of t current part of
        None \<Rightarrow> Return (Inr (Resolve currentAbs (path_JoinAll (part # rest))))
      | Some child \<Rightarrow>
          let nextAbs = joinChildPath currentAbs part; node = inode t child
          in if i_mode node AND ModeSymlink \<noteq> 0 then
               let target = Resolve currentAbs (i_target node)
               in Restart (if rest = [] then target else Resolve target (path_JoinAll rest))
             else if rest = [] then Return (Inr nextAbs)
             else if \<not> mode_IsDir (i_mode node) then Return (Inl (Errno ErrInvalid))
             else trie_walkCreate t absn child nextAbs rest)"

function trie_resolveCreate :: "TrieFS \<Rightarrow> string \<Rightarrow> nat \<Rightarrow> go_error + string" where
  "trie_resolveCreate t name depth =
     (let absn = Clean name
      in if maxSymlinkDepth < depth then Inl (Errno ErrTooManySymlinks)
         else if absn = ''/'' then Inr absn
         else (case trie_walkCreate t absn (t_root t) ''/'' (trieSplitPath absn) of
                 Return r \<Rightarrow> r
               | Restart target \<Rightarrow> trie_resolveCreate t target (Suc depth)))"
  by pat_completeness auto
termination
  by (relation "measure (\<lambda>(t, p, depth). Suc maxSymlinkDepth - depth)") (auto simp: maxSymlinkDepth_def)

declare trie_resolveCreate.simps [simp del]

fun trie_follow :: "TrieFS \<Rightarrow> nat \<Rightarrow> string list \<Rightarrow> nat option" where
  "trie_follow t d [] = Some d"
| "trie_follow t d (c # cs) = (case child_of t d c of None \<Rightarrow> None | Some e \<Rightarrow> trie_follow t e cs)"

definition lookupAbsNoFollowLocked :: "TrieFS \<Rightarrow> string \<Rightarrow> nat option" where
  "lookupAbsNoFollowLocked t name =
     (let absn = Clean name in if absn = ''/'' then Some (t_root t) else trie_follow t (t_root t) (trieSplitPath absn))"

section \<open>Creating directories\<close>

fun trie_mkdir_loop ::
  "gotime \<Rightarrow> FileMode \<Rightarrow> nat \<Rightarrow> string \<Rightarrow> string list \<Rightarrow> TrieFS \<Rightarrow> (go_error + unit) \<times> TrieFS" where
  "trie_mkdir_loop now perm current currentAbs [] t = (Inr (), t)"
| "trie_mkdir_loop now perm current currentAbs (part # rest) t =
     (let nextAbs = joinChildPath currentAbs part
      in (case child_of t current part of
            Some child \<Rightarrow>
              if i_mode (inode t child) AND ModeSymlink \<noteq> 0 then
                (case trie_resolveAbs t nextAbs True False 0 of
                   Inl e \<Rightarrow> (Inl (PathError ''mkdir'' nextAbs e), t)
                 | Inr (resolvedAbs, None) \<Rightarrow> (Inl (PathError ''mkdir'' nextAbs (Errno ErrNotExist)), t)
                 | Inr (resolvedAbs, Some resolved) \<Rightarrow>
                     if \<not> mode_IsDir (i_mode (inode t resolved)) then (Inl (PathError ''mkdir'' nextAbs (Errno ErrInvalid)), t)
                     else trie_mkdir_loop now perm resolved resolvedAbs rest t)
              else if \<not> mode_IsDir (i_mode (inode t child)) then (Inl (PathError ''mkdir'' nextAbs (Errno ErrInvalid)), t)
              else trie_mkdir_loop now perm child nextAbs rest t
          | None \<Rightarrow>
              (case trie_install current part ((blank_inode (ModeDir OR perm) now)\<lparr>i_children := Some []\<rparr>) t of
                 (child, t1) \<Rightarrow> trie_mkdir_loop now perm child nextAbs rest t1)))"

definition trie_mkdirAll :: "gotime \<Rightarrow> string \<Rightarrow> FileMode \<Rightarrow> TrieFS \<Rightarrow> (go_error + unit) \<times> TrieFS" where
  "trie_mkdirAll now name perm t =
     (let name = Clean name; perm' = (if perm AND storedPermBits = 0 then 0x1ED else perm AND storedPermBits)
      in if name = ''/'' then (Inr (), t) else trie_mkdir_loop now perm' (t_root t) ''/'' (trieSplitPath name) t)"

definition tr_MkdirAll :: "gotime \<Rightarrow> string \<Rightarrow> FileMode \<Rightarrow> TrieFS \<Rightarrow> (go_error + unit) \<times> TrieFS" where
  "tr_MkdirAll now name perm t = trie_mkdirAll now (Resolve (t_cwd t) name) perm t"

definition createParentLocked :: "string \<Rightarrow> string \<Rightarrow> TrieFS \<Rightarrow> go_error + nat" where
  "createParentLocked op absn t =
     (case lookupAbsNoFollowLocked t (parentDir absn) of
        None \<Rightarrow> Inl (PathError op absn (Errno ENOENT))
      | Some parent \<Rightarrow>
          if \<not> mode_IsDir (i_mode (inode t parent)) then Inl (PathError op absn (Errno ENOTDIR)) else Inr parent)"

section \<open>Lazy contents\<close>

definition isLazyTrieFileNode :: "trieInode \<Rightarrow> bool" where
  "isLazyTrieFileNode node =
     (i_lazy node \<noteq> None \<and> \<not> mode_IsDir (i_mode node) \<and> i_mode node AND ModeSymlink = 0)"

definition materializeInode :: "nat \<Rightarrow> TrieFS \<Rightarrow> (go_error + unit) \<times> TrieFS" where
  "materializeInode i t =
     (if \<not> isLazyTrieFileNode (t_inodes t i) then (Inr (), t)
      else (case i_lazy (t_inodes t i) of
              Some (Inl e) \<Rightarrow> (Inl e, t)
            | Some (Inr d) \<Rightarrow> (Inr (), update_inode i (\<lambda>n. n\<lparr>i_data := d, i_lazy := None\<rparr>) t)
            | None \<Rightarrow> (Inr (), t)))"

definition trie_materializePath :: "string \<Rightarrow> bool \<Rightarrow> TrieFS \<Rightarrow> (go_error + string) \<times> TrieFS" where
  "trie_materializePath name followFinal t =
     (case trie_resolvePath t name followFinal False of
        Inl e \<Rightarrow> (Inl e, t)
      | Inr (p, None) \<Rightarrow> (Inr p, t)
      | Inr (p, Some d) \<Rightarrow>
          (case materializeInode (d_inode (t_dents t d)) t of
             (Inl e, t1) \<Rightarrow> (Inl e, t1)
           | (Inr _, t1) \<Rightarrow> (Inr p, t1)))"

section \<open>Opening files\<close>

record trieFile =
  tf_path :: string
  tf_inode :: nat
  tf_flag :: goflags
  tf_offset :: nat
  tf_closed :: bool

text \<open>
  \<open>OpenFile\<close> in the four stages of the in-memory file system: load lazy contents, find the
  entry, make it, open it.
\<close>

definition trie_open_preload :: "string \<Rightarrow> goflags \<Rightarrow> TrieFS \<Rightarrow> (go_error + unit) \<times> TrieFS" where
  "trie_open_preload name flag t =
     (if (flag AND O_TRUNC = 0 \<or> \<not> canWrite flag) \<and> flag AND (O_CREATE OR O_EXCL) \<noteq> (O_CREATE OR O_EXCL)
      then (case trie_materializePath name True t of
              (Inr _, t1) \<Rightarrow> (Inr (), t1)
            | (Inl err, t1) \<Rightarrow>
                if flag AND O_CREATE = 0 \<or> \<not> errors_Is err ErrNotExist
                then (Inl (PathError ''open'' (Resolve (t_cwd t) name)
                        (if flag AND O_CREATE \<noteq> 0 then createParentError err else err)), t1)
                else (Inr (), t1))
      else (Inr (), t))"

definition trie_open_locate :: "string \<Rightarrow> goflags \<Rightarrow> TrieFS \<Rightarrow> go_error + string \<times> nat option" where
  "trie_open_locate name flag t =
     (let requested = Resolve (t_cwd t) name
      in if flag AND O_CREATE \<noteq> 0 then
           (case (if flag AND O_EXCL \<noteq> 0 then trie_resolveAbs t requested False True 0 else Inl (Errno ErrNotExist)) of
              Inr (linkAbs, Some _) \<Rightarrow> Inl (PathError ''open'' linkAbs (Errno ErrExist))
            | _ \<Rightarrow>
                (case trie_resolveCreate t requested 0 of
                   Inl err \<Rightarrow> Inl (PathError ''open'' requested (createParentError err))
                 | Inr p \<Rightarrow> Inr (p, lookupAbsNoFollowLocked t p)))
         else (case trie_resolveAbs t requested True False 0 of
                 Inl err \<Rightarrow> Inl (PathError ''open'' requested err)
               | Inr pd \<Rightarrow> Inr pd))"

definition trie_open_make ::
  "gotime \<Rightarrow> goflags \<Rightarrow> FileMode \<Rightarrow> string \<Rightarrow> nat option \<Rightarrow> TrieFS \<Rightarrow> (go_error + nat) \<times> TrieFS" where
  "trie_open_make now flag perm p entry t =
     (case entry of
        None \<Rightarrow>
          if flag AND O_CREATE = 0 then (Inl (PathError ''open'' p (Errno ErrNotExist)), t)
          else (case createParentLocked ''open'' p t of
                  Inl e \<Rightarrow> (Inl e, t)
                | Inr parent \<Rightarrow>
                    let perm' = (if perm AND storedPermBits = 0 then 0x1A4 else perm AND storedPermBits);
                        (d, t1) = trie_install parent (path_Base p) (blank_inode perm' now) t
                    in (Inr d, t1))
      | Some d \<Rightarrow>
          if flag AND O_CREATE \<noteq> 0 \<and> flag AND O_EXCL \<noteq> 0 then (Inl (PathError ''open'' p (Errno ErrExist)), t)
          else (Inr d, t))"

definition trie_open_finish ::
  "gotime \<Rightarrow> goflags \<Rightarrow> string \<Rightarrow> nat \<Rightarrow> TrieFS \<Rightarrow> (go_error + trieFile) \<times> TrieFS" where
  "trie_open_finish now flag p d t =
     (let i = d_inode (t_dents t d)
      in if mode_IsDir (i_mode (t_inodes t i)) then (Inl (PathError ''open'' p (Errno ErrInvalid)), t)
         else
           let t1 = (if flag AND O_TRUNC \<noteq> 0 \<and> canWrite flag
                     then update_inode i (\<lambda>n. n\<lparr>i_lazy := None, i_data := [], i_modTime := now\<rparr>) t else t);
               offset = (if flag AND O_APPEND \<noteq> 0 then length (i_data (t_inodes t1 i)) else 0)
           in (Inr \<lparr>tf_path = p, tf_inode = i, tf_flag = flag, tf_offset = offset, tf_closed = False\<rparr>, t1))"

definition tr_OpenFile ::
  "gotime \<Rightarrow> string \<Rightarrow> goflags \<Rightarrow> FileMode \<Rightarrow> TrieFS \<Rightarrow> (go_error + trieFile) \<times> TrieFS" where
  "tr_OpenFile now name flag perm t0 =
     (case trie_open_preload name flag t0 of
        (Inl e, t) \<Rightarrow> (Inl e, t)
      | (Inr _, t) \<Rightarrow>
          (case trie_open_locate name flag t of
             Inl e \<Rightarrow> (Inl e, t)
           | Inr (p, entry) \<Rightarrow>
               (case trie_open_make now flag perm p entry t of
                  (Inl e, t1) \<Rightarrow> (Inl e, t1)
                | (Inr d, t1) \<Rightarrow> trie_open_finish now flag p d t1)))"

definition tr_Open :: "gotime \<Rightarrow> string \<Rightarrow> TrieFS \<Rightarrow> (go_error + trieFile) \<times> TrieFS" where
  "tr_Open now name t = tr_OpenFile now name O_RDONLY 0 t"

section \<open>Metadata\<close>

definition newTrieFileInfo :: "string \<Rightarrow> trieInode \<Rightarrow> fileInfo" where
  "newTrieFileInfo name node =
     \<lparr>fi_name = name,
      fi_size = (if mode_IsDir (i_mode node) then 0
                 else if i_mode node AND ModeSymlink \<noteq> 0 then int (length (i_target node))
                 else int (length (i_data node))),
      fi_mode = i_mode node, fi_atime = firstNonZeroTime [i_atime node, i_modTime node], fi_modTime = i_modTime node,
      fi_uid = i_uid node, fi_gid = i_gid node, fi_nodeID = i_id node, fi_owned = True\<rparr>"

definition tr_stat_op :: "string \<Rightarrow> bool \<Rightarrow> string \<Rightarrow> TrieFS \<Rightarrow> (go_error + fileInfo) \<times> TrieFS" where
  "tr_stat_op op follow name t =
     (case trie_materializePath name follow t of
        (Inl e, t1) \<Rightarrow> (Inl (PathError op (Resolve (t_cwd t) name) e), t1)
      | (Inr p, t1) \<Rightarrow>
          (case lookupAbsNoFollowLocked t1 p of
             None \<Rightarrow> (Inl (PathError op p (Errno ErrNotExist)), t1)
           | Some d \<Rightarrow> (Inr (newTrieFileInfo (path_Base p) (inode t1 d)), t1)))"

definition tr_Stat :: "string \<Rightarrow> TrieFS \<Rightarrow> (go_error + fileInfo) \<times> TrieFS" where
  "tr_Stat name t = tr_stat_op ''stat'' True name t"

definition tr_Lstat :: "string \<Rightarrow> TrieFS \<Rightarrow> (go_error + fileInfo) \<times> TrieFS" where
  "tr_Lstat name t = tr_stat_op ''lstat'' False name t"

text \<open>
  Listing a directory. The names are cached in its inode: \<open>sortedChildNamesLocked\<close> fills the
  cache, \<open>ReadDir\<close> uses it under the read lock when it is clean and has the right length.
\<close>

definition sortedChildNamesLocked :: "nat \<Rightarrow> TrieFS \<Rightarrow> string list \<times> TrieFS" where
  "sortedChildNamesLocked i t =
     (let node = t_inodes t i
      in (case i_children node of
            None \<Rightarrow> ([], t)
          | Some cs \<Rightarrow>
              (case i_names node of
                 Some names \<Rightarrow>
                   if \<not> i_dirty node then (names, t)
                   else (sort (map fst cs), update_inode i (\<lambda>n. n\<lparr>i_names := Some (sort (map fst cs)), i_dirty := False\<rparr>) t)
               | None \<Rightarrow>
                   (sort (map fst cs),
                    update_inode i (\<lambda>n. n\<lparr>i_names := (if cs = [] then None else Some (sort (map fst cs))), i_dirty := False\<rparr>) t))))"

definition dirEntriesLocked :: "string \<Rightarrow> nat \<Rightarrow> string list \<Rightarrow> TrieFS \<Rightarrow> memoryDirEntry list" where
  "dirEntriesLocked absn d names t =
     concat (map (\<lambda>name.
       case child_of t d name of
         None \<Rightarrow> []
       | Some child \<Rightarrow> [\<lparr>de_name = name, de_path = joinChildPath absn name, de_mode = i_mode (inode t child)\<rparr>]) names)"

definition tr_ReadDir :: "string \<Rightarrow> TrieFS \<Rightarrow> (go_error + memoryDirEntry list) \<times> TrieFS" where
  "tr_ReadDir name t =
     (let requested = Resolve (t_cwd t) name
      in (case trie_resolveAbs t requested True False 0 of
            Inl e \<Rightarrow> (Inl (PathError ''readdir'' requested e), t)
          | Inr (p, None) \<Rightarrow> (Inl (PathError ''readdir'' p (Errno ErrNotExist)), t)
          | Inr (p, Some d) \<Rightarrow>
              let node = inode t d; names = (case i_names node of None \<Rightarrow> [] | Some names \<Rightarrow> names);
                  count = (case i_children node of None \<Rightarrow> 0 | Some cs \<Rightarrow> length cs)
              in if \<not> mode_IsDir (i_mode node) then (Inl (PathError ''readdir'' p (Errno ErrInvalid)), t)
                 else if \<not> i_dirty node \<and> length names = count then (Inr (dirEntriesLocked p d names t), t)
                 else (case sortedChildNamesLocked (d_inode (t_dents t d)) t of
                         (names1, t1) \<Rightarrow> (Inr (dirEntriesLocked p d names1 t1), t1))))"

definition tr_Readlink :: "string \<Rightarrow> TrieFS \<Rightarrow> go_error + string" where
  "tr_Readlink name t =
     (case trie_resolvePath t name False False of
        Inl e \<Rightarrow> Inl (PathError ''readlink'' (Resolve (t_cwd t) name) e)
      | Inr (p, None) \<Rightarrow> Inl (PathError ''readlink'' (Resolve (t_cwd t) name) (Errno ErrNotExist))
      | Inr (p, Some d) \<Rightarrow>
          if i_mode (inode t d) AND ModeSymlink = 0 then Inl (PathError ''readlink'' p (Errno ErrInvalid))
          else Inr (i_target (inode t d)))"

definition tr_Realpath :: "string \<Rightarrow> TrieFS \<Rightarrow> go_error + string" where
  "tr_Realpath name t =
     (case trie_resolvePath t name True False of
        Inl e \<Rightarrow> Inl (PathError ''realpath'' (Resolve (t_cwd t) name) e)
      | Inr (p, _) \<Rightarrow> Inr p)"

text \<open>The changes of a resolved inode. \<open>Chmod\<close> and \<open>Chtimes\<close> rely on the entry that a success has.\<close>

definition on_inode :: "string \<Rightarrow> bool \<Rightarrow> (trieInode \<Rightarrow> trieInode) \<Rightarrow> string \<Rightarrow> TrieFS \<Rightarrow> (go_error + unit) \<times> TrieFS" where
  "on_inode op follow f name t =
     (case trie_resolvePath t name follow False of
        Inl e \<Rightarrow> (Inl (PathError op (Resolve (t_cwd t) name) e), t)
      | Inr (p, None) \<Rightarrow> (Inl (PathError op (Resolve (t_cwd t) name) (Errno ErrNotExist)), t)
      | Inr (p, Some d) \<Rightarrow> (Inr (), update_inode (d_inode (t_dents t d)) f t))"

definition tr_Chown :: "string \<Rightarrow> 32 word \<Rightarrow> 32 word \<Rightarrow> bool \<Rightarrow> TrieFS \<Rightarrow> (go_error + unit) \<times> TrieFS" where
  "tr_Chown name uid gid follow t = on_inode ''chown'' follow (\<lambda>n. n\<lparr>i_uid := uid, i_gid := gid\<rparr>) name t"

definition tr_Chmod :: "gotime \<Rightarrow> string \<Rightarrow> FileMode \<Rightarrow> TrieFS \<Rightarrow> (go_error + unit) \<times> TrieFS" where
  "tr_Chmod now name mode t =
     on_inode ''chmod'' True
       (\<lambda>n. n\<lparr>i_mode := i_mode n AND NOT storedPermBits OR mode AND storedPermBits, i_modTime := now\<rparr>) name t"

definition tr_Chtimes :: "gotime \<Rightarrow> string \<Rightarrow> gotime \<Rightarrow> gotime \<Rightarrow> TrieFS \<Rightarrow> (go_error + unit) \<times> TrieFS" where
  "tr_Chtimes now name atime mtime t =
     on_inode ''chtimes'' True
       (\<lambda>n. n\<lparr>i_atime := (if IsZero atime then now else atime), i_modTime := (if IsZero mtime then now else mtime)\<rparr>) name t"

section \<open>Links, removal, renaming\<close>

definition trie_symlink_locate :: "string \<Rightarrow> TrieFS \<Rightarrow> go_error + string" where
  "trie_symlink_locate linkName t =
     (let requested = Resolve (t_cwd t) linkName
      in (case trie_resolvePath t linkName False True of
            Inr (p, Some _) \<Rightarrow> Inl (PathError ''symlink'' p (Errno ErrExist))
          | Inr (p, None) \<Rightarrow> Inr p
          | Inl err \<Rightarrow>
              if errors_Is err ErrNotExist then
                (case trie_resolveCreate t (parentDir requested) 0 of
                   Inl parentErr \<Rightarrow> Inl (PathError ''symlink'' requested (createParentError parentErr))
                 | Inr parentAbs \<Rightarrow> Inr (Resolve parentAbs (path_Base requested)))
              else Inl (PathError ''symlink'' requested err)))"

definition tr_Symlink :: "gotime \<Rightarrow> string \<Rightarrow> string \<Rightarrow> TrieFS \<Rightarrow> (go_error + unit) \<times> TrieFS" where
  "tr_Symlink now target linkName t =
     (case trie_symlink_locate linkName t of
        Inl e \<Rightarrow> (Inl e, t)
      | Inr p \<Rightarrow>
          if lookupAbsNoFollowLocked t p \<noteq> None then (Inl (PathError ''symlink'' p (Errno ErrExist)), t)
          else (case createParentLocked ''symlink'' p t of
                  Inl e \<Rightarrow> (Inl e, t)
                | Inr parent \<Rightarrow>
                    (Inr (), snd (trie_install parent (path_Base p)
                       ((blank_inode (ModeSymlink OR 0x1FF) now)\<lparr>i_target := target\<rparr>) t))))"

definition tr_Link :: "gotime \<Rightarrow> string \<Rightarrow> string \<Rightarrow> TrieFS \<Rightarrow> (go_error + unit) \<times> TrieFS" where
  "tr_Link now oldName newName t =
     (case trie_resolvePath t oldName False False of
        Inl e \<Rightarrow> (Inl (PathError ''link'' (Resolve (t_cwd t) oldName) e), t)
      | Inr (oldAbs, None) \<Rightarrow> (Inl (PathError ''link'' (Resolve (t_cwd t) oldName) (Errno ErrNotExist)), t)
      | Inr (oldAbs, Some old) \<Rightarrow>
          if mode_IsDir (i_mode (inode t old)) then (Inl (PathError ''link'' oldAbs (Errno ErrInvalid)), t)
          else (case trie_resolvePath t newName False True of
                  Inl e \<Rightarrow> (Inl (PathError ''link'' (Resolve (t_cwd t) newName) (createParentError e)), t)
                | Inr (newAbs, Some _) \<Rightarrow> (Inl (PathError ''link'' newAbs (Errno ErrExist)), t)
                | Inr (newAbs, None) \<Rightarrow>
                    (case createParentLocked ''link'' newAbs t of
                       Inl e \<Rightarrow> (Inl e, t)
                     | Inr parent \<Rightarrow>
                         let i = d_inode (t_dents t old);
                             (child, t1) = new_dent \<lparr>d_name = path_Base newAbs, d_parent = Some parent, d_inode = i\<rparr> t
                         in (Inr (), update_inode i (\<lambda>n. n\<lparr>i_modTime := now\<rparr>) (attachChildLocked parent child t1)))))"

definition tr_Remove :: "string \<Rightarrow> bool \<Rightarrow> TrieFS \<Rightarrow> (go_error + unit) \<times> TrieFS" where
  "tr_Remove name recursive t =
     (case trie_resolvePath t name False False of
        Inl e \<Rightarrow> (Inl (PathError ''remove'' (Resolve (t_cwd t) name) e), t)
      | Inr (p, None) \<Rightarrow> (Inl (PathError ''remove'' p (Errno ErrNotExist)), t)
      | Inr (p, Some d) \<Rightarrow>
          if p = ''/'' then (Inl (PathError ''remove'' p (Errno ErrPermission)), t)
          else if mode_IsDir (i_mode (inode t d)) \<and> i_children (inode t d) \<notin> {None, Some []} \<and> \<not> recursive
          then (Inl (PathError ''remove'' p (Errno ErrInvalid)), t)
          else (Inr (), detachChildLocked (d_parent (t_dents t d)) (d_name (t_dents t d)) t))"

text \<open>
  \<open>trieIsAncestor\<close> follows the parents of \<open>target\<close>. It takes fuel; \<open>None\<close> is a call that has not
  returned. On the trees that occur, as many steps as there are entries are enough.
\<close>

fun trieIsAncestor :: "nat \<Rightarrow> TrieFS \<Rightarrow> nat \<Rightarrow> nat option \<Rightarrow> bool option" where
  "trieIsAncestor fuel t candidate None = Some False"
| "trieIsAncestor 0 t candidate (Some current) = None"
| "trieIsAncestor (Suc fuel) t candidate (Some current) =
     (if current = candidate then Some True else trieIsAncestor fuel t candidate (d_parent (t_dents t current)))"

definition tr_Rename :: "nat \<Rightarrow> string \<Rightarrow> string \<Rightarrow> TrieFS \<Rightarrow> ((go_error + unit) \<times> TrieFS) option" where
  "tr_Rename fuel oldName newName t =
     (case trie_resolvePath t oldName False False of
        Inl e \<Rightarrow> Some (Inl (PathError ''rename'' (Resolve (t_cwd t) oldName) e), t)
      | Inr (oldAbs, None) \<Rightarrow> Some (Inl (PathError ''rename'' oldAbs (Errno ErrNotExist)), t)
      | Inr (oldAbs, Some old) \<Rightarrow>
          if oldAbs = ''/'' then Some (Inl (PathError ''rename'' oldAbs (Errno ErrPermission)), t)
          else
            (case trie_resolvePath t newName False True of
               Inl e \<Rightarrow> Some (Inl (PathError ''rename'' (Resolve (t_cwd t) newName) (createParentError e)), t)
             | Inr (newAbs, Some _) \<Rightarrow> Some (Inl (PathError ''rename'' newAbs (Errno ErrExist)), t)
             | Inr (newAbs, None) \<Rightarrow>
                 (case createParentLocked ''rename'' newAbs t of
                    Inl e \<Rightarrow> Some (Inl e, t)
                  | Inr newParent \<Rightarrow>
                      (case (if mode_IsDir (i_mode (inode t old)) then trieIsAncestor fuel t old (Some newParent)
                             else Some False) of
                         None \<Rightarrow> None
                       | Some True \<Rightarrow> Some (Inl (PathError ''rename'' newAbs (Errno ErrInvalid)), t)
                       | Some False \<Rightarrow>
                           let t1 = detachChildLocked (d_parent (t_dents t old)) (d_name (t_dents t old)) t;
                               t2 = update_dent old (\<lambda>e. e\<lparr>d_name := path_Base newAbs, d_parent := Some newParent\<rparr>) t1
                           in Some (Inr (), attachChildLocked newParent old t2)))))"

definition tr_Getwd :: "TrieFS \<Rightarrow> string" where
  "tr_Getwd t = t_cwd t"

definition tr_Chdir :: "string \<Rightarrow> TrieFS \<Rightarrow> (go_error + unit) \<times> TrieFS" where
  "tr_Chdir name t =
     (case trie_resolvePath t name True False of
        Inl e \<Rightarrow> (Inl (PathError ''chdir'' (Resolve (t_cwd t) name) e), t)
      | Inr (p, None) \<Rightarrow> (Inl (PathError ''chdir'' p (Errno ErrNotExist)), t)
      | Inr (p, Some d) \<Rightarrow>
          if \<not> mode_IsDir (i_mode (inode t d)) then (Inl (PathError ''chdir'' p (Errno ErrInvalid)), t)
          else (Inr (), t\<lparr>t_cwd := p\<rparr>))"

section \<open>Open handles\<close>

definition tr_Read :: "nat \<Rightarrow> trieFile \<Rightarrow> TrieFS \<Rightarrow> (go_error + bytes) \<times> trieFile \<times> TrieFS" where
  "tr_Read n f t =
     (if tf_closed f then (Inl (Errno ErrClosed), f, t)
      else if \<not> canRead (tf_flag f) then (Inl (PathError ''read'' (tf_path f) (Errno ErrPermission)), f, t)
      else (case materializeInode (tf_inode f) t of
              (Inl e, t1) \<Rightarrow> (Inl (PathError ''read'' (tf_path f) e), f, t1)
            | (Inr _, t1) \<Rightarrow>
                let node = t_inodes t1 (tf_inode f)
                in if mode_IsDir (i_mode node) then (Inl (PathError ''read'' (tf_path f) (Errno ErrInvalid)), f, t1)
                   else if length (i_data node) \<le> tf_offset f then (Inl (Errno ErrEOF), f, t1)
                   else let got = take n (drop (tf_offset f) (i_data node))
                        in (Inr got, f\<lparr>tf_offset := tf_offset f + length got\<rparr>, t1)))"

definition tr_Write :: "gotime \<Rightarrow> bytes \<Rightarrow> trieFile \<Rightarrow> TrieFS \<Rightarrow> (go_error + nat) \<times> trieFile \<times> TrieFS" where
  "tr_Write now p f t =
     (if tf_closed f then (Inl (Errno ErrClosed), f, t)
      else if \<not> canWrite (tf_flag f) then (Inl (PathError ''write'' (tf_path f) (Errno ErrPermission)), f, t)
      else (case materializeInode (tf_inode f) t of
              (Inl e, t1) \<Rightarrow> (Inl (PathError ''write'' (tf_path f) e), f, t1)
            | (Inr _, t1) \<Rightarrow>
                let node = t_inodes t1 (tf_inode f)
                in if mode_IsDir (i_mode node) then (Inl (PathError ''write'' (tf_path f) (Errno ErrInvalid)), f, t1)
                   else
                     let off = (if tf_flag f AND O_APPEND \<noteq> 0 then length (i_data node) else tf_offset f);
                         fin = off + length p;
                         d = (if length (i_data node) < fin then growBytes (i_data node) fin else i_data node)
                     in (Inr (length p), f\<lparr>tf_offset := fin\<rparr>,
                         update_inode (tf_inode f) (\<lambda>n. n\<lparr>i_data := copy_at d off p, i_modTime := now\<rparr>) t1)))"

definition tr_Close :: "trieFile \<Rightarrow> trieFile" where
  "tr_Close f = f\<lparr>tf_closed := True\<rparr>"

definition tr_FileStat :: "trieFile \<Rightarrow> TrieFS \<Rightarrow> (go_error + fileInfo) \<times> TrieFS" where
  "tr_FileStat f t =
     (if tf_closed f then (Inl (Errno ErrClosed), t)
      else (case materializeInode (tf_inode f) t of
              (Inl e, t1) \<Rightarrow> (Inl (PathError ''stat'' (tf_path f) e), t1)
            | (Inr _, t1) \<Rightarrow> (Inr (newTrieFileInfo (path_Base (tf_path f)) (t_inodes t1 (tf_inode f))), t1)))"

section \<open>Seeding and cloning\<close>

definition trie_seed_node :: "gotime \<Rightarrow> InitialFile \<Rightarrow> trieInode" where
  "trie_seed_node now file =
     (let mode = (if mode_Perm (if_mode file) = 0 then 0x1A4 else mode_Perm (if_mode file))
      in (blank_inode mode (if IsZero (if_modTime file) then now else if_modTime file))
           \<lparr>i_lazy := if_lazy file, i_data := (case if_content file of None \<Rightarrow> [] | Some c \<Rightarrow> c)\<rparr>)"

definition trie_seedFile :: "gotime \<Rightarrow> string \<Rightarrow> InitialFile \<Rightarrow> TrieFS \<Rightarrow> (go_error + unit) \<times> TrieFS" where
  "trie_seedFile now name file t =
     (let absn = Clean name; parentAbs = parentDir absn
      in if absn = ''/'' then (Inl (PathError ''seed'' absn (Errno ErrInvalid)), t)
         else if if_lazy file \<noteq> None \<and> if_content file \<noteq> None then (Inl (PathError ''seed'' absn (Errno ErrInvalid)), t)
         else (case trie_mkdirAll now parentAbs 0x1ED t of
                 (Inl e, t1) \<Rightarrow> (Inl e, t1)
               | (Inr _, t1) \<Rightarrow>
                   (case trie_resolveAbs t1 parentAbs True False 0 of
                      Inl e \<Rightarrow> (Inl e, t1)
                    | Inr (_, None) \<Rightarrow> (Inl (PathError ''seed'' parentAbs (Errno ErrInvalid)), t1)
                    | Inr (_, Some parent) \<Rightarrow>
                        if \<not> mode_IsDir (i_mode (inode t1 parent)) then (Inl (PathError ''seed'' parentAbs (Errno ErrInvalid)), t1)
                        else if child_of t1 parent (path_Base absn) \<noteq> None then (Inl (PathError ''seed'' absn (Errno ErrExist)), t1)
                        else (Inr (), snd (trie_install parent (path_Base absn) (trie_seed_node now file) t1)))))"

fun trie_seedFiles :: "gotime \<Rightarrow> (string \<times> InitialFile) list \<Rightarrow> TrieFS \<Rightarrow> (go_error + unit) \<times> TrieFS" where
  "trie_seedFiles now [] t = (Inr (), t)"
| "trie_seedFiles now ((name, file) # files) t =
     (case trie_seedFile now name file t of
        (Inl e, t1) \<Rightarrow> (Inl e, t1)
      | (Inr _, t1) \<Rightarrow> trie_seedFiles now files t1)"

definition newSeededTrie :: "gotime \<Rightarrow> (string \<times> InitialFile) list \<Rightarrow> go_error + TrieFS" where
  "newSeededTrie now files =
     (case trie_seedFiles now files (NewTrie now) of (Inl e, t) \<Rightarrow> Inl e | (Inr _, t) \<Rightarrow> Inr t)"

text \<open>
  \<open>Clone\<close> copies the tree of entries and remembers the copy of each inode, so that entries that
  share an inode share the copy. It recurses along the tree on fuel.
\<close>

record clone_state =
  c_inodes :: "(nat \<times> nat) list"
  c_fs :: TrieFS

definition copied_inode :: "trieInode \<Rightarrow> trieInode" where
  "copied_inode node =
     node\<lparr>i_children := map_option (\<lambda>_. []) (i_children node),
          i_names := (if i_names node = Some [] then None else i_names node)\<rparr>"

definition clone_inode :: "TrieFS \<Rightarrow> nat \<Rightarrow> clone_state \<Rightarrow> nat \<times> clone_state" where
  "clone_inode t i c =
     (case map_of (c_inodes c) i of
        Some j \<Rightarrow> (j, c)
      | None \<Rightarrow>
          let f = c_fs c; j = t_nextInode f
          in (j, \<lparr>c_inodes = (i, j) # c_inodes c,
                  c_fs = f\<lparr>t_nextInode := Suc j, t_inodes := (t_inodes f)(j := copied_inode (t_inodes t i))\<rparr>\<rparr>))"

fun cloneDentry :: "nat \<Rightarrow> TrieFS \<Rightarrow> nat option \<Rightarrow> nat \<Rightarrow> clone_state \<Rightarrow> (nat \<times> clone_state) option"
  and cloneChildren :: "nat \<Rightarrow> TrieFS \<Rightarrow> nat \<Rightarrow> (string \<times> nat) list \<Rightarrow> clone_state \<Rightarrow> clone_state option" where
  "cloneDentry 0 t parent d c = None"
| "cloneDentry (Suc fuel) t parent d c =
     (let (j, c1) = clone_inode t (d_inode (t_dents t d)) c;
          (out, f2) = new_dent \<lparr>d_name = d_name (t_dents t d), d_parent = parent, d_inode = j\<rparr> (c_fs c1)
      in (case i_children (inode t d) of
            None \<Rightarrow> Some (out, c1\<lparr>c_fs := f2\<rparr>)
          | Some cs \<Rightarrow> map_option (\<lambda>c2. (out, c2)) (cloneChildren fuel t out cs (c1\<lparr>c_fs := f2\<rparr>))))"
| "cloneChildren fuel t out [] c = Some c"
| "cloneChildren fuel t out ((name, child) # cs) c =
     (case cloneDentry fuel t (Some out) child c of
        None \<Rightarrow> None
      | Some (d, c1) \<Rightarrow>
          cloneChildren fuel t out cs
            (c1\<lparr>c_fs := update_inode (d_inode (t_dents (c_fs c1) out))
               (\<lambda>n. n\<lparr>i_children := map_option (AList.update name d) (i_children n)\<rparr>) (c_fs c1)\<rparr>))"

definition tr_Clone :: "nat \<Rightarrow> TrieFS \<Rightarrow> TrieFS option" where
  "tr_Clone fuel t =
     (let fresh = \<lparr>t_cwd = t_cwd t, t_root = 0, t_nextNodeID = t_nextNodeID t,
            t_dents = (\<lambda>_. \<lparr>d_name = '''', d_parent = None, d_inode = 0\<rparr>),
            t_inodes = (\<lambda>_. blank_inode 0 0), t_nextDent = 0, t_nextInode = 0\<rparr>
      in map_option (\<lambda>(root, c). (c_fs c)\<lparr>t_root := root\<rparr>)
           (cloneDentry fuel t None (t_root t) \<lparr>c_inodes = [], c_fs = fresh\<rparr>))"

end
