(* ===== verification/Trie_Inv.thy ===== *)
theory Trie_Inv
  imports Trie
begin

text \<open>
  The invariant of the trie: the entries that can be reached from the root form a tree whose
  parent pointers and names agree with the maps of children, the inodes of directories are not
  shared, and the cached lists of names are right where they are not marked dirty. The three
  changes of the structure, attaching an entry, detaching one and changing an inode's data, are
  described by their effect on the lookup of a path.
\<close>

section \<open>Entries by path\<close>

abbreviation entry_at :: "TrieFS \<Rightarrow> string list \<Rightarrow> nat option" where
  "entry_at t cs \<equiv> trie_follow t (t_root t) cs"

definition below :: "TrieFS \<Rightarrow> nat \<Rightarrow> nat set" where
  "below t d = {e. \<exists>cs. trie_follow t d cs = Some e}"

abbreviation reach :: "TrieFS \<Rightarrow> nat set" where "reach t \<equiv> below t (t_root t)"

lemma follow_append: "trie_follow t d (xs @ ys) = (case trie_follow t d xs of None \<Rightarrow> None | Some e \<Rightarrow> trie_follow t e ys)"
  by (induction xs arbitrary: d) (auto split: option.splits)

lemma follow_snoc: "trie_follow t d (xs @ [x]) = (case trie_follow t d xs of None \<Rightarrow> None | Some e \<Rightarrow> child_of t e x)"
  by (simp add: follow_append split: option.splits)

lemma follow_snocE:
  assumes "trie_follow t d (xs @ [x]) = Some e"
  obtains p where "trie_follow t d xs = Some p" "child_of t p x = Some e"
  using assms by (auto simp: follow_snoc split: option.splits)

lemma below_self [simp]: "d \<in> below t d"
  unfolding below_def by (auto intro: exI [of _ "[]"])

lemma below_trans: "e \<in> below t d \<Longrightarrow> x \<in> below t e \<Longrightarrow> x \<in> below t d"
proof -
  assume "e \<in> below t d" "x \<in> below t e"
  then obtain cs ds where "trie_follow t d cs = Some e" "trie_follow t e ds = Some x" by (auto simp: below_def)
  then have "trie_follow t d (cs @ ds) = Some x" by (simp add: follow_append)
  then show ?thesis by (auto simp: below_def)
qed

lemma below_child: "e \<in> below t d \<Longrightarrow> child_of t e c = Some x \<Longrightarrow> x \<in> below t d"
  by (rule below_trans) (auto simp: below_def intro!: exI [of _ "[c]"])

lemma below_follow: "e \<in> below t d \<Longrightarrow> trie_follow t e cs = Some x \<Longrightarrow> x \<in> below t d"
  using below_trans [of e t d x] unfolding below_def [of t e] by blast

lemma reachI: "entry_at t cs = Some d \<Longrightarrow> d \<in> reach t"
  by (auto simp: below_def)

section \<open>The invariant\<close>

definition link_ok :: "TrieFS \<Rightarrow> nat \<Rightarrow> string \<Rightarrow> nat \<Rightarrow> bool" where
  "link_ok t d name c \<longleftrightarrow>
     d_name (t_dents t c) = name \<and> d_parent (t_dents t c) = Some d \<and> c < t_nextDent t \<and> valid_comp name"

definition names_ok :: "trieInode \<Rightarrow> bool" where
  "names_ok n \<longleftrightarrow>
     (case i_children n of
        None \<Rightarrow> True
      | Some cs \<Rightarrow> distinct (map fst cs) \<and>
          (\<not> i_dirty n \<longrightarrow> (case i_names n of None \<Rightarrow> [] | Some names \<Rightarrow> names) = sort (map fst cs)))"

definition inode_ok :: "trieInode \<Rightarrow> bool" where
  "inode_ok n \<longleftrightarrow> (mode_IsDir (i_mode n) \<longleftrightarrow> i_children n \<noteq> None) \<and> names_ok n"

definition links_ok :: "TrieFS \<Rightarrow> nat set \<Rightarrow> bool" where
  "links_ok t A \<longleftrightarrow> (\<forall>d \<in> A. \<forall>name c. child_of t d name = Some c \<longrightarrow> link_ok t d name c)"

definition nodes_ok :: "TrieFS \<Rightarrow> nat set \<Rightarrow> bool" where
  "nodes_ok t A \<longleftrightarrow> (\<forall>d \<in> A. d_inode (t_dents t d) < t_nextInode t \<and> inode_ok (inode t d))"

definition unshared :: "TrieFS \<Rightarrow> nat set \<Rightarrow> bool" where
  "unshared t A \<longleftrightarrow>
     (\<forall>d \<in> A. \<forall>e \<in> A. d_inode (t_dents t d) = d_inode (t_dents t e) \<longrightarrow> i_children (inode t d) \<noteq> None \<longrightarrow> d = e)"

definition root_ok :: "TrieFS \<Rightarrow> bool" where
  "root_ok t \<longleftrightarrow>
     t_root t < t_nextDent t \<and> d_parent (t_dents t (t_root t)) = None \<and> i_children (inode t (t_root t)) \<noteq> None"

definition trie_wf :: "TrieFS \<Rightarrow> bool" where
  "trie_wf t \<longleftrightarrow>
     root_ok t \<and> links_ok t (reach t) \<and> nodes_ok t (reach t) \<and> unshared t (reach t) \<and> clean_path (t_cwd t)"

lemma trie_wfD:
  assumes "trie_wf t"
  shows "root_ok t" "links_ok t (reach t)" "nodes_ok t (reach t)" "unshared t (reach t)" "clean_path (t_cwd t)"
  using assms by (auto simp: trie_wf_def)

lemma wf_link: "trie_wf t \<Longrightarrow> d \<in> reach t \<Longrightarrow> child_of t d name = Some c \<Longrightarrow> link_ok t d name c"
  by (auto simp: trie_wf_def links_ok_def)

lemma wf_dir: "trie_wf t \<Longrightarrow> d \<in> reach t \<Longrightarrow> mode_IsDir (i_mode (inode t d)) \<longleftrightarrow> i_children (inode t d) \<noteq> None"
  by (auto simp: trie_wf_def nodes_ok_def inode_ok_def)

lemma wf_same_dir:
  "trie_wf t \<Longrightarrow> d \<in> reach t \<Longrightarrow> e \<in> reach t \<Longrightarrow> d_inode (t_dents t d) = d_inode (t_dents t e) \<Longrightarrow>
     i_children (inode t d) \<noteq> None \<Longrightarrow> d = e"
  by (auto simp: trie_wf_def unshared_def)

lemma entry_valid: "trie_wf t \<Longrightarrow> entry_at t cs = Some d \<Longrightarrow> valid_comps cs"
proof (induction cs arbitrary: d rule: rev_induct)
  case (snoc c cs)
  from snoc.prems(2) obtain p where "entry_at t cs = Some p" "child_of t p c = Some d" by (rule follow_snocE)
  with snoc show ?case using wf_link [of t p c d] reachI [of t cs p] by (auto simp: link_ok_def)
qed simp

text \<open>In a well-formed trie an entry has one path.\<close>

lemma entry_unique:
  "trie_wf t \<Longrightarrow> entry_at t cs = Some d \<Longrightarrow> entry_at t ds = Some d \<Longrightarrow> cs = ds"
proof (induction cs arbitrary: d ds rule: rev_induct)
  case Nil
  then have "d = t_root t" by simp
  show ?case
  proof (cases ds rule: rev_cases)
    case (snoc ys y)
    with Nil(3) obtain p where p: "entry_at t ys = Some p" "child_of t p y = Some d" by (auto elim: follow_snocE)
    then have "d_parent (t_dents t d) = Some p" using wf_link [of t p y d] Nil(1) reachI by (auto simp: link_ok_def)
    with \<open>d = t_root t\<close> Nil(1) show ?thesis by (simp add: trie_wf_def root_ok_def)
  qed simp
next
  case (snoc c cs)
  from snoc.prems(2) obtain p where p: "entry_at t cs = Some p" "child_of t p c = Some d" by (rule follow_snocE)
  then have l: "link_ok t p c d" using wf_link snoc.prems(1) reachI by blast
  show ?case
  proof (cases ds rule: rev_cases)
    case Nil
    with snoc.prems l show ?thesis by (auto simp: link_ok_def trie_wf_def root_ok_def)
  next
    case (snoc es e)
    with snoc.prems(3) obtain q where q: "entry_at t es = Some q" "child_of t q e = Some d" by (auto elim: follow_snocE)
    then have "link_ok t q e d" using wf_link snoc.prems(1) reachI by blast
    with l have "q = p" "e = c" by (auto simp: link_ok_def)
    with q p snoc.IH [OF snoc.prems(1) p(1), of es] snoc show ?thesis by simp
  qed
qed

lemma entry_bound: "trie_wf t \<Longrightarrow> d \<in> reach t \<Longrightarrow> d < t_nextDent t"
proof -
  assume wf: "trie_wf t" and "d \<in> reach t"
  then obtain cs where cs: "entry_at t cs = Some d" by (auto simp: below_def)
  show ?thesis
  proof (cases cs rule: rev_cases)
    case Nil
    with cs wf show ?thesis by (simp add: trie_wf_def root_ok_def)
  next
    case (snoc ys y)
    with cs obtain p where "entry_at t ys = Some p" "child_of t p y = Some d" by (auto elim: follow_snocE)
    then show ?thesis using wf_link [OF wf reachI] by (auto simp: link_ok_def)
  qed
qed

lemma entry_depth:
  assumes "trie_wf t" "entry_at t cs = Some d"
  shows "length cs < t_nextDent t"
proof -
  let ?f = "\<lambda>n. the (entry_at t (take n cs))"
  have some: "\<exists>e. entry_at t (take n cs) = Some e" for n
    using assms(2) follow_append [of t "t_root t" "take n cs" "drop n cs"] by (auto split: option.splits)
  have "inj_on ?f {..length cs}"
  proof (rule inj_onI)
    fix m n
    assume "m \<in> {..length cs}" "n \<in> {..length cs}" "?f m = ?f n"
    with some [of m] some [of n] have "take m cs = take n cs"
      using entry_unique [OF assms(1), of "take m cs" _ "take n cs"] by auto
    with \<open>m \<in> _\<close> \<open>n \<in> _\<close> show "m = n" by (metis atMost_iff length_take min.absorb2)
  qed
  moreover have "?f ` {..length cs} \<subseteq> {..<t_nextDent t}"
  proof
    fix x
    assume "x \<in> ?f ` {..length cs}"
    then obtain n where n: "x = ?f n" by auto
    from some [of n] obtain e where "entry_at t (take n cs) = Some e" by auto
    then show "x \<in> {..<t_nextDent t}" using n entry_bound [OF assms(1) reachI] by auto
  qed
  ultimately have "card {..length cs} \<le> card {..<t_nextDent t}" by (rule card_inj_on_le) simp
  then show ?thesis by simp
qed

section \<open>Changes that keep the structure\<close>

definition same_shape :: "TrieFS \<Rightarrow> TrieFS \<Rightarrow> bool" where
  "same_shape t t1 \<longleftrightarrow>
     t_root t1 = t_root t \<and> t_dents t1 = t_dents t \<and> t_nextDent t1 = t_nextDent t \<and> t_nextInode t1 = t_nextInode t \<and>
     (\<forall>i. i_children (t_inodes t1 i) = i_children (t_inodes t i) \<and>
          mode_IsDir (i_mode (t_inodes t1 i)) = mode_IsDir (i_mode (t_inodes t i)) \<and>
          (names_ok (t_inodes t i) \<longrightarrow> names_ok (t_inodes t1 i)))"

lemma same_shape_refl [simp]: "same_shape t t"
  by (simp add: same_shape_def)

lemma same_shape_trans: "same_shape t t1 \<Longrightarrow> same_shape t1 t2 \<Longrightarrow> same_shape t t2"
  by (simp add: same_shape_def)

lemma same_shape_child: "same_shape t t1 \<Longrightarrow> child_of t1 d name = child_of t d name"
  by (simp add: same_shape_def child_of_def)

lemma same_shape_follow: "same_shape t t1 \<Longrightarrow> trie_follow t1 d cs = trie_follow t d cs"
  by (induction cs arbitrary: d) (auto simp: same_shape_child split: option.splits)

lemma same_shape_entry: "same_shape t t1 \<Longrightarrow> entry_at t1 cs = entry_at t cs"
  by (metis same_shape_def same_shape_follow)

lemma same_shape_reach: "same_shape t t1 \<Longrightarrow> reach t1 = reach t"
  by (simp add: below_def same_shape_entry)

lemma same_shape_wf: "same_shape t t1 \<Longrightarrow> clean_path (t_cwd t1) \<Longrightarrow> trie_wf t \<Longrightarrow> trie_wf t1"
  unfolding trie_wf_def root_ok_def links_ok_def nodes_ok_def unshared_def same_shape_reach
  by (simp add: same_shape_child inode_ok_def link_ok_def) (simp add: same_shape_def)

lemma update_inode_shape:
  assumes "\<And>n. i_children (f n) = i_children n" "\<And>n. mode_IsDir (i_mode (f n)) = mode_IsDir (i_mode n)"
    "\<And>n. names_ok n \<Longrightarrow> names_ok (f n)"
  shows "same_shape t (update_inode i f t)"
  using assms by (simp add: same_shape_def update_inode_def)

section \<open>Attaching and detaching\<close>

lemma child_of_attach:
  assumes "i_children (inode t p) \<noteq> None"
  shows "child_of (attachChildLocked p e t) d name =
     (if d_inode (t_dents t d) = d_inode (t_dents t p) \<and> name = d_name (t_dents t e) then Some e else child_of t d name)"
  using assms by (auto simp: child_of_def attachChildLocked_def update_inode_def split: option.splits)

lemma attach_fields [simp]:
  "t_root (attachChildLocked p e t) = t_root t" "t_dents (attachChildLocked p e t) = t_dents t"
  "t_nextDent (attachChildLocked p e t) = t_nextDent t" "t_nextInode (attachChildLocked p e t) = t_nextInode t"
  "t_cwd (attachChildLocked p e t) = t_cwd t"
  by (simp_all add: attachChildLocked_def update_inode_def split: option.splits)

lemma attach_inode:
  "i_children (t_inodes (attachChildLocked p e t) i) = None \<longleftrightarrow> i_children (t_inodes t i) = None"
  "i_mode (t_inodes (attachChildLocked p e t) i) = i_mode (t_inodes t i)"
  by (auto simp: attachChildLocked_def update_inode_def split: option.splits)

lemma attach_cache: "names_ok (t_inodes t i) \<Longrightarrow> names_ok (t_inodes (attachChildLocked p e t) i)"
  by (auto simp: attachChildLocked_def update_inode_def names_ok_def distinct_update split: option.splits)

lemma attach_ok:
  "inode_ok (t_inodes t i) \<Longrightarrow> inode_ok (t_inodes (attachChildLocked p e t) i)"
  "nodes_ok t A \<Longrightarrow> nodes_ok (attachChildLocked p e t) A"
  "unshared (attachChildLocked p e t) A \<longleftrightarrow> unshared t A"
proof -
  show i: "inode_ok (t_inodes t i) \<Longrightarrow> inode_ok (t_inodes (attachChildLocked p e t) i)" for i
    by (simp add: inode_ok_def attach_inode attach_cache)
  show "nodes_ok t A \<Longrightarrow> nodes_ok (attachChildLocked p e t) A" by (simp add: nodes_ok_def i)
  show "unshared (attachChildLocked p e t) A \<longleftrightarrow> unshared t A" by (simp add: unshared_def attach_inode)
qed

lemma ok_mono:
  "B \<subseteq> A \<Longrightarrow> links_ok t A \<Longrightarrow> links_ok t B" "B \<subseteq> A \<Longrightarrow> nodes_ok t A \<Longrightarrow> nodes_ok t B" "B \<subseteq> A \<Longrightarrow> unshared t A \<Longrightarrow> unshared t B"
  by (auto simp: links_ok_def nodes_ok_def unshared_def)

text \<open>
  A tree \<open>below\<close> an entry \<open>e\<close> is ready to be attached to the directory \<open>p\<close> when together with the
  reachable entries it satisfies the invariant and does not contain \<open>p\<close>.
\<close>

definition ready :: "TrieFS \<Rightarrow> nat \<Rightarrow> nat \<Rightarrow> bool" where
  "ready t p e \<longleftrightarrow>
     p \<in> reach t \<and> i_children (inode t p) \<noteq> None \<and> child_of t p (d_name (t_dents t e)) = None \<and> p \<notin> below t e \<and>
     link_ok t p (d_name (t_dents t e)) e \<and> links_ok t (below t e) \<and> nodes_ok t (below t e) \<and> unshared t (reach t \<union> below t e)"

lemma ready_other:
  assumes "ready t p e" "d \<in> reach t \<union> below t e" "d_inode (t_dents t d) = d_inode (t_dents t p)"
  shows "d = p"
  using assms by (auto simp: ready_def unshared_def)

lemma follow_attach_below:
  assumes "ready t p e"
  shows "trie_follow (attachChildLocked p e t) e cs = trie_follow t e cs"
proof (induction cs rule: rev_induct)
  case (snoc c cs)
  have "child_of (attachChildLocked p e t) d c = child_of t d c" if "trie_follow t e cs = Some d" for d
  proof -
    have "d \<in> below t e" using that by (auto simp: below_def)
    then have "d_inode (t_dents t d) \<noteq> d_inode (t_dents t p)" using ready_other [OF assms, of d] assms by (auto simp: ready_def)
    then show ?thesis using child_of_attach [of t p] assms by (auto simp: ready_def)
  qed
  with snoc show ?case by (simp add: follow_snoc split: option.splits)
qed simp

lemma entry_attach:
  assumes "trie_wf t" "ready t p e" "entry_at t pcs = Some p"
  shows "entry_at (attachChildLocked p e t) cs =
     (if prefix (pcs @ [d_name (t_dents t e)]) cs then trie_follow t e (drop (Suc (length pcs)) cs) else entry_at t cs)"
proof (induction cs rule: rev_induct)
  case (snoc c cs)
  let ?t = "attachChildLocked p e t" and ?n = "d_name (t_dents t e)"
  have ch: "child_of ?t d c = (if d_inode (t_dents t d) = d_inode (t_dents t p) \<and> c = ?n then Some e else child_of t d c)" for d
    using child_of_attach [of t p e] assms(2) by (auto simp: ready_def)
  show ?case
  proof (cases "prefix (pcs @ [?n]) cs")
    case True
    have "child_of ?t d c = child_of t d c" if "trie_follow t e (drop (Suc (length pcs)) cs) = Some d" for d
    proof -
      have "d \<in> below t e" using that by (auto simp: below_def)
      then show ?thesis using ready_other [OF assms(2), of d] assms(2) ch by (auto simp: ready_def)
    qed
    moreover from True have "drop (Suc (length pcs)) (cs @ [c]) = drop (Suc (length pcs)) cs @ [c]"
      by (auto simp: prefix_def)
    ultimately show ?thesis using snoc True by (auto simp: follow_snoc split: option.splits)
  next
    case False
    show ?thesis
    proof (cases "cs = pcs \<and> c = ?n")
      case True
      then show ?thesis using snoc False assms(3) ch [of p] by (simp add: follow_snoc)
    next
      case F: False
      have "child_of ?t d c = child_of t d c" if d: "entry_at t cs = Some d" for d
      proof -
        have "c \<noteq> ?n" if "d = p" using entry_unique [OF assms(1) assms(3), of cs] d that F by auto
        then show ?thesis using ready_other [OF assms(2), of d] reachI [OF d] ch by auto
      qed
      moreover have "\<not> prefix (pcs @ [?n]) (cs @ [c])" using False F by (auto simp: prefix_snoc)
      ultimately show ?thesis using snoc False by (auto simp: follow_snoc split: option.splits)
    qed
  qed
qed simp

lemma reach_attach:
  assumes "trie_wf t" "ready t p e"
  shows "reach (attachChildLocked p e t) \<subseteq> reach t \<union> below t e"
proof
  fix d
  assume "d \<in> reach (attachChildLocked p e t)"
  then obtain cs where "entry_at (attachChildLocked p e t) cs = Some d" by (auto simp: below_def)
  moreover obtain pcs where "entry_at t pcs = Some p" using assms(2) by (auto simp: ready_def below_def)
  ultimately show "d \<in> reach t \<union> below t e" using entry_attach [OF assms] by (auto simp: below_def split: if_splits)
qed

lemma attach_wf:
  assumes "trie_wf t" "ready t p e"
  shows "trie_wf (attachChildLocked p e t)"
proof -
  let ?t = "attachChildLocked p e t" and ?A = "reach t \<union> below t e"
  note sub = reach_attach [OF assms] and r = assms(2) [unfolded ready_def] and w = trie_wfD [OF assms(1)]
  have "link_ok ?t d name c" if d: "d \<in> ?A" and c: "child_of ?t d name = Some c" for d name c
  proof (cases "d = p \<and> name = d_name (t_dents t e)")
    case True
    then have "c = e" using c child_of_attach [of t p e] r by auto
    with True r show ?thesis by (simp add: link_ok_def)
  next
    case False
    then have "child_of t d name = Some c" using c child_of_attach [of t p e] ready_other [OF assms(2) d] r by (auto split: if_splits)
    then have "link_ok t d name c" using d w(2) r by (auto simp: links_ok_def)
    then show ?thesis by (simp add: link_ok_def)
  qed
  then have "links_ok ?t (reach ?t)" using sub by (auto simp: links_ok_def)
  moreover have "nodes_ok t ?A" using w(3) r by (auto simp: nodes_ok_def)
  then have "nodes_ok ?t (reach ?t)" using attach_ok(2) ok_mono(2) sub by blast
  moreover have "unshared ?t (reach ?t)" using attach_ok(3) [of p e t] ok_mono(3) sub r by blast
  moreover have "root_ok ?t" using w(1) by (simp add: root_ok_def attach_inode)
  ultimately show ?thesis using w(5) by (simp add: trie_wf_def)
qed

lemma detach_fields [simp]:
  "t_root (detachChildLocked p n t) = t_root t" "t_dents (detachChildLocked p n t) = t_dents t"
  "t_nextDent (detachChildLocked p n t) = t_nextDent t" "t_nextInode (detachChildLocked p n t) = t_nextInode t"
  "t_cwd (detachChildLocked p n t) = t_cwd t"
  by (simp_all add: detachChildLocked_def update_inode_def split: option.splits)

lemma detach_inode:
  "i_children (t_inodes (detachChildLocked p n t) i) = None \<longleftrightarrow> i_children (t_inodes t i) = None"
  "i_mode (t_inodes (detachChildLocked p n t) i) = i_mode (t_inodes t i)"
  by (auto simp: detachChildLocked_def update_inode_def split: option.splits)

lemma detach_cache: "names_ok (t_inodes t i) \<Longrightarrow> names_ok (t_inodes (detachChildLocked p n t) i)"
  by (auto simp: detachChildLocked_def update_inode_def names_ok_def distinct_filter_keys split: option.splits)

lemma child_of_detach:
  "child_of (detachChildLocked (Some p) n t) d name =
     (if d_inode (t_dents t d) = d_inode (t_dents t p) \<and> name = n then None else child_of t d name)"
  by (auto simp: child_of_def detachChildLocked_def update_inode_def map_of_filter_key [where P = "\<lambda>k. k \<noteq> n"]
      split: option.splits)

lemma follow_detach_le: "trie_follow (detachChildLocked (Some p) n t) d cs = Some e \<Longrightarrow> trie_follow t d cs = Some e"
  by (induction cs arbitrary: d) (auto simp: child_of_detach split: option.splits if_splits)

lemma below_detach: "below (detachChildLocked (Some p) n t) d \<subseteq> below t d"
  by (auto simp: below_def dest: follow_detach_le)

lemma entry_detach:
  assumes "trie_wf t" "entry_at t pcs = Some p" "i_children (inode t p) \<noteq> None"
  shows "entry_at (detachChildLocked (Some p) n t) cs = (if prefix (pcs @ [n]) cs then None else entry_at t cs)"
proof (induction cs rule: rev_induct)
  case (snoc c cs)
  let ?t = "detachChildLocked (Some p) n t"
  show ?case
  proof (cases "prefix (pcs @ [n]) cs")
    case True
    with snoc show ?thesis by (simp add: follow_snoc prefix_snoc)
  next
    case False
    have "child_of ?t d c = (if cs = pcs \<and> c = n then None else child_of t d c)" if d: "entry_at t cs = Some d" for d
    proof -
      have "d_inode (t_dents t d) = d_inode (t_dents t p) \<longleftrightarrow> cs = pcs"
      proof
        assume "d_inode (t_dents t d) = d_inode (t_dents t p)"
        then have "p = d" using assms(3) by (intro wf_same_dir [OF assms(1) reachI [OF assms(2)] reachI [OF d]]) simp_all
        then show "cs = pcs" using entry_unique [OF assms(1) d] assms(2) by simp
      qed (use d assms(2) in simp)
      then show ?thesis by (simp add: child_of_detach)
    qed
    moreover have "prefix (pcs @ [n]) (cs @ [c]) \<longleftrightarrow> cs = pcs \<and> c = n" using False by (auto simp: prefix_snoc)
    moreover have "entry_at ?t cs = entry_at t cs" using snoc False by simp
    ultimately show ?thesis by (simp only: follow_snoc) (cases "entry_at t cs", simp_all)
  qed
qed simp

lemma detach_wf:
  assumes "trie_wf t"
  shows "trie_wf (detachChildLocked (Some p) n t)"
proof -
  let ?t = "detachChildLocked (Some p) n t"
  have sub: "reach ?t \<subseteq> reach t" using below_detach [of p n t "t_root t"] by simp
  note w = trie_wfD [OF assms]
  have "links_ok ?t (reach ?t)" using w(2) sub by (auto simp: links_ok_def child_of_detach link_ok_def)
  moreover have "nodes_ok ?t (reach ?t)" using ok_mono(2) [OF sub w(3)] by (simp add: nodes_ok_def inode_ok_def detach_inode detach_cache)
  moreover have "unshared ?t (reach ?t)" using ok_mono(3) [OF sub w(4)] by (simp add: unshared_def detach_inode)
  ultimately show ?thesis using w(1,5) by (simp add: trie_wf_def root_ok_def detach_inode)
qed

section \<open>New entries\<close>

lemma follow_cong:
  assumes "\<And>e name. e \<in> below t d \<Longrightarrow> child_of t1 e name = child_of t e name"
  shows "trie_follow t1 d cs = trie_follow t d cs"
  using assms
proof (induction cs arbitrary: d)
  case (Cons c cs)
  have "trie_follow t1 e cs = trie_follow t e cs" if "child_of t d c = Some e" for e
    using Cons.prems below_trans [OF below_child [OF below_self that]] by (intro Cons.IH) blast
  with Cons.prems [OF below_self] show ?case by (auto split: option.splits)
qed simp

lemma below_cong: "(\<And>e name. e \<in> below t d \<Longrightarrow> child_of t1 e name = child_of t e name) \<Longrightarrow> below t1 d = below t d"
  using follow_cong [of t d t1] by (auto simp: below_def)

text \<open>
  The states \<open>t1\<close> that extend \<open>t\<close> by one entry for the inode \<open>j\<close>: a new one, or one that is
  no directory. The entry is not attached yet.
\<close>

definition grown_by :: "TrieFS \<Rightarrow> nat \<Rightarrow> string \<Rightarrow> nat \<Rightarrow> TrieFS \<Rightarrow> bool" where
  "grown_by t p name j t1 \<longleftrightarrow>
     t_root t1 = t_root t \<and> t_cwd t1 = t_cwd t \<and> t_nextDent t1 = Suc (t_nextDent t) \<and> t_nextInode t \<le> t_nextInode t1 \<and>
     (\<forall>d < t_nextDent t. t_dents t1 d = t_dents t d) \<and> (\<forall>i < t_nextInode t. t_inodes t1 i = t_inodes t i) \<and>
     t_dents t1 (t_nextDent t) = \<lparr>d_name = name, d_parent = Some p, d_inode = j\<rparr> \<and> j < t_nextInode t1 \<and>
     inode_ok (t_inodes t1 j) \<and> (i_children (t_inodes t1 j) = None \<or> i_children (t_inodes t1 j) = Some [] \<and> t_nextInode t \<le> j)"

lemma grown_dent:
  assumes "grown_by t p name j t1" "trie_wf t" "d \<in> reach t"
  shows "t_dents t1 d = t_dents t d" "inode t1 d = inode t d" "child_of t1 d n = child_of t d n"
    "d_inode (t_dents t d) < t_nextInode t"
proof -
  have d: "d < t_nextDent t" by (rule entry_bound [OF assms(2,3)])
  show i: "d_inode (t_dents t d) < t_nextInode t" using assms(2,3) by (auto simp: trie_wf_def nodes_ok_def)
  show e: "t_dents t1 d = t_dents t d" using assms(1) d by (simp add: grown_by_def)
  show "inode t1 d = inode t d" using assms(1) i by (simp add: grown_by_def e)
  then show "child_of t1 d n = child_of t d n" by (simp add: child_of_def)
qed

lemma grown_entry:
  assumes "grown_by t p name j t1" "trie_wf t"
  shows "entry_at t1 cs = entry_at t cs" "reach t1 = reach t"
  using follow_cong [of t "t_root t" t1 cs] below_cong [of t "t_root t" t1] grown_dent [OF assms] assms(1)
  by (simp_all add: grown_by_def)

lemma grown_below: "grown_by t p name j t1 \<Longrightarrow> below t1 (t_nextDent t) = {t_nextDent t}"
proof -
  assume g: "grown_by t p name j t1"
  then have "child_of t1 (t_nextDent t) n = None" for n by (auto simp: grown_by_def child_of_def)
  then have "trie_follow t1 (t_nextDent t) cs = (if cs = [] then Some (t_nextDent t) else None)" for cs by (cases cs) auto
  then show ?thesis by (auto simp: below_def)
qed

lemma grown_wf:
  assumes "grown_by t p name j t1" "trie_wf t"
  shows "trie_wf t1"
proof -
  note d = grown_dent [OF assms] and r = grown_entry(2) [OF assms] and w = trie_wfD [OF assms(2)]
  have b: "\<And>x. x < t_nextDent t \<Longrightarrow> t_dents t1 x = t_dents t x \<and> x < t_nextDent t1" "t_nextInode t \<le> t_nextInode t1"
    using assms(1) by (auto simp: grown_by_def)
  have "links_ok t1 (reach t1)" using w(2) d(3) b(1) unfolding r by (auto simp: links_ok_def link_ok_def)
  moreover have "nodes_ok t1 (reach t1)"
    unfolding r nodes_ok_def
  proof
    fix x
    assume "x \<in> reach t"
    then show "d_inode (t_dents t1 x) < t_nextInode t1 \<and> inode_ok (inode t1 x)"
      using w(3) d(1,2) b(2) less_le_trans by (simp add: nodes_ok_def) blast
  qed
  moreover have "unshared t1 (reach t1)" using w(4) d(1,2) unfolding r unshared_def by simp
  moreover have "root_ok t1" using w(1) d(1,2) [OF below_self] assms(1) by (simp add: root_ok_def grown_by_def)
  moreover have "t_cwd t1 = t_cwd t" using assms(1) by (simp add: grown_by_def)
  ultimately show ?thesis using w(5) by (simp add: trie_wf_def)
qed

lemma grown_ready:
  assumes g: "grown_by t p name j t1" and wf: "trie_wf t"
    and p: "p \<in> reach t" "i_children (inode t p) \<noteq> None" "child_of t p name = None" "valid_comp name"
  shows "ready t1 p (t_nextDent t)"
proof -
  let ?e = "t_nextDent t"
  note d = grown_dent [OF g wf] and r = grown_entry(2) [OF g wf] and b = grown_below [OF g] and w = trie_wfD [OF wf]
  have e: "t_dents t1 ?e = \<lparr>d_name = name, d_parent = Some p, d_inode = j\<rparr>" "j < t_nextInode t1" "inode_ok (t_inodes t1 j)"
    "i_children (t_inodes t1 j) \<noteq> None \<Longrightarrow> t_nextInode t \<le> j" "?e < t_nextDent t1" "\<And>n. child_of t1 ?e n = None"
    using g by (auto simp: grown_by_def child_of_def)
  have "unshared t1 (reach t1)" using grown_wf [OF g wf] by (rule trie_wfD)
  then have "unshared t1 (reach t1 \<union> {?e})" using e(1,4) d(1,4) r by (fastforce simp: unshared_def)
  moreover have "p \<noteq> ?e" using entry_bound [OF wf p(1)] by simp
  ultimately show ?thesis
    using p d(2,3) [OF p(1)] e by (simp add: ready_def b r link_ok_def links_ok_def nodes_ok_def)
qed

lemma new_dent_grown:
  assumes "trie_wf t" "j < t_nextInode t" "inode_ok (t_inodes t j)" "i_children (t_inodes t j) = None"
  shows "grown_by t p name j (snd (new_dent \<lparr>d_name = name, d_parent = Some p, d_inode = j\<rparr> t))"
  using assms by (simp add: grown_by_def new_dent_def)

lemma install_grown:
  assumes "inode_ok node" "i_children node = None \<or> i_children node = Some []"
  shows "\<exists>t1 j. grown_by t p name j t1 \<and> trie_install p name node t = (t_nextDent t, attachChildLocked p (t_nextDent t) t1) \<and>
     j = t_nextInode t \<and> t_inodes t1 j = node\<lparr>i_id := Suc (t_nextNodeID t)\<rparr>"
  using assms
  by (intro exI [of _ "snd (new_dent \<lparr>d_name = name, d_parent = Some p, d_inode = t_nextInode t\<rparr> (snd (new_inode node t)))"]
      exI [of _ "t_nextInode t"])
    (auto simp: grown_by_def new_dent_def new_inode_def trie_newNodeID_def trie_install_def Let_def inode_ok_def names_ok_def)

end
