(* ===== verification/Trie_Ops.thy ===== *)
theory Trie_Ops
  imports Trie_Inv MemoryFS_Ops
begin

text \<open>
  Every operation of the trie keeps the invariant, and what each does to the tree: the facts
  below describe the state after an operation by the lookup of paths in the state before.
\<close>

section \<open>Paths\<close>

lemma trieSplitPath_render [simp]: "valid_comps cs \<Longrightarrow> trieSplitPath (render cs) = cs"
proof -
  assume v: "valid_comps cs"
  show ?thesis
  proof (cases "cs = []")
    case False
    then have "split_on slash (join_with slash cs) = cs"
      using v by (intro split_on_join) (auto simp: list_all_iff valid_comp_def)
    with v False show ?thesis by (simp add: trieSplitPath_def TrimPrefix_def) (simp add: render_def)
  qed (simp add: trieSplitPath_def)
qed

lemma joinChildPath_snoc: "valid_comps cs \<Longrightarrow> joinChildPath (render cs) c = render (cs @ [c])"
  by (simp add: joinChildPath_joinClean render_snoc)

lemma lookup_render: "valid_comps cs \<Longrightarrow> lookupAbsNoFollowLocked t (render cs) = entry_at t cs"
  by (simp add: lookupAbsNoFollowLocked_def)

lemma lookup_clean: "clean_path p \<Longrightarrow> lookupAbsNoFollowLocked t p = entry_at t (abs_comps p)"
  by (metis abs_comps_valid lookup_render render_abs_comps)

section \<open>Resolution\<close>

definition found :: "TrieFS \<Rightarrow> string \<times> nat option \<Rightarrow> bool" where
  "found t r \<longleftrightarrow> (\<exists>cs. valid_comps cs \<and> fst r = render cs \<and> entry_at t cs = snd r)"

lemma walk_found:
  "entry_at t pre = Some current \<Longrightarrow> valid_comps pre \<Longrightarrow> valid_comps cs \<Longrightarrow> cs \<noteq> [] \<Longrightarrow>
     trie_walk t f a current (render pre) cs = Return (Inr r) \<Longrightarrow> found t r"
proof (induction cs arbitrary: pre current)
  case (Cons c cs)
  have e: "entry_at t (pre @ [c]) = child_of t current c" "valid_comps (pre @ [c])"
    using Cons.prems by (simp_all add: follow_snoc)
  note j = joinChildPath_snoc [OF Cons.prems(2), of c]
  show ?case
  proof (cases "child_of t current c")
    case None
    then show ?thesis using Cons.prems(5) e by (auto simp: found_def j split: if_splits intro!: exI [of _ "pre @ [c]"])
  next
    case (Some d)
    show ?thesis
    proof (cases "cs = []")
      case True
      then show ?thesis using Cons.prems(5) e Some
        by (auto simp: found_def j Let_def split: if_splits intro!: exI [of _ "pre @ [c]"])
    next
      case False
      then show ?thesis using Cons.prems Cons.IH [of "pre @ [c]" d] e Some by (auto simp: j Let_def split: if_splits)
    qed
  qed
qed simp

lemma resolveAbs_found: "trie_resolveAbs t name f a depth = Inr r \<Longrightarrow> found t r"
proof (induction t name f a depth rule: trie_resolveAbs.induct)
  case (1 t name f a depth)
  let ?cs = "abs_comps name"
  show ?case
  proof (cases "maxSymlinkDepth < depth \<or> Clean name = ''/''")
    case True
    then show ?thesis
      using "1.prems" by (auto simp: trie_resolveAbs.simps [of t name] found_def Let_def split: if_splits intro!: exI [of _ "[]"])
  next
    case False
    then have ne: "?cs \<noteq> []" and s: "trieSplitPath (Clean name) = ?cs" by (auto simp: Clean_eq)
    show ?thesis
    proof (cases "trie_walk t f a (t_root t) ''/'' ?cs")
      case (Return q)
      then show ?thesis
        using "1.prems" False s ne walk_found [of t "[]" "t_root t" ?cs f a r]
        by (simp add: trie_resolveAbs.simps [of t name])
    next
      case (Restart target)
      then show ?thesis using "1.IH" [OF refl] "1.prems" False s by (simp add: trie_resolveAbs.simps [of t name])
    qed
  qed
qed

lemma resolvePath_found: "trie_resolvePath t name f a = Inr r \<Longrightarrow> found t r"
  by (auto simp: trie_resolvePath_def dest: resolveAbs_found split: sum.splits option.splits prod.splits if_splits)

lemma resolvePath_some: "trie_resolvePath t name f False = Inr (p, e) \<Longrightarrow> e \<noteq> None"
  by (auto simp: trie_resolvePath_def split: sum.splits option.splits prod.splits)

lemma foundE:
  assumes "found t (p, Some d)" "trie_wf t"
  obtains cs where "valid_comps cs" "p = render cs" "entry_at t cs = Some d" "d \<in> reach t" "lookupAbsNoFollowLocked t p = Some d"
  using assms reachI by (auto simp: found_def lookup_render)

lemma walkCreate_clean:
  "valid_comps pre \<Longrightarrow> valid_comps cs \<Longrightarrow> clean_path absn \<Longrightarrow>
     trie_walkCreate t absn current (render pre) cs = Return (Inr p) \<Longrightarrow> clean_path p"
proof (induction cs arbitrary: pre current)
  case (Cons c cs)
  have v: "valid_comps (pre @ [c])" using Cons.prems by simp
  note j = joinChildPath_snoc [OF Cons.prems(1), of c]
  show ?case
    using Cons.prems Cons.IH [OF v] by (auto simp: j Let_def Resolve_clean split: option.splits if_splits)
qed simp

lemma resolveCreate_clean: "trie_resolveCreate t name depth = Inr p \<Longrightarrow> clean_path p"
proof (induction t name depth rule: trie_resolveCreate.induct)
  case (1 t name depth)
  show ?case
  proof (cases "maxSymlinkDepth < depth \<or> Clean name = ''/''")
    case True
    then show ?thesis using "1.prems" by (auto simp: trie_resolveCreate.simps [of t name] Let_def split: if_splits)
  next
    case False
    have s: "trieSplitPath (Clean name) = abs_comps name" by (simp add: Clean_eq)
    show ?thesis
    proof (cases "trie_walkCreate t (Clean name) (t_root t) ''/'' (abs_comps name)")
      case (Return q)
      then show ?thesis
        using "1.prems" False s walkCreate_clean [of "[]" "abs_comps name" "Clean name" t "t_root t" p]
        by (simp add: trie_resolveCreate.simps [of t name])
    next
      case (Restart target)
      then show ?thesis using "1.IH" [OF refl] "1.prems" False s by (simp add: trie_resolveCreate.simps [of t name])
    qed
  qed
qed

section \<open>Creating entries\<close>

lemma install_at:
  assumes wf: "trie_wf t" and p: "entry_at t cs = Some p" "i_children (inode t p) \<noteq> None" "child_of t p c = None" "valid_comp c"
    and n: "inode_ok node" "i_children node = None \<or> i_children node = Some []" and r: "trie_install p c node t = (d, t1)"
  shows "trie_wf t1" "entry_at t1 ds = (if ds = cs @ [c] then Some d else entry_at t ds)" "t_cwd t1 = t_cwd t"
    "i_children (inode t1 d) = i_children node" "i_mode (inode t1 d) = i_mode node"
proof -
  from install_grown [OF n, of t p c] r obtain t2 j where g: "grown_by t p c j t2" "d = t_nextDent t" "t1 = attachChildLocked p d t2"
    "j = t_nextInode t" "t_inodes t2 j = node\<lparr>i_id := Suc (t_nextNodeID t)\<rparr>" by auto
  have rd: "ready t2 p d" using grown_ready [OF g(1) wf reachI [OF p(1)] p(2-4)] g(2) by simp
  have wf2: "trie_wf t2" by (rule grown_wf [OF g(1) wf])
  then show "trie_wf t1" using attach_wf rd g(3) by simp
  have nm: "d_name (t_dents t2 d) = c" "d_inode (t_dents t2 d) = j" using g(1,2) by (simp_all add: grown_by_def)
  have e2: "entry_at t2 xs = entry_at t xs" for xs by (rule grown_entry(1) [OF g(1) wf])
  have none: "entry_at t (cs @ [c]) = None" using p by (simp add: follow_snoc)
  have "entry_at t1 ds = (if prefix (cs @ [c]) ds then trie_follow t2 d (drop (Suc (length cs)) ds) else entry_at t ds)"
    using entry_attach [OF wf2 rd, of cs ds] e2 p(1) g(3) nm by simp
  moreover have "trie_follow t2 d xs = (if xs = [] then Some d else None)" for xs
    using grown_below [OF g(1)] g(1,2) by (cases xs) (auto simp: grown_by_def child_of_def)
  moreover have "entry_at t ds = None" if "prefix (cs @ [c]) ds"
    using that none follow_append [of t "t_root t" "cs @ [c]"] by (auto simp: prefix_def)
  ultimately show "entry_at t1 ds = (if ds = cs @ [c] then Some d else entry_at t ds)"
    by (auto simp: prefix_def)
  show "t_cwd t1 = t_cwd t" using g(1,3) by (simp add: grown_by_def)
  have "j \<noteq> d_inode (t_dents t2 p)" using grown_dent(1,4) [OF g(1) wf reachI [OF p(1)]] g(4) by simp
  then show "i_children (inode t1 d) = i_children node" "i_mode (inode t1 d) = i_mode node"
    using g(3,5) nm(2) by (auto simp: attachChildLocked_def update_inode_def split: option.splits)
qed

lemma createParentE:
  assumes "createParentLocked op p t = Inr parent" "trie_wf t" "clean_path p" "lookupAbsNoFollowLocked t p = None"
  obtains cs c where "valid_comps (cs @ [c])" "p = render (cs @ [c])" "entry_at t cs = Some parent"
    "i_children (inode t parent) \<noteq> None" "child_of t parent c = None" "path_Base p = c"
proof -
  obtain ds where d: "valid_comps ds" "p = render ds" using assms(3) by (rule clean_pathE)
  with assms(4) have "entry_at t ds = None" by (simp add: lookup_render)
  then obtain cs c where ds: "ds = cs @ [c]" by (cases ds rule: rev_cases) auto
  have "parentDir p = render cs" using d ds parentDir_render [of cs c] by simp
  then have par: "entry_at t cs = Some parent" "mode_IsDir (i_mode (inode t parent))"
    using assms(1) d(1) ds by (auto simp: createParentLocked_def lookup_render split: option.splits if_splits)
  moreover have "child_of t parent c = None" using \<open>entry_at t ds = None\<close> par(1) ds by (simp add: follow_snoc)
  moreover have "i_children (inode t parent) \<noteq> None" using wf_dir [OF assms(2) reachI [OF par(1)]] par(2) by simp
  ultimately show ?thesis using that [of cs c] d ds by simp
qed

text \<open>The inodes that the operations create.\<close>

lemma new_inode_ok:
  "inode_ok ((blank_inode (ModeDir OR perm) now)\<lparr>i_children := Some []\<rparr>)"
  "\<not> mode_IsDir m \<Longrightarrow> inode_ok ((blank_inode m now)\<lparr>i_lazy := l, i_data := x\<rparr>)"
  "\<not> mode_IsDir m \<Longrightarrow> inode_ok ((blank_inode m now)\<lparr>i_target := tg\<rparr>)"
  "\<not> mode_IsDir m \<Longrightarrow> inode_ok (blank_inode m now)"
  by (auto simp: inode_ok_def names_ok_def blank_inode_def mode_IsDir_def or_and_distrib)

section \<open>Data and metadata\<close>

text \<open>The cache of names depends on three fields of the inode only.\<close>

lemma names_ok_frame [simp]:
  "names_ok (n\<lparr>i_data := x\<rparr>) = names_ok n" "names_ok (n\<lparr>i_lazy := l\<rparr>) = names_ok n" "names_ok (n\<lparr>i_mode := m\<rparr>) = names_ok n"
  "names_ok (n\<lparr>i_atime := a\<rparr>) = names_ok n" "names_ok (n\<lparr>i_modTime := a\<rparr>) = names_ok n"
  "names_ok (n\<lparr>i_uid := u\<rparr>) = names_ok n" "names_ok (n\<lparr>i_gid := u\<rparr>) = names_ok n"
  by (auto simp: names_ok_def split: option.splits)

lemma materializeInode_shape: "materializeInode i t = (r, t1) \<Longrightarrow> same_shape t t1 \<and> t_cwd t1 = t_cwd t"
proof -
  have "same_shape t (update_inode i (\<lambda>n. n\<lparr>i_data := d, i_lazy := None\<rparr>) t)" for d
    by (rule update_inode_shape) simp_all
  then show "materializeInode i t = (r, t1) \<Longrightarrow> ?thesis"
    by (auto simp: materializeInode_def update_inode_def split: if_splits option.splits sum.splits)
qed

lemma materializePath_shape: "trie_materializePath name f t = (r, t1) \<Longrightarrow> same_shape t t1 \<and> t_cwd t1 = t_cwd t"
  by (auto simp: trie_materializePath_def dest: materializeInode_shape split: sum.splits prod.splits option.splits)

lemma stat_op_shape: "tr_stat_op op f name t = (r, t1) \<Longrightarrow> same_shape t t1 \<and> t_cwd t1 = t_cwd t"
  by (auto simp: tr_stat_op_def dest: materializePath_shape split: sum.splits prod.splits option.splits)

lemma preload_shape: "trie_open_preload name flag t = (r, t1) \<Longrightarrow> same_shape t t1 \<and> t_cwd t1 = t_cwd t"
  by (auto simp: trie_open_preload_def dest: materializePath_shape split: sum.splits prod.splits if_splits)

lemma finish_shape: "trie_open_finish now flag p d t = (r, t1) \<Longrightarrow> same_shape t t1 \<and> t_cwd t1 = t_cwd t"
proof -
  have "same_shape t (update_inode i (\<lambda>n. n\<lparr>i_lazy := None, i_data := [], i_modTime := now\<rparr>) t)" for i
    by (rule update_inode_shape) simp_all
  then show "trie_open_finish now flag p d t = (r, t1) \<Longrightarrow> ?thesis"
    by (auto simp: trie_open_finish_def Let_def update_inode_def split: if_splits)
qed

lemma read_shape: "tr_Read n f t = (r, f1, t1) \<Longrightarrow> same_shape t t1 \<and> t_cwd t1 = t_cwd t"
  by (auto simp: tr_Read_def Let_def dest: materializeInode_shape split: sum.splits prod.splits if_splits)

lemma write_shape: "tr_Write now p f t = (r, f1, t1) \<Longrightarrow> same_shape t t1 \<and> t_cwd t1 = t_cwd t"
proof -
  have "same_shape t (update_inode i (\<lambda>n. n\<lparr>i_data := d, i_modTime := now\<rparr>) t)" for i d t
    by (rule update_inode_shape) simp_all
  then have u: "same_shape t t2 \<Longrightarrow> same_shape t (update_inode i (\<lambda>n. n\<lparr>i_data := d, i_modTime := now\<rparr>) t2)" for i d t2
    using same_shape_trans by blast
  then show "tr_Write now p f t = (r, f1, t1) \<Longrightarrow> ?thesis"
    by (auto simp: tr_Write_def Let_def dest!: materializeInode_shape split: sum.splits prod.splits if_splits)
      (simp_all add: update_inode_def)
qed

lemma file_stat_shape: "tr_FileStat f t = (r, t1) \<Longrightarrow> same_shape t t1 \<and> t_cwd t1 = t_cwd t"
  by (auto simp: tr_FileStat_def dest: materializeInode_shape split: sum.splits prod.splits if_splits)

lemma on_inode_shape:
  assumes "\<And>i. same_shape t (update_inode i f t)" "on_inode op follow f name t = (r, t1)"
  shows "same_shape t t1 \<and> t_cwd t1 = t_cwd t"
  using assms by (auto simp: on_inode_def split: sum.splits prod.splits option.splits) (simp add: update_inode_def)

lemma metadata_shape:
  "tr_Chown name uid gid follow t = (r, t1) \<Longrightarrow> same_shape t t1 \<and> t_cwd t1 = t_cwd t"
  "tr_Chmod now name mode t = (r, t1) \<Longrightarrow> same_shape t t1 \<and> t_cwd t1 = t_cwd t"
  "tr_Chtimes now name ta tm t = (r, t1) \<Longrightarrow> same_shape t t1 \<and> t_cwd t1 = t_cwd t"
  unfolding tr_Chown_def tr_Chmod_def tr_Chtimes_def
  by (erule on_inode_shape [rotated], rule update_inode_shape, simp_all add: mode_IsDir_def chmod_bits)+

lemma sorted_names_ok:
  "names_ok n \<Longrightarrow> i_children n = Some cs \<Longrightarrow> names_ok (n\<lparr>i_names := Some (sort (map fst cs)), i_dirty := False\<rparr>)"
  "names_ok n \<Longrightarrow> i_children n = Some [] \<Longrightarrow> names_ok (n\<lparr>i_names := None, i_dirty := False\<rparr>)"
  by (auto simp: names_ok_def)

lemma sortedNames_spec:
  assumes "names_ok (t_inodes t i)" "i_children (t_inodes t i) = Some cs" "sortedChildNamesLocked i t = (names, t1)"
  shows "names = sort (map fst cs)" "same_shape t t1" "t_cwd t1 = t_cwd t"
  using assms sorted_names_ok [OF assms(1)]
  by (auto simp: sortedChildNamesLocked_def names_ok_def same_shape_def update_inode_def Let_def split: option.splits if_splits)

lemma readdir_shape: "trie_wf t \<Longrightarrow> tr_ReadDir name t = (r, t1) \<Longrightarrow> same_shape t t1 \<and> t_cwd t1 = t_cwd t"
proof -
  assume wf: "trie_wf t" and r: "tr_ReadDir name t = (r, t1)"
  have "same_shape t t2 \<and> t_cwd t2 = t_cwd t"
    if a: "trie_resolveAbs t q True False 0 = Inr (p, Some d)" "mode_IsDir (i_mode (inode t d))"
       "sortedChildNamesLocked (d_inode (t_dents t d)) t = (names, t2)" for q p d names t2
  proof -
    have d: "d \<in> reach t" using resolveAbs_found [OF a(1)] reachI by (auto simp: found_def)
    then obtain cs where "i_children (inode t d) = Some cs" using wf_dir [OF wf] a(2) by auto
    moreover have "names_ok (inode t d)" using d wf by (auto simp: trie_wf_def nodes_ok_def inode_ok_def)
    ultimately show ?thesis using sortedNames_spec a(3) by blast
  qed
  note sorted = this
  show ?thesis
  proof (cases "trie_resolveAbs t (Resolve (t_cwd t) name) True False 0")
    case (Inr q)
    obtain p e where q: "q = (p, e)" by fastforce
    show ?thesis
    proof (cases e)
      case (Some d)
      obtain names t2 where s: "sortedChildNamesLocked (d_inode (t_dents t d)) t = (names, t2)" by fastforce
      show ?thesis
      proof (cases "mode_IsDir (i_mode (inode t d))")
        case True
        with sorted [OF Inr [unfolded q Some] True s] r Inr show ?thesis
          by (simp add: tr_ReadDir_def q Some s Let_def split: if_split_asm)
      qed (use r Inr in \<open>simp add: tr_ReadDir_def q Some\<close>)
    qed (use r Inr in \<open>simp add: tr_ReadDir_def q\<close>)
  qed (use r in \<open>simp add: tr_ReadDir_def\<close>)
qed

section \<open>The invariant is kept\<close>

lemma mkdir_loop_wf:
  "trie_wf t \<Longrightarrow> entry_at t cs = Some current \<Longrightarrow> i_children (inode t current) \<noteq> None \<Longrightarrow> valid_comps parts \<Longrightarrow>
     trie_mkdir_loop now perm current (render cs) parts t = (r, t1) \<Longrightarrow> trie_wf t1 \<and> t_cwd t1 = t_cwd t"
proof (induction parts arbitrary: current cs t)
  case (Cons part parts)
  note j = joinChildPath_snoc [OF entry_valid [OF Cons.prems(1,2)], of part]
  show ?case
  proof (cases "child_of t current part")
    case (Some child)
    then have child: "entry_at t (cs @ [part]) = Some child" using Cons.prems(2) by (simp add: follow_snoc)
    note dir = wf_dir [OF Cons.prems(1) reachI]
    show ?thesis
    proof (cases "i_mode (inode t child) AND ModeSymlink = 0")
      case True
      then show ?thesis using Cons.prems Cons.IH [OF Cons.prems(1) child] Some dir [OF child]
        by (auto simp: j Let_def split: if_splits)
    next
      case False
      have "trie_wf t1 \<and> t_cwd t1 = t_cwd t"
        if f: "trie_resolveAbs t (render (cs @ [part])) True False 0 = Inr (p, Some d)" "mode_IsDir (i_mode (inode t d))"
          "trie_mkdir_loop now perm d p parts t = (r, t1)" for p d
      proof -
        obtain ds where d: "valid_comps ds" "p = render ds" "entry_at t ds = Some d" using resolveAbs_found [OF f(1)] by (auto simp: found_def)
        then show ?thesis using Cons.IH [OF Cons.prems(1) d(3)] Cons.prems(4) f(2,3) dir [OF d(3)] by simp
      qed
      then show ?thesis using Cons.prems(1,5) Some False by (auto simp: j Let_def split: sum.splits option.splits if_splits)
    qed
  next
    case None
    obtain d t2 where i: "trie_install current part ((blank_inode (ModeDir OR perm) now)\<lparr>i_children := Some []\<rparr>) t = (d, t2)"
      by (metis prod.collapse)
    have v: "valid_comp part" using Cons.prems(4) by simp
    note at = install_at [OF Cons.prems(1-3) None v new_inode_ok(1) _ i]
    have e: "trie_wf t2" "entry_at t2 (cs @ [part]) = Some d" "t_cwd t2 = t_cwd t" "i_children (inode t2 d) \<noteq> None"
      using at(1) at(2) [of "cs @ [part]"] at(3,4) by simp_all
    then show ?thesis using Cons.IH [OF e(1,2,4)] Cons.prems(4,5) None i by (simp add: j)
  qed
qed simp

lemma mkdirAll_wf: "trie_wf t \<Longrightarrow> trie_mkdirAll now name perm t = (r, t1) \<Longrightarrow> trie_wf t1 \<and> t_cwd t1 = t_cwd t"
proof -
  assume a: "trie_wf t" "trie_mkdirAll now name perm t = (r, t1)"
  have "i_children (inode t (t_root t)) \<noteq> None" using a(1) by (simp add: trie_wf_def root_ok_def)
  then show ?thesis
    using a mkdir_loop_wf [OF a(1), of "[]" "t_root t" "abs_comps name"]
    by (auto simp: trie_mkdirAll_def Let_def Clean_eq split: if_splits)
qed

text \<open>Installing a node that is no directory at a free path.\<close>

lemma install_leaf:
  assumes "trie_wf t" "clean_path p" "lookupAbsNoFollowLocked t p = None" "createParentLocked op p t = Inr parent"
    "inode_ok node" "i_children node = None" "trie_install parent (path_Base p) node t = (d, t1)"
  shows "trie_wf t1" "entry_at t1 ds = (if ds = abs_comps p then Some d else entry_at t ds)" "t_cwd t1 = t_cwd t"
    "i_mode (inode t1 d) = i_mode node"
proof -
  obtain cs c where c: "valid_comps (cs @ [c])" "p = render (cs @ [c])" "entry_at t cs = Some parent"
    "i_children (inode t parent) \<noteq> None" "child_of t parent c = None" "path_Base p = c"
    using assms by (elim createParentE)
  then have "abs_comps p = cs @ [c]" "valid_comp c" by simp_all
  with install_at [OF assms(1) c(3-5) _ assms(5) _ assms(7) [unfolded c(6)]] assms(6)
  show "trie_wf t1" "entry_at t1 ds = (if ds = abs_comps p then Some d else entry_at t ds)" "t_cwd t1 = t_cwd t"
    "i_mode (inode t1 d) = i_mode node" by simp_all
qed

end
