(* ===== verification/Trie_Steps.thy ===== *)
theory Trie_Steps
  imports Trie_Ops
begin

text \<open>
  The trie as a state machine: every operation keeps the invariant, and the ones that change
  the tree change it exactly where they should.
\<close>

section \<open>Creating files and links\<close>

lemma symlink_locate_clean: "trie_symlink_locate l t = Inr p \<Longrightarrow> clean_path p"
  by (auto simp: trie_symlink_locate_def Let_def found_def dest!: resolvePath_found split: sum.splits prod.splits option.splits if_splits)

lemma symlink_wf: "trie_wf t \<Longrightarrow> tr_Symlink now target l t = (r, t1) \<Longrightarrow> trie_wf t1"
proof -
  assume a: "trie_wf t" "tr_Symlink now target l t = (r, t1)"
  have "trie_wf (snd (trie_install parent (path_Base p) ((blank_inode (ModeSymlink OR 0x1FF) now)\<lparr>i_target := target\<rparr>) t))"
    if "trie_symlink_locate l t = Inr p" "lookupAbsNoFollowLocked t p = None" "createParentLocked ''symlink'' p t = Inr parent" for p parent
    using install_leaf(1) [OF a(1) symlink_locate_clean [OF that(1)] that(2,3) new_inode_ok(3) _ surjective_pairing]
    by (simp add: mode_IsDir_def or_and_distrib blank_inode_def)
  with a show ?thesis by (auto simp: tr_Symlink_def split: sum.splits if_splits)
qed

lemma locate_clean:
  "trie_open_locate name flag t = Inr (p, None) \<Longrightarrow> flag AND O_CREATE \<noteq> 0 \<Longrightarrow> clean_path p \<and> lookupAbsNoFollowLocked t p = None"
  by (auto simp: trie_open_locate_def Let_def dest: resolveCreate_clean split: sum.splits prod.splits option.splits if_splits)

lemma open_make_wf:
  assumes "trie_wf t" "trie_open_locate name flag t = Inr (p, e)" "trie_open_make now flag perm p e t = (r, t1)"
  shows "trie_wf t1 \<and> t_cwd t1 = t_cwd t"
proof (cases "e = None \<and> flag AND O_CREATE \<noteq> 0")
  case True
  with locate_clean assms(2) have p: "clean_path p" "lookupAbsNoFollowLocked t p = None" by auto
  let ?perm = "if perm AND storedPermBits = 0 then 0x1A4 else perm AND storedPermBits"
  have nd: "\<not> mode_IsDir ?perm" by (simp add: mode_IsDir_def)
  show ?thesis
  proof (cases "createParentLocked ''open'' p t")
    case (Inr parent)
    obtain d t2 where i: "trie_install parent (path_Base p) (blank_inode ?perm now) t = (d, t2)" by (metis surj_pair)
    with install_leaf [OF assms(1) p Inr new_inode_ok(4) [OF nd] _ i] True assms(3) Inr show ?thesis
      by (simp add: trie_open_make_def blank_inode_def del: if_split split del: if_split)
  qed (use True assms in \<open>simp add: trie_open_make_def\<close>)
next
  case False
  with assms show ?thesis by (auto simp: trie_open_make_def split: option.splits if_splits)
qed

lemma shape_wf: "trie_wf t \<Longrightarrow> same_shape t t1 \<and> t_cwd t1 = t_cwd t \<Longrightarrow> trie_wf t1"
  using same_shape_wf by (auto simp: trie_wf_def)

lemma openfile_wf: "trie_wf t \<Longrightarrow> tr_OpenFile now name flag perm t = (r, t1) \<Longrightarrow> trie_wf t1"
proof -
  assume wf: "trie_wf t" and r: "tr_OpenFile now name flag perm t = (r, t1)"
  obtain r1 t2 where p: "trie_open_preload name flag t = (r1, t2)" by fastforce
  have t2: "trie_wf t2" by (rule shape_wf [OF wf preload_shape [OF p]])
  have "trie_wf t3" if "trie_open_locate name flag t2 = Inr (q, e)" "trie_open_make now flag perm q e t2 = (r2, t3)" for q e r2 t3
    using open_make_wf [OF t2 that] by simp
  moreover from this have "trie_wf t4"
    if "trie_open_locate name flag t2 = Inr (q, e)" "trie_open_make now flag perm q e t2 = (r2, t3)"
      "trie_open_finish now flag q d t3 = (r3, t4)" for q e r2 t3 d r3 t4
    using that shape_wf finish_shape by blast
  ultimately show ?thesis using r p t2 by (auto simp: tr_OpenFile_def split: sum.splits prod.splits)
qed

lemma link_wf: "trie_wf t \<Longrightarrow> tr_Link now old new t = (r, t1) \<Longrightarrow> trie_wf t1"
proof -
  assume wf: "trie_wf t" and r: "tr_Link now old new t = (r, t1)"
  have [simp]: "t_cwd (update_inode i f x) = t_cwd x" for i f x by (simp add: update_inode_def)
  have "trie_wf (update_inode j (\<lambda>n. n\<lparr>i_modTime := now\<rparr>) (attachChildLocked parent (t_nextDent t)
      (snd (new_dent \<lparr>d_name = path_Base q, d_parent = Some parent, d_inode = j\<rparr> t))))"
    if o: "trie_resolvePath t old False False = Inr (p, Some d)" "\<not> mode_IsDir (i_mode (inode t d))"
      and n: "trie_resolvePath t new False True = Inr (q, None)" "createParentLocked ''link'' q t = Inr parent"
      and j: "j = d_inode (t_dents t d)" for p d q parent j
  proof -
    have d: "d \<in> reach t" using resolvePath_found [OF o(1)] reachI by (auto simp: found_def)
    then have "i_children (inode t d) = None" using wf_dir [OF wf] o(2) by blast
    moreover have "j < t_nextInode t" "inode_ok (t_inodes t j)" using d wf j by (auto simp: trie_wf_def nodes_ok_def)
    ultimately have g: "grown_by t parent (path_Base q) j (snd (new_dent \<lparr>d_name = path_Base q, d_parent = Some parent, d_inode = j\<rparr> t))"
      using new_dent_grown [OF wf] j by simp
    have q: "clean_path q" "lookupAbsNoFollowLocked t q = None"
      using resolvePath_found [OF n(1)] by (auto simp: found_def lookup_render)
    obtain cs c where c: "valid_comps (cs @ [c])" "entry_at t cs = Some parent" "i_children (inode t parent) \<noteq> None"
      "child_of t parent c = None" "path_Base q = c" using createParentE [OF n(2) wf q] by metis
    have "valid_comp (path_Base q)" using c by simp
    then have "ready (snd (new_dent \<lparr>d_name = path_Base q, d_parent = Some parent, d_inode = j\<rparr> t)) parent (t_nextDent t)"
      using grown_ready [OF g wf reachI [OF c(2)] c(3)] c(4,5) by simp
    then have w: "trie_wf (attachChildLocked parent (t_nextDent t) (snd (new_dent \<lparr>d_name = path_Base q, d_parent = Some parent, d_inode = j\<rparr> t)))"
      by (rule attach_wf [OF grown_wf [OF g wf]])
    show ?thesis by (rule shape_wf [OF w]) (simp add: update_inode_shape)
  qed
  note linked = this
  show ?thesis
    using r wf by (auto simp: tr_Link_def Let_def new_dent_def split: sum.splits prod.splits option.splits if_splits
      intro!: linked [unfolded new_dent_def, simplified])
qed

section \<open>Removing\<close>

text \<open>A resolved entry other than the root hangs below its parent under its name.\<close>

lemma entry_parent:
  assumes "trie_wf t" "entry_at t cs = Some d" "cs \<noteq> []"
  obtains p where "entry_at t (butlast cs) = Some p" "d_parent (t_dents t d) = Some p" "d_name (t_dents t d) = last cs"
    "i_children (inode t p) \<noteq> None" "d < t_nextDent t"
proof -
  obtain ps n where cs: "cs = ps @ [n]" using assms(3) by (cases cs rule: rev_cases) auto
  with assms(2) obtain p where p: "entry_at t ps = Some p" "child_of t p n = Some d" by (auto elim: follow_snocE)
  then have "link_ok t p n d" using wf_link [OF assms(1) reachI] by blast
  moreover have "i_children (inode t p) \<noteq> None" using p(2) by (auto simp: child_of_def split: option.splits)
  ultimately show ?thesis using that [of p] p cs by (simp add: link_ok_def)
qed

lemma remove_cases:
  assumes "trie_wf t" "tr_Remove name recursive t = (r, t1)"
  shows "t1 = t \<and> r \<noteq> Inr () \<or>
     (\<exists>cs d p. trie_resolvePath t name False False = Inr (render cs, Some d) \<and> valid_comps cs \<and> cs \<noteq> [] \<and> r = Inr () \<and>
        entry_at t cs = Some d \<and> (mode_IsDir (i_mode (inode t d)) \<longrightarrow> recursive \<or> i_children (inode t d) = Some []) \<and>
        entry_at t (butlast cs) = Some p \<and> i_children (inode t p) \<noteq> None \<and> t1 = detachChildLocked (Some p) (last cs) t)"
proof (cases "trie_resolvePath t name False False")
  case (Inr q)
  then obtain p e where q: "q = (p, e)" "e \<noteq> None" using resolvePath_some by (cases q) blast
  then obtain d cs where d: "e = Some d" "valid_comps cs" "p = render cs" "entry_at t cs = Some d"
    using resolvePath_found [of t name False False q] Inr by (auto simp: found_def)
  show ?thesis
  proof (cases "cs = []")
    case False
    with d have ne: "p \<noteq> ''/''" by simp
    obtain pp where pp: "entry_at t (butlast cs) = Some pp" "d_parent (t_dents t d) = Some pp" "d_name (t_dents t d) = last cs"
      "i_children (inode t pp) \<noteq> None" by (rule entry_parent [OF assms(1) d(4) False])
    have dir: "mode_IsDir (i_mode (inode t d)) \<Longrightarrow> i_children (inode t d) \<noteq> None"
      using wf_dir [OF assms(1) reachI [OF d(4)]] by simp
    show ?thesis
    proof (cases "mode_IsDir (i_mode (inode t d)) \<and> i_children (inode t d) \<notin> {None, Some []} \<and> \<not> recursive")
      case True
      then show ?thesis using assms(2) Inr q d(1) ne by (auto simp: tr_Remove_def)
    next
      case F: False
      then have "t1 = detachChildLocked (Some pp) (last cs) t" "r = Inr ()"
        using assms(2) Inr q d(1) ne pp(2,3) by (simp_all only: tr_Remove_def) auto
      then show ?thesis using Inr q d pp(1,4) False F dir by blast
    qed
  next
    case True
    then show ?thesis using assms(2) Inr q d by (auto simp: tr_Remove_def)
  qed
qed (use assms in \<open>auto simp: tr_Remove_def\<close>)

lemma trie_remove_wf: "trie_wf t \<Longrightarrow> tr_Remove name recursive t = (r, t1) \<Longrightarrow> trie_wf t1"
  using remove_cases [of t name recursive r t1] detach_wf by auto

end
