(* ===== verification/Trie_Move.thy ===== *)
theory Trie_Move
  imports Trie_Steps
begin

text \<open>
  Renaming in the trie: the entry is taken from its parent, gets its new name and parent, and is
  attached again. The check that a directory is not moved below itself follows parent pointers;
  it ends, because the depth of an entry is bounded by the number of entries.
\<close>

section \<open>The ancestor check\<close>

lemma trieIsAncestor_spec:
  assumes "trie_wf t"
  shows "entry_at t cs = Some d \<Longrightarrow> length cs < fuel \<Longrightarrow>
     trieIsAncestor fuel t a (Some d) = Some (\<exists>ds. prefix ds cs \<and> entry_at t ds = Some a)"
proof (induction cs arbitrary: d fuel rule: rev_induct)
  case Nil
  have "d_parent (t_dents t (t_root t)) = None" using assms by (simp add: trie_wf_def root_ok_def)
  with Nil show ?case by (cases fuel) auto
next
  case (snoc c cs)
  obtain p where p: "entry_at t cs = Some p" "d_parent (t_dents t d) = Some p"
    by (rule entry_parent [OF assms snoc.prems(1)]) simp_all
  obtain f where f: "fuel = Suc f" "length cs < f" using snoc.prems(2) by (cases fuel) auto
  show ?case
  proof (cases "d = a")
    case True
    then show ?thesis using snoc.prems(1) f(1) by auto
  next
    case False
    then show ?thesis using snoc.IH [OF p(1) f(2)] snoc.prems(1) p(2) f(1) by (auto simp: prefix_snoc)
  qed
qed

lemma trieIsAncestor_returns: "trie_wf t \<Longrightarrow> d \<in> reach t \<Longrightarrow> t_nextDent t \<le> fuel \<Longrightarrow> trieIsAncestor fuel t a (Some d) \<noteq> None"
proof -
  assume wf: "trie_wf t" "t_nextDent t \<le> fuel" and "d \<in> reach t"
  then obtain cs where cs: "entry_at t cs = Some d" by (auto simp: below_def)
  have "length cs < fuel" using entry_depth [OF wf(1) cs] wf(2) by simp
  then show ?thesis using trieIsAncestor_spec [OF wf(1) cs] by simp
qed

section \<open>Changing the name and the parent of a detached entry\<close>

lemma child_of_update_dent:
  assumes "\<And>e. d_inode (f e) = d_inode e"
  shows "child_of (update_dent x f t) d n = child_of t d n" "inode (update_dent x f t) d = inode t d"
  using assms by (simp_all add: child_of_def update_dent_def)

lemma update_dent_below:
  assumes "\<And>e. d_inode (f e) = d_inode e"
  shows "trie_follow (update_dent x f t) d cs = trie_follow t d cs" "below (update_dent x f t) d = below t d"
  using follow_cong [of t d "update_dent x f t" cs] below_cong [of t d "update_dent x f t"] child_of_update_dent(1) [of f x t, OF assms]
  by simp_all

lemma update_dent_fields [simp]:
  "t_root (update_dent x f t) = t_root t" "t_nextDent (update_dent x f t) = t_nextDent t" "t_cwd (update_dent x f t) = t_cwd t"
  "t_nextInode (update_dent x f t) = t_nextInode t" "t_inodes (update_dent x f t) = t_inodes t"
  "d \<noteq> x \<Longrightarrow> t_dents (update_dent x f t) d = t_dents t d" "t_dents (update_dent x f t) x = f (t_dents t x)"
  by (simp_all add: update_dent_def)

text \<open>The situation after the detachment: \<open>x\<close> and everything below it is no longer reachable.\<close>

definition cut_off :: "TrieFS \<Rightarrow> nat \<Rightarrow> bool" where
  "cut_off t x \<longleftrightarrow> trie_wf t \<and> x < t_nextDent t \<and> reach t \<inter> below t x = {} \<and>
     (\<forall>d \<in> below t x. \<forall>n. child_of t d n \<noteq> Some x) \<and> links_ok t (below t x) \<and> nodes_ok t (below t x) \<and>
     unshared t (reach t \<union> below t x)"

lemma detach_cut_off:
  assumes wf: "trie_wf t" and x: "entry_at t cs = Some x" "cs \<noteq> []" and p: "entry_at t (butlast cs) = Some p" "i_children (inode t p) \<noteq> None"
  shows "cut_off (detachChildLocked (Some p) (last cs) t) x"
    "trie_follow (detachChildLocked (Some p) (last cs) t) x zs = entry_at t (cs @ zs)"
proof -
  let ?t = "detachChildLocked (Some p) (last cs) t"
  have e: "entry_at ?t ds = (if prefix cs ds then None else entry_at t ds)" for ds
    using entry_detach [OF wf p] x(2) by simp
  have under: "entry_at t (cs @ ds) = trie_follow t x ds" for ds using x(1) by (simp add: follow_append)
  have b: "below t x \<subseteq> reach t" using reachI [OF x(1)] below_trans by blast
  note bd = below_detach [of p "last cs" t]
  have dis: "reach ?t \<inter> below t x = {}"
  proof (rule ccontr)
    assume "reach ?t \<inter> below t x \<noteq> {}"
    then obtain d ds es where "entry_at ?t ds = Some d" "trie_follow t x es = Some d" by (auto simp: below_def)
    then show False using e [of ds] under [of es] entry_unique [OF wf, of ds d "cs @ es"] by (auto split: if_splits)
  qed
  have self: "child_of t d n \<noteq> Some x" if d: "d \<in> below t x" for d n
  proof
    assume "child_of t d n = Some x"
    moreover obtain es where "trie_follow t x es = Some d" using d by (auto simp: below_def)
    ultimately have "entry_at t (cs @ es @ [n]) = Some x" using under [of "es @ [n]"] by (simp add: follow_snoc)
    then show False using entry_unique [OF wf x(1)] by fastforce
  qed
  have up: "p \<notin> below t x"
  proof
    assume "p \<in> below t x"
    then obtain es where "entry_at t (cs @ es) = Some p" using under by (auto simp: below_def)
    then have "butlast cs = cs @ es" using entry_unique [OF wf p(1)] by blast
    then have "length (butlast cs) = length (cs @ es)" by simp
    then show False using x(2) by (cases cs rule: rev_cases) auto
  qed
  have "child_of ?t d n = child_of t d n" if d: "d \<in> below t x" for d n
  proof -
    have "d \<noteq> p" "d \<in> reach t" using d b up by blast+
    then have "d_inode (t_dents t d) \<noteq> d_inode (t_dents t p)" using wf_same_dir [OF wf reachI [OF p(1)], of d] p(2) by metis
    then show ?thesis by (simp add: child_of_detach)
  qed
  then show "trie_follow ?t x zs = entry_at t (cs @ zs)" using follow_cong [of t x ?t zs] under by simp
  note w = trie_wfD [OF wf]
  have "links_ok ?t (below ?t x)"
    using ok_mono(1) [OF b w(2)] bd [of x] by (auto simp: links_ok_def child_of_detach link_ok_def)
  moreover have "nodes_ok ?t (below ?t x)"
    using ok_mono(2) [OF subset_trans [OF bd b] w(3)] by (simp add: nodes_ok_def inode_ok_def detach_inode detach_cache)
  moreover have "unshared ?t (reach ?t \<union> below ?t x)"
  proof -
    have "reach ?t \<union> below ?t x \<subseteq> reach t" using bd [of x] bd [of "t_root t"] b by auto
    from ok_mono(3) [OF this w(4)] show ?thesis by (simp add: unshared_def detach_inode)
  qed
  moreover have "x < t_nextDent t" by (rule entry_bound [OF wf reachI [OF x(1)]])
  ultimately show "cut_off ?t x"
    using detach_wf [OF wf] dis self bd [of x] by (auto simp: cut_off_def child_of_detach)
qed

lemma cut_off_ready:
  assumes c: "cut_off t x" and q: "q \<in> reach t" "i_children (inode t q) \<noteq> None" "child_of t q name = None" "valid_comp name"
  shows "trie_wf (update_dent x (\<lambda>e. e\<lparr>d_name := name, d_parent := Some q\<rparr>) t)"
    "ready (update_dent x (\<lambda>e. e\<lparr>d_name := name, d_parent := Some q\<rparr>) t) q x"
proof -
  let ?f = "\<lambda>e :: trieDentry. e\<lparr>d_name := name, d_parent := Some q\<rparr>"
  let ?t = "update_dent x ?f t"
  have ch: "child_of ?t d n = child_of t d n" "inode ?t d = inode t d" "d_inode (t_dents ?t d) = d_inode (t_dents t d)" "below ?t d = below t d" for d n
    using child_of_update_dent [of ?f x t] update_dent_below [of ?f x t] by (simp_all add: update_dent_def)
  have wf: "trie_wf t" and lx: "links_ok t (below t x)" and x: "x \<notin> reach t" "x < t_nextDent t"
    using c by (auto simp: cut_off_def)
  note w = trie_wfD [OF wf]
  have link: "links_ok ?t A" if A: "links_ok t A" "\<And>d n. d \<in> A \<Longrightarrow> child_of t d n \<noteq> Some x" for A
    unfolding links_ok_def ch
  proof (intro ballI allI impI)
    fix d n y
    assume "d \<in> A" "child_of t d n = Some y"
    with A have "link_ok t d n y" "y \<noteq> x" by (auto simp: links_ok_def)
    then show "link_ok ?t d n y" by (simp add: link_ok_def)
  qed
  have "links_ok ?t (reach t)" using link [OF w(2)] x(1) below_child by blast
  moreover have "t_root t \<noteq> x" using x(1) below_self by metis
  ultimately show "trie_wf ?t"
    using w by (simp add: trie_wf_def root_ok_def nodes_ok_def unshared_def ch)
  have "links_ok ?t (below t x)" using c link by (auto simp: cut_off_def)
  moreover have "q \<notin> below t x" using c q(1) by (auto simp: cut_off_def)
  ultimately show "ready ?t q x"
    using c q x(2) by (simp add: ready_def ch cut_off_def nodes_ok_def unshared_def link_ok_def)
qed

section \<open>Renaming\<close>

lemma rename_cases:
  assumes wf: "trie_wf t" and fuel: "t_nextDent t \<le> fuel"
  shows "(\<exists>e. tr_Rename fuel old new t = Some (Inl e, t)) \<or>
     (\<exists>cs ds x p q. trie_resolvePath t old False False = Inr (render cs, Some x) \<and> entry_at t cs = Some x \<and> cs \<noteq> [] \<and>
        trie_resolvePath t new False True = Inr (render ds, None) \<and> valid_comps ds \<and> ds \<noteq> [] \<and> \<not> prefix cs ds \<and>
        entry_at t (butlast cs) = Some p \<and> i_children (inode t p) \<noteq> None \<and>
        entry_at t (butlast ds) = Some q \<and> i_children (inode t q) \<noteq> None \<and> child_of t q (last ds) = None \<and>
        tr_Rename fuel old new t = Some (Inr (), attachChildLocked q x
          (update_dent x (\<lambda>e. e\<lparr>d_name := last ds, d_parent := Some q\<rparr>) (detachChildLocked (Some p) (last cs) t))))"
    (is "?err \<or> ?ok")
proof -
  consider e where "trie_resolvePath t old False False = Inl e" | "trie_resolvePath t old False False = Inr (''/'', Some (t_root t))"
    | cs x where "trie_resolvePath t old False False = Inr (render cs, Some x)" "entry_at t cs = Some x" "cs \<noteq> []" "valid_comps cs"
  proof (cases "trie_resolvePath t old False False")
    case (Inr q)
    obtain r x where q: "q = (r, Some x)" using resolvePath_some Inr by (cases q) blast
    with resolvePath_found [OF Inr] obtain cs where "valid_comps cs" "r = render cs" "entry_at t cs = Some x" by (auto simp: found_def)
    then show ?thesis using that(2,3) Inr q by (cases "cs = []") auto
  qed (use that in blast)
  then show ?thesis
  proof cases
    case o: 3
    then have ne: "render cs \<noteq> ''/''" by simp
    consider e where "trie_resolvePath t new False True = Inl e" | y where "\<exists>r. trie_resolvePath t new False True = Inr (r, Some y)"
      | ds where "trie_resolvePath t new False True = Inr (render ds, None)" "valid_comps ds" "entry_at t ds = None"
    proof (cases "trie_resolvePath t new False True")
      case (Inr q)
      obtain r y where q: "q = (r, y)" by fastforce
      with resolvePath_found [OF Inr] obtain ds where "valid_comps ds" "r = render ds" "entry_at t ds = y" by (auto simp: found_def)
      then show ?thesis using that(2,3) Inr q by (cases y) auto
    qed (use that in blast)
    then show ?thesis
    proof cases
      case n: 3
      show ?thesis
      proof (cases "createParentLocked ''rename'' (render ds) t")
        case (Inl e)
        then show ?thesis using o ne n by (simp add: tr_Rename_def)
      next
        case (Inr q)
        have free: "clean_path (render ds)" "lookupAbsNoFollowLocked t (render ds) = None" using n(2,3) by (simp_all add: lookup_render)
        obtain es c where c: "valid_comps (es @ [c])" "render ds = render (es @ [c])" "entry_at t es = Some q"
          "i_children (inode t q) \<noteq> None" "child_of t q c = None" "path_Base (render ds) = c"
          by (rule createParentE [OF Inr wf free])
        have ds: "ds = es @ [c]" using render_inj [OF n(2) c(1)] c(2) by (rule iffD1)
        obtain p where p: "entry_at t (butlast cs) = Some p" "d_parent (t_dents t x) = Some p" "d_name (t_dents t x) = last cs"
          "i_children (inode t p) \<noteq> None" by (rule entry_parent [OF wf o(2,3)])
        have dir: "mode_IsDir (i_mode (inode t x)) \<longleftrightarrow> i_children (inode t x) \<noteq> None" using wf_dir [OF wf reachI [OF o(2)]] .
        have "(\<exists>zs. prefix zs es \<and> entry_at t zs = Some x) \<longleftrightarrow> prefix cs es" using entry_unique [OF wf o(2)] o(2) by blast
        then have anc: "trieIsAncestor fuel t x (Some q) = Some (prefix cs es)"
          using trieIsAncestor_spec [OF wf c(3), of fuel x] entry_depth [OF wf c(3)] fuel by simp
        have leaf: "\<not> prefix cs es" if "\<not> mode_IsDir (i_mode (inode t x))"
        proof
          assume "prefix cs es"
          then obtain zs where "es = cs @ zs" by (auto simp: prefix_def)
          then have "trie_follow t x zs = Some q" using c(3) o(2) by (simp add: follow_append)
          then show False using that dir c(4) by (cases zs) (auto simp: child_of_def)
        qed
        show ?thesis
        proof (cases "prefix cs es")
          case True
          then show ?thesis using o ne n Inr anc leaf by (auto simp: tr_Rename_def)
        next
          case False
          then have "(if mode_IsDir (i_mode (inode t x)) then trieIsAncestor fuel t x (Some q) else Some False) = Some False"
            using anc by simp
          then have "tr_Rename fuel old new t = Some (Inr (), attachChildLocked q x
            (update_dent x (\<lambda>e. e\<lparr>d_name := c, d_parent := Some q\<rparr>) (detachChildLocked (Some p) (last cs) t)))"
            using o ne n Inr p(2,3) c(6) by (simp add: tr_Rename_def Let_def)
          moreover have "\<not> prefix cs ds" using False ds n(3) o(2) by (auto simp: prefix_snoc)
          ultimately show ?thesis
            by (intro disjI2 exI [of _ cs] exI [of _ ds] exI [of _ x] exI [of _ p] exI [of _ q])
              (use o n(1,2) c(3-5) p(1,4) in \<open>simp add: ds\<close>)
        qed
      qed
    qed (use o ne in \<open>auto simp: tr_Rename_def\<close>)
  qed (auto simp: tr_Rename_def)
qed

text \<open>The content of an inode, apart from the map of children and the cache of their names.\<close>

definition content_of :: "TrieFS \<Rightarrow> nat \<Rightarrow> trieInode" where
  "content_of t d = (inode t d)\<lparr>i_children := None, i_names := None, i_dirty := False\<rparr>"

lemma content_attach: "content_of (attachChildLocked p e t) d = content_of t d"
  by (auto simp: content_of_def attachChildLocked_def update_inode_def split: option.splits)

lemma content_detach: "content_of (detachChildLocked p n t) d = content_of t d"
  by (auto simp: content_of_def detachChildLocked_def update_inode_def split: option.splits)

lemma rename_moves:
  assumes wf: "trie_wf t" and x: "entry_at t cs = Some x" "cs \<noteq> []" and p: "entry_at t (butlast cs) = Some p" "i_children (inode t p) \<noteq> None"
    and ds: "valid_comps ds" "ds \<noteq> []" "\<not> prefix cs ds" and q: "entry_at t (butlast ds) = Some q" "i_children (inode t q) \<noteq> None"
      "child_of t q (last ds) = None"
    and t1: "t1 = attachChildLocked q x
          (update_dent x (\<lambda>e. e\<lparr>d_name := last ds, d_parent := Some q\<rparr>) (detachChildLocked (Some p) (last cs) t))"
  shows "trie_wf t1"
    "entry_at t1 es = (if prefix ds es then entry_at t (cs @ drop (length ds) es) else if prefix cs es then None else entry_at t es)"
    "content_of t1 d = content_of t d" "t_cwd t1 = t_cwd t"
proof -
  let ?f = "\<lambda>e :: trieDentry. e\<lparr>d_name := last ds, d_parent := Some q\<rparr>"
  define t2 where "t2 = detachChildLocked (Some p) (last cs) t"
  let ?t = "update_dent x ?f t2"
  note c = detach_cut_off [OF wf x p, folded t2_def]
  have e2: "entry_at t2 es = (if prefix cs es then None else entry_at t es)" for es
    using entry_detach [OF wf p] x(2) by (simp add: t2_def)
  have "\<not> prefix cs (butlast ds)" using ds(3) prefix_order.trans [OF _ prefixeq_butlast] by blast
  then have q2: "entry_at t2 (butlast ds) = Some q" using q(1) by (simp add: e2)
  have i2: "i_children (inode t2 q) \<noteq> None" using q(2) by (simp add: t2_def detach_inode)
  have n2: "child_of t2 q (last ds) = None" using q(3) by (simp add: t2_def child_of_detach)
  have "valid_comp (last ds)" using ds(1,2) by (simp add: list_all_iff)
  note r = cut_off_ready [OF c(1) reachI [OF q2] i2 n2 this]
  show "trie_wf t1" unfolding t1 t2_def [symmetric] by (rule attach_wf [OF r])
  have fl: "trie_follow ?t y zs = trie_follow t2 y zs" for y zs by (rule update_dent_below) simp
  have "entry_at (attachChildLocked q x ?t) es = (if prefix ds es then entry_at t (cs @ drop (length ds) es) else entry_at t2 es)"
    using entry_attach [OF r, of "butlast ds" es] q2 ds(2) c(2) by (simp add: fl)
  then show "entry_at t1 es = (if prefix ds es then entry_at t (cs @ drop (length ds) es) else if prefix cs es then None else entry_at t es)"
    unfolding t1 t2_def [symmetric] by (simp add: e2)
  have "content_of ?t d = content_of t2 d" by (simp add: content_of_def update_dent_def)
  then show "content_of t1 d = content_of t d" by (simp add: t1 content_attach t2_def content_detach)
  show "t_cwd t1 = t_cwd t" by (simp add: t1)
qed

text \<open>More fuel never changes a result, so the fuel of a call that returned does not matter.\<close>

lemma trieIsAncestor_mono: "trieIsAncestor f t a c = Some b \<Longrightarrow> f \<le> g \<Longrightarrow> trieIsAncestor g t a c = Some b"
proof (induction f t a c arbitrary: g rule: trieIsAncestor.induct)
  case (3 f t a c)
  then show ?case by (cases g) (auto split: if_splits)
qed simp_all

lemma rename_mono: "tr_Rename f old new t = Some r \<Longrightarrow> f \<le> g \<Longrightarrow> tr_Rename g old new t = Some r"
  using trieIsAncestor_mono [of f t _ _ _ g]
  by (auto simp: tr_Rename_def split: sum.splits prod.splits option.splits bool.splits if_splits)

lemma rename_wf:
  assumes wf: "trie_wf t" and r: "tr_Rename fuel old new t = Some (r, t1)"
  shows "trie_wf t1"
proof -
  define g where "g = max fuel (t_nextDent t)"
  have g: "tr_Rename g old new t = Some (r, t1)" by (rule rename_mono [OF r]) (simp add: g_def)
  have "t_nextDent t \<le> g" by (simp add: g_def)
  from rename_cases [OF wf this, of old new] show ?thesis
  proof (elim disjE exE conjE)
    fix cs ds x p q
    assume "entry_at t cs = Some x" "cs \<noteq> []" "entry_at t (butlast cs) = Some p" "i_children (inode t p) \<noteq> None"
      "valid_comps ds" "ds \<noteq> []" "\<not> prefix cs ds" "entry_at t (butlast ds) = Some q" "i_children (inode t q) \<noteq> None"
      "child_of t q (last ds) = None"
      and "tr_Rename g old new t = Some (Inr (), attachChildLocked q x
          (update_dent x (\<lambda>e. e\<lparr>d_name := last ds, d_parent := Some q\<rparr>) (detachChildLocked (Some p) (last cs) t)))"
    then show ?thesis using g by (intro rename_moves(1) [OF wf]) simp_all
  qed (use g wf in simp)
qed

end
