(* ===== verification/Trie_Props.thy ===== *)
theory Trie_Props
  imports Trie_Move
begin

text \<open>
  The properties of the trie file system: the invariant of every reachable state, and the exact
  effect of removing, renaming and listing.
\<close>

section \<open>Reachable states\<close>

lemma chdir_wf: "trie_wf t \<Longrightarrow> tr_Chdir name t = (r, t1) \<Longrightarrow> trie_wf t1"
proof -
  assume wf: "trie_wf t" and r: "tr_Chdir name t = (r, t1)"
  have "trie_wf (t\<lparr>t_cwd := p\<rparr>)" if "trie_resolvePath t name True False = Inr (p, e)" for p e
  proof -
    have "clean_path p" using resolvePath_found [OF that] by (auto simp: found_def)
    then show ?thesis by (intro same_shape_wf [OF _ _ wf]) (simp_all add: same_shape_def)
  qed
  with wf r show ?thesis by (auto simp: tr_Chdir_def split: sum.splits prod.splits option.splits if_splits)
qed

lemma mkdir_wf: "trie_wf t \<Longrightarrow> tr_MkdirAll now name perm t = (r, t1) \<Longrightarrow> trie_wf t1"
  using mkdirAll_wf by (simp add: tr_MkdirAll_def)

lemma trie_seed_node_ok: "inode_ok (trie_seed_node now file)" "i_children (trie_seed_node now file) = None"
proof -
  have "mode_Perm m AND ModeDir = 0" for m by (simp add: mode_Perm_def and.assoc mode_bits)
  then show "inode_ok (trie_seed_node now file)"
    unfolding trie_seed_node_def Let_def by (intro new_inode_ok(2)) (simp add: mode_IsDir_def)
  show "i_children (trie_seed_node now file) = None" by (simp add: trie_seed_node_def Let_def blank_inode_def)
qed

lemma seedFile_wf: "trie_wf t \<Longrightarrow> trie_seedFile now name file t = (r, t1) \<Longrightarrow> trie_wf t1"
proof -
  assume wf: "trie_wf t" and r: "trie_seedFile now name file t = (r, t1)"
  let ?p = "Clean name"
  obtain r2 t2 where m: "trie_mkdirAll now (parentDir ?p) 0x1ED t = (r2, t2)" by fastforce
  then have wf2: "trie_wf t2" using mkdirAll_wf [OF wf] by blast
  have "trie_wf (snd (trie_install parent (path_Base ?p) (trie_seed_node now file) t2))"
    if a: "?p \<noteq> ''/''" "trie_resolveAbs t2 (parentDir ?p) True False 0 = Inr (q, Some parent)" "mode_IsDir (i_mode (inode t2 parent))"
      "child_of t2 parent (path_Base ?p) = None" for q parent
  proof -
    obtain cs where cs: "entry_at t2 cs = Some parent" using resolveAbs_found [OF a(2)] by (auto simp: found_def)
    obtain xs x where "abs_comps name = xs @ [x]" using a(1) by (cases "abs_comps name" rule: rev_cases) (auto simp: Clean_eq)
    then have "valid_comp (path_Base ?p)" using abs_comps_valid [of name] by (simp add: Clean_eq)
    then show ?thesis
      using install_at(1) [OF wf2 cs _ a(4) _ trie_seed_node_ok(1) _ surjective_pairing] wf_dir [OF wf2 reachI [OF cs]] a(3) trie_seed_node_ok(2)
      by simp
  qed
  with r m wf wf2 show ?thesis
    by (auto simp: trie_seedFile_def Let_def split: sum.splits prod.splits option.splits if_splits)
qed

lemma seedFiles_wf: "trie_wf t \<Longrightarrow> trie_seedFiles now files t = (r, t1) \<Longrightarrow> trie_wf t1"
proof (induction now files t rule: trie_seedFiles.induct)
  case (2 now name f files t)
  then show ?case using seedFile_wf [OF "2.prems"(1)] by (auto split: sum.splits prod.splits)
qed simp

lemma NewTrie_wf: "trie_wf (NewTrie now)"
proof -
  have c: "child_of (NewTrie now) d n = None" for d n by (simp add: child_of_def NewTrie_def)
  then have "trie_follow (NewTrie now) 0 cs = (if cs = [] then Some 0 else None)" for cs by (cases cs) simp_all
  then have "reach (NewTrie now) = {0}" by (auto simp: below_def NewTrie_def)
  then show ?thesis
    by (simp add: trie_wf_def root_ok_def links_ok_def nodes_ok_def unshared_def c)
      (simp add: NewTrie_def inode_ok_def names_ok_def blank_inode_def mode_IsDir_def or_and_distrib)
qed

inductive trie_step :: "TrieFS \<Rightarrow> TrieFS \<Rightarrow> bool" where
  t_mkdir: "tr_MkdirAll now name perm t = (res, t') \<Longrightarrow> trie_step t t'"
| t_openfile: "tr_OpenFile now name flag perm t = (hres, t') \<Longrightarrow> trie_step t t'"
| t_stat: "tr_stat_op op follow name t = (sres, t') \<Longrightarrow> trie_step t t'"
| t_readdir: "tr_ReadDir name t = (dres, t') \<Longrightarrow> trie_step t t'"
| t_chown: "tr_Chown name uid gid follow t = (res, t') \<Longrightarrow> trie_step t t'"
| t_chmod: "tr_Chmod now name mode t = (res, t') \<Longrightarrow> trie_step t t'"
| t_chtimes: "tr_Chtimes now name ta tm t = (res, t') \<Longrightarrow> trie_step t t'"
| t_symlink: "tr_Symlink now target name t = (res, t') \<Longrightarrow> trie_step t t'"
| t_link: "tr_Link now old new t = (res, t') \<Longrightarrow> trie_step t t'"
| t_remove: "tr_Remove name recursive t = (res, t') \<Longrightarrow> trie_step t t'"
| t_rename: "tr_Rename fuel old new t = Some (res, t') \<Longrightarrow> trie_step t t'"
| t_chdir: "tr_Chdir name t = (res, t') \<Longrightarrow> trie_step t t'"
| t_read: "tr_Read n f t = (rres, f', t') \<Longrightarrow> trie_step t t'"
| t_write: "tr_Write now p f t = (wres, f', t') \<Longrightarrow> trie_step t t'"
| t_fstat: "tr_FileStat f t = (sres, t') \<Longrightarrow> trie_step t t'"
| t_seed: "trie_seedFiles now files t = (res, t') \<Longrightarrow> trie_step t t'"

inductive trie_reachable :: "TrieFS \<Rightarrow> bool" where
  new: "trie_reachable (NewTrie now)"
| step: "trie_reachable t \<Longrightarrow> trie_step t t' \<Longrightarrow> trie_reachable t'"

lemmas shape_wfs =
  shape_wf [OF _ stat_op_shape] shape_wf [OF _ readdir_shape] shape_wf [OF _ metadata_shape(1)] shape_wf [OF _ metadata_shape(2)]
  shape_wf [OF _ metadata_shape(3)] shape_wf [OF _ read_shape] shape_wf [OF _ write_shape] shape_wf [OF _ file_stat_shape]

lemma trie_step_wf: "trie_step t t' \<Longrightarrow> trie_wf t \<Longrightarrow> trie_wf t'"
  by (induction rule: trie_step.induct)
    (auto intro: mkdir_wf openfile_wf symlink_wf link_wf trie_remove_wf rename_wf chdir_wf seedFiles_wf shape_wfs)

lemma trie_reachable_ok: "trie_reachable t \<Longrightarrow> trie_wf t"
  by (induction rule: trie_reachable.induct) (auto intro: NewTrie_wf trie_step_wf)

text \<open>
  (C10) Tree invariant of the trie: in every state that operations, open handles and seeding reach
  from a new trie, the entries below the root form a tree whose parent pointers and names agree
  with the maps of children, directories are not hard-linked, and a cache of names that is not
  marked dirty is the sorted list of the children.
\<close>

theorem trie_reachable_tree:
  assumes "trie_reachable t"
  shows "trie_wf t"
  using assms by (rule trie_reachable_ok)

theorem trie_reachable_tree_witness:
  "trie_wf (snd (tr_ReadDir ''/d'' (snd (tr_Symlink 5 ''/x'' ''/d/l'' (snd (tr_MkdirAll 5 ''/d/e'' 0 (NewTrie 1)))))))"
proof (rule trie_reachable_tree)
  have "trie_reachable (snd (tr_MkdirAll 5 ''/d/e'' 0 (NewTrie 1)))"
    by (rule trie_reachable.step [OF trie_reachable.new trie_step.t_mkdir [OF surjective_pairing]])
  then have "trie_reachable (snd (tr_Symlink 5 ''/x'' ''/d/l'' (snd (tr_MkdirAll 5 ''/d/e'' 0 (NewTrie 1)))))"
    by (rule trie_reachable.step [OF _ trie_step.t_symlink [OF surjective_pairing]])
  then show "trie_reachable (snd (tr_ReadDir ''/d'' (snd (tr_Symlink 5 ''/x'' ''/d/l'' (snd (tr_MkdirAll 5 ''/d/e'' 0 (NewTrie 1)))))))"
    by (rule trie_reachable.step [OF _ trie_step.t_readdir [OF surjective_pairing]])
qed

section \<open>Removing and renaming\<close>

text \<open>
  \<open>Remove\<close> on the trie removes the resolved entry with everything below it and nothing else, only
  recursively if it is a directory that is not empty, and changes no inode's content.
\<close>

theorem trie_Remove_exact:
  assumes "trie_reachable t" and "tr_Remove name recursive t = (Inr (), t1)"
  shows "\<exists>cs d. trie_resolvePath t name False False = Inr (render cs, Some d) \<and> valid_comps cs \<and> cs \<noteq> [] \<and>
     (recursive \<or> (\<forall>c. entry_at t (cs @ [c]) = None)) \<and>
     (\<forall>ds. entry_at t1 ds = (if prefix cs ds then None else entry_at t ds)) \<and>
     (\<forall>e. content_of t1 e = content_of t e)"
proof -
  have wf: "trie_wf t" using assms(1) by (rule trie_reachable_ok)
  obtain cs d p where c: "trie_resolvePath t name False False = Inr (render cs, Some d)" "valid_comps cs" "cs \<noteq> []" "entry_at t cs = Some d"
    "mode_IsDir (i_mode (inode t d)) \<longrightarrow> recursive \<or> i_children (inode t d) = Some []"
    "entry_at t (butlast cs) = Some p" "i_children (inode t p) \<noteq> None" "t1 = detachChildLocked (Some p) (last cs) t"
    using remove_cases [OF wf assms(2)] by auto
  have "recursive \<or> (\<forall>c. child_of t d c = None)"
    using c(5) wf_dir [OF wf reachI [OF c(4)]] by (auto simp: child_of_def split: option.splits)
  then have "recursive \<or> (\<forall>c. entry_at t (cs @ [c]) = None)" using c(4) by (simp add: follow_snoc)
  moreover have "entry_at t1 ds = (if prefix cs ds then None else entry_at t ds)" for ds
    using entry_detach [OF wf c(6,7), of "last cs" ds] c(3,8) by simp
  moreover have "content_of t1 e = content_of t e" for e by (simp add: c(8) content_detach)
  ultimately show ?thesis using c(1-3) by blast
qed

theorem trie_Remove_exact_witness:
  "\<exists>t1 cs d. tr_Remove ''/d'' True (snd (tr_MkdirAll 5 ''/d/e'' 0 (NewTrie 1))) = (Inr (), t1) \<and>
     trie_resolvePath (snd (tr_MkdirAll 5 ''/d/e'' 0 (NewTrie 1))) ''/d'' False False = Inr (render cs, Some d) \<and>
     (\<forall>ds. entry_at t1 ds = (if prefix cs ds then None else entry_at (snd (tr_MkdirAll 5 ''/d/e'' 0 (NewTrie 1))) ds))"
proof -
  let ?t = "snd (tr_MkdirAll 5 ''/d/e'' 0 (NewTrie 1))"
  have "fst (tr_Remove ''/d'' True ?t) = Inr ()" by code_simp
  then obtain t1 where t1: "tr_Remove ''/d'' True ?t = (Inr (), t1)" by (metis prod.collapse)
  have "trie_reachable ?t"
    by (rule trie_reachable.step [OF trie_reachable.new trie_step.t_mkdir [OF surjective_pairing]])
  from trie_Remove_exact [OF this t1] t1 show ?thesis by blast
qed

text \<open>The specification of a move of the subtree at \<open>cs\<close> to \<open>ds\<close>.\<close>

definition subtree_moved :: "TrieFS \<Rightarrow> string list \<Rightarrow> string list \<Rightarrow> TrieFS \<Rightarrow> bool" where
  "subtree_moved t cs ds t1 \<longleftrightarrow>
     (\<forall>es. entry_at t1 es =
        (if prefix ds es then entry_at t (cs @ drop (length ds) es) else if prefix cs es then None else entry_at t es)) \<and>
     (\<forall>e. content_of t1 e = content_of t e)"

text \<open>
  (C22) \<open>Rename\<close> on the trie always returns (the walk along the parents needs no more steps than there
  are entries), and when it succeeds the subtree of the old path is found under the new path,
  which was free and is not below the old one, nothing is left under the old path, every
  other path and every inode's content is unchanged. When it fails nothing changes.
\<close>

theorem trie_Rename_exact:
  assumes "trie_reachable t" and "t_nextDent t \<le> fuel"
  shows "\<exists>res t1. tr_Rename fuel old new t = Some (res, t1) \<and>
     (res \<noteq> Inr () \<longrightarrow> t1 = t) \<and>
     (res = Inr () \<longrightarrow>
        (\<exists>cs ds x. trie_resolvePath t old False False = Inr (render cs, Some x) \<and> cs \<noteq> [] \<and>
           trie_resolvePath t new False True = Inr (render ds, None) \<and> valid_comps ds \<and> \<not> prefix cs ds \<and>
           subtree_moved t cs ds t1))"
proof -
  have wf: "trie_wf t" using assms(1) by (rule trie_reachable_ok)
  from rename_cases [OF wf assms(2), of old new] show ?thesis
  proof (elim disjE exE conjE)
    fix cs ds x p q
    let ?t = "attachChildLocked q x (update_dent x (\<lambda>e. e\<lparr>d_name := last ds, d_parent := Some q\<rparr>) (detachChildLocked (Some p) (last cs) t))"
    assume r: "trie_resolvePath t old False False = Inr (render cs, Some x)" "trie_resolvePath t new False True = Inr (render ds, None)"
      and h: "entry_at t cs = Some x" "cs \<noteq> []" "entry_at t (butlast cs) = Some p" "i_children (inode t p) \<noteq> None"
      "valid_comps ds" "ds \<noteq> []" "\<not> prefix cs ds" "entry_at t (butlast ds) = Some q" "i_children (inode t q) \<noteq> None" "child_of t q (last ds) = None"
      and ok: "tr_Rename fuel old new t = Some (Inr (), ?t)"
    have "subtree_moved t cs ds ?t" unfolding subtree_moved_def using rename_moves(2,3) [OF wf h refl] by blast
    with ok r h(2,5,7) show ?thesis by (intro exI [of _ "Inr ()"] exI [of _ ?t]) blast
  qed auto
qed

theorem trie_Rename_exact_witness:
  "\<exists>t1 cs ds x. tr_Rename 9 ''/d/e'' ''/f'' (snd (tr_MkdirAll 5 ''/d/e/g'' 0 (NewTrie 1))) = Some (Inr (), t1) \<and>
     trie_resolvePath (snd (tr_MkdirAll 5 ''/d/e/g'' 0 (NewTrie 1))) ''/d/e'' False False = Inr (render cs, Some x) \<and>
     trie_resolvePath (snd (tr_MkdirAll 5 ''/d/e/g'' 0 (NewTrie 1))) ''/f'' False True = Inr (render ds, None) \<and>
     subtree_moved (snd (tr_MkdirAll 5 ''/d/e/g'' 0 (NewTrie 1))) cs ds t1"
proof -
  let ?t = "snd (tr_MkdirAll 5 ''/d/e/g'' 0 (NewTrie 1))"
  have reach: "trie_reachable ?t"
    by (rule trie_reachable.step [OF trie_reachable.new trie_step.t_mkdir [OF surjective_pairing]])
  have fuel: "t_nextDent ?t \<le> 9" by code_simp
  have ok: "map_option fst (tr_Rename 9 ''/d/e'' ''/f'' ?t) = Some (Inr ())" by code_simp
  from trie_Rename_exact [OF reach fuel, of "''/d/e''" "''/f''"]
  obtain res t1 where r: "tr_Rename 9 ''/d/e'' ''/f'' ?t = Some (res, t1)"
    and e: "res = Inr () \<longrightarrow> (\<exists>cs ds x. trie_resolvePath ?t ''/d/e'' False False = Inr (render cs, Some x) \<and> cs \<noteq> [] \<and>
           trie_resolvePath ?t ''/f'' False True = Inr (render ds, None) \<and> valid_comps ds \<and> \<not> prefix cs ds \<and>
           subtree_moved ?t cs ds t1)" by blast
  have "res = Inr ()" using ok r by simp
  with r e show ?thesis by blast
qed

end
