(* ===== verification/Trie_Equiv.thy ===== *)
theory Trie_Equiv
  imports Trie_Props MemoryFS_Tree
begin

text \<open>
  The trie and the in-memory file system implement the same interface with different data: the
  trie follows maps of children, the in-memory file system looks whole paths up in one map. The
  relation below says that they hold the same tree; from related states the operations common to
  both give the same answers, errors included, and lead to related states.
\<close>

section \<open>Two file systems with the same tree\<close>

definition agree :: "trieInode \<Rightarrow> memoryNode \<Rightarrow> bool" where
  "agree n k \<longleftrightarrow>
     i_mode n = n_mode k \<and> i_data n = n_data k \<and> i_lazy n = n_lazy k \<and> i_target n = n_target k \<and>
     i_atime n = n_atime k \<and> i_modTime n = n_modTime k \<and> i_uid n = n_uid k \<and> i_gid n = n_gid k"

definition inode_at :: "TrieFS \<Rightarrow> string list \<Rightarrow> nat option" where
  "inode_at t cs = map_option (\<lambda>d. d_inode (t_dents t d)) (entry_at t cs)"

definition twins :: "TrieFS \<Rightarrow> MemoryFS \<Rightarrow> bool" where
  "twins t m \<longleftrightarrow> t_cwd t = fs_cwd m \<and>
     (\<forall>cs. valid_comps cs \<longrightarrow> rel_option (\<lambda>i r. agree (t_inodes t i) (fs_heap m r)) (inode_at t cs) (at m cs)) \<and>
     (\<forall>cs ds. valid_comps cs \<longrightarrow> valid_comps ds \<longrightarrow> inode_at t cs \<noteq> None \<longrightarrow>
        (inode_at t cs = inode_at t ds \<longleftrightarrow> at m cs = at m ds))"

lemma twins_at:
  assumes "twins t m" "valid_comps cs"
  obtains "entry_at t cs = None" "at m cs = None"
    | d r where "entry_at t cs = Some d" "at m cs = Some r" "agree (inode t d) (fs_heap m r)"
proof -
  have "rel_option (\<lambda>i r. agree (t_inodes t i) (fs_heap m r)) (inode_at t cs) (at m cs)" using assms by (simp add: twins_def)
  then show thesis
    using that by (cases "entry_at t cs"; cases "at m cs") (simp_all add: inode_at_def)
qed

section \<open>Resolution\<close>

lemma path_JoinAll_valid: "valid_comps cs \<Longrightarrow> path_JoinAll cs = join_with slash cs"
proof (cases cs)
  case (Cons c ds)
  assume v: "valid_comps cs"
  then have ne: "filter (\<lambda>e. e \<noteq> []) cs = cs" by (intro filter_True) (auto simp: list_all_iff valid_comp_def)
  have "hd (join_with slash cs) \<noteq> slash" using v Cons by (cases c) (auto simp: join_with_Cons valid_comp_def)
  moreover have "join_with slash cs \<noteq> []" using join_eq_Nil [OF v] Cons by simp
  moreover have "split_on slash (join_with slash cs) = cs"
    using v Cons by (intro split_on_join) (auto simp: list_all_iff valid_comp_def)
  moreover have "cs \<noteq> []" using Cons by simp
  ultimately show ?thesis using ne by (simp add: path_JoinAll_def path_Clean_def Let_def clean_stack_ident [OF v])
qed (simp add: path_JoinAll_def)

abbreviation forget :: "go_error + string \<times> nat option \<Rightarrow> go_error + string \<times> bool" where
  "forget \<equiv> map_sum id (map_prod id (\<lambda>x. x \<noteq> None))"

abbreviation forget_walk :: "(string \<times> nat option) walk \<Rightarrow> (string \<times> bool) walk" where
  "forget_walk \<equiv> map_walk (map_prod id (\<lambda>x. x \<noteq> None))"

lemma walk_agree:
  "twins t m \<Longrightarrow> entry_at t pre = Some current \<Longrightarrow> valid_comps (pre @ cs) \<Longrightarrow> cs \<noteq> [] \<Longrightarrow>
     forget_walk (trie_walk t f a current (render pre) cs) = forget_walk (resolveAbs_loop m f a (render pre) (join_with slash cs))"
proof (induction cs arbitrary: pre current)
  case (Cons c cs)
  note loop = resolveAbs_loop_Cons [OF Cons.prems(3), of m f a]
  have v: "valid_comps pre" "valid_comps (pre @ [c])" "valid_comps cs" "valid_comps ((pre @ [c]) @ cs)" using Cons.prems(3) by simp_all
  note j = joinChildPath_snoc [OF v(1), of c]
  have e: "entry_at t (pre @ [c]) = child_of t current c" using Cons.prems(2) by (simp add: follow_snoc)
  from Cons.prems(1) v(2) show ?case
  proof (cases rule: twins_at)
    case 1
    then show ?thesis unfolding loop using e by (simp add: j)
  next
    case (2 d r)
    then have eq: "n_mode (fs_heap m r) = i_mode (inode t d)" "n_target (fs_heap m r) = i_target (inode t d)" by (simp_all add: agree_def)
    note d = e [unfolded 2(1), symmetric]
    show ?thesis
    proof (cases "cs = [] \<or> i_mode (inode t d) AND ModeSymlink \<noteq> 0 \<or> \<not> mode_IsDir (i_mode (inode t d))")
      case True
      then show ?thesis
        unfolding loop using 2(2) d eq v(3) by (auto simp: j Let_def node_link_def node_dir_def path_JoinAll_valid)
    next
      case False
      then show ?thesis
        unfolding loop using 2(2) d eq Cons.IH [OF Cons.prems(1) 2(1) v(4)] by (simp add: j Let_def node_link_def node_dir_def)
    qed
  qed
qed simp

lemma twins_root:
  assumes "twins t m"
  obtains r where "at m [] = Some r" "agree (inode t (t_root t)) (fs_heap m r)"
  using assms by (cases rule: twins_at [of t m "[]"]) auto

lemma resolveAbs_agree:
  assumes "twins t m"
  shows "forget (trie_resolveAbs t name f a depth) = forget (resolveAbsLocked m name f a depth)"
  using assms
proof (induction t name f a depth rule: trie_resolveAbs.induct)
  case (1 t name f a depth)
  let ?cs = "abs_comps name"
  obtain r where r: "ref_at m ''/'' = Some r" using twins_root [OF "1.prems"] by (metis at_def render_root_join)
  note unf = trie_resolveAbs.simps [of t name] resolveAbsLocked.simps [of m name]
  show ?case
  proof (cases "maxSymlinkDepth < depth \<or> Clean name = ''/''")
    case True
    then show ?thesis using r by (auto simp: unf Let_def)
  next
    case False
    then have ne: "?cs \<noteq> []" "Clean name = render ?cs" by (auto simp: Clean_eq)
    have w: "forget_walk (trie_walk t f a (t_root t) ''/'' ?cs) = forget_walk (resolveAbs_loop m f a ''/'' (tl (Clean name)))"
      using walk_agree [OF "1.prems", of "[]" "t_root t" ?cs f a] ne by (simp add: tl_render)
    have s: "trieSplitPath (Clean name) = ?cs" using ne(2) by simp
    show ?thesis
    proof (cases "trie_walk t f a (t_root t) ''/'' ?cs")
      case (Return q)
      then obtain q' where "resolveAbs_loop m f a ''/'' (tl (Clean name)) = Return q'" "forget q = forget q'"
        using w by (cases "resolveAbs_loop m f a ''/'' (tl (Clean name))") auto
      then show ?thesis using False s Return by (simp add: unf id_def)
    next
      case (Restart target)
      then have "resolveAbs_loop m f a ''/'' (tl (Clean name)) = Restart target"
        using w by (cases "resolveAbs_loop m f a ''/'' (tl (Clean name))") auto
      then show ?thesis using "1.IH" [OF refl _ _ _ "1.prems"] False s Restart by (simp add: unf)
    qed
  qed
qed

text \<open>
  Related file systems resolve a name to the same error or to the same path; there they hold
  entries that correspond.
\<close>

lemma resolvePath_agree:
  assumes "twins t m" "fs_wf m"
  obtains e where "trie_resolvePath t name f a = Inl e" "resolvePathLocked m name f a = Inl e"
    | cs where "valid_comps cs" "trie_resolvePath t name f a = Inr (render cs, entry_at t cs)"
        "resolvePathLocked m name f a = Inr (render cs, at m cs)" "\<not> a \<Longrightarrow> entry_at t cs \<noteq> None"
proof -
  let ?p = "Resolve (t_cwd t) name"
  have cwd: "fs_cwd m = t_cwd t" using assms(1) by (simp add: twins_def)
  note eq = resolveAbs_agree [OF assms(1), of ?p f a 0]
  show thesis
  proof (cases "trie_resolveAbs t ?p f a 0")
    case (Inl e)
    then have "resolveAbsLocked m ?p f a 0 = Inl e" using eq by (cases "resolveAbsLocked m ?p f a 0") auto
    then show thesis using that(1) Inl by (simp add: trie_resolvePath_def resolvePathLocked_def cwd)
  next
    case (Inr q)
    then obtain r where r: "resolveAbsLocked m ?p f a 0 = Inr (fst q, r)" "snd q \<noteq> None \<longleftrightarrow> r \<noteq> None"
      using eq by (cases "resolveAbsLocked m ?p f a 0"; cases q) auto
    obtain cs where cs: "valid_comps cs" "fst q = render cs" "entry_at t cs = snd q"
      using resolveAbs_found [OF Inr] by (auto simp: found_def)
    obtain ds where ds: "valid_comps ds" "fst q = render ds" "r = at m ds" "r = None \<longrightarrow> a"
      using resolveAbsLocked_result [OF assms(2) r(1)] by auto
    have same: "ds = cs" using cs ds by (simp add: render_inj)
    obtain x where q: "q = (render cs, x)" using cs by (cases q) auto
    show thesis
    proof (rule that(2) [of cs])
      show "trie_resolvePath t name f a = Inr (render cs, entry_at t cs)"
        using Inr q cs ds(4) r(2) by (cases x) (auto simp: trie_resolvePath_def)
      show "resolvePathLocked m name f a = Inr (render cs, at m cs)"
        using r(1) cs ds same by (simp add: resolvePathLocked_def cwd)
      show "entry_at t cs \<noteq> None" if "\<not> a" using that cs ds r(2) by auto
    qed (rule cs)
  qed
qed

section \<open>Operations on related states\<close>

text \<open>Two outcomes of an operation are related when the answers are equal and the states are twins.\<close>

abbreviation same_outcome :: "'a \<times> TrieFS \<Rightarrow> 'a \<times> MemoryFS \<Rightarrow> bool" where
  "same_outcome x y \<equiv> fst x = fst y \<and> twins (snd x) (snd y)"

lemma Realpath_agree: "twins t m \<Longrightarrow> fs_wf m \<Longrightarrow> tr_Realpath name t = mem_Realpath name m"
  by (rule resolvePath_agree [of t m name True False])
    (auto simp: tr_Realpath_def mem_Realpath_def twins_def)

lemma Readlink_agree: "twins t m \<Longrightarrow> fs_wf m \<Longrightarrow> tr_Readlink name t = mem_Readlink name m"
proof -
  assume tw: "twins t m" and wf: "fs_wf m"
  have cwd: "t_cwd t = fs_cwd m" using tw by (simp add: twins_def)
  from tw wf show ?thesis
  proof (cases rule: resolvePath_agree [where name = name and f = False and a = False])
    case (2 cs)
    from tw 2(1) show ?thesis
      by (cases rule: twins_at) (use 2 in \<open>auto simp: tr_Readlink_def mem_Readlink_def agree_def\<close>)
  qed (simp add: tr_Readlink_def mem_Readlink_def cwd)
qed

lemma Chdir_agree: "twins t m \<Longrightarrow> fs_wf m \<Longrightarrow> same_outcome (tr_Chdir name t) (mem_Chdir name m)"
proof -
  assume tw: "twins t m" and wf: "fs_wf m"
  have cwd: "t_cwd t = fs_cwd m" using tw by (simp add: twins_def)
  have "trie_follow (t\<lparr>t_cwd := p\<rparr>) d cs = trie_follow t d cs" for p d cs
    by (rule same_shape_follow) (simp add: same_shape_def)
  then have move: "twins (t\<lparr>t_cwd := p\<rparr>) (m\<lparr>fs_cwd := p\<rparr>)" for p
    using tw by (simp add: twins_def inode_at_def at_def ref_at_def)
  from tw wf show ?thesis
  proof (cases rule: resolvePath_agree [where name = name and f = True and a = False])
    case (2 cs)
    from tw 2(1) show ?thesis
      by (cases rule: twins_at) (use 2 tw move in \<open>auto simp: tr_Chdir_def mem_Chdir_def agree_def\<close>)
  qed (simp add: tr_Chdir_def mem_Chdir_def cwd tw)
qed

lemma twins_update:
  assumes tw: "twins t m" and cs: "valid_comps cs" "inode_at t cs = Some i" "at m cs = Some r"
    and f: "\<And>n. i_children (f n) = i_children n" "\<And>n k. agree n k \<Longrightarrow> agree (f n) (g k)"
  shows "twins (update_inode i f t) (update_node r g m)"
proof -
  let ?t = "update_inode i f t" and ?m = "update_node r g m"
  have "child_of ?t d n = child_of t d n" for d n by (simp add: child_of_def update_inode_def f(1))
  then have "trie_follow ?t d ds = trie_follow t d ds" for d ds by (rule follow_cong)
  then have ia: "inode_at ?t ds = inode_at t ds" for ds by (simp add: inode_at_def update_inode_def)
  have am: "at ?m ds = at m ds" for ds by (simp add: at_def ref_at_def update_node_def)
  have "rel_option (\<lambda>i r. agree (t_inodes ?t i) (fs_heap ?m r)) (inode_at t ds) (at m ds)" if v: "valid_comps ds" for ds
  proof -
    have "rel_option (\<lambda>i r. agree (t_inodes t i) (fs_heap m r)) (inode_at t ds) (at m ds)" using tw v by (simp add: twins_def)
    moreover have "inode_at t ds = Some i \<longleftrightarrow> at m ds = Some r" using tw v cs unfolding twins_def by (metis option.distinct(1))
    ultimately show ?thesis
      by (cases "inode_at t ds"; cases "at m ds") (auto simp: update_inode_def update_node_def f(2))
  qed
  then show ?thesis using tw by (simp add: twins_def ia am) (simp add: update_inode_def update_node_def)
qed

lemma on_agree:
  assumes tw: "twins t m" and wf: "fs_wf m"
    and f: "\<And>n. i_children (f n) = i_children n" "\<And>n k. agree n k \<Longrightarrow> agree (f n) (g k)"
  shows "same_outcome (on_inode op follow f name t) (on_node op follow g name m)"
proof -
  have cwd: "t_cwd t = fs_cwd m" using tw by (simp add: twins_def)
  from tw wf show ?thesis
  proof (cases rule: resolvePath_agree [where name = name and f = follow and a = False])
    case (2 cs)
    from tw 2(1) show ?thesis
    proof (cases rule: twins_at)
      case (2 d r)
      then have "twins (update_inode (d_inode (t_dents t d)) f t) (update_node r g m)"
        using tw \<open>valid_comps cs\<close> f by (intro twins_update [of t m cs]) (simp_all add: inode_at_def)
      with 2 \<open>trie_resolvePath t name follow False = _\<close> \<open>resolvePathLocked m name follow False = _\<close> show ?thesis
        by (simp add: on_inode_def on_node_def)
    qed (use 2 in simp)
  qed (simp add: on_inode_def on_node_def cwd tw)
qed

lemma metadata_agree:
  assumes "twins t m" "fs_wf m"
  shows "same_outcome (tr_Chmod now name mode t) (mem_Chmod now name mode m)"
    "same_outcome (tr_Chown name uid gid follow t) (mem_Chown name uid gid follow m)"
    "same_outcome (tr_Chtimes now name ta tm t) (mem_Chtimes now name ta tm m)"
  unfolding tr_Chmod_def mem_Chmod_def tr_Chown_def mem_Chown_def tr_Chtimes_def mem_Chtimes_def
  by (rule on_agree [OF assms], simp, simp add: agree_def)+

section \<open>Removal\<close>

lemma content_eq: "content_of t1 d = content_of t d \<Longrightarrow> agree (inode t1 d) k \<longleftrightarrow> agree (inode t d) k"
  by (cases "inode t1 d"; cases "inode t d") (simp add: content_of_def agree_def)

lemma agree_children [simp]: "agree n (k\<lparr>n_children := X\<rparr>) = agree n k" "agree n (k\<lparr>n_id := i\<rparr>) = agree n k"
  by (simp_all add: agree_def)

lemma empty_dir_agree:
  assumes "twins t m" "trie_wf t" "fs_wf m" "valid_comps cs" "entry_at t cs = Some d" "at m cs = Some r" "mode_IsDir (i_mode (inode t d))"
  shows "n_children (fs_heap m r) = {c. entry_at t (cs @ [c]) \<noteq> None}"
    "i_children (inode t d) \<in> {None, Some []} \<longleftrightarrow> n_children (fs_heap m r) = {}"
proof -
  have a: "agree (inode t d) (fs_heap m r)" using assms by (cases rule: twins_at [OF assms(1,4)]) auto
  then have "node_dir m r" using assms(7) by (simp add: node_dir_def agree_def)
  then have ch: "n_children (fs_heap m r) = {c. valid_comp c \<and> at m (cs @ [c]) \<noteq> None}" using wf_children [OF assms(3,4,6)] by simp
  have "valid_comp c \<and> at m (cs @ [c]) \<noteq> None \<longleftrightarrow> entry_at t (cs @ [c]) \<noteq> None" for c
  proof (cases "valid_comp c")
    case True
    have v: "valid_comps (cs @ [c])" using assms(4) True by simp
    from assms(1) v show ?thesis by (cases rule: twins_at) (use True in auto)
  next
    case False
    then show ?thesis using entry_valid [OF assms(2), of "cs @ [c]"] by fastforce
  qed
  with ch show n: "n_children (fs_heap m r) = {c. entry_at t (cs @ [c]) \<noteq> None}" by simp
  have "entry_at t (cs @ [c]) = child_of t d c" for c using assms(5) by (simp add: follow_snoc)
  moreover obtain kv where kv: "i_children (inode t d) = Some kv" using wf_dir [OF assms(2) reachI [OF assms(5)]] assms(7) by auto
  moreover have "(\<forall>c. map_of kv c = None) \<longleftrightarrow> kv = []" by (cases kv) (auto split: prod.splits)
  ultimately show "i_children (inode t d) \<in> {None, Some []} \<longleftrightarrow> n_children (fs_heap m r) = {}"
    by (auto simp: n child_of_def)
qed

lemma remove_twins:
  assumes tw: "twins t m" and wf: "trie_wf t" "fs_wf m" and v: "valid_comps (ps @ [c])" and e: "entry_at t ps = Some p" "i_children (inode t p) \<noteq> None"
    "at m (ps @ [c]) = Some r"
  shows "twins (detachChildLocked (Some p) c t) (del_child (render ps) c (drop_subtree (render (ps @ [c])) m))" (is "twins ?t ?m")
proof -
  note m1 = MemoryFS_Move.remove_wf [OF wf(2) v e(3) refl]
  have et: "entry_at ?t ds = (if prefix (ps @ [c]) ds then None else entry_at t ds)" for ds by (rule entry_detach [OF wf(1) e(1,2)])
  have it: "inode_at ?t ds = (if prefix (ps @ [c]) ds then None else inode_at t ds)" for ds using et [of ds] by (simp add: inode_at_def)
  have "rel_option (\<lambda>i r. agree (t_inodes ?t i) (fs_heap ?m r)) (inode_at ?t ds) (at ?m ds)" if ds: "valid_comps ds" for ds
    using tw ds
  proof (cases rule: twins_at)
    case (2 d x)
    have "content_of ?t d = content_of t d" by (rule content_detach)
    then have "agree (inode ?t d) (fs_heap m x)" using 2(3) content_eq by blast
    moreover have "agree n (fs_heap ?m x) = agree n (fs_heap m x)" if "at ?m ds = Some x" for n
      using m1(3) [OF ds that] by simp
    ultimately show ?thesis using 2 m1(2) [OF ds] by (auto simp: it) (simp add: inode_at_def)
  next
    case 1
    have "inode_at t ds = None" using 1 by (simp add: inode_at_def)
    then show ?thesis using 1 m1(2) [OF ds] by (simp add: it)
  qed
  moreover have "inode_at ?t ds = inode_at ?t es \<longleftrightarrow> at ?m ds = at ?m es"
    if "valid_comps ds" "valid_comps es" "inode_at ?t ds \<noteq> None" for ds es
  proof -
    have a: "inode_at t ds \<noteq> None" "\<not> prefix (ps @ [c]) ds" using that(3) by (auto simp: it split: if_splits)
    then have "at m ds \<noteq> None" using that(1) tw by (cases rule: twins_at [OF tw that(1)]) (auto simp: inode_at_def)
    moreover have "inode_at t ds = inode_at t es \<longleftrightarrow> at m ds = at m es" using tw that(1,2) a(1) by (simp add: twins_def)
    ultimately show ?thesis using a m1(2) [OF that(1)] m1(2) [OF that(2)] by (auto simp: it)
  qed
  moreover have "t_cwd ?t = fs_cwd ?m" using tw m1(4) by (simp add: twins_def)
  ultimately show ?thesis by (simp add: twins_def)
qed

lemma Remove_agree:
  assumes tw: "twins t m" and wf: "trie_wf t" "fs_wf m"
  shows "same_outcome (tr_Remove name recursive t) (mem_Remove name recursive m)"
proof -
  have cwd: "t_cwd t = fs_cwd m" using tw by (simp add: twins_def)
  from tw wf(2) show ?thesis
  proof (cases rule: resolvePath_agree [where name = name and f = False and a = False])
    case (2 cs)
    note res = 2(2,3)
    from tw 2(1) show ?thesis
    proof (cases rule: twins_at)
      case d: (2 d r)
      show ?thesis
      proof (cases "cs = []")
        case True
        then show ?thesis using res d tw by (simp add: tr_Remove_def mem_Remove_def)
      next
        case False
        then obtain ps c where cs: "cs = ps @ [c]" by (cases cs rule: rev_cases) auto
        obtain p where p: "entry_at t ps = Some p" "d_parent (t_dents t d) = Some p" "d_name (t_dents t d) = c" "i_children (inode t p) \<noteq> None"
          by (rule entry_parent [OF wf(1) d(1) False]) (simp add: cs)
        have mode: "n_mode (fs_heap m r) = i_mode (inode t d)" using d(3) by (simp add: agree_def)
        have v: "valid_comps (ps @ [c])" using 2(1) cs by simp
        have root: "render cs \<noteq> ''/''" using False 2(1) by simp
        note tw1 = remove_twins [OF tw wf v p(1,4) d(2) [unfolded cs]]
        have nonempty: "mode_IsDir (i_mode (inode t d)) \<and> i_children (inode t d) \<notin> {None, Some []} \<and> \<not> recursive \<longleftrightarrow>
            mode_IsDir (i_mode (inode t d)) \<and> n_children (fs_heap m r) \<noteq> {} \<and> \<not> recursive"
          using empty_dir_agree(2) [OF tw wf 2(1) d(1,2)] by auto
        have pd: "parentDir (render cs) = render ps" "path_Base (render cs) = c" using v by (simp_all only: cs parentDir_render path_Base_render)
        show ?thesis
        proof (cases "mode_IsDir (i_mode (inode t d)) \<and> n_children (fs_heap m r) \<noteq> {} \<and> \<not> recursive")
          case True
          then show ?thesis using res d root tw nonempty mode by (simp only: tr_Remove_def mem_Remove_def) simp
        next
          case F: False
          have "tr_Remove name recursive t = (Inr (), detachChildLocked (Some p) c t)"
            using res(1) d root F nonempty p by (simp only: tr_Remove_def) auto
          moreover have "mem_Remove name recursive m = (Inr (), del_child (render ps) c (drop_subtree (render cs) m))"
            using res(2) d root F mode pd by (simp only: mem_Remove_def drop_subtree_def) auto
          ultimately show ?thesis using tw1 by (simp add: cs)
        qed
      qed
    qed (use 2 in simp)
  qed (simp add: tr_Remove_def mem_Remove_def cwd tw)
qed

section \<open>Listing\<close>

lemma resolveAbs_some: "trie_resolveAbs t name f False depth = Inr (p, e) \<Longrightarrow> e \<noteq> None"
proof (induction t name f False depth rule: trie_resolveAbs.induct)
  case (1 t name f depth)
  have w: "trie_walk t f False cur q cs = Return (Inr r) \<Longrightarrow> snd r \<noteq> None" for cur q cs r
    by (induction cs arbitrary: cur q) (auto simp: Let_def split: option.splits if_splits)
  show ?case
    using "1.prems" "1.hyps" [OF refl] w [of _ _ _ "(p, e)"]
    by (auto simp: trie_resolveAbs.simps [of t name] Let_def split: walk.splits if_splits)
qed

lemma resolveAbs_Path: "trie_resolveAbs t (Resolve (t_cwd t) name) f False 0 = trie_resolvePath t name f False"
proof (cases "trie_resolveAbs t (Resolve (t_cwd t) name) f False 0")
  case (Inr q)
  then have "snd q \<noteq> None" using resolveAbs_some [of t _ f 0 "fst q" "snd q"] by simp
  with Inr show ?thesis by (cases q) (auto simp: trie_resolvePath_def)
qed (simp add: trie_resolvePath_def)

text \<open>The entries of the directory at \<open>cs\<close>, in order.\<close>

definition trie_listing :: "TrieFS \<Rightarrow> string list \<Rightarrow> memoryDirEntry list" where
  "trie_listing t cs =
     map (\<lambda>c. \<lparr>de_name = c, de_path = render (cs @ [c]), de_mode = i_mode (inode t (the (entry_at t (cs @ [c]))))\<rparr>)
       (sorted_list_of_set {c. entry_at t (cs @ [c]) \<noteq> None})"

lemma dirEntries_listing:
  assumes wf: "trie_wf t" and d: "entry_at t cs = Some d" and kv: "i_children (inode t d) = Some kv" "distinct (map fst kv)"
  shows "dirEntriesLocked (render cs) d (sort (map fst kv)) t = trie_listing t cs"
proof -
  have v: "valid_comps cs" by (rule entry_valid [OF wf d])
  have ch: "entry_at t (cs @ [c]) = map_of kv c" for c using d kv(1) by (simp add: follow_snoc child_of_def)
  have "{c. entry_at t (cs @ [c]) \<noteq> None} = set (map fst kv)" by (auto simp: ch map_of_eq_None_iff)
  then have names: "sorted_list_of_set {c. entry_at t (cs @ [c]) \<noteq> None} = sort (map fst kv)"
    using kv(2) by (simp add: sorted_list_of_set_sort_remdups distinct_remdups_id del: set_map)
  have "dirEntriesLocked (render cs) d ns t =
      map (\<lambda>c. \<lparr>de_name = c, de_path = render (cs @ [c]), de_mode = i_mode (inode t (the (entry_at t (cs @ [c]))))\<rparr>) ns"
    if sub: "set ns \<subseteq> set (map fst kv)" for ns
    using sub
  proof (induction ns)
    case (Cons n ns)
    then obtain e where "map_of kv n = Some e" by (cases "map_of kv n") (auto simp: map_of_eq_None_iff)
    then have "child_of t d n = Some e" "entry_at t (cs @ [n]) = Some e" using kv(1) ch by (simp_all add: child_of_def)
    then show ?case using Cons by (simp add: dirEntriesLocked_def joinChildPath_snoc [OF v])
  qed (simp add: dirEntriesLocked_def)
  from this [of "sort (map fst kv)"] show ?thesis unfolding trie_listing_def names by simp
qed

lemma readdir_listing:
  assumes wf: "trie_wf t" and res: "trie_resolvePath t name True False = Inr (render cs, Some d)" "entry_at t cs = Some d"
    and dir: "mode_IsDir (i_mode (inode t d))"
  obtains t1 where "tr_ReadDir name t = (Inr (trie_listing t cs), t1)" "t1 = t \<or> (\<exists>f. t1 = update_inode (d_inode (t_dents t d)) f t \<and>
     (\<forall>n. i_children (f n) = i_children n) \<and> (\<forall>n k. agree n k \<longrightarrow> agree (f n) k))"
proof -
  let ?i = "d_inode (t_dents t d)"
  obtain kv where kv: "i_children (inode t d) = Some kv" using wf_dir [OF wf reachI [OF res(2)]] dir by auto
  have ok: "names_ok (inode t d)" using wf reachI [OF res(2)] by (auto simp: trie_wf_def nodes_ok_def inode_ok_def)
  then have dist: "distinct (map fst kv)" using kv by (simp add: names_ok_def)
  note list = dirEntries_listing [OF wf res(2) kv dist]
  obtain ns t1 where s: "sortedChildNamesLocked ?i t = (ns, t1)" by fastforce
  have s1: "ns = sort (map fst kv)" "same_shape t t1" using sortedNames_spec [OF ok kv s] by simp_all
  have s2: "t1 = t \<or> (\<exists>f. t1 = update_inode ?i f t \<and> (\<forall>n. i_children (f n) = i_children n) \<and>
      (\<forall>n k. agree n k \<longrightarrow> agree (f n) k) \<and> (\<forall>n. i_mode (f n) = i_mode n))"
    using s kv by (auto simp: sortedChildNamesLocked_def Let_def agree_def split: option.splits if_splits)
  then have "i_mode (inode t1 e) = i_mode (inode t e)" for e by (auto simp: update_inode_def)
  then have "dirEntriesLocked (render cs) d ns t1 = dirEntriesLocked (render cs) d ns t"
    unfolding dirEntriesLocked_def same_shape_child [OF s1(2)] by (simp cong: option.case_cong)
  then have l1: "dirEntriesLocked (render cs) d ns t1 = trie_listing t cs" using s1(1) list by simp
  show thesis
  proof (cases "\<not> i_dirty (inode t d) \<and> length (case i_names (inode t d) of None \<Rightarrow> [] | Some names \<Rightarrow> names) = length kv")
    case True
    then have "(case i_names (inode t d) of None \<Rightarrow> [] | Some names \<Rightarrow> names) = sort (map fst kv)" using ok kv by (simp add: names_ok_def)
    then show thesis using that [of t] res dir kv True list by (simp add: tr_ReadDir_def resolveAbs_Path Let_def)
  next
    case False
    then have "tr_ReadDir name t = (Inr (trie_listing t cs), t1)"
      using res dir kv l1 s by (auto simp: tr_ReadDir_def resolveAbs_Path Let_def)
    then show thesis by (rule that) (use s2 in blast)
  qed
qed

lemma tr_ReadDir_mode: "tr_ReadDir name t = (r, t1) \<Longrightarrow> i_mode (inode t1 e) = i_mode (inode t e)"
proof -
  have "i_mode (inode t2 e) = i_mode (inode t e)" if "sortedChildNamesLocked i t = (ns, t2)" for i ns t2
    using that by (auto simp: sortedChildNamesLocked_def Let_def update_inode_def split: option.splits if_splits)
  then show "tr_ReadDir name t = (r, t1) \<Longrightarrow> ?thesis"
    by (auto simp: tr_ReadDir_def resolveAbs_Path Let_def split: sum.splits option.splits prod.splits if_splits)
qed

text \<open>
  (C24) \<open>ReadDir\<close> on the trie lists exactly the entries of the directory the name resolves to, sorted
  by name, with their paths and modes, whatever the state of the name cache.
\<close>

theorem trie_ReadDir_exact:
  assumes "trie_reachable t" and "tr_ReadDir name t = (Inr es, t1)"
  shows "\<exists>cs. valid_comps cs \<and> tr_Realpath name t = Inr (render cs) \<and> es = trie_listing t cs \<and> trie_listing t1 cs = es"
proof -
  have wf: "trie_wf t" using assms(1) by (rule trie_reachable_ok)
  obtain p d where r: "trie_resolvePath t name True False = Inr (p, Some d)" "mode_IsDir (i_mode (inode t d))"
    using assms(2) by (cases "trie_resolvePath t name True False")
      (auto simp: tr_ReadDir_def resolveAbs_Path Let_def split: option.splits if_splits)
  obtain cs where cs: "valid_comps cs" "p = render cs" "entry_at t cs = Some d" using resolvePath_found [OF r(1)] by (auto simp: found_def)
  have es: "es = trie_listing t cs"
    using readdir_listing [OF wf _ cs(3) r(2), of name] r(1) cs(2) assms(2) by auto
  have "same_shape t t1" using readdir_shape [OF wf assms(2)] by simp
  moreover have "i_mode (inode t1 e) = i_mode (inode t e)" for e
    using tr_ReadDir_mode [OF assms(2)] .
  ultimately have "trie_listing t1 cs = trie_listing t cs" by (simp add: trie_listing_def same_shape_entry)
  then show ?thesis using es cs(1,2) r(1) by (auto simp: tr_Realpath_def)
qed

theorem trie_ReadDir_exact_witness:
  "\<exists>es t1 cs. tr_ReadDir ''/d'' (snd (tr_MkdirAll 5 ''/d/e'' 0 (NewTrie 1))) = (Inr es, t1) \<and>
     es = trie_listing (snd (tr_MkdirAll 5 ''/d/e'' 0 (NewTrie 1))) cs \<and> trie_listing t1 cs = es \<and> map de_name es = [''e'']"
proof -
  let ?t = "snd (tr_MkdirAll 5 ''/d/e'' 0 (NewTrie 1))"
  have "map_sum id (map de_name) (fst (tr_ReadDir ''/d'' ?t)) = Inr [''e'']" by code_simp
  then obtain es t1 where r: "tr_ReadDir ''/d'' ?t = (Inr es, t1)" "map de_name es = [''e'']"
    by (cases "tr_ReadDir ''/d'' ?t"; cases "fst (tr_ReadDir ''/d'' ?t)") auto
  have "trie_reachable ?t"
    by (rule trie_reachable.step [OF trie_reachable.new trie_step.t_mkdir [OF surjective_pairing]])
  from trie_ReadDir_exact [OF this r(1)] obtain cs where "es = trie_listing ?t cs" "trie_listing t1 cs = es" by (elim exE conjE)
  with r show ?thesis by (intro exI conjI)
qed

lemma ReadDir_agree:
  assumes tw: "twins t m" and wf: "trie_wf t" "fs_wf m"
  shows "fst (tr_ReadDir name t) = mem_ReadDir name m \<and> twins (snd (tr_ReadDir name t)) m"
proof -
  have cwd: "t_cwd t = fs_cwd m" using tw by (simp add: twins_def)
  from tw wf(2) show ?thesis
  proof (cases rule: resolvePath_agree [where name = name and f = True and a = False])
    case (2 cs)
    from tw 2(1) show ?thesis
    proof (cases rule: twins_at)
      case d: (2 d r)
      have mode: "n_mode (fs_heap m r) = i_mode (inode t d)" using d(3) by (simp add: agree_def)
      show ?thesis
      proof (cases "mode_IsDir (i_mode (inode t d))")
        case True
        obtain t1 where t1: "tr_ReadDir name t = (Inr (trie_listing t cs), t1)" "t1 = t \<or> (\<exists>f. t1 = update_inode (d_inode (t_dents t d)) f t \<and>
          (\<forall>n. i_children (f n) = i_children n) \<and> (\<forall>n k. agree n k \<longrightarrow> agree (f n) k))"
          using readdir_listing [OF wf(1) 2(2) [unfolded d(1)] d(1) True] by blast
        have "twins (update_inode (d_inode (t_dents t d)) f t) (update_node r id m)"
          if "\<forall>n. i_children (f n) = i_children n" "\<forall>n k. agree n k \<longrightarrow> agree (f n) k" for f
          using that by (intro twins_update [OF tw 2(1) _ d(2)]) (simp_all add: inode_at_def d(1))
        moreover have "update_node r id m = m" by (simp add: update_node_def)
        ultimately have "twins t1 m" using t1(2) tw by auto
        have ch: "n_children (fs_heap m r) = {c. entry_at t (cs @ [c]) \<noteq> None}" by (rule empty_dir_agree(1) [OF tw wf 2(1) d(1,2) True])
        define g where "g c = \<lparr>de_name = c, de_path = joinClean (render cs) c,
            de_mode = (case node_at m (joinClean (render cs) c) of None \<Rightarrow> 0 | Some n \<Rightarrow> n_mode n)\<rparr>" for c
        have "g c = \<lparr>de_name = c, de_path = render (cs @ [c]), de_mode = i_mode (inode t (the (entry_at t (cs @ [c]))))\<rparr>"
          if c: "entry_at t (cs @ [c]) \<noteq> None" for c
        proof -
          have v: "valid_comps (cs @ [c])" using c entry_valid [OF wf(1)] by blast
          from tw v show ?thesis
            by (cases rule: twins_at) (use c in \<open>auto simp: g_def render_snoc [OF 2(1)] node_at_def at_def agree_def\<close>)
        qed
        moreover have "finite {c. entry_at t (cs @ [c]) \<noteq> None}"
        proof (rule finite_subset [OF _ finite_children [of m cs]])
          show "{c. entry_at t (cs @ [c]) \<noteq> None} \<subseteq> {c. at m (cs @ [c]) \<noteq> None}"
            using ch wf_children [OF wf(2) 2(1) d(2)] mode True by (auto simp: node_dir_def)
        qed
        ultimately have "map g (sorted_list_of_set {c. entry_at t (cs @ [c]) \<noteq> None}) = trie_listing t cs"
          unfolding trie_listing_def by (intro map_cong) simp_all
        moreover have "mem_ReadDir name m = Inr (map g (sorted_list_of_set (n_children (fs_heap m r))))"
          using 2(3) d(2) True mode by (simp add: mem_ReadDir_def g_def)
        ultimately have "mem_ReadDir name m = Inr (trie_listing t cs)" by (simp only: ch)
        then show ?thesis using t1(1) \<open>twins t1 m\<close> by simp
      next
        case False
        then show ?thesis using 2(2,3) d tw mode by (simp add: tr_ReadDir_def mem_ReadDir_def resolveAbs_Path)
      qed
    qed (use 2 in simp)
  qed (simp add: tr_ReadDir_def mem_ReadDir_def Let_def resolveAbs_Path, simp add: cwd tw)
qed

end
