(* ===== verification/Trie_Sim.thy ===== *)
theory Trie_Sim
  imports Trie_Equiv
begin

text \<open>
  The trie simulates the in-memory file system: creation on related states, and the runs of both
  on the same sequence of calls.
\<close>

section \<open>New entries\<close>

lemma install_inodes:
  assumes wf: "trie_wf t" and p: "entry_at t cs = Some p" "i_children (inode t p) \<noteq> None" "child_of t p c = None" "valid_comp c"
    and n: "inode_ok node" "i_children node = None \<or> i_children node = Some []" and r: "trie_install p c node t = (d, t1)"
  shows "inode_at t1 ds = (if ds = cs @ [c] then Some (t_nextInode t) else inode_at t ds)"
    "agree (t_inodes t1 (t_nextInode t)) k = agree node k"
    "i < t_nextInode t \<Longrightarrow> agree (t_inodes t1 i) k = agree (t_inodes t i) k"
    "inode_at t ds = Some i \<Longrightarrow> i < t_nextInode t"
proof -
  from install_grown [OF n, of t p c] r obtain t2 j where g: "grown_by t p c j t2" "d = t_nextDent t" "t1 = attachChildLocked p d t2"
    "j = t_nextInode t" "t_inodes t2 j = node\<lparr>i_id := Suc (t_nextNodeID t)\<rparr>" by auto
  have same: "agree (t_inodes t1 i) k = agree (t_inodes t2 i) k" for i
    by (auto simp: g(3) attachChildLocked_def update_inode_def agree_def split: option.splits)
  show b: "inode_at t ds = Some i \<Longrightarrow> i < t_nextInode t" for ds i
    using grown_dent(4) [OF g(1) wf reachI] by (auto simp: inode_at_def)
  have "d_inode (t_dents t1 d) = t_nextInode t" using g by (simp add: grown_by_def)
  moreover have "d_inode (t_dents t1 e) = d_inode (t_dents t e)" if "entry_at t ds = Some e" for e
    using grown_dent(1) [OF g(1) wf reachI [OF that]] g(3) by simp
  ultimately show "inode_at t1 ds = (if ds = cs @ [c] then Some (t_nextInode t) else inode_at t ds)"
    using install_at(2) [OF assms, of ds] by (cases "entry_at t ds") (auto simp: inode_at_def)
  show "agree (t_inodes t1 (t_nextInode t)) k = agree node k"
    unfolding same using g(4,5) by (simp add: agree_def)
  show "i < t_nextInode t \<Longrightarrow> agree (t_inodes t1 i) k = agree (t_inodes t i) k" using g(1) by (simp add: same grown_by_def)
qed

lemma install_twins:
  assumes tw: "twins t m" and wf: "trie_wf t" "fs_wf m"
    and p: "entry_at t cs = Some p" "i_children (inode t p) \<noteq> None" "child_of t p c = None" "valid_comp c"
    and n: "inode_ok node" "i_children node = None \<or> i_children node = Some []" and r: "trie_install p c node t = (d, t1)"
    and k: "node_ok k" "n_children k = {}" "agree node k" and m: "install (render (cs @ [c])) k m = (r, m1)"
  shows "twins t1 m1" "trie_wf t1" "fs_wf m1" "entry_at t1 (cs @ [c]) = Some d" "i_children (inode t1 d) = i_children node"
    "fs_implicitParents m1 = fs_implicitParents m"
proof -
  note t1 = install_at [OF wf(1) p n r] and i1 = install_inodes [OF wf(1) p n r]
  have v: "valid_comps cs" "valid_comps (cs @ [c])" using entry_valid [OF wf(1) p(1)] p(4) by simp_all
  obtain pr where pr: "at m cs = Some pr" "agree (inode t p) (fs_heap m pr)" using p(1) by (cases rule: twins_at [OF tw v(1)]) auto
  then have dir: "is_dir m cs" using wf_dir [OF wf(1) reachI [OF p(1)]] p(2) by (auto simp: is_dir_def node_dir_def agree_def)
  have "entry_at t (cs @ [c]) = None" using p(1,3) by (simp add: follow_snoc)
  then have none: "at m (cs @ [c]) = None" by (cases rule: twins_at [OF tw v(2)]) auto
  note m1 = install_wf [OF wf(2) v(2) missing_not_dir [OF none] dir k(1,2) m]
  obtain x where x: "fs_heap m1 r = k\<lparr>n_id := x\<rparr>" using m1(3) by blast
  have old: "agree n (fs_heap m1 y) = agree n (fs_heap m y)" if "valid_comps ds" "at m ds = Some y" for ds y n
    using m1(4) [OF that] by simp
  have fresh: "at m ds \<noteq> Some r" if ds: "valid_comps ds" for ds
  proof -
    have "r = fs_nextRef m" using m by (auto simp: install_def alloc_node_def newNodeIDLocked_def Let_def)
    then show ?thesis using wf_ref [OF wf(2) ds, of r] by auto
  qed
  have rel: "rel_option (\<lambda>i r. agree (t_inodes t1 i) (fs_heap m1 r)) (inode_at t1 ds) (at m1 ds)" if ds: "valid_comps ds" for ds
  proof (cases "ds = cs @ [c]")
    case True
    then show ?thesis using m1(2) [OF ds] k(3) by (simp add: i1(1,2) x)
  next
    case False
    have "rel_option (\<lambda>i r. agree (t_inodes t i) (fs_heap m r)) (inode_at t ds) (at m ds)" using tw ds by (simp add: twins_def)
    then show ?thesis using False m1(2) [OF ds] old [OF ds] i1(3) [OF i1(4) [of ds]]
      by (cases "inode_at t ds"; cases "at m ds") (auto simp: i1(1))
  qed
  have share: "inode_at t1 ds = inode_at t1 es \<longleftrightarrow> at m1 ds = at m1 es"
    if a: "valid_comps ds" "valid_comps es" "inode_at t1 ds \<noteq> None" for ds es
  proof -
    have "inode_at t ds = inode_at t es \<longleftrightarrow> at m ds = at m es" if "inode_at t ds \<noteq> None" using tw a that by (simp add: twins_def)
    moreover have "inode_at t xs \<noteq> Some (t_nextInode t)" for xs using i1(4) [of xs "t_nextInode t"] by blast
    ultimately show ?thesis
      using a(3) m1(2) [OF a(1)] m1(2) [OF a(2)] fresh [OF a(1)] fresh [OF a(2)]
      by (auto simp: i1(1) dest: sym split: if_splits)
  qed
  have "t_cwd t1 = fs_cwd m1" using t1(3) m1(5) tw by (simp add: twins_def)
  with rel share show "twins t1 m1" by (simp add: twins_def)
  show "trie_wf t1" "fs_wf m1" "i_children (inode t1 d) = i_children node" "fs_implicitParents m1 = fs_implicitParents m"
    using t1(1,4) m1(1,6) by simp_all
  show "entry_at t1 (cs @ [c]) = Some d" using t1(2) [of "cs @ [c]"] by simp
qed

section \<open>Creating directories\<close>

lemma dir_node_agree:
  "agree ((blank_inode (ModeDir OR perm) now)\<lparr>i_children := Some []\<rparr>) (blank_node (ModeDir OR perm) now)"
  "agree ((blank_inode m now)\<lparr>i_target := x\<rparr>) ((blank_node m now)\<lparr>n_target := x\<rparr>)"
  by (simp_all add: agree_def blank_inode_def blank_node_def)

lemma mkdir_perm_idem: "mkdir_perm (mkdir_perm p) = mkdir_perm p"
proof -
  have "(0x1ED :: FileMode) AND storedPermBits = 0x1ED" by (simp add: storedPermBits_def mode_bits)
  then show ?thesis by (simp add: mkdir_perm_def and.assoc)
qed

lemma Resolve_render: "valid_comps cs \<Longrightarrow> Resolve dir (render cs) = render cs"
proof -
  assume "valid_comps cs"
  moreover have "HasPrefix (render cs) ''/''" by (simp add: HasPrefix_def render_def)
  ultimately show ?thesis by (simp add: Resolve_abs)
qed

lemma mkdir_loop_agree:
  assumes "twins t m" "trie_wf t" "fs_wf m" "entry_at t cs = Some current" "i_children (inode t current) \<noteq> None" "valid_comps parts"
    and "perm = mkdir_perm q"
  shows "same_outcome (trie_mkdir_loop now perm current (render cs) parts t) (mkdirAll_loop now q (render cs) (join_with slash parts) m)"
  using assms
proof (induction parts arbitrary: current cs t m q)
  case (Cons c parts)
  note tw = Cons.prems(1) and wf = Cons.prems(2,3)
  have v: "valid_comps cs" "valid_comps (cs @ c # parts)" "valid_comps (cs @ [c])" "valid_comp c" "valid_comps parts"
    using entry_valid [OF wf(1) Cons.prems(4)] Cons.prems(6) by simp_all
  note j = joinChildPath_snoc [OF v(1), of c] and loop = mkdirAll_loop_Cons [OF v(2), of now q m]
  have e: "entry_at t (cs @ [c]) = child_of t current c" using Cons.prems(4) by (simp add: follow_snoc)
  from tw v(3) show ?case
  proof (cases rule: twins_at)
    case 1
    have new: "child_of t current c = None" using 1 e by simp
    obtain d t1 where i: "trie_install current c ((blank_inode (ModeDir OR perm) now)\<lparr>i_children := Some []\<rparr>) t = (d, t1)" by fastforce
    obtain r m1 where k: "install (render (cs @ [c])) (blank_node (ModeDir OR perm) now) m = (r, m1)" by fastforce
    have ok: "node_ok (blank_node (ModeDir OR perm) now)" "n_children (blank_node (ModeDir OR perm) now) = {}"
      using mkdir_node_ok Cons.prems(7) by simp_all
    note s = install_twins [OF tw wf Cons.prems(4,5) new v(4) new_inode_ok(1) _ i ok dir_node_agree(1) k]
    have "same_outcome (trie_mkdir_loop now perm d (render (cs @ [c])) parts t1)
        (mkdirAll_loop now (mkdir_perm q) (render (cs @ [c])) (join_with slash parts) m1)"
      using s(1-5) v(5) Cons.prems(7) mkdir_perm_idem by (intro Cons.IH) simp_all
    then show ?thesis unfolding loop using 1 new i k Cons.prems(7) by (simp add: j)
  next
    case (2 d r)
    have child: "child_of t current c = Some d" using 2(1) e by simp
    have eq: "node_link m r \<longleftrightarrow> i_mode (inode t d) AND ModeSymlink \<noteq> 0" "node_dir m r \<longleftrightarrow> mode_IsDir (i_mode (inode t d))"
      using 2(3) by (simp_all add: agree_def node_link_def node_dir_def)
    have dir: "i_children (inode t x) \<noteq> None" if "entry_at t xs = Some x" "mode_IsDir (i_mode (inode t x))" for xs x
      using wf_dir [OF wf(1) reachI [OF that(1)]] that(2) by simp
    show ?thesis
    proof (cases "i_mode (inode t d) AND ModeSymlink \<noteq> 0")
      case False
      have "same_outcome (trie_mkdir_loop now perm d (render (cs @ [c])) parts t)
          (mkdirAll_loop now q (render (cs @ [c])) (join_with slash parts) m)" if "mode_IsDir (i_mode (inode t d))"
        using Cons.IH [OF tw wf 2(1) dir [OF 2(1) that] v(5) Cons.prems(7)] .
      then show ?thesis unfolding loop using 2(2) child eq False tw by (simp add: j Let_def)
    next
      case True
      have ab: "Resolve (t_cwd t) (render (cs @ [c])) = render (cs @ [c])" by (rule Resolve_render [OF v(3)])
      have cwd: "fs_cwd m = t_cwd t" using tw by (simp add: twins_def)
      have r1: "trie_resolveAbs t (render (cs @ [c])) True False 0 = trie_resolvePath t (render (cs @ [c])) True False"
        using resolveAbs_Path [of t "render (cs @ [c])" True] ab by simp
      have r2: "resolveAbsLocked m (render (cs @ [c])) True False 0 = resolvePathLocked m (render (cs @ [c])) True False"
        using ab cwd by (simp add: resolvePathLocked_def)
      from tw wf(2) show ?thesis
      proof (cases rule: resolvePath_agree [where name = "render (cs @ [c])" and f = True and a = False])
        case 1
        then show ?thesis unfolding loop using 2(2) child eq True tw r1 r2 by (simp add: j Let_def)
      next
        case q: (2 ds)
        from tw q(1) show ?thesis
        proof (cases rule: twins_at)
          case x: (2 x y)
          have "same_outcome (trie_mkdir_loop now perm x (render ds) parts t)
              (mkdirAll_loop now q (render ds) (join_with slash parts) m)" if "mode_IsDir (i_mode (inode t x))"
            using Cons.IH [OF tw wf x(1) dir [OF x(1) that] v(5) Cons.prems(7)] .
          moreover have "node_dir m y \<longleftrightarrow> mode_IsDir (i_mode (inode t x))" using x(3) by (simp add: agree_def node_dir_def)
          ultimately show ?thesis unfolding loop using 2(2) child eq True tw r1 r2 q x by (simp add: j Let_def)
        qed (use q in simp)
      qed
    qed
  qed
qed (simp add: assms)

lemma MkdirAll_agree:
  assumes "twins t m" "trie_wf t" "fs_wf m"
  shows "same_outcome (tr_MkdirAll now name perm t) (mem_MkdirAll now name perm m)"
proof -
  let ?p = "Resolve (t_cwd t) name"
  have cwd: "fs_cwd m = t_cwd t" using assms(1) by (simp add: twins_def)
  obtain cs where cs: "valid_comps cs" "?p = render cs" by (rule clean_pathE [OF Resolve_clean])
  have "i_children (inode t (t_root t)) \<noteq> None" using assms(2) by (simp add: trie_wf_def root_ok_def)
  then have "same_outcome (trie_mkdir_loop now (mkdir_perm perm) (t_root t) ''/'' cs t) (mkdirAll_loop now perm ''/'' (join_with slash cs) m)"
    using mkdir_loop_agree [OF assms, of "[]" "t_root t" cs] cs(1) by simp
  then show ?thesis
    using cs assms(1) by (simp add: tr_MkdirAll_def mem_MkdirAll_def trie_mkdirAll_def mkdirAllLocked_def Let_def cwd tl_render mkdir_perm_def)
qed

section \<open>Creating links\<close>

lemma walkCreate_agree:
  "twins t m \<Longrightarrow> entry_at t pre = Some current \<Longrightarrow> valid_comps (pre @ cs) \<Longrightarrow>
     trie_walkCreate t p current (render pre) cs = resolveCreate_loop m p (render pre) (join_with slash cs)"
proof (induction cs arbitrary: pre current)
  case Nil
  show ?case by (simp add: resolveCreate_loop.simps)
next
  case (Cons c cs)
  note loop = resolveCreate_loop_Cons [OF Cons.prems(3), of m p]
  have v: "valid_comps pre" "valid_comps (pre @ [c])" "valid_comps (c # cs)" "valid_comps ((pre @ [c]) @ cs)" using Cons.prems(3) by simp_all
  note j = joinChildPath_snoc [OF v(1), of c]
  have e: "entry_at t (pre @ [c]) = child_of t current c" using Cons.prems(2) by (simp add: follow_snoc)
  from Cons.prems(1) v(2) show ?case
  proof (cases rule: twins_at)
    case 1
    then show ?thesis unfolding loop using e v Resolve_join [OF v(1,3)] by (simp add: path_JoinAll_valid)
  next
    case (2 d r)
    then have eq: "n_mode (fs_heap m r) = i_mode (inode t d)" "n_target (fs_heap m r) = i_target (inode t d)" by (simp_all add: agree_def)
    note d = e [unfolded 2(1), symmetric]
    show ?thesis
      unfolding loop using 2(2) d eq Cons.IH [OF Cons.prems(1) 2(1) v(4)] v(3)
      by (simp add: j Let_def node_link_def node_dir_def path_JoinAll_valid)
  qed
qed

lemma resolveCreate_agree: "twins t m \<Longrightarrow> trie_resolveCreate t name depth = resolveCreatePathLocked m name depth"
proof (induction t name depth rule: trie_resolveCreate.induct)
  case (1 t name depth)
  have s: "trieSplitPath (Clean name) = abs_comps name" "tl (Clean name) = join_with slash (abs_comps name)" by (simp_all add: Clean_eq tl_render)
  have w: "trie_walkCreate t (Clean name) (t_root t) ''/'' (abs_comps name) = resolveCreate_loop m (Clean name) ''/'' (tl (Clean name))"
    using walkCreate_agree [OF "1.prems", of "[]" "t_root t" "abs_comps name"] s(2) by simp
  show ?case
    using "1.IH" [OF refl _ _ _ "1.prems"] w s(1)
    by (simp add: trie_resolveCreate.simps [of t name] resolveCreatePathLocked.simps [of m name] Let_def split: walk.split)
qed

text \<open>
  Where the resolution of a new name reports a missing component, the resolution of its parent
  for creation succeeds: both follow the same links, one component apart.
\<close>

lemma parent_create_loop:
  "valid_comps (ds @ cs @ [c]) \<Longrightarrow> cs \<noteq> [] \<Longrightarrow>
     (\<exists>p. resolveCreate_loop m q (render ds) (join_with slash cs) = Return (Inr p)) \<or>
     resolveAbs_loop m f True (render ds) (join_with slash (cs @ [c])) = Return (Inl (Errno ErrInvalid)) \<or>
     (\<exists>ys. valid_comps (ys @ [c]) \<and> resolveAbs_loop m f True (render ds) (join_with slash (cs @ [c])) = Restart (render (ys @ [c])) \<and>
        resolveCreate_loop m q (render ds) (join_with slash cs) = Restart (render ys))"
proof (induction cs arbitrary: ds)
  case (Cons x cs)
  have v: "valid_comps (ds @ x # cs @ [c])" "valid_comps (ds @ x # cs)" "valid_comps ((ds @ [x]) @ cs @ [c])" "valid_comps (cs @ [c])" "valid_comps cs"
    using Cons.prems(1) by simp_all
  note la = resolveAbs_loop_Cons [OF v(1), of m f True] and lc = resolveCreate_loop_Cons [OF v(2), of m q]
  show ?case
  proof (cases "at m (ds @ [x])")
    case None
    then show ?thesis unfolding lc by simp
  next
    case (Some r)
    show ?thesis
    proof (cases "node_link m r")
      case True
      obtain ts where ts: "valid_comps ts" "Resolve (render ds) (n_target (fs_heap m r)) = render ts" by (rule clean_pathE [OF Resolve_clean])
      have "Resolve (render ts) (join_with slash (cs @ [c])) = render ((ts @ cs) @ [c])" "Resolve (render ts) (join_with slash cs) = render (ts @ cs)"
        using Resolve_join [OF ts(1)] v(4,5) by simp_all
      then show ?thesis unfolding append_Cons la lc using Some True ts v(4)
        by (intro disjI2 exI [of _ "ts @ cs"]) simp
    next
      case False
      then show ?thesis unfolding append_Cons la lc using Some Cons.IH [OF v(3)] by auto
    qed
  qed
qed simp

lemma parent_create:
  "valid_comps (cs @ [c]) \<Longrightarrow> resolveAbsLocked m (render (cs @ [c])) f True k = Inl e \<Longrightarrow> errors_Is e ErrNotExist \<Longrightarrow>
     \<exists>p. resolveCreatePathLocked m (render cs) k = Inr p"
proof (induction m "render cs" k arbitrary: cs f rule: resolveCreatePathLocked.induct)
  case (1 m k)
  note v = "1.prems"(1)
  then have vc: "valid_comps cs" "valid_comps (cs @ [c])" by simp_all
  have ne: "render (cs @ [c]) \<noteq> ''/''" using render_eq_root [OF v] by simp
  have k: "\<not> maxSymlinkDepth < k" using "1.prems"(2,3) by (auto simp: resolveAbsLocked.simps [of m])
  have cl: "Clean (render (cs @ [c])) = render (cs @ [c])" "Clean (render cs) = render cs" using v by simp_all
  have abs: "(case resolveAbs_loop m f True (render []) (join_with slash (cs @ [c])) of Return r \<Rightarrow> r
      | Restart t \<Rightarrow> resolveAbsLocked m t True True (Suc k)) = Inl e"
    using "1.prems"(2) k ne by (simp add: resolveAbsLocked.simps [of m "render (cs @ [c])"] cl tl_render Let_def del: render_eq_root)
  show ?case
  proof (cases "cs = []")
    case True
    then show ?thesis using k by (simp add: resolveCreatePathLocked.simps)
  next
    case False
    then have ne': "render cs \<noteq> ''/''" using vc(1) by simp
    have crt: "resolveCreatePathLocked m (render cs) k = (case resolveCreate_loop m (render cs) (render []) (join_with slash cs) of
        Return r \<Rightarrow> r | Restart t \<Rightarrow> resolveCreatePathLocked m t (Suc k))"
      using k ne' by (simp add: resolveCreatePathLocked.simps [of m "render cs"] cl tl_render Let_def)
    have "valid_comps ([] @ cs @ [c])" using v by simp
    from parent_create_loop [OF this False, of m "render cs" f] show ?thesis
    proof (elim disjE exE conjE)
      fix ys
      assume ys: "valid_comps (ys @ [c])" "resolveAbs_loop m f True (render []) (join_with slash (cs @ [c])) = Restart (render (ys @ [c]))"
        "resolveCreate_loop m (render cs) (render []) (join_with slash cs) = Restart (render ys)"
      have "resolveCreate_loop m (Clean (render cs)) ''/'' (tl (Clean (render cs))) = Restart (render ys)" using ys(3) by (simp add: cl tl_render)
      moreover have "resolveAbsLocked m (render (ys @ [c])) True True (Suc k) = Inl e" using abs ys(2) by simp
      ultimately have "\<exists>p. resolveCreatePathLocked m (render ys) (Suc k) = Inr p"
        using "1.hyps" [OF refl k _ _ ys(1)] cl ne' "1.prems"(3) by simp
      then show ?thesis using crt ys(3) by simp
    qed (use crt abs "1.prems"(3) in auto)
  qed
qed

lemma symlink_locate_agree:
  assumes "twins t m" "fs_wf m"
  shows "trie_symlink_locate l t =
     (case resolvePathLocked m l False True of
        Inr (p, Some _) \<Rightarrow> Inl (PathError ''symlink'' p (Errno ErrExist))
      | Inr (p, None) \<Rightarrow> Inr p
      | Inl err \<Rightarrow>
          if errors_Is err ErrNotExist then
            (case resolveCreatePathLocked m (parentDir (Resolve (fs_cwd m) l)) 0 of
               Inl parentErr \<Rightarrow> Inl (PathError ''symlink'' (Resolve (fs_cwd m) l) parentErr)
             | Inr parentAbs \<Rightarrow> Inr (Resolve parentAbs (path_Base (Resolve (fs_cwd m) l))))
          else Inl (PathError ''symlink'' (Resolve (fs_cwd m) l) err))"
proof -
  have cwd: "t_cwd t = fs_cwd m" using assms(1) by (simp add: twins_def)
  from assms show ?thesis
  proof (cases rule: resolvePath_agree [where name = l and f = False and a = True])
    case (1 err)
    obtain rs where rs: "valid_comps rs" "Resolve (fs_cwd m) l = render rs" by (rule clean_pathE [OF Resolve_clean])
    have "\<exists>p. resolveCreatePathLocked m (parentDir (render rs)) 0 = Inr p" if nx: "errors_Is err ErrNotExist"
    proof (cases rs rule: rev_cases)
      case Nil
      then show ?thesis by (simp add: resolveCreatePathLocked.simps)
    next
      case (snoc cs c)
      then have "parentDir (render rs) = render cs" using rs(1) parentDir_render [of cs c] by simp
      moreover have "resolveAbsLocked m (render (cs @ [c])) False True 0 = Inl err" using 1(2) rs(2) snoc by (simp add: resolvePathLocked_def)
      ultimately show ?thesis using parent_create [of cs c m False 0 err] rs(1) snoc nx by simp
    qed
    then show ?thesis
      using 1 rs(2) resolveCreate_agree [OF assms(1)] by (auto simp: trie_symlink_locate_def Let_def cwd)
  next
    case (2 cs)
    from assms(1) 2(1) show ?thesis by (cases rule: twins_at) (simp_all add: trie_symlink_locate_def Let_def 2)
  qed
qed

lemma createParent_agree:
  assumes tw: "twins t m" and p: "valid_comps cs" "cs \<noteq> []" and imp: "\<not> fs_implicitParents m"
  shows "(case createParentLocked op (render cs) t of Inl e \<Rightarrow> Inl e | Inr _ \<Rightarrow> Inr ()) = fst (ensureParentLocked now op (render cs) m) \<and>
     snd (ensureParentLocked now op (render cs) m) = m"
proof -
  obtain ps c where cs: "cs = ps @ [c]" using p(2) by (cases cs rule: rev_cases) auto
  have pd: "parentDir (render cs) = render ps" using p(1) unfolding cs by (rule parentDir_render)
  have v: "valid_comps ps" using p(1) cs by simp
  from tw v show ?thesis
    by (cases rule: twins_at)
      (auto simp: createParentLocked_def ensureParentLocked_def pd imp lookup_render [OF v] node_at_def at_def agree_def)
qed

lemma Symlink_agree:
  assumes tw: "twins t m" and wf: "trie_wf t" "fs_wf m" and imp: "\<not> fs_implicitParents m"
  shows "same_outcome (tr_Symlink now target l t) (mem_Symlink now target l m)"
    "fs_implicitParents (snd (mem_Symlink now target l m)) = fs_implicitParents m"
proof -
  note loc = symlink_locate_agree [OF tw wf(2), of l]
  let ?found = "trie_symlink_locate l t"
  let ?node = "(blank_inode (ModeSymlink OR 0x1FF) now)\<lparr>i_target := target\<rparr>" and ?k = "(blank_node (ModeSymlink OR 0x1FF) now)\<lparr>n_target := target\<rparr>"
  have mem: "mem_Symlink now target l m =
     (case ?found of Inl e \<Rightarrow> (Inl e, m)
      | Inr p \<Rightarrow> if ref_at m p \<noteq> None then (Inl (PathError ''symlink'' p (Errno ErrExist)), m)
          else (case ensureParentLocked now ''symlink'' p m of (Inl e, m1) \<Rightarrow> (Inl e, m1)
                | (Inr _, m1) \<Rightarrow> (Inr (), snd (install p ?k m1))))"
    unfolding loc mem_Symlink_def Let_def by (rule refl)
  have "same_outcome (tr_Symlink now target l t) (mem_Symlink now target l m) \<and>
    fs_implicitParents (snd (mem_Symlink now target l m)) = fs_implicitParents m"
  proof (cases ?found)
    case (Inl e)
    then show ?thesis using tw by (simp add: mem tr_Symlink_def)
  next
    case (Inr p)
    obtain cs where cs: "valid_comps cs" "p = render cs" by (rule clean_pathE [OF symlink_locate_clean [OF Inr]])
    have lk: "lookupAbsNoFollowLocked t p = entry_at t cs" "ref_at m p = at m cs" using cs by (simp_all add: lookup_render at_def)
    from tw cs(1) show ?thesis
    proof (cases rule: twins_at)
      case (2 d r)
      then show ?thesis using Inr tw lk by (simp add: mem tr_Symlink_def)
    next
      case 1
      then have "cs \<noteq> []" by auto
      note par = createParent_agree [OF tw cs(1) this imp, of "''symlink''" now, folded cs(2)]
      show ?thesis
      proof (cases "createParentLocked ''symlink'' p t")
        case (Inl e)
        then show ?thesis using Inr tw lk 1 par by (cases "ensureParentLocked now ''symlink'' p m") (auto simp: mem tr_Symlink_def)
      next
        case q: (Inr parent)
        obtain ps c where c: "valid_comps (ps @ [c])" "p = render (ps @ [c])" "entry_at t ps = Some parent"
          "i_children (inode t parent) \<noteq> None" "child_of t parent c = None" "path_Base p = c"
          using createParentE [OF q wf(1)] cs lk 1 by (metis clean_path_render)
        obtain d t1 where i: "trie_install parent c ?node t = (d, t1)" by fastforce
        obtain r m1 where k: "install (render (ps @ [c])) ?k m = (r, m1)" by fastforce
        have ok: "inode_ok ?node" by (rule new_inode_ok(3)) (simp add: mode_IsDir_def or_and_distrib)
        have kok: "node_ok ?k" "n_children ?k = {}" by (simp_all add: node_ok_def blank_node_def mode_IsDir_def or_and_distrib)
        have vc: "valid_comp c" using c(1) by simp
        have ch: "i_children ?node = None \<or> i_children ?node = Some []" by (simp add: blank_inode_def)
        note s = install_twins [OF tw wf c(3-5) vc ok ch i kok dir_node_agree(2) k]
        have "ensureParentLocked now ''symlink'' p m = (Inr (), m)" using par q by (cases "ensureParentLocked now ''symlink'' p m") simp
        then show ?thesis using Inr lk 1 q c i k s(1,6) by (simp add: mem tr_Symlink_def)
      qed
    qed
  qed
  then show "same_outcome (tr_Symlink now target l t) (mem_Symlink now target l m)"
    "fs_implicitParents (snd (mem_Symlink now target l m)) = fs_implicitParents m" by simp_all
qed

section \<open>Runs\<close>

text \<open>The answers of a machine to a sequence of calls.\<close>

fun run_calls :: "('c \<Rightarrow> 's \<Rightarrow> 'a \<times> 's) \<Rightarrow> 'c list \<Rightarrow> 's \<Rightarrow> 'a list" where
  "run_calls f [] s = []"
| "run_calls f (c # cs) s = (case f c s of (a, s1) \<Rightarrow> a # run_calls f cs s1)"

text \<open>
  Two machines that answer the same calls: a relation between their states that makes one call
  give equal answers and related states makes every run give equal answers.
\<close>

locale call_simulation =
  fixes f :: "'c \<Rightarrow> 's \<Rightarrow> 'a \<times> 's" and g :: "'c \<Rightarrow> 't \<Rightarrow> 'a \<times> 't" and rel :: "'s \<Rightarrow> 't \<Rightarrow> bool"
  assumes same_answer: "rel s t \<Longrightarrow> fst (f c s) = fst (g c t)"
    and same_state: "rel s t \<Longrightarrow> rel (snd (f c s)) (snd (g c t))"
begin

lemma same_runs: "rel s t \<Longrightarrow> run_calls f cs s = run_calls g cs t"
proof (induction cs arbitrary: s t)
  case (Cons c cs)
  then show ?case using same_answer [OF Cons.prems, of c] same_state [OF Cons.prems, of c] by (simp add: case_prod_unfold)
qed simp

end

text \<open>The calls that both file systems answer in the same way, and their answers.\<close>

datatype fs_call =
    CallMkdirAll gotime string FileMode
  | CallSymlink gotime string string
  | CallRemove string bool
  | CallChmod gotime string FileMode
  | CallChown string "32 word" "32 word" bool
  | CallChtimes gotime string gotime gotime
  | CallChdir string
  | CallReadDir string
  | CallReadlink string
  | CallRealpath string
  | CallGetwd

datatype fs_answer =
    Done "go_error + unit"
  | Names "go_error + memoryDirEntry list"
  | Text "go_error + string"

fun tr_call :: "fs_call \<Rightarrow> TrieFS \<Rightarrow> fs_answer \<times> TrieFS" where
  "tr_call (CallMkdirAll now name perm) t = map_prod Done id (tr_MkdirAll now name perm t)"
| "tr_call (CallSymlink now target name) t = map_prod Done id (tr_Symlink now target name t)"
| "tr_call (CallRemove name recursive) t = map_prod Done id (tr_Remove name recursive t)"
| "tr_call (CallChmod now name mode) t = map_prod Done id (tr_Chmod now name mode t)"
| "tr_call (CallChown name uid gid follow) t = map_prod Done id (tr_Chown name uid gid follow t)"
| "tr_call (CallChtimes now name ta tm) t = map_prod Done id (tr_Chtimes now name ta tm t)"
| "tr_call (CallChdir name) t = map_prod Done id (tr_Chdir name t)"
| "tr_call (CallReadDir name) t = map_prod Names id (tr_ReadDir name t)"
| "tr_call (CallReadlink name) t = (Text (tr_Readlink name t), t)"
| "tr_call (CallRealpath name) t = (Text (tr_Realpath name t), t)"
| "tr_call CallGetwd t = (Text (Inr (tr_Getwd t)), t)"

fun mem_call :: "fs_call \<Rightarrow> MemoryFS \<Rightarrow> fs_answer \<times> MemoryFS" where
  "mem_call (CallMkdirAll now name perm) m = map_prod Done id (mem_MkdirAll now name perm m)"
| "mem_call (CallSymlink now target name) m = map_prod Done id (mem_Symlink now target name m)"
| "mem_call (CallRemove name recursive) m = map_prod Done id (mem_Remove name recursive m)"
| "mem_call (CallChmod now name mode) m = map_prod Done id (mem_Chmod now name mode m)"
| "mem_call (CallChown name uid gid follow) m = map_prod Done id (mem_Chown name uid gid follow m)"
| "mem_call (CallChtimes now name ta tm) m = map_prod Done id (mem_Chtimes now name ta tm m)"
| "mem_call (CallChdir name) m = map_prod Done id (mem_Chdir name m)"
| "mem_call (CallReadDir name) m = (Names (mem_ReadDir name m), m)"
| "mem_call (CallReadlink name) m = (Text (mem_Readlink name m), m)"
| "mem_call (CallRealpath name) m = (Text (mem_Realpath name m), m)"
| "mem_call CallGetwd m = (Text (Inr (mem_Getwd m)), m)"

definition twin_states :: "TrieFS \<Rightarrow> MemoryFS \<Rightarrow> bool" where
  "twin_states t m \<longleftrightarrow> twins t m \<and> trie_wf t \<and> fs_wf m \<and> \<not> fs_implicitParents m"

lemma mem_implicit:
  "fs_wf m \<Longrightarrow> fs_implicitParents (snd (mem_MkdirAll now name perm m)) = fs_implicitParents m"
  "fs_implicitParents (snd (mem_Remove name recursive m)) = fs_implicitParents m"
  "fs_implicitParents (snd (on_node op follow f name m)) = fs_implicitParents m"
  "fs_implicitParents (snd (mem_Chdir name m)) = fs_implicitParents m"
proof -
  show "fs_wf m \<Longrightarrow> fs_implicitParents (snd (mem_MkdirAll now name perm m)) = fs_implicitParents m"
    using mkdirAllLocked_spec(2) [OF _ surjective_pairing] by (simp add: mem_MkdirAll_def extends_def)
  show "fs_implicitParents (snd (mem_Remove name recursive m)) = fs_implicitParents m"
    by (auto simp: mem_Remove_def del_child_def update_node_def split: sum.splits prod.splits option.splits)
  show "fs_implicitParents (snd (on_node op follow f name m)) = fs_implicitParents m"
    by (auto simp: on_node_def update_node_def split: sum.splits prod.splits option.splits)
  show "fs_implicitParents (snd (mem_Chdir name m)) = fs_implicitParents m"
    by (auto simp: mem_Chdir_def split: sum.splits prod.splits option.splits)
qed

lemma tr_call_wf: "trie_wf t \<Longrightarrow> trie_wf (snd (tr_call c t))"
  by (cases c) (auto intro: mkdir_wf symlink_wf trie_remove_wf chdir_wf shape_wfs surjective_pairing)

lemma call_wf: "fs_wf m \<Longrightarrow> fs_wf (snd (mem_call c m))"
  by (cases c) (auto intro: mem_MkdirAll_wf mem_Symlink_wf mem_Remove_wf mem_Chmod_wf mem_Chown_wf mem_Chtimes_wf mem_Chdir_wf surjective_pairing)

lemma call_agree:
  assumes "twin_states t m"
  shows "fst (tr_call c t) = fst (mem_call c m)" "twin_states (snd (tr_call c t)) (snd (mem_call c m))"
proof -
  note h = assms [unfolded twin_states_def]
  have "fst (tr_call c t) = fst (mem_call c m) \<and> twins (snd (tr_call c t)) (snd (mem_call c m)) \<and> \<not> fs_implicitParents (snd (mem_call c m))"
    using h MkdirAll_agree [of t m] Symlink_agree [of t m] Remove_agree [of t m] metadata_agree [of t m] Chdir_agree [of t m]
      ReadDir_agree [of t m] Readlink_agree [of t m] Realpath_agree [of t m]
    by (cases c) (simp_all add: mem_implicit mem_Chmod_def mem_Chown_def mem_Chtimes_def twins_def tr_Getwd_def mem_Getwd_def)
  moreover have "trie_wf (snd (tr_call c t))" using tr_call_wf h by blast
  moreover have "fs_wf (snd (mem_call c m))" using call_wf h by blast
  ultimately show "fst (tr_call c t) = fst (mem_call c m)" "twin_states (snd (tr_call c t)) (snd (mem_call c m))"
    by (simp_all add: twin_states_def)
qed

interpretation trie_memory: call_simulation tr_call mem_call twin_states
  by unfold_locales (simp_all add: call_agree)

lemma new_twins: "twin_states (NewTrie now) (NewMemory now)"
proof -
  have c: "child_of (NewTrie now) d n = None" for d n by (simp add: child_of_def NewTrie_def)
  then have "trie_follow (NewTrie now) d cs = (if cs = [] then Some d else None)" for d cs by (cases cs) simp_all
  then have "inode_at (NewTrie now) cs = (if cs = [] then Some 0 else None)" for cs by (simp add: inode_at_def NewTrie_def)
  moreover have "agree (t_inodes (NewTrie now) 0) (fs_heap (NewMemory now) 0)"
    by (simp add: agree_def NewTrie_def NewMemory_def blank_inode_def blank_node_def)
  ultimately have "twins (NewTrie now) (NewMemory now)"
    by (auto simp: twins_def NewMemory_at) (simp add: NewTrie_def NewMemory_def)
  then show ?thesis by (simp add: twin_states_def NewTrie_wf NewMemory_wf) (simp add: NewMemory_def)
qed

text \<open>
  (C9) The trie and the in-memory file system are interchangeable for directories, symbolic links,
  removal, metadata, the working directory and listing: on every sequence of these calls on new
  file systems they give the same answers, errors with their paths included.
\<close>

theorem trie_simulates_memory:
  "run_calls tr_call calls (NewTrie now) = run_calls mem_call calls (NewMemory now)"
  using new_twins by (rule trie_memory.same_runs)

end
