(* ===== verification/Trie_Clone.thy ===== *)
theory Trie_Clone
  imports Trie_Sim
begin

text \<open>
  Cloning a trie: the recursion over the entries copies the tree, and the table of inodes that it
  carries makes entries share an inode in the copy exactly when they share one in the original.
\<close>

section \<open>The table of copied inodes\<close>

abbreviation dino :: "TrieFS \<Rightarrow> nat \<Rightarrow> nat" where
  "dino t d \<equiv> d_inode (t_dents t d)"

definition bare :: "trieInode \<Rightarrow> trieInode" where
  "bare n = n\<lparr>i_children := None, i_names := None, i_dirty := False\<rparr>"

lemma bare_frame [simp]:
  "bare (n\<lparr>i_children := x\<rparr>) = bare n" "bare (n\<lparr>i_names := y\<rparr>) = bare n" "bare (copied_inode n) = bare n"
  by (simp_all add: bare_def copied_inode_def)

definition pool :: "TrieFS \<Rightarrow> clone_state \<Rightarrow> bool" where
  "pool t c \<longleftrightarrow>
     (\<forall>i j. map_of (c_inodes c) i = Some j \<longrightarrow>
        j < t_nextInode (c_fs c) \<and>
        bare (t_inodes (c_fs c) j) = bare (t_inodes t i) \<and>
        (i_children (t_inodes (c_fs c) j) = None \<longleftrightarrow> i_children (t_inodes t i) = None)) \<and>
     (\<forall>i i' j. map_of (c_inodes c) i = Some j \<longrightarrow> map_of (c_inodes c) i' = Some j \<longrightarrow> i = i')"

text \<open>What a later state retains of an earlier one, apart from the inodes in \<open>J\<close>.\<close>

definition retains :: "nat set \<Rightarrow> clone_state \<Rightarrow> clone_state \<Rightarrow> bool" where
  "retains J c c1 \<longleftrightarrow>
     t_nextDent (c_fs c) \<le> t_nextDent (c_fs c1) \<and> t_nextInode (c_fs c) \<le> t_nextInode (c_fs c1) \<and>
     (\<forall>e < t_nextDent (c_fs c). t_dents (c_fs c1) e = t_dents (c_fs c) e) \<and>
     (\<forall>j < t_nextInode (c_fs c). j \<notin> J \<longrightarrow> t_inodes (c_fs c1) j = t_inodes (c_fs c) j) \<and>
     (\<forall>i j. map_of (c_inodes c) i = Some j \<longrightarrow> map_of (c_inodes c1) i = Some j) \<and> t_cwd (c_fs c1) = t_cwd (c_fs c)"

lemma retains_trans: "retains J c c1 \<Longrightarrow> retains J c1 c2 \<Longrightarrow> retains J c c2"
  by (auto simp: retains_def)

lemma retains_mono: "retains J c c1 \<Longrightarrow> J \<subseteq> K \<Longrightarrow> retains K c c1"
  by (auto simp: retains_def)

text \<open>The subtree at \<open>d\<close> has a complete copy at \<open>e\<close>.\<close>

definition tree_copied :: "TrieFS \<Rightarrow> clone_state \<Rightarrow> nat \<Rightarrow> nat \<Rightarrow> bool" where
  "tree_copied t c d e \<longleftrightarrow>
     (\<forall>cs. rel_option (\<lambda>x y. map_of (c_inodes c) (dino t x) = Some (dino (c_fs c) y) \<and> y < t_nextDent (c_fs c))
        (trie_follow t d cs) (trie_follow (c_fs c) e cs))"

lemma copied_retained:
  assumes cp: "tree_copied t c d e" and po: "pool t c" and k: "retains {jo} c c1"
    and apart: "\<And>x. x \<in> below t d \<Longrightarrow> map_of (c_inodes c) (dino t x) \<noteq> Some jo"
  shows "tree_copied t c1 d e"
proof -
  have st: "t_dents (c_fs c1) y = t_dents (c_fs c) y" "child_of (c_fs c1) y n = child_of (c_fs c) y n" if y: "y \<in> below (c_fs c) e" for y n
  proof -
    obtain cs where "trie_follow (c_fs c) e cs = Some y" using y by (auto simp: below_def)
    then obtain x where x: "trie_follow t d cs = Some x" "map_of (c_inodes c) (dino t x) = Some (dino (c_fs c) y)" "y < t_nextDent (c_fs c)"
      using cp [unfolded tree_copied_def, rule_format, of cs] by (auto simp: option_rel_Some2)
    show d: "t_dents (c_fs c1) y = t_dents (c_fs c) y" using k x(3) by (simp add: retains_def)
    have "x \<in> below t d" using x(1) by (auto simp: below_def)
    then have "dino (c_fs c) y \<noteq> jo" using apart x(2) by auto
    moreover have "dino (c_fs c) y < t_nextInode (c_fs c)" using po x(2) by (auto simp: pool_def)
    ultimately show "child_of (c_fs c1) y n = child_of (c_fs c) y n" using k d by (simp add: retains_def child_of_def)
  qed
  have "trie_follow (c_fs c1) e cs = trie_follow (c_fs c) e cs" for cs by (rule follow_cong) (rule st(2))
  moreover have "rel_option (\<lambda>x y. map_of (c_inodes c1) (dino t x) = Some (dino (c_fs c1) y) \<and> y < t_nextDent (c_fs c1))
        (trie_follow t d cs) (trie_follow (c_fs c) e cs)" for cs
  proof -
    have "dino (c_fs c1) y = dino (c_fs c) y" if "trie_follow (c_fs c) e cs = Some y" for y
    proof -
      have "y \<in> below (c_fs c) e" using that by (auto simp: below_def)
      then show ?thesis by (simp add: st(1))
    qed
    then show ?thesis
      using cp k unfolding tree_copied_def retains_def
      by (cases "trie_follow t d cs"; cases "trie_follow (c_fs c) e cs") (auto elim!: allE [of _ cs])
  qed
  ultimately show ?thesis by (simp add: tree_copied_def)
qed

section \<open>One entry\<close>

definition unseen :: "TrieFS \<Rightarrow> clone_state \<Rightarrow> nat \<Rightarrow> bool" where
  "unseen t c d \<longleftrightarrow> (\<forall>x \<in> below t d. i_children (inode t x) \<noteq> None \<longrightarrow> map_of (c_inodes c) (dino t x) = None)"

definition only_below :: "TrieFS \<Rightarrow> nat \<Rightarrow> clone_state \<Rightarrow> clone_state \<Rightarrow> bool" where
  "only_below t d c c1 \<longleftrightarrow>
     (\<forall>i. map_of (c_inodes c1) i \<noteq> None \<longrightarrow> map_of (c_inodes c) i \<noteq> None \<or> i \<in> dino t ` below t d)"

lemma only_below_trans:
  assumes "only_below t x c c1" "c_inodes c2 = c_inodes c1" "only_below t d c2 c3" "dino t ` below t x \<subseteq> dino t ` below t d"
  shows "only_below t d c c3"
  unfolding only_below_def
proof (intro allI impI)
  fix i
  assume "map_of (c_inodes c3) i \<noteq> None"
  then have "map_of (c_inodes c1) i \<noteq> None \<or> i \<in> dino t ` below t d" using assms(2,3) by (simp add: only_below_def)
  moreover have "map_of (c_inodes c1) i \<noteq> None \<longrightarrow> map_of (c_inodes c) i \<noteq> None \<or> i \<in> dino t ` below t x"
    using assms(1) by (simp add: only_below_def)
  ultimately show "map_of (c_inodes c) i \<noteq> None \<or> i \<in> dino t ` below t d" using assms(4) by blast
qed

lemma clone_inode_spec:
  assumes po: "pool t c" and r: "clone_inode t i c = (j, c1)" and n: "i_children (t_inodes t i) \<noteq> None \<Longrightarrow> map_of (c_inodes c) i = None"
  shows "pool t c1" "retains {} c c1" "map_of (c_inodes c1) i = Some j" "t_nextDent (c_fs c1) = t_nextDent (c_fs c)"
    "i_children (t_inodes (c_fs c1) j) = map_option (\<lambda>_. []) (i_children (t_inodes t i))" "j < t_nextInode (c_fs c1)"
    "map_of (c_inodes c1) k \<noteq> None \<Longrightarrow> map_of (c_inodes c) k \<noteq> None \<or> k = i"
    "i_children (t_inodes t i) \<noteq> None \<Longrightarrow> t_nextInode (c_fs c) \<le> j"
proof -
  show "i_children (t_inodes t i) \<noteq> None \<Longrightarrow> t_nextInode (c_fs c) \<le> j" using r n by (auto simp: clone_inode_def Let_def)
  show "pool t c1"
  proof (cases "map_of (c_inodes c) i")
    case None
    then have c1: "c1 = \<lparr>c_inodes = (i, j) # c_inodes c,
        c_fs = (c_fs c)\<lparr>t_nextInode := Suc j, t_inodes := (t_inodes (c_fs c))(j := copied_inode (t_inodes t i))\<rparr>\<rparr>" "j = t_nextInode (c_fs c)"
      using r by (auto simp: clone_inode_def Let_def)
    have old: "x < j" if "map_of (c_inodes c) k = Some x" for k x using po that c1(2) by (simp add: pool_def)
    have "i_children (copied_inode (t_inodes t i)) = None \<longleftrightarrow> i_children (t_inodes t i) = None" by (simp add: copied_inode_def)
    then show ?thesis using po old [THEN less_imp_neq] old [THEN less_SucI] by (auto simp: pool_def c1(1))
  qed (use r po in \<open>simp add: clone_inode_def\<close>)
  show "retains {} c c1" using r by (auto simp: clone_inode_def Let_def retains_def split: option.splits)
  show "map_of (c_inodes c1) i = Some j" "t_nextDent (c_fs c1) = t_nextDent (c_fs c)"
    "map_of (c_inodes c1) k \<noteq> None \<Longrightarrow> map_of (c_inodes c) k \<noteq> None \<or> k = i"
    using r by (auto simp: clone_inode_def Let_def split: option.splits if_splits)
  show "j < t_nextInode (c_fs c1)" using r po by (auto simp: clone_inode_def Let_def pool_def split: option.splits)
  show "i_children (t_inodes (c_fs c1) j) = map_option (\<lambda>_. []) (i_children (t_inodes t i))"
  proof (cases "map_of (c_inodes c) i")
    case (Some k)
    then have "i_children (t_inodes t i) = None" using n by fastforce
    moreover have "c1 = c" "k = j" using r Some by (simp_all add: clone_inode_def)
    ultimately show ?thesis using po Some by (simp add: pool_def)
  qed (use r in \<open>auto simp: clone_inode_def Let_def copied_inode_def\<close>)
qed

section \<open>The recursion\<close>

text \<open>What a call of \<open>cloneDentry\<close> achieves.\<close>

definition dentry_cloned :: "TrieFS \<Rightarrow> nat \<Rightarrow> clone_state \<Rightarrow> nat \<Rightarrow> clone_state \<Rightarrow> bool" where
  "dentry_cloned t d c e c1 \<longleftrightarrow> pool t c1 \<and> retains {} c c1 \<and> tree_copied t c1 d e \<and> only_below t d c c1"

text \<open>Linking the copy of a child into the directory under construction.\<close>

definition link_child :: "nat \<Rightarrow> string \<Rightarrow> nat \<Rightarrow> clone_state \<Rightarrow> clone_state" where
  "link_child jo name e c =
     c\<lparr>c_fs := update_inode jo (\<lambda>n. n\<lparr>i_children := map_option (AList.update name e) (i_children n)\<rparr>) (c_fs c)\<rparr>"

lemma link_child_spec:
  "pool t c \<Longrightarrow> pool t (link_child jo name e c)" "retains {jo} c (link_child jo name e c)"
  "c_inodes (link_child jo name e c) = c_inodes c" "t_dents (c_fs (link_child jo name e c)) = t_dents (c_fs c)"
  "t_nextDent (c_fs (link_child jo name e c)) = t_nextDent (c_fs c)"
  "i_children (t_inodes (c_fs (link_child jo name e c)) jo) = map_option (AList.update name e) (i_children (t_inodes (c_fs c) jo))"
  by (auto simp: link_child_def update_inode_def pool_def retains_def)

text \<open>Two children of a directory have no directory in common.\<close>

lemma siblings_apart:
  assumes wf: "trie_wf t" and d: "d \<in> reach t" and x: "child_of t d n = Some x" and y: "child_of t d k = Some y" "n \<noteq> k"
    and u: "u \<in> below t x" and v: "v \<in> below t y" "dino t u = dino t v"
  shows "i_children (inode t u) = None"
proof (rule ccontr)
  assume "i_children (inode t u) \<noteq> None"
  moreover have "u \<in> reach t" "v \<in> reach t" using below_trans [OF below_child [OF d]] x y u v by blast+
  ultimately have "u = v" using wf_same_dir [OF wf] v(2) by blast
  obtain ds as bs where "entry_at t ds = Some d" "trie_follow t x as = Some u" "trie_follow t y bs = Some v"
    using d u v(1) by (auto simp: below_def)
  then have "entry_at t (ds @ n # as) = Some u" "entry_at t (ds @ k # bs) = Some u"
    using x y \<open>u = v\<close> by (simp_all add: follow_append)
  then show False using entry_unique [OF wf] y(2) by blast
qed

lemma child_apart:
  assumes wf: "trie_wf t" and d: "d \<in> reach t" "i_children (inode t d) \<noteq> None" and x: "child_of t d n = Some x" and u: "u \<in> below t x"
  shows "dino t u \<noteq> dino t d"
proof
  assume "dino t u = dino t d"
  moreover have "u \<in> reach t" using below_trans [OF below_child [OF d(1) x]] u by blast
  ultimately have "d = u" using wf_same_dir [OF wf d(1) _ _ d(2)] by metis
  obtain ds as where "entry_at t ds = Some d" "trie_follow t x as = Some u" using d(1) u by (auto simp: below_def)
  then have "entry_at t (ds @ n # as) = Some d" "entry_at t ds = Some d" using x \<open>d = u\<close> by (simp_all add: follow_append)
  then show False using entry_unique [OF wf] by fastforce
qed

lemma cloneChildren_spec:
  assumes wf: "trie_wf t" and d: "d \<in> reach t" "i_children (inode t d) \<noteq> None"
    and one: "\<forall>n x c. child_of t d n = Some x \<longrightarrow> pool t c \<longrightarrow> unseen t c x \<longrightarrow>
        (\<exists>e c1. cloneDentry fuel t (Some out) x c = Some (e, c1) \<and> dentry_cloned t x c e c1)"
  shows "pool t c \<Longrightarrow> map_of (c_inodes c) (dino t d) = Some jo \<Longrightarrow> out < t_nextDent (c_fs c) \<Longrightarrow> dino (c_fs c) out = jo \<Longrightarrow>
     distinct (map fst kvs) \<Longrightarrow> (\<forall>(n, x) \<in> set kvs. child_of t d n = Some x \<and> unseen t c x) \<Longrightarrow>
     i_children (t_inodes (c_fs c) jo) = Some kv0 \<Longrightarrow>
     \<exists>c1 kv1. cloneChildren fuel t out kvs c = Some c1 \<and> pool t c1 \<and> retains {jo} c c1 \<and>
       i_children (t_inodes (c_fs c1) jo) = Some kv1 \<and>
       (\<forall>n. map_of kvs n = None \<longrightarrow> map_of kv1 n = map_of kv0 n) \<and>
       (\<forall>n x. map_of kvs n = Some x \<longrightarrow> (\<exists>e. map_of kv1 n = Some e \<and> tree_copied t c1 x e)) \<and> only_below t d c c1"
proof (induction kvs arbitrary: c kv0)
  case Nil
  then show ?case by (auto simp: retains_def only_below_def)
next
  case (Cons kv kvs)
  obtain n x where kv: "kv = (n, x)" by fastforce
  have x: "child_of t d n = Some x" "unseen t c x" using Cons.prems(6) kv by auto
  obtain e c1 where c1: "cloneDentry fuel t (Some out) x c = Some (e, c1)" "pool t c1" "retains {} c c1" "tree_copied t c1 x e" "only_below t x c c1"
    using one [rule_format, OF x(1) Cons.prems(1) x(2)] by (auto simp: dentry_cloned_def)
  have out1: "dino (c_fs c1) out = jo" "out < t_nextDent (c_fs c1)" "map_of (c_inodes c1) (dino t d) = Some jo"
    using c1(3) Cons.prems(2-4) by (auto simp: retains_def)
  define c2 where "c2 = link_child jo n e c1"
  note l = link_child_spec [where c = c1 and jo = jo and name = n and e = e, folded c2_def]
  have apart: "map_of (c_inodes c1) (dino t u) \<noteq> Some jo" if "u \<in> below t x" for u
    using child_apart [OF wf d x(1) that] c1(2) out1(3) by (auto simp: pool_def)
  have cp2: "tree_copied t c2 x e" by (rule copied_retained [OF c1(4,2) l(2) apart])
  have jo: "jo < t_nextInode (c_fs c)" using Cons.prems(1,2) by (auto simp: pool_def)
  have ch2: "i_children (t_inodes (c_fs c2) jo) = Some (AList.update n e kv0)"
    using l(6) c1(3) jo Cons.prems(7) by (simp add: retains_def)
  have later: "child_of t d k = Some y \<and> unseen t c2 y" if ky: "(k, y) \<in> set kvs" for k y
  proof -
    have y: "child_of t d k = Some y" "unseen t c y" "n \<noteq> k" using Cons.prems(5,6) ky kv by force+
    have "map_of (c_inodes c2) (dino t v) = None" if v: "v \<in> below t y" "i_children (inode t v) \<noteq> None" for v
    proof (rule ccontr)
      assume "map_of (c_inodes c2) (dino t v) \<noteq> None"
      moreover have "map_of (c_inodes c) (dino t v) = None" using y(2) v by (simp add: unseen_def)
      ultimately obtain u where "u \<in> below t x" "dino t v = dino t u" using c1(5) l(3) by (auto simp: only_below_def)
      then show False using siblings_apart [OF wf d(1) y(1) x(1) y(3) [symmetric] v(1)] v(2) by auto
    qed
    with y(1) show ?thesis by (simp add: unseen_def)
  qed
  have c2: "map_of (c_inodes c2) (dino t d) = Some jo" "out < t_nextDent (c_fs c2)" "dino (c_fs c2) out = jo" using out1 l(3-5) by simp_all
  have rest: "distinct (map fst kvs)" "\<forall>(k, y) \<in> set kvs. child_of t d k = Some y \<and> unseen t c2 y" using later Cons.prems(5) by auto
  from Cons.IH [OF l(1) [OF c1(2)] c2 rest ch2]
  obtain c3 kv1 where c3: "cloneChildren fuel t out kvs c2 = Some c3" "pool t c3" "retains {jo} c2 c3" "i_children (t_inodes (c_fs c3) jo) = Some kv1"
    "\<forall>k. map_of kvs k = None \<longrightarrow> map_of kv1 k = map_of (AList.update n e kv0) k"
    "\<forall>k y. map_of kvs k = Some y \<longrightarrow> (\<exists>e. map_of kv1 k = Some e \<and> tree_copied t c3 y e)" "only_below t d c2 c3" by (elim exE conjE)
  have apart2: "map_of (c_inodes c2) (dino t u) \<noteq> Some jo" if "u \<in> below t x" for u using apart [OF that] l(3) by simp
  have cp3: "tree_copied t c3 x e" by (rule copied_retained [OF cp2 l(1) [OF c1(2)] c3(3) apart2])
  have run: "cloneChildren fuel t out (kv # kvs) c = Some c3" using c1(1) c3(1) out1(1) by (simp add: kv c2_def link_child_def)
  have new: "map_of kvs n = None" using Cons.prems(5) kv by (simp add: map_of_eq_None_iff)
  have "retains {jo} c c3" using retains_trans [OF retains_trans [OF retains_mono [OF c1(3)] l(2)] c3(3)] by simp
  moreover have "below t x \<subseteq> below t d" using below_trans [OF below_child [OF below_self x(1)]] by blast
  then have "only_below t d c c3" using only_below_trans [OF c1(5) l(3) c3(7)] by blast
  moreover have "\<forall>k. map_of (kv # kvs) k = None \<longrightarrow> map_of kv1 k = map_of kv0 k" using c3(5) by (auto simp: kv split: if_splits)
  moreover have "\<forall>k y. map_of (kv # kvs) k = Some y \<longrightarrow> (\<exists>e. map_of kv1 k = Some e \<and> tree_copied t c3 y e)"
    using c3(5,6) new cp3 by (auto simp: kv)
  ultimately show ?case using run c3(2,4) by blast
qed

lemma new_dent_state:
  assumes po: "pool t c" and c2: "c2 = c\<lparr>c_fs := snd (new_dent e (c_fs c))\<rparr>"
  shows "pool t c2" "retains {} c c2" "c_inodes c2 = c_inodes c" "t_dents (c_fs c2) (t_nextDent (c_fs c)) = e"
    "t_nextDent (c_fs c2) = Suc (t_nextDent (c_fs c))" "t_inodes (c_fs c2) = t_inodes (c_fs c)"
  using po by (simp_all add: c2 new_dent_def pool_def retains_def)

lemma cloneDentry_spec:
  assumes wf: "trie_wf t"
  shows "entry_at t ps = Some d \<Longrightarrow> t_nextDent t \<le> length ps + fuel \<Longrightarrow> pool t c \<Longrightarrow> unseen t c d \<Longrightarrow>
     \<exists>e c1. cloneDentry fuel t par d c = Some (e, c1) \<and> dentry_cloned t d c e c1"
proof (induction fuel arbitrary: ps d c par)
  case 0
  then show ?case using entry_depth [OF wf] by fastforce
next
  case (Suc fuel)
  let ?i = "dino t d"
  have d: "d \<in> reach t" by (rule reachI [OF Suc.prems(1)])
  obtain j c1 where r: "clone_inode t ?i c = (j, c1)" by fastforce
  have "i_children (t_inodes t ?i) \<noteq> None \<Longrightarrow> map_of (c_inodes c) ?i = None" using Suc.prems(4) by (simp add: unseen_def)
  note i = clone_inode_spec [OF Suc.prems(3) r this]
  define out where "out = t_nextDent (c_fs c1)"
  define c2 where "c2 = c1\<lparr>c_fs := snd (new_dent \<lparr>d_name = d_name (t_dents t d), d_parent = par, d_inode = j\<rparr> (c_fs c1))\<rparr>"
  note n = new_dent_state [OF i(1) c2_def]
  have nd: "new_dent \<lparr>d_name = d_name (t_dents t d), d_parent = par, d_inode = j\<rparr> (c_fs c1) = (out, c_fs c2)"
    by (simp add: c2_def out_def new_dent_def)
  have same: "c1\<lparr>c_fs := c_fs c2\<rparr> = c2" by (simp add: c2_def)
  have o: "map_of (c_inodes c2) ?i = Some j" "out < t_nextDent (c_fs c2)" "dino (c_fs c2) out = j" using i(3) n by (simp_all add: out_def)
  have k2: "retains {} c c2" by (rule retains_trans [OF i(2) n(2)])
  have new: "map_of (c_inodes c2) k \<noteq> None \<Longrightarrow> map_of (c_inodes c) k \<noteq> None \<or> k = ?i" for k using i(7) n(3) by simp
  show ?case
  proof (cases "i_children (inode t d)")
    case None
    have leaf: "child_of t d x = None" "child_of (c_fs c2) out x = None" for x
      using None i(5) o(3) n(6) by (simp_all add: child_of_def)
    have "tree_copied t c2 d out" unfolding tree_copied_def
    proof
      fix cs
      show "rel_option (\<lambda>x y. map_of (c_inodes c2) (dino t x) = Some (dino (c_fs c2) y) \<and> y < t_nextDent (c_fs c2))
        (trie_follow t d cs) (trie_follow (c_fs c2) out cs)" using leaf o by (cases cs) simp_all
    qed
    moreover have "only_below t d c c2" using new unfolding only_below_def by (metis below_self image_eqI)
    moreover have "cloneDentry (Suc fuel) t par d c = Some (out, c2)" using r nd None same by simp
    ultimately show ?thesis using n(1) k2 by (auto simp: dentry_cloned_def)
  next
    case (Some kvs)
    have ch: "child_of t d x = map_of kvs x" for x using Some by (simp add: child_of_def)
    have dist: "distinct (map fst kvs)" using wf d Some by (auto simp: trie_wf_def nodes_ok_def inode_ok_def names_ok_def)
    have one: "\<forall>m x c0. child_of t d m = Some x \<longrightarrow> pool t c0 \<longrightarrow> unseen t c0 x \<longrightarrow>
        (\<exists>e c'. cloneDentry fuel t (Some out) x c0 = Some (e, c') \<and> dentry_cloned t x c0 e c')"
    proof (intro allI impI)
      fix m x c0
      assume "child_of t d m = Some x" "pool t c0" "unseen t c0 x"
      then show "\<exists>e c'. cloneDentry fuel t (Some out) x c0 = Some (e, c') \<and> dentry_cloned t x c0 e c'"
        using Suc.IH [of "ps @ [m]" x c0 "Some out"] Suc.prems(1,2) by (simp add: follow_snoc)
    qed
    have each: "\<forall>(m, x) \<in> set kvs. child_of t d m = Some x \<and> unseen t c2 x"
    proof (rule ballI, clarify)
      fix m x
      assume "(m, x) \<in> set kvs"
      then have x: "child_of t d m = Some x" using dist ch by simp
      have "map_of (c_inodes c2) (dino t u) = None" if u: "u \<in> below t x" "i_children (inode t u) \<noteq> None" for u
      proof -
        have "u \<in> below t d" using below_trans [OF below_child [OF below_self x] u(1)] .
        then have "map_of (c_inodes c) (dino t u) = None" using Suc.prems(4) u(2) by (simp add: unseen_def)
        moreover have "dino t u \<noteq> ?i" using child_apart [OF wf d _ x u(1)] Some by simp
        ultimately show ?thesis using new [of "dino t u"] by blast
      qed
      then show "child_of t d m = Some x \<and> unseen t c2 x" using x by (simp add: unseen_def)
    qed
    have empty: "i_children (t_inodes (c_fs c2) j) = Some []" using i(5) n(6) Some by simp
    from cloneChildren_spec [OF wf d _ one n(1) o dist each empty] Some
    obtain c3 kv1 where c3: "cloneChildren fuel t out kvs c2 = Some c3" "pool t c3" "retains {j} c2 c3" "i_children (t_inodes (c_fs c3) j) = Some kv1"
      "\<forall>m. map_of kvs m = None \<longrightarrow> map_of kv1 m = None"
      "\<forall>m x. map_of kvs m = Some x \<longrightarrow> (\<exists>e. map_of kv1 m = Some e \<and> tree_copied t c3 x e)" "only_below t d c2 c3" by auto
    have o3: "map_of (c_inodes c3) ?i = Some j" "out < t_nextDent (c_fs c3)" "dino (c_fs c3) out = j" using o c3(3) by (auto simp: retains_def)
    have ch3: "child_of (c_fs c3) out m = map_of kv1 m" for m using o3(3) c3(4) by (simp add: child_of_def)
    have "tree_copied t c3 d out" unfolding tree_copied_def
    proof
      fix cs
      show "rel_option (\<lambda>x y. map_of (c_inodes c3) (dino t x) = Some (dino (c_fs c3) y) \<and> y < t_nextDent (c_fs c3))
        (trie_follow t d cs) (trie_follow (c_fs c3) out cs)"
      proof (cases cs)
        case (Cons m ms)
        show ?thesis
        proof (cases "map_of kvs m")
          case None
          then show ?thesis using c3(5) by (simp add: Cons ch ch3)
        next
          case (Some x)
          then obtain e where "map_of kv1 m = Some e" "tree_copied t c3 x e" using c3(6) by blast
          then show ?thesis using Some by (simp add: Cons ch ch3 tree_copied_def)
        qed
      qed (use o3 in simp)
    qed
    moreover have "retains {} c c3"
    proof -
      have "t_inodes (c_fs c3) k = t_inodes (c_fs c) k" if "k < t_nextInode (c_fs c)" for k
        using k2 c3(3) i(8) Some that by (auto simp: retains_def)
      then show ?thesis using k2 c3(3) by (auto simp: retains_def)
    qed
    moreover have "only_below t d c c3" using c3(7) new unfolding only_below_def by (metis below_self image_eqI)
    moreover have "cloneDentry (Suc fuel) t par d c = Some (out, c3)" using r nd Some c3(1) same by simp
    ultimately show ?thesis using c3(2) by (auto simp: dentry_cloned_def)
  qed
qed

section \<open>Clones\<close>

text \<open>
  (C35) \<open>Clone\<close> returns a file system with the same entries and contents and the same working
  directory, and keeps hard links: two paths of the copy share an inode exactly when they share
  one in the original.
\<close>

theorem trie_Clone_shares:
  assumes "trie_reachable t" and "t_nextDent t \<le> fuel"
  shows "\<exists>t1. tr_Clone fuel t = Some t1 \<and> t_cwd t1 = t_cwd t \<and>
     (\<forall>cs. rel_option (\<lambda>d e. content_of t1 e = content_of t d) (entry_at t cs) (entry_at t1 cs)) \<and>
     (\<forall>cs ds. entry_at t cs \<noteq> None \<longrightarrow> entry_at t ds \<noteq> None \<longrightarrow>
        (inode_at t1 cs = inode_at t1 ds \<longleftrightarrow> inode_at t cs = inode_at t ds))"
proof -
  have wf: "trie_wf t" using assms(1) by (rule trie_reachable_ok)
  let ?c = "\<lparr>c_inodes = [], c_fs = \<lparr>t_cwd = t_cwd t, t_root = 0, t_nextNodeID = t_nextNodeID t,
    t_dents = (\<lambda>_. \<lparr>d_name = '''', d_parent = None, d_inode = 0\<rparr>), t_inodes = (\<lambda>_. blank_inode 0 0), t_nextDent = 0, t_nextInode = 0\<rparr>\<rparr>"
  have "pool t ?c" "unseen t ?c (t_root t)" by (simp_all add: pool_def unseen_def)
  then obtain e c1 where c1: "cloneDentry fuel t None (t_root t) ?c = Some (e, c1)" "pool t c1" "retains {} ?c c1" "tree_copied t c1 (t_root t) e"
    using cloneDentry_spec [OF wf, of "[]" "t_root t" fuel ?c None] assms(2) by (auto simp: dentry_cloned_def)
  define t1 where "t1 = (c_fs c1)\<lparr>t_root := e\<rparr>"
  have "trie_follow t1 x cs = trie_follow (c_fs c1) x cs" for x cs by (rule follow_cong) (simp add: t1_def child_of_def)
  then have e: "rel_option (\<lambda>x y. map_of (c_inodes c1) (dino t x) = Some (dino t1 y)) (entry_at t cs) (entry_at t1 cs)" for cs
    using c1(4) unfolding tree_copied_def by (auto simp: t1_def elim!: allE [of _ cs] option.rel_mono_strong)
  have po: "map_of (c_inodes c1) i = Some j \<Longrightarrow> bare (t_inodes t1 j) = bare (t_inodes t i)"
    "map_of (c_inodes c1) i = Some j \<Longrightarrow> map_of (c_inodes c1) i' = Some j \<Longrightarrow> i = i'" for i i' j
    using c1(2) by (auto simp: pool_def t1_def)
  have "rel_option (\<lambda>d e. content_of t1 e = content_of t d) (entry_at t cs) (entry_at t1 cs)" for cs
    using e [of cs] by (rule option.rel_mono_strong) (use po(1) in \<open>simp add: content_of_def bare_def\<close>)
  moreover have "inode_at t1 cs = inode_at t1 ds \<longleftrightarrow> inode_at t cs = inode_at t ds" if some: "entry_at t cs \<noteq> None" "entry_at t ds \<noteq> None" for cs ds
  proof -
    obtain x y u v where x: "entry_at t cs = Some x" "entry_at t1 cs = Some u" "map_of (c_inodes c1) (dino t x) = Some (dino t1 u)"
      and y: "entry_at t ds = Some y" "entry_at t1 ds = Some v" "map_of (c_inodes c1) (dino t y) = Some (dino t1 v)"
      using some e [of cs] e [of ds] by (auto simp: option_rel_Some1)
    then show ?thesis using po(2) [of "dino t x" "dino t1 v" "dino t y"] by (auto simp: inode_at_def)
  qed
  moreover have "tr_Clone fuel t = Some t1" using c1(1) by (simp add: tr_Clone_def t1_def)
  moreover have "t_cwd t1 = t_cwd t" using c1(3) by (simp add: t1_def retains_def)
  ultimately show ?thesis by blast
qed

theorem trie_Clone_shares_witness:
  "\<exists>t t1. t = snd (tr_Link 5 ''/f'' ''/g'' (snd (tr_Symlink 5 ''x'' ''/f'' (NewTrie 1)))) \<and> tr_Clone 9 t = Some t1 \<and>
     inode_at t1 [''f''] = inode_at t1 [''g'']"
proof -
  let ?t0 = "snd (tr_Symlink 5 ''x'' ''/f'' (NewTrie 1))"
  let ?t = "snd (tr_Link 5 ''/f'' ''/g'' ?t0)"
  have r: "trie_reachable ?t"
    by (rule trie_reachable.step [OF trie_reachable.step [OF trie_reachable.new trie_step.t_symlink [OF surjective_pairing]]
          trie_step.t_link [OF surjective_pairing]])
  have b: "t_nextDent ?t \<le> 9" by code_simp
  from trie_Clone_shares [OF r b] obtain t1 where t1: "tr_Clone 9 ?t = Some t1"
    "\<forall>cs ds. entry_at ?t cs \<noteq> None \<longrightarrow> entry_at ?t ds \<noteq> None \<longrightarrow> (inode_at t1 cs = inode_at t1 ds \<longleftrightarrow> inode_at ?t cs = inode_at ?t ds)"
    by (elim exE conjE)
  have f: "entry_at ?t [''f''] \<noteq> None" by code_simp
  have g: "entry_at ?t [''g''] \<noteq> None" by code_simp
  have i: "inode_at ?t [''f''] = inode_at ?t [''g'']" by code_simp
  have "inode_at t1 [''f''] = inode_at t1 [''g'']" by (rule iffD2 [OF t1(2) [rule_format, OF f g] i])
  with t1(1) show ?thesis by (intro exI [of _ ?t] exI [of _ t1] conjI refl)
qed

end
