(* ===== verification/Reusable.thy ===== *)
theory Reusable
  imports Overlay
begin

text \<open>
  The reusable factory of \<open>fs/reusable.go\<close>: its first call builds a base file system, every call
  returns a new overlay over the one base. \<open>New\<close> takes the lock twice, around the look at the base
  and around its publication, and builds the base in between without the lock, so that calls can
  overlap. The model has one step per section of a call and runs any schedule of calls.
\<close>

section \<open>Calls of New\<close>

text \<open>Where a call of \<open>New\<close> is. The base that it returns is the lower layer of the new overlay.\<close>

datatype 'b caller = Starting | Building | Built 'b | Returned "go_error + 'b"

record 'b reusableFactory =
  rf_base :: "'b option"
  rf_calls :: "nat \<Rightarrow> 'b caller"

definition newReusable :: "'b reusableFactory" where
  "newReusable = \<lparr>rf_base = None, rf_calls = (\<lambda>_. Starting)\<rparr>"

text \<open>
  One section of a call: the look at the base, the creation (its outcome is an argument), the
  publication.
\<close>

fun reusable_section :: "go_error + 'b \<Rightarrow> 'b caller \<Rightarrow> 'b option \<Rightarrow> 'b caller \<times> 'b option" where
  "reusable_section outcome Starting base =
     (case base of Some b \<Rightarrow> (Returned (Inr b), base) | None \<Rightarrow> (Building, base))"
| "reusable_section outcome Building base =
     (case outcome of Inl err \<Rightarrow> (Returned (Inl err), base) | Inr created \<Rightarrow> (Built created, base))"
| "reusable_section outcome (Built created) base =
     (case base of None \<Rightarrow> (Returned (Inr created), Some created) | Some b \<Rightarrow> (Returned (Inr b), base))"
| "reusable_section outcome (Returned r) base = (Returned r, base)"

definition reusable_step :: "nat \<times> (go_error + 'b) \<Rightarrow> 'b reusableFactory \<Rightarrow> 'b reusableFactory" where
  "reusable_step e f =
     (case reusable_section (snd e) (rf_calls f (fst e)) (rf_base f) of
        (c, base) \<Rightarrow> f\<lparr>rf_base := base, rf_calls := (rf_calls f)(fst e := c)\<rparr>)"

definition reusable_run :: "(nat \<times> (go_error + 'b)) list \<Rightarrow> 'b reusableFactory" where
  "reusable_run schedule = fold reusable_step schedule newReusable"

text \<open>The source of the base: the given factory, or the one of the in-memory file system.\<close>

definition reusableSource :: "'f option \<Rightarrow> 'f \<Rightarrow> 'f" where
  "reusableSource source memory = (case source of Some s \<Rightarrow> s | None \<Rightarrow> memory)"

section \<open>One base\<close>

lemma run_snoc: "reusable_run (schedule @ [e]) = reusable_step e (reusable_run schedule)"
  by (simp add: reusable_run_def)

lemma section_base: "reusable_section outcome c base = (c', base') \<Longrightarrow> base = Some b \<Longrightarrow> base' = Some b"
  by (cases c) (auto split: sum.splits)

lemma section_result:
  "reusable_section outcome c base = (Returned (Inr b), base') \<Longrightarrow> (\<And>d. c = Returned (Inr d) \<Longrightarrow> base = Some d) \<Longrightarrow> base' = Some b"
  by (cases c) (auto split: sum.splits option.splits)

lemma returned_base: "rf_calls (reusable_run schedule) i = Returned (Inr b) \<Longrightarrow> rf_base (reusable_run schedule) = Some b"
proof (induction schedule arbitrary: i b rule: rev_induct)
  case (snoc e schedule)
  let ?f = "reusable_run schedule"
  obtain c base where s: "reusable_section (snd e) (rf_calls ?f (fst e)) (rf_base ?f) = (c, base)" by fastforce
  show ?case
  proof (cases "i = fst e")
    case True
    with snoc.prems s have "c = Returned (Inr b)" by (simp add: run_snoc reusable_step_def)
    with s section_result [of "snd e" "rf_calls ?f (fst e)" "rf_base ?f" b base] snoc.IH [of "fst e"]
    show ?thesis by (simp add: run_snoc reusable_step_def)
  next
    case False
    with snoc.prems s have "rf_calls ?f i = Returned (Inr b)" by (simp add: run_snoc reusable_step_def)
    then have "base = Some b" by (rule section_base [OF s snoc.IH])
    with s show ?thesis by (simp add: run_snoc reusable_step_def)
  qed
qed (simp add: reusable_run_def newReusable_def)

lemma returned_stays: "rf_calls f i = Returned r \<Longrightarrow> rf_calls (reusable_step e f) i = Returned r"
  by (cases "fst e = i") (auto simp: reusable_step_def split: prod.splits)

text \<open>How many sections a call still has.\<close>

fun sections_left :: "'b caller \<Rightarrow> nat" where
  "sections_left Starting = 3"
| "sections_left Building = 2"
| "sections_left (Built b) = 1"
| "sections_left (Returned r) = 0"

lemma section_progress: "reusable_section outcome c base = (c', base') \<Longrightarrow> sections_left c' \<le> sections_left c - 1"
  by (cases c) (auto split: sum.splits option.splits)

lemma run_progress: "sections_left (rf_calls (reusable_run schedule) i) \<le> 3 - count_list (map fst schedule) i"
proof (induction schedule rule: rev_induct)
  case (snoc e schedule)
  let ?f = "reusable_run schedule"
  obtain c base where s: "reusable_section (snd e) (rf_calls ?f (fst e)) (rf_base ?f) = (c, base)" by fastforce
  show ?case using snoc section_progress [OF s] s by (auto simp: run_snoc reusable_step_def)
qed (simp add: reusable_run_def newReusable_def)

text \<open>
  (C23) However the calls of a reusable factory overlap, a call that gets three turns has returned, the
  calls that succeed all get the same base, and it stays the factory's base, whatever the
  other calls have built meanwhile.
\<close>

theorem reusable_one_base:
  "(3 \<le> count_list (map fst schedule) i \<longrightarrow> (\<exists>r. rf_calls (reusable_run schedule) i = Returned r)) \<and>
   (rf_calls (reusable_run schedule) i = Returned (Inr b) \<longrightarrow>
      rf_base (reusable_run schedule) = Some b \<and>
      (\<forall>j c. rf_calls (reusable_run (schedule @ later)) j = Returned (Inr c) \<longrightarrow> c = b))"
proof (intro conjI impI allI)
  assume "3 \<le> count_list (map fst schedule) i"
  then have "sections_left (rf_calls (reusable_run schedule) i) = 0" using run_progress [of schedule i] by simp
  then show "\<exists>r. rf_calls (reusable_run schedule) i = Returned r" by (cases "rf_calls (reusable_run schedule) i") simp_all
next
  assume r: "rf_calls (reusable_run schedule) i = Returned (Inr b)"
  then show "rf_base (reusable_run schedule) = Some b" by (rule returned_base)
  have "rf_calls (reusable_run (schedule @ later)) i = Returned (Inr b)"
  proof (induction later rule: rev_induct)
    case (snoc e later)
    then show ?case using returned_stays run_snoc [of "schedule @ later" e] by simp
  qed (simp add: r)
  then have "rf_base (reusable_run (schedule @ later)) = Some b" by (rule returned_base)
  then show "c = b" if "rf_calls (reusable_run (schedule @ later)) j = Returned (Inr c)" for j c
    using returned_base [OF that] by simp
qed

theorem reusable_one_base_witness:
  "rf_calls (reusable_run [(0, Inr 7), (1, Inr 8), (0, Inr 7), (1, Inr 8), (1, Inr 8), (0, Inr 7)]) (0 :: nat) = Returned (Inr (8 :: nat)) \<and>
   rf_base (reusable_run [(0, Inr 7), (1, Inr 8), (0, Inr 7), (1, Inr 8), (1, Inr 8), (0, Inr 7)]) = Some (8 :: nat)"
proof -
  let ?s = "[(0, Inr 7), (1, Inr 8), (0, Inr 7), (1, Inr 8), (1, Inr 8), (0, Inr 7)] :: (nat \<times> (go_error + nat)) list"
  have "rf_calls (reusable_run ?s) 0 = Returned (Inr 8)" by (simp add: reusable_run_def reusable_step_def newReusable_def)
  with reusable_one_base [of ?s 0 8 "[]"] show ?thesis by blast
qed

end
