(* ===== verification/Arith.thy ===== *)
theory Arith
  imports Braces "HOL-Library.Signed_Division"
begin

unbundle bit_operations_syntax

text \<open>
  Arithmetic expansion (\<open>shell/expand/arith.go\<close>): numbers, operators on 64-bit integers, and the
  evaluation of an expression tree with assignments and values that are parsed again. Go's \<open>int\<close>
  is \<open>64 word\<close>. Of a diagnostic its message is represented and not the texts it quotes.
\<close>

section \<open>Numbers\<close>

definition isArithWordChar :: "char \<Rightarrow> bool" where
  "isArithWordChar b =
     (between (CHR ''0'') (CHR ''9'') b \<or> between (CHR ''a'') (CHR ''z'') b \<or> between (CHR ''A'') (CHR ''Z'') b \<or>
      b = CHR ''_'' \<or> b = CHR ''@'')"

definition arithDigitValue :: "int \<Rightarrow> char \<Rightarrow> int option" where
  "arithDigitValue base b =
     (if between (CHR ''0'') (CHR ''9'') b then Some (of_char b - 48)
      else if between (CHR ''a'') (CHR ''z'') b then Some (of_char b - 97 + 10)
      else if between (CHR ''A'') (CHR ''Z'') b then
        (if base \<le> 36 then Some (of_char b - 65 + 10) else Some (of_char b - 65 + 36))
      else if b = CHR ''@'' then Some 62
      else if b = CHR ''_'' then Some 63
      else None)"

text \<open>
  The result of \<open>parseArithNumberPrefix\<close>: the text does not start with a digit, a message, or a
  value with the number of bytes read.
\<close>

datatype number = NoNumber | BadNumber string | Number "64 word" nat

text \<open>The loop over the digits after \<open>base#\<close>: the value and the rest, or a digit that is too great.\<close>

fun base_digits :: "int \<Rightarrow> 64 word \<Rightarrow> string \<Rightarrow> (64 word \<times> string) option" where
  "base_digits base n [] = Some (n, [])"
| "base_digits base n (b # s) =
     (case arithDigitValue base b of
        None \<Rightarrow> Some (n, b # s)
      | Some d \<Rightarrow> if base \<le> d then None else base_digits base (n * of_int base + of_int d) s)"

fun hex_digits :: "64 word \<Rightarrow> string \<Rightarrow> 64 word \<times> string" where
  "hex_digits n [] = (n, [])"
| "hex_digits n (b # s) =
     (case arithDigitValue 16 b of
        None \<Rightarrow> (n, b # s)
      | Some d \<Rightarrow> if 16 \<le> d then (n, b # s) else hex_digits (n * 16 + of_int d) s)"

fun plain_digits :: "int \<Rightarrow> 64 word \<Rightarrow> string \<Rightarrow> (64 word \<times> string) option" where
  "plain_digits base n [] = Some (n, [])"
| "plain_digits base n (b # s) =
     (case digit b of
        None \<Rightarrow> Some (n, b # s)
      | Some d \<Rightarrow> if base \<le> d then None else plain_digits base (n * of_int base + of_int d) s)"

definition number_end :: "nat \<Rightarrow> 64 word \<times> string \<Rightarrow> number" where
  "number_end len r =
     (case r of (n, rest) \<Rightarrow>
        if rest \<noteq> [] \<and> isArithWordChar (hd rest) then BadNumber ''value too great for base'' else Number n (len - length rest))"

definition parseArithNumberPrefix :: "string \<Rightarrow> number" where
  "parseArithNumberPrefix s =
     (if s = [] \<or> digit (hd s) = None then NoNumber
      else
        let basePart = takeWhile (\<lambda>c. digit c \<noteq> None) s; tail = dropWhile (\<lambda>c. digit c \<noteq> None) s
        in if tail \<noteq> [] \<and> hd tail = CHR ''#'' then
             (if 1 < length basePart \<and> hd basePart = CHR ''0'' then BadNumber ''invalid number''
              else (case Atoi basePart of
                      None \<Rightarrow> BadNumber ''invalid number''
                    | Some base \<Rightarrow>
                        if base < 2 \<or> 64 < base \<or> tl tail = [] then BadNumber ''invalid number''
                        else (case base_digits base 0 (tl tail) of
                                None \<Rightarrow> BadNumber ''value too great for base''
                              | Some (n, rest) \<Rightarrow>
                                  if rest = tl tail then BadNumber ''invalid number'' else number_end (length s) (n, rest))))
           else if 2 \<le> length s \<and> hd s = CHR ''0'' \<and> (s ! 1 = CHR ''x'' \<or> s ! 1 = CHR ''X'') then
             (case hex_digits 0 (drop 2 s) of (n, rest) \<Rightarrow>
                if rest = drop 2 s then BadNumber ''value too great for base'' else number_end (length s) (n, rest))
           else
             (case plain_digits (if 1 < length s \<and> hd s = CHR ''0'' then 8 else 10) 0 s of
                None \<Rightarrow> BadNumber ''value too great for base''
              | Some r \<Rightarrow> number_end (length s) r))"

definition arithWhitespace :: "char set" where
  "arithWhitespace = {CHR '' '', CHR 0x09, CHR 0x0A}"

definition trimArithLeftSpace :: "string \<Rightarrow> string" where
  "trimArithLeftSpace s = dropWhile (\<lambda>c. c \<in> arithWhitespace) s"

definition trimArithSpace :: "string \<Rightarrow> string" where
  "trimArithSpace s = rev (dropWhile (\<lambda>c. c \<in> arithWhitespace) (rev (trimArithLeftSpace s)))"

datatype arith_error =
    ArithmSyntaxError
  | ArithmDiagnosticError string
  | ArithmDivByZeroError
  | UnboundVariableError string
  | BadArraySubscriptError string
  | ArithOtherError string

text \<open>The characters after a number that make the rest look like an operand.\<close>

definition operand_start :: "char \<Rightarrow> bool" where
  "operand_start c =
     (between (CHR ''0'') (CHR ''9'') c \<or> asciiLetter c \<or> c = CHR ''_'' \<or> c = CHR 0x27 \<or> c = CHR 0x22)"

definition parseArithNumber :: "string \<Rightarrow> (arith_error + 64 word) option" where
  "parseArithNumber s =
     (case parseArithNumberPrefix s of
        NoNumber \<Rightarrow> None
      | BadNumber msg \<Rightarrow> Some (Inl (ArithmDiagnosticError msg))
      | Number n consumed \<Rightarrow>
          let rest = drop consumed s; trimmed = trimArithLeftSpace rest
          in if trimArithSpace rest = [] then Some (Inr n)
             else if trimmed \<noteq> [] \<and> operand_start (hd trimmed) \<and> rest \<noteq> trimmed
             then Some (Inl (ArithmDiagnosticError ''arithmetic syntax error in expression''))
             else Some (Inl (ArithmDiagnosticError ''arithmetic syntax error: invalid arithmetic operator'')))"

section \<open>Operators\<close>

definition oneIf :: "bool \<Rightarrow> 64 word" where
  "oneIf b = (if b then 1 else 0)"

definition maskedShift :: "64 word \<Rightarrow> nat" where
  "maskedShift n = unat (n AND 63)"

lemma half_less: "0 < sint (b :: 64 word) \<Longrightarrow> sint (signed_drop_bit (Suc 0) b) < sint b"
  by (simp add: sint_signed_drop_bit_eq drop_bit_Suc)

function intPow_loop :: "64 word \<Rightarrow> 64 word \<Rightarrow> 64 word \<Rightarrow> 64 word" where
  "intPow_loop p a b =
     (if 0 < sint b then intPow_loop (if b AND 1 \<noteq> 0 then p * a else p) (a * a) (signed_drop_bit 1 b) else p)"
  by pat_completeness auto
termination
  by (relation "measure (\<lambda>(p, a, b). nat (sint b))") (simp_all add: half_less)

declare intPow_loop.simps [simp del]

definition intPow :: "64 word \<Rightarrow> 64 word \<Rightarrow> 64 word" where
  "intPow a b = intPow_loop 1 a b"

text \<open>Go's division of signed integers truncates; the quotient of the least integer and -1 wraps.\<close>

definition go_quo :: "64 word \<Rightarrow> 64 word \<Rightarrow> 64 word" where
  "go_quo x y = of_int (sint x sdiv sint y)"

definition go_rem :: "64 word \<Rightarrow> 64 word \<Rightarrow> 64 word" where
  "go_rem x y = of_int (sint x smod sint y)"

datatype BinAritOperator =
    Add | Sub | Mul | Quo | Rem | Pow | Eql | Gtr | Lss | Neq | Leq | Geq | And | Or | Xor | Shr | Shl
  | AndArit | OrArit | XorBool | Comma | TernQuest | TernColon
  | Assgn | AddAssgn | SubAssgn | MulAssgn | QuoAssgn | RemAssgn | AndAssgn | OrAssgn | XorAssgn | ShlAssgn | ShrAssgn
  | AndBoolAssgn | OrBoolAssgn | XorBoolAssgn | PowAssgn

datatype UnAritOperator = Not | BitNegation | Inc | Dec | Plus | Minus

fun binArit :: "BinAritOperator \<Rightarrow> 64 word \<Rightarrow> 64 word \<Rightarrow> arith_error + 64 word" where
  "binArit Add x y = Inr (x + y)"
| "binArit Sub x y = Inr (x - y)"
| "binArit Mul x y = Inr (x * y)"
| "binArit Quo x y = Inr (go_quo x y)"
| "binArit Rem x y = Inr (go_rem x y)"
| "binArit Pow x y = (if sint y < 0 then Inl (ArithmDiagnosticError ''exponent less than 0'') else Inr (intPow x y))"
| "binArit Eql x y = Inr (oneIf (x = y))"
| "binArit Gtr x y = Inr (oneIf (sint y < sint x))"
| "binArit Lss x y = Inr (oneIf (sint x < sint y))"
| "binArit Neq x y = Inr (oneIf (x \<noteq> y))"
| "binArit Leq x y = Inr (oneIf (sint x \<le> sint y))"
| "binArit Geq x y = Inr (oneIf (sint y \<le> sint x))"
| "binArit And x y = Inr (x AND y)"
| "binArit Or x y = Inr (x OR y)"
| "binArit Xor x y = Inr (x XOR y)"
| "binArit Shr x y = Inr (signed_drop_bit (maskedShift y) x)"
| "binArit Shl x y = Inr (push_bit (maskedShift y) x)"
| "binArit Comma x y = Inr y"
| "binArit _ x y = Inl (ArithOtherError ''unsupported binary arithmetic operator'')"

text \<open>The accumulator of an assignment operator.\<close>

fun assgn_value :: "BinAritOperator \<Rightarrow> 64 word \<Rightarrow> 64 word \<Rightarrow> arith_error + 64 word" where
  "assgn_value Assgn acc arg = Inr arg"
| "assgn_value AddAssgn acc arg = Inr (acc + arg)"
| "assgn_value SubAssgn acc arg = Inr (acc - arg)"
| "assgn_value MulAssgn acc arg = Inr (acc * arg)"
| "assgn_value QuoAssgn acc arg = (if arg = 0 then Inl (ArithOtherError ''division by 0'') else Inr (go_quo acc arg))"
| "assgn_value RemAssgn acc arg = (if arg = 0 then Inl (ArithOtherError ''division by 0'') else Inr (go_rem acc arg))"
| "assgn_value AndAssgn acc arg = Inr (acc AND arg)"
| "assgn_value OrAssgn acc arg = Inr (acc OR arg)"
| "assgn_value XorAssgn acc arg = Inr (acc XOR arg)"
| "assgn_value ShlAssgn acc arg = Inr (push_bit (maskedShift arg) acc)"
| "assgn_value ShrAssgn acc arg = Inr (signed_drop_bit (maskedShift arg) acc)"
| "assgn_value _ acc arg = Inr acc"

fun unArit :: "UnAritOperator \<Rightarrow> 64 word \<Rightarrow> arith_error + 64 word" where
  "unArit Not val = Inr (oneIf (val = 0))"
| "unArit BitNegation val = Inr (NOT val)"
| "unArit Plus val = Inr val"
| "unArit Minus val = Inr (- val)"
| "unArit _ val = Inl (ArithOtherError ''unsupported unary arithmetic operator'')"

section \<open>Evaluation\<close>

text \<open>
  The syntax tree over opaque words. What the evaluator gets from the parser, from the expansion
  of words and from the variables is the record \<open>arith_lib\<close>. Its functions on the state \<open>'s\<close>
  of the shell can evaluate arithmetic themselves (in subscripts and substitutions), so they get
  the depth of nested evaluations too.
\<close>

datatype 'w arithmExpr =
    WordArithm 'w
  | ParenArithm "'w arithmExpr"
  | UnaryArithm UnAritOperator bool "'w arithmExpr"
  | BinaryArithm BinAritOperator "'w arithmExpr" "'w arithmExpr"

text \<open>
  A variable: whether it is set, whether it counts as zero when it is not, and its value. A parse
  error: whether an operand is missing, and its offset if it has one.
\<close>

record arith_var =
  av_set :: bool
  av_zero :: bool
  av_string :: string

datatype arith_parse_error = ParseError bool "nat option" | OtherParseError

text \<open>
  Of a word: \<open>containsShellExpansion\<close>, \<open>arithWordHasQuotes\<close>, \<open>hasSingleQuote\<close>,
  \<open>isEmptyArithWord\<close>, \<open>Lit\<close>, the source text, \<open>arithmVarRef\<close>, and the expansions
  \<open>Literal\<close>, \<open>Document\<close> and \<open>AssignmentWordLiteral\<close>. Of a text: the parser's \<open>Arithmetic\<close> and
  \<open>parseVarRef\<close>. Of a reference: whether its subscript is empty, its name, \<open>resolveVarRef\<close>, its
  value and assigning to it. Of the shell: the current line, a variable and \<open>NoUnset\<close>. Of an
  expression: its line.
\<close>

record ('w, 'r, 's) arith_lib =
  al_expands :: "'w \<Rightarrow> bool"
  al_quotes :: "'w \<Rightarrow> bool"
  al_single :: "'w \<Rightarrow> bool"
  al_empty :: "'w \<Rightarrow> bool"
  al_lit :: "'w \<Rightarrow> string"
  al_source :: "'w \<Rightarrow> string"
  al_varref :: "'w \<Rightarrow> 'r option"
  al_literal :: "nat \<Rightarrow> 'w \<Rightarrow> 's \<Rightarrow> (arith_error + string) \<times> 's"
  al_document :: "nat \<Rightarrow> 'w \<Rightarrow> 's \<Rightarrow> (arith_error + string) \<times> 's"
  al_assignment :: "nat \<Rightarrow> 'w \<Rightarrow> 's \<Rightarrow> (arith_error + string) \<times> 's"
  al_parse :: "string \<Rightarrow> arith_parse_error + 'w arithmExpr option"
  al_parse_ref :: "string \<Rightarrow> 'r option"
  al_empty_index :: "'r \<Rightarrow> bool"
  al_name :: "'r \<Rightarrow> string"
  al_resolve :: "nat \<Rightarrow> 'r \<Rightarrow> 's \<Rightarrow> (arith_error + 'r \<times> arith_var) \<times> 's"
  al_value :: "nat \<Rightarrow> 'r \<Rightarrow> 's \<Rightarrow> (arith_error + string) \<times> 's"
  al_set :: "nat \<Rightarrow> 'r \<Rightarrow> string \<Rightarrow> 's \<Rightarrow> (arith_error + unit) \<times> 's"
  al_line :: "'s \<Rightarrow> nat"
  al_get :: "string \<Rightarrow> 's \<Rightarrow> arith_var"
  al_nounset :: "'s \<Rightarrow> bool"
  al_pos :: "'w arithmExpr \<Rightarrow> nat"

definition maxArithRecursionDepth :: nat where "maxArithRecursionDepth = 1024"

definition maxNameRefDepth :: nat where "maxNameRefDepth = 100"

fun arithExprUsesExpandedValue :: "('w, 'r, 's) arith_lib \<Rightarrow> 'w arithmExpr \<Rightarrow> bool" where
  "arithExprUsesExpandedValue L (WordArithm w) = al_expands L w"
| "arithExprUsesExpandedValue L (BinaryArithm op x y) = (arithExprUsesExpandedValue L x \<or> arithExprUsesExpandedValue L y)"
| "arithExprUsesExpandedValue L (UnaryArithm op post x) = arithExprUsesExpandedValue L x"
| "arithExprUsesExpandedValue L (ParenArithm x) = arithExprUsesExpandedValue L x"

text \<open>The text of operators, as \<open>String\<close> prints it.\<close>

fun unOp_string :: "UnAritOperator \<Rightarrow> string" where
  "unOp_string Not = ''!''"
| "unOp_string BitNegation = ''~''"
| "unOp_string Inc = ''++''"
| "unOp_string Dec = ''--''"
| "unOp_string Plus = ''+''"
| "unOp_string Minus = ''-''"

fun binOp_string :: "BinAritOperator \<Rightarrow> string" where
  "binOp_string Add = ''+''"
| "binOp_string Sub = ''-''"
| "binOp_string Mul = ''*''"
| "binOp_string Quo = ''/''"
| "binOp_string Rem = ''%''"
| "binOp_string Pow = ''**''"
| "binOp_string Eql = ''==''"
| "binOp_string Gtr = ''>''"
| "binOp_string Lss = ''<''"
| "binOp_string Neq = ''!=''"
| "binOp_string Leq = ''<=''"
| "binOp_string Geq = ''>=''"
| "binOp_string And = ''&''"
| "binOp_string Or = ''|''"
| "binOp_string Xor = ''^''"
| "binOp_string Shr = ''>>''"
| "binOp_string Shl = ''<<''"
| "binOp_string AndArit = ''&&''"
| "binOp_string OrArit = ''||''"
| "binOp_string XorBool = ''^^''"
| "binOp_string Comma = '',''"
| "binOp_string TernQuest = ''?''"
| "binOp_string TernColon = '':''"
| "binOp_string Assgn = ''=''"
| "binOp_string AddAssgn = ''+=''"
| "binOp_string SubAssgn = ''-=''"
| "binOp_string MulAssgn = ''*=''"
| "binOp_string QuoAssgn = ''/=''"
| "binOp_string RemAssgn = ''%=''"
| "binOp_string AndAssgn = ''&=''"
| "binOp_string OrAssgn = ''|=''"
| "binOp_string XorAssgn = ''^=''"
| "binOp_string ShlAssgn = ''<<=''"
| "binOp_string ShrAssgn = ''>>=''"
| "binOp_string AndBoolAssgn = ''&&=''"
| "binOp_string OrBoolAssgn = ''||=''"
| "binOp_string XorBoolAssgn = ''^^=''"
| "binOp_string PowAssgn = ''**=''"

text \<open>
  \<open>arithmRuntimeParse\<close>: an expression with expansions is expanded to text and parsed again; a
  parse that is the literal text again is reported as that text. The source cache makes the
  texts for diagnostics expand no word a second time, so the model expands every word once.
\<close>

fun arithRuntimeSource :: "('w, 'r, 's) arith_lib \<Rightarrow> nat \<Rightarrow> 'w arithmExpr \<Rightarrow> 's \<Rightarrow> (arith_error + string) \<times> 's" where
  "arithRuntimeSource L nest (WordArithm w) s = (if al_expands L w then al_literal L nest w s else (Inr (al_source L w), s))"
| "arithRuntimeSource L nest (BinaryArithm op x y) s =
     (case arithRuntimeSource L nest x s of
        (Inl err, s1) \<Rightarrow> (Inl err, s1)
      | (Inr left, s1) \<Rightarrow>
          (case arithRuntimeSource L nest y s1 of
             (Inl err, s2) \<Rightarrow> (Inl err, s2)
           | (Inr right, s2) \<Rightarrow> (Inr (left @ binOp_string op @ right), s2)))"
| "arithRuntimeSource L nest (UnaryArithm op post x) s =
     (case arithRuntimeSource L nest x s of
        (Inl err, s1) \<Rightarrow> (Inl err, s1)
      | (Inr inner, s1) \<Rightarrow> (Inr (if post then inner @ unOp_string op else unOp_string op @ inner), s1))"
| "arithRuntimeSource L nest (ParenArithm x) s =
     (case arithRuntimeSource L nest x s of
        (Inl err, s1) \<Rightarrow> (Inl err, s1)
      | (Inr inner, s1) \<Rightarrow> (Inr (''('' @ inner @ '')''), s1))"

definition arithHasLeadingInvalidControl :: "string \<Rightarrow> bool" where
  "arithHasLeadingInvalidControl src =
     (let trimmed = trimArithLeftSpace src in trimmed \<noteq> [] \<and> hd trimmed \<in> {CHR 0x0D, CHR 0x0B, CHR 0x0C})"

definition arithParseErrorToken :: "string \<Rightarrow> nat option \<Rightarrow> string" where
  "arithParseErrorToken source pos =
     (case pos of
        None \<Rightarrow> source
      | Some start \<Rightarrow>
          if length source \<le> start then source
          else if 0 < start \<and> source ! (start - 1) \<in> {CHR ''#'', CHR ''['', CHR ''.''} then drop (start - 1) source
          else drop start source)"

definition arithRuntimeErrorToken :: "string \<Rightarrow> nat option \<Rightarrow> string" where
  "arithRuntimeErrorToken source pos =
     (case pos of
        None \<Rightarrow> source
      | Some start \<Rightarrow>
          if length source \<le> start then source
          else dropWhile (\<lambda>c. c = CHR '' '' \<or> c = CHR 0x09) (drop start source))"

definition arithRuntimeIsExpressionError :: "string \<Rightarrow> bool" where
  "arithRuntimeIsExpressionError tokenText =
     (if tokenText = [] then False
      else if asciiLetter (hd tokenText) \<or> hd tokenText \<in> {CHR ''_'', CHR 0x27, CHR 0x22} then True
      else
        let i = dropWhile (\<lambda>c. digit c \<noteq> None) tokenText;
            j = dropWhile (\<lambda>c. c \<in> {CHR '' '', CHR 0x09, CHR 0x0D, CHR 0x0A}) i
        in i \<noteq> tokenText \<and> i \<noteq> [] \<and> j \<noteq> i \<and> j \<noteq> [] \<and> operand_start (hd j))"

definition expression_message :: "string \<Rightarrow> string" where
  "expression_message tokenText =
     (if arithRuntimeIsExpressionError tokenText then ''arithmetic syntax error in expression''
      else ''arithmetic syntax error: invalid arithmetic operator'')"

definition arithRuntimeParseError :: "string \<Rightarrow> arith_parse_error \<Rightarrow> arith_error" where
  "arithRuntimeParseError src e =
     (case e of
        ParseError True pos \<Rightarrow> ArithmDiagnosticError ''arithmetic syntax error: operand expected''
      | ParseError False pos \<Rightarrow> ArithmDiagnosticError (expression_message (arithRuntimeErrorToken src pos))
      | OtherParseError \<Rightarrow> ArithmDiagnosticError ''arithmetic syntax error: invalid arithmetic operator'')"

text \<open>The diagnostic of \<open>arithm\<close> for a word whose source is no expression.\<close>

definition word_parse_error :: "string \<Rightarrow> arith_parse_error \<Rightarrow> arith_error" where
  "word_parse_error src e =
     (case e of
        ParseError True pos \<Rightarrow> ArithmDiagnosticError ''arithmetic syntax error: operand expected''
      | ParseError False pos \<Rightarrow> ArithmDiagnosticError (expression_message (arithParseErrorToken src pos))
      | OtherParseError \<Rightarrow> ArithmDiagnosticError ''arithmetic syntax error: invalid arithmetic operator'')"

text \<open>The word of an expression that is one.\<close>

fun word_of :: "'w arithmExpr \<Rightarrow> 'w option" where
  "word_of (WordArithm w) = Some w"
| "word_of _ = None"

definition arithmRuntimeParse ::
  "('w, 'r, 's) arith_lib \<Rightarrow> nat \<Rightarrow> 'w arithmExpr \<Rightarrow> 's \<Rightarrow> (arith_error + 'w arithmExpr option \<times> string) \<times> 's" where
  "arithmRuntimeParse L nest e s =
     (if \<not> arithExprUsesExpandedValue L e then (Inr (None, ''''), s)
      else (case arithRuntimeSource L nest e s of
              (Inl err, s1) \<Rightarrow> (Inl err, s1)
            | (Inr src, s1) \<Rightarrow>
                if arithHasLeadingInvalidControl src then (Inl (ArithmDiagnosticError ''arithmetic syntax error: operand expected''), s1)
                else (case al_parse L src of
                        Inl err \<Rightarrow> (Inl (arithRuntimeParseError src err), s1)
                      | Inr None \<Rightarrow> (Inr (None, ''''), s1)
                      | Inr (Some parsed) \<Rightarrow>
                          if map_option (al_lit L) (word_of parsed) = Some src then (Inr (None, src), s1)
                          else (Inr (Some parsed, src), s1))))"

definition ValidName :: "string \<Rightarrow> bool" where
  "ValidName val =
     (val \<noteq> [] \<and> list_all (\<lambda>c. asciiLetter c \<or> c = CHR ''_'' \<or> digit c \<noteq> None) val \<and> digit (hd val) = None)"

text \<open>\<open>enterArith\<close>: the counter of nested evaluations is the argument \<open>nest\<close> of what is entered.\<close>

definition enterArith :: "nat \<Rightarrow> nat \<Rightarrow> arith_error + nat" where
  "enterArith limit nest =
     (if limit \<le> nest then Inl (ArithmDiagnosticError ''expression recursion level exceeded'') else Inr (Suc nest))"

text \<open>
  The loop of \<open>arithmStringValue\<close> that follows variable names: an early result (\<open>Inl\<close>), or the
  text to evaluate.
\<close>

function follow_names :: "('w, 'r, 's) arith_lib \<Rightarrow> 's \<Rightarrow> nat \<Rightarrow> string \<Rightarrow> (arith_error + 64 word) + string" where
  "follow_names L s i name =
     (if ValidName name then
        let vr = al_get L name s
        in if \<not> av_set vr then
             (if al_nounset L s then Inl (if av_zero vr then Inr 0 else Inl (UnboundVariableError name)) else Inr name)
           else if av_string vr = '''' then Inr name
           else if maxNameRefDepth \<le> Suc i then Inr name
           else follow_names L s (Suc i) (av_string vr)
      else Inr name)"
  by pat_completeness auto
termination
  by (relation "measure (\<lambda>(L, s, i, name). maxNameRefDepth - i)") auto

declare follow_names.simps [simp del]

datatype arithLValueMode = arithLValueReadModifyWrite | arithLValuePlainAssign

definition is_assgn :: "BinAritOperator \<Rightarrow> bool" where
  "is_assgn op =
     (op \<in> {Assgn, AddAssgn, SubAssgn, MulAssgn, QuoAssgn, RemAssgn, AndAssgn, OrAssgn, XorAssgn, ShlAssgn, ShrAssgn})"

text \<open>
  The first half of \<open>arithmLValue\<close>: the reference that an expression names, with the variable it
  resolves to.
\<close>

definition lvalue_ref :: "('w, 'r, 's) arith_lib \<Rightarrow> nat \<Rightarrow> 'w arithmExpr \<Rightarrow> 's \<Rightarrow> (arith_error + 'r \<times> arith_var) \<times> 's" where
  "lvalue_ref L nest e s =
     (case word_of e of
        None \<Rightarrow> (Inl (ArithmDiagnosticError ''attempted assignment to non-variable''), s)
      | Some w \<Rightarrow>
          (case al_varref L w of
             Some ref \<Rightarrow> al_resolve L nest ref s
           | None \<Rightarrow>
               (case (if \<not> al_expands L w then (Inr (al_source L w), s) else al_literal L nest w s) of
                  (Inl err, s1) \<Rightarrow> (Inl err, s1)
                | (Inr txt, s1) \<Rightarrow>
                    (case al_parse_ref L txt of
                       None \<Rightarrow> (Inl (ArithmDiagnosticError ''arithmetic syntax error: invalid arithmetic operator''), s1)
                     | Some ref \<Rightarrow> if al_empty_index L ref then (Inl (BadArraySubscriptError txt), s1) else al_resolve L nest ref s1))))"

text \<open>The line that \<open>LINENO\<close> stands for.\<close>

definition lineno :: "('w, 'r, 's) arith_lib \<Rightarrow> 'w arithmExpr \<Rightarrow> 's \<Rightarrow> nat" where
  "lineno L tokenExpr s = (if al_line L s \<noteq> 0 then al_line L s else al_pos L tokenExpr)"

text \<open>
  A word is checked before it is expanded: no single quotes, and its source has to be an
  expression when nothing in it expands.
\<close>

definition check_word :: "('w, 'r, 's) arith_lib \<Rightarrow> 'w \<Rightarrow> arith_error option" where
  "check_word L w =
     (if al_single L w then Some ArithmSyntaxError
      else if \<not> al_expands L w then
        (case al_parse L (al_source L w) of Inl err \<Rightarrow> Some (word_parse_error (al_source L w) err) | Inr _ \<Rightarrow> None)
      else None)"

text \<open>A word that the runtime parse has already expanded to a plain literal.\<close>

definition expanded_literal :: "('w, 'r, 's) arith_lib \<Rightarrow> 'w arithmExpr \<Rightarrow> string \<Rightarrow> bool" where
  "expanded_literal L e src = (case word_of e of Some w \<Rightarrow> src \<noteq> '''' \<and> \<not> al_quotes L w | None \<Rightarrow> False)"

function arithm :: "('w, 'r, 's) arith_lib \<Rightarrow> nat \<Rightarrow> 'w arithmExpr \<Rightarrow> nat \<Rightarrow> 's \<Rightarrow> (arith_error + 64 word) \<times> 's"
  and arithm_switch :: "('w, 'r, 's) arith_lib \<Rightarrow> nat \<Rightarrow> 'w arithmExpr \<Rightarrow> nat \<Rightarrow> 's \<Rightarrow> (arith_error + 64 word) \<times> 's"
  and arithmStringValue :: "('w, 'r, 's) arith_lib \<Rightarrow> nat \<Rightarrow> 'w arithmExpr \<Rightarrow> 'w option \<Rightarrow> string \<Rightarrow> nat \<Rightarrow> 's \<Rightarrow> (arith_error + 64 word) \<times> 's"
  and arithmLValue :: "('w, 'r, 's) arith_lib \<Rightarrow> nat \<Rightarrow> 'w arithmExpr \<Rightarrow> arithLValueMode \<Rightarrow> 's \<Rightarrow> (arith_error + 'r \<times> 64 word) \<times> 's"
  and assgnArit :: "('w, 'r, 's) arith_lib \<Rightarrow> nat \<Rightarrow> BinAritOperator \<Rightarrow> 'w arithmExpr \<Rightarrow> 'w arithmExpr \<Rightarrow> 's \<Rightarrow> (arith_error + 64 word) \<times> 's" where
  "arithm L nest e depth s =
     (case (if depth \<le> maxNameRefDepth then arithmRuntimeParse L nest e s else (Inr (None, ''''), s)) of
        (Inl err, s1) \<Rightarrow> (Inl err, s1)
      | (Inr (Some parsed, src), s1) \<Rightarrow>
          (case enterArith maxArithRecursionDepth nest of
             Inl err \<Rightarrow> (Inl err, s1)
           | Inr nest1 \<Rightarrow> arithm L nest1 parsed (Suc depth) s1)
      | (Inr (None, src), s1) \<Rightarrow>
          if expanded_literal L e src then arithmStringValue L nest e (word_of e) src depth s1
          else arithm_switch L nest e depth s1)"
| "arithm_switch L nest (WordArithm w) depth s =
     (case check_word L w of
        Some err \<Rightarrow> (Inl err, s)
      | None \<Rightarrow>
          (case al_document L nest w s of
             (Inl err, s1) \<Rightarrow> (Inl err, s1)
           | (Inr str, s1) \<Rightarrow> arithmStringValue L nest (WordArithm w) (Some w) str depth s1))"
| "arithm_switch L nest (ParenArithm x) depth s = arithm L nest x depth s"
| "arithm_switch L nest (UnaryArithm op post x) depth s =
     (if op = Inc \<or> op = Dec then
        (case arithmLValue L nest x arithLValueReadModifyWrite s of
           (Inl err, s1) \<Rightarrow> (Inl err, s1)
         | (Inr (ref, old), s1) \<Rightarrow>
             let val = (if op = Inc then old + 1 else old - 1)
             in (case al_set L nest ref (Itoa (sint val)) s1 of
                   (Inl err, s2) \<Rightarrow> (Inl err, s2)
                 | (Inr _, s2) \<Rightarrow> (Inr (if post then old else val), s2)))
      else
        (case arithm L nest x depth s of
           (Inl err, s1) \<Rightarrow> (Inl err, s1)
         | (Inr val, s1) \<Rightarrow> (unArit op val, s1)))"
| "arithm_switch L nest (BinaryArithm op x y) depth s =
     (if is_assgn op then assgnArit L nest op x y s
      else if op = TernQuest then
        (case arithm L nest x depth s of
           (Inl err, s1) \<Rightarrow> (Inl err, s1)
         | (Inr cond, s1) \<Rightarrow>
             (case y of
                BinaryArithm colon x2 y2 \<Rightarrow> if cond \<noteq> 0 then arithm L nest x2 depth s1 else arithm L nest y2 depth s1
              | _ \<Rightarrow> (Inl (ArithOtherError ''panic''), s1)))
      else
        (case arithm L nest x depth s of
           (Inl err, s1) \<Rightarrow> (Inl err, s1)
         | (Inr left, s1) \<Rightarrow>
             if op = AndArit \<and> left = 0 then (Inr 0, s1)
             else if op = OrArit \<and> left \<noteq> 0 then (Inr 1, s1)
             else (case arithm L nest y depth s1 of
                     (Inl err, s2) \<Rightarrow> (Inl err, s2)
                   | (Inr right, s2) \<Rightarrow>
                       if op = AndArit \<or> op = OrArit then (Inr (oneIf (right \<noteq> 0)), s2)
                       else if right = 0 \<and> (op = Quo \<or> op = Rem) then (Inl ArithmDivByZeroError, s2)
                       else (binArit op left right, s2))))"
| "arithmStringValue L nest tokenExpr word str depth s =
     (let t = trimArithSpace str
      in if t = '''' \<or> (case word of Some w \<Rightarrow> al_empty L w | None \<Rightarrow> False) then (Inr 0, s)
         else if t = ''LINENO'' \<and> lineno L tokenExpr s \<noteq> 0 then (Inr (of_nat (lineno L tokenExpr s)), s)
         else (case follow_names L s 0 t of
                 Inl r \<Rightarrow> (r, s)
               | Inr u \<Rightarrow>
                   (case (case al_parse L u of
                            Inr (Some nested) \<Rightarrow> if map_option (al_lit L) (word_of nested) = Some u then None else Some nested
                          | _ \<Rightarrow> None) of
                      Some nested \<Rightarrow>
                        (case enterArith maxArithRecursionDepth nest of
                           Inl err \<Rightarrow> (Inl err, s)
                         | Inr nest1 \<Rightarrow> arithm L nest1 nested (Suc depth) s)
                    | None \<Rightarrow> (case parseArithNumber u of Some r \<Rightarrow> (r, s) | None \<Rightarrow> (Inr 0, s)))))"
| "arithmLValue L nest e mode s =
     (case lvalue_ref L nest e s of
        (Inl err, s1) \<Rightarrow> (Inl err, s1)
      | (Inr (ref, vr), s1) \<Rightarrow>
             if al_nounset L s1 \<and> \<not> av_set vr then
               (if mode = arithLValuePlainAssign \<or> av_zero vr then (Inr (ref, 0), s1)
                else (Inl (UnboundVariableError (al_name L ref)), s1))
             else (case al_value L nest ref s1 of
                     (Inl err, s2) \<Rightarrow> (Inl err, s2)
                   | (Inr val, s2) \<Rightarrow>
                       (case arithmStringValue L nest e None val 0 s2 of
                          (Inl err, s3) \<Rightarrow> (Inl err, s3)
                        | (Inr n, s3) \<Rightarrow> (Inr (ref, n), s3))))"
| "assgnArit L nest op x y s =
     (case arithmLValue L nest x (if op = Assgn then arithLValuePlainAssign else arithLValueReadModifyWrite) s of
        (Inl err, s1) \<Rightarrow> (Inl err, s1)
      | (Inr (ref, val), s1) \<Rightarrow>
          (case arithm L nest y 0 s1 of
             (Inl err, s2) \<Rightarrow> (Inl err, s2)
           | (Inr arg, s2) \<Rightarrow>
               (case assgn_value op val arg of
                  Inl err \<Rightarrow> (Inl err, s2)
                | Inr acc \<Rightarrow>
                    (case al_set L nest ref (Itoa (sint acc)) s2 of
                       (Inl err, s3) \<Rightarrow> (Inl err, s3)
                     | (Inr _, s3) \<Rightarrow> (Inr acc, s3)))))"
  by pat_completeness auto
termination
  by (relation "measures
      [case_sum (case_sum (\<lambda>(L, nest, e, depth, s). maxArithRecursionDepth - nest) (\<lambda>(L, nest, e, depth, s). maxArithRecursionDepth - nest))
         (case_sum (\<lambda>(L, nest, tok, w, str, depth, s). maxArithRecursionDepth - nest)
           (case_sum (\<lambda>(L, nest, e, mode, s). maxArithRecursionDepth - nest) (\<lambda>(L, nest, op, x, y, s). maxArithRecursionDepth - nest))),
       case_sum (case_sum (\<lambda>(L, nest, e, depth, s). 4 * size e + 3) (\<lambda>(L, nest, e, depth, s). 4 * size e + 2))
         (case_sum (\<lambda>(L, nest, tok, w, str, depth, s). 0)
           (case_sum (\<lambda>(L, nest, e, mode, s). 4 * size e + 1) (\<lambda>(L, nest, op, x, y, s). 4 * (size x + size y) + 5)))]")
    (auto simp: enterArith_def split: if_splits)

declare arithm.simps [simp del] arithm_switch.simps [simp del] arithmStringValue.simps [simp del] arithmLValue.simps [simp del] assgnArit.simps [simp del]

text \<open>\<open>Arithm\<close>, where evaluations of subscripts enter.\<close>

definition Arithm :: "('w, 'r, 's) arith_lib \<Rightarrow> nat \<Rightarrow> 'w arithmExpr \<Rightarrow> 's \<Rightarrow> (arith_error + 64 word) \<times> 's" where
  "Arithm L nest e s =
     (case enterArith (2 * maxArithRecursionDepth) nest of
        Inl err \<Rightarrow> (Inl err, s)
      | Inr nest1 \<Rightarrow> arithm L nest1 e 0 s)"

text \<open>\<open>ArithmLet\<close>: the expression is turned to text after quote removal and parsed again.\<close>

fun arithmLetSource :: "('w, 'r, 's) arith_lib \<Rightarrow> nat \<Rightarrow> 'w arithmExpr \<Rightarrow> 's \<Rightarrow> (arith_error + string) \<times> 's" where
  "arithmLetSource L nest (WordArithm w) s = al_assignment L nest w s"
| "arithmLetSource L nest (BinaryArithm op x y) s =
     (case arithmLetSource L nest x s of
        (Inl err, s1) \<Rightarrow> (Inl err, s1)
      | (Inr left, s1) \<Rightarrow>
          (case arithmLetSource L nest y s1 of
             (Inl err, s2) \<Rightarrow> (Inl err, s2)
           | (Inr right, s2) \<Rightarrow> (Inr (left @ binOp_string op @ right), s2)))"
| "arithmLetSource L nest (UnaryArithm op post x) s =
     (case arithmLetSource L nest x s of
        (Inl err, s1) \<Rightarrow> (Inl err, s1)
      | (Inr inner, s1) \<Rightarrow> (Inr (if post then inner @ unOp_string op else unOp_string op @ inner), s1))"
| "arithmLetSource L nest (ParenArithm x) s =
     (case arithmLetSource L nest x s of
        (Inl err, s1) \<Rightarrow> (Inl err, s1)
      | (Inr inner, s1) \<Rightarrow> (Inr (''('' @ inner @ '')''), s1))"

definition arithmLetParse ::
  "('w, 'r, 's) arith_lib \<Rightarrow> nat \<Rightarrow> 'w arithmExpr \<Rightarrow> 's \<Rightarrow> (arith_error + 'w arithmExpr option) \<times> 's" where
  "arithmLetParse L nest e s =
     (case arithmLetSource L nest e s of
        (Inl err, s1) \<Rightarrow> (Inl err, s1)
      | (Inr src, s1) \<Rightarrow>
          if arithHasLeadingInvalidControl src then (Inl (ArithmDiagnosticError ''arithmetic syntax error: operand expected''), s1)
          else (case al_parse L src of
                  Inl err \<Rightarrow> (Inl (arithRuntimeParseError src err), s1)
                | Inr parsed \<Rightarrow> (Inr parsed, s1)))"

definition ArithmLet :: "('w, 'r, 's) arith_lib \<Rightarrow> nat \<Rightarrow> 'w arithmExpr option \<Rightarrow> 's \<Rightarrow> (arith_error + 64 word) \<times> 's" where
  "ArithmLet L nest e s =
     (case e of
        None \<Rightarrow> (Inr 0, s)
      | Some x \<Rightarrow>
          (case arithmLetParse L nest x s of
             (Inl err, s1) \<Rightarrow> (Inl err, s1)
           | (Inr None, s1) \<Rightarrow> (Inr 0, s1)
           | (Inr (Some parsed), s1) \<Rightarrow> Arithm L nest parsed s1))"

end
