(* ===== verification/Arith_Props.thy ===== *)
theory Arith_Props
  imports Arith
begin

text \<open>
  The arithmetic of the shell against the integers: powers, the printing and reading of numbers,
  evaluation without overflow, and the two loops through the variables: a value that is assigned
  is read back, a value that refers to itself ends in an error.
\<close>

section \<open>Powers\<close>

lemma and_one_odd: "(b :: 64 word) AND 1 \<noteq> 0 \<longleftrightarrow> odd (sint b)"
proof -
  have "b AND 1 = of_bool (odd b)" by (simp add: and_one_eq mod_2_eq_odd)
  moreover have "odd b \<longleftrightarrow> odd (sint b)" using bit_sint_iff [of b 0] by (simp add: bit_0)
  ultimately show ?thesis by simp
qed

lemma intPow_loop_power: "0 \<le> sint b \<Longrightarrow> intPow_loop p a b = p * a ^ nat (sint b)"
proof (induction p a b rule: intPow_loop.induct)
  case (1 p a b)
  show ?case
  proof (cases "0 < sint b")
    case True
    let ?h = "signed_drop_bit 1 b"
    have h: "sint ?h = sint b div 2" by (simp add: sint_signed_drop_bit_eq drop_bit_Suc)
    then have ih: "intPow_loop (if b AND 1 \<noteq> 0 then p * a else p) (a * a) ?h = (if b AND 1 \<noteq> 0 then p * a else p) * (a * a) ^ nat (sint b div 2)"
      using "1.IH" [OF True] True by simp
    have n: "nat (sint b) = 2 * nat (sint b div 2) + (if odd (sint b) then 1 else 0)"
      using True by (cases "odd (sint b)") (auto elim!: oddE evenE simp: nat_mult_distrib nat_add_distrib)
    show ?thesis
      using True ih by (subst intPow_loop.simps) (simp add: and_one_odd n power_mult power2_eq_square power_add)
  next
    case False
    with "1.prems" show ?thesis by (subst intPow_loop.simps) simp
  qed
qed

text \<open>Square-and-multiply computes the power, modulo 2 to the power 64.\<close>

lemma intPow_power: "0 \<le> sint b \<Longrightarrow> intPow a b = a ^ nat (sint b)"
  by (simp add: intPow_def intPow_loop_power)

section \<open>Printing and reading\<close>

lemma char_leq_int: "a \<le> (b :: char) \<longleftrightarrow> (of_char a :: int) \<le> of_char b"
  by (metis less_eq_char_def of_nat_of_char of_nat_le_iff)

lemma digit_char: "0 \<le> d \<Longrightarrow> d < 10 \<Longrightarrow> digit (char_of (48 + d)) = Some d"
proof -
  assume "0 \<le> d" "d < 10"
  then have "of_char (char_of (48 + d) :: char) = 48 + d" by simp
  then show ?thesis using \<open>0 \<le> d\<close> \<open>d < 10\<close> by (simp add: digit_def char_leq_int)
qed

lemma nat_digits_digit: "0 \<le> n \<Longrightarrow> list_all (\<lambda>c. digit c \<noteq> None) (nat_digits n)"
proof (induction n rule: nat_digits.induct)
  case (1 n)
  then show ?case by (subst nat_digits.simps) (auto simp: digit_char)
qed

lemma nat_digits_nonempty [simp]: "nat_digits n \<noteq> []"
  by (subst nat_digits.simps) simp

lemma nat_digits_leading: "0 < n \<Longrightarrow> hd (nat_digits n) \<noteq> CHR ''0''"
proof (induction n rule: nat_digits.induct)
  case (1 n)
  have "char_of (48 + n) \<noteq> CHR ''0''" if "n < 10"
    using digit_char [of n] that 1(2) by (auto simp: digit_def)
  then show ?case using 1 by (subst nat_digits.simps) (auto simp: hd_append)
qed

lemma plain_digits_append:
  "plain_digits base n (xs @ ys) = (case plain_digits base n xs of Some (m, []) \<Rightarrow> plain_digits base m ys | Some (m, r) \<Rightarrow> Some (m, r @ ys) | None \<Rightarrow> None)"
  by (induction xs arbitrary: n) (auto split: option.splits)

lemma plain_digits_value: "0 \<le> n \<Longrightarrow> plain_digits 10 0 (nat_digits n) = Some (of_int n, [])"
proof (induction n rule: nat_digits.induct)
  case (1 n)
  show ?case
  proof (cases "n < 10")
    case True
    then show ?thesis using 1(2) by (subst nat_digits.simps) (simp add: digit_char)
  next
    case False
    have "(of_int (n div 10) :: 64 word) * 10 + of_int (n mod 10) = of_int (n div 10 * 10 + n mod 10)" by (simp only: of_int_add of_int_mult) simp
    then show ?thesis
      using False 1 by (subst nat_digits.simps) (simp add: plain_digits_append digit_char div_mult_mod_eq)
  qed
qed

text \<open>A number that is printed is read as itself, modulo 2 to the power 64.\<close>

lemma read_printed: "0 \<le> n \<Longrightarrow> parseArithNumber (nat_digits n) = Some (Inr (of_int n))"
proof -
  assume n: "0 \<le> n"
  let ?s = "nat_digits n"
  note d = nat_digits_digit [OF n]
  have tw: "takeWhile (\<lambda>c. digit c \<noteq> None) ?s = ?s" "dropWhile (\<lambda>c. digit c \<noteq> None) ?s = []" using d by (auto simp: list_all_iff)
  have hd: "digit (hd ?s) \<noteq> None" using d by (simp add: list_all_iff)
  have second: "\<not> (2 \<le> length ?s \<and> (?s ! 1 = CHR ''x'' \<or> ?s ! 1 = CHR ''X''))"
  proof
    assume a: "2 \<le> length ?s \<and> (?s ! 1 = CHR ''x'' \<or> ?s ! 1 = CHR ''X'')"
    then have "digit (?s ! 1) \<noteq> None" using d by (simp add: list_all_length)
    with a show False by (auto simp: digit_def)
  qed
  have "1 < length ?s \<Longrightarrow> hd ?s \<noteq> CHR ''0''"
    using nat_digits_leading [of n] n by (cases "n = 0") (auto simp: nat_digits.simps [of 0])
  then have "parseArithNumberPrefix ?s = Number (of_int n) (length ?s)"
    using hd tw second plain_digits_value [OF n] by (auto simp: parseArithNumberPrefix_def Let_def number_end_def)
  then show ?thesis by (simp add: parseArithNumber_def trimArithSpace_def trimArithLeftSpace_def)
qed

section \<open>The words of an expression\<close>

text \<open>
  What the theorems rely on of the parser and of expansion: a word that is one literal expands to
  its text, and the parser reads a decimal number as such a word and a number with a sign as the
  negation of one.
\<close>

definition literal_word :: "('w, 'r, 's) arith_lib \<Rightarrow> 'w \<Rightarrow> string \<Rightarrow> bool" where
  "literal_word L w t =
     (\<not> al_expands L w \<and> \<not> al_single L w \<and> \<not> al_empty L w \<and> al_source L w = t \<and> al_lit L w = t \<and>
      (\<exists>e. al_parse L t = Inr e) \<and> (\<forall>nest s. al_document L nest w s = (Inr t, s)))"

definition reads_numbers :: "('w, 'r, 's) arith_lib \<Rightarrow> bool" where
  "reads_numbers L =
     (\<forall>n \<ge> 0.
        (\<exists>w. al_parse L (nat_digits n) = Inr (Some (WordArithm w)) \<and> literal_word L w (nat_digits n)) \<and>
        (\<exists>w. al_parse L (''-'' @ nat_digits n) = Inr (Some (UnaryArithm Minus False (WordArithm w))) \<and>
             literal_word L w (nat_digits n)))"

text \<open>A variable with the value of a number, and a word that stands for a number.\<close>

definition variable_holds :: "('w, 'r, 's) arith_lib \<Rightarrow> 's \<Rightarrow> string \<Rightarrow> string \<Rightarrow> bool" where
  "variable_holds L s x t =
     (ValidName x \<and> x \<noteq> ''LINENO'' \<and> av_set (al_get L x s) \<and> av_string (al_get L x s) = t)"

definition number_operand :: "('w, 'r, 's) arith_lib \<Rightarrow> 's \<Rightarrow> 'w \<Rightarrow> int \<Rightarrow> bool" where
  "number_operand L s w n =
     (\<exists>t. literal_word L w t \<and> (0 \<le> n \<and> t = nat_digits n \<or> variable_holds L s t (Itoa n)))"

lemma digit_no_space: "digit c \<noteq> None \<Longrightarrow> c \<notin> arithWhitespace"
  by (auto simp: digit_def arithWhitespace_def split: if_splits)

lemma name_no_space: "asciiLetter c \<or> c = CHR ''_'' \<or> digit c \<noteq> None \<Longrightarrow> c \<notin> arithWhitespace"
  by (auto simp: digit_def asciiLetter_def arithWhitespace_def split: if_splits)

lemma trim_none: "list_all (\<lambda>c. c \<notin> arithWhitespace) t \<Longrightarrow> trimArithSpace t = t"
proof -
  have drop: "dropWhile (\<lambda>c. c \<in> arithWhitespace) u = u" if "list_all (\<lambda>c. c \<notin> arithWhitespace) u" for u
    using that by (cases u) auto
  assume "list_all (\<lambda>c. c \<notin> arithWhitespace) t"
  then show ?thesis by (simp add: trimArithSpace_def trimArithLeftSpace_def drop)
qed

lemma trim_digits [simp]: "0 \<le> n \<Longrightarrow> trimArithSpace (nat_digits n) = nat_digits n"
  using nat_digits_digit [of n] digit_no_space by (intro trim_none) (auto simp: list_all_iff)

lemma trim_Itoa [simp]: "trimArithSpace (Itoa n) = Itoa n"
  using nat_digits_digit [of "\<bar>n\<bar>"] digit_no_space
  by (intro trim_none) (auto simp: list_all_iff Itoa_def arithWhitespace_def)

lemma trim_name [simp]: "ValidName x \<Longrightarrow> trimArithSpace x = x"
  using name_no_space by (intro trim_none) (auto simp: list_all_iff ValidName_def)

lemma Itoa_nonempty [simp]: "Itoa n \<noteq> []"
  by (simp add: Itoa_def)

lemma digits_no_name [simp]: "0 \<le> n \<Longrightarrow> \<not> ValidName (nat_digits n)"
proof -
  assume "0 \<le> n"
  then have "digit (hd (nat_digits n)) \<noteq> None" using nat_digits_digit [of n] by (simp add: list_all_iff)
  then show ?thesis by (simp add: ValidName_def)
qed

lemma Itoa_no_name [simp]: "\<not> ValidName (Itoa n)"
proof (cases "n < 0")
  case True
  then show ?thesis by (simp add: Itoa_def ValidName_def asciiLetter_def digit_def)
qed (simp add: Itoa_def)

lemma name_LINENO: "ValidName ''LINENO''"
  by (simp add: ValidName_def asciiLetter_def digit_def)

lemma Itoa_no_LINENO [simp]: "Itoa n \<noteq> ''LINENO''" "0 \<le> n \<Longrightarrow> nat_digits n \<noteq> ''LINENO''"
  using name_LINENO Itoa_no_name [of n] digits_no_name [of n] by metis+

lemma follow_no_name [simp]: "\<not> ValidName t \<Longrightarrow> follow_names L s i t = Inr t"
  by (simp add: follow_names.simps)

lemma follow_variable:
  "variable_holds L s x t \<Longrightarrow> t \<noteq> '''' \<Longrightarrow> \<not> ValidName t \<Longrightarrow> follow_names L s 0 x = Inr t"
  by (subst follow_names.simps) (simp add: variable_holds_def maxNameRefDepth_def)

lemma name_nonempty: "ValidName x \<Longrightarrow> x \<noteq> []"
  by (simp add: ValidName_def)

section \<open>Evaluating numbers\<close>

lemma arithm_plain: "\<not> arithExprUsesExpandedValue L e \<Longrightarrow> arithm L nest e depth s = arithm_switch L nest e depth s"
  by (auto simp: arithm.simps [of L nest e] arithmRuntimeParse_def expanded_literal_def split: option.splits)

lemma arithm_literal:
  assumes "literal_word L w t"
  shows "arithm L nest (WordArithm w) depth s = arithmStringValue L nest (WordArithm w) (Some w) t depth s"
  using assms by (auto simp: arithm_plain literal_word_def arithm_switch.simps check_word_def)

lemma value_digits:
  assumes "reads_numbers L" "0 \<le> n" "\<forall>w. word = Some w \<longrightarrow> \<not> al_empty L w"
  shows "arithmStringValue L nest e word (nat_digits n) depth s = (Inr (of_int n), s)"
proof -
  obtain w where "al_parse L (nat_digits n) = Inr (Some (WordArithm w))" "al_lit L w = nat_digits n"
    using assms by (auto simp: reads_numbers_def literal_word_def)
  then show ?thesis
    using assms(2,3) by (auto simp: arithmStringValue.simps read_printed split: option.splits)
qed

text \<open>The text that follows the names of variables, when it is a number.\<close>

lemma value_follows:
  assumes L: "reads_numbers L" and nest: "nest < maxArithRecursionDepth"
    and word: "\<forall>w. word = Some w \<longrightarrow> \<not> al_empty L w"
    and t: "trimArithSpace t = t" "t \<noteq> ''''" "t \<noteq> ''LINENO''" "follow_names L s 0 t = Inr (Itoa n)"
  shows "arithmStringValue L nest e word t depth s = (Inr (of_int n), s)"
proof (cases "0 \<le> n")
  case True
  then obtain w where "al_parse L (nat_digits n) = Inr (Some (WordArithm w))" "al_lit L w = nat_digits n"
    using L by (auto simp: reads_numbers_def literal_word_def)
  with True show ?thesis
    using t word by (auto simp: arithmStringValue.simps Itoa_def read_printed split: option.splits)
next
  case False
  then have "0 \<le> - n" by simp
  then obtain w where w: "al_parse L (''-'' @ nat_digits (- n)) = Inr (Some (UnaryArithm Minus False (WordArithm w)))"
      "literal_word L w (nat_digits (- n))"
    using L unfolding reads_numbers_def by blast
  have "\<not> al_expands L w" "\<not> al_empty L w" using w(2) by (auto simp: literal_word_def)
  then have "arithm L (Suc nest) (UnaryArithm Minus False (WordArithm w)) (Suc depth) s = (Inr (of_int n), s)"
    using False by (simp add: arithm_plain arithm_switch.simps arithm_literal [OF w(2)] value_digits [OF L])
  with False show ?thesis
    using t word nest w(1) by (auto simp: arithmStringValue.simps Itoa_def enterArith_def split: option.splits)
qed

lemma value_variable:
  assumes "reads_numbers L" "nest < maxArithRecursionDepth" "literal_word L w x" "variable_holds L s x (Itoa n)"
  shows "arithm L nest (WordArithm w) depth s = (Inr (of_int n), s)"
proof -
  have x: "ValidName x" "x \<noteq> ''LINENO''" using assms(4) by (auto simp: variable_holds_def)
  have "\<not> al_empty L w" using assms(3) by (simp add: literal_word_def)
  then show ?thesis
    unfolding arithm_literal [OF assms(3)]
    using assms(1,2) x follow_variable [OF assms(4)] by (intro value_follows) (auto simp: name_nonempty)
qed

lemma value_operand:
  assumes "reads_numbers L" "nest < maxArithRecursionDepth" "number_operand L s w n"
  shows "arithm L nest (WordArithm w) depth s = (Inr (of_int n), s)"
proof -
  obtain t where t: "literal_word L w t" "0 \<le> n \<and> t = nat_digits n \<or> variable_holds L s t (Itoa n)"
    using assms(3) by (auto simp: number_operand_def)
  from t(2) show ?thesis
  proof
    assume "0 \<le> n \<and> t = nat_digits n"
    then show ?thesis using t(1) assms(1) by (simp add: arithm_literal [OF t(1)] value_digits literal_word_def)
  next
    assume "variable_holds L s t (Itoa n)"
    then show ?thesis by (rule value_variable [OF assms(1,2) t(1)])
  qed
qed

section \<open>Evaluation over the integers\<close>

text \<open>
  The value of an expression over the unbounded integers, where it has one that every
  intermediate result leaves within 64 bits: no division by zero, no negative exponent, shifts
  by 0 to 63, no assignment.
\<close>

definition fits :: "int \<Rightarrow> int option" where
  "fits v = (if - (2 ^ 63) \<le> v \<and> v < 2 ^ 63 then Some v else None)"

fun ideal_bin :: "BinAritOperator \<Rightarrow> int \<Rightarrow> int \<Rightarrow> int option" where
  "ideal_bin Add x y = fits (x + y)"
| "ideal_bin Sub x y = fits (x - y)"
| "ideal_bin Mul x y = fits (x * y)"
| "ideal_bin Quo x y = (if y = 0 then None else fits (x sdiv y))"
| "ideal_bin Rem x y = (if y = 0 then None else fits (x smod y))"
| "ideal_bin Pow x y = (if y < 0 then None else fits (x ^ nat y))"
| "ideal_bin Eql x y = Some (of_bool (x = y))"
| "ideal_bin Gtr x y = Some (of_bool (y < x))"
| "ideal_bin Lss x y = Some (of_bool (x < y))"
| "ideal_bin Neq x y = Some (of_bool (x \<noteq> y))"
| "ideal_bin Leq x y = Some (of_bool (x \<le> y))"
| "ideal_bin Geq x y = Some (of_bool (y \<le> x))"
| "ideal_bin And x y = fits (x AND y)"
| "ideal_bin Or x y = fits (x OR y)"
| "ideal_bin Xor x y = fits (x XOR y)"
| "ideal_bin Shr x y = (if 0 \<le> y \<and> y < 64 then fits (x div 2 ^ nat y) else None)"
| "ideal_bin Shl x y = (if 0 \<le> y \<and> y < 64 then fits (x * 2 ^ nat y) else None)"
| "ideal_bin Comma x y = Some y"
| "ideal_bin _ x y = None"

fun ideal_un :: "UnAritOperator \<Rightarrow> int \<Rightarrow> int option" where
  "ideal_un Not x = Some (of_bool (x = 0))"
| "ideal_un BitNegation x = Some (- x - 1)"
| "ideal_un Plus x = Some x"
| "ideal_un Minus x = fits (- x)"
| "ideal_un _ x = None"

fun ideal :: "('w \<Rightarrow> int option) \<Rightarrow> 'w arithmExpr \<Rightarrow> int option" where
  "ideal num (WordArithm w) = (case num w of None \<Rightarrow> None | Some n \<Rightarrow> fits n)"
| "ideal num (ParenArithm x) = ideal num x"
| "ideal num (UnaryArithm op post x) = (case ideal num x of None \<Rightarrow> None | Some v \<Rightarrow> ideal_un op v)"
| "ideal num (BinaryArithm op x y) =
     (case ideal num x of
        None \<Rightarrow> None
      | Some a \<Rightarrow>
          if op = TernQuest then
            (case y of
               BinaryArithm colon x2 y2 \<Rightarrow> if a \<noteq> 0 then ideal num x2 else ideal num y2
             | _ \<Rightarrow> None)
          else if op = AndArit \<and> a = 0 then Some 0
          else if op = OrArit \<and> a \<noteq> 0 then Some 1
          else (case ideal num y of
                  None \<Rightarrow> None
                | Some b \<Rightarrow> if op = AndArit \<or> op = OrArit then Some (of_bool (b \<noteq> 0)) else ideal_bin op a b))"

definition small :: "int \<Rightarrow> bool" where
  "small v = (- (2 ^ 63) \<le> v \<and> v < 2 ^ 63)"

lemma fits_Some [simp]: "fits v = Some u \<longleftrightarrow> u = v \<and> small v"
  by (auto simp: fits_def small_def)

lemma sint_small [simp]: "small v \<Longrightarrow> sint (of_int v :: 64 word) = v"
  unfolding small_def by (simp add: sint_sbintrunc' signed_take_bit_int_eq_self_iff)

lemma of_int_small_eq [simp]: "small v \<Longrightarrow> small u \<Longrightarrow> (of_int v :: 64 word) = of_int u \<longleftrightarrow> v = u"
  using sint_small by metis

lemma of_int_small_zero [simp]: "small v \<Longrightarrow> (of_int v :: 64 word) = 0 \<longleftrightarrow> v = 0"
  using of_int_small_eq [of v 0] by (simp add: small_def)

lemma maskedShift_small: "0 \<le> y \<Longrightarrow> y < 64 \<Longrightarrow> maskedShift (of_int y) = nat y"
proof -
  assume "0 \<le> y" "y < 64"
  then obtain k where k: "y = int k" "k < 64" by (metis nonneg_int_cases of_nat_less_numeral_iff)
  have "(63 :: 64 word) = mask 6" by (simp add: mask_eq_exp_minus_1)
  then have "(of_nat k :: 64 word) AND 63 = take_bit 6 (of_nat k)" by (simp only: take_bit_eq_mask)
  moreover have "unat (take_bit 6 (of_nat k :: 64 word)) = take_bit 6 (take_bit 64 k)"
    by (simp only: unsigned_take_bit_eq unsigned_of_nat) simp
  moreover have "take_bit 6 (take_bit 64 k) = k" using k(2) by (simp add: take_bit_nat_eq_self)
  ultimately show ?thesis using k(1) by (simp only: maskedShift_def of_int_of_nat_eq nat_int)
qed

lemma signed_drop_bit_small: "small x \<Longrightarrow> signed_drop_bit n (of_int x :: 64 word) = of_int (x div 2 ^ n)"
proof -
  assume "small x"
  then have "sint (signed_drop_bit n (of_int x :: 64 word)) = x div 2 ^ n"
    by (simp add: sint_signed_drop_bit_eq drop_bit_eq_div)
  then have "(of_int (sint (signed_drop_bit n (of_int x :: 64 word))) :: 64 word) = of_int (x div 2 ^ n)" by (rule arg_cong)
  then show ?thesis by (simp only: of_int_sint scast_id)
qed

lemma small_bool [simp]: "small (of_bool b)" "small 0" "small 1"
  by (auto simp: small_def)

lemma ideal_un_small: "ideal_un op x = Some v \<Longrightarrow> small x \<Longrightarrow> small v"
  by (cases op) (auto simp: small_def fits_def split: if_splits)

lemma ideal_bin_small: "ideal_bin op x y = Some v \<Longrightarrow> small y \<Longrightarrow> small v"
  by (cases op) (auto split: if_splits)

lemma unArit_ideal: "ideal_un op x = Some v \<Longrightarrow> small x \<Longrightarrow> unArit op (of_int x) = Inr (of_int v)"
  by (cases op) (auto simp: oneIf_def not_eq_complement)

lemma binArit_ideal:
  "ideal_bin op x y = Some v \<Longrightarrow> small x \<Longrightarrow> small y \<Longrightarrow> binArit op (of_int x) (of_int y) = Inr (of_int v)"
  by (cases op)
    (auto simp: oneIf_def go_quo_def go_rem_def intPow_power maskedShift_small signed_drop_bit_small push_bit_eq_mult
        of_int_and_eq of_int_or_eq of_int_xor_eq split: if_splits)

lemma ideal_bin_operator: "ideal_bin op x y = Some v \<Longrightarrow> \<not> is_assgn op \<and> (y = 0 \<longrightarrow> op \<noteq> Quo \<and> op \<noteq> Rem)"
  by (cases op) (auto simp: is_assgn_def)

lemma no_assgn: "\<not> is_assgn AndArit" "\<not> is_assgn OrArit" "\<not> is_assgn TernQuest"
  by (simp_all add: is_assgn_def)

lemma binary_ideal:
  assumes "small a" "small b" "arithm L nest x depth s = (Inr (of_int a), s)" "arithm L nest y depth s = (Inr (of_int b), s)"
    and "op \<noteq> TernQuest" "\<not> (op = AndArit \<and> a = 0 \<or> op = OrArit \<and> a \<noteq> 0)"
    and "(if op = AndArit \<or> op = OrArit then Some (of_bool (b \<noteq> 0)) else ideal_bin op a b) = Some v"
  shows "small v \<and> arithm_switch L nest (BinaryArithm op x y) depth s = (Inr (of_int v), s)"
proof (cases "op = AndArit \<or> op = OrArit")
  case True
  with assms show ?thesis by (auto simp: arithm_switch.simps no_assgn oneIf_def)
next
  case False
  with assms have "ideal_bin op a b = Some v" by simp
  with False assms show ?thesis
    using ideal_bin_operator [of op a b v] binArit_ideal [of op a b v] ideal_bin_small [of op a b v]
    by (auto simp: arithm_switch.simps)
qed

lemma arithm_ideal:
  assumes L: "reads_numbers L" and nest: "nest < maxArithRecursionDepth"
  shows "\<forall>w n. num w = Some n \<longrightarrow> number_operand L s w n \<Longrightarrow> ideal num e = Some v \<Longrightarrow> \<not> arithExprUsesExpandedValue L e \<Longrightarrow>
    small v \<and> arithm L nest e depth s = (Inr (of_int v), s)"
proof (induction num e arbitrary: v rule: ideal.induct)
  case (1 num w)
  then show ?case using value_operand [OF L nest] by (auto split: option.splits)
next
  case (2 num x)
  then show ?case by (simp add: arithm_plain arithm_switch.simps)
next
  case (3 num op post x)
  from "3.prems"(2) obtain a where a: "ideal num x = Some a" "ideal_un op a = Some v" by (auto split: option.splits)
  then have "op \<noteq> Inc" "op \<noteq> Dec" by auto
  with a "3.IH" [OF "3.prems"(1) a(1)] "3.prems"(3) show ?case
    by (auto simp: arithm_plain [of L "UnaryArithm op post x"] arithm_switch.simps unArit_ideal dest: ideal_un_small)
next
  case (4 num op x y)
  from "4.prems"(2) obtain a where a: "ideal num x = Some a" by (auto split: option.splits)
  have plain: "arithm L nest (BinaryArithm op x y) depth s = arithm_switch L nest (BinaryArithm op x y) depth s"
    "\<not> arithExprUsesExpandedValue L x" "\<not> arithExprUsesExpandedValue L y"
    using "4.prems"(3) by (simp_all add: arithm_plain)
  note x = "4.IH"(1) [OF "4.prems"(1) a plain(2)]
  show ?case
  proof (cases "op = TernQuest")
    case True
    with a "4.prems"(2) obtain colon x2 y2 where y: "y = BinaryArithm colon x2 y2" and v: "ideal num (if a \<noteq> 0 then x2 else y2) = Some v"
      by (cases y) (auto split: if_splits)
    with "4.IH"(2,3) [OF a True y] "4.prems"(1) plain(3)
    have "small v \<and> arithm L nest (if a \<noteq> 0 then x2 else y2) depth s = (Inr (of_int v), s)" by (auto split: if_splits)
    with True x y show ?thesis unfolding plain(1) by (auto simp: arithm_switch.simps no_assgn split: if_splits)
  next
    case False
    show ?thesis
    proof (cases "op = AndArit \<and> a = 0 \<or> op = OrArit \<and> a \<noteq> 0")
      case True
      with a False x "4.prems"(2) show ?thesis unfolding plain(1) by (auto simp: arithm_switch.simps no_assgn)
    next
      case short: False
      with a False "4.prems"(2) obtain b where b: "ideal num y = Some b"
        and v: "(if op = AndArit \<or> op = OrArit then Some (of_bool (b \<noteq> 0)) else ideal_bin op a b) = Some v"
        by (auto split: option.splits if_splits)
      have y: "small b \<and> arithm L nest y depth s = (Inr (of_int b), s)"
        using "4.IH"(4) [OF a False _ _ "4.prems"(1) b plain(3)] short by blast
      with x v short False show ?thesis unfolding plain(1) by (intro binary_ideal) auto
    qed
  qed
qed

end
