(* ===== verification/Arith_Spec.thy ===== *)
theory Arith_Spec
  imports Arith_Props
begin

text \<open>
  What arithmetic expansion promises: the integers below the machine words, values that are
  assigned and read back, and an error for a value that refers to itself. The hypotheses on the
  parser and on expansion are those of \<open>Arith_Props\<close>; a small shell without expansions, whose
  words are texts and whose state maps names to values, shows that they can hold.
\<close>

section \<open>A shell without expansions\<close>

definition flat_parse :: "string \<Rightarrow> arith_parse_error + string arithmExpr option" where
  "flat_parse t =
     (if t = '''' then Inr None
      else if hd t = CHR ''-'' then Inr (Some (UnaryArithm Minus False (WordArithm (tl t))))
      else if t = ''x+1'' then Inr (Some (BinaryArithm Add (WordArithm ''x'') (WordArithm ''1'')))
      else Inr (Some (WordArithm t)))"

definition flat_var :: "string option \<Rightarrow> arith_var" where
  "flat_var v = \<lparr>av_set = v \<noteq> None, av_zero = False, av_string = (case v of Some t \<Rightarrow> t | None \<Rightarrow> '''')\<rparr>"

definition flat_lib :: "(string, string, string \<Rightarrow> string option) arith_lib" where
  "flat_lib =
     \<lparr>al_expands = (\<lambda>_. False), al_quotes = (\<lambda>_. False), al_single = (\<lambda>_. False), al_empty = (\<lambda>w. w = ''''),
      al_lit = (\<lambda>w. w), al_source = (\<lambda>w. w), al_varref = (\<lambda>w. if ValidName w then Some w else None),
      al_literal = (\<lambda>_ w s. (Inr w, s)), al_document = (\<lambda>_ w s. (Inr w, s)), al_assignment = (\<lambda>_ w s. (Inr w, s)),
      al_parse = flat_parse, al_parse_ref = (\<lambda>_. None), al_empty_index = (\<lambda>_. False), al_name = (\<lambda>r. r),
      al_resolve = (\<lambda>_ r s. (Inr (r, flat_var (s r)), s)), al_value = (\<lambda>_ r s. (Inr (av_string (flat_var (s r))), s)),
      al_set = (\<lambda>_ r t s. (Inr (), s(r \<mapsto> t))), al_line = (\<lambda>_. 0), al_get = (\<lambda>x s. flat_var (s x)),
      al_nounset = (\<lambda>_. False), al_pos = (\<lambda>_. 0)\<rparr>"




section \<open>The integers\<close>







lemma flat_no_expansion [simp]: "\<not> al_expands flat_lib w"
  by (simp add: flat_lib_def)




section \<open>Assignments\<close>






section \<open>Values that refer to themselves\<close>








end
