(* ===== verification/Spec2Isabelle.thy ===== *)
theory Spec2Isabelle
  imports MemoryFS_Edge Fifo_Props PathCheck Overlay_Props Mountable_Props Snapshot
    Network_Props Network_Addr Pattern_Props Braces_Split Trie_Clone Reusable Arith_Spec
begin

text \<open>
  \<^bold>\<open>A verification of the sandbox of gbash: file systems, path policy, network access, and the
  pattern matching, brace expansion and arithmetic of its shell.\<close>

  gbash runs shell scripts inside a sandbox: commands see a virtual file system, a policy
  decides which paths they may touch, and an allowlist which URLs they may fetch. This library
  models the parts that carry the guarantee, the file systems of package \<open>fs\<close>, the static
  policy of package \<open>policy\<close> and the client of package \<open>network\<close>, and three self-contained parts
  of the shell: shell patterns, brace expansion and arithmetic.

  \<^bold>\<open>The program's parts.\<close> All file systems implement the interface \<open>FileSystem\<close> of
  \<open>fs/fs.go\<close>. \<open>MemoryFS\<close> (\<open>fs/memory.go\<close>) keeps a tree of nodes in a map from clean paths,
  with symbolic and hard links, lazily loaded files and named pipes (\<open>fs/fifo.go\<close>).
  \<open>OverlayFS\<close> (\<open>fs/overlay.go\<close>) puts an in-memory upper layer over a lower one that it must
  not change: changes are copied up, removals leave tombstones. \<open>MountableFS\<close>
  (\<open>fs/mountable.go\<close>) routes paths to file systems mounted over a base. \<open>SnapshotFS\<close>
  (\<open>fs/snapshot.go\<close>) is a read-only clone. \<open>TrieFS\<close> (\<open>fs/trie.go\<close>) serves large static trees: a
  tree of directory entries over inodes, with a cache of sorted names in each directory; it
  implements the interface a second time, and \<open>fs/reusable.go\<close> builds such a base once and
  hands out overlays over it. \<open>fs/clone.go\<close> and \<open>fs/copy_internal.go\<close> copy trees
  between file systems for the last three; \<open>fs/limit.go\<close> caps the size of an open file.
  Before a command reaches any of these, \<open>policy.CheckPath\<close> (\<open>policy/pathcheck.go\<close>) resolves
  the path and asks the static policy (\<open>policy/policy.go\<close>). Commands that fetch URLs go through
  \<open>HTTPClient\<close> (\<open>network/network.go\<close>), which checks every URL, also those of redirects, against
  an allowlist and private address ranges; \<open>network/redact.go\<close> removes secrets from what is
  logged. Independent of these, the shell matches names with patterns
  (\<open>shell/internal/pattern\<close>, of which \<open>internal/shellpattern\<close> is a copy) and expands braces: the
  parser splits a word (\<open>shell/syntax/braces.go\<close>), the expansion multiplies it out
  (\<open>shell/expand/braces.go\<close>). Arithmetic (\<open>shell/expand/arith.go\<close>) is evaluated on 64-bit
  integers; the value of a variable is parsed and evaluated again, so a limit on nesting ends
  values that refer to themselves.

  \<^bold>\<open>The theories.\<close>
  \<^item> \<open>Prelude\<close>, \<open>GoLib\<close>, \<open>Paths\<close>: lists and strings; the errors, file modes, open flags,
    \<open>path\<close> and \<open>strings\<close> functions of Go that the source uses; \<open>Clean\<close>, \<open>Resolve\<close> and the
    other path functions of \<open>fs/fs.go\<close>, with the view of a clean path as its list of
    components (\<open>render\<close>).
  \<^item> \<open>Fifo\<close>, \<open>Fifo_Props\<close>: a pipe's buffer and ends; one pass of each waiting loop is one step.
    Order and conservation of bytes, capacity, end of file, progress.
  \<^item> \<open>MemoryFS\<close>: state (\<open>MemoryFS\<close>, \<open>memoryNode\<close>), path resolution and every operation.
    \<open>MemoryFS_Inv\<close> holds the tree invariant \<open>fs_wf\<close>; \<open>MemoryFS_Resolve\<close>, \<open>_Ops\<close>, \<open>_Move\<close>,
    \<open>_Seed\<close> and \<open>_Steps\<close> show that every operation keeps it; \<open>_Props\<close>, \<open>_Tree\<close> and \<open>_Edge\<close> what
    the operations do: round trips, exact effect on the tree, error branches.
  \<^item> \<open>Policy\<close>: allowlists and roots. \<open>Walk\<close>: the contract (a locale) that \<open>PathCheck\<close> needs of
    \<open>Lstat\<close> and \<open>Readlink\<close>, interpreted on the in-memory file system. \<open>PathCheck\<close>: what a
    checked operation opens lies under the configured roots, and where that fails.
  \<^item> \<open>Limit\<close>: the size cap over any open file.
  \<^item> \<open>FileSys\<close>, \<open>Clone\<close>: the interface as a record of methods over a state, and the two
    routines that copy trees.
  \<^item> \<open>Overlay\<close>: the overlay's state and operations. \<open>Overlay_Upper\<close>: the in-memory operations
    as an upper layer. \<open>Overlay_View\<close>: the merged view as a pure function and the locale
    \<open>lower_layer\<close>, the contract of a lower file system; \<open>_Paths\<close>, \<open>_Copy\<close>, \<open>_CopyUp\<close>: resolved
    paths and copy-up; \<open>_Ops\<close>, \<open>_Move\<close>, \<open>_Remove\<close>: the invariant through every operation,
    renames of merged trees, removal. \<open>Overlay_Memory\<close> interprets the contract on the
    in-memory file system, and \<open>Overlay_Props\<close> states the overlay's properties there.
  \<^item> \<open>Mountable\<close>, \<open>Mountable_Props\<close>: the mount table and its invariant, routing, listings,
    errors.
  \<^item> \<open>Snapshot\<close>: the read-only methods; a second interpretation of \<open>lower_layer\<close>.
  \<^item> \<open>Trie\<close>: state (\<open>TrieFS\<close>, \<open>trieDentry\<close>, \<open>trieInode\<close>) and every operation of the trie.
    \<open>Trie_Inv\<close>: its invariant \<open>trie_wf\<close> and the effect of attaching and detaching an entry on the
    lookup of a path; \<open>Trie_Ops\<close>, \<open>_Steps\<close>, \<open>_Move\<close>: resolution, and that every operation keeps
    the invariant; \<open>Trie_Props\<close>: reachable states, removal and renaming. \<open>Trie_Equiv\<close>: the relation
    between a trie and an in-memory file system that hold the same tree, resolution and listing
    on related states; \<open>Trie_Sim\<close>: the simulation (a locale of machines that answer the same
    calls) and its interpretation on the two file systems. \<open>Trie_Clone\<close>: a clone has the same
    tree and the same hard links.
  \<^item> \<open>Reusable\<close>: overlapping calls of the reusable factory.
  \<^item> \<open>GoText\<close>, \<open>GoNet\<close>: UTF-8 and more of \<open>strings\<close>; the functions of \<open>net/url\<close>, \<open>net/netip\<close> and
    \<open>net/http\<close> that the source relies on.
  \<^item> \<open>Network\<close>: the client and the redaction. \<open>Network_Props\<close>: what is sent was allowed, stays
    below the allowed path, keeps credentials at their origin, ends and is bounded; redaction is
    complete. \<open>Network_Addr\<close>: which addresses count as private, and that none is dialled.
  \<^item> \<open>Pattern\<close>: parser and matcher of extended patterns, quoting. \<open>Pattern_Match\<close>: the meaning of
    a parsed pattern as a relation, and that the matcher computes it. \<open>Pattern_Props\<close>: the
    correctness of matching, quoting and the test for metacharacters, and where they fail.
  \<^item> \<open>Braces\<close>: the split of a word and the expansion. \<open>Braces_Expand\<close>: sequences as arithmetic
    progressions, expansion as a product, the budget. \<open>Braces_Split\<close>: the split keeps the text
    and builds well-formed words, on which the expansion does not panic.
  \<^item> \<open>Arith\<close>: numbers, operators and the evaluation of expressions, also for \<open>let\<close>. \<open>Arith_Props\<close>:
    square-and-multiply against powers, printing and reading of numbers, the evaluation over
    unbounded integers. \<open>Arith_Spec\<close>: the words compute what the integers do where nothing
    overflows, assigned values are read back, self-reference is an error.

  \<^bold>\<open>Correspondence.\<close> A struct is a record, a method \<open>M\<close> of \<open>MemoryFS\<close>, \<open>OverlayFS\<close>,
  \<open>MountableFS\<close>, \<open>SnapshotFS\<close> or \<open>TrieFS\<close> is \<open>mem_M\<close>, \<open>ov_M\<close>, \<open>mt_M\<close>, \<open>sn_M\<close> or \<open>tr_M\<close>, other
  functions keep their names (with \<open>trie_\<close> first where both file systems have one). A map is an association list where its order can matter (the nodes of the
  in-memory file system, the mount table), a set or a partial function otherwise. Shared
  nodes live in a heap of the state. An operation returns an error or a value together
  with the new state; the clock is an argument. A lock makes an operation of \<open>MemoryFS\<close> one
  step; \<open>OverlayFS\<close> and \<open>MountableFS\<close> hold theirs for parts only, so their definitions are
  the sequence of steps of one caller. Node numbers, sizes and offsets are natural numbers
  or integers: they would need more than 2 to the power 63 operations or bytes to wrap. The
  bounds of a brace sequence can be any 64-bit number, so its loop works on 64-bit words; IP
  addresses and source positions are words too. What the client gets from the standard library
  and the outside is an argument: the record \<open>net_lib\<close> (URL parsing and printing, case
  conversion), a resolver, a transport and a dialler that change an opaque world. The patterns
  have the record \<open>text_lib\<close> (compilation of a bracket expression to a regular expression),
  the braces the printer of the syntax tree, and arithmetic the record \<open>arith_lib\<close>: the parser,
  the expansion of words and the variables, over an opaque state. The counter of nested
  evaluations (\<open>arithDepth\<close>), which every evaluation restores when it ends, is an argument.

  \<^bold>\<open>Loops and fuel.\<close> Path walks and symbolic link restarts end by the measures of their
  \<open>termination\<close> proofs (\<open>maxSymlinkDepth\<close> restarts), and so do redirects (\<open>maxRedirects\<close>), the
  loops of the pattern matcher and the expansion of braces; arithmetic ends by its limit of 1024
  nested evaluations (\<open>maxArithRecursionDepth\<close>). Three recursions over a directory tree
  take fuel, because their end depends on the other file system: \<open>clonePathWithInfo\<close>,
  \<open>copyPathIntoWithInfo\<close> and \<open>moveMerged\<close>; so does the copy loop \<open>io_Copy\<close>. \<open>None\<close> is a call
  that has not returned. The properties about \<open>Rename\<close> of the overlay concern the calls that
  return; the copy-up of one entry needs fuel 1, and there the call is shown to return. In the
  trie the walk along the parents (\<open>trieIsAncestor\<close>, in \<open>tr_Rename\<close>) and the recursion of
  \<open>tr_Clone\<close> take fuel: an entry of a well-formed trie lies less deep than there are entries
  (\<open>entry_depth\<close>), so as many steps are enough, and both are shown to return with them.

  \<^bold>\<open>What is not modelled.\<close> The context argument apart from pipes; concurrent callers of an
  overlay or a mount table; the host file systems (\<open>fs/host_posix.go\<close>,
  \<open>fs/readwrite_posix.go\<close>), which are system calls; the copy loops \<open>ReadFrom\<close> and \<open>WriteTo\<close> of a
  trie's handle; the rest of the shell: parser, word expansion, interpreter and the commands. What the lazy provider of a
  copied-up file reads is a parameter of the overlay. Of the network client: time-outs and the
  wording of messages. Of patterns: the translation to a regular expression, which serves
  patterns without negated groups. Of braces: parsing an expanded word again, and the source
  positions of a brace expression. Of arithmetic: the source texts that a diagnostic quotes.

  \<^bold>\<open>What could follow.\<close> The translation of patterns to regular expressions, the fidelity of tree
  copies (a clone reports what its source reports), enough fuel for renames of finite trees, and
  the parser of arithmetic, which would turn the hypotheses of \<open>Arith_Spec\<close> into lemmas.
\<close>

end
